(* ===== verification/Prelude.thy ===== *)
theory Prelude
  imports Main "HOL-Library.AList" "HOL-Library.Word" "HOL-Library.Char_ord"
    "HOL-Library.List_Lexorder" "HOL-Library.Product_Lexorder"
begin

text \<open>
  Shared ground of the development: the types that stand for the machine types of the
  C++ code, finite maps with an iteration order (for \<open>std::unordered_map\<close> and
  \<open>std::unordered_set\<close>), results that may be errors, and the proof collections the
  component theories fill.

  Integers. \<open>uint64_t\<close> values and the bit-packed \<open>int64_t\<close> cell identifiers are
  \<open>64 word\<close>. The signed \<open>int\<close>, \<open>int64_t\<close> counters and timestamps are
  mathematical integers: signed overflow is undefined behaviour in C++, and the places
  where an input can reach it (the 32 bit product in the matching service) write the
  wrap-around out with \<open>wrap32\<close>.

  Iteration order. A hash container is an association list without duplicate keys; its
  list order is one of the orders the C++ iteration may have. Properties that must not
  depend on that order are stated over \<open>map_of\<close>, sets or sorted results.
\<close>

subsection \<open>Proof collections\<close>

named_theorems result_simps \<open>case rules of results\<close>
named_theorems store_simps \<open>lookup rules of the keyed stores\<close>

subsection \<open>Machine types\<close>

type_synonym u64 = "64 word"
type_synonym cell = "64 word"

definition wrap32 :: "int \<Rightarrow> int" where
  "wrap32 x = ((x + 2147483648) mod 4294967296) - 2147483648"

lemma wrap32_id: "- 2147483648 \<le> x \<Longrightarrow> x < 2147483648 \<Longrightarrow> wrap32 x = x"
  by (simp add: wrap32_def)

lemma wrap32_range: "- 2147483648 \<le> wrap32 x \<and> wrap32 x < 2147483648"
proof -
  have "0 \<le> (x + 2147483648) mod 4294967296" "(x + 2147483648) mod 4294967296 < 4294967296"
    by simp_all
  then show ?thesis by (simp add: wrap32_def)
qed

subsection \<open>Truncating division of C++\<close>

definition cdiv :: "int \<Rightarrow> int \<Rightarrow> int" where
  "cdiv a b = (if 0 \<le> a then a div b else - ((- a) div b))"

lemma cdiv_nonneg: "0 \<le> a \<Longrightarrow> cdiv a b = a div b"
  by (simp add: cdiv_def)

lemma cdiv_mono:
  assumes "0 < b" "a \<le> a'"
  shows "cdiv a b \<le> cdiv a' b"
proof -
  have "cdiv a b \<le> 0" if "a < 0" "0 < b"
    using that by (simp add: cdiv_def pos_imp_zdiv_nonneg_iff)
  moreover have "0 \<le> cdiv a' b" if "0 \<le> a'" "0 < b"
    using that by (simp add: cdiv_def pos_imp_zdiv_nonneg_iff)
  ultimately show ?thesis
    using assms
    by (cases "0 \<le> a"; cases "0 \<le> a'") (auto simp: cdiv_def intro: zdiv_mono1)
qed

subsection \<open>Results\<close>

text \<open>\<open>Result<T, E>\<close> of \<open>common/types/result.h\<close>: \<open>Inr\<close> is \<open>ok\<close>, \<open>Inl\<close> is \<open>err\<close>.\<close>

type_synonym ('a, 'e) result = "'e + 'a"

definition is_ok :: "('a, 'e) result \<Rightarrow> bool" where
  "is_ok r = (case r of Inr _ \<Rightarrow> True | Inl _ \<Rightarrow> False)"

definition is_err :: "('a, 'e) result \<Rightarrow> bool" where
  "is_err r = (case r of Inl _ \<Rightarrow> True | Inr _ \<Rightarrow> False)"

definition value_or :: "('a, 'e) result \<Rightarrow> 'a \<Rightarrow> 'a" where
  "value_or r d = (case r of Inr v \<Rightarrow> v | Inl _ \<Rightarrow> d)"

lemma is_ok_simps [simp, result_simps]: "is_ok (Inr v)" "\<not> is_ok (Inl e)"
  by (simp_all add: is_ok_def)

lemma is_err_simps [simp, result_simps]: "is_err (Inl e)" "\<not> is_err (Inr v)"
  by (simp_all add: is_err_def)

lemma is_err_iff: "is_err r \<longleftrightarrow> \<not> is_ok r"
  by (cases r) simp_all

lemma is_ok_iff: "is_ok r \<longleftrightarrow> (\<exists>v. r = Inr v)"
  by (cases r) simp_all

text \<open>An exception of the C++ code is the value \<open>Inl\<close> of its message.\<close>

type_synonym 'a exc = "string + 'a"

fun bind_exc :: "'a exc \<Rightarrow> ('a \<Rightarrow> 'b exc) \<Rightarrow> 'b exc" where
  "bind_exc (Inl e) f = Inl e"
| "bind_exc (Inr v) f = f v"

lemma bind_exc_Inr_iff [result_simps]:
  "bind_exc m f = Inr y \<longleftrightarrow> (\<exists>x. m = Inr x \<and> f x = Inr y)"
  by (cases m) auto

lemma bind_exc_Inl_iff [result_simps]:
  "bind_exc m f = Inl e \<longleftrightarrow> m = Inl e \<or> (\<exists>x. m = Inr x \<and> f x = Inl e)"
  by (cases m) auto

subsection \<open>Hash maps and hash sets\<close>

type_synonym ('k, 'v) umap = "('k \<times> 'v) list"

definition um_put :: "'k \<Rightarrow> 'v \<Rightarrow> ('k, 'v) umap \<Rightarrow> ('k, 'v) umap" where
  "um_put k v m = AList.update k v m"

definition um_del :: "'k \<Rightarrow> ('k, 'v) umap \<Rightarrow> ('k, 'v) umap" where
  "um_del k m = AList.delete k m"

definition um_keys :: "('k, 'v) umap \<Rightarrow> 'k list" where
  "um_keys m = map fst m"

definition um_ok :: "('k, 'v) umap \<Rightarrow> bool" where
  "um_ok m = distinct (map fst m)"

lemma map_of_um_put [simp, store_simps]: "map_of (um_put k v m) = (map_of m)(k \<mapsto> v)"
  by (simp add: um_put_def update_conv')

lemma map_of_um_del [simp, store_simps]: "map_of (um_del k m) = (map_of m)(k := None)"
  by (simp add: um_del_def delete_conv')

lemma um_ok_put [simp, intro]: "um_ok m \<Longrightarrow> um_ok (um_put k v m)"
  by (simp add: um_ok_def um_put_def distinct_update)

lemma um_ok_del [simp, intro]: "um_ok m \<Longrightarrow> um_ok (um_del k m)"
  by (simp add: um_ok_def um_del_def distinct_delete)

lemma um_ok_Nil [simp]: "um_ok []"
  by (simp add: um_ok_def)

lemma um_ok_in_set: "um_ok m \<Longrightarrow> (k, v) \<in> set m \<longleftrightarrow> map_of m k = Some v"
  by (auto simp: um_ok_def)

lemma um_keys_set [simp]: "set (um_keys m) = dom (map_of m)"
  by (simp add: um_keys_def dom_map_of_conv_image_fst)

lemma um_ok_distinct_keys: "um_ok m \<Longrightarrow> distinct (um_keys m)"
  by (simp add: um_ok_def um_keys_def)

lemma um_ok_card: "um_ok m \<Longrightarrow> card (dom (map_of m)) = length m"
  using distinct_card [of "map fst m"] by (simp add: um_ok_def dom_map_of_conv_image_fst)

definition us_add :: "'a \<Rightarrow> 'a list \<Rightarrow> 'a list" where
  "us_add x xs = (if x \<in> set xs then xs else xs @ [x])"

definition us_del :: "'a \<Rightarrow> 'a list \<Rightarrow> 'a list" where
  "us_del x xs = removeAll x xs"

lemma set_us_add [simp, store_simps]: "set (us_add x xs) = insert x (set xs)"
  by (auto simp: us_add_def)

lemma set_us_del [simp, store_simps]: "set (us_del x xs) = set xs - {x}"
  by (simp add: us_del_def)

lemma distinct_us_add [simp]: "distinct xs \<Longrightarrow> distinct (us_add x xs)"
  by (simp add: us_add_def)

lemma distinct_us_del [simp]: "distinct xs \<Longrightarrow> distinct (us_del x xs)"
  by (simp add: us_del_def distinct_removeAll)

lemma us_add_not_Nil [simp]: "us_add x xs \<noteq> []"
  by (auto simp: us_add_def)

subsection \<open>Lists\<close>

lemma fold_invariant_list:
  assumes "P s" and "\<And>x s. x \<in> set xs \<Longrightarrow> P s \<Longrightarrow> P (f x s)"
  shows "P (fold f xs s)"
  using assms by (induction xs arbitrary: s) auto

lemma sorted_wrt_take: "sorted_wrt P xs \<Longrightarrow> sorted_wrt P (take n xs)"
  by (induction xs arbitrary: n) (auto simp: take_Cons' dest: in_set_takeD)

lemma map_filter_map: "List.map_filter f (map g xs) = List.map_filter (\<lambda>x. f (g x)) xs"
  by (induction xs) (auto simp: List.map_filter_def)

lemma length_map_filter: "length (List.map_filter f xs) \<le> length xs"
  by (simp add: List.map_filter_def)

lemma set_map_filter_iff: "y \<in> set (List.map_filter f xs) \<longleftrightarrow> (\<exists>x \<in> set xs. f x = Some y)"
  by (force simp: List.map_filter_def)

lemma distinct_map_filter_keyed:
  assumes "distinct xs" "\<And>x y. x \<in> set xs \<Longrightarrow> f x = Some y \<Longrightarrow> key y = x"
  shows "distinct (map key (List.map_filter f xs))"
  using assms
proof (induction xs)
  case (Cons x xs)
  show ?case
  proof (cases "f x")
    case (Some y)
    have "key y = x" using Cons.prems(2) Some by simp
    moreover have "x \<notin> key ` set (List.map_filter f xs)"
    proof
      assume "x \<in> key ` set (List.map_filter f xs)"
      then obtain z y where "z \<in> set xs" "f z = Some y" "x = key y" by (auto simp: set_map_filter_iff)
      then show False using Cons.prems(1) Cons.prems(2) [of z y] by simp
    qed
    moreover have "distinct (map key (List.map_filter f xs))" using Cons by simp
    ultimately show ?thesis using Some by (simp add: map_filter_simps)
  qed (use Cons in \<open>simp add: map_filter_simps\<close>)
qed (simp add: map_filter_simps)

lemma sorted_take_least:
  assumes "sorted_wrt R es" "e \<in> set es - set (take n es)" "a \<in> set (take n es)"
  shows "R a e"
proof -
  have "set es = set (take n es) \<union> set (drop n es)" by (metis append_take_drop_id set_append)
  then have "e \<in> set (drop n es)" using assms(2) by blast
  then show ?thesis using assms(1,3) by (metis append_take_drop_id sorted_wrt_append)
qed

end
