(* ===== verification/Float64.thy ===== *)
theory Float64
  imports Prelude Complex_Main
begin

text \<open>
  The \<open>double\<close> of the C++ code: IEEE 754 binary64 with round-to-nearest-even. A finite
  value is the rational it denotes; infinities and NaN are values of their own. The sign of
  zero is not kept (no operation of the modelled code divides by a computed zero, so the
  code cannot observe it). A \<open>float\<close> is a \<open>double\<close> whose value fits 24 bits: the code
  only copies floats and compares them with 0.

  \<open>fl\<close> rounds an exact rational; every arithmetic operation is the exact operation
  followed by \<open>fl\<close>, as the standard demands. What the component proofs need of the
  rounding is the locale \<open>rounding\<close> (monotone, odd, exact on 0), interpreted by \<open>fl\<close>.
\<close>

datatype double = NegInf | Fin rat | PosInf | NaN

subsection \<open>The order of the values, and the IEEE comparisons\<close>

text \<open>
  The class instance is a total order with NaN on top, used where the code sorts; the
  comparison operators of the code are \<open>dlt\<close>, \<open>dle\<close> and \<open>deq\<close>, false on NaN.
\<close>

instantiation double :: linorder
begin

fun less_eq_double :: "double \<Rightarrow> double \<Rightarrow> bool" where
  "less_eq_double NegInf y = True"
| "less_eq_double (Fin a) y = (case y of NegInf \<Rightarrow> False | Fin b \<Rightarrow> a \<le> b | _ \<Rightarrow> True)"
| "less_eq_double PosInf y = (y = PosInf \<or> y = NaN)"
| "less_eq_double NaN y = (y = NaN)"

definition less_double :: "double \<Rightarrow> double \<Rightarrow> bool" where
  "less_double x y = (x \<le> y \<and> \<not> y \<le> x)"

instance
proof
  fix x y z :: double
  show "(x < y) = (x \<le> y \<and> \<not> y \<le> x)" by (rule less_double_def)
  show "x \<le> x" by (cases x) auto
  show "x \<le> y \<Longrightarrow> y \<le> z \<Longrightarrow> x \<le> z"
    by (cases x; cases y; cases z) auto
  show "x \<le> y \<Longrightarrow> y \<le> x \<Longrightarrow> x = y"
    by (cases x; cases y) auto
  show "x \<le> y \<or> y \<le> x"
    by (cases x; cases y) auto
qed

end

lemma less_double_Fin [simp]: "Fin a < Fin b \<longleftrightarrow> a < b"
  by (auto simp: less_double_def)

definition dlt :: "double \<Rightarrow> double \<Rightarrow> bool" where
  "dlt x y = (x \<noteq> NaN \<and> y \<noteq> NaN \<and> x < y)"

definition dle :: "double \<Rightarrow> double \<Rightarrow> bool" where
  "dle x y = (x \<noteq> NaN \<and> y \<noteq> NaN \<and> x \<le> y)"

definition deq :: "double \<Rightarrow> double \<Rightarrow> bool" where
  "deq x y = (x \<noteq> NaN \<and> y \<noteq> NaN \<and> x = y)"

definition dfinite :: "double \<Rightarrow> bool" where
  "dfinite x = (case x of Fin _ \<Rightarrow> True | _ \<Rightarrow> False)"

lemma dfinite_simps [simp]:
  "dfinite (Fin a)" "\<not> dfinite NaN" "\<not> dfinite PosInf" "\<not> dfinite NegInf"
  by (simp_all add: dfinite_def)

lemma dfinite_iff: "dfinite x \<longleftrightarrow> (\<exists>a. x = Fin a)"
  by (cases x) auto

lemma dcompare_Fin [simp]:
  "dlt (Fin a) (Fin b) \<longleftrightarrow> a < b" "dle (Fin a) (Fin b) \<longleftrightarrow> a \<le> b" "deq (Fin a) (Fin b) \<longleftrightarrow> a = b"
  by (simp_all add: dlt_def dle_def deq_def)

subsection \<open>Binary exponent and rounding\<close>

text \<open>\<open>flog b n\<close> is the exponent of the leading digit of \<open>n > 0\<close> in base \<open>b\<close>.\<close>

fun flog :: "nat \<Rightarrow> nat \<Rightarrow> nat" where
  "flog b n = (if b < 2 \<or> n < b then 0 else Suc (flog b (n div b)))"

declare flog.simps [simp del]

lemma flog_bounds: "2 \<le> b \<Longrightarrow> 0 < n \<Longrightarrow> b ^ flog b n \<le> n \<and> n < b ^ Suc (flog b n)"
proof (induction b n rule: flog.induct)
  case (1 b n)
  show ?case
  proof (cases "n < b")
    case True
    with "1.prems" show ?thesis by (simp add: flog.simps [of b n])
  next
    case False
    then have "0 < n div b" using "1.prems" by (simp add: div_greater_zero_iff)
    with "1.IH" "1.prems" False
    have lo: "b ^ flog b (n div b) \<le> n div b" and hi: "n div b < b ^ Suc (flog b (n div b))"
      by simp_all
    have "b * b ^ flog b (n div b) \<le> b * (n div b)" using lo by simp
    also have "\<dots> \<le> n" by simp
    finally have "b * b ^ flog b (n div b) \<le> n" .
    moreover have "n < b * b ^ Suc (flog b (n div b))"
      using hi "1.prems" by (metis mult.commute less_mult_imp_div_less div_less_iff_less_mult
          less_le_trans pos2)
    ultimately show ?thesis using False "1.prems" by (simp add: flog.simps [of b n])
  qed
qed

definition scale :: "nat \<Rightarrow> int \<Rightarrow> rat" where
  "scale b e = (if 0 \<le> e then of_nat b ^ nat e else inverse (of_nat b ^ nat (- e)))"

lemma scale_powi: "scale b e = of_nat b powi e"
  by (simp add: scale_def power_int_def power_inverse [symmetric] inverse_eq_divide power_one_over)

lemma scale_pos [simp]: "0 < b \<Longrightarrow> 0 < scale b e"
  by (simp add: scale_def)

lemma scale_add: "0 < b \<Longrightarrow> scale b (j + k) = scale b j * scale b k"
  by (simp add: scale_powi power_int_add)

text \<open>The binade (decade) of a positive rational.\<close>

definition ilog :: "nat \<Rightarrow> rat \<Rightarrow> int" where
  "ilog b x = (if 1 \<le> x then int (flog b (nat \<lfloor>x\<rfloor>))
               else - int (Suc (flog b (nat (\<lceil>1 / x\<rceil> - 1)))))"

lemma ilog_bounds_ge1:
  assumes "2 \<le> b" "1 \<le> x"
  shows "scale b (ilog b x) \<le> x \<and> x < scale b (ilog b x + 1)"
proof -
  define n where "n = nat \<lfloor>x\<rfloor>"
  have "1 \<le> \<lfloor>x\<rfloor>" using assms by simp
  then have n: "0 < n" and nx: "int n = \<lfloor>x\<rfloor>" by (auto simp: n_def)
  from flog_bounds [OF assms(1) n] have lo: "b ^ flog b n \<le> n" and hi: "n < b ^ Suc (flog b n)"
    by simp_all
  have k: "ilog b x = int (flog b n)" using assms by (simp add: ilog_def n_def)
  have "(of_nat (b ^ flog b n) :: rat) \<le> of_nat n" using lo by (rule of_nat_mono)
  also have "of_nat n \<le> x" using nx by (metis of_int_floor_le of_int_of_nat_eq)
  finally have 1: "of_nat b ^ flog b n \<le> x" by simp
  have "int n < int (b ^ Suc (flog b n))" using hi by (simp only: of_nat_less_iff)
  then have "x < of_int (int (b ^ Suc (flog b n)))" by (simp only: nx floor_less_iff)
  then have 2: "x < of_nat b ^ Suc (flog b n)" by simp
  show ?thesis using 1 2 by (simp add: k scale_def nat_add_distrib)
qed

lemma ilog_bounds_lt1:
  assumes "2 \<le> b" "0 < x" "x < 1"
  shows "scale b (ilog b x) \<le> x \<and> x < scale b (ilog b x + 1)"
proof -
  define c where "c = \<lceil>1 / x\<rceil>"
  define n where "n = nat (c - 1)"
  have "1 < 1 / x" using assms by simp
  then have c: "2 \<le> c" by (simp add: c_def)
  then have n: "0 < n" and nc: "int n = c - 1" by (simp_all add: n_def)
  from flog_bounds [OF assms(1) n] have lo: "b ^ flog b n \<le> n" and hi: "n < b ^ Suc (flog b n)"
    by simp_all
  have k: "ilog b x = - int (Suc (flog b n))" using assms by (simp add: ilog_def n_def c_def)
  have "int n < int (b ^ Suc (flog b n))" using hi by (simp only: of_nat_less_iff)
  then have "c \<le> int (b ^ Suc (flog b n))" using nc by linarith
  then have "1 / x \<le> of_int (int (b ^ Suc (flog b n)))" by (simp only: c_def ceiling_le_iff)
  then have 1: "inverse (of_nat b ^ Suc (flog b n)) \<le> x"
    using assms by (simp add: field_simps)
  have "int (b ^ flog b n) \<le> int n" using lo by (simp only: of_nat_le_iff)
  then have "int (b ^ flog b n) < c" using nc by simp
  then have "of_int (int (b ^ flog b n)) < 1 / x" by (simp only: c_def less_ceiling_iff)
  then have 2: "x < inverse (of_nat b ^ flog b n)"
    using assms by (simp add: field_simps)
  have "scale b (ilog b x) = inverse (of_nat b ^ Suc (flog b n))"
    unfolding k scale_def by (simp del: power_Suc of_nat_Suc)
  moreover have "scale b (ilog b x + 1) = inverse (of_nat b ^ flog b n)"
    unfolding k scale_def by simp
  ultimately show ?thesis using 1 2 by (simp del: power_Suc)
qed

lemma ilog_bounds: "2 \<le> b \<Longrightarrow> 0 < x \<Longrightarrow> scale b (ilog b x) \<le> x \<and> x < scale b (ilog b x + 1)"
  using ilog_bounds_ge1 ilog_bounds_lt1 by (cases "1 \<le> x") auto

definition pow2 :: "int \<Rightarrow> rat" where
  "pow2 k = (if 0 \<le> k then 2 ^ nat k else inverse (2 ^ nat (- k)))"

lemma pow2_powi: "pow2 k = 2 powi k"
  by (simp add: pow2_def power_int_def power_inverse [symmetric] inverse_eq_divide power_one_over)

lemma pow2_pos [simp]: "0 < pow2 k"
  by (simp add: pow2_def)

lemma pow2_nonzero [simp]: "pow2 k \<noteq> 0"
  using pow2_pos [of k] by linarith

lemma pow2_add: "pow2 (j + k) = pow2 j * pow2 k"
  by (simp add: pow2_powi power_int_add)

lemma pow2_mono: "j \<le> k \<Longrightarrow> pow2 j \<le> pow2 k"
  by (simp add: pow2_powi power_int_increasing)

lemma pow2_strict_mono: "j < k \<Longrightarrow> pow2 j < pow2 k"
  by (simp add: pow2_powi power_int_strict_increasing)

lemma pow2_int: "0 \<le> k \<Longrightarrow> pow2 k = of_int (2 ^ nat k)"
  by (simp add: pow2_def)

lemma pow2_less_imp: "pow2 j < pow2 k \<Longrightarrow> j < k"
  by (metis leD not_le_imp_less pow2_mono)

lemma pow2_scale: "pow2 k = scale 2 k"
  by (simp add: pow2_def scale_def)

text \<open>\<open>ilog2 x\<close> is the exponent of the binade of \<open>x > 0\<close>.\<close>

definition ilog2 :: "rat \<Rightarrow> int" where
  "ilog2 x = ilog 2 x"

lemma ilog2_bounds: "0 < x \<Longrightarrow> pow2 (ilog2 x) \<le> x \<and> x < pow2 (ilog2 x + 1)"
  using ilog_bounds [of 2 x] by (simp add: ilog2_def pow2_scale)

lemma ilog2_unique:
  assumes "pow2 k \<le> x" "x < pow2 (k + 1)"
  shows "ilog2 x = k"
proof -
  have "0 < x" using assms(1) pow2_pos [of k] by linarith
  from ilog2_bounds [OF this] have "pow2 (ilog2 x) \<le> x" "x < pow2 (ilog2 x + 1)" by simp_all
  with assms have "pow2 (ilog2 x) < pow2 (k + 1)" "pow2 k < pow2 (ilog2 x + 1)" by linarith+
  then show ?thesis by (auto dest!: pow2_less_imp)
qed

lemma ilog2_mono: "0 < x \<Longrightarrow> x \<le> y \<Longrightarrow> ilog2 x \<le> ilog2 y"
proof -
  assume "0 < x" "x \<le> y"
  then have "pow2 (ilog2 x) < pow2 (ilog2 y + 1)"
    using ilog2_bounds [of x] ilog2_bounds [of y] by linarith
  then show ?thesis by (auto dest!: pow2_less_imp)
qed

text \<open>Round half to even.\<close>

definition rhe :: "rat \<Rightarrow> int" where
  "rhe z = (let f = \<lfloor>z\<rfloor>; d = z - of_int f in
     if d < 1 / 2 then f else if d > 1 / 2 then f + 1 else if even f then f else f + 1)"

lemma rhe_floor: "\<lfloor>z\<rfloor> \<le> rhe z \<and> rhe z \<le> \<lfloor>z\<rfloor> + 1"
  by (simp add: rhe_def Let_def)

lemma rhe_of_int [simp]: "rhe (of_int n) = n"
  by (simp add: rhe_def)

lemma rhe_ge_int: "of_int n \<le> z \<Longrightarrow> n \<le> rhe z"
  using rhe_floor [of z] by (simp add: le_floor_iff [symmetric])

lemma rhe_mono:
  assumes "z \<le> z'"
  shows "rhe z \<le> rhe z'"
proof (cases "\<lfloor>z\<rfloor> = \<lfloor>z'\<rfloor>")
  case True
  with assms show ?thesis by (simp add: rhe_def Let_def)
next
  case False
  then have "\<lfloor>z\<rfloor> + 1 \<le> \<lfloor>z'\<rfloor>" using floor_mono [OF assms] by linarith
  then show ?thesis using rhe_floor [of z] rhe_floor [of z'] by linarith
qed

lemma rhe_le_int: "z \<le> of_int n \<Longrightarrow> rhe z \<le> n"
  using rhe_mono [of z "of_int n"] by simp

text \<open>The exponent of the last place: 53 significant bits, not below \<open>2 ^ - 1074\<close>.\<close>

definition ulp_exp :: "rat \<Rightarrow> int" where
  "ulp_exp x = max (ilog2 x - 52) (- 1074)"

definition round_mag :: "rat \<Rightarrow> rat" where
  "round_mag x = of_int (rhe (x / pow2 (ulp_exp x))) * pow2 (ulp_exp x)"

definition fl :: "rat \<Rightarrow> double" where
  "fl x = (if x = 0 then Fin 0 else
     let y = round_mag \<bar>x\<bar> in
     if pow2 1024 \<le> y then (if 0 < x then PosInf else NegInf)
     else Fin (if 0 < x then y else - y))"

subsection \<open>Rounding of magnitudes\<close>

lemma ulp_exp_mono: "0 < x \<Longrightarrow> x \<le> y \<Longrightarrow> ulp_exp x \<le> ulp_exp y"
  using ilog2_mono [of x y] by (simp add: ulp_exp_def)

lemma round_mag_nonneg: "0 < x \<Longrightarrow> 0 \<le> round_mag x"
  unfolding round_mag_def
  by (intro mult_nonneg_nonneg) (auto intro!: rhe_ge_int simp: less_imp_le)

lemma div_pow2_le_iff: "x / pow2 e \<le> z \<longleftrightarrow> x \<le> z * pow2 e"
  by (simp add: divide_le_eq)

lemma le_div_pow2_iff: "z \<le> x / pow2 e \<longleftrightarrow> z * pow2 e \<le> x"
  by (simp add: le_divide_eq)

text \<open>A power of two above the unit in the last place bounds the rounding from both sides.\<close>

lemma pow2_split: "e \<le> k \<Longrightarrow> pow2 k = of_int (2 ^ nat (k - e)) * pow2 e"
  using pow2_add [of "k - e" e] by (simp add: pow2_int)

lemma round_mag_le_pow2:
  assumes "x \<le> pow2 k" "ulp_exp x \<le> k"
  shows "round_mag x \<le> pow2 k"
proof -
  let ?e = "ulp_exp x" and ?n = "2 ^ nat (k - ulp_exp x) :: int"
  have k: "pow2 k = of_int ?n * pow2 ?e" by (rule pow2_split [OF assms(2)])
  then have "x / pow2 ?e \<le> of_int ?n" using assms(1) by (simp add: div_pow2_le_iff)
  then have "rhe (x / pow2 ?e) \<le> ?n" by (rule rhe_le_int)
  then have "(of_int (rhe (x / pow2 ?e)) :: rat) \<le> of_int ?n" by (simp only: of_int_le_iff)
  then show ?thesis by (simp add: round_mag_def k mult_right_mono less_imp_le)
qed

lemma round_mag_ge_pow2:
  assumes "pow2 k \<le> x" "ulp_exp x \<le> k"
  shows "pow2 k \<le> round_mag x"
proof -
  let ?e = "ulp_exp x" and ?n = "2 ^ nat (k - ulp_exp x) :: int"
  have k: "pow2 k = of_int ?n * pow2 ?e" by (rule pow2_split [OF assms(2)])
  then have "of_int ?n \<le> x / pow2 ?e" using assms(1) by (simp add: le_div_pow2_iff)
  then have "?n \<le> rhe (x / pow2 ?e)" by (rule rhe_ge_int)
  then have "(of_int ?n :: rat) \<le> of_int (rhe (x / pow2 ?e))" by (simp only: of_int_le_iff)
  then show ?thesis by (simp add: round_mag_def k mult_right_mono less_imp_le)
qed

lemma round_mag_mono:
  assumes "0 < x" "x \<le> y"
  shows "round_mag x \<le> round_mag y"
proof (cases "ulp_exp x = ulp_exp y")
  case True
  have "x / pow2 (ulp_exp y) \<le> y / pow2 (ulp_exp y)"
    using assms by (simp add: divide_right_mono less_imp_le)
  from rhe_mono [OF this] show ?thesis
    by (simp add: round_mag_def True mult_right_mono less_imp_le)
next
  case False
  with ulp_exp_mono [OF assms] have lt: "ulp_exp x < ulp_exp y" by simp
  define k where "k = ilog2 y"
  from lt have ey: "ulp_exp y = k - 52"
    by (simp add: ulp_exp_def k_def max_def split: if_splits)
  from lt have "ilog2 x < k" by (simp add: ulp_exp_def k_def max_def split: if_splits)
  have y: "pow2 k \<le> y" using ilog2_bounds [of y] assms by (simp add: k_def)
  have "x < pow2 (ilog2 x + 1)" using ilog2_bounds [of x] assms by simp
  also have "\<dots> \<le> pow2 k" using \<open>ilog2 x < k\<close> by (intro pow2_mono) simp
  finally have "round_mag x \<le> pow2 k"
    using lt ey by (intro round_mag_le_pow2) auto
  also have "pow2 k \<le> round_mag y" using y ey by (intro round_mag_ge_pow2) auto
  finally show ?thesis .
qed

text \<open>Values with at most 53 significant bits round to themselves.\<close>

lemma round_mag_exact: "x = of_int m * pow2 (ulp_exp x) \<Longrightarrow> round_mag x = x"
  unfolding round_mag_def by (metis nonzero_mult_div_cancel_right pow2_nonzero rhe_of_int)

lemma round_mag_pow2: "- 1074 \<le> k \<Longrightarrow> round_mag (pow2 k) = pow2 k"
proof -
  assume k: "- 1074 \<le> k"
  have "ilog2 (pow2 k) = k"
    by (rule ilog2_unique) (simp_all add: pow2_add [of k 1] pow2_def [of 1])
  then have "ulp_exp (pow2 k) \<le> k" using k by (simp add: ulp_exp_def)
  from pow2_split [OF this] show ?thesis by (rule round_mag_exact)
qed

subsection \<open>The rounding as an interface\<close>

locale rounding =
  fixes r :: "rat \<Rightarrow> double"
  assumes round_zero: "r 0 = Fin 0"
    and round_mono: "x \<le> y \<Longrightarrow> r x \<le> r y"
    and round_not_nan: "r x \<noteq> NaN"
    and round_pow2: "0 \<le> k \<Longrightarrow> k < 1024 \<Longrightarrow> r (pow2 k) = Fin (pow2 k)"
    and round_neg_pow2: "0 \<le> k \<Longrightarrow> k < 1024 \<Longrightarrow> r (- pow2 k) = Fin (- pow2 k)"
begin

lemma round_nonneg: "0 \<le> x \<Longrightarrow> Fin 0 \<le> r x"
  using round_mono [of 0 x] by (simp add: round_zero)

lemma round_nonpos: "x \<le> 0 \<Longrightarrow> r x \<le> Fin 0"
  using round_mono [of x 0] by (simp add: round_zero)

lemma round_bounded:
  assumes "0 \<le> k" "k < 1024" "\<bar>x\<bar> \<le> pow2 k"
  obtains a where "r x = Fin a" "\<bar>a\<bar> \<le> pow2 k"
proof -
  have "r (- pow2 k) \<le> r x" "r x \<le> r (pow2 k)"
    using assms(3) by (auto intro!: round_mono)
  then have "Fin (- pow2 k) \<le> r x" "r x \<le> Fin (pow2 k)"
    using assms by (simp_all add: round_pow2 round_neg_pow2)
  then show ?thesis using that by (cases "r x") auto
qed

end

lemma fl_zero [simp]: "fl 0 = Fin 0"
  by (simp add: fl_def)

lemma fl_pos: "0 < x \<Longrightarrow>
  fl x = (if pow2 1024 \<le> round_mag x then PosInf else Fin (round_mag x))"
  by (simp add: fl_def Let_def)

lemma fl_neg: "x < 0 \<Longrightarrow>
  fl x = (if pow2 1024 \<le> round_mag (- x) then NegInf else Fin (- round_mag (- x)))"
  by (simp add: fl_def Let_def)

fun dneg :: "double \<Rightarrow> double" where
  "dneg NegInf = PosInf"
| "dneg (Fin a) = Fin (- a)"
| "dneg PosInf = NegInf"
| "dneg NaN = NaN"

lemma dneg_dneg [simp]: "dneg (dneg x) = x"
  by (cases x) auto

lemma dneg_le_iff: "x \<noteq> NaN \<Longrightarrow> y \<noteq> NaN \<Longrightarrow> dneg x \<le> dneg y \<longleftrightarrow> y \<le> x"
  by (cases x; cases y) auto

lemma fl_uminus: "fl (- x) = dneg (fl x)"
  by (cases x "0 :: rat" rule: linorder_cases) (auto simp: fl_pos fl_neg)

lemma fl_not_nan: "fl x \<noteq> NaN"
  by (simp add: fl_def Let_def)

lemma fl_mono_pos: "0 < x \<Longrightarrow> x \<le> y \<Longrightarrow> fl x \<le> fl y"
  using round_mag_mono [of x y] by (auto simp: fl_pos)

lemma fl_nonneg: "0 \<le> x \<Longrightarrow> Fin 0 \<le> fl x"
  using round_mag_nonneg [of x] by (cases "x = 0") (auto simp: fl_pos)

lemma fl_mono: assumes "x \<le> y" shows "fl x \<le> fl y"
proof -
  consider "0 < x" | "x \<le> 0" "0 \<le> y" | "y < 0" using assms by linarith
  then show ?thesis
  proof cases
    case 1
    then show ?thesis using assms by (rule fl_mono_pos)
  next
    case 2
    have "Fin 0 \<le> dneg (fl x)" using fl_nonneg [of "- x"] 2 by (simp add: fl_uminus)
    then have "fl x \<le> Fin 0" using fl_not_nan [of x] by (cases "fl x") auto
    also have "Fin 0 \<le> fl y" using 2 by (intro fl_nonneg)
    finally show ?thesis .
  next
    case 3
    then have "fl (- y) \<le> fl (- x)" using assms by (intro fl_mono_pos) auto
    then show ?thesis by (simp add: fl_uminus dneg_le_iff fl_not_nan)
  qed
qed

lemma fl_pow2: "- 1074 \<le> k \<Longrightarrow> k < 1024 \<Longrightarrow> fl (pow2 k) = Fin (pow2 k)"
  using pow2_strict_mono [of k 1024] by (simp add: fl_pos round_mag_pow2 not_le)

interpretation ieee: rounding fl
proof
  fix k :: int
  assume k: "0 \<le> k" "k < 1024"
  then show "fl (pow2 k) = Fin (pow2 k)" by (simp add: fl_pow2)
  with k show "fl (- pow2 k) = Fin (- pow2 k)" by (simp add: fl_uminus)
qed (simp_all add: fl_mono fl_not_nan)

subsection \<open>Arithmetic\<close>

fun dadd :: "double \<Rightarrow> double \<Rightarrow> double" where
  "dadd (Fin a) (Fin b) = fl (a + b)"
| "dadd NaN y = NaN"
| "dadd x NaN = NaN"
| "dadd PosInf NegInf = NaN"
| "dadd NegInf PosInf = NaN"
| "dadd PosInf y = PosInf"
| "dadd NegInf y = NegInf"
| "dadd x PosInf = PosInf"
| "dadd x NegInf = NegInf"

definition dsub :: "double \<Rightarrow> double \<Rightarrow> double" where
  "dsub x y = dadd x (dneg y)"

definition dinf_mul :: "double \<Rightarrow> rat \<Rightarrow> double" where
  "dinf_mul i a = (if a = 0 then NaN else if 0 < a then i else dneg i)"

fun dmul :: "double \<Rightarrow> double \<Rightarrow> double" where
  "dmul (Fin a) (Fin b) = fl (a * b)"
| "dmul NaN y = NaN"
| "dmul x NaN = NaN"
| "dmul (Fin a) i = dinf_mul i a"
| "dmul i (Fin a) = dinf_mul i a"
| "dmul PosInf i = i"
| "dmul NegInf i = dneg i"

fun ddiv :: "double \<Rightarrow> double \<Rightarrow> double" where
  "ddiv (Fin a) (Fin b) =
     (if b = 0 then (if a = 0 then NaN else if 0 < a then PosInf else NegInf) else fl (a / b))"
| "ddiv NaN y = NaN"
| "ddiv x NaN = NaN"
| "ddiv (Fin a) i = Fin 0"
| "ddiv i (Fin a) = (if a < 0 then dneg i else i)"
| "ddiv i j = NaN"

definition dabs :: "double \<Rightarrow> double" where
  "dabs x = (if dlt x (Fin 0) then dneg x else x)"

definition d_of_int :: "int \<Rightarrow> double" where
  "d_of_int i = fl (of_int i)"

lemma dsub_Fin [simp]: "dsub (Fin a) (Fin b) = fl (a - b)"
  by (simp add: dsub_def)

lemma dabs_Fin [simp]: "dabs (Fin a) = Fin \<bar>a\<bar>"
  by (auto simp: dabs_def)

lemma dmul_commute: "dmul x y = dmul y x"
  by (cases x; cases y) (auto simp: mult.commute dinf_mul_def)

lemma dneg_cancel_mul: "dmul (dmul x (dneg y)) (dneg y) = dmul (dmul x y) y"
proof -
  have "dmul a (dneg b) = dneg (dmul a b)" for a b
    by (cases a; cases b) (auto simp: fl_uminus dinf_mul_def)
  moreover have "dmul (dneg a) b = dneg (dmul a b)" for a b
    by (cases a; cases b) (auto simp: fl_uminus dinf_mul_def)
  ultimately show ?thesis by simp
qed

subsection \<open>Exact results\<close>

text \<open>A rational with at most 53 significant bits is a \<open>double\<close> and is not changed by rounding.\<close>

lemma round_mag_53:
  assumes "0 < m" "m < 2 ^ 53" "- 1074 \<le> e" and x: "x = of_int m * pow2 e"
  shows "round_mag x = x"
proof -
  have pos: "0 < x" using assms by simp
  have "x < of_int (2 ^ 53) * pow2 e"
    unfolding x using assms(2) by (intro mult_strict_right_mono) (simp_all del: of_int_power)
  then have "x < pow2 (53 + e)" by (simp add: pow2_add pow2_int)
  moreover have "pow2 (ilog2 x) \<le> x" using ilog2_bounds [OF pos] by simp
  ultimately have "ilog2 x < 53 + e" using pow2_less_imp by (meson le_less_trans)
  then have "ulp_exp x \<le> e" using assms(3) by (simp add: ulp_exp_def)
  then have "x = of_int (m * 2 ^ nat (e - ulp_exp x)) * pow2 (ulp_exp x)"
    using x pow2_split [of "ulp_exp x" e] by simp
  then show ?thesis by (rule round_mag_exact)
qed

lemma fl_53:
  assumes "\<bar>m\<bar> < 2 ^ 53" "- 1074 \<le> e" "e \<le> 970" and x: "x = of_int m * pow2 e"
  shows "fl x = Fin x"
proof -
  have small: "of_int j * pow2 e < pow2 1024" if "j < 2 ^ 53" for j :: int
  proof -
    have "of_int j * pow2 e < of_int (2 ^ 53) * pow2 e"
      using that by (intro mult_strict_right_mono) (simp_all del: of_int_power)
    also have "\<dots> = pow2 (53 + e)" by (simp add: pow2_add pow2_int)
    also have "\<dots> \<le> pow2 1024" using assms(3) by (intro pow2_mono) simp
    finally show ?thesis .
  qed
  consider "m = 0" | "0 < m" | "m < 0" by linarith
  then show ?thesis
  proof cases
    case 2
    then have "round_mag x = x" using assms by (intro round_mag_53) auto
    with 2 small [of m] assms show ?thesis by (simp add: fl_pos)
  next
    case 3
    then have "round_mag (- x) = - x" using assms by (intro round_mag_53 [of "- m" e]) auto
    with 3 small [of "- m"] assms show ?thesis
      by (simp add: fl_neg mult_less_0_iff)
  qed (simp add: x)
qed

lemma fl_of_int: "\<bar>i\<bar> < 2 ^ 53 \<Longrightarrow> fl (of_int i) = Fin (of_int i)"
  by (rule fl_53 [of i 0]) (simp_all add: pow2_def)

lemma d_of_int_Fin: "\<bar>i\<bar> < 2 ^ 53 \<Longrightarrow> d_of_int i = Fin (of_int i)"
  by (simp add: d_of_int_def fl_of_int)

subsection \<open>Evaluation of closed roundings\<close>

lemma floor_rat_numeral: "\<lfloor>(numeral a :: rat) / numeral b\<rfloor> = numeral a div numeral b"
  using floor_divide_of_int_eq [of "numeral a" "numeral b", where 'a = rat] by simp

lemma floor_rat_one_numeral: "\<lfloor>(1 :: rat) / numeral b\<rfloor> = 1 div numeral b"
  using floor_divide_of_int_eq [of 1 "numeral b", where 'a = rat] by simp

lemma ceiling_rat_numeral: "\<lceil>(numeral a :: rat) / numeral b\<rceil> = - ((- numeral a) div numeral b)"
  using ceiling_divide_eq_div [of "numeral a" "numeral b", where 'a = rat] by simp

lemmas fl_eval = fl_def round_mag_def ulp_exp_def ilog2_def ilog_def rhe_def flog.simps pow2_def Let_def
  floor_rat_numeral floor_rat_one_numeral ceiling_rat_numeral

end
