(* ===== verification/Domain.thy ===== *)
theory Domain
  imports Prelude Float64
begin

text \<open>
  The domain types of \<open>common/types/\<close>, the service lifecycle of \<open>common/admin/lifecycle\<close>,
  and the conversions between their enumerations and strings. A field keeps the name it has
  in the code behind a short prefix that names its struct (\<open>le_\<close> for \<open>LocationEvent\<close>,
  \<open>ds_\<close> for \<open>DeviceState\<close>, and so on), because HOL record selectors are global names.
  The \<open>float\<close> fields (altitude, accuracy, speed, heading) are only carried along and
  printed by the code, so they share the type \<open>double\<close>, of which every float is a value.
  The initial values of the C++ members are the \<open>_default\<close> records.
\<close>

subsection \<open>Locations and device state\<close>

record location_event =
  le_device_id :: string
  le_lat :: double
  le_lon :: double
  le_altitude_m :: double
  le_accuracy_m :: double
  le_speed_ms :: double
  le_heading_deg :: double
  le_timestamp_ms :: int
  le_server_recv_ms :: int
  le_seq :: u64
  le_metadata :: "(string, string) umap"

definition location_event_default :: location_event where
  "location_event_default = \<lparr>le_device_id = [], le_lat = Fin 0, le_lon = Fin 0,
     le_altitude_m = Fin 0, le_accuracy_m = Fin 0, le_speed_ms = Fin 0, le_heading_deg = Fin 0,
     le_timestamp_ms = 0, le_server_recv_ms = 0, le_seq = 0, le_metadata = []\<rparr>"

record device_state =
  ds_device_id :: string
  ds_lat :: double
  ds_lon :: double
  ds_altitude_m :: double
  ds_accuracy_m :: double
  ds_speed_ms :: double
  ds_heading_deg :: double
  ds_h3_cell :: cell
  ds_seq :: u64
  ds_updated_at :: int

definition device_state_default :: device_state where
  "device_state_default = \<lparr>ds_device_id = [], ds_lat = Fin 0, ds_lon = Fin 0,
     ds_altitude_m = Fin 0, ds_accuracy_m = Fin 0, ds_speed_ms = Fin 0, ds_heading_deg = Fin 0,
     ds_h3_cell = 0, ds_seq = 0, ds_updated_at = 0\<rparr>"

subsection \<open>Geofences\<close>

datatype fence_state = OUTSIDE | INSIDE | DWELL

datatype geofence_event_type = Ev_ENTER | Ev_EXIT | Ev_DWELL

record fence_state_record =
  fs_device_id :: string
  fs_fence_id :: string
  fs_state :: fence_state
  fs_entered_at_ms :: int
  fs_updated_at_ms :: int

record geofence_rule =
  gr_fence_id :: string
  gr_name :: string
  gr_polygon_vertices :: "(double \<times> double) list"
  gr_h3_cells :: "cell list"
  gr_dwell_threshold_s :: int
  gr_active :: bool
  gr_complex_geometry :: bool

record geofence_event_record =
  ge_device_id :: string
  ge_fence_id :: string
  ge_fence_name :: string
  ge_event_type :: geofence_event_type
  ge_lat :: double
  ge_lon :: double
  ge_event_ts_ms :: int
  ge_inside_duration_s :: int

definition fence_state_record_default :: fence_state_record where
  "fence_state_record_default = \<lparr>fs_device_id = [], fs_fence_id = [], fs_state = OUTSIDE,
     fs_entered_at_ms = 0, fs_updated_at_ms = 0\<rparr>"

definition geofence_rule_default :: geofence_rule where
  "geofence_rule_default = \<lparr>gr_fence_id = [], gr_name = [], gr_polygon_vertices = [],
     gr_h3_cells = [], gr_dwell_threshold_s = 300, gr_active = True, gr_complex_geometry = False\<rparr>"

text \<open>The event type has no initial value in the code; every maker of a record sets it.\<close>

definition geofence_event_default :: "geofence_event_type \<Rightarrow> geofence_event_record" where
  "geofence_event_default t = \<lparr>ge_device_id = [], ge_fence_id = [], ge_fence_name = [],
     ge_event_type = t, ge_lat = Fin 0, ge_lon = Fin 0, ge_event_ts_ms = 0, ge_inside_duration_s = 0\<rparr>"

fun fence_state_to_string :: "fence_state \<Rightarrow> string" where
  "fence_state_to_string OUTSIDE = ''OUTSIDE''"
| "fence_state_to_string INSIDE = ''INSIDE''"
| "fence_state_to_string DWELL = ''DWELL''"

definition fence_state_from_string :: "string \<Rightarrow> fence_state" where
  "fence_state_from_string s =
     (if s = ''INSIDE'' then INSIDE else if s = ''DWELL'' then DWELL else OUTSIDE)"

fun geofence_event_type_to_string :: "geofence_event_type \<Rightarrow> string" where
  "geofence_event_type_to_string Ev_ENTER = ''ENTER''"
| "geofence_event_type_to_string Ev_EXIT = ''EXIT''"
| "geofence_event_type_to_string Ev_DWELL = ''DWELL''"

definition geofence_event_type_from_string :: "string \<Rightarrow> geofence_event_type" where
  "geofence_event_type_from_string s =
     (if s = ''EXIT'' then Ev_EXIT else if s = ''DWELL'' then Ev_DWELL else Ev_ENTER)"

lemma fence_state_string_inverse: "fence_state_from_string (fence_state_to_string s) = s"
  by (cases s) (simp_all add: fence_state_from_string_def)

lemma event_type_string_inverse:
  "geofence_event_type_from_string (geofence_event_type_to_string t) = t"
  by (cases t) (simp_all add: geofence_event_type_from_string_def)

subsection \<open>Matching\<close>

datatype match_status = MATCHED | FAILED | EXPIRED

record match_request =
  mr_request_id :: string
  mr_requester_id :: string
  mr_lat :: double
  mr_lon :: double
  mr_radius_m :: double
  mr_max_agents :: int
  mr_deadline_ms :: int
  mr_strategy :: string

definition match_request_default :: match_request where
  "match_request_default = \<lparr>mr_request_id = [], mr_requester_id = [], mr_lat = Fin 0,
     mr_lon = Fin 0, mr_radius_m = Fin 0, mr_max_agents = 1, mr_deadline_ms = 0, mr_strategy = []\<rparr>"

record match_candidate =
  mc_agent_id :: string
  mc_lat :: double
  mc_lon :: double
  mc_distance_m :: double
  mc_available :: bool

record match_result =
  mres_request_id :: string
  mres_status :: match_status
  mres_assigned_agent_ids :: "string list"
  mres_reason :: string
  mres_latency_ms :: int

definition match_result_default :: match_result where
  "match_result_default = \<lparr>mres_request_id = [], mres_status = FAILED,
     mres_assigned_agent_ids = [], mres_reason = [], mres_latency_ms = 0\<rparr>"

definition matched :: "match_result \<Rightarrow> bool" where
  "matched r = (mres_status r = MATCHED \<and> mres_assigned_agent_ids r \<noteq> [])"

subsection \<open>Service lifecycle\<close>

datatype lifecycle_state = Stopped | Starting | Ready | Draining | LFailed

record health_snapshot =
  hs_state :: lifecycle_state
  hs_live :: bool
  hs_ready :: bool
  hs_detail :: string

fun lifecycle_state_to_string :: "lifecycle_state \<Rightarrow> string" where
  "lifecycle_state_to_string Stopped = ''stopped''"
| "lifecycle_state_to_string Starting = ''starting''"
| "lifecycle_state_to_string Ready = ''ready''"
| "lifecycle_state_to_string Draining = ''draining''"
| "lifecycle_state_to_string LFailed = ''failed''"

definition stopped_health :: "string \<Rightarrow> health_snapshot" where
  "stopped_health d = \<lparr>hs_state = Stopped, hs_live = False, hs_ready = False, hs_detail = d\<rparr>"

definition starting_health :: "string \<Rightarrow> health_snapshot" where
  "starting_health d = \<lparr>hs_state = Starting, hs_live = True, hs_ready = False, hs_detail = d\<rparr>"

definition ready_health :: "string \<Rightarrow> health_snapshot" where
  "ready_health d = \<lparr>hs_state = Ready, hs_live = True, hs_ready = True, hs_detail = d\<rparr>"

definition draining_health :: "string \<Rightarrow> health_snapshot" where
  "draining_health d = \<lparr>hs_state = Draining, hs_live = True, hs_ready = False, hs_detail = d\<rparr>"

definition failed_health :: "string \<Rightarrow> health_snapshot" where
  "failed_health d = \<lparr>hs_state = LFailed, hs_live = False, hs_ready = False, hs_detail = d\<rparr>"

lemmas health_defs = stopped_health_def starting_health_def ready_health_def
  draining_health_def failed_health_def

lemma ready_implies_live:
  "h \<in> {stopped_health d, starting_health d, ready_health d, draining_health d, failed_health d}
   \<Longrightarrow> hs_ready h \<Longrightarrow> hs_live h \<and> hs_state h = Ready"
  by (auto simp: health_defs)

subsection \<open>Coordinates\<close>

text \<open>
  The predicate \<open>valid_lat_lon\<close> appears three times in the code, word for word: in
  \<open>h3_index.cpp\<close>, \<open>query_service.cpp\<close> and \<open>domain_conversions.cpp\<close>.
\<close>

definition valid_lat_lon :: "double \<Rightarrow> double \<Rightarrow> bool" where
  "valid_lat_lon lat lon = (dfinite lat \<and> dfinite lon \<and>
     dle (Fin (- 90)) lat \<and> dle lat (Fin 90) \<and>
     dle (Fin (- 180)) lon \<and> dle lon (Fin 180))"

lemma valid_lat_lon_iff: "valid_lat_lon lat lon \<longleftrightarrow>
  (\<exists>a b. lat = Fin a \<and> lon = Fin b \<and> - 90 \<le> a \<and> a \<le> 90 \<and> - 180 \<le> b \<and> b \<le> 180)"
  by (auto simp: valid_lat_lon_def dfinite_iff)

end
