(* ===== verification/Wire.thy ===== *)
theory Wire
  imports Domain
begin

text \<open>
  The transport messages of \<open>common/proto/wire_types.h\<close> and the conversions of
  \<open>domain_conversions.cpp\<close> between them and the domain types. \<open>to_wire\<close> is overloaded in
  the code; here each overload has the name of its argument type behind it. A conversion
  from the wire checks its message and answers the first check that fails. The lemmas show
  the round trips, which messages are refused, and what is normalised on the way in.
\<close>

subsection \<open>Messages\<close>

record location_event_message =
  lm_device_id :: string
  lm_lat :: double
  lm_lon :: double
  lm_altitude_m :: double
  lm_accuracy_m :: double
  lm_speed_ms :: double
  lm_heading_deg :: double
  lm_timestamp_ms :: int
  lm_server_recv_ms :: int
  lm_seq :: u64
  lm_metadata :: "(string, string) umap"

record device_state_response_message =
  dm_device_id :: string
  dm_lat :: double
  dm_lon :: double
  dm_altitude_m :: double
  dm_accuracy_m :: double
  dm_speed_ms :: double
  dm_heading_deg :: double
  dm_h3_cell :: cell
  dm_seq :: u64
  dm_updated_at :: int

datatype geofence_event_type_message = GEOFENCE_ENTER | GEOFENCE_EXIT | GEOFENCE_DWELL

record geofence_event_message =
  gm_device_id :: string
  gm_fence_id :: string
  gm_fence_name :: string
  gm_event_type :: geofence_event_type_message
  gm_lat :: double
  gm_lon :: double
  gm_event_ts_ms :: int
  gm_inside_duration_s :: int

record match_request_message =
  qm_request_id :: string
  qm_requester_id :: string
  qm_lat :: double
  qm_lon :: double
  qm_radius_m :: double
  qm_max_agents :: int
  qm_deadline_ms :: int
  qm_strategy :: string
  qm_metadata :: "(string, string) umap"

datatype match_status_message = MATCH_SUCCESS | MATCH_NO_CANDIDATES | MATCH_FAILED | MATCH_EXPIRED

record match_result_message =
  rm_request_id :: string
  rm_requester_id :: string
  rm_status :: match_status_message
  rm_assigned_agent_ids :: "string list"
  rm_latency_ms :: int
  rm_strategy :: string
  rm_failure_reason :: string

subsection \<open>Conversions\<close>

fun to_wire_type :: "geofence_event_type \<Rightarrow> geofence_event_type_message" where
  "to_wire_type Ev_ENTER = GEOFENCE_ENTER"
| "to_wire_type Ev_EXIT = GEOFENCE_EXIT"
| "to_wire_type Ev_DWELL = GEOFENCE_DWELL"

fun from_wire_type :: "geofence_event_type_message \<Rightarrow> geofence_event_type" where
  "from_wire_type GEOFENCE_ENTER = Ev_ENTER"
| "from_wire_type GEOFENCE_EXIT = Ev_EXIT"
| "from_wire_type GEOFENCE_DWELL = Ev_DWELL"

fun to_wire_status :: "match_status \<Rightarrow> match_status_message" where
  "to_wire_status MATCHED = MATCH_SUCCESS"
| "to_wire_status EXPIRED = MATCH_EXPIRED"
| "to_wire_status FAILED = MATCH_FAILED"

fun from_wire_status :: "match_status_message \<Rightarrow> match_status" where
  "from_wire_status MATCH_SUCCESS = MATCHED"
| "from_wire_status MATCH_EXPIRED = EXPIRED"
| "from_wire_status MATCH_NO_CANDIDATES = FAILED"
| "from_wire_status MATCH_FAILED = FAILED"

definition to_wire_location :: "location_event \<Rightarrow> location_event_message" where
  "to_wire_location e = \<lparr>lm_device_id = le_device_id e, lm_lat = le_lat e, lm_lon = le_lon e,
     lm_altitude_m = le_altitude_m e, lm_accuracy_m = le_accuracy_m e,
     lm_speed_ms = le_speed_ms e, lm_heading_deg = le_heading_deg e,
     lm_timestamp_ms = le_timestamp_ms e, lm_server_recv_ms = le_server_recv_ms e,
     lm_seq = le_seq e, lm_metadata = le_metadata e\<rparr>"

definition location_event_from_wire :: "location_event_message \<Rightarrow> (location_event, string) result" where
  "location_event_from_wire m =
     (if lm_device_id m = [] then Inl ''device_id is required''
      else if \<not> valid_lat_lon (lm_lat m) (lm_lon m) then Inl ''invalid coordinates''
      else Inr \<lparr>le_device_id = lm_device_id m, le_lat = lm_lat m, le_lon = lm_lon m,
         le_altitude_m = lm_altitude_m m, le_accuracy_m = lm_accuracy_m m,
         le_speed_ms = lm_speed_ms m, le_heading_deg = lm_heading_deg m,
         le_timestamp_ms = lm_timestamp_ms m, le_server_recv_ms = lm_server_recv_ms m,
         le_seq = lm_seq m, le_metadata = lm_metadata m\<rparr>)"

definition to_wire_state :: "device_state \<Rightarrow> device_state_response_message" where
  "to_wire_state s = \<lparr>dm_device_id = ds_device_id s, dm_lat = ds_lat s, dm_lon = ds_lon s,
     dm_altitude_m = ds_altitude_m s, dm_accuracy_m = ds_accuracy_m s,
     dm_speed_ms = ds_speed_ms s, dm_heading_deg = ds_heading_deg s,
     dm_h3_cell = ds_h3_cell s, dm_seq = ds_seq s, dm_updated_at = ds_updated_at s\<rparr>"

definition to_wire_geofence :: "geofence_event_record \<Rightarrow> geofence_event_message" where
  "to_wire_geofence e = \<lparr>gm_device_id = ge_device_id e, gm_fence_id = ge_fence_id e,
     gm_fence_name = ge_fence_name e, gm_event_type = to_wire_type (ge_event_type e),
     gm_lat = ge_lat e, gm_lon = ge_lon e, gm_event_ts_ms = ge_event_ts_ms e,
     gm_inside_duration_s = ge_inside_duration_s e\<rparr>"

definition geofence_event_from_wire ::
  "geofence_event_message \<Rightarrow> (geofence_event_record, string) result" where
  "geofence_event_from_wire m =
     (if gm_device_id m = [] then Inl ''device_id is required''
      else if gm_fence_id m = [] then Inl ''fence_id is required''
      else if \<not> valid_lat_lon (gm_lat m) (gm_lon m) then Inl ''invalid coordinates''
      else Inr \<lparr>ge_device_id = gm_device_id m, ge_fence_id = gm_fence_id m,
         ge_fence_name = gm_fence_name m, ge_event_type = from_wire_type (gm_event_type m),
         ge_lat = gm_lat m, ge_lon = gm_lon m, ge_event_ts_ms = gm_event_ts_ms m,
         ge_inside_duration_s = gm_inside_duration_s m\<rparr>)"

definition to_wire_match_request :: "match_request \<Rightarrow> match_request_message" where
  "to_wire_match_request r = \<lparr>qm_request_id = mr_request_id r, qm_requester_id = mr_requester_id r,
     qm_lat = mr_lat r, qm_lon = mr_lon r, qm_radius_m = mr_radius_m r,
     qm_max_agents = mr_max_agents r, qm_deadline_ms = mr_deadline_ms r,
     qm_strategy = mr_strategy r, qm_metadata = []\<rparr>"

definition match_request_from_wire :: "match_request_message \<Rightarrow> (match_request, string) result" where
  "match_request_from_wire m =
     (if qm_request_id m = [] then Inl ''request_id is required''
      else if \<not> valid_lat_lon (qm_lat m) (qm_lon m) then Inl ''invalid coordinates''
      else if \<not> dfinite (qm_radius_m m) \<or> dle (qm_radius_m m) (Fin 0)
        then Inl ''radius_m must be positive''
      else Inr \<lparr>mr_request_id = qm_request_id m, mr_requester_id = qm_requester_id m,
         mr_lat = qm_lat m, mr_lon = qm_lon m, mr_radius_m = qm_radius_m m,
         mr_max_agents = (if 0 < qm_max_agents m then qm_max_agents m else 1),
         mr_deadline_ms = qm_deadline_ms m, mr_strategy = qm_strategy m\<rparr>)"

definition to_wire_match_result :: "match_result \<Rightarrow> string \<Rightarrow> string \<Rightarrow> match_result_message" where
  "to_wire_match_result r requester_id strategy =
     \<lparr>rm_request_id = mres_request_id r, rm_requester_id = requester_id,
      rm_status = to_wire_status (mres_status r),
      rm_assigned_agent_ids = mres_assigned_agent_ids r, rm_latency_ms = mres_latency_ms r,
      rm_strategy = strategy, rm_failure_reason = mres_reason r\<rparr>"

definition match_result_from_wire :: "match_result_message \<Rightarrow> (match_result, string) result" where
  "match_result_from_wire m =
     (if rm_request_id m = [] then Inl ''request_id is required''
      else Inr \<lparr>mres_request_id = rm_request_id m, mres_status = from_wire_status (rm_status m),
         mres_assigned_agent_ids = rm_assigned_agent_ids m,
         mres_reason = (if rm_status m = MATCH_NO_CANDIDATES \<and> rm_failure_reason m = []
                        then ''no candidates'' else rm_failure_reason m),
         mres_latency_ms = rm_latency_ms m\<rparr>)"

subsection \<open>Round trips and refusals\<close>

lemma from_wire_type_inverse [simp]: "from_wire_type (to_wire_type t) = t"
  by (cases t) simp_all

lemma to_wire_type_inverse [simp]: "to_wire_type (from_wire_type t) = t"
  by (cases t) simp_all

lemma from_wire_status_inverse [simp]: "from_wire_status (to_wire_status s) = s"
  by (cases s) simp_all

lemma to_wire_status_known [simp]: "to_wire_status s \<noteq> MATCH_NO_CANDIDATES"
  by (cases s) simp_all

lemma location_wire_roundtrip:
  "location_event_from_wire (to_wire_location e) =
     (if le_device_id e = [] then Inl ''device_id is required''
      else if \<not> valid_lat_lon (le_lat e) (le_lon e) then Inl ''invalid coordinates'' else Inr e)"
  by (simp add: location_event_from_wire_def to_wire_location_def)

lemma location_wire_surjective:
  "location_event_from_wire m = Inr e \<Longrightarrow> to_wire_location e = m"
  by (auto simp: location_event_from_wire_def to_wire_location_def split: if_splits)

lemma geofence_wire_surjective:
  "geofence_event_from_wire m = Inr e \<Longrightarrow> to_wire_geofence e = m"
  by (auto simp: geofence_event_from_wire_def to_wire_geofence_def split: if_splits)

lemma match_request_wire_normalised:
  assumes "match_request_from_wire m = Inr r"
  shows "mr_request_id r \<noteq> [] \<and> valid_lat_lon (mr_lat r) (mr_lon r) \<and> dlt (Fin 0) (mr_radius_m r)
         \<and> 1 \<le> mr_max_agents r \<and> match_request_from_wire (to_wire_match_request r) = Inr r"
  using assms
  by (cases "mr_radius_m r")
    (auto simp: match_request_from_wire_def to_wire_match_request_def dfinite_def dle_def dlt_def
      split: if_splits)

lemma match_result_wire_roundtrip:
  assumes "mres_request_id r \<noteq> []"
  shows "match_result_from_wire (to_wire_match_result r q s) = Inr r"
  using assms by (simp add: match_result_from_wire_def to_wire_match_result_def)

end
