(* ===== verification/Text.thy ===== *)
theory Text
  imports Prelude Float64
begin

text \<open>
  The text conversions of the C++ standard library that the code uses: \<open>std::to_string\<close>,
  \<open>std::stoi\<close>, \<open>std::stol\<close>/\<open>std::stoll\<close>, \<open>std::stoull\<close>, \<open>std::stod\<close>, the default
  \<open>ostream\<close> output of integers and doubles (\<open>%g\<close> with six significant digits), and
  splitting with \<open>std::getline\<close>. Characters are bytes. A conversion yields the value and
  the unread rest; \<open>Inl\<close> is the exception it throws. \<open>stod\<close> throws on overflow and on
  an inexact subnormal result, as the C library reports both with \<open>ERANGE\<close>.
\<close>

subsection \<open>Character classes\<close>

definition code_of :: "char \<Rightarrow> nat" where
  "code_of c = of_char c"

definition is_space :: "char \<Rightarrow> bool" where
  "is_space c = (code_of c = 32 \<or> (9 \<le> code_of c \<and> code_of c \<le> 13))"

definition is_digit :: "char \<Rightarrow> bool" where
  "is_digit c = (48 \<le> code_of c \<and> code_of c \<le> 57)"

definition to_lower :: "char \<Rightarrow> char" where
  "to_lower c = (if 65 \<le> code_of c \<and> code_of c \<le> 90 then char_of (code_of c + 32) else c)"

definition is_hex :: "char \<Rightarrow> bool" where
  "is_hex c = (is_digit c \<or> (97 \<le> code_of (to_lower c) \<and> code_of (to_lower c) \<le> 102))"

definition digit_val :: "char \<Rightarrow> nat" where
  "digit_val c = (if is_digit c then code_of c - 48 else code_of (to_lower c) - 87)"

definition digit_char :: "nat \<Rightarrow> char" where
  "digit_char d = char_of (48 + d)"

lemma code_of_digit_char: "d < 10 \<Longrightarrow> code_of (digit_char d) = 48 + d"
  by (simp add: code_of_def digit_char_def)

lemma is_digit_digit_char [simp]: "d < 10 \<Longrightarrow> is_digit (digit_char d)"
  by (simp add: is_digit_def code_of_digit_char)

lemma digit_val_digit_char [simp]: "d < 10 \<Longrightarrow> digit_val (digit_char d) = d"
  by (simp add: digit_val_def code_of_digit_char)

lemma digit_not_space: "is_digit c \<Longrightarrow> \<not> is_space c"
  by (auto simp: is_digit_def is_space_def)

subsection \<open>Printing integers\<close>

fun show_nat :: "nat \<Rightarrow> string" where
  "show_nat n = (if n < 10 then [digit_char n] else show_nat (n div 10) @ [digit_char (n mod 10)])"

declare show_nat.simps [simp del]

definition show_int :: "int \<Rightarrow> string" where
  "show_int i = (if i < 0 then CHR ''-'' # show_nat (nat (- i)) else show_nat (nat i))"

definition digits_value :: "nat \<Rightarrow> string \<Rightarrow> nat" where
  "digits_value b ds = foldl (\<lambda>a c. b * a + digit_val c) 0 ds"

lemma show_nat_digits: "\<forall>c \<in> set (show_nat n). is_digit c"
proof (induction n rule: show_nat.induct)
  case (1 n)
  then show ?case by (subst show_nat.simps) auto
qed

lemma show_nat_not_Nil [simp]: "show_nat n \<noteq> []"
  by (subst show_nat.simps) simp

lemma digits_value_snoc: "digits_value b (ds @ [c]) = b * digits_value b ds + digit_val c"
  by (simp add: digits_value_def)

lemma digits_value_show_nat [simp]: "digits_value 10 (show_nat n) = n"
proof (induction n rule: show_nat.induct)
  case (1 n)
  show ?case
  proof (cases "n < 10")
    case True
    then show ?thesis by (subst show_nat.simps) (simp add: digits_value_def)
  next
    case False
    with 1 show ?thesis by (subst show_nat.simps) (simp add: digits_value_snoc)
  qed
qed

subsection \<open>Parsing integers\<close>

definition skip_space :: "string \<Rightarrow> string" where
  "skip_space s = dropWhile is_space s"

text \<open>The optional sign: true when it is a minus.\<close>

definition read_sign :: "string \<Rightarrow> bool \<times> string" where
  "read_sign s = (case s of [] \<Rightarrow> (False, [])
     | c # t \<Rightarrow> if c = CHR ''-'' then (True, t) else if c = CHR ''+'' then (False, t) else (False, s))"

definition read_int :: "string \<Rightarrow> (bool \<times> nat \<times> string) option" where
  "read_int s = (let (neg, t) = read_sign (skip_space s); ds = takeWhile is_digit t in
     if ds = [] then None else Some (neg, digits_value 10 ds, dropWhile is_digit t))"

definition sto_ll :: "string \<Rightarrow> (int \<times> string) exc" where
  "sto_ll s = (case read_int s of None \<Rightarrow> Inl ''stoll''
     | Some (neg, n, rest) \<Rightarrow> let v = (if neg then - int n else int n) in
         if - (2 ^ 63) \<le> v \<and> v < 2 ^ 63 then Inr (v, rest) else Inl ''stoll'')"

definition sto_ull :: "string \<Rightarrow> (u64 \<times> string) exc" where
  "sto_ull s = (case read_int s of None \<Rightarrow> Inl ''stoull''
     | Some (neg, n, rest) \<Rightarrow>
         if n < 2 ^ 64 then Inr (if neg then - of_nat n else of_nat n, rest) else Inl ''stoull'')"

definition sto_i :: "string \<Rightarrow> (int \<times> string) exc" where
  "sto_i s = (case read_int s of None \<Rightarrow> Inl ''stoi''
     | Some (neg, n, rest) \<Rightarrow> let v = (if neg then - int n else int n) in
         if - (2 ^ 31) \<le> v \<and> v < 2 ^ 31 then Inr (v, rest) else Inl ''stoi'')"

lemma takeWhile_stop: "rest = [] \<or> \<not> P (hd rest) \<Longrightarrow> takeWhile P rest = []"
  by (cases rest) auto

lemma dropWhile_stop: "rest = [] \<or> \<not> P (hd rest) \<Longrightarrow> dropWhile P rest = rest"
  by (cases rest) auto

lemma takeWhile_all_digits [simp]: "\<forall>c \<in> set ds. P c \<Longrightarrow> takeWhile P ds = ds"
  by (simp add: takeWhile_eq_all_conv)

lemma dropWhile_all_digits [simp]: "\<forall>c \<in> set ds. P c \<Longrightarrow> dropWhile P ds = []"
  by simp

lemma read_sign_digits:
  assumes "is_digit c"
  shows "read_sign (c # t) = (False, c # t)"
  using assms by (auto simp: read_sign_def is_digit_def code_of_def)

lemma skip_space_digits: "is_digit c \<Longrightarrow> skip_space (c # t) = c # t"
  by (simp add: skip_space_def digit_not_space)

lemma read_int_digits:
  assumes "\<forall>c \<in> set ds. is_digit c" "ds \<noteq> []" "rest = [] \<or> \<not> is_digit (hd rest)"
  shows "read_int (ds @ rest) = Some (False, digits_value 10 ds, rest)"
proof -
  obtain c t where ds: "ds = c # t" using assms(2) by (cases ds) auto
  with assms(1) have c: "is_digit c" by simp
  have "skip_space (ds @ rest) = ds @ rest" "read_sign (ds @ rest) = (False, ds @ rest)"
    using c by (simp_all add: ds skip_space_digits read_sign_digits)
  then show ?thesis
    using assms by (simp add: read_int_def takeWhile_stop dropWhile_stop)
qed

lemma read_int_show_nat [simp]: "read_int (show_nat n) = Some (False, n, [])"
  using read_int_digits [of "show_nat n" "[]"] show_nat_digits by simp

lemma read_int_minus_show_nat [simp]: "read_int (CHR ''-'' # show_nat n) = Some (True, n, [])"
  by (simp add: read_int_def skip_space_def read_sign_def is_space_def code_of_def
      show_nat_digits)

lemma sto_ll_show_int: "- (2 ^ 63) \<le> i \<Longrightarrow> i < 2 ^ 63 \<Longrightarrow> sto_ll (show_int i) = Inr (i, [])"
  by (auto simp: sto_ll_def show_int_def Let_def nat_le_iff nat_less_iff)

lemma sto_i_show_int: "- (2 ^ 31) \<le> i \<Longrightarrow> i < 2 ^ 31 \<Longrightarrow> sto_i (show_int i) = Inr (i, [])"
  by (auto simp: sto_i_def show_int_def Let_def nat_le_iff nat_less_iff)

lemma sto_ull_show_nat: "sto_ull (show_nat (unat w)) = Inr (w, [])"
proof -
  have "unat w < 2 ^ LENGTH(64)" by (rule unsigned_less)
  then show ?thesis by (simp add: sto_ull_def)
qed

subsection \<open>Parsing doubles\<close>

text \<open>A mantissa: digits, an optional point and more digits, at least one digit in all.\<close>

definition read_mantissa :: "(char \<Rightarrow> bool) \<Rightarrow> nat \<Rightarrow> string \<Rightarrow> (nat \<times> nat \<times> string) option" where
  "read_mantissa dig b s =
     (let i = takeWhile dig s; r = dropWhile dig s;
          (f, r') = (case r of c # t \<Rightarrow> if c = CHR ''.'' then (takeWhile dig t, dropWhile dig t) else ([], r)
                     | [] \<Rightarrow> ([], r))
      in if i = [] \<and> f = [] then None else Some (digits_value b (i @ f), length f, r'))"

definition read_exponent :: "char \<Rightarrow> string \<Rightarrow> int \<times> string" where
  "read_exponent mark s = (case s of [] \<Rightarrow> (0, s)
     | c # t \<Rightarrow> if to_lower c = mark
         then (let (neg, u) = read_sign t; ds = takeWhile is_digit u; n = int (digits_value 10 ds)
               in if ds = [] then (0, s) else (if neg then - n else n, dropWhile is_digit u))
         else (0, s))"

definition prefix_ci :: "string \<Rightarrow> string \<Rightarrow> bool" where
  "prefix_ci p s = (map to_lower (take (length p) s) = p)"

definition nan_rest :: "string \<Rightarrow> string" where
  "nan_rest t = (case t of c # u \<Rightarrow>
     if c = CHR ''('' then (let w = takeWhile (\<lambda>d. is_digit d \<or> d = CHR ''_'' \<or>
            (97 \<le> code_of (to_lower d) \<and> code_of (to_lower d) \<le> 122)) u
        in (case drop (length w) u of d # v \<Rightarrow> if d = CHR '')'' then v else t | [] \<Rightarrow> t))
     else t | [] \<Rightarrow> t)"

text \<open>The exact number a text denotes, before rounding: \<open>Inl\<close> for infinity and NaN.\<close>

definition read_number :: "string \<Rightarrow> ((double + rat) \<times> string) option" where
  "read_number t =
     (if prefix_ci ''infinity'' t then Some (Inl PosInf, drop 8 t)
      else if prefix_ci ''inf'' t then Some (Inl PosInf, drop 3 t)
      else if prefix_ci ''nan'' t then Some (Inl NaN, nan_rest (drop 3 t))
      else if prefix_ci ''0x'' t \<and> read_mantissa is_hex 16 (drop 2 t) \<noteq> None then
        (case read_mantissa is_hex 16 (drop 2 t) of None \<Rightarrow> None
         | Some (m, k, r) \<Rightarrow> let (e, r') = read_exponent (CHR ''p'') r in
             Some (Inr (of_nat m * scale 16 (- int k) * scale 2 e), r'))
      else (case read_mantissa is_digit 10 t of None \<Rightarrow> None
         | Some (m, k, r) \<Rightarrow> let (e, r') = read_exponent (CHR ''e'') r in
             Some (Inr (of_nat m * scale 10 (e - int k)), r')))"

definition range_error :: "rat \<Rightarrow> bool" where
  "range_error x = (case fl x of Fin y \<Rightarrow> x \<noteq> 0 \<and> \<bar>y\<bar> < pow2 (- 1022) \<and> y \<noteq> x | _ \<Rightarrow> True)"

definition sto_d :: "string \<Rightarrow> (double \<times> string) exc" where
  "sto_d s = (let (neg, t) = read_sign (skip_space s) in
     case read_number t of None \<Rightarrow> Inl ''stod''
     | Some (Inl d, r) \<Rightarrow> Inr (if neg then dneg d else d, r)
     | Some (Inr x, r) \<Rightarrow> let v = (if neg then - x else x) in
         if range_error v then Inl ''stod'' else Inr (fl v, r))"

subsection \<open>Printing doubles\<close>

text \<open>Six significant digits and the exponent after rounding.\<close>

definition sig6 :: "rat \<Rightarrow> nat \<times> int" where
  "sig6 x = (let e = ilog 10 x; n = nat (rhe (x * scale 10 (5 - e)))
     in if n = 1000000 then (100000, e + 1) else (n, e))"

definition strip_zeros :: "string \<Rightarrow> string" where
  "strip_zeros s = rev (dropWhile (\<lambda>c. c = CHR ''0'') (rev s))"

definition with_fraction :: "string \<Rightarrow> string \<Rightarrow> string" where
  "with_fraction i f = (if f = [] then i else i @ CHR ''.'' # f)"

definition show_exponent :: "int \<Rightarrow> string" where
  "show_exponent e = (if e < 0 then ''e-'' else ''e+'') @
     (let d = show_nat (nat \<bar>e\<bar>) in if length d < 2 then CHR ''0'' # d else d)"

definition show_magnitude :: "rat \<Rightarrow> string" where
  "show_magnitude x = (let (n, e) = sig6 x; ds = show_nat n in
     if - 4 \<le> e \<and> e < 6 then
       (if 0 \<le> e then with_fraction (take (nat e + 1) ds) (strip_zeros (drop (nat e + 1) ds))
        else with_fraction ''0'' (strip_zeros (replicate (nat (- e - 1)) CHR ''0'' @ ds)))
     else with_fraction (take 1 ds) (strip_zeros (drop 1 ds)) @ show_exponent e)"

definition show_double :: "double \<Rightarrow> string" where
  "show_double d = (case d of NaN \<Rightarrow> ''nan'' | PosInf \<Rightarrow> ''inf'' | NegInf \<Rightarrow> ''-inf''
     | Fin x \<Rightarrow> if x = 0 then ''0''
                else if x < 0 then CHR ''-'' # show_magnitude (- x) else show_magnitude x)"

subsection \<open>Splitting and joining\<close>

text \<open>
  \<open>std::getline(in, field, d)\<close> until the stream ends: the fields between the delimiters,
  without a last empty field.
\<close>

fun split_on :: "char \<Rightarrow> string \<Rightarrow> string list" where
  "split_on d [] = [[]]"
| "split_on d (c # s) = (if c = d then [] # split_on d s
     else (case split_on d s of [] \<Rightarrow> [[c]] | f # fs \<Rightarrow> (c # f) # fs))"

definition getline_fields :: "char \<Rightarrow> string \<Rightarrow> string list" where
  "getline_fields d s = (let fs = split_on d s in if last fs = [] then butlast fs else fs)"

fun join_on :: "char \<Rightarrow> string list \<Rightarrow> string" where
  "join_on d [] = []"
| "join_on d [f] = f"
| "join_on d (f # g # fs) = f @ d # join_on d (g # fs)"

lemma split_on_not_Nil [simp]: "split_on d s \<noteq> []"
  by (induction s) (auto split: list.splits)

lemma split_on_no_delim [simp]: "d \<notin> set s \<Longrightarrow> split_on d s = [s]"
  by (induction s) auto

lemma split_on_append: "d \<notin> set f \<Longrightarrow> split_on d (f @ d # s) = f # split_on d s"
  by (induction f) auto

lemma split_on_join:
  "fs \<noteq> [] \<Longrightarrow> \<forall>f \<in> set fs. d \<notin> set f \<Longrightarrow> split_on d (join_on d fs) = fs"
  by (induction d fs rule: join_on.induct) (auto simp: split_on_append)

lemma getline_join:
  assumes "fs \<noteq> []" "\<forall>f \<in> set fs. d \<notin> set f" "last fs \<noteq> []"
  shows "getline_fields d (join_on d fs) = fs"
  using assms by (simp add: getline_fields_def split_on_join)

subsection \<open>Reading back what was printed\<close>

lemma digits_value_append:
  "digits_value b (xs @ ys) = digits_value b xs * b ^ length ys + digits_value b ys"
proof (induction ys rule: rev_induct)
  case (snoc y ys)
  then show ?case
    by (simp add: append_assoc [symmetric] digits_value_snoc algebra_simps del: append_assoc)
qed (simp add: digits_value_def)

lemma digits_value_zeros [simp]: "digits_value b (replicate k CHR ''0'') = 0"
proof (induction k)
  case (Suc k)
  have "digit_val CHR ''0'' = 0" by (simp add: digit_val_def is_digit_def code_of_def)
  with Suc show ?case by (simp add: replicate_append_same [symmetric] digits_value_snoc
        del: replicate_append_same)
qed (simp add: digits_value_def)

lemma digits_value_leading_zero [simp]: "digits_value b (CHR ''0'' # ds) = digits_value b ds"
  using digits_value_append [of b "[CHR ''0'']" ds] digits_value_zeros [of b 1] by simp

lemma strip_zeros_decomp:
  "s = strip_zeros s @ replicate (length s - length (strip_zeros s)) CHR ''0''"
proof -
  let ?z = "takeWhile (\<lambda>c. c = CHR ''0'') (rev s)"
  have "rev s = ?z @ dropWhile (\<lambda>c. c = CHR ''0'') (rev s)" by simp
  then have "s = strip_zeros s @ rev ?z"
    unfolding strip_zeros_def by (metis rev_append rev_rev_ident)
  moreover have "?z = replicate (length ?z) CHR ''0''"
    by (auto simp: list_eq_iff_nth_eq dest: set_takeWhileD nth_mem)
  then have "rev ?z = replicate (length ?z) CHR ''0''"
    by (metis rev_replicate)
  moreover from calculation(1) have "length s = length (strip_zeros s) + length ?z"
    by (metis length_append length_rev)
  ultimately show ?thesis by (metis add_diff_cancel_left')
qed

lemma set_strip_zeros: "set (strip_zeros s) \<subseteq> set s"
  unfolding strip_zeros_def by (auto dest: set_dropWhileD)

lemma strip_zeros_value:
  "of_nat (digits_value 10 (i @ strip_zeros f)) * scale 10 (- int (length (strip_zeros f)))
   = of_nat (digits_value 10 (i @ f)) * scale 10 (- int (length f))"
proof -
  let ?g = "strip_zeros f" and ?k = "length f - length (strip_zeros f)"
  have f: "f = ?g @ replicate ?k CHR ''0''" by (rule strip_zeros_decomp)
  have len: "length f = length ?g + ?k" by (metis f length_append length_replicate)
  have "digits_value 10 (i @ f) = digits_value 10 ((i @ ?g) @ replicate ?k CHR ''0'')"
    using f by simp
  also have "\<dots> = digits_value 10 (i @ ?g) * 10 ^ ?k"
    by (subst digits_value_append) simp
  finally have v: "digits_value 10 (i @ f) = digits_value 10 (i @ ?g) * 10 ^ ?k" .
  have "scale 10 (- int (length ?g)) = 10 ^ ?k * scale 10 (- int (length f))"
  proof -
    have "- int (length ?g) = int ?k + - int (length f)" using len by linarith
    then have "scale 10 (- int (length ?g)) = scale 10 (int ?k) * scale 10 (- int (length f))"
      by (simp only: scale_add [of 10])
    then show ?thesis by (simp add: scale_def [of 10 "int ?k"])
  qed
  then show ?thesis by (simp add: v)
qed

lemma length_show_nat: "n < 10 ^ Suc k \<Longrightarrow> k = 0 \<or> 10 ^ k \<le> n \<Longrightarrow> length (show_nat n) = Suc k"
proof (induction k arbitrary: n)
  case 0
  then show ?case by (simp add: show_nat.simps [of n])
next
  case (Suc k)
  have "(10::nat) \<le> 10 ^ Suc k" by simp
  with Suc.prems have "\<not> n < 10" by linarith
  moreover have "n div 10 < 10 ^ Suc k" using Suc.prems by (simp add: less_mult_imp_div_less)
  moreover have "10 ^ k \<le> n div 10" using Suc.prems by (simp add: less_eq_div_iff_mult_less_eq)
  ultimately show ?case using Suc.IH [of "n div 10"] by (simp add: show_nat.simps [of n])
qed

lemma rhe_error: "\<bar>of_int (rhe z) - z\<bar> \<le> 1 / 2"
proof -
  have "0 \<le> z - of_int \<lfloor>z\<rfloor>" "z - of_int \<lfloor>z\<rfloor> < 1"
    by (simp_all add: algebra_simps) linarith
  then show ?thesis by (auto simp: rhe_def Let_def abs_le_iff)
qed

lemma sig6_spec:
  assumes "0 < x" "sig6 x = (n, e)"
  shows "100000 \<le> n \<and> n < 1000000 \<and> (e = ilog 10 x \<or> e = ilog 10 x + 1 \<and> n = 100000) \<and>
         \<bar>of_nat n * scale 10 (e - 5) - x\<bar> \<le> scale 10 (ilog 10 x - 5) / 2"
proof -
  define E where "E = ilog 10 x"
  define z where "z = x * scale 10 (5 - E)"
  have b: "scale 10 E \<le> x" "x < scale 10 (E + 1)"
    using ilog_bounds [of 10 x] assms(1) by (simp_all add: E_def)
  have pos: "0 < scale 10 (5 - E)" "0 < scale 10 (E - 5)" by simp_all
  have inv: "scale 10 (5 - E) * scale 10 (E - 5) = 1"
    using scale_add [of 10 "5 - E" "E - 5"] by (simp add: scale_def)
  have "scale 10 5 = scale 10 E * scale 10 (5 - E)" using scale_add [of 10 E "5 - E"] by simp
  then have s5: "scale 10 E * scale 10 (5 - E) = 100000" by (simp add: scale_def)
  have "scale 10 6 = scale 10 (E + 1) * scale 10 (5 - E)" using scale_add [of 10 "E + 1" "5 - E"] by simp
  then have s6: "scale 10 (E + 1) * scale 10 (5 - E) = 1000000" by (simp add: scale_def)
  have z1: "100000 \<le> z" unfolding z_def s5 [symmetric] using b(1) pos by (simp add: mult_right_mono)
  have z2: "z < 1000000" unfolding z_def s6 [symmetric] using b(2) pos by simp
  have r1: "100000 \<le> rhe z" using z1 by (intro rhe_ge_int) simp
  have r2: "rhe z \<le> 1000000" using z2 by (intro rhe_le_int) simp
  have zx: "z * scale 10 (E - 5) = x" using inv by (simp add: z_def mult.assoc)
  have "of_int (rhe z) * scale 10 (E - 5) - x = (of_int (rhe z) - z) * scale 10 (E - 5)"
    by (simp add: left_diff_distrib zx)
  then have "\<bar>of_int (rhe z) * scale 10 (E - 5) - x\<bar> = \<bar>of_int (rhe z) - z\<bar> * scale 10 (E - 5)"
    using pos(2) by (simp only: abs_mult abs_of_pos)
  also have "\<dots> \<le> 1 / 2 * scale 10 (E - 5)" using rhe_error [of z] pos(2)
    by (intro mult_right_mono) (simp_all add: less_imp_le)
  finally have err: "\<bar>of_int (rhe z) * scale 10 (E - 5) - x\<bar> \<le> scale 10 (E - 5) / 2" by simp
  have s4: "scale 10 (E - 4) = 10 * scale 10 (E - 5)"
    using scale_add [of 10 1 "E - 5"] by (simp add: scale_def [of 10 1])
  have n: "nat (rhe z) = 1000000 \<longleftrightarrow> rhe z = 1000000" by auto
  have cast: "(of_nat (nat (rhe z)) :: rat) = of_int (rhe z)" using r1 by simp
  show ?thesis
  proof (cases "rhe z = 1000000")
    case True
    then have "n = 100000" "e = E + 1"
      using assms(2) by (simp_all add: sig6_def Let_def z_def E_def)
    with err True s4 show ?thesis by (simp add: E_def)
  next
    case False
    then have "n = nat (rhe z)" "e = E"
      using assms(2) n by (auto simp: sig6_def Let_def z_def E_def)
    with err False r1 r2 cast show ?thesis by (simp add: E_def nat_less_iff le_nat_iff)
  qed
qed

text \<open>A plain decimal reads back as the rational it denotes.\<close>

lemma digit_not_special:
  assumes "is_digit c"
  shows "c \<noteq> CHR ''.''" "c \<noteq> CHR ''-''" "c \<noteq> CHR ''+''" "c \<noteq> CHR '',''" "c \<noteq> CHR '';''"
    "to_lower c = c" "c \<noteq> CHR ''i''" "c \<noteq> CHR ''n''" "c \<noteq> CHR ''x''"
  using assms by (auto simp: is_digit_def code_of_def to_lower_def)

lemma read_mantissa_fraction:
  assumes "\<forall>c \<in> set i. is_digit c" "\<forall>c \<in> set f. is_digit c" "i \<noteq> []"
  shows "read_mantissa is_digit 10 (with_fraction i f) = Some (digits_value 10 (i @ f), length f, [])"
proof -
  have dot: "\<not> is_digit CHR ''.''" by (simp add: is_digit_def code_of_def)
  show ?thesis
    using assms dot by (auto simp: read_mantissa_def with_fraction_def Let_def)
qed

lemma prefix_ci_Cons: "prefix_ci (a # p) (c # t) \<longleftrightarrow> to_lower c = a \<and> prefix_ci p t"
  by (simp add: prefix_ci_def)

lemma not_prefix_special:
  assumes "is_digit c" "t = [] \<or> hd t = CHR ''.'' \<or> is_digit (hd t)"
  shows "\<not> prefix_ci ''infinity'' (c # t)" "\<not> prefix_ci ''inf'' (c # t)"
    "\<not> prefix_ci ''nan'' (c # t)" "\<not> prefix_ci ''0x'' (c # t)"
proof -
  have c: "to_lower c = c" "c \<noteq> CHR ''i''" "c \<noteq> CHR ''n''"
    using digit_not_special [OF assms(1)] by simp_all
  then show "\<not> prefix_ci ''infinity'' (c # t)" "\<not> prefix_ci ''inf'' (c # t)"
    "\<not> prefix_ci ''nan'' (c # t)"
    by (simp_all only: prefix_ci_Cons simp_thms)
  have "\<not> prefix_ci ''x'' t"
  proof (cases t)
    case Nil
    then show ?thesis by (simp add: prefix_ci_def)
  next
    case (Cons d u)
    have "to_lower CHR ''.'' \<noteq> CHR ''x''" by (simp add: to_lower_def code_of_def)
    moreover have "is_digit d \<Longrightarrow> to_lower d \<noteq> CHR ''x''"
      using digit_not_special [of d] by simp
    ultimately have "to_lower d \<noteq> CHR ''x''" using assms(2) Cons by auto
    then show ?thesis by (simp only: Cons prefix_ci_Cons simp_thms)
  qed
  then show "\<not> prefix_ci ''0x'' (c # t)" by (simp only: prefix_ci_Cons simp_thms)
qed

lemma with_fraction_Cons:
  assumes "\<forall>c \<in> set i. is_digit c" "i \<noteq> []"
  obtains c u where "with_fraction i f = c # u" "is_digit c"
    "u = [] \<or> hd u = CHR ''.'' \<or> is_digit (hd u)"
proof -
  obtain c t where i: "i = c # t" using assms(2) by (cases i) auto
  define u where "u = t @ (if f = [] then [] else CHR ''.'' # f)"
  have "with_fraction i f = c # u" by (simp add: with_fraction_def i u_def)
  moreover have "u = [] \<or> hd u = CHR ''.'' \<or> is_digit (hd u)"
    using assms(1) by (cases t) (simp_all add: i u_def)
  moreover have "is_digit c" using assms(1) i by simp
  ultimately show ?thesis using that by blast
qed

lemma read_number_fraction:
  assumes "\<forall>c \<in> set i. is_digit c" "\<forall>c \<in> set f. is_digit c" "i \<noteq> []"
  shows "read_number (with_fraction i f) =
    Some (Inr (of_nat (digits_value 10 (i @ f)) * scale 10 (- int (length f))), [])"
proof -
  obtain c u where w: "with_fraction i f = c # u" "is_digit c"
    "u = [] \<or> hd u = CHR ''.'' \<or> is_digit (hd u)"
    using with_fraction_Cons [OF assms(1,3)] by blast
  have m: "read_mantissa is_digit 10 (c # u) = Some (digits_value 10 (i @ f), length f, [])"
    using read_mantissa_fraction [OF assms] by (simp only: w(1))
  show ?thesis
    unfolding read_number_def w(1)
    by (simp only: not_prefix_special [OF w(2,3)] m if_False simp_thms option.case prod.case
        read_exponent_def list.case Let_def) simp
qed

lemma sto_d_fraction:
  assumes "\<forall>c \<in> set i. is_digit c" "\<forall>c \<in> set f. is_digit c" "i \<noteq> []"
    and v: "v = of_nat (digits_value 10 (i @ f)) * scale 10 (- int (length f))"
    and ok: "\<not> range_error v"
  shows "sto_d (with_fraction i f) = Inr (fl v, [])"
    and "sto_d (CHR ''-'' # with_fraction i f) = Inr (fl (- v), [])"
proof -
  obtain c u where w: "with_fraction i f = c # u" and c: "is_digit c"
    using with_fraction_Cons [OF assms(1,3)] by blast
  have sk: "skip_space (with_fraction i f) = with_fraction i f"
    "read_sign (with_fraction i f) = (False, with_fraction i f)"
    using c by (simp_all add: w skip_space_digits read_sign_digits)
  show "sto_d (with_fraction i f) = Inr (fl v, [])"
    using read_number_fraction [OF assms(1-3)] ok
    by (simp add: sto_d_def sk v [symmetric])
  have sk2: "skip_space (CHR ''-'' # with_fraction i f) = CHR ''-'' # with_fraction i f"
    "read_sign (CHR ''-'' # with_fraction i f) = (True, with_fraction i f)"
    by (simp_all add: skip_space_def read_sign_def is_space_def code_of_def)
  have "range_error (- v) = range_error v"
    using fl_not_nan [of v] by (auto simp: range_error_def fl_uminus split: double.splits)
  then show "sto_d (CHR ''-'' # with_fraction i f) = Inr (fl (- v), [])"
    using read_number_fraction [OF assms(1-3)] ok
    by (simp add: sto_d_def sk2 v [symmetric])
qed

lemma range_ok:
  assumes "pow2 (- 20) \<le> v" "v \<le> pow2 20"
  shows "\<not> range_error v"
proof -
  have pos: "0 < v" using assms(1) pow2_pos [of "- 20"] by linarith
  have "\<bar>v\<bar> \<le> pow2 20" using pos assms(2) by simp
  then obtain y where y: "fl v = Fin y"
    using ieee.round_bounded [of 20 v] by auto
  have "Fin (pow2 (- 20)) \<le> Fin y"
    using fl_mono [OF assms(1)] fl_pow2 [of "- 20"] y by simp
  moreover have "pow2 (- 1022) < pow2 (- 20)" by (rule pow2_strict_mono) simp
  moreover have "0 < pow2 (- 1022)" by (rule pow2_pos)
  ultimately have "pow2 (- 1022) < \<bar>y\<bar>" by simp
  then have "\<not> \<bar>y\<bar> < pow2 (- 1022)" by linarith
  then show ?thesis by (simp only: range_error_def y double.case simp_thms)
qed

text \<open>
  The fixed notation of \<open>show_magnitude\<close>: digits around a point that denote the six
  significant digits exactly.
\<close>

lemma show_magnitude_fixed:
  assumes "0 < x" "sig6 x = (n, e)" "- 4 \<le> e" "e < 6"
  obtains i f where "show_magnitude x = with_fraction i f" "\<forall>c \<in> set i. is_digit c"
    "\<forall>c \<in> set f. is_digit c" "i \<noteq> []"
    "of_nat (digits_value 10 (i @ f)) * scale 10 (- int (length f)) = of_nat n * scale 10 (e - 5)"
proof -
  have n: "100000 \<le> n" "n < 1000000" using sig6_spec [OF assms(1,2)] by simp_all
  have len: "length (show_nat n) = 6" using length_show_nat [of n 5] n by simp
  have dig: "\<forall>c \<in> set (show_nat n). is_digit c" by (rule show_nat_digits)
  have z: "is_digit CHR ''0''" by (simp add: is_digit_def code_of_def)
  show ?thesis
  proof (cases "0 \<le> e")
    case True
    define i f where "i = take (nat e + 1) (show_nat n)" and "f = drop (nat e + 1) (show_nat n)"
    have "i @ f = show_nat n" by (simp add: i_def f_def)
    moreover have "- int (length f) = e - 5" using True assms(4) by (simp add: f_def len)
    ultimately have "of_nat (digits_value 10 (i @ strip_zeros f)) * scale 10 (- int (length (strip_zeros f)))
        = of_nat n * scale 10 (e - 5)"
      by (simp add: strip_zeros_value)
    moreover have "show_magnitude x = with_fraction i (strip_zeros f)"
      using assms True by (simp add: show_magnitude_def i_def f_def Let_def)
    ultimately show ?thesis
      using that [of i "strip_zeros f"] dig set_strip_zeros [of f] len
      by (auto simp: i_def f_def dest: in_set_takeD in_set_dropD)
  next
    case False
    define f where "f = replicate (nat (- e - 1)) CHR ''0'' @ show_nat n"
    have "digits_value 10 (''0'' @ f) = n"
      by (simp add: f_def digits_value_append)
    moreover have "- int (length f) = e - 5" using False by (simp add: f_def len)
    ultimately have "of_nat (digits_value 10 (''0'' @ strip_zeros f)) * scale 10 (- int (length (strip_zeros f)))
        = of_nat n * scale 10 (e - 5)"
      by (simp only: strip_zeros_value)
    moreover have "show_magnitude x = with_fraction ''0'' (strip_zeros f)"
      using assms False by (simp add: show_magnitude_def f_def Let_def)
    moreover have "\<forall>c \<in> set (strip_zeros f). is_digit c"
      using dig set_strip_zeros [of f] z by (auto simp: f_def)
    moreover have "\<forall>c \<in> set ''0''. is_digit c" using z by simp
    ultimately show ?thesis using that [of "''0''" "strip_zeros f"] by blast
  qed
qed

text \<open>
  Six significant digits: what \<open>sto_d\<close> reads from the text of \<open>x\<close> is within
  \<open>x / 200000\<close> of it.
\<close>

lemma ilog_exponent:
  assumes "scale 10 a \<le> x" "x < scale 10 b" "0 < x"
  shows "a \<le> ilog 10 x" "ilog 10 x < b"
proof -
  have l: "scale 10 (ilog 10 x) \<le> x" "x < scale 10 (ilog 10 x + 1)"
    using ilog_bounds [of 10 x] assms(3) by simp_all
  have mono: "scale 10 i \<le> scale 10 j" if "i \<le> j" for i j :: int
    using that by (simp add: scale_powi power_int_increasing)
  show "a \<le> ilog 10 x"
  proof (rule ccontr)
    assume "\<not> a \<le> ilog 10 x"
    then have "scale 10 (ilog 10 x + 1) \<le> scale 10 a" by (intro mono) simp
    with assms(1) l(2) show False by linarith
  qed
  show "ilog 10 x < b"
  proof (rule ccontr)
    assume "\<not> ilog 10 x < b"
    then have "scale 10 b \<le> scale 10 (ilog 10 x)" by (intro mono) simp
    with assms(2) l(1) show False by linarith
  qed
qed

lemma show_magnitude_value:
  assumes "1 / 10000 \<le> x" "x < 999999"
  obtains i f v where "show_magnitude x = with_fraction i f" "\<forall>c \<in> set i. is_digit c"
    "\<forall>c \<in> set f. is_digit c" "i \<noteq> []"
    "v = of_nat (digits_value 10 (i @ f)) * scale 10 (- int (length f))"
    "\<bar>v - x\<bar> \<le> x / 200000" "\<not> range_error v"
proof -
  have pos: "0 < x" using assms(1) by simp
  obtain n e where s: "sig6 x = (n, e)" by (cases "sig6 x")
  define E where "E = ilog 10 x"
  have E: "- 4 \<le> E" "E < 6"
    using ilog_exponent [of "- 4" x 6] assms pos by (simp_all add: E_def scale_def)
  have spec: "100000 \<le> n" "n < 1000000" "e = E \<or> e = E + 1 \<and> n = 100000"
    "\<bar>of_nat n * scale 10 (e - 5) - x\<bar> \<le> scale 10 (E - 5) / 2"
    using sig6_spec [OF pos s] by (simp_all add: E_def)
  have "scale 10 E = scale 10 (E - 5) * scale 10 5" using scale_add [of 10 "E - 5" 5] by simp
  moreover have "scale 10 E \<le> x" using ilog_bounds [of 10 x] pos by (simp add: E_def)
  ultimately have small: "scale 10 (E - 5) / 2 \<le> x / 200000" by (simp add: scale_def)
  define v where "v = of_nat n * scale 10 (e - 5)"
  have err: "\<bar>v - x\<bar> \<le> x / 200000" using spec(4) small by (simp add: v_def)
  have e6: "e < 6"
  proof (rule ccontr)
    assume "\<not> e < 6"
    with E spec(3) have "e = 6" "n = 100000" "E = 5" by auto
    with spec(4) have "\<bar>1000000 - x\<bar> \<le> 1 / 2" by (simp add: scale_def)
    with assms(2) show False by (simp add: abs_le_iff)
  qed
  have e4: "- 4 \<le> e" using E spec(3) by auto
  have "v \<le> x + x / 200000" "x - x / 200000 \<le> v" using err by linarith+
  then have "1 / 20000 \<le> v" "v \<le> 1000004" using assms by linarith+
  then have ok: "\<not> range_error v"
    by (intro range_ok) (simp_all add: pow2_def scale_def)
  from show_magnitude_fixed [OF pos s e4 e6] show ?thesis
    using that err ok unfolding v_def [symmetric] by metis
qed

lemma show_double_reads_back:
  assumes "x = 0 \<or> 1 / 10000 \<le> \<bar>x\<bar> \<and> \<bar>x\<bar> < 999999"
  obtains v where "sto_d (show_double (Fin x)) = Inr (fl v, [])" "\<bar>v - x\<bar> \<le> \<bar>x\<bar> / 200000"
    "set (show_double (Fin x)) \<subseteq> {c. is_digit c} \<union> {CHR ''.'', CHR ''-''}"
proof (cases "x = 0")
  case True
  have z: "is_digit CHR ''0''" by (simp add: is_digit_def code_of_def)
  have "digits_value 10 ''0'' = 0" using digits_value_leading_zero [of 10 "[]"] digits_value_zeros [of 10 0] by (simp only: replicate_0)
  moreover have "\<not> range_error 0" by (simp add: range_error_def)
  ultimately have "sto_d (with_fraction ''0'' []) = Inr (fl 0, [])"
    using sto_d_fraction(1) [of "''0''" "[]" 0] z by simp
  then show ?thesis using that [of 0] True z by (simp add: show_double_def with_fraction_def)
next
  case False
  with assms have b: "1 / 10000 \<le> \<bar>x\<bar>" "\<bar>x\<bar> < 999999" by auto
  obtain i f v where m: "show_magnitude \<bar>x\<bar> = with_fraction i f" "\<forall>c \<in> set i. is_digit c"
    "\<forall>c \<in> set f. is_digit c" "i \<noteq> []"
    "v = of_nat (digits_value 10 (i @ f)) * scale 10 (- int (length f))"
    "\<bar>v - \<bar>x\<bar>\<bar> \<le> \<bar>x\<bar> / 200000" "\<not> range_error v"
    using show_magnitude_value [OF b] by blast
  have st: "set (with_fraction i f) \<subseteq> {c. is_digit c} \<union> {CHR ''.'', CHR ''-''}"
    using m(2,3) by (auto simp: with_fraction_def)
  show ?thesis
  proof (cases "x < 0")
    case True
    then have "show_double (Fin x) = CHR ''-'' # with_fraction i f"
      using m(1) by (simp add: show_double_def)
    moreover have "\<bar>- v - x\<bar> \<le> \<bar>x\<bar> / 200000" using m(6) True by simp
    ultimately show ?thesis
      using that [of "- v"] sto_d_fraction(2) [OF m(2,3,4,5,7)] st by simp
  next
    case False
    then have "show_double (Fin x) = with_fraction i f"
      using m(1) \<open>x \<noteq> 0\<close> by (simp add: show_double_def)
    moreover have "\<bar>v - x\<bar> \<le> \<bar>x\<bar> / 200000" using m(6) False by simp
    ultimately show ?thesis
      using that [of v] sto_d_fraction(1) [OF m(2,3,4,5,7)] st by simp
  qed
qed

lemma set_show_int: "set (show_int i) \<subseteq> {c. is_digit c} \<union> {CHR ''-''}"
  using show_nat_digits by (auto simp: show_int_def)

end
