(* ===== verification/Spatial.thy ===== *)
theory Spatial
  imports Domain Text
begin

text \<open>
  The spatial code: the cell index of \<open>common/spatial/h3_index.cpp\<close> in its build without the
  H3 library (a square grid whose identifiers pack a resolution and two indices), the
  great-circle distance of \<open>haversine.cpp\<close>, and the point-in-polygon test of
  \<open>geofence/point_in_polygon.cpp\<close>. All arithmetic is IEEE double arithmetic, rounded after
  every operation as the code does it.

  The trigonometric functions of the C library are the argument \<open>libm\<close>; what the distance
  relies on is stated where it is used (\<open>sin\<close> is odd, and so on).

  The lemmas show that a packed identifier unpacks to its parts, that coordinates are encoded
  exactly when they are in range, what cells a disk has and how many, and that the polygon
  test accepts every vertex of a polygon and rejects every point outside its bounding box.
\<close>

subsection \<open>Cell identifiers\<close>

definition k_coord_mask :: cell where
  "k_coord_mask = mask 29"

definition pack_cell :: "int \<Rightarrow> int \<Rightarrow> int \<Rightarrow> cell" where
  "pack_cell resolution lat_idx lon_idx =
     or (or (push_bit 58 (word_of_int resolution)) (push_bit 29 (and (word_of_int lat_idx) k_coord_mask)))
        (and (word_of_int lon_idx) k_coord_mask)"

definition unpack_cell :: "cell \<Rightarrow> int \<times> int \<times> int" where
  "unpack_cell c = (uint (and (drop_bit 58 c) 0xF), uint (and (drop_bit 29 c) k_coord_mask),
     uint (and c k_coord_mask))"

subsection \<open>The index\<close>

definition edge_lengths :: "double list" where
  "edge_lengths = map (\<lambda>n. fl (n / 1000))
     [1107712591, 418676005, 158244655, 59810858, 22606379, 8544408, 3229482, 1220629,
      461354, 174375, 65907, 24910, 9415, 3559, 1348, 509]"

definition avg_edge_length_m :: "int \<Rightarrow> double" where
  "avg_edge_length_m resolution =
     (if 0 \<le> resolution \<and> resolution \<le> 15 then edge_lengths ! nat resolution else fl (1220629 / 1000))"

text \<open>\<open>std::llround\<close>: half away from zero; \<open>std::floor\<close> cast to an \<open>int64_t\<close>, which every coordinate
  in range fits (\<open>cell_encoding\<close>); a cast of a value that is not finite is 0 here.\<close>

definition llround :: "double \<Rightarrow> int" where
  "llround d = (case d of Fin x \<Rightarrow> if 0 \<le> x then \<lfloor>x + 1 / 2\<rfloor> else - \<lfloor>- x + 1 / 2\<rfloor> | _ \<Rightarrow> 0)"

definition floor_int :: "double \<Rightarrow> int" where
  "floor_int d = (case d of Fin x \<Rightarrow> \<lfloor>x\<rfloor> | _ \<Rightarrow> 0)"

text \<open>\<open>static_cast<int>(std::ceil(d))\<close>. C++ leaves the conversion of a value that does not fit an \<open>int\<close>
  undefined; the model ends the call there.\<close>

definition ceil_to_int :: "double \<Rightarrow> int exc" where
  "ceil_to_int d = (case d of
     Fin x \<Rightarrow> if - (2 ^ 31) \<le> \<lceil>x\<rceil> \<and> \<lceil>x\<rceil> < 2 ^ 31 then Inr \<lceil>x\<rceil> else Inl ''conversion to int out of range''
   | _ \<Rightarrow> Inl ''conversion to int out of range'')"

definition cells_per_degree :: "double \<Rightarrow> int" where
  "cells_per_degree edge_m = max 1 (llround (ddiv (Fin 111320) edge_m))"

definition new_h3_index :: "int \<Rightarrow> int exc" where
  "new_h3_index resolution = (if resolution < 0 \<or> resolution > 15
     then Inl (''H3 resolution must be 0-15, got: '' @ show_int resolution) else Inr resolution)"

definition lat_lng_to_cell :: "int \<Rightarrow> double \<Rightarrow> double \<Rightarrow> cell exc" where
  "lat_lng_to_cell resolution lat lon =
     (if \<not> valid_lat_lon lat lon then Inl ''coordinate out of range''
      else let scale = d_of_int (cells_per_degree (avg_edge_length_m resolution));
               lat_idx = floor_int (dmul (dadd lat (Fin 90)) scale);
               lon_idx = floor_int (dmul (dadd lon (Fin 180)) scale)
           in Inr (pack_cell resolution lat_idx lon_idx))"

definition disk_offsets :: "int \<Rightarrow> (int \<times> int) list" where
  "disk_offsets k = concat (map (\<lambda>dx. map (\<lambda>dy. (dx, dy))
     [max (- k) (- dx - k) .. min k (- dx + k)]) [- k .. k])"

text \<open>The two nested loops that fill the disk.\<close>

definition disk_cells :: "cell \<Rightarrow> int \<Rightarrow> cell list" where
  "disk_cells center k = (if k < 0 then [] else
     let (res, lat_idx, lon_idx) = unpack_cell center in
     map (\<lambda>(dx, dy). pack_cell res (lat_idx + dx) (lon_idx + dy)) (disk_offsets k))"

text \<open>The size reserved for the disk is computed in \<open>int\<close>, which overflows from \<open>k\<close> = 26755 on. C++ leaves
  that undefined; the model ends the call there (the first sizes wrap to negative numbers, which
  \<open>reserve\<close> refuses with an exception), so what is shown of a disk is shown of those that fit.\<close>

definition grid_disk :: "cell \<Rightarrow> int \<Rightarrow> cell list exc" where
  "grid_disk center k =
     (if k < 0 then Inr []
      else if 3 * k * (k + 1) + 1 \<ge> 2 ^ 31 then Inl ''vector::reserve''
      else Inr (disk_cells center k))"

definition radius_to_k :: "int \<Rightarrow> double \<Rightarrow> int exc" where
  "radius_to_k resolution radius_m =
     (if \<not> dfinite radius_m \<or> dlt radius_m (Fin 0)
      then Inl ''radius must be finite and non-negative''
      else let edge = avg_edge_length_m resolution in
        if dle edge (Fin 0) then Inr 1 else ceil_to_int (ddiv radius_m edge))"

fun map_exc :: "('a \<Rightarrow> 'b exc) \<Rightarrow> 'a list \<Rightarrow> 'b list exc" where
  "map_exc f [] = Inr []"
| "map_exc f (x # xs) = bind_exc (f x) (\<lambda>y. bind_exc (map_exc f xs) (\<lambda>ys. Inr (y # ys)))"

text \<open>All vertices are checked first; then the cells of the vertices, sorted without duplicates.\<close>

definition polygon_to_cells :: "int \<Rightarrow> (double \<times> double) list \<Rightarrow> cell list exc" where
  "polygon_to_cells resolution polygon =
     (if polygon = [] then Inr []
      else if \<exists>(lat, lon) \<in> set polygon. \<not> valid_lat_lon lat lon then Inl ''coordinate out of range''
      else bind_exc (map_exc (\<lambda>(lat, lon). lat_lng_to_cell resolution lat lon) polygon)
             (\<lambda>cells. Inr (sorted_list_of_set (set cells))))"

subsection \<open>Packing\<close>

lemma bit_pack_cell:
  "bit (pack_cell r la lo) i \<longleftrightarrow> i < 64 \<and>
     (if i < 29 then bit lo i else if i < 58 then bit la (i - 29) else bit r (i - 58))"
  by (auto simp: pack_cell_def k_coord_mask_def bit_or_iff bit_and_iff bit_push_bit_iff bit_mask_iff
      bit_word_of_int_iff not_less)

lemma unpack_pack:
  assumes "0 \<le> r" "r < 16" "0 \<le> la" "la < 2 ^ 29" "0 \<le> lo" "lo < 2 ^ 29"
  shows "unpack_cell (pack_cell r la lo) = (r, la, lo)"
proof -
  have tb: "take_bit 4 r = r" "take_bit 29 la = la" "take_bit 29 lo = lo"
    using assms by (simp_all add: take_bit_int_eq_self)
  have m: "(0xF :: cell) = mask 4" by (simp add: mask_eq_decr_exp)
  have r: "uint (and (drop_bit 58 (pack_cell r la lo)) (mask 4)) = take_bit 4 r"
    by (rule bit_eqI) (auto simp: bit_uint_iff bit_and_iff bit_mask_iff bit_drop_bit_eq bit_pack_cell
        bit_take_bit_iff)
  have la: "uint (and (drop_bit 29 (pack_cell r la lo)) (mask 29)) = take_bit 29 la"
    by (rule bit_eqI) (auto simp: bit_uint_iff bit_and_iff bit_mask_iff bit_drop_bit_eq bit_pack_cell
        bit_take_bit_iff)
  have lo: "uint (and (pack_cell r la lo) (mask 29)) = take_bit 29 lo"
    by (rule bit_eqI) (auto simp: bit_uint_iff bit_and_iff bit_mask_iff bit_pack_cell bit_take_bit_iff)
  show ?thesis unfolding unpack_cell_def k_coord_mask_def m r la lo tb by (rule refl)
qed

lemma pack_cell_inj:
  assumes "0 \<le> r" "r < 16" "0 \<le> la" "la < 2 ^ 29" "0 \<le> lo" "lo < 2 ^ 29"
    and "0 \<le> r'" "r' < 16" "0 \<le> la'" "la' < 2 ^ 29" "0 \<le> lo'" "lo' < 2 ^ 29"
  shows "pack_cell r la lo = pack_cell r' la' lo' \<longleftrightarrow> r = r' \<and> la = la' \<and> lo = lo'"
proof
  assume "pack_cell r la lo = pack_cell r' la' lo'"
  then have "(r, la, lo) = (r', la', lo')"
    using unpack_pack [OF assms(1-6)] unpack_pack [OF assms(7-12)] by (simp only:)
  then show "r = r' \<and> la = la' \<and> lo = lo'" by (simp only: prod.inject)
qed (simp only:)

lemma unpack_range:
  assumes "unpack_cell c = (r, la, lo)"
  shows "0 \<le> r \<and> r < 16 \<and> 0 \<le> la \<and> la < 2 ^ 29 \<and> 0 \<le> lo \<and> lo < 2 ^ 29"
proof -
  have m: "(0xF :: cell) = mask 4" by (simp add: mask_eq_decr_exp)
  have b: "uint (and x (mask n) :: cell) < 2 ^ n" if "n < 64" for x n
  proof -
    have "uint (and x (mask n) :: cell) = take_bit n (uint x)"
      using that by (simp add: take_bit_eq_mask [symmetric] unsigned_take_bit_eq)
    then show ?thesis by (simp add: take_bit_int_less_exp)
  qed
  show ?thesis
    using assms b [of 4 "drop_bit 58 c"] b [of 29 "drop_bit 29 c"] b [of 29 c]
    unfolding unpack_cell_def k_coord_mask_def m by (auto simp: take_bit_int_less_exp)
qed

subsection \<open>Encoding\<close>

lemma fin_between: "Fin a \<le> d \<Longrightarrow> d \<le> Fin b \<Longrightarrow> \<exists>x. d = Fin x \<and> a \<le> x \<and> x \<le> b"
  by (cases d) auto

lemma edge_length_bounds:
  assumes "0 \<le> r" "r \<le> 15"
  shows "\<exists>x. avg_edge_length_m r = Fin x \<and> 1 / 2 \<le> x \<and> x \<le> 2097152"
proof -
  define ns :: "rat list" where "ns = [1107712591, 418676005, 158244655, 59810858, 22606379, 8544408,
     3229482, 1220629, 461354, 174375, 65907, 24910, 9415, 3559, 1348, 509]"
  have len: "length ns = 16" by (simp add: ns_def)
  have "nat r < length ns" using assms by (simp add: len nat_less_iff)
  then have "ns ! nat r \<in> set ns" by (rule nth_mem)
  then have b: "1 / 2 \<le> ns ! nat r / 1000" "ns ! nat r / 1000 \<le> 2097152"
    by (auto simp: ns_def)
  have e: "avg_edge_length_m r = fl (ns ! nat r / 1000)"
    using assms \<open>nat r < length ns\<close> by (simp add: avg_edge_length_m_def edge_lengths_def ns_def [symmetric])
  have "fl (1 / 2) = Fin (1 / 2)" using fl_pow2 [of "- 1"] by (simp add: pow2_def)
  moreover have "fl 2097152 = Fin 2097152" using fl_of_int [of 2097152] by simp
  ultimately have "Fin (1 / 2) \<le> avg_edge_length_m r" "avg_edge_length_m r \<le> Fin 2097152"
    using fl_mono [OF b(1)] fl_mono [OF b(2)] e by simp_all
  then show ?thesis by (rule fin_between)
qed

lemma cells_per_degree_bounds:
  assumes "0 \<le> r" "r \<le> 15"
  shows "1 \<le> cells_per_degree (avg_edge_length_m r) \<and> cells_per_degree (avg_edge_length_m r) \<le> 262144"
proof -
  obtain x where x: "avg_edge_length_m r = Fin x" "1 / 2 \<le> x" using edge_length_bounds [OF assms] by blast
  have "111320 / x \<le> 262144" using x(2) by (simp add: field_simps)
  moreover have "fl 262144 = Fin 262144" using fl_of_int [of 262144] by simp
  ultimately have up: "fl (111320 / x) \<le> Fin 262144" using fl_mono by fastforce
  have lo: "Fin 0 \<le> fl (111320 / x)" using x(2) by (intro fl_nonneg) simp
  from fin_between [OF lo up] obtain y where y: "fl (111320 / x) = Fin y" "0 \<le> y" "y \<le> 262144"
    by blast
  have "\<lfloor>y + 1 / 2\<rfloor> < 262145" using y(3) by linarith
  then show ?thesis using x y by (simp add: cells_per_degree_def llround_def)
qed

lemma axis_index_range:
  assumes "0 \<le> a" "a \<le> w" "w \<le> 360" "1 \<le> s" "s \<le> 262144"
  shows "0 \<le> floor_int (dmul (fl a) (d_of_int s)) \<and> floor_int (dmul (fl a) (d_of_int s)) < 2 ^ 29"
proof -
  have "fl 360 = Fin 360" using fl_of_int [of 360] by simp
  then have up: "fl a \<le> Fin 360" using fl_mono [of a 360] assms by simp
  have lo: "Fin 0 \<le> fl a" using assms by (intro fl_nonneg) simp
  from fin_between [OF lo up] obtain b where b: "fl a = Fin b" "0 \<le> b" "b \<le> 360" by blast
  have s: "d_of_int s = Fin (of_int s)" using assms by (intro d_of_int_Fin) simp
  have prod: "0 \<le> b * of_int s" "b * of_int s \<le> 360 * of_int s"
    using b assms by (simp_all add: mult_right_mono)
  have "fl (360 * of_int s) = Fin (360 * of_int s)" using fl_of_int [of "360 * s"] assms by simp
  then have up: "fl (b * of_int s) \<le> Fin (360 * of_int s)" using fl_mono [OF prod(2)] by simp
  have lo: "Fin 0 \<le> fl (b * of_int s)" using prod(1) by (rule fl_nonneg)
  from fin_between [OF lo up] obtain y where y: "fl (b * of_int s) = Fin y" "0 \<le> y" "y \<le> of_int (360 * s)"
    by auto
  have "\<lfloor>y\<rfloor> \<le> 360 * s" using y(3) by linarith
  then show ?thesis using y assms by (simp add: floor_int_def b s)
qed

lemma lat_lng_to_cell_indices:
  assumes "0 \<le> r" "r \<le> 15" "valid_lat_lon lat lon"
  obtains la lo where "lat_lng_to_cell r lat lon = Inr (pack_cell r la lo)"
    "0 \<le> la" "la < 2 ^ 29" "0 \<le> lo" "lo < 2 ^ 29"
proof -
  obtain a b where ab: "lat = Fin a" "lon = Fin b" "- 90 \<le> a" "a \<le> 90" "- 180 \<le> b" "b \<le> 180"
    using assms(3) by (auto simp: valid_lat_lon_iff)
  note s = cells_per_degree_bounds [OF assms(1,2)]
  have "0 \<le> floor_int (dmul (fl (a + 90)) (d_of_int (cells_per_degree (avg_edge_length_m r)))) \<and>
        floor_int (dmul (fl (a + 90)) (d_of_int (cells_per_degree (avg_edge_length_m r)))) < 2 ^ 29"
    using ab s by (intro axis_index_range [of _ 180]) auto
  moreover have "0 \<le> floor_int (dmul (fl (b + 180)) (d_of_int (cells_per_degree (avg_edge_length_m r)))) \<and>
        floor_int (dmul (fl (b + 180)) (d_of_int (cells_per_degree (avg_edge_length_m r)))) < 2 ^ 29"
    using ab s by (intro axis_index_range [of _ 360]) auto
  ultimately show ?thesis using assms(3) ab
    by (intro that) (auto simp: lat_lng_to_cell_def Let_def)
qed

lemma lat_lng_to_cell_ok_iff:
  "(\<exists>c. lat_lng_to_cell r lat lon = Inr c) \<longleftrightarrow> valid_lat_lon lat lon"
  by (simp add: lat_lng_to_cell_def Let_def)

text \<open>A coordinate in range is encoded to a cell that carries the resolution of the index and
  two indices that fit their bit fields; any other coordinate is refused.\<close>

lemma cell_encoding:
  assumes "0 \<le> r" "r \<le> 15"
  shows "case lat_lng_to_cell r lat lon of
      Inl err \<Rightarrow> err = ''coordinate out of range'' \<and> \<not> valid_lat_lon lat lon
    | Inr c \<Rightarrow> valid_lat_lon lat lon \<and> (\<exists>la lo. unpack_cell c = (r, la, lo) \<and>
        la = floor_int (dmul (dadd lat (Fin 90)) (d_of_int (cells_per_degree (avg_edge_length_m r)))) \<and>
        lo = floor_int (dmul (dadd lon (Fin 180)) (d_of_int (cells_per_degree (avg_edge_length_m r)))))"
proof (cases "valid_lat_lon lat lon")
  case False
  then show ?thesis by (simp add: lat_lng_to_cell_def)
next
  case True
  let ?s = "d_of_int (cells_per_degree (avg_edge_length_m r))"
  obtain a b where ab: "lat = Fin a" "lon = Fin b" "- 90 \<le> a" "a \<le> 90" "- 180 \<le> b" "b \<le> 180"
    using True by (auto simp: valid_lat_lon_iff)
  note s = cells_per_degree_bounds [OF assms]
  have "0 \<le> floor_int (dmul (fl (a + 90)) ?s) \<and> floor_int (dmul (fl (a + 90)) ?s) < 2 ^ 29"
    using ab s by (intro axis_index_range [of _ 180]) auto
  moreover have "0 \<le> floor_int (dmul (fl (b + 180)) ?s) \<and> floor_int (dmul (fl (b + 180)) ?s) < 2 ^ 29"
    using ab s by (intro axis_index_range [of _ 360]) auto
  ultimately show ?thesis using True assms
    by (simp add: lat_lng_to_cell_def Let_def ab unpack_pack del: dmul.simps)
qed

subsection \<open>Disks\<close>

lemma upto_snoc: "i \<le> j \<Longrightarrow> [i .. j :: int] = [i .. j - 1] @ [j]"
  by (rule upto_rec2)

lemma set_disk_offsets:
  "set (disk_offsets k) = {(dx, dy). - k \<le> dx \<and> dx \<le> k \<and> - k \<le> dy \<and> dy \<le> k \<and> \<bar>dx + dy\<bar> \<le> k}"
proof -
  have "(dx, dy) \<in> set (disk_offsets k) \<longleftrightarrow>
      dx \<in> {- k .. k} \<and> dy \<in> {max (- k) (- dx - k) .. min k (- dx + k)}" for dx dy
    by (auto simp: disk_offsets_def simp del: max.bounded_iff min.bounded_iff atLeastAtMost_iff)
  then show ?thesis by auto
qed

lemma distinct_rows:
  "distinct xs \<Longrightarrow> (\<And>x. distinct (g x)) \<Longrightarrow> distinct (concat (map (\<lambda>x. map (Pair x) (g x)) xs))"
  by (induction xs) (auto simp: distinct_map inj_on_def)

lemma int_length_concat: "int (length (concat (map f xs))) = sum_list (map (\<lambda>x. int (length (f x))) xs)"
  by (induction xs) simp_all

lemma distinct_disk_offsets: "distinct (disk_offsets k)"
  unfolding disk_offsets_def by (rule distinct_rows) simp_all

lemma sum_row_lengths:
  "sum_list (map (\<lambda>dx. c - \<bar>dx\<bar>) [- int n .. int n]) = (2 * int n + 1) * c - int n * (int n + 1)"
proof (induction n)
  case (Suc n)
  have "[- int (Suc n) .. int (Suc n)] = - int (Suc n) # [- int n .. int n] @ [int (Suc n)]"
    using upto_rec1 [of "- int (Suc n)" "int (Suc n)"] upto_snoc [of "- int n" "int (Suc n)"] by simp
  with Suc show ?case by (simp add: algebra_simps)
qed simp

lemma length_disk_offsets:
  assumes "0 \<le> k"
  shows "int (length (disk_offsets k)) = 3 * k * (k + 1) + 1"
proof -
  obtain n where n: "k = int n" using assms by (metis nonneg_int_cases)
  have row: "int (length [max (- k) (- dx - k) .. min k (- dx + k)]) = 2 * k + 1 - \<bar>dx\<bar>"
    if "dx \<in> set [- k .. k]" for dx
    using that by (auto simp: abs_if max_def min_def)
  have "int (length (disk_offsets k)) =
      sum_list (map (\<lambda>dx. int (length [max (- k) (- dx - k) .. min k (- dx + k)])) [- k .. k])"
    by (simp only: disk_offsets_def int_length_concat length_map)
  also have "\<dots> = sum_list (map (\<lambda>dx. 2 * k + 1 - \<bar>dx\<bar>) [- k .. k])"
    by (intro arg_cong [where f = sum_list] map_cong) (simp_all only: row)
  also have "\<dots> = (2 * k + 1) * (2 * k + 1) - k * (k + 1)"
    unfolding n by (rule sum_row_lengths)
  finally show ?thesis by (simp add: algebra_simps)
qed

text \<open>The size of a disk fits an \<open>int\<close> up to \<open>k\<close> = 26754.\<close>

lemma disk_size_fits:
  fixes k :: int
  assumes "0 \<le> k"
  shows "3 * k * (k + 1) + 1 < 2 ^ 31 \<longleftrightarrow> k < 26755"
proof
  assume size: "3 * k * (k + 1) + 1 < 2 ^ 31"
  show "k < 26755"
  proof (rule ccontr)
    assume "\<not> k < 26755"
    then have "26755 * 26756 \<le> k * (k + 1)" by (intro mult_mono) simp_all
    then show False using size by (simp only: mult.assoc) simp
  qed
next
  assume "k < 26755"
  then have "k * (k + 1) \<le> 26754 * 26755" using assms by (intro mult_mono) simp_all
  then show "3 * k * (k + 1) + 1 < 2 ^ 31" by (simp only: mult.assoc) simp
qed

lemma grid_disk_fits: "k < 26755 \<Longrightarrow> grid_disk c k = Inr (disk_cells c k)"
  using disk_size_fits [of k] by (cases "k < 0") (simp_all add: grid_disk_def disk_cells_def)

text \<open>The loops make 3k(k+1)+1 different cells.\<close>

lemma disk_cells_exact:
  assumes "unpack_cell c = (r, la, lo)" "0 \<le> k" "k \<le> la" "la + k < 2 ^ 29" "k \<le> lo" "lo + k < 2 ^ 29"
  shows "int (length (disk_cells c k)) = 3 * k * (k + 1) + 1 \<and> distinct (disk_cells c k) \<and>
    set (disk_cells c k) = {pack_cell r a b | a b.
      \<bar>a - la\<bar> \<le> k \<and> \<bar>b - lo\<bar> \<le> k \<and> \<bar>(a - la) + (b - lo)\<bar> \<le> k}"
proof (intro conjI)
  have disk: "disk_cells c k = map (\<lambda>(dx, dy). pack_cell r (la + dx) (lo + dy)) (disk_offsets k)"
    using assms(1,2) by (simp add: disk_cells_def)
  show "int (length (disk_cells c k)) = 3 * k * (k + 1) + 1"
    unfolding disk length_map by (rule length_disk_offsets [OF assms(2)])
  have r: "0 \<le> r" "r < 16" using unpack_range [OF assms(1)] by simp_all
  have "inj_on (\<lambda>(dx, dy). pack_cell r (la + dx) (lo + dy)) (set (disk_offsets k))"
  proof (rule inj_onI, clarify)
    fix dx dy dx' dy'
    assume in1: "(dx, dy) \<in> set (disk_offsets k)" "(dx', dy') \<in> set (disk_offsets k)"
      and eq: "pack_cell r (la + dx) (lo + dy) = pack_cell r (la + dx') (lo + dy')"
    have b: "0 \<le> la + dx" "la + dx < 2 ^ 29" "0 \<le> lo + dy" "lo + dy < 2 ^ 29"
      "0 \<le> la + dx'" "la + dx' < 2 ^ 29" "0 \<le> lo + dy'" "lo + dy' < 2 ^ 29"
      using in1 assms(3-6) unfolding set_disk_offsets by auto
    show "dx = dx' \<and> dy = dy'"
      using eq pack_cell_inj [OF r b(1-4) r b(5-8)] by simp
  qed
  then show "distinct (disk_cells c k)"
    unfolding disk by (simp add: distinct_map distinct_disk_offsets)
  show "set (disk_cells c k) = {pack_cell r a b | a b.
      \<bar>a - la\<bar> \<le> k \<and> \<bar>b - lo\<bar> \<le> k \<and> \<bar>(a - la) + (b - lo)\<bar> \<le> k}"
  proof (intro equalityI subsetI)
    fix x assume "x \<in> set (disk_cells c k)"
    then obtain dx dy where "(dx, dy) \<in> set (disk_offsets k)" "x = pack_cell r (la + dx) (lo + dy)"
      unfolding disk by auto
    then show "x \<in> {pack_cell r a b | a b. \<bar>a - la\<bar> \<le> k \<and> \<bar>b - lo\<bar> \<le> k \<and> \<bar>(a - la) + (b - lo)\<bar> \<le> k}"
      unfolding set_disk_offsets by (intro CollectI exI [of _ "la + dx"] exI [of _ "lo + dy"]) auto
  next
    fix x assume "x \<in> {pack_cell r a b | a b. \<bar>a - la\<bar> \<le> k \<and> \<bar>b - lo\<bar> \<le> k \<and> \<bar>(a - la) + (b - lo)\<bar> \<le> k}"
    then obtain a b where x: "x = pack_cell r a b" "\<bar>a - la\<bar> \<le> k" "\<bar>b - lo\<bar> \<le> k" "\<bar>(a - la) + (b - lo)\<bar> \<le> k"
      by auto
    then have "(a - la, b - lo) \<in> set (disk_offsets k)" unfolding set_disk_offsets by auto
    moreover have "x = pack_cell r (la + (a - la)) (lo + (b - lo))" using x(1) by simp
    ultimately show "x \<in> set (disk_cells c k)" unfolding disk by force
  qed
qed

text \<open>C40: A disk of at most 26754 rings, the sizes the code can compute in an int, around a cell
  whose indices are at least k away from the ends of their bit fields is answered, and has
  3k(k+1)+1 different cells: those whose offsets, and the sum of whose offsets, are at most k in
  absolute value.\<close>

theorem grid_disk_cells:
  assumes "unpack_cell c = (r, la, lo)" "0 \<le> k" "k < 26755" "k \<le> la" "la + k < 2 ^ 29" "k \<le> lo" "lo + k < 2 ^ 29"
  shows "\<exists>cs. grid_disk c k = Inr cs \<and> int (length cs) = 3 * k * (k + 1) + 1 \<and> distinct cs \<and>
    set cs = {pack_cell r a b | a b.
      \<bar>a - la\<bar> \<le> k \<and> \<bar>b - lo\<bar> \<le> k \<and> \<bar>(a - la) + (b - lo)\<bar> \<le> k}"
  using disk_cells_exact [OF assms(1,2,4-7)] grid_disk_fits [OF assms(3)] by blast

theorem grid_disk_cells_witness:
  "\<exists>cs. grid_disk (pack_cell 7 100 200) 2 = Inr cs \<and> int (length cs) = 19 \<and> distinct cs"
  using grid_disk_cells [OF unpack_pack, of 7 100 200 2] by auto

lemma disk_cells_negative: "k < 0 \<Longrightarrow> disk_cells c k = []"
  by (simp add: disk_cells_def)

text \<open>Every cell the index makes is the packing of its own parts, so it lies in its own disk.\<close>

lemma disk_cells_center:
  assumes "0 \<le> r" "r \<le> 15" "lat_lng_to_cell r lat lon = Inr c" "0 \<le> k"
  shows "c \<in> set (disk_cells c k)"
proof -
  have v: "valid_lat_lon lat lon" using assms(3) lat_lng_to_cell_ok_iff by blast
  obtain la lo where c: "c = pack_cell r la lo" "0 \<le> la" "la < 2 ^ 29" "0 \<le> lo" "lo < 2 ^ 29"
    using lat_lng_to_cell_indices [OF assms(1,2) v] assms(3) by auto
  have "(0, 0) \<in> set (disk_offsets k)" using assms(4) by (simp add: set_disk_offsets)
  moreover have "unpack_cell c = (r, la, lo)" using c assms(1,2) by (simp add: unpack_pack)
  ultimately show ?thesis using assms(4) c(1) by (force simp: disk_cells_def)
qed

lemma disk_cells_mono:
  assumes "j \<le> k"
  shows "set (disk_cells c j) \<subseteq> set (disk_cells c k)"
proof -
  have "set (disk_offsets j) \<subseteq> set (disk_offsets k)" if "0 \<le> j"
    using assms that unfolding set_disk_offsets by auto
  moreover obtain r la lo where "unpack_cell c = (r, la, lo)" by (cases "unpack_cell c")
  then have "set (disk_cells c i) = (\<lambda>(dx, dy). pack_cell r (la + dx) (lo + dy)) ` set (disk_offsets i)"
    if "0 \<le> i" for i using that by (simp add: disk_cells_def)
  ultimately show ?thesis using assms
    by (cases "0 \<le> j") (simp_all add: image_mono disk_cells_negative)
qed

subsection \<open>Radii and polygons\<close>

lemma radius_to_k_spec:
  assumes "0 \<le> r" "r \<le> 15"
  shows "case radius_to_k r radius of
      Inl err \<Rightarrow> (\<forall>m e. radius = Fin m \<longrightarrow> avg_edge_length_m r = Fin e \<longrightarrow> m < 0 \<or> Fin (2 ^ 30) \<le> fl (m / e))
    | Inr k \<Rightarrow> (\<exists>m e q. radius = Fin m \<and> 0 \<le> m \<and> avg_edge_length_m r = Fin e \<and> fl (m / e) = Fin q \<and>
        k = \<lceil>q\<rceil> \<and> 0 \<le> k \<and> k < 2 ^ 31)"
proof (cases "\<exists>m. radius = Fin m \<and> 0 \<le> m")
  case False
  then have "\<not> dfinite radius \<or> dlt radius (Fin 0)" by (auto simp: dfinite_iff)
  with False show ?thesis by (auto simp: radius_to_k_def)
next
  case True
  then obtain m where m: "radius = Fin m" "0 \<le> m" by blast
  obtain e where e: "avg_edge_length_m r = Fin e" "1 / 2 \<le> e" using edge_length_bounds [OF assms] by blast
  have nn: "Fin 0 \<le> fl (m / e)" using m e by (intro fl_nonneg) simp
  have run: "radius_to_k r radius = ceil_to_int (fl (m / e))" using m e by (simp add: radius_to_k_def Let_def)
  show ?thesis
  proof (cases "\<exists>q. fl (m / e) = Fin q \<and> \<lceil>q\<rceil> < 2 ^ 31")
    case True
    then obtain q where q: "fl (m / e) = Fin q" "\<lceil>q\<rceil> < 2 ^ 31" by blast
    have "0 \<le> \<lceil>q\<rceil>" using nn q(1) by simp
    then show ?thesis unfolding run using q m e by (simp add: ceil_to_int_def)
  next
    case False
    have "Fin (2 ^ 30) \<le> fl (m / e)"
    proof (cases "fl (m / e)")
      case (Fin q)
      then have "2 ^ 31 \<le> \<lceil>q\<rceil>" using False by auto
      then have "1073741824 < \<lceil>q\<rceil>" by simp
      then have "1073741824 < q" by (simp add: less_ceiling_iff)
      then show ?thesis using Fin by simp
    qed (use nn fl_not_nan [of "m / e"] in auto)
    moreover have "ceil_to_int (fl (m / e)) = Inl ''conversion to int out of range''"
      using False by (auto simp: ceil_to_int_def split: double.splits)
    ultimately show ?thesis unfolding run using m e by simp
  qed
qed

text \<open>A radius a resolution can answer: one of at most 26754 edges.\<close>

definition disk_fits :: "int \<Rightarrow> double \<Rightarrow> bool" where
  "disk_fits res radius = (case (radius, avg_edge_length_m res) of
     (Fin x, Fin e) \<Rightarrow> x \<le> 26754 * e | _ \<Rightarrow> False)"

lemma disk_fits_mono: "disk_fits res cap \<Longrightarrow> dle (Fin x) cap \<Longrightarrow> disk_fits res (Fin x)"
  by (auto simp: disk_fits_def dle_def split: double.splits prod.splits)

lemma disk_fits_k:
  assumes "0 \<le> res" "res \<le> 15" "disk_fits res radius" "\<not> dlt radius (Fin 0)"
  obtains k where "radius_to_k res radius = Inr k" "0 \<le> k" "k < 26755"
    "\<And>c. grid_disk c k = Inr (disk_cells c k)"
proof -
  obtain e where e: "avg_edge_length_m res = Fin e" "1 / 2 \<le> e" using edge_length_bounds [OF assms(1,2)] by blast
  obtain m where m: "radius = Fin m" "m \<le> 26754 * e"
    using assms(3) e(1) by (auto simp: disk_fits_def split: double.splits)
  have m0: "0 \<le> m" using assms(4) m(1) by (simp add: dlt_def less_double_def) linarith
  have "fl 26754 = Fin 26754" using fl_of_int [of 26754] by simp
  moreover have "m / e \<le> 26754" using m(2) e(2) by (simp add: field_simps)
  ultimately have "fl (m / e) \<le> Fin 26754" using fl_mono by metis
  moreover have "Fin 0 \<le> fl (m / e)" using m0 e by (intro fl_nonneg) simp
  ultimately obtain q where q: "fl (m / e) = Fin q" "0 \<le> q" "q \<le> 26754" using fin_between by blast
  have k: "0 \<le> \<lceil>q\<rceil>" "\<lceil>q\<rceil> < 26755" using q by (simp_all add: ceiling_less_iff)
  have "radius_to_k res radius = Inr \<lceil>q\<rceil>"
    using m0 m(1) e q k by (simp add: radius_to_k_def Let_def ceil_to_int_def)
  then show ?thesis using k grid_disk_fits by (intro that)
qed

lemma map_exc_Inr_iff: "map_exc f xs = Inr ys \<longleftrightarrow> list_all2 (\<lambda>x y. f x = Inr y) xs ys"
  by (induction xs arbitrary: ys) (auto simp: result_simps list_all2_Cons1)

lemma map_exc_total: "\<forall>x \<in> set xs. \<exists>y. f x = Inr y \<Longrightarrow> \<exists>ys. map_exc f xs = Inr ys"
  by (induction xs) fastforce+

text \<open>The cells of a polygon are the cells of its vertices, sorted and without duplicates;
  a polygon with a vertex out of range is refused.\<close>

lemma polygon_cells:
  "case polygon_to_cells r polygon of
     Inl err \<Rightarrow> \<exists>(lat, lon) \<in> set polygon. \<not> valid_lat_lon lat lon
   | Inr cells \<Rightarrow> sorted cells \<and> distinct cells \<and>
       (\<forall>c. c \<in> set cells \<longleftrightarrow> (\<exists>(lat, lon) \<in> set polygon. lat_lng_to_cell r lat lon = Inr c))"
proof (cases "\<exists>(lat, lon) \<in> set polygon. \<not> valid_lat_lon lat lon")
  case True
  then show ?thesis by (auto simp: polygon_to_cells_def)
next
  case False
  then have "\<forall>v \<in> set polygon. \<exists>c. (\<lambda>(lat, lon). lat_lng_to_cell r lat lon) v = Inr c"
    using lat_lng_to_cell_ok_iff by fastforce
  then obtain cs where cs: "map_exc (\<lambda>(lat, lon). lat_lng_to_cell r lat lon) polygon = Inr cs"
    using map_exc_total by blast
  then have l2: "list_all2 (\<lambda>v c. (\<lambda>(lat, lon). lat_lng_to_cell r lat lon) v = Inr c) polygon cs"
    by (simp only: map_exc_Inr_iff)
  have mem: "c \<in> set cs \<longleftrightarrow> (\<exists>(lat, lon) \<in> set polygon. lat_lng_to_cell r lat lon = Inr c)" for c
  proof
    assume "c \<in> set cs"
    then obtain i where i: "i < length cs" "c = cs ! i" by (metis in_set_conv_nth)
    then have "(\<lambda>(lat, lon). lat_lng_to_cell r lat lon) (polygon ! i) = Inr c" "polygon ! i \<in> set polygon"
      using l2 by (auto simp: list_all2_conv_all_nth)
    then show "\<exists>(lat, lon) \<in> set polygon. lat_lng_to_cell r lat lon = Inr c"
      by (cases "polygon ! i") auto
  next
    assume "\<exists>(lat, lon) \<in> set polygon. lat_lng_to_cell r lat lon = Inr c"
    then obtain lat lon where v: "(lat, lon) \<in> set polygon" "lat_lng_to_cell r lat lon = Inr c" by auto
    then obtain i where "i < length polygon" "polygon ! i = (lat, lon)"
      by (auto simp: in_set_conv_nth)
    with v(2) show "c \<in> set cs" using l2 by (auto simp: list_all2_conv_all_nth)
  qed
  show ?thesis
  proof (cases "polygon = []")
    case True
    then show ?thesis by (simp add: polygon_to_cells_def)
  next
    case ne: False
    have "polygon_to_cells r polygon = Inr (sorted_list_of_set (set cs))"
      using False ne cs by (simp add: polygon_to_cells_def)
    then show ?thesis using mem by simp
  qed
qed

subsection \<open>Great-circle distance\<close>

record libm =
  m_sin :: "double \<Rightarrow> double"
  m_cos :: "double \<Rightarrow> double"
  m_atan2 :: "double \<Rightarrow> double \<Rightarrow> double"
  m_sqrt :: "double \<Rightarrow> double"

definition earth_radius_m :: double where
  "earth_radius_m = Fin 6371000"

definition deg_to_rad :: "double \<Rightarrow> double" where
  "deg_to_rad deg = ddiv (dmul deg (fl (314159265358979323846 / 100000000000000000000))) (Fin 180)"

definition haversine :: "libm \<Rightarrow> double \<Rightarrow> double \<Rightarrow> double \<Rightarrow> double \<Rightarrow> double" where
  "haversine m lat1 lon1 lat2 lon2 =
     (let dlat = deg_to_rad (dsub lat2 lat1); dlon = deg_to_rad (dsub lon2 lon1);
          rlat1 = deg_to_rad lat1; rlat2 = deg_to_rad lat2;
          slat = m_sin m (ddiv dlat (Fin 2)); slon = m_sin m (ddiv dlon (Fin 2));
          a = dadd (dmul slat slat)
                (dmul (dmul (dmul (m_cos m rlat1) (m_cos m rlat2)) slon) slon);
          c = dmul (Fin 2) (m_atan2 m (m_sqrt m a) (m_sqrt m (dsub (Fin 1) a)))
      in dmul earth_radius_m c)"

lemma pi_const: "\<exists>x. fl (314159265358979323846 / 100000000000000000000) = Fin x \<and> 2 \<le> x \<and> x \<le> 4"
proof (rule fin_between)
  have "fl 2 = Fin 2" "fl 4 = Fin 4" using fl_of_int [of 2] fl_of_int [of 4] by simp_all
  then show "Fin 2 \<le> fl (314159265358979323846 / 100000000000000000000)"
    "fl (314159265358979323846 / 100000000000000000000) \<le> Fin 4"
    using fl_mono [of 2 "314159265358979323846 / 100000000000000000000"]
      fl_mono [of "314159265358979323846 / 100000000000000000000" 4] by simp_all
qed

lemma dneg_mul: "dmul (dneg a) b = dneg (dmul a b)" "dmul a (dneg b) = dneg (dmul a b)"
  by (cases a; cases b; auto simp: fl_uminus dinf_mul_def)+

lemma dneg_div: "ddiv (dneg a) (Fin c) = dneg (ddiv a (Fin c))" if "0 < c"
  using that by (cases a) (auto simp: fl_uminus)

lemma deg_to_rad_neg: "deg_to_rad (dneg d) = dneg (deg_to_rad d)"
  by (simp add: deg_to_rad_def dneg_mul dneg_div)

lemma dsub_swap: "x \<noteq> y \<or> dfinite x \<Longrightarrow> dsub x y = dneg (dsub y x)"
  by (cases x; cases y) (auto simp: dsub_def fl_uminus [symmetric])

text \<open>The distance between two finite coordinates does not depend on their order, whatever
  rounding does, as long as the library's sine is odd.\<close>

lemma haversine_symmetric:
  assumes "\<And>x. m_sin m (dneg x) = dneg (m_sin m x)" "dfinite lat1" "dfinite lon1"
  shows "haversine m lat1 lon1 lat2 lon2 = haversine m lat2 lon2 lat1 lon1"
proof -
  have 1: "dsub lat1 lat2 = dneg (dsub lat2 lat1)" using assms(2) by (intro dsub_swap) simp
  have 2: "dsub lon1 lon2 = dneg (dsub lon2 lon1)" using assms(3) by (intro dsub_swap) simp
  show ?thesis
    unfolding haversine_def Let_def 1 2
    by (simp add: deg_to_rad_neg dneg_div assms(1) dneg_mul dmul_commute [of "m_cos m (deg_to_rad lat1)"])
qed

text \<open>A point is at distance 0 from itself.\<close>

lemma haversine_self:
  assumes "m_sin m (Fin 0) = Fin 0" "m_sqrt m (Fin 0) = Fin 0" "m_sqrt m (Fin 1) = Fin 1"
    and "m_atan2 m (Fin 0) (Fin 1) = Fin 0" "\<And>x. \<exists>c. m_cos m x = Fin c \<and> \<bar>c\<bar> \<le> 1"
    and "dfinite lat" "dfinite lon"
  shows "haversine m lat lon lat lon = Fin 0"
proof -
  have sub: "dsub lat lat = Fin 0" "dsub lon lon = Fin 0" using assms(6,7) by (auto simp: dfinite_iff)
  have rad: "deg_to_rad (Fin 0) = Fin 0" using pi_const by (auto simp: deg_to_rad_def)
  obtain c where c: "m_cos m (deg_to_rad lat) = Fin c" "\<bar>c\<bar> \<le> 1" using assms(5) by blast
  have "fl 1 = Fin 1" using fl_of_int [of 1] by simp
  moreover have "0 \<le> c * c" "c * c \<le> 1" using c(2) by (auto simp: abs_le_square_iff [of c 1, simplified] power2_eq_square)
  ultimately have "Fin 0 \<le> fl (c * c)" "fl (c * c) \<le> Fin 1"
    using fl_nonneg fl_mono [of "c * c" 1] by simp_all
  from fin_between [OF this] obtain z where z: "fl (c * c) = Fin z" by blast
  have one: "fl 1 = Fin 1" using fl_of_int [of 1] by simp
  show ?thesis
    unfolding haversine_def Let_def sub rad
    by (simp add: assms(1-4) earth_radius_m_def c z one)
qed

subsection \<open>Point in polygon\<close>

type_synonym vertex = "double \<times> double"

definition k_epsilon :: double where
  "k_epsilon = fl (1 / 1000000000000)"

definition same_point :: "vertex \<Rightarrow> vertex \<Rightarrow> bool" where
  "same_point a b = (dle (dabs (dsub (fst a) (fst b))) k_epsilon \<and>
     dle (dabs (dsub (snd a) (snd b))) k_epsilon)"

definition cross_product :: "double \<Rightarrow> double \<Rightarrow> vertex \<Rightarrow> vertex \<Rightarrow> double" where
  "cross_product lat lon a b =
     (let y1 = fst a; x1 = snd a; y2 = fst b; x2 = snd b in
      dsub (dmul (dsub x2 x1) (dsub lat y1)) (dmul (dsub lon x1) (dsub y2 y1)))"

text \<open>\<open>std::min\<close> and \<open>std::max\<close>.\<close>

definition dmin :: "double \<Rightarrow> double \<Rightarrow> double" where
  "dmin a b = (if dlt b a then b else a)"

definition dmax :: "double \<Rightarrow> double \<Rightarrow> double" where
  "dmax a b = (if dlt a b then b else a)"

definition point_on_segment :: "double \<Rightarrow> double \<Rightarrow> vertex \<Rightarrow> vertex \<Rightarrow> bool" where
  "point_on_segment lat lon a b =
     (if dlt k_epsilon (dabs (cross_product lat lon a b)) then False
      else let min_lat = dsub (dmin (fst a) (fst b)) k_epsilon;
               max_lat = dadd (dmax (fst a) (fst b)) k_epsilon;
               min_lon = dsub (dmin (snd a) (snd b)) k_epsilon;
               max_lon = dadd (dmax (snd a) (snd b)) k_epsilon
           in dle min_lat lat \<and> dle lat max_lat \<and> dle min_lon lon \<and> dle lon max_lon)"

text \<open>The edges the loops visit: vertex i and vertex (i + 1) mod n.\<close>

definition polygon_edges :: "vertex list \<Rightarrow> nat \<Rightarrow> (vertex \<times> vertex) list" where
  "polygon_edges vertices n = map (\<lambda>i. (vertices ! i, vertices ! ((i + 1) mod n))) [0..<n]"

definition signed_area_twice :: "vertex list \<Rightarrow> nat \<Rightarrow> double" where
  "signed_area_twice vertices n = fold (\<lambda>(current, next) area.
     dadd area (dsub (dmul (snd current) (fst next)) (dmul (snd next) (fst current))))
     (polygon_edges vertices n) (Fin 0)"

definition crossing :: "double \<Rightarrow> double \<Rightarrow> vertex \<Rightarrow> vertex \<Rightarrow> int" where
  "crossing lat lon a b =
     (let y1 = fst a; y2 = fst b; cross = cross_product lat lon a b in
      if dle y1 lat then (if dlt lat y2 \<and> dlt (Fin 0) cross then 1 else 0)
      else (if dle y2 lat \<and> dlt cross (Fin 0) then - 1 else 0))"

fun winding_loop :: "double \<Rightarrow> double \<Rightarrow> (vertex \<times> vertex) list \<Rightarrow> int \<Rightarrow> bool" where
  "winding_loop lat lon [] winding = (winding \<noteq> 0)"
| "winding_loop lat lon ((a, b) # es) winding =
     (if point_on_segment lat lon a b then True
      else winding_loop lat lon es (winding + crossing lat lon a b))"

definition open_length :: "vertex list \<Rightarrow> nat" where
  "open_length vertices = (if same_point (hd vertices) (last vertices) then length vertices - 1
     else length vertices)"

definition point_in_polygon :: "double \<Rightarrow> double \<Rightarrow> vertex list \<Rightarrow> bool" where
  "point_in_polygon lat lon vertices =
     (if length vertices < 3 then False
      else let n = open_length vertices in
        if n < 3 then False
        else if dle (dabs (signed_area_twice vertices n)) k_epsilon then False
        else winding_loop lat lon (polygon_edges vertices n) 0)"

subsection \<open>What the polygon test decides\<close>

text \<open>A coordinate: a value of the C++ type between -180 and 180.\<close>

definition is_coord :: "double \<Rightarrow> bool" where
  "is_coord d = (\<exists>x. d = Fin x \<and> fl x = Fin x \<and> \<bar>x\<bar> \<le> 180)"

definition is_vertex :: "vertex \<Rightarrow> bool" where
  "is_vertex v = (is_coord (fst v) \<and> is_coord (snd v))"

lemma k_epsilon_fin: "\<exists>e. k_epsilon = Fin e \<and> 0 \<le> e \<and> e \<le> 1"
  unfolding k_epsilon_def
proof (rule fin_between)
  show "Fin 0 \<le> fl (1 / 1000000000000)" by (rule fl_nonneg) simp
  have "fl 1 = Fin 1" using fl_of_int [of 1] by simp
  then show "fl (1 / 1000000000000) \<le> Fin 1" using fl_mono [of "1 / 1000000000000" 1] by simp
qed

lemma fl_bounded: "\<bar>x\<bar> \<le> of_int b \<Longrightarrow> b < 2 ^ 53 \<Longrightarrow> \<exists>y. fl x = Fin y \<and> \<bar>y\<bar> \<le> of_int b"
proof -
  assume x: "\<bar>x\<bar> \<le> of_int b" and b: "b < 2 ^ 53"
  have "0 \<le> (of_int b :: rat)" using x by (rule order_trans [rotated]) simp
  then have "0 \<le> b" by simp
  then have "fl (of_int b) = Fin (of_int b)" "fl (of_int (- b)) = Fin (of_int (- b))"
    using fl_of_int [of b] fl_of_int [of "- b"] b by simp_all
  moreover have "of_int (- b) \<le> x" "x \<le> of_int b" using x by (simp_all add: abs_le_iff)
  ultimately have "Fin (of_int (- b)) \<le> fl x" "fl x \<le> Fin (of_int b)"
    using fl_mono by metis+
  from fin_between [OF this] show ?thesis by (auto simp: abs_le_iff)
qed

text \<open>The difference of two coordinates keeps its sign and is monotone.\<close>

lemma fl_diff:
  assumes "\<bar>x\<bar> \<le> 180" "\<bar>y\<bar> \<le> 180"
  obtains d where "fl (x - y) = Fin d" "\<bar>d\<bar> \<le> 360" "x \<le> y \<Longrightarrow> d \<le> 0" "y \<le> x \<Longrightarrow> 0 \<le> d"
proof -
  have "\<bar>x - y\<bar> \<le> of_int 360" using assms by linarith
  then obtain d where d: "fl (x - y) = Fin d" "\<bar>d\<bar> \<le> 360" using fl_bounded [of "x - y" 360] by auto
  moreover have "x \<le> y \<Longrightarrow> d \<le> 0" using ieee.round_nonpos [of "x - y"] d by simp
  moreover have "y \<le> x \<Longrightarrow> 0 \<le> d" using fl_nonneg [of "x - y"] d by simp
  ultimately show ?thesis using that by blast
qed

lemma edges_in_set:
  assumes "(a, b) \<in> set (polygon_edges vs n)" "n \<le> length vs"
  shows "a \<in> set vs \<and> b \<in> set vs"
proof -
  obtain i where i: "i < n" "a = vs ! i" "b = vs ! ((i + 1) mod n)"
    using assms(1) by (auto simp: polygon_edges_def)
  then have "(i + 1) mod n < n" by (intro mod_less_divisor) simp
  then have "(i + 1) mod n < length vs" "i < length vs" using i(1) assms(2) by linarith+
  then show ?thesis using i(2,3) by (simp only: nth_mem simp_thms)
qed

lemma winding_loop_segment:
  "\<exists>(a, b) \<in> set es. point_on_segment lat lon a b \<Longrightarrow> winding_loop lat lon es w"
  by (induction lat lon es w rule: winding_loop.induct) auto

lemma winding_loop_none:
  "\<forall>(a, b) \<in> set es. \<not> point_on_segment lat lon a b \<and> crossing lat lon a b = 0 \<Longrightarrow>
   winding_loop lat lon es w = (w \<noteq> 0)"
  by (induction lat lon es w rule: winding_loop.induct) auto

lemma open_length_le: "open_length vs \<le> length vs"
  by (simp add: open_length_def)

lemma segment_start:
  assumes "is_vertex a" "is_vertex b"
  shows "point_on_segment (fst a) (snd a) a b"
proof -
  obtain y x where a: "fst a = Fin y" "fl y = Fin y" "\<bar>y\<bar> \<le> 180" "snd a = Fin x" "fl x = Fin x" "\<bar>x\<bar> \<le> 180"
    using assms(1) by (auto simp: is_vertex_def is_coord_def)
  obtain y2 x2 where b: "fst b = Fin y2" "\<bar>y2\<bar> \<le> 180" "snd b = Fin x2" "\<bar>x2\<bar> \<le> 180"
    using assms(2) by (auto simp: is_vertex_def is_coord_def)
  obtain dx where dx: "fl (x2 - x) = Fin dx" using fl_diff [OF b(4) a(6)] by blast
  obtain dy where dy: "fl (y2 - y) = Fin dy" using fl_diff [OF b(2) a(3)] by blast
  obtain e where e: "k_epsilon = Fin e" "0 \<le> e" using k_epsilon_fin by blast
  have cross: "cross_product (fst a) (snd a) a b = Fin 0"
    by (simp add: cross_product_def a b dx dy)
  have lo: "dle (dsub (dmin (Fin u) (Fin v)) k_epsilon) (Fin u)" if "fl u = Fin u" for u v
  proof -
    have "fl (min v u - e) \<le> fl u" using e by (intro fl_mono) (simp add: min_le_iff_disj)
    moreover have "dmin (Fin u) (Fin v) = Fin (min v u)" by (auto simp: dmin_def min_def)
    ultimately show ?thesis using that fl_not_nan [of "min v u - e"] by (simp add: dle_def e(1))
  qed
  have hi: "dle (Fin u) (dadd (dmax (Fin u) (Fin v)) k_epsilon)" if "fl u = Fin u" for u v
  proof -
    have "fl u \<le> fl (max u v + e)" using e by (intro fl_mono) (simp add: le_max_iff_disj add_increasing2)
    moreover have "dmax (Fin u) (Fin v) = Fin (max u v)" by (auto simp: dmax_def max_def)
    ultimately show ?thesis using that fl_not_nan [of "max u v + e"] by (simp add: dle_def e(1))
  qed
  show ?thesis
    using cross lo [OF a(2)] hi [OF a(2)] lo [OF a(5)] hi [OF a(5)] e(2)
    by (simp add: point_on_segment_def a b e(1))
qed

text \<open>Every vertex of a polygon that is not degenerate counts as inside it.\<close>

lemma polygon_vertex_inside:
  assumes "\<forall>v \<in> set vs. is_vertex v" "i < open_length vs" "3 \<le> open_length vs"
    and "\<not> dle (dabs (signed_area_twice vs (open_length vs))) k_epsilon"
  shows "point_in_polygon (fst (vs ! i)) (snd (vs ! i)) vs"
proof -
  let ?n = "open_length vs"
  have n: "3 \<le> length vs" using open_length_le [of vs] assms(3) by linarith
  have e: "(vs ! i, vs ! ((i + 1) mod ?n)) \<in> set (polygon_edges vs ?n)"
    using assms(2) by (auto simp: polygon_edges_def)
  then have "is_vertex (vs ! i)" "is_vertex (vs ! ((i + 1) mod ?n))"
    using edges_in_set [OF e open_length_le] assms(1) by auto
  then have "point_on_segment (fst (vs ! i)) (snd (vs ! i)) (vs ! i) (vs ! ((i + 1) mod ?n))"
    by (rule segment_start)
  then have "winding_loop (fst (vs ! i)) (snd (vs ! i)) (polygon_edges vs ?n) 0"
    using e by (intro winding_loop_segment) blast
  then show ?thesis using n assms(3,4) by (simp add: point_in_polygon_def Let_def)
qed

lemma sample_coords: "fl 0 = Fin 0" "fl 1 = Fin 1" "fl 10 = Fin 10" "fl 100 = Fin 100"
  using fl_of_int [of 1] fl_of_int [of 10] fl_of_int [of 100] by simp_all

lemma sample_triangle:
  "\<forall>v \<in> set [(Fin 0, Fin 0), (Fin 0, Fin 10), (Fin 10, Fin 0)]. is_vertex v"
  "open_length [(Fin 0, Fin 0), (Fin 0, Fin 10), (Fin 10, Fin 0)] = 3"
  "\<not> dle (dabs (signed_area_twice [(Fin 0, Fin 0), (Fin 0, Fin 10), (Fin 10, Fin 0)] 3)) k_epsilon"
proof -
  obtain e where e: "k_epsilon = Fin e" "0 \<le> e" "e \<le> 1" using k_epsilon_fin by blast
  note fls = sample_coords fl_uminus [of 10] fl_uminus [of 100]
  show "\<forall>v \<in> set [(Fin 0, Fin 0), (Fin 0, Fin 10), (Fin 10, Fin 0)]. is_vertex v"
    by (simp add: is_vertex_def is_coord_def fls)
  show "open_length [(Fin 0, Fin 0), (Fin 0, Fin 10), (Fin 10, Fin 0)] = 3"
    by (simp add: open_length_def same_point_def fls e(1)) (use e(3) in simp)
  show "\<not> dle (dabs (signed_area_twice [(Fin 0, Fin 0), (Fin 0, Fin 10), (Fin 10, Fin 0)] 3)) k_epsilon"
    by (simp add: signed_area_twice_def polygon_edges_def upt_rec fls e(1)) (use e(3) in simp)
qed

text \<open>A crossing test east of an edge never counts.\<close>

lemma crossing_east:
  assumes a: "is_vertex a" and b: "is_vertex b" and p: "is_coord lat" "is_coord lon"
    and "dle (snd a) lon" "dle (snd b) lon"
  shows "crossing lat lon a b = 0"
proof -
  obtain y1 x1 where a': "fst a = Fin y1" "snd a = Fin x1" "\<bar>y1\<bar> \<le> 180" "\<bar>x1\<bar> \<le> 180"
    using a by (auto simp: is_vertex_def is_coord_def)
  obtain y2 x2 where b': "fst b = Fin y2" "snd b = Fin x2" "\<bar>y2\<bar> \<le> 180" "\<bar>x2\<bar> \<le> 180"
    using b by (auto simp: is_vertex_def is_coord_def)
  obtain y x where p': "lat = Fin y" "lon = Fin x" "\<bar>y\<bar> \<le> 180" "\<bar>x\<bar> \<le> 180"
    using p by (auto simp: is_coord_def)
  have x: "x1 \<le> x" "x2 \<le> x" using assms(5,6) by (simp_all add: a' b' p')
  obtain A where A: "fl (x2 - x1) = Fin A" "\<bar>A\<bar> \<le> 360" using fl_diff [OF b'(4) a'(4)] by blast
  obtain B where B: "fl (y - y1) = Fin B" "\<bar>B\<bar> \<le> 360" "y \<le> y1 \<Longrightarrow> B \<le> 0" "y1 \<le> y \<Longrightarrow> 0 \<le> B"
    using fl_diff [OF p'(3) a'(3)] by blast
  obtain C where C: "fl (x - x1) = Fin C" "\<bar>C\<bar> \<le> 360" "x1 \<le> x \<Longrightarrow> 0 \<le> C"
    using fl_diff [OF p'(4) a'(4)] by blast
  obtain D where D: "fl (y2 - y1) = Fin D" "\<bar>D\<bar> \<le> 360" "y2 \<le> y1 \<Longrightarrow> D \<le> 0" "y1 \<le> y2 \<Longrightarrow> 0 \<le> D"
    using fl_diff [OF b'(3) a'(3)] by blast
  have AC: "A \<le> C" using fl_mono [of "x2 - x1" "x - x1"] x A C by simp
  have C0: "0 \<le> C" using C(3) x(1) by simp
  have prod: "\<bar>u * v\<bar> \<le> of_int 129600" if "\<bar>u\<bar> \<le> 360" "\<bar>v\<bar> \<le> 360" for u v :: rat
    using mult_mono [OF that] by (simp add: abs_mult)
  obtain P where P: "fl (A * B) = Fin P" "\<bar>P\<bar> \<le> 129600" using fl_bounded [OF prod [OF A(2) B(2)]] by auto
  obtain Q where Q: "fl (C * D) = Fin Q" "\<bar>Q\<bar> \<le> 129600" using fl_bounded [OF prod [OF C(2) D(2)]] by auto
  have "\<bar>P - Q\<bar> \<le> of_int 259200" using P Q by linarith
  then obtain R where R: "fl (P - Q) = Fin R" using fl_bounded [of "P - Q" 259200] by auto
  have cross: "cross_product lat lon a b = Fin R"
    by (simp add: cross_product_def a' b' p' A B C D P Q R)
  have up: "R \<le> 0" if "y1 \<le> y" "y \<le> y2"
  proof -
    have B0: "0 \<le> B" and BD: "B \<le> D"
      using B(4) that(1) fl_mono [of "y - y1" "y2 - y1"] that(2) B D by simp_all
    have "A * B \<le> C * B" using AC B0 by (rule mult_right_mono)
    also have "\<dots> \<le> C * D" using BD C0 by (rule mult_left_mono)
    finally have "fl (A * B) \<le> fl (C * D)" by (rule fl_mono)
    then have "P - Q \<le> 0" using P Q by simp
    then show ?thesis using ieee.round_nonpos [of "P - Q"] R by simp
  qed
  have down: "0 \<le> R" if "y \<le> y1" "y2 \<le> y"
  proof -
    have B0: "B \<le> 0" and BD: "D \<le> B"
      using B(3) that(1) fl_mono [of "y2 - y1" "y - y1"] that(2) B D by simp_all
    have "C * D \<le> C * B" using BD C0 by (rule mult_left_mono)
    also have "\<dots> \<le> A * B" using AC B0 by (rule mult_right_mono_neg)
    finally have "fl (C * D) \<le> fl (A * B)" by (rule fl_mono)
    then have "0 \<le> P - Q" using P Q by simp
    then show ?thesis using fl_nonneg [of "P - Q"] R by simp
  qed
  have "\<not> (y1 \<le> y \<and> y < y2 \<and> 0 < R)" "\<not> (y < y1 \<and> y2 \<le> y \<and> R < 0)"
    using up down by linarith+
  then show ?thesis
    unfolding crossing_def Let_def cross by (auto simp: a' b' p' not_le not_less)
qed

text \<open>A point north, south or east of all vertices of a polygon, by more than the tolerance,
  is outside.\<close>

lemma polygon_box_outside:
  assumes "\<forall>v \<in> set vs. is_vertex v" "is_coord lat" "is_coord lon"
    and "(\<forall>v \<in> set vs. dlt (dadd (fst v) k_epsilon) lat) \<or>
         (\<forall>v \<in> set vs. dlt lat (dsub (fst v) k_epsilon)) \<or>
         (\<forall>v \<in> set vs. dlt (dadd (snd v) k_epsilon) lon)"
  shows "\<not> point_in_polygon lat lon vs"
proof -
  obtain e where e: "k_epsilon = Fin e" "0 \<le> e" using k_epsilon_fin by blast
  have up: "dle d (dadd d k_epsilon)" and down: "dle (dsub d k_epsilon) d" if "is_coord d" for d :: double
  proof -
    obtain x where x: "d = Fin x" "fl x = Fin x" using \<open>is_coord d\<close> unfolding is_coord_def by blast
    have "fl x \<le> fl (x + e)" "fl (x - e) \<le> fl x" using e by (auto intro: fl_mono)
    then show "dle d (dadd d k_epsilon)" "dle (dsub d k_epsilon) d"
      using x(2) fl_not_nan [of "x + e"] fl_not_nan [of "x - e"]
      by (simp_all add: dle_def x(1) e(1) del: less_eq_double.simps)
  qed
  have edge: "\<not> point_on_segment lat lon a b \<and> crossing lat lon a b = 0"
    if "a \<in> set vs" "b \<in> set vs" for a b
  proof -
    have v: "is_vertex a" "is_vertex b" using assms(1) that by auto
    note c = v [unfolded is_vertex_def]
    from assms(4) show ?thesis
    proof (elim disjE)
      assume n: "\<forall>v \<in> set vs. dlt (dadd (fst v) k_epsilon) lat"
      have "dlt (dadd (dmax (fst a) (fst b)) k_epsilon) lat" using n that by (simp add: dmax_def)
      then have "\<not> point_on_segment lat lon a b"
        by (auto simp: point_on_segment_def dle_def dlt_def Let_def)
      moreover have "dlt (fst a) lat" "dlt (fst b) lat"
        using n that up [of "fst a"] up [of "fst b"] c by (auto simp: dlt_def dle_def)
      then have "crossing lat lon a b = 0" by (auto simp: crossing_def dle_def dlt_def Let_def)
      ultimately show ?thesis by blast
    next
      assume s: "\<forall>v \<in> set vs. dlt lat (dsub (fst v) k_epsilon)"
      have "dlt lat (dsub (dmin (fst a) (fst b)) k_epsilon)" using s that by (simp add: dmin_def)
      then have "\<not> point_on_segment lat lon a b"
        by (auto simp: point_on_segment_def dle_def dlt_def Let_def)
      moreover have "dlt lat (fst a)" "dlt lat (fst b)"
        using s that down [of "fst a"] down [of "fst b"] c by (auto simp: dlt_def dle_def)
      then have "crossing lat lon a b = 0" by (auto simp: crossing_def dle_def dlt_def Let_def)
      ultimately show ?thesis by blast
    next
      assume ea: "\<forall>v \<in> set vs. dlt (dadd (snd v) k_epsilon) lon"
      have "dlt (dadd (dmax (snd a) (snd b)) k_epsilon) lon" using ea that by (simp add: dmax_def)
      then have "\<not> point_on_segment lat lon a b"
        by (auto simp: point_on_segment_def dle_def dlt_def Let_def)
      moreover have "dle (snd a) lon" "dle (snd b) lon"
        using ea that up [of "snd a"] up [of "snd b"] c by (auto simp: dlt_def dle_def)
      then have "crossing lat lon a b = 0"
        using crossing_east [OF v assms(2,3)] by blast
      ultimately show ?thesis by blast
    qed
  qed
  have "\<not> winding_loop lat lon (polygon_edges vs (open_length vs)) 0"
    using winding_loop_none [of "polygon_edges vs (open_length vs)" lat lon 0] edge
      edges_in_set [OF _ open_length_le] by fastforce
  then show ?thesis by (simp add: point_in_polygon_def Let_def)
qed

lemma degenerate_polygon: "length vs < 3 \<Longrightarrow> \<not> point_in_polygon lat lon vs"
  by (simp add: point_in_polygon_def)

end
