(* ===== verification/Config.thy ===== *)
theory Config
  imports Text Domain
begin

text \<open>
  \<open>common/config/config.h\<close> and \<open>config.cpp\<close>: the configuration records with their
  defaults, the loader of the TOML subset (\<open>parse_file\<close>, the typed getters, \<open>Config::load\<close>)
  and \<open>validate_config\<close>. A thrown \<open>runtime_error\<close> is \<open>Inl\<close> of its message. The file
  system is a parameter: the content of the file, \<open>None\<close> when it cannot be opened.
\<close>

subsection \<open>Configuration records\<close>

record server_config =
  sv_role :: string
  sv_listen_addr :: string
  sv_grpc_port :: int
  sv_udp_port :: int
  sv_tls_cert :: string
  sv_tls_key :: string

definition server_config_default :: server_config where
  "server_config_default = \<lparr>sv_role = ''standalone'',
     sv_listen_addr = ''0.0.0.0'',
     sv_grpc_port = 9090,
     sv_udp_port = 9091,
     sv_tls_cert = [],
     sv_tls_key = []\<rparr>"

record kafka_config =
  kc_brokers :: string
  kc_ingest_topic :: string
  kc_geofence_topic :: string
  kc_dlq_topic :: string
  kc_consumer_group :: string
  kc_num_partitions :: int
  kc_batch_size_bytes :: int
  kc_linger_ms :: int

definition kafka_config_default :: kafka_config where
  "kafka_config_default = \<lparr>kc_brokers = ''localhost:9092'',
     kc_ingest_topic = ''tm.location.events'',
     kc_geofence_topic = ''tm.geofence.events'',
     kc_dlq_topic = ''tm.location.dlq'',
     kc_consumer_group = ''signalroute-processor'',
     kc_num_partitions = 16,
     kc_batch_size_bytes = 65536,
     kc_linger_ms = 5\<rparr>"

record redis_config =
  rc_addrs :: string
  rc_pool_size :: int
  rc_connect_timeout_ms :: int
  rc_read_timeout_ms :: int
  rc_key_prefix :: string
  rc_device_ttl_s :: int

definition redis_config_default :: redis_config where
  "redis_config_default = \<lparr>rc_addrs = ''localhost:6379'',
     rc_pool_size = 32,
     rc_connect_timeout_ms = 1000,
     rc_read_timeout_ms = 500,
     rc_key_prefix = ''sr'',
     rc_device_ttl_s = 3600\<rparr>"

record postgis_config =
  pc_dsn :: string
  pc_pool_size :: int
  pc_write_batch_size :: int
  pc_write_flush_interval_ms :: int
  pc_query_timeout_ms :: int

definition postgis_config_default :: postgis_config where
  "postgis_config_default = \<lparr>pc_dsn = [],
     pc_pool_size = 16,
     pc_write_batch_size = 500,
     pc_write_flush_interval_ms = 500,
     pc_query_timeout_ms = 5000\<rparr>"

record processor_config =
  pr_dedup_ttl_s :: int
  pr_dedup_max_entries :: int
  pr_sequence_guard_enabled :: bool
  pr_out_of_order_tolerance_s :: int
  pr_history_batch_size :: int
  pr_history_flush_interval_ms :: int
  pr_history_buffer_max_rows :: int
  pr_redis_max_retries :: int
  pr_redis_backoff_max_ms :: int

definition processor_config_default :: processor_config where
  "processor_config_default = \<lparr>pr_dedup_ttl_s = 300,
     pr_dedup_max_entries = 500000,
     pr_sequence_guard_enabled = True,
     pr_out_of_order_tolerance_s = 60,
     pr_history_batch_size = 500,
     pr_history_flush_interval_ms = 500,
     pr_history_buffer_max_rows = 10000,
     pr_redis_max_retries = 3,
     pr_redis_backoff_max_ms = 5000\<rparr>"

record spatial_config =
  sp_h3_resolution :: int
  sp_nearby_max_results :: int
  sp_nearby_max_radius_m :: double
  sp_h3_cache_size_mb :: int

definition spatial_config_default :: spatial_config where
  "spatial_config_default = \<lparr>sp_h3_resolution = 7,
     sp_nearby_max_results = 1000,
     sp_nearby_max_radius_m = Fin 50000,
     sp_h3_cache_size_mb = 64\<rparr>"

record geofence_config =
  gc_eval_enabled :: bool
  gc_dwell_threshold_s :: int
  gc_max_fences :: int
  gc_reload_interval_s :: int

definition geofence_config_default :: geofence_config where
  "geofence_config_default = \<lparr>gc_eval_enabled = True,
     gc_dwell_threshold_s = 300,
     gc_max_fences = 10000,
     gc_reload_interval_s = 60\<rparr>"

record gateway_config =
  gw_max_batch_events :: int
  gw_rate_limit_rps_per_device :: int
  gw_timestamp_skew_tolerance_s :: int
  gw_queue_full_timeout_ms :: int
  gw_auth_required :: bool
  gw_api_key :: string
  gw_max_in_flight_requests :: int

definition gateway_config_default :: gateway_config where
  "gateway_config_default = \<lparr>gw_max_batch_events = 1000,
     gw_rate_limit_rps_per_device = 100,
     gw_timestamp_skew_tolerance_s = 30,
     gw_queue_full_timeout_ms = 500,
     gw_auth_required = False,
     gw_api_key = [],
     gw_max_in_flight_requests = 0\<rparr>"

record matching_config =
  mt_strategy_name :: string
  mt_request_topic :: string
  mt_result_topic :: string
  mt_request_ttl_ms :: int

definition matching_config_default :: matching_config where
  "matching_config_default = \<lparr>mt_strategy_name = ''default'',
     mt_request_topic = ''sr.match.requests'',
     mt_result_topic = ''sr.match.results'',
     mt_request_ttl_ms = 5000\<rparr>"

record thread_config =
  th_io_threads :: int
  th_processor_threads :: int
  th_geofence_eval_threads :: int
  th_blocking_pool_size :: int

definition thread_config_default :: thread_config where
  "thread_config_default = \<lparr>th_io_threads = 0,
     th_processor_threads = 0,
     th_geofence_eval_threads = 4,
     th_blocking_pool_size = 16\<rparr>"

record observability_config =
  ob_metrics_addr :: string
  ob_metrics_port :: int
  ob_metrics_path :: string
  ob_metrics_exporter_enabled :: bool
  ob_log_level :: string
  ob_admin_http_enabled :: bool
  ob_admin_socket_enabled :: bool
  ob_admin_socket_addr :: string
  ob_admin_socket_port :: int
  ob_admin_socket_backlog :: int
  ob_admin_request_timeout_ms :: int
  ob_admin_max_request_bytes :: int
  ob_admin_access_log_enabled :: bool
  ob_health_path :: string
  ob_readiness_path :: string
  ob_require_kafka_readiness :: bool
  ob_require_redis_readiness :: bool
  ob_require_postgis_readiness :: bool
  ob_require_h3_readiness :: bool

definition observability_config_default :: observability_config where
  "observability_config_default = \<lparr>ob_metrics_addr = ''0.0.0.0'',
     ob_metrics_port = 9100,
     ob_metrics_path = ''/metrics'',
     ob_metrics_exporter_enabled = False,
     ob_log_level = ''info'',
     ob_admin_http_enabled = True,
     ob_admin_socket_enabled = False,
     ob_admin_socket_addr = ''127.0.0.1'',
     ob_admin_socket_port = 9101,
     ob_admin_socket_backlog = 16,
     ob_admin_request_timeout_ms = 1000,
     ob_admin_max_request_bytes = 8192,
     ob_admin_access_log_enabled = False,
     ob_health_path = ''/health'',
     ob_readiness_path = ''/ready'',
     ob_require_kafka_readiness = False,
     ob_require_redis_readiness = False,
     ob_require_postgis_readiness = False,
     ob_require_h3_readiness = False\<rparr>"

record config =
  cf_server :: server_config
  cf_kafka :: kafka_config
  cf_redis :: redis_config
  cf_postgis :: postgis_config
  cf_processor :: processor_config
  cf_spatial :: spatial_config
  cf_geofence :: geofence_config
  cf_gateway :: gateway_config
  cf_matching :: matching_config
  cf_threads :: thread_config
  cf_observability :: observability_config

definition config_default :: config where
  "config_default = \<lparr>cf_server = server_config_default,
     cf_kafka = kafka_config_default,
     cf_redis = redis_config_default,
     cf_postgis = postgis_config_default,
     cf_processor = processor_config_default,
     cf_spatial = spatial_config_default,
     cf_geofence = geofence_config_default,
     cf_gateway = gateway_config_default,
     cf_matching = matching_config_default,
     cf_threads = thread_config_default,
     cf_observability = observability_config_default\<rparr>"

subsection \<open>Lexical helpers of the loader\<close>

definition trim :: "string \<Rightarrow> string" where
  "trim s = rev (dropWhile is_space (rev (dropWhile is_space s)))"

text \<open>The scanner keeps two flags: inside a string, and after a backslash in it.\<close>

fun strip_comment_from :: "bool \<Rightarrow> bool \<Rightarrow> string \<Rightarrow> string" where
  "strip_comment_from ins esc [] = []"
| "strip_comment_from ins esc (c # s) =
     (if esc then c # strip_comment_from ins False s
      else if ins \<and> c = CHR 0x5C then c # strip_comment_from ins True s
      else if c = CHR 0x22 then c # strip_comment_from (\<not> ins) False s
      else if \<not> ins \<and> c = CHR ''#'' then []
      else c # strip_comment_from ins False s)"

definition strip_comment :: "string \<Rightarrow> string" where
  "strip_comment line = strip_comment_from False False line"

definition parse_error :: "string \<Rightarrow> nat \<Rightarrow> string \<Rightarrow> string" where
  "parse_error path n msg =
     ''Config parse error in '' @ path @ '':'' @ show_nat n @ '': '' @ msg"

fun unescape :: "string \<Rightarrow> nat \<Rightarrow> bool \<Rightarrow> string \<Rightarrow> string exc" where
  "unescape path n esc [] =
     (if esc then Inl (parse_error path n ''unterminated string escape'') else Inr [])"
| "unescape path n esc (c # s) =
     (if esc then
        (if c = CHR 0x22 then map_sum id ((#) CHR 0x22) (unescape path n False s)
         else if c = CHR 0x5C then map_sum id ((#) CHR 0x5C) (unescape path n False s)
         else if c = CHR ''n'' then map_sum id ((#) CHR 0x0A) (unescape path n False s)
         else if c = CHR ''r'' then map_sum id ((#) CHR 0x0D) (unescape path n False s)
         else if c = CHR ''t'' then map_sum id ((#) CHR 0x09) (unescape path n False s)
         else Inl (parse_error path n ''unsupported string escape''))
      else if c = CHR 0x5C then unescape path n True s
      else map_sum id ((#) c) (unescape path n False s))"

definition unquote :: "string \<Rightarrow> nat \<Rightarrow> string \<Rightarrow> string exc" where
  "unquote path n raw =
     (if length raw < 2 \<or> hd raw \<noteq> CHR 0x22 \<or> last raw \<noteq> CHR 0x22
      then Inl (parse_error path n ''expected quoted string value'')
      else unescape path n False (butlast (tl raw)))"

subsection \<open>Sections and keys\<close>

type_synonym section_map = "(string, (string, string) umap) umap"

definition section_of :: "section_map \<Rightarrow> string \<Rightarrow> (string, string) umap" where
  "section_of m s = (case map_of m s of None \<Rightarrow> [] | Some kv \<Rightarrow> kv)"

text \<open>One line of the file: the sections so far and the current section name.\<close>

definition parse_line :: "string \<Rightarrow> nat \<Rightarrow> section_map \<times> string \<Rightarrow> string \<Rightarrow> (section_map \<times> string) exc" where
  "parse_line path n st raw =
     (let (sections, current) = st; line = trim (strip_comment raw) in
      if line = [] then Inr st
      else if hd line = CHR ''['' then
        (if last line \<noteq> CHR '']'' \<or> length line < 3
         then Inl (parse_error path n ''invalid section header'')
         else let name = trim (butlast (tl line)) in
           if name = [] then Inl (parse_error path n ''empty section name'')
           else Inr (um_put name (section_of sections name) sections, name))
      else if CHR ''='' \<notin> set line then Inl (parse_error path n ''expected key = value'')
      else if current = [] then Inl (parse_error path n ''key appears before any section'')
      else
        (let key = trim (takeWhile (\<lambda>c. c \<noteq> CHR ''='') line);
             val = trim (tl (dropWhile (\<lambda>c. c \<noteq> CHR ''='') line)) in
         if key = [] then Inl (parse_error path n ''empty key'')
         else if val = [] then Inl (parse_error path n ''empty value'')
         else Inr (um_put current (um_put key val (section_of sections current)) sections, current)))"

fun parse_lines :: "string \<Rightarrow> nat \<Rightarrow> section_map \<times> string \<Rightarrow> string list \<Rightarrow> section_map exc" where
  "parse_lines path n st [] = Inr (fst st)"
| "parse_lines path n st (l # ls) =
     bind_exc (parse_line path n st l) (\<lambda>st'. parse_lines path (Suc n) st' ls)"

definition parse_file :: "string \<Rightarrow> string option \<Rightarrow> section_map exc" where
  "parse_file path content = (case content of
     None \<Rightarrow> Inl (''Config file not found or unreadable: '' @ path)
   | Some text \<Rightarrow> parse_lines path 1 ([], []) (getline_fields (CHR 0x0A) text))"

definition raw_value :: "section_map \<Rightarrow> string \<Rightarrow> string \<Rightarrow> string option" where
  "raw_value m s k = (case map_of m s of None \<Rightarrow> None | Some kv \<Rightarrow> map_of kv k)"

definition get_string :: "string \<Rightarrow> section_map \<Rightarrow> string \<Rightarrow> string \<Rightarrow> string \<Rightarrow> string exc" where
  "get_string path m s k fallback = (case raw_value m s k of None \<Rightarrow> Inr fallback
     | Some v \<Rightarrow> unquote path 0 v)"

definition get_bool :: "string \<Rightarrow> section_map \<Rightarrow> string \<Rightarrow> string \<Rightarrow> bool \<Rightarrow> bool exc" where
  "get_bool path m s k fallback = (case raw_value m s k of None \<Rightarrow> Inr fallback
     | Some v \<Rightarrow> if v = ''true'' then Inr True else if v = ''false'' then Inr False
         else Inl (''Config parse error in '' @ path @ '': expected boolean for '' @ s @ ''.'' @ k))"

definition get_int :: "string \<Rightarrow> section_map \<Rightarrow> string \<Rightarrow> string \<Rightarrow> int \<Rightarrow> int exc" where
  "get_int path m s k fallback =
     (let err = ''Config parse error in '' @ path @ '': expected integer for '' @ s @ ''.'' @ k in
      case raw_value m s k of None \<Rightarrow> Inr fallback
      | Some v \<Rightarrow> (case sto_ll v of Inl _ \<Rightarrow> Inl err
          | Inr (n, rest) \<Rightarrow> if rest \<noteq> [] then Inl err
              else if n < - (2 ^ 31) \<or> n > 2 ^ 31 - 1 then Inl err else Inr n))"

definition get_double :: "string \<Rightarrow> section_map \<Rightarrow> string \<Rightarrow> string \<Rightarrow> double \<Rightarrow> double exc" where
  "get_double path m s k fallback =
     (let err = ''Config parse error in '' @ path @ '': expected number for '' @ s @ ''.'' @ k in
      case raw_value m s k of None \<Rightarrow> Inr fallback
      | Some v \<Rightarrow> (case sto_d v of Inl _ \<Rightarrow> Inl err
          | Inr (x, rest) \<Rightarrow> if rest \<noteq> [] then Inl err else Inr x))"

subsection \<open>Validation\<close>

definition require_non_empty :: "string \<Rightarrow> string \<Rightarrow> unit exc" where
  "require_non_empty v name =
     (if v = [] then Inl (''Invalid config: '' @ name @ '' must not be empty'') else Inr ())"

definition require_positive :: "int \<Rightarrow> string \<Rightarrow> unit exc" where
  "require_positive v name =
     (if v \<le> 0 then Inl (''Invalid config: '' @ name @ '' must be positive'') else Inr ())"

definition require_non_negative :: "int \<Rightarrow> string \<Rightarrow> unit exc" where
  "require_non_negative v name =
     (if v < 0 then Inl (''Invalid config: '' @ name @ '' must not be negative'') else Inr ())"

definition require_port :: "int \<Rightarrow> string \<Rightarrow> unit exc" where
  "require_port v name = (if v \<le> 0 \<or> v > 65535
     then Inl (''Invalid config: '' @ name @ '' must be between 1 and 65535'') else Inr ())"

definition require_port_or_zero :: "int \<Rightarrow> string \<Rightarrow> unit exc" where
  "require_port_or_zero v name = (if v < 0 \<or> v > 65535
     then Inl (''Invalid config: '' @ name @ '' must be between 0 and 65535'') else Inr ())"

definition require_path :: "string \<Rightarrow> string \<Rightarrow> unit exc" where
  "require_path v name = bind_exc (require_non_empty v name) (\<lambda>_.
     if hd v \<noteq> CHR ''/'' then Inl (''Invalid config: '' @ name @ '' must start with /'') else Inr ())"

definition config_roles :: "string list" where
  "config_roles = [''standalone'', ''gateway'', ''processor'', ''query'', ''geofence'', ''matcher'']"

definition config_log_levels :: "string list" where
  "config_log_levels = [''trace'', ''debug'', ''info'', ''warn'', ''error'']"

text \<open>The checks of \<open>validate_config\<close>, one list per section, in the order of the code.\<close>

definition validate_server :: "config \<Rightarrow> unit exc list" where
  "validate_server c = [
    (if sv_role (cf_server c) \<notin> set config_roles
      then Inl (''Invalid config: server.role is not supported: '' @ sv_role (cf_server c)) else Inr ()),
    require_non_empty (sv_listen_addr (cf_server c)) ''server.listen_addr'',
    require_port (sv_grpc_port (cf_server c)) ''server.grpc_port'',
    require_port (sv_udp_port (cf_server c)) ''server.udp_port'']"

definition validate_kafka :: "config \<Rightarrow> unit exc list" where
  "validate_kafka c = [
    require_non_empty (kc_brokers (cf_kafka c)) ''kafka.brokers'',
    require_non_empty (kc_ingest_topic (cf_kafka c)) ''kafka.ingest_topic'',
    require_non_empty (kc_geofence_topic (cf_kafka c)) ''kafka.geofence_topic'',
    require_non_empty (kc_dlq_topic (cf_kafka c)) ''kafka.dlq_topic'',
    require_non_empty (kc_consumer_group (cf_kafka c)) ''kafka.consumer_group'',
    require_positive (kc_num_partitions (cf_kafka c)) ''kafka.num_partitions'',
    require_positive (kc_batch_size_bytes (cf_kafka c)) ''kafka.batch_size_bytes'',
    require_non_negative (kc_linger_ms (cf_kafka c)) ''kafka.linger_ms'']"

definition validate_redis :: "config \<Rightarrow> unit exc list" where
  "validate_redis c = [
    require_non_empty (rc_addrs (cf_redis c)) ''redis.addrs'',
    require_positive (rc_pool_size (cf_redis c)) ''redis.pool_size'',
    require_positive (rc_connect_timeout_ms (cf_redis c)) ''redis.connect_timeout_ms'',
    require_positive (rc_read_timeout_ms (cf_redis c)) ''redis.read_timeout_ms'',
    require_non_empty (rc_key_prefix (cf_redis c)) ''redis.key_prefix'',
    require_positive (rc_device_ttl_s (cf_redis c)) ''redis.device_ttl_s'']"

definition validate_postgis :: "config \<Rightarrow> unit exc list" where
  "validate_postgis c = [
    require_non_empty (pc_dsn (cf_postgis c)) ''postgis.dsn'',
    require_positive (pc_pool_size (cf_postgis c)) ''postgis.pool_size'',
    require_positive (pc_write_batch_size (cf_postgis c)) ''postgis.write_batch_size'',
    require_positive (pc_write_flush_interval_ms (cf_postgis c)) ''postgis.write_flush_interval_ms'',
    require_positive (pc_query_timeout_ms (cf_postgis c)) ''postgis.query_timeout_ms'']"

definition validate_processor :: "config \<Rightarrow> unit exc list" where
  "validate_processor c = [
    require_positive (pr_dedup_ttl_s (cf_processor c)) ''processor.dedup_ttl_s'',
    require_positive (pr_dedup_max_entries (cf_processor c)) ''processor.dedup_max_entries'',
    require_non_negative (pr_out_of_order_tolerance_s (cf_processor c)) ''processor.out_of_order_tolerance_s'',
    require_positive (pr_history_batch_size (cf_processor c)) ''processor.history_batch_size'',
    require_positive (pr_history_flush_interval_ms (cf_processor c)) ''processor.history_flush_interval_ms'',
    require_positive (pr_history_buffer_max_rows (cf_processor c)) ''processor.history_buffer_max_rows'',
    require_non_negative (pr_redis_max_retries (cf_processor c)) ''processor.redis_max_retries'',
    require_non_negative (pr_redis_backoff_max_ms (cf_processor c)) ''processor.redis_backoff_max_ms'']"

definition validate_spatial :: "config \<Rightarrow> unit exc list" where
  "validate_spatial c = [
    (if sp_h3_resolution (cf_spatial c) < 0 \<or> sp_h3_resolution (cf_spatial c) > 15
      then Inl ''Invalid config: spatial.h3_resolution must be between 0 and 15'' else Inr ()),
    require_positive (sp_nearby_max_results (cf_spatial c)) ''spatial.nearby_max_results'',
    (if dle (sp_nearby_max_radius_m (cf_spatial c)) (Fin 0)
      then Inl ''Invalid config: spatial.nearby_max_radius_m must be positive'' else Inr ()),
    require_positive (sp_h3_cache_size_mb (cf_spatial c)) ''spatial.h3_cache_size_mb'']"

definition validate_geofence :: "config \<Rightarrow> unit exc list" where
  "validate_geofence c = [
    require_positive (gc_dwell_threshold_s (cf_geofence c)) ''geofence.dwell_threshold_s'',
    require_positive (gc_max_fences (cf_geofence c)) ''geofence.max_fences'',
    require_positive (gc_reload_interval_s (cf_geofence c)) ''geofence.reload_interval_s'']"

definition validate_gateway :: "config \<Rightarrow> unit exc list" where
  "validate_gateway c = [
    require_positive (gw_max_batch_events (cf_gateway c)) ''gateway.max_batch_events'',
    require_positive (gw_rate_limit_rps_per_device (cf_gateway c)) ''gateway.rate_limit_rps_per_device'',
    require_non_negative (gw_timestamp_skew_tolerance_s (cf_gateway c)) ''gateway.timestamp_skew_tolerance_s'',
    require_positive (gw_queue_full_timeout_ms (cf_gateway c)) ''gateway.queue_full_timeout_ms'',
    (if gw_auth_required (cf_gateway c) then require_non_empty (gw_api_key (cf_gateway c)) ''gateway.api_key'' else Inr ()),
    require_non_negative (gw_max_in_flight_requests (cf_gateway c)) ''gateway.max_in_flight_requests'']"

definition validate_matching :: "config \<Rightarrow> unit exc list" where
  "validate_matching c = [
    require_non_empty (mt_strategy_name (cf_matching c)) ''matching.strategy_name'',
    require_non_empty (mt_request_topic (cf_matching c)) ''matching.request_topic'',
    require_non_empty (mt_result_topic (cf_matching c)) ''matching.result_topic'',
    require_positive (mt_request_ttl_ms (cf_matching c)) ''matching.request_ttl_ms'']"

definition validate_threads :: "config \<Rightarrow> unit exc list" where
  "validate_threads c = [
    require_non_negative (th_io_threads (cf_threads c)) ''threads.io_threads'',
    require_non_negative (th_processor_threads (cf_threads c)) ''threads.processor_threads'',
    require_positive (th_geofence_eval_threads (cf_threads c)) ''threads.geofence_eval_threads'',
    require_positive (th_blocking_pool_size (cf_threads c)) ''threads.blocking_pool_size'']"

definition validate_observability :: "config \<Rightarrow> unit exc list" where
  "validate_observability c = [
    require_non_empty (ob_metrics_addr (cf_observability c)) ''observability.metrics_addr'',
    require_port_or_zero (ob_metrics_port (cf_observability c)) ''observability.metrics_port'',
    require_path (ob_metrics_path (cf_observability c)) ''observability.metrics_path'',
    require_non_empty (ob_admin_socket_addr (cf_observability c)) ''observability.admin_socket_addr'',
    require_port_or_zero (ob_admin_socket_port (cf_observability c)) ''observability.admin_socket_port'',
    require_positive (ob_admin_socket_backlog (cf_observability c)) ''observability.admin_socket_backlog'',
    require_positive (ob_admin_request_timeout_ms (cf_observability c)) ''observability.admin_request_timeout_ms'',
    require_positive (ob_admin_max_request_bytes (cf_observability c)) ''observability.admin_max_request_bytes'',
    require_path (ob_health_path (cf_observability c)) ''observability.health_path'',
    require_path (ob_readiness_path (cf_observability c)) ''observability.readiness_path'',
    (if ob_log_level (cf_observability c) \<notin> set config_log_levels
      then Inl (''Invalid config: observability.log_level is not supported: '' @ ob_log_level (cf_observability c)) else Inr ())]"

fun first_error :: "unit exc list \<Rightarrow> unit exc" where
  "first_error [] = Inr ()"
| "first_error (Inl e # cs) = Inl e"
| "first_error (Inr _ # cs) = first_error cs"

definition validate_config :: "config \<Rightarrow> unit exc" where
  "validate_config c = first_error
     (validate_server c @ validate_kafka c @ validate_redis c @ validate_postgis c @
      validate_processor c @ validate_spatial c @ validate_geofence c @ validate_gateway c @
      validate_matching c @ validate_threads c @ validate_observability c)"

subsection \<open>Loading\<close>

definition load_server :: "string \<Rightarrow> section_map \<Rightarrow> server_config \<Rightarrow> server_config exc" where
  "load_server path m d =
    bind_exc (get_string path m ''server'' ''role'' (sv_role d)) (\<lambda>x_role.
    bind_exc (get_string path m ''server'' ''listen_addr'' (sv_listen_addr d)) (\<lambda>x_listen_addr.
    bind_exc (get_int path m ''server'' ''grpc_port'' (sv_grpc_port d)) (\<lambda>x_grpc_port.
    bind_exc (get_int path m ''server'' ''udp_port'' (sv_udp_port d)) (\<lambda>x_udp_port.
    bind_exc (get_string path m ''server'' ''tls_cert'' (sv_tls_cert d)) (\<lambda>x_tls_cert.
    bind_exc (get_string path m ''server'' ''tls_key'' (sv_tls_key d)) (\<lambda>x_tls_key.
    Inr \<lparr>sv_role = x_role, sv_listen_addr = x_listen_addr, sv_grpc_port = x_grpc_port, sv_udp_port = x_udp_port, sv_tls_cert = x_tls_cert, sv_tls_key = x_tls_key\<rparr>))))))"

definition load_kafka :: "string \<Rightarrow> section_map \<Rightarrow> kafka_config \<Rightarrow> kafka_config exc" where
  "load_kafka path m d =
    bind_exc (get_string path m ''kafka'' ''brokers'' (kc_brokers d)) (\<lambda>x_brokers.
    bind_exc (get_string path m ''kafka'' ''ingest_topic'' (kc_ingest_topic d)) (\<lambda>x_ingest_topic.
    bind_exc (get_string path m ''kafka'' ''geofence_topic'' (kc_geofence_topic d)) (\<lambda>x_geofence_topic.
    bind_exc (get_string path m ''kafka'' ''dlq_topic'' (kc_dlq_topic d)) (\<lambda>x_dlq_topic.
    bind_exc (get_string path m ''kafka'' ''consumer_group'' (kc_consumer_group d)) (\<lambda>x_consumer_group.
    bind_exc (get_int path m ''kafka'' ''num_partitions'' (kc_num_partitions d)) (\<lambda>x_num_partitions.
    bind_exc (get_int path m ''kafka'' ''batch_size_bytes'' (kc_batch_size_bytes d)) (\<lambda>x_batch_size_bytes.
    bind_exc (get_int path m ''kafka'' ''linger_ms'' (kc_linger_ms d)) (\<lambda>x_linger_ms.
    Inr \<lparr>kc_brokers = x_brokers, kc_ingest_topic = x_ingest_topic, kc_geofence_topic = x_geofence_topic, kc_dlq_topic = x_dlq_topic, kc_consumer_group = x_consumer_group, kc_num_partitions = x_num_partitions, kc_batch_size_bytes = x_batch_size_bytes, kc_linger_ms = x_linger_ms\<rparr>))))))))"

definition load_redis :: "string \<Rightarrow> section_map \<Rightarrow> redis_config \<Rightarrow> redis_config exc" where
  "load_redis path m d =
    bind_exc (get_string path m ''redis'' ''addrs'' (rc_addrs d)) (\<lambda>x_addrs.
    bind_exc (get_int path m ''redis'' ''pool_size'' (rc_pool_size d)) (\<lambda>x_pool_size.
    bind_exc (get_int path m ''redis'' ''connect_timeout_ms'' (rc_connect_timeout_ms d)) (\<lambda>x_connect_timeout_ms.
    bind_exc (get_int path m ''redis'' ''read_timeout_ms'' (rc_read_timeout_ms d)) (\<lambda>x_read_timeout_ms.
    bind_exc (get_string path m ''redis'' ''key_prefix'' (rc_key_prefix d)) (\<lambda>x_key_prefix.
    bind_exc (get_int path m ''redis'' ''device_ttl_s'' (rc_device_ttl_s d)) (\<lambda>x_device_ttl_s.
    Inr \<lparr>rc_addrs = x_addrs, rc_pool_size = x_pool_size, rc_connect_timeout_ms = x_connect_timeout_ms, rc_read_timeout_ms = x_read_timeout_ms, rc_key_prefix = x_key_prefix, rc_device_ttl_s = x_device_ttl_s\<rparr>))))))"

definition load_postgis :: "string \<Rightarrow> section_map \<Rightarrow> postgis_config \<Rightarrow> postgis_config exc" where
  "load_postgis path m d =
    bind_exc (get_string path m ''postgis'' ''dsn'' (pc_dsn d)) (\<lambda>x_dsn.
    bind_exc (get_int path m ''postgis'' ''pool_size'' (pc_pool_size d)) (\<lambda>x_pool_size.
    bind_exc (get_int path m ''postgis'' ''write_batch_size'' (pc_write_batch_size d)) (\<lambda>x_write_batch_size.
    bind_exc (get_int path m ''postgis'' ''write_flush_interval_ms'' (pc_write_flush_interval_ms d)) (\<lambda>x_write_flush_interval_ms.
    bind_exc (get_int path m ''postgis'' ''query_timeout_ms'' (pc_query_timeout_ms d)) (\<lambda>x_query_timeout_ms.
    Inr \<lparr>pc_dsn = x_dsn, pc_pool_size = x_pool_size, pc_write_batch_size = x_write_batch_size, pc_write_flush_interval_ms = x_write_flush_interval_ms, pc_query_timeout_ms = x_query_timeout_ms\<rparr>)))))"

definition load_processor :: "string \<Rightarrow> section_map \<Rightarrow> processor_config \<Rightarrow> processor_config exc" where
  "load_processor path m d =
    bind_exc (get_int path m ''processor'' ''dedup_ttl_s'' (pr_dedup_ttl_s d)) (\<lambda>x_dedup_ttl_s.
    bind_exc (get_int path m ''processor'' ''dedup_max_entries'' (pr_dedup_max_entries d)) (\<lambda>x_dedup_max_entries.
    bind_exc (get_bool path m ''processor'' ''sequence_guard_enabled'' (pr_sequence_guard_enabled d)) (\<lambda>x_sequence_guard_enabled.
    bind_exc (get_int path m ''processor'' ''out_of_order_tolerance_s'' (pr_out_of_order_tolerance_s d)) (\<lambda>x_out_of_order_tolerance_s.
    bind_exc (get_int path m ''processor'' ''history_batch_size'' (pr_history_batch_size d)) (\<lambda>x_history_batch_size.
    bind_exc (get_int path m ''processor'' ''history_flush_interval_ms'' (pr_history_flush_interval_ms d)) (\<lambda>x_history_flush_interval_ms.
    bind_exc (get_int path m ''processor'' ''history_buffer_max_rows'' (pr_history_buffer_max_rows d)) (\<lambda>x_history_buffer_max_rows.
    bind_exc (get_int path m ''processor'' ''redis_max_retries'' (pr_redis_max_retries d)) (\<lambda>x_redis_max_retries.
    bind_exc (get_int path m ''processor'' ''redis_backoff_max_ms'' (pr_redis_backoff_max_ms d)) (\<lambda>x_redis_backoff_max_ms.
    Inr \<lparr>pr_dedup_ttl_s = x_dedup_ttl_s, pr_dedup_max_entries = x_dedup_max_entries, pr_sequence_guard_enabled = x_sequence_guard_enabled, pr_out_of_order_tolerance_s = x_out_of_order_tolerance_s, pr_history_batch_size = x_history_batch_size, pr_history_flush_interval_ms = x_history_flush_interval_ms, pr_history_buffer_max_rows = x_history_buffer_max_rows, pr_redis_max_retries = x_redis_max_retries, pr_redis_backoff_max_ms = x_redis_backoff_max_ms\<rparr>)))))))))"

definition load_spatial :: "string \<Rightarrow> section_map \<Rightarrow> spatial_config \<Rightarrow> spatial_config exc" where
  "load_spatial path m d =
    bind_exc (get_int path m ''spatial'' ''h3_resolution'' (sp_h3_resolution d)) (\<lambda>x_h3_resolution.
    bind_exc (get_int path m ''spatial'' ''nearby_max_results'' (sp_nearby_max_results d)) (\<lambda>x_nearby_max_results.
    bind_exc (get_double path m ''spatial'' ''nearby_max_radius_m'' (sp_nearby_max_radius_m d)) (\<lambda>x_nearby_max_radius_m.
    bind_exc (get_int path m ''spatial'' ''h3_cache_size_mb'' (sp_h3_cache_size_mb d)) (\<lambda>x_h3_cache_size_mb.
    Inr \<lparr>sp_h3_resolution = x_h3_resolution, sp_nearby_max_results = x_nearby_max_results, sp_nearby_max_radius_m = x_nearby_max_radius_m, sp_h3_cache_size_mb = x_h3_cache_size_mb\<rparr>))))"

definition load_geofence :: "string \<Rightarrow> section_map \<Rightarrow> geofence_config \<Rightarrow> geofence_config exc" where
  "load_geofence path m d =
    bind_exc (get_bool path m ''geofence'' ''eval_enabled'' (gc_eval_enabled d)) (\<lambda>x_eval_enabled.
    bind_exc (get_int path m ''geofence'' ''dwell_threshold_s'' (gc_dwell_threshold_s d)) (\<lambda>x_dwell_threshold_s.
    bind_exc (get_int path m ''geofence'' ''max_fences'' (gc_max_fences d)) (\<lambda>x_max_fences.
    bind_exc (get_int path m ''geofence'' ''reload_interval_s'' (gc_reload_interval_s d)) (\<lambda>x_reload_interval_s.
    Inr \<lparr>gc_eval_enabled = x_eval_enabled, gc_dwell_threshold_s = x_dwell_threshold_s, gc_max_fences = x_max_fences, gc_reload_interval_s = x_reload_interval_s\<rparr>))))"

definition load_gateway :: "string \<Rightarrow> section_map \<Rightarrow> gateway_config \<Rightarrow> gateway_config exc" where
  "load_gateway path m d =
    bind_exc (get_int path m ''gateway'' ''max_batch_events'' (gw_max_batch_events d)) (\<lambda>x_max_batch_events.
    bind_exc (get_int path m ''gateway'' ''rate_limit_rps_per_device'' (gw_rate_limit_rps_per_device d)) (\<lambda>x_rate_limit_rps_per_device.
    bind_exc (get_int path m ''gateway'' ''timestamp_skew_tolerance_s'' (gw_timestamp_skew_tolerance_s d)) (\<lambda>x_timestamp_skew_tolerance_s.
    bind_exc (get_int path m ''gateway'' ''queue_full_timeout_ms'' (gw_queue_full_timeout_ms d)) (\<lambda>x_queue_full_timeout_ms.
    bind_exc (get_bool path m ''gateway'' ''auth_required'' (gw_auth_required d)) (\<lambda>x_auth_required.
    bind_exc (get_string path m ''gateway'' ''api_key'' (gw_api_key d)) (\<lambda>x_api_key.
    bind_exc (get_int path m ''gateway'' ''max_in_flight_requests'' (gw_max_in_flight_requests d)) (\<lambda>x_max_in_flight_requests.
    Inr \<lparr>gw_max_batch_events = x_max_batch_events, gw_rate_limit_rps_per_device = x_rate_limit_rps_per_device, gw_timestamp_skew_tolerance_s = x_timestamp_skew_tolerance_s, gw_queue_full_timeout_ms = x_queue_full_timeout_ms, gw_auth_required = x_auth_required, gw_api_key = x_api_key, gw_max_in_flight_requests = x_max_in_flight_requests\<rparr>)))))))"

definition load_matching :: "string \<Rightarrow> section_map \<Rightarrow> matching_config \<Rightarrow> matching_config exc" where
  "load_matching path m d =
    bind_exc (get_string path m ''matching'' ''strategy_name'' (mt_strategy_name d)) (\<lambda>x_strategy_name.
    bind_exc (get_string path m ''matching'' ''request_topic'' (mt_request_topic d)) (\<lambda>x_request_topic.
    bind_exc (get_string path m ''matching'' ''result_topic'' (mt_result_topic d)) (\<lambda>x_result_topic.
    bind_exc (get_int path m ''matching'' ''request_ttl_ms'' (mt_request_ttl_ms d)) (\<lambda>x_request_ttl_ms.
    Inr \<lparr>mt_strategy_name = x_strategy_name, mt_request_topic = x_request_topic, mt_result_topic = x_result_topic, mt_request_ttl_ms = x_request_ttl_ms\<rparr>))))"

definition load_threads :: "string \<Rightarrow> section_map \<Rightarrow> thread_config \<Rightarrow> thread_config exc" where
  "load_threads path m d =
    bind_exc (get_int path m ''threads'' ''io_threads'' (th_io_threads d)) (\<lambda>x_io_threads.
    bind_exc (get_int path m ''threads'' ''processor_threads'' (th_processor_threads d)) (\<lambda>x_processor_threads.
    bind_exc (get_int path m ''threads'' ''geofence_eval_threads'' (th_geofence_eval_threads d)) (\<lambda>x_geofence_eval_threads.
    bind_exc (get_int path m ''threads'' ''blocking_pool_size'' (th_blocking_pool_size d)) (\<lambda>x_blocking_pool_size.
    Inr \<lparr>th_io_threads = x_io_threads, th_processor_threads = x_processor_threads, th_geofence_eval_threads = x_geofence_eval_threads, th_blocking_pool_size = x_blocking_pool_size\<rparr>))))"

definition load_observability :: "string \<Rightarrow> section_map \<Rightarrow> observability_config \<Rightarrow> observability_config exc" where
  "load_observability path m d =
    bind_exc (get_string path m ''observability'' ''metrics_addr'' (ob_metrics_addr d)) (\<lambda>x_metrics_addr.
    bind_exc (get_int path m ''observability'' ''metrics_port'' (ob_metrics_port d)) (\<lambda>x_metrics_port.
    bind_exc (get_string path m ''observability'' ''metrics_path'' (ob_metrics_path d)) (\<lambda>x_metrics_path.
    bind_exc (get_bool path m ''observability'' ''metrics_exporter_enabled'' (ob_metrics_exporter_enabled d)) (\<lambda>x_metrics_exporter_enabled.
    bind_exc (get_string path m ''observability'' ''log_level'' (ob_log_level d)) (\<lambda>x_log_level.
    bind_exc (get_bool path m ''observability'' ''admin_http_enabled'' (ob_admin_http_enabled d)) (\<lambda>x_admin_http_enabled.
    bind_exc (get_bool path m ''observability'' ''admin_socket_enabled'' (ob_admin_socket_enabled d)) (\<lambda>x_admin_socket_enabled.
    bind_exc (get_string path m ''observability'' ''admin_socket_addr'' (ob_admin_socket_addr d)) (\<lambda>x_admin_socket_addr.
    bind_exc (get_int path m ''observability'' ''admin_socket_port'' (ob_admin_socket_port d)) (\<lambda>x_admin_socket_port.
    bind_exc (get_int path m ''observability'' ''admin_socket_backlog'' (ob_admin_socket_backlog d)) (\<lambda>x_admin_socket_backlog.
    bind_exc (get_int path m ''observability'' ''admin_request_timeout_ms'' (ob_admin_request_timeout_ms d)) (\<lambda>x_admin_request_timeout_ms.
    bind_exc (get_int path m ''observability'' ''admin_max_request_bytes'' (ob_admin_max_request_bytes d)) (\<lambda>x_admin_max_request_bytes.
    bind_exc (get_bool path m ''observability'' ''admin_access_log_enabled'' (ob_admin_access_log_enabled d)) (\<lambda>x_admin_access_log_enabled.
    bind_exc (get_string path m ''observability'' ''health_path'' (ob_health_path d)) (\<lambda>x_health_path.
    bind_exc (get_string path m ''observability'' ''readiness_path'' (ob_readiness_path d)) (\<lambda>x_readiness_path.
    bind_exc (get_bool path m ''observability'' ''require_kafka_readiness'' (ob_require_kafka_readiness d)) (\<lambda>x_require_kafka_readiness.
    bind_exc (get_bool path m ''observability'' ''require_redis_readiness'' (ob_require_redis_readiness d)) (\<lambda>x_require_redis_readiness.
    bind_exc (get_bool path m ''observability'' ''require_postgis_readiness'' (ob_require_postgis_readiness d)) (\<lambda>x_require_postgis_readiness.
    bind_exc (get_bool path m ''observability'' ''require_h3_readiness'' (ob_require_h3_readiness d)) (\<lambda>x_require_h3_readiness.
    Inr \<lparr>ob_metrics_addr = x_metrics_addr, ob_metrics_port = x_metrics_port, ob_metrics_path = x_metrics_path, ob_metrics_exporter_enabled = x_metrics_exporter_enabled, ob_log_level = x_log_level, ob_admin_http_enabled = x_admin_http_enabled, ob_admin_socket_enabled = x_admin_socket_enabled, ob_admin_socket_addr = x_admin_socket_addr, ob_admin_socket_port = x_admin_socket_port, ob_admin_socket_backlog = x_admin_socket_backlog, ob_admin_request_timeout_ms = x_admin_request_timeout_ms, ob_admin_max_request_bytes = x_admin_max_request_bytes, ob_admin_access_log_enabled = x_admin_access_log_enabled, ob_health_path = x_health_path, ob_readiness_path = x_readiness_path, ob_require_kafka_readiness = x_require_kafka_readiness, ob_require_redis_readiness = x_require_redis_readiness, ob_require_postgis_readiness = x_require_postgis_readiness, ob_require_h3_readiness = x_require_h3_readiness\<rparr>)))))))))))))))))))"

definition load_config :: "string \<Rightarrow> string option \<Rightarrow> config exc" where
  "load_config path content =
    bind_exc (parse_file path content) (\<lambda>m.
    bind_exc (load_server path m server_config_default) (\<lambda>sv.
    bind_exc (load_kafka path m kafka_config_default) (\<lambda>kc.
    bind_exc (load_redis path m redis_config_default) (\<lambda>rc.
    bind_exc (load_postgis path m postgis_config_default) (\<lambda>pc.
    bind_exc (load_processor path m processor_config_default) (\<lambda>pr.
    bind_exc (load_spatial path m spatial_config_default) (\<lambda>sp.
    bind_exc (load_geofence path m geofence_config_default) (\<lambda>gc.
    bind_exc (load_gateway path m gateway_config_default) (\<lambda>gw.
    bind_exc (load_matching path m matching_config_default) (\<lambda>mt.
    bind_exc (load_threads path m thread_config_default) (\<lambda>th.
    bind_exc (load_observability path m observability_config_default) (\<lambda>ob.
    let c = \<lparr>cf_server = sv, cf_kafka = kc, cf_redis = rc, cf_postgis = pc, cf_processor = pr,
             cf_spatial = sp, cf_geofence = gc, cf_gateway = gw, cf_matching = mt,
             cf_threads = th, cf_observability = ob\<rparr>
    in bind_exc (validate_config c) (\<lambda>_. Inr c)))))))))))))"

end
