(* ===== verification/Postgres.thy ===== *)
theory Postgres
  imports Spatial Config
begin

text \<open>
  The in-memory store of \<open>common/clients/postgres_client.cpp\<close> (its build without libpq): trip
  points without duplicates, fence rules and the audit log of geofence events. Each method
  holds the mutex throughout, so it is one function on the store.

  The interface \<open>trip_store\<close> is what the history writer relies on; in it a batch that is
  written again after a failure is shown to be harmless. The lemmas show that the stored
  points have unique keys and that a trip query is sorted, limited and complete, and
  depends only on the set of points that were written.
\<close>

record postgres =
  pg_trip_points :: "location_event list"
  pg_active_fences :: "geofence_rule list"
  pg_geofence_events :: "geofence_event_record list"
  pg_trip_point_keys :: "(string \<times> u64) list"

definition new_postgres :: postgres where
  "new_postgres = \<lparr>pg_trip_points = [], pg_active_fences = [], pg_geofence_events = [],
     pg_trip_point_keys = []\<rparr>"

definition event_time_ms :: "location_event \<Rightarrow> int" where
  "event_time_ms e = (if le_timestamp_ms e \<noteq> 0 then le_timestamp_ms e else le_server_recv_ms e)"

definition in_time_range :: "location_event \<Rightarrow> int \<Rightarrow> int \<Rightarrow> bool" where
  "in_time_range e from_ts to_ts = (from_ts \<le> event_time_ms e \<and> event_time_ms e \<le> to_ts)"

definition trip_order :: "location_event \<Rightarrow> int \<times> string \<times> u64" where
  "trip_order e = (event_time_ms e, le_device_id e, le_seq e)"

definition sort_trip_points :: "location_event list \<Rightarrow> location_event list" where
  "sort_trip_points es = sort_key trip_order es"

definition trip_key :: "location_event \<Rightarrow> string \<times> u64" where
  "trip_key e = (le_device_id e, le_seq e)"

definition insert_trip_point :: "location_event \<Rightarrow> postgres \<Rightarrow> postgres" where
  "insert_trip_point e p =
     (if trip_key e \<in> set (pg_trip_point_keys p) then p
      else p\<lparr>pg_trip_point_keys := trip_key e # pg_trip_point_keys p,
             pg_trip_points := pg_trip_points p @ [e]\<rparr>)"

definition batch_insert_trip_points :: "location_event list \<Rightarrow> postgres \<Rightarrow> postgres" where
  "batch_insert_trip_points es p = fold insert_trip_point es p"

definition query_trip :: "string \<Rightarrow> int \<Rightarrow> int \<Rightarrow> int \<Rightarrow> postgres \<Rightarrow> location_event list" where
  "query_trip d from_ts to_ts n p =
     (if n \<le> 0 \<or> from_ts > to_ts then []
      else take (nat n) (sort_trip_points
        (filter (\<lambda>e. le_device_id e = d \<and> in_time_range e from_ts to_ts) (pg_trip_points p))))"

definition query_trip_spatial :: "libm \<Rightarrow> string \<Rightarrow> int \<Rightarrow> int \<Rightarrow> double \<Rightarrow> double \<Rightarrow> double \<Rightarrow> int \<Rightarrow>
    postgres \<Rightarrow> location_event list" where
  "query_trip_spatial m d from_ts to_ts center_lat center_lon radius_m n p =
     (if n \<le> 0 \<or> dlt radius_m (Fin 0) \<or> from_ts > to_ts then []
      else take (nat n) (sort_trip_points
        (filter (\<lambda>e. le_device_id e = d \<and> in_time_range e from_ts to_ts \<and>
           dle (haversine m center_lat center_lon (le_lat e) (le_lon e)) radius_m) (pg_trip_points p))))"

definition load_active_fences :: "postgres \<Rightarrow> geofence_rule list" where
  "load_active_fences p = filter gr_active (pg_active_fences p)"

definition insert_geofence_event :: "geofence_event_record \<Rightarrow> postgres \<Rightarrow> postgres" where
  "insert_geofence_event e p = p\<lparr>pg_geofence_events := pg_geofence_events p @ [e]\<rparr>"

definition trip_point_count :: "postgres \<Rightarrow> nat" where
  "trip_point_count p = length (pg_trip_points p)"

definition geofence_event_count :: "postgres \<Rightarrow> nat" where
  "geofence_event_count p = length (pg_geofence_events p)"

definition geofence_events :: "postgres \<Rightarrow> geofence_event_record list" where
  "geofence_events p = pg_geofence_events p"

definition set_active_fences :: "geofence_rule list \<Rightarrow> postgres \<Rightarrow> postgres" where
  "set_active_fences fs p = p\<lparr>pg_active_fences := fs\<rparr>"

subsection \<open>The interface of the trip store\<close>

text \<open>\<open>put\<close> may raise, having written the whole batch or nothing of it.\<close>

locale trip_store =
  fixes inv :: "'p \<Rightarrow> bool"
    and stored :: "'p \<Rightarrow> (string \<times> u64) \<Rightarrow> location_event option"
    and put :: "location_event list \<Rightarrow> 'p \<Rightarrow> 'p"
  assumes put_inv: "inv p \<Longrightarrow> inv (put es p)"
    and put_new: "inv p \<Longrightarrow> stored p k = None \<Longrightarrow>
      stored (put es p) k = (case filter (\<lambda>e. trip_key e = k) es of [] \<Rightarrow> None | e # _ \<Rightarrow> Some e)"
    and put_old: "inv p \<Longrightarrow> stored p k = Some e \<Longrightarrow> stored (put es p) k = Some e"
begin

text \<open>Writing a batch again, or a batch contained in one already written, changes nothing.\<close>

lemma put_covers:
  assumes "inv p" "e \<in> set es"
  shows "\<exists>e'. stored (put es p) (trip_key e) = Some e' \<and>
    (stored p (trip_key e) = Some e' \<or> e' \<in> set es \<and> trip_key e' = trip_key e)"
proof (cases "stored p (trip_key e)")
  case None
  have "e \<in> set (filter (\<lambda>e'. trip_key e' = trip_key e) es)" using assms(2) by simp
  then obtain e' es' where f: "filter (\<lambda>e'. trip_key e' = trip_key e) es = e' # es'"
    by (cases "filter (\<lambda>e'. trip_key e' = trip_key e) es") auto
  then have "e' \<in> set (filter (\<lambda>e'. trip_key e' = trip_key e) es)" by simp
  then have "e' \<in> set es \<and> trip_key e' = trip_key e" by simp
  then show ?thesis using put_new [OF assms(1) None, of es] f by simp
qed (use assms(1) put_inv put_old in auto)

lemma put_again:
  assumes "inv p" "set es' \<subseteq> set es"
  shows "stored (put es' (put es p)) k = stored (put es p) k"
proof (cases "stored (put es p) k")
  case None
  have "trip_key e \<noteq> k" if "e \<in> set es" for e using put_covers [OF assms(1) that] None by auto
  then have "filter (\<lambda>e. trip_key e = k) es' = []" using assms(2) by (auto simp: filter_empty_conv)
  then show ?thesis using put_new [OF put_inv [OF assms(1)] None, of es'] None by simp
qed (use assms(1) put_inv put_old in auto)

end

definition stored_point :: "postgres \<Rightarrow> (string \<times> u64) \<Rightarrow> location_event option" where
  "stored_point p k = (if k \<in> set (pg_trip_point_keys p)
     then find (\<lambda>e. trip_key e = k) (pg_trip_points p) else None)"

definition postgres_ok :: "postgres \<Rightarrow> bool" where
  "postgres_ok p \<longleftrightarrow> distinct (map trip_key (pg_trip_points p)) \<and>
     set (pg_trip_point_keys p) = trip_key ` set (pg_trip_points p)"

lemma new_postgres_ok [simp]: "postgres_ok new_postgres"
  by (simp add: postgres_ok_def new_postgres_def)

lemma insert_trip_point_ok: "postgres_ok p \<Longrightarrow> postgres_ok (insert_trip_point e p)"
  by (auto simp: postgres_ok_def insert_trip_point_def)

lemma batch_insert_ok: "postgres_ok p \<Longrightarrow> postgres_ok (batch_insert_trip_points es p)"
  unfolding batch_insert_trip_points_def
  by (rule fold_invariant_list) (auto intro: insert_trip_point_ok)

lemma find_append: "find P (xs @ ys) = (case find P xs of None \<Rightarrow> find P ys | Some x \<Rightarrow> Some x)"
  by (induction xs) auto

lemma stored_insert:
  assumes "postgres_ok p"
  shows "stored_point (insert_trip_point e p) k =
    (case stored_point p k of Some e' \<Rightarrow> Some e' | None \<Rightarrow> if trip_key e = k then Some e else None)"
proof -
  have in_keys: "k \<in> set (pg_trip_point_keys p) \<longleftrightarrow> (\<exists>e'. find (\<lambda>e. trip_key e = k) (pg_trip_points p) = Some e')"
    using assms find_None_iff [of "\<lambda>e. trip_key e = k" "pg_trip_points p"]
    by (cases "find (\<lambda>e. trip_key e = k) (pg_trip_points p)") (auto simp: postgres_ok_def find_Some_iff)
  have gone: "k \<notin> set (pg_trip_point_keys p) \<Longrightarrow> find (\<lambda>e. trip_key e = k) (pg_trip_points p) = None"
    using in_keys by (metis option.exhaust)
  show ?thesis
    using in_keys gone
    by (auto simp: stored_point_def insert_trip_point_def find_append split: option.splits)
qed

lemma stored_batch:
  assumes "postgres_ok p"
  shows "stored_point (batch_insert_trip_points es p) k =
    (case stored_point p k of Some e' \<Rightarrow> Some e'
     | None \<Rightarrow> (case filter (\<lambda>e. trip_key e = k) es of [] \<Rightarrow> None | e # _ \<Rightarrow> Some e))"
  using assms
proof (induction es arbitrary: p)
  case Nil
  then show ?case by (simp add: batch_insert_trip_points_def split: option.splits)
next
  case (Cons e es)
  have "batch_insert_trip_points (e # es) p = batch_insert_trip_points es (insert_trip_point e p)"
    by (simp add: batch_insert_trip_points_def)
  then show ?case
    using Cons.IH [OF insert_trip_point_ok [OF Cons.prems, of e]] stored_insert [OF Cons.prems, of e k]
    by (auto split: option.splits)
qed

interpretation postgres_trips: trip_store postgres_ok stored_point batch_insert_trip_points
  by unfold_locales (auto simp: stored_batch batch_insert_ok)

subsection \<open>Trip queries\<close>

text \<open>The points a query ranges over.\<close>

definition trip_matches :: "string \<Rightarrow> int \<Rightarrow> int \<Rightarrow> postgres \<Rightarrow> location_event set" where
  "trip_matches d from_ts to_ts p =
     {e \<in> set (pg_trip_points p). le_device_id e = d \<and> from_ts \<le> event_time_ms e \<and> event_time_ms e \<le> to_ts}"

lemma inj_on_trip_order: "postgres_ok p \<Longrightarrow> inj_on trip_order (set (pg_trip_points p))"
  by (auto simp: postgres_ok_def distinct_map inj_on_def trip_order_def trip_key_def)

lemma query_trip_sort:
  assumes "0 < n" "from_ts \<le> to_ts"
  obtains es where "query_trip d from_ts to_ts n p = take (nat n) es"
    "set es = trip_matches d from_ts to_ts p" "sorted_wrt (\<lambda>a b. trip_order a \<le> trip_order b) es"
    "postgres_ok p \<Longrightarrow> distinct es"
proof
  let ?es = "sort_trip_points (filter (\<lambda>e. le_device_id e = d \<and> in_time_range e from_ts to_ts) (pg_trip_points p))"
  show "query_trip d from_ts to_ts n p = take (nat n) ?es" using assms by (simp add: query_trip_def)
  show "set ?es = trip_matches d from_ts to_ts p"
    by (auto simp: sort_trip_points_def trip_matches_def in_time_range_def)
  have "sorted (map trip_order ?es)" by (simp add: sort_trip_points_def)
  then show "sorted_wrt (\<lambda>a b. trip_order a \<le> trip_order b) ?es" by (simp add: sorted_map)
  show "postgres_ok p \<Longrightarrow> distinct ?es"
    by (auto simp: sort_trip_points_def postgres_ok_def distinct_map)
qed

definition sample_points :: "location_event list" where
  "sample_points = [location_event_default\<lparr>le_device_id := ''a'', le_seq := 1, le_timestamp_ms := 5\<rparr>,
     location_event_default\<lparr>le_device_id := ''a'', le_seq := 2, le_timestamp_ms := 3\<rparr>]"

text \<open>C27: A trip query answers points of the device in the time range, without duplicates, in time
  order and at most as many as asked for; a matching point it leaves out is not earlier
  than any it answers, and it leaves one out only when the answer is full.\<close>

theorem query_trip_correct:
  assumes "postgres_ok p" "0 < n" "from_ts \<le> to_ts"
  shows "set (query_trip d from_ts to_ts n p) \<subseteq> trip_matches d from_ts to_ts p \<and>
    distinct (query_trip d from_ts to_ts n p) \<and>
    sorted (map event_time_ms (query_trip d from_ts to_ts n p)) \<and>
    int (length (query_trip d from_ts to_ts n p)) = min n (int (card (trip_matches d from_ts to_ts p))) \<and>
    (\<forall>e \<in> trip_matches d from_ts to_ts p - set (query_trip d from_ts to_ts n p).
       \<forall>a \<in> set (query_trip d from_ts to_ts n p). event_time_ms a \<le> event_time_ms e)"
proof -
  obtain es where es: "query_trip d from_ts to_ts n p = take (nat n) es"
    "set es = trip_matches d from_ts to_ts p" "sorted_wrt (\<lambda>a b. trip_order a \<le> trip_order b) es" "distinct es"
    using query_trip_sort [OF assms(2,3)] assms(1) by metis
  have time: "sorted_wrt (\<lambda>a b. event_time_ms a \<le> event_time_ms b) es"
    using es(3) by (rule sorted_wrt_mono_rel [rotated]) (auto simp: trip_order_def less_eq_prod_def)
  have "sorted (map event_time_ms (take (nat n) es))"
    using sorted_wrt_take [OF time] by (simp add: sorted_map)
  moreover have "int (length (take (nat n) es)) = min n (int (card (set es)))"
    using assms(2) distinct_card [OF es(4)] by auto
  moreover have "event_time_ms a \<le> event_time_ms e"
    if "e \<in> set es - set (take (nat n) es)" "a \<in> set (take (nat n) es)" for e a
    using sorted_take_least [OF time that] .
  ultimately show ?thesis using es by (auto dest: in_set_takeD)
qed

theorem query_trip_correct_witness:
  "distinct (query_trip ''a'' 0 10 1 (batch_insert_trip_points sample_points new_postgres)) \<and>
   sorted (map event_time_ms (query_trip ''a'' 0 10 1 (batch_insert_trip_points sample_points new_postgres)))"
  using query_trip_correct [OF batch_insert_ok [OF new_postgres_ok], of 1 0 10 "''a''" sample_points] by simp

text \<open>Two stores with the same points answer every trip query alike: the answer depends neither
  on the order in which points were written nor on how they were batched.\<close>

lemma query_trip_deterministic:
  assumes "postgres_ok p" "postgres_ok q" "set (pg_trip_points p) = set (pg_trip_points q)"
  shows "query_trip d from_ts to_ts n p = query_trip d from_ts to_ts n q"
proof (cases "0 < n \<and> from_ts \<le> to_ts")
  case True
  let ?f = "filter (\<lambda>e. le_device_id e = d \<and> in_time_range e from_ts to_ts)"
  have sub: "inj_on trip_order (set (?f (pg_trip_points p)) \<union> set (?f (pg_trip_points q)))"
    using inj_on_trip_order [OF assms(1)] assms(3) by (auto intro: inj_on_subset)
  have d: "distinct (sort_trip_points (?f (pg_trip_points p)))" "distinct (sort_trip_points (?f (pg_trip_points q)))"
    using assms(1,2) by (auto simp: sort_trip_points_def postgres_ok_def distinct_map)
  have "sort_trip_points (?f (pg_trip_points p)) = sort_trip_points (?f (pg_trip_points q))"
    using d sub assms(3)
    by (intro map_sorted_distinct_set_unique [of trip_order]) (auto simp: sort_trip_points_def distinct_map)
  then show ?thesis by (simp add: query_trip_def)
qed (auto simp: query_trip_def)

text \<open>Writing a batch again, or any part of it, leaves the stored point of every key as it is,
  so a retried write cannot duplicate or change history.\<close>

lemma batch_insert_idempotent:
  assumes "postgres_ok p" "set es' \<subseteq> set es"
  shows "stored_point (batch_insert_trip_points es' (batch_insert_trip_points es p)) k =
    stored_point (batch_insert_trip_points es p) k"
  using assms by (rule postgres_trips.put_again)

lemma load_active_fences_active: "r \<in> set (load_active_fences p) \<Longrightarrow> gr_active r"
  by (simp add: load_active_fences_def)

end
