(* ===== verification/Fence_Registry.thy ===== *)
theory Fence_Registry
  imports Postgres
begin

text \<open>
  \<open>FenceRegistry\<close> of \<open>geofence/fence_registry.cpp\<close>: the active fences by identifier and the index
  from a cell to the identifiers of the fences that cover it. The shared mutex is held for
  the whole of every method, so each is one function on the registry.

  The locale \<open>fence_index\<close> is what the evaluator relies on: the candidates of a cell are
  precisely the loaded fences that list it. It is interpreted on the registry as loaded.
\<close>

subsection \<open>State and operations\<close>

record fence_registry =
  fr_fences :: "(string, geofence_rule) umap"
  fr_cell_to_fences :: "(cell, string list) umap"

definition new_fence_registry :: fence_registry where
  "new_fence_registry = \<lparr>fr_fences = [], fr_cell_to_fences = []\<rparr>"

definition index_lookup :: "(cell, string list) umap \<Rightarrow> cell \<Rightarrow> string list" where
  "index_lookup idx c = (case map_of idx c of None \<Rightarrow> [] | Some ids \<Rightarrow> ids)"

definition index_fence :: "string \<times> geofence_rule \<Rightarrow> (cell, string list) umap \<Rightarrow> (cell, string list) umap" where
  "index_fence fr idx =
     fold (\<lambda>c idx. um_put c (index_lookup idx c @ [fst fr]) idx) (gr_h3_cells (snd fr)) idx"

definition rebuild_index :: "(string, geofence_rule) umap \<Rightarrow> (cell, string list) umap" where
  "rebuild_index fences = fold index_fence fences []"

definition load_registry :: "postgres \<Rightarrow> fence_registry" where
  "load_registry p =
     (let fences = fold (\<lambda>r m. um_put (gr_fence_id r) r m) (load_active_fences p) []
      in \<lparr>fr_fences = fences, fr_cell_to_fences = rebuild_index fences\<rparr>)"

definition reload_registry :: "postgres \<Rightarrow> fence_registry" where
  "reload_registry p = load_registry p"

definition get_candidates :: "fence_registry \<Rightarrow> cell \<Rightarrow> geofence_rule list" where
  "get_candidates reg c = (case map_of (fr_cell_to_fences reg) c of None \<Rightarrow> []
     | Some ids \<Rightarrow> List.map_filter (map_of (fr_fences reg)) ids)"

definition fence_count :: "fence_registry \<Rightarrow> nat" where
  "fence_count reg = length (fr_fences reg)"

definition get_fence :: "fence_registry \<Rightarrow> string \<Rightarrow> geofence_rule option" where
  "get_fence reg f = map_of (fr_fences reg) f"

subsection \<open>The index is the inverse of the fences' cells\<close>

lemma index_lookup_put [simp]:
  "index_lookup (um_put c v idx) c' = (if c' = c then v else index_lookup idx c')"
  by (simp add: index_lookup_def)

lemma index_fence_set:
  "set (index_lookup (index_fence (f, r) idx) c) =
     set (index_lookup idx c) \<union> (if c \<in> set (gr_h3_cells r) then {f} else {})"
proof -
  have "set (index_lookup (fold (\<lambda>c idx. um_put c (index_lookup idx c @ [f]) idx) cs idx) c) =
      set (index_lookup idx c) \<union> (if c \<in> set cs then {f} else {})" for cs
    by (induction cs arbitrary: idx) auto
  then show ?thesis by (simp add: index_fence_def)
qed

lemma fold_index_fence_set:
  "set (index_lookup (fold index_fence fences idx) c) =
     set (index_lookup idx c) \<union> {f. \<exists>r. (f, r) \<in> set fences \<and> c \<in> set (gr_h3_cells r)}"
  by (induction fences arbitrary: idx) (auto simp: index_fence_set split: if_splits)

lemma rebuild_index_set:
  "set (index_lookup (rebuild_index fences) c) = {f. \<exists>r. (f, r) \<in> set fences \<and> c \<in> set (gr_h3_cells r)}"
  by (simp add: rebuild_index_def fold_index_fence_set) (simp add: index_lookup_def)

subsection \<open>Well-formed registries\<close>

definition registry_ok :: "fence_registry \<Rightarrow> bool" where
  "registry_ok reg \<longleftrightarrow> um_ok (fr_fences reg) \<and>
     (\<forall>f r. get_fence reg f = Some r \<longrightarrow> gr_fence_id r = f) \<and>
     (\<forall>c. set (index_lookup (fr_cell_to_fences reg) c) =
        {f. \<exists>r. get_fence reg f = Some r \<and> c \<in> set (gr_h3_cells r)})"

lemma new_fence_registry_ok [simp]: "registry_ok new_fence_registry"
  by (simp add: registry_ok_def new_fence_registry_def get_fence_def index_lookup_def)

text \<open>When two active rules share an identifier, the later one counts.\<close>

lemma fold_put_fences:
  assumes "um_ok m" "\<forall>f r. map_of m f = Some r \<longrightarrow> gr_fence_id r = f"
  shows "um_ok (fold (\<lambda>r m. um_put (gr_fence_id r) r m) rs m) \<and>
    (\<forall>f. map_of (fold (\<lambda>r m. um_put (gr_fence_id r) r m) rs m) f =
      (case find (\<lambda>r. gr_fence_id r = f) (rev rs) of None \<Rightarrow> map_of m f | Some r \<Rightarrow> Some r))"
  using assms
proof (induction rs arbitrary: m)
  case (Cons r rs)
  have "um_ok (um_put (gr_fence_id r) r m)"
    "\<forall>f r'. map_of (um_put (gr_fence_id r) r m) f = Some r' \<longrightarrow> gr_fence_id r' = f"
    using Cons.prems by auto
  from Cons.IH [OF this] show ?case
    by (auto simp: find_append split: option.splits if_splits)
qed simp

lemma get_fence_load: "get_fence (load_registry p) f = find (\<lambda>r. gr_fence_id r = f) (rev (load_active_fences p))"
  using fold_put_fences [of "[]" "load_active_fences p"]
  by (simp add: load_registry_def get_fence_def Let_def split: option.splits)

lemma load_registry_ok [simp]: "registry_ok (load_registry p)"
proof -
  let ?fences = "fr_fences (load_registry p)"
  have ok: "um_ok ?fences"
    using fold_put_fences [of "[]" "load_active_fences p"] by (simp add: load_registry_def Let_def)
  have "(f, r) \<in> set ?fences \<longleftrightarrow> get_fence (load_registry p) f = Some r" for f r
    using um_ok_in_set [OF ok] by (simp add: get_fence_def)
  moreover have "fr_cell_to_fences (load_registry p) = rebuild_index ?fences"
    by (simp add: load_registry_def Let_def)
  moreover have "gr_fence_id r = f" if "get_fence (load_registry p) f = Some r" for f r
    using that by (auto simp: get_fence_load find_Some_iff)
  ultimately show ?thesis using ok by (auto simp: registry_ok_def rebuild_index_set)
qed

lemma get_candidates_set:
  assumes "registry_ok reg"
  shows "set (get_candidates reg c) = {r. get_fence reg (gr_fence_id r) = Some r \<and> c \<in> set (gr_h3_cells r)}"
proof -
  have "r \<in> set (get_candidates reg c) \<longleftrightarrow>
      (\<exists>f \<in> set (index_lookup (fr_cell_to_fences reg) c). get_fence reg f = Some r)" for r
    by (force simp: get_candidates_def index_lookup_def get_fence_def List.map_filter_def split: option.splits)
  then show ?thesis using assms by (fastforce simp: registry_ok_def)
qed

subsection \<open>The interface of the index\<close>

locale fence_index =
  fixes inv :: "'r \<Rightarrow> bool"
    and fence :: "'r \<Rightarrow> string \<Rightarrow> geofence_rule option"
    and at_cell :: "'r \<Rightarrow> cell \<Rightarrow> geofence_rule list"
  assumes at_cell_exact: "inv reg \<Longrightarrow>
      set (at_cell reg c) = {r. fence reg (gr_fence_id r) = Some r \<and> c \<in> set (gr_h3_cells r)}"
    and fence_named: "inv reg \<Longrightarrow> fence reg f = Some r \<Longrightarrow> gr_fence_id r = f"
begin

text \<open>No two different candidates share an identifier, so keying them by it loses none.\<close>

lemma candidates_by_id:
  "inv reg \<Longrightarrow> r \<in> set (at_cell reg c) \<Longrightarrow> r' \<in> set (at_cell reg c') \<Longrightarrow>
     gr_fence_id r = gr_fence_id r' \<Longrightarrow> r = r'"
  by (fastforce simp: at_cell_exact)

lemma fence_covers:
  "inv reg \<Longrightarrow> fence reg f = Some r \<Longrightarrow> c \<in> set (gr_h3_cells r) \<longleftrightarrow> r \<in> set (at_cell reg c)"
  using fence_named by (fastforce simp: at_cell_exact)

end

interpretation registry_index: fence_index registry_ok get_fence get_candidates
  by unfold_locales (simp add: get_candidates_set, simp add: registry_ok_def)

text \<open>After a load, the candidates of a cell are the active fences of the store that list the
  cell, where of several rules with one identifier the last counts; nothing else of the
  store matters and every active identifier has a fence.\<close>

lemma registry_candidates:
  "set (get_candidates (load_registry p) c) =
     {r. find (\<lambda>r'. gr_fence_id r' = gr_fence_id r) (rev (load_active_fences p)) = Some r \<and>
         c \<in> set (gr_h3_cells r)} \<and>
   {f. get_fence (load_registry p) f \<noteq> None} = gr_fence_id ` set (load_active_fences p) \<and>
   reload_registry p = load_registry p"
proof (intro conjI)
  show "set (get_candidates (load_registry p) c) =
     {r. find (\<lambda>r'. gr_fence_id r' = gr_fence_id r) (rev (load_active_fences p)) = Some r \<and>
         c \<in> set (gr_h3_cells r)}"
    by (simp add: get_candidates_set get_fence_load)
  show "{f. get_fence (load_registry p) f \<noteq> None} = gr_fence_id ` set (load_active_fences p)"
    by (auto simp: get_fence_load find_None_iff)
qed (simp add: reload_registry_def)

end
