(* ===== verification/Dedup.thy ===== *)
theory Dedup
  imports Text
begin

text \<open>
  The duplicate window of \<open>processor/dedup_window.cpp\<close>: a list of entries, most recently used
  first, and a hash map from a key to the list node that holds the entry. A list iterator is
  the number of the node it points to, which stays the same when the node is spliced to the
  front. Times are readings of the steady clock in nanoseconds; every operation reads it
  twice, for the eviction and for the stamp.

  The loops that pop the oldest entries run over the reversed list. The abstraction is the
  set of pairs in the window. The lemmas show that the map and the list always describe the
  same entries, that the bound holds, that expired entries are gone after every operation,
  and that the window remembers a pair as long as it promises: for the time to live and
  while fewer than \<open>max_entries\<close> other pairs are used.
\<close>

subsection \<open>State\<close>

record dedup_entry =
  de_node :: nat
  de_device_id :: string
  de_seq :: u64
  de_seen_at :: int

record dedup_window =
  dw_max_entries :: nat
  dw_ttl_seconds :: int
  dw_lru :: "dedup_entry list"
  dw_map :: "(string, nat) umap"
  dw_next :: nat

definition new_dedup_window :: "nat \<Rightarrow> int \<Rightarrow> dedup_window" where
  "new_dedup_window max_entries ttl = \<lparr>dw_max_entries = max_entries, dw_ttl_seconds = ttl,
     dw_lru = [], dw_map = [], dw_next = 0\<rparr>"

definition key_for :: "string \<Rightarrow> u64 \<Rightarrow> string" where
  "key_for d s = d @ ''#'' @ show_nat (unat s)"

definition entry_key :: "dedup_entry \<Rightarrow> string" where
  "entry_key e = key_for (de_device_id e) (de_seq e)"

subsection \<open>Operations\<close>

text \<open>The loop of \<open>evict_expired\<close>, oldest entry first.\<close>

fun pop_expired :: "int \<Rightarrow> dedup_entry list \<Rightarrow> (string, nat) umap \<Rightarrow> dedup_entry list \<times> (string, nat) umap" where
  "pop_expired cutoff [] m = ([], m)"
| "pop_expired cutoff (oldest # rest) m =
     (if de_seen_at oldest < cutoff then pop_expired cutoff rest (um_del (entry_key oldest) m)
      else (oldest # rest, m))"

definition evict_expired :: "int \<Rightarrow> dedup_window \<Rightarrow> dedup_window" where
  "evict_expired now w =
     (let (l, m) = pop_expired (now - dw_ttl_seconds w * 1000000000) (rev (dw_lru w)) (dw_map w)
      in w\<lparr>dw_lru := rev l, dw_map := m\<rparr>)"

text \<open>Stamp the node and splice it to the front.\<close>

definition touch :: "nat \<Rightarrow> int \<Rightarrow> dedup_entry list \<Rightarrow> dedup_entry list" where
  "touch n now l = map (\<lambda>e. e\<lparr>de_seen_at := now\<rparr>) (filter (\<lambda>e. de_node e = n) l) @
     filter (\<lambda>e. de_node e \<noteq> n) l"

definition is_duplicate :: "int \<Rightarrow> int \<Rightarrow> string \<Rightarrow> u64 \<Rightarrow> dedup_window \<Rightarrow> bool \<times> dedup_window" where
  "is_duplicate now1 now2 d s w =
     (let w1 = evict_expired now1 w in
      case map_of (dw_map w1) (key_for d s) of
        None \<Rightarrow> (False, w1)
      | Some n \<Rightarrow> (True, w1\<lparr>dw_lru := touch n now2 (dw_lru w1)\<rparr>))"

text \<open>The loop at the end of \<open>mark_seen\<close>, oldest entry first.\<close>

fun pop_over :: "nat \<Rightarrow> dedup_entry list \<Rightarrow> (string, nat) umap \<Rightarrow> dedup_entry list \<times> (string, nat) umap" where
  "pop_over k [] m = ([], m)"
| "pop_over k (oldest # rest) m =
     (if k < length m then pop_over k rest (um_del (entry_key oldest) m) else (oldest # rest, m))"

definition mark_seen :: "int \<Rightarrow> int \<Rightarrow> string \<Rightarrow> u64 \<Rightarrow> dedup_window \<Rightarrow> dedup_window" where
  "mark_seen now1 now2 d s w =
     (let w1 = evict_expired now1 w in
      case map_of (dw_map w1) (key_for d s) of
        Some n \<Rightarrow> w1\<lparr>dw_lru := touch n now2 (dw_lru w1)\<rparr>
      | None \<Rightarrow>
         (let e = \<lparr>de_node = dw_next w1, de_device_id = d, de_seq = s, de_seen_at = now2\<rparr>;
              (l, m) = pop_over (dw_max_entries w1) (rev (e # dw_lru w1))
                         (um_put (key_for d s) (dw_next w1) (dw_map w1))
          in w1\<lparr>dw_lru := rev l, dw_map := m, dw_next := dw_next w1 + 1\<rparr>))"

definition dedup_size :: "dedup_window \<Rightarrow> nat" where
  "dedup_size w = length (dw_map w)"

subsection \<open>Keys\<close>

lemma key_for_inj: "key_for d s = key_for d' s' \<longleftrightarrow> d = d' \<and> s = s'"
proof
  assume eq: "key_for d s = key_for d' s'"
  have nohash: "CHR ''#'' \<notin> set (show_nat n)" for n
    using show_nat_digits [of n] by (auto simp: is_digit_def code_of_def)
  have split: "takeWhile (\<lambda>c. c \<noteq> CHR ''#'') (rev (key_for d s)) = rev (show_nat (unat s))" for d :: string and s :: u64
  proof -
    have "\<forall>c \<in> set (rev (show_nat (unat s))). c \<noteq> CHR ''#''" using nohash [of "unat s"] by auto
    then have "takeWhile (\<lambda>c. c \<noteq> CHR ''#'') (rev (show_nat (unat s)) @ CHR ''#'' # rev d) =
        rev (show_nat (unat s))" by (subst takeWhile_append2) auto
    then show ?thesis by (simp add: key_for_def)
  qed
  have "rev (show_nat (unat s)) = rev (show_nat (unat s'))" using split [of d s] split [of d' s'] eq by simp
  then have sh: "show_nat (unat s) = show_nat (unat s')" by simp
  then have "digits_value 10 (show_nat (unat s)) = digits_value 10 (show_nat (unat s'))" by simp
  then have "s = s'" by (simp add: word_unat_eq_iff)
  moreover have "d = d'" using eq sh by (simp add: key_for_def)
  ultimately show "d = d' \<and> s = s'" by simp
qed simp

subsection \<open>Invariant\<close>

lemma not_in_image: "a \<notin> f ` A \<longleftrightarrow> (\<forall>x \<in> A. f x \<noteq> a)"
  by auto

text \<open>The map describes the list.\<close>

definition index_ok :: "dedup_entry list \<Rightarrow> (string, nat) umap \<Rightarrow> bool" where
  "index_ok l m \<longleftrightarrow> um_ok m \<and> distinct (map entry_key l) \<and> distinct (map de_node l) \<and>
     (\<forall>k n. map_of m k = Some n \<longleftrightarrow> (\<exists>e \<in> set l. entry_key e = k \<and> de_node e = n))"

definition dedup_ok :: "dedup_window \<Rightarrow> bool" where
  "dedup_ok w \<longleftrightarrow> index_ok (dw_lru w) (dw_map w) \<and> (\<forall>e \<in> set (dw_lru w). de_node e < dw_next w) \<and>
     length (dw_lru w) \<le> dw_max_entries w"

lemma index_ok_rev [simp]: "index_ok (rev l) m = index_ok l m"
  by (simp add: index_ok_def rev_map [symmetric])

lemma index_ok_length: "index_ok l m \<Longrightarrow> length m = length l"
proof -
  assume ok: "index_ok l m"
  have "dom (map_of m) = entry_key ` set l"
    using ok by (fastforce simp: index_ok_def dom_def)
  then have "length m = card (entry_key ` set l)" using ok um_ok_card [of m] by (simp add: index_ok_def)
  also have "\<dots> = length l"
    using ok distinct_card [of "map entry_key l"] by (simp add: index_ok_def)
  finally show ?thesis .
qed

lemma index_ok_pop:
  assumes "index_ok (e # l) m"
  shows "index_ok l (um_del (entry_key e) m)"
proof -
  have ne: "\<forall>x \<in> set l. entry_key x \<noteq> entry_key e"
    using assms by (simp add: index_ok_def not_in_image)
  have lookup: "map_of m k = Some n \<longleftrightarrow> (\<exists>e' \<in> set (e # l). entry_key e' = k \<and> de_node e' = n)" for k n
    using assms by (simp add: index_ok_def)
  have "map_of (um_del (entry_key e) m) k = Some n \<longleftrightarrow>
      (\<exists>e' \<in> set l. entry_key e' = k \<and> de_node e' = n)" for k n
    using ne lookup [of k n] by auto
  then show ?thesis using assms by (simp add: index_ok_def)
qed

lemma index_ok_push:
  assumes "index_ok l m" "map_of m (entry_key e) = None" "de_node e \<notin> de_node ` set l"
  shows "index_ok (e # l) (um_put (entry_key e) (de_node e) m)"
proof -
  have lookup: "map_of m k = Some n \<longleftrightarrow> (\<exists>e' \<in> set l. entry_key e' = k \<and> de_node e' = n)" for k n
    using assms(1) by (simp add: index_ok_def)
  have ne: "\<forall>x \<in> set l. entry_key x \<noteq> entry_key e"
  proof (intro ballI notI)
    fix e' assume "e' \<in> set l" "entry_key e' = entry_key e"
    then have "map_of m (entry_key e) = Some (de_node e')" using lookup by blast
    with assms(2) show False by simp
  qed
  have "map_of (um_put (entry_key e) (de_node e) m) k = Some n \<longleftrightarrow>
      (\<exists>e' \<in> set (e # l). entry_key e' = k \<and> de_node e' = n)" for k n
    using ne lookup [of k n] by auto
  moreover have "entry_key e \<notin> entry_key ` set l" using ne by auto
  ultimately show ?thesis using assms(1,3) by (simp add: index_ok_def)
qed

lemma pop_expired_ok:
  assumes "index_ok l m" "pop_expired cutoff l m = (l', m')"
  shows "index_ok l' m' \<and> l' = dropWhile (\<lambda>e. de_seen_at e < cutoff) l"
  using assms by (induction cutoff l m rule: pop_expired.induct) (auto intro: index_ok_pop split: if_splits)

lemma pop_over_ok:
  assumes "index_ok l m" "pop_over k l m = (l', m')"
  shows "index_ok l' m' \<and> l' = drop (length l - k) l"
  using assms
proof (induction k l m rule: pop_over.induct)
  case (2 k e l m)
  note len = index_ok_length [OF "2.prems"(1)]
  show ?case
  proof (cases "k < length m")
    case True
    then have "index_ok l' m'" "l' = drop (length l - k) l"
      using "2.IH" [OF True index_ok_pop [OF "2.prems"(1)]] "2.prems"(2) by auto
    moreover have "length (e # l) - k = Suc (length l - k)" using True len by simp
    ultimately show ?thesis by simp
  next
    case False
    then show ?thesis using "2.prems" len by auto
  qed
qed simp

lemma dropWhile_rev: "rev (dropWhile P (rev l)) = take (length (dropWhile P (rev l))) l"
  by (metis append_eq_conv_conj length_rev rev_append rev_rev_ident takeWhile_dropWhile_id)

lemma evict_expired_list:
  assumes "dedup_ok w"
  shows "dw_lru (evict_expired now w) =
      rev (dropWhile (\<lambda>e. de_seen_at e < now - dw_ttl_seconds w * 1000000000) (rev (dw_lru w)))"
    and "index_ok (dw_lru (evict_expired now w)) (dw_map (evict_expired now w))"
proof -
  let ?c = "now - dw_ttl_seconds w * 1000000000"
  obtain l m where p: "pop_expired ?c (rev (dw_lru w)) (dw_map w) = (l, m)" by fastforce
  have "index_ok (rev (dw_lru w)) (dw_map w)" using assms by (simp add: dedup_ok_def)
  from conjunct1 [OF pop_expired_ok [OF this p]] conjunct2 [OF pop_expired_ok [OF this p]]
  show "dw_lru (evict_expired now w) = rev (dropWhile (\<lambda>e. de_seen_at e < ?c) (rev (dw_lru w)))"
    "index_ok (dw_lru (evict_expired now w)) (dw_map (evict_expired now w))"
    by (simp_all add: evict_expired_def p)
qed

lemma evict_expired_frame [simp]:
  "dw_max_entries (evict_expired now w) = dw_max_entries w"
  "dw_ttl_seconds (evict_expired now w) = dw_ttl_seconds w"
  "dw_next (evict_expired now w) = dw_next w"
  by (simp_all add: evict_expired_def case_prod_beta)

lemma evict_expired_ok:
  assumes "dedup_ok w"
  shows "dedup_ok (evict_expired now w)"
proof -
  have "length (dw_lru (evict_expired now w)) \<le> length (dw_lru w)"
    unfolding evict_expired_list(1) [OF assms] by (metis length_dropWhile_le length_rev)
  moreover have "set (dw_lru (evict_expired now w)) \<subseteq> set (dw_lru w)"
    unfolding evict_expired_list(1) [OF assms] using set_dropWhileD by fastforce
  ultimately show ?thesis using evict_expired_list(2) [OF assms, of now] assms
    by (auto simp: dedup_ok_def)
qed

text \<open>What \<open>touch\<close> does to a list with distinct nodes.\<close>

lemma touch_split:
  assumes "distinct (map de_node l)" "e \<in> set l"
  obtains pre suf where "l = pre @ e # suf" "touch (de_node e) now l = e\<lparr>de_seen_at := now\<rparr> # pre @ suf"
proof -
  obtain pre suf where l: "l = pre @ e # suf" using assms(2) by (meson split_list)
  have "\<forall>x \<in> set (pre @ suf). de_node x \<noteq> de_node e"
    using assms(1) by (auto simp: l not_in_image)
  then have "filter (\<lambda>e'. de_node e' = de_node e) pre = []" "filter (\<lambda>e'. de_node e' = de_node e) suf = []"
    "filter (\<lambda>e'. de_node e' \<noteq> de_node e) pre = pre" "filter (\<lambda>e'. de_node e' \<noteq> de_node e) suf = suf"
    by (simp_all add: filter_empty_conv filter_id_conv)
  then have "touch (de_node e) now l = e\<lparr>de_seen_at := now\<rparr> # pre @ suf"
    by (simp add: touch_def l)
  with l that show ?thesis by blast
qed

lemma entry_key_stamp [simp]: "entry_key (e\<lparr>de_seen_at := now\<rparr>) = entry_key e"
  by (simp add: entry_key_def)

lemma index_ok_touch:
  assumes "index_ok l m" "e \<in> set l"
  shows "index_ok (touch (de_node e) now l) m"
proof -
  obtain pre suf where l: "l = pre @ e # suf" "touch (de_node e) now l = e\<lparr>de_seen_at := now\<rparr> # pre @ suf"
    using touch_split [of l e] assms by (auto simp: index_ok_def)
  have "(\<exists>x \<in> set (e\<lparr>de_seen_at := now\<rparr> # pre @ suf). entry_key x = k \<and> de_node x = n) \<longleftrightarrow>
      (\<exists>x \<in> set l. entry_key x = k \<and> de_node x = n)" for k n
    by (auto simp: l(1))
  moreover have "distinct (map entry_key (e\<lparr>de_seen_at := now\<rparr> # pre @ suf))"
    "distinct (map de_node (e\<lparr>de_seen_at := now\<rparr> # pre @ suf))"
    using assms(1) by (auto simp: index_ok_def l(1))
  ultimately show ?thesis using assms(1) by (simp add: index_ok_def l(2))
qed

text \<open>The entry of a pair, and how the operations see it.\<close>

definition window_entry :: "dedup_window \<Rightarrow> string \<Rightarrow> u64 \<Rightarrow> dedup_entry option" where
  "window_entry w d s = find (\<lambda>e. de_device_id e = d \<and> de_seq e = s) (dw_lru w)"

lemma entry_key_iff: "entry_key e = key_for d s \<longleftrightarrow> de_device_id e = d \<and> de_seq e = s"
  by (simp add: entry_key_def key_for_inj)

lemma lookup_cases:
  assumes "index_ok (dw_lru w) (dw_map w)"
  obtains (absent) "map_of (dw_map w) (key_for d s) = None" "window_entry w d s = None"
  | (present) e where "map_of (dw_map w) (key_for d s) = Some (de_node e)" "window_entry w d s = Some e"
      "e \<in> set (dw_lru w)" "de_device_id e = d" "de_seq e = s"
proof (cases "window_entry w d s")
  case None
  then have "\<not> (\<exists>e \<in> set (dw_lru w). entry_key e = key_for d s)"
    by (auto simp: window_entry_def find_None_iff entry_key_iff)
  then have "map_of (dw_map w) (key_for d s) = None"
    using assms by (metis index_ok_def option.exhaust)
  with None absent show ?thesis by blast
next
  case (Some e)
  then have e: "e \<in> set (dw_lru w)" "de_device_id e = d" "de_seq e = s"
    by (auto simp: window_entry_def find_Some_iff)
  then have "map_of (dw_map w) (key_for d s) = Some (de_node e)"
    using assms entry_key_iff unfolding index_ok_def by blast
  with Some e present show ?thesis by blast
qed

subsection \<open>The operations keep the invariant\<close>

text \<open>The entry list after each operation, in terms of the list after the eviction.\<close>

lemma is_duplicate_list:
  assumes "dedup_ok w" "is_duplicate now1 now2 d s w = (b, w')"
  shows "dedup_ok w' \<and> dw_max_entries w' = dw_max_entries w \<and> dw_ttl_seconds w' = dw_ttl_seconds w \<and>
    (case window_entry (evict_expired now1 w) d s of
       None \<Rightarrow> \<not> b \<and> dw_lru w' = dw_lru (evict_expired now1 w)
     | Some e \<Rightarrow> b \<and> dw_lru w' = touch (de_node e) now2 (dw_lru (evict_expired now1 w)))"
proof -
  let ?w1 = "evict_expired now1 w"
  note ev = evict_expired_ok [OF assms(1), of now1]
  have idx: "index_ok (dw_lru ?w1) (dw_map ?w1)" using evict_expired_list(2) [OF assms(1)] .
  show ?thesis
  proof (cases rule: lookup_cases [OF idx, where d = d and s = s])
    case 1
    then show ?thesis using assms(2) ev by (auto simp: is_duplicate_def Let_def)
  next
    case (2 e)
    obtain pre suf where l: "dw_lru ?w1 = pre @ e # suf"
      "touch (de_node e) now2 (dw_lru ?w1) = e\<lparr>de_seen_at := now2\<rparr> # pre @ suf"
      using touch_split [of "dw_lru ?w1" e now2] idx 2(3) by (auto simp: index_ok_def)
    have "dedup_ok (?w1\<lparr>dw_lru := touch (de_node e) now2 (dw_lru ?w1)\<rparr>)"
      using index_ok_touch [OF idx 2(3), of now2] ev l by (auto simp: dedup_ok_def)
    then show ?thesis using assms(2) ev 2 by (auto simp: is_duplicate_def Let_def)
  qed
qed

lemma mark_seen_list:
  assumes "dedup_ok w"
  shows "dedup_ok (mark_seen now1 now2 d s w) \<and>
    dw_max_entries (mark_seen now1 now2 d s w) = dw_max_entries w \<and>
    dw_ttl_seconds (mark_seen now1 now2 d s w) = dw_ttl_seconds w \<and>
    dw_lru (mark_seen now1 now2 d s w) =
      (case window_entry (evict_expired now1 w) d s of
         Some e \<Rightarrow> touch (de_node e) now2 (dw_lru (evict_expired now1 w))
       | None \<Rightarrow> take (dw_max_entries w)
           (\<lparr>de_node = dw_next (evict_expired now1 w), de_device_id = d, de_seq = s, de_seen_at = now2\<rparr>
            # dw_lru (evict_expired now1 w)))"
proof -
  let ?w1 = "evict_expired now1 w"
  note ev = evict_expired_ok [OF assms(1), of now1]
  have idx: "index_ok (dw_lru ?w1) (dw_map ?w1)" using evict_expired_list(2) [OF assms(1)] .
  show ?thesis
  proof (cases rule: lookup_cases [OF idx, where d = d and s = s])
    case (2 e)
    obtain pre suf where l: "dw_lru ?w1 = pre @ e # suf"
      "touch (de_node e) now2 (dw_lru ?w1) = e\<lparr>de_seen_at := now2\<rparr> # pre @ suf"
      using touch_split [of "dw_lru ?w1" e now2] idx 2(3) by (auto simp: index_ok_def)
    have "dedup_ok (?w1\<lparr>dw_lru := touch (de_node e) now2 (dw_lru ?w1)\<rparr>)"
      using index_ok_touch [OF idx 2(3), of now2] ev l by (auto simp: dedup_ok_def)
    then show ?thesis using ev 2 by (simp add: mark_seen_def Let_def)
  next
    case 1
    let ?e = "\<lparr>de_node = dw_next ?w1, de_device_id = d, de_seq = s, de_seen_at = now2\<rparr>"
    let ?l = "?e # dw_lru ?w1"
    obtain l m where p: "pop_over (dw_max_entries w) (rev ?l)
        (um_put (key_for d s) (dw_next ?w1) (dw_map ?w1)) = (l, m)" by fastforce
    have ek: "entry_key ?e = key_for d s" by (simp add: entry_key_def)
    have new: "dw_next ?w1 \<notin> de_node ` set (dw_lru ?w1)" using ev by (auto simp: dedup_ok_def)
    have "index_ok ?l (um_put (key_for d s) (dw_next ?w1) (dw_map ?w1))"
      using index_ok_push [OF idx, of ?e, unfolded ek] 1(1) new by simp
    then have "index_ok (rev ?l) (um_put (key_for d s) (dw_next ?w1) (dw_map ?w1))"
      by (simp only: index_ok_rev)
    note po = pop_over_ok [OF this p]
    have lm: "index_ok l m" "l = drop (length ?l - dw_max_entries w) (rev ?l)"
      using conjunct1 [OF po] conjunct2 [OF po] by (simp_all only: length_rev)
    have revl: "rev l = take (dw_max_entries w) ?l"
      unfolding lm(2) rev_drop rev_rev_ident length_rev
      by (cases "dw_max_entries w \<le> length ?l") (simp_all del: length_Cons)
    have "dw_max_entries ?w1 = dw_max_entries w" using ev by simp
    then have m: "mark_seen now1 now2 d s w = ?w1\<lparr>dw_lru := rev l, dw_map := m, dw_next := dw_next ?w1 + 1\<rparr>"
      using 1(1) p by (simp add: mark_seen_def Let_def)
    have "\<forall>x \<in> set (rev l). de_node x < dw_next ?w1 + 1"
      unfolding revl using ev by (auto simp: dedup_ok_def dest!: in_set_takeD intro: less_SucI)
    moreover have "length (rev l) \<le> dw_max_entries w" unfolding revl by simp
    ultimately have "dedup_ok (mark_seen now1 now2 d s w)"
      unfolding m dedup_ok_def using lm(1) ev by simp
    then show ?thesis using ev 1(2) revl by (simp add: m)
  qed
qed

subsection \<open>What the window remembers\<close>

datatype dedup_op = Check string u64 | Mark string u64

fun op_pair :: "dedup_op \<Rightarrow> string \<times> u64" where
  "op_pair (Check d s) = (d, s)"
| "op_pair (Mark d s) = (d, s)"

fun dedup_step :: "int \<Rightarrow> int \<Rightarrow> dedup_op \<Rightarrow> dedup_window \<Rightarrow> dedup_window" where
  "dedup_step now1 now2 (Check d s) w = snd (is_duplicate now1 now2 d s w)"
| "dedup_step now1 now2 (Mark d s) w = mark_seen now1 now2 d s w"

definition dedup_run :: "(int \<times> int \<times> dedup_op) list \<Rightarrow> dedup_window \<Rightarrow> dedup_window" where
  "dedup_run ops w = fold (\<lambda>(t1, t2, p). dedup_step t1 t2 p) ops w"

lemma dedup_step_ok: "dedup_ok w \<Longrightarrow> dedup_ok (dedup_step t1 t2 p w) \<and>
  dw_max_entries (dedup_step t1 t2 p w) = dw_max_entries w \<and>
  dw_ttl_seconds (dedup_step t1 t2 p w) = dw_ttl_seconds w"
proof (cases p)
  case (Check d s)
  assume "dedup_ok w"
  then show ?thesis using is_duplicate_list [of w t1 t2 d s] Check
    by (cases "is_duplicate t1 t2 d s w") simp
next
  case (Mark d s)
  assume "dedup_ok w"
  then show ?thesis using mark_seen_list [of w t1 t2 d s] Mark by simp
qed

lemma new_window_ok [simp]: "dedup_ok (new_dedup_window n ttl)"
  by (simp add: dedup_ok_def index_ok_def new_dedup_window_def)

definition pair_of :: "dedup_entry \<Rightarrow> string \<times> u64" where
  "pair_of e = (de_device_id e, de_seq e)"

text \<open>The pair stands in the list, stamped no earlier than \<open>t\<close>, and only pairs of \<open>K\<close> before it.\<close>

definition held :: "string \<times> u64 \<Rightarrow> int \<Rightarrow> (string \<times> u64) set \<Rightarrow> dedup_entry list \<Rightarrow> bool" where
  "held q t K l \<longleftrightarrow> (\<exists>pre e suf. l = pre @ e # suf \<and> pair_of e = q \<and> t \<le> de_seen_at e \<and>
     pair_of ` set pre \<subseteq> K)"

lemma held_evict:
  assumes "held q t K (dw_lru w)" "dedup_ok w" "now \<le> t + dw_ttl_seconds w * 1000000000"
  shows "held q t K (dw_lru (evict_expired now w))"
proof -
  let ?c = "now - dw_ttl_seconds w * 1000000000"
  obtain pre e suf where l: "dw_lru w = pre @ e # suf" "pair_of e = q" "t \<le> de_seen_at e"
    "pair_of ` set pre \<subseteq> K"
    using assms(1) by (auto simp: held_def)
  have keep: "\<not> de_seen_at e < ?c" using l(3) assms(3) by linarith
  have "rev (dropWhile (\<lambda>e. de_seen_at e < ?c) (rev (dw_lru w))) =
      pre @ e # rev (dropWhile (\<lambda>e. de_seen_at e < ?c) (rev suf))"
  proof (cases "\<forall>x \<in> set (rev suf). de_seen_at x < ?c")
    case True
    then have "dropWhile (\<lambda>e. de_seen_at e < ?c) (rev suf @ e # rev pre) =
        dropWhile (\<lambda>e. de_seen_at e < ?c) (e # rev pre)"
      by (intro dropWhile_append2) simp
    moreover have "dropWhile (\<lambda>e. de_seen_at e < ?c) (rev suf) = []" using True by simp
    ultimately show ?thesis using keep by (simp add: l(1))
  next
    case False
    then obtain x where "x \<in> set (rev suf)" "\<not> de_seen_at x < ?c" by blast
    then show ?thesis by (simp add: l(1) dropWhile_append1)
  qed
  then show ?thesis using evict_expired_list(1) [OF assms(2), of now] l by (auto simp: held_def)
qed

lemma held_length:
  assumes "held q t K l" "distinct (map pair_of l)" "finite K" "q \<notin> K"
  obtains pre e suf where "l = pre @ e # suf" "pair_of e = q" "t \<le> de_seen_at e"
    "pair_of ` set pre \<subseteq> K" "length pre \<le> card K"
proof -
  obtain pre e suf where l: "l = pre @ e # suf" "pair_of e = q" "t \<le> de_seen_at e" "pair_of ` set pre \<subseteq> K"
    using assms(1) by (auto simp: held_def)
  have "length pre = card (pair_of ` set pre)"
    using assms(2) distinct_card [of "map pair_of pre"] by (simp add: l(1))
  then have "length pre \<le> card K" using card_mono [OF assms(3) l(4)] by simp
  with l that show ?thesis by blast
qed

lemma distinct_pairs: "dedup_ok w \<Longrightarrow> distinct (map pair_of (dw_lru w))"
proof -
  assume "dedup_ok w"
  then have "distinct (map entry_key (dw_lru w))" by (simp add: dedup_ok_def index_ok_def)
  then show ?thesis
    by (auto simp: distinct_map inj_on_def pair_of_def entry_key_def)
qed

lemma pair_of_stamp [simp]: "pair_of (e\<lparr>de_seen_at := now\<rparr>) = pair_of e"
  by (simp add: pair_of_def)

lemma window_entry_Some: "window_entry w d s = Some e \<Longrightarrow> e \<in> set (dw_lru w) \<and> pair_of e = (d, s)"
  by (auto simp: window_entry_def find_Some_iff pair_of_def)

lemma window_entry_held: "held (d, s) t K (dw_lru w) \<Longrightarrow> window_entry w d s \<noteq> None"
  by (auto simp: held_def window_entry_def find_None_iff pair_of_def)

lemma filter_node: "x \<in> set l \<Longrightarrow> distinct (map de_node l) \<Longrightarrow> filter (\<lambda>e. de_node e = de_node x) l = [x]"
  by (induction l) (auto simp: not_in_image filter_empty_conv)

lemma held_touch:
  assumes "held q t K l" "x \<in> set l" "pair_of x \<in> K" "q \<notin> K" "distinct (map de_node l)"
  shows "held q t K (touch (de_node x) now l)"
proof -
  obtain pre e suf where l: "l = pre @ e # suf" "pair_of e = q" "t \<le> de_seen_at e" "pair_of ` set pre \<subseteq> K"
    using assms(1) by (auto simp: held_def)
  have ne: "de_node e \<noteq> de_node x"
  proof
    assume "de_node e = de_node x"
    moreover have "inj_on de_node (set l)" using assms(5) by (simp add: distinct_map)
    ultimately have "e = x" using assms(2) l(1) by (auto dest: inj_onD)
    with l(2) assms(3,4) show False by simp
  qed
  let ?keep = "filter (\<lambda>e. de_node e \<noteq> de_node x)"
  have "filter (\<lambda>e. de_node e = de_node x) l = [x]" using assms(2,5) by (rule filter_node)
  then have "touch (de_node x) now l = (x\<lparr>de_seen_at := now\<rparr> # ?keep pre) @ e # ?keep suf"
    unfolding touch_def using ne by (simp add: l(1))
  moreover have "pair_of ` set (x\<lparr>de_seen_at := now\<rparr> # ?keep pre) \<subseteq> K"
    using assms(3) l(4) by auto
  ultimately show ?thesis using l(2,3) unfolding held_def by blast
qed

lemma held_mono: "held q t K l \<Longrightarrow> K \<subseteq> K' \<Longrightarrow> held q t K' l"
  by (fastforce simp: held_def)

lemma held_step:
  assumes ok: "dedup_ok w" and h: "held q t K (dw_lru w)" and K: "op_pair p \<in> K" "q \<notin> K" "finite K"
    "card K < dw_max_entries w" and time: "now1 \<le> t + dw_ttl_seconds w * 1000000000"
  shows "held q t K (dw_lru (dedup_step now1 now2 p w))"
proof -
  let ?w1 = "evict_expired now1 w"
  have ok1: "dedup_ok ?w1" by (rule evict_expired_ok [OF ok])
  have h1: "held q t K (dw_lru ?w1)" by (rule held_evict [OF h ok time])
  have nodes: "distinct (map de_node (dw_lru ?w1))" using ok1 by (simp add: dedup_ok_def index_ok_def)
  have touched: "held q t K (touch (de_node x) now2 (dw_lru ?w1))"
    if "window_entry ?w1 d s = Some x" "(d, s) = op_pair p" for x d s
    using window_entry_Some [OF that(1)] that(2) K(1,2) by (intro held_touch [OF h1 _ _ _ nodes]) simp_all
  show ?thesis
  proof (cases p)
    case (Check d s)
    show ?thesis using is_duplicate_list [OF ok, of now1 now2 d s] touched [of d s] h1 Check
      by (cases "is_duplicate now1 now2 d s w") (auto split: option.splits)
  next
    case (Mark d s)
    show ?thesis
    proof (cases "window_entry ?w1 d s")
      case (Some x)
      then show ?thesis using mark_seen_list [OF ok, of now1 now2 d s] touched Mark by simp
    next
      case None
      let ?e = "\<lparr>de_node = dw_next ?w1, de_device_id = d, de_seq = s, de_seen_at = now2\<rparr>"
      have in_K: "pair_of ?e \<in> K" using K(1) Mark by (simp add: pair_of_def)
      have fresh: "pair_of ?e \<notin> pair_of ` set (dw_lru ?w1)"
        using None by (auto simp: window_entry_def find_None_iff pair_of_def)
      have "held q t K (?e # dw_lru ?w1)"
      proof -
        obtain pre e suf where l: "dw_lru ?w1 = pre @ e # suf" "pair_of e = q" "t \<le> de_seen_at e"
          "pair_of ` set pre \<subseteq> K" using h1 by (auto simp: held_def)
        then have "?e # dw_lru ?w1 = (?e # pre) @ e # suf" "pair_of ` set (?e # pre) \<subseteq> K"
          using in_K by simp_all
        then show ?thesis using l(2,3) unfolding held_def by blast
      qed
      moreover have "distinct (map pair_of (?e # dw_lru ?w1))" using distinct_pairs [OF ok1] fresh by simp
      ultimately obtain pre e suf where l: "?e # dw_lru ?w1 = pre @ e # suf" "pair_of e = q" "t \<le> de_seen_at e"
        "pair_of ` set pre \<subseteq> K" "length pre \<le> card K"
        using held_length K(2,3) by blast
      obtain j where j: "dw_max_entries w - length pre = Suc j"
        using l(5) K(4) by (cases "dw_max_entries w - length pre") auto
      have "take (dw_max_entries w) (?e # dw_lru ?w1) = pre @ e # take j suf"
        using l(5) K(4) j unfolding l(1) by simp
      then have "dw_lru (mark_seen now1 now2 d s w) = pre @ e # take j suf"
        using mark_seen_list [OF ok, of now1 now2 d s] None by simp
      then show ?thesis using l(2-4) Mark unfolding held_def by auto
    qed
  qed
qed

lemma held_run:
  assumes "dedup_ok w" "held q t K (dw_lru w)" "\<forall>(t1, t2, p) \<in> set ops. op_pair p \<in> K \<and>
      t1 \<le> t + dw_ttl_seconds w * 1000000000" "q \<notin> K" "finite K" "card K < dw_max_entries w"
  shows "held q t K (dw_lru (dedup_run ops w)) \<and> dedup_ok (dedup_run ops w) \<and>
    dw_ttl_seconds (dedup_run ops w) = dw_ttl_seconds w"
  using assms
proof (induction ops arbitrary: w)
  case (Cons x ops)
  obtain t1 t2 p where x: "x = (t1, t2, p)" by (cases x)
  have st: "held q t K (dw_lru (dedup_step t1 t2 p w))"
    using Cons.prems by (intro held_step) (auto simp: x)
  have "dedup_run (x # ops) w = dedup_run ops (dedup_step t1 t2 p w)" by (simp add: dedup_run_def x)
  then show ?case
    using Cons.IH [OF _ st] dedup_step_ok [OF Cons.prems(1), of t1 t2 p] Cons.prems by simp
qed (simp add: dedup_run_def)

lemma held_after_mark:
  assumes "dedup_ok w" "0 < dw_max_entries w"
  shows "held (d, s) now2 K (dw_lru (mark_seen now1 now2 d s w))"
proof -
  let ?w1 = "evict_expired now1 w"
  have nodes: "distinct (map de_node (dw_lru ?w1))"
    using evict_expired_list(2) [OF assms(1), of now1] by (simp add: index_ok_def)
  show ?thesis
  proof (cases "window_entry ?w1 d s")
    case (Some x)
    obtain pre suf where "touch (de_node x) now2 (dw_lru ?w1) = x\<lparr>de_seen_at := now2\<rparr> # pre @ suf"
      using touch_split [OF nodes] window_entry_Some [OF Some] by metis
    then have "dw_lru (mark_seen now1 now2 d s w) = [] @ x\<lparr>de_seen_at := now2\<rparr> # (pre @ suf)"
      using mark_seen_list [OF assms(1), of now1 now2 d s] Some by simp
    then show ?thesis using window_entry_Some [OF Some] unfolding held_def
      by (intro exI [of _ "[]"] exI [of _ "x\<lparr>de_seen_at := now2\<rparr>"] exI [of _ "pre @ suf"]) simp
  next
    case None
    obtain j where j: "dw_max_entries w = Suc j" using assms(2) by (cases "dw_max_entries w") auto
    let ?e = "\<lparr>de_node = dw_next ?w1, de_device_id = d, de_seq = s, de_seen_at = now2\<rparr>"
    have "dw_lru (mark_seen now1 now2 d s w) = [] @ ?e # take j (dw_lru ?w1)"
      using mark_seen_list [OF assms(1), of now1 now2 d s] None j by simp
    then show ?thesis unfolding held_def
      by (intro exI [of _ "[]"] exI [of _ ?e] exI [of _ "take j (dw_lru ?w1)"]) (simp add: pair_of_def)
  qed
qed

subsection \<open>Properties\<close>

text \<open>C32: Any sequence of checks and marks keeps the map and the list of the window in step (the
  map leads exactly to the nodes of the list, one per key) and within the size limit.\<close>

theorem dedup_invariant:
  "dedup_ok (dedup_run ops (new_dedup_window n ttl)) \<and> dedup_size (dedup_run ops (new_dedup_window n ttl)) \<le> n"
proof -
  let ?P = "\<lambda>w. dedup_ok w \<and> dw_max_entries w = n"
  have "?P (dedup_run ops (new_dedup_window n ttl))"
    unfolding dedup_run_def
    by (rule fold_invariant_list) (auto simp: dedup_step_ok new_dedup_window_def [of n ttl] dest: dedup_step_ok
        intro: new_window_ok [of n ttl, unfolded new_dedup_window_def])
  then show ?thesis
    using index_ok_length unfolding dedup_ok_def dedup_size_def by metis
qed

text \<open>C31: A pair that was marked is reported as a duplicate as long as it is checked within the time
  to live and fewer different other pairs than the window may hold were checked or marked since.\<close>

theorem dedup_remembers:
  assumes "dedup_ok w" "card (op_pair ` (snd \<circ> snd) ` set ops) < dw_max_entries w"
    and "(d, s) \<notin> op_pair ` (snd \<circ> snd) ` set ops"
    and "\<forall>(t1, t2, p) \<in> set ops. t1 \<le> now2 + dw_ttl_seconds w * 1000000000"
    and "now3 \<le> now2 + dw_ttl_seconds w * 1000000000"
  shows "fst (is_duplicate now3 now4 d s (dedup_run ops (mark_seen now1 now2 d s w)))"
proof -
  let ?K = "op_pair ` (snd \<circ> snd) ` set ops"
  let ?m = "mark_seen now1 now2 d s w"
  have ok: "dedup_ok ?m" "dw_max_entries ?m = dw_max_entries w" "dw_ttl_seconds ?m = dw_ttl_seconds w"
    using mark_seen_list [OF assms(1), of now1 now2 d s] by simp_all
  have pos: "0 < dw_max_entries w" using assms(2) by simp
  have "\<forall>(t1, t2, p) \<in> set ops. op_pair p \<in> ?K \<and> t1 \<le> now2 + dw_ttl_seconds ?m * 1000000000"
    using assms(4) ok(3) by force
  then have run: "held (d, s) now2 ?K (dw_lru (dedup_run ops ?m)) \<and> dedup_ok (dedup_run ops ?m) \<and>
      dw_ttl_seconds (dedup_run ops ?m) = dw_ttl_seconds ?m"
    using held_run [OF ok(1) held_after_mark [OF assms(1) pos]] assms(2,3) ok(2) by simp
  then have "held (d, s) now2 ?K (dw_lru (evict_expired now3 (dedup_run ops ?m)))"
    using assms(5) ok(3) by (intro held_evict) auto
  then have "window_entry (evict_expired now3 (dedup_run ops ?m)) d s \<noteq> None"
    by (rule window_entry_held)
  then show ?thesis
    using is_duplicate_list [of "dedup_run ops ?m" now3 now4 d s] run
    by (cases "is_duplicate now3 now4 d s (dedup_run ops ?m)") (auto split: option.splits)
qed

theorem dedup_remembers_witness:
  "fst (is_duplicate 100 101 ''a'' 1
     (dedup_run [(10, 11, Mark ''b'' 1)] (mark_seen 0 1 ''a'' 1 (new_dedup_window 2 60))))"
  by (rule dedup_remembers) (simp, simp_all add: new_dedup_window_def)

text \<open>A pair that no entry of the window stands for is not a duplicate, and the eviction leaves
  no entry older than the time to live when stamps never go back in the list.\<close>

lemma dedup_absent:
  assumes "dedup_ok w" "window_entry w d s = None"
  shows "\<not> fst (is_duplicate now1 now2 d s w)"
proof -
  have "window_entry (evict_expired now1 w) d s = None"
    using assms(2) set_dropWhileD unfolding window_entry_def evict_expired_list(1) [OF assms(1)]
    by (fastforce simp: find_None_iff)
  then show ?thesis using is_duplicate_list [OF assms(1), of now1 now2 d s]
    by (cases "is_duplicate now1 now2 d s w") simp
qed

definition recency_ok :: "dedup_entry list \<Rightarrow> bool" where
  "recency_ok l \<longleftrightarrow> sorted_wrt (\<lambda>a b. de_seen_at b \<le> de_seen_at a) l"

lemma evict_complete:
  assumes "dedup_ok w" "recency_ok (dw_lru w)"
  shows "\<forall>e \<in> set (dw_lru (evict_expired now w)). now - dw_ttl_seconds w * 1000000000 \<le> de_seen_at e"
proof -
  let ?c = "now - dw_ttl_seconds w * 1000000000"
  have gen: "\<forall>e \<in> set (dropWhile (\<lambda>e. de_seen_at e < ?c) l). ?c \<le> de_seen_at e"
    if "sorted_wrt (\<lambda>a b. de_seen_at a \<le> de_seen_at b) l" for l
    using that by (induction l) (auto intro: order_trans)
  have "sorted_wrt (\<lambda>a b. de_seen_at a \<le> de_seen_at b) (rev (dw_lru w))"
    using assms(2) by (simp add: recency_ok_def sorted_wrt_rev)
  from gen [OF this] show ?thesis by (simp add: evict_expired_list(1) [OF assms(1)])
qed

end
