(* ===== verification/Redis.thy ===== *)
theory Redis
  imports Domain Config
begin

text \<open>
  The in-memory store of \<open>common/clients/redis_client.cpp\<close> (its build without hiredis): the
  latest state of every device, the set of devices in every cell, the state of every device
  at every fence, and the reservations of agents. Each method takes the mutex for its whole
  body, so it is one function on the store. The clock of a reservation is the steady clock
  in milliseconds and an argument.

  Two interfaces are stated as locales. \<open>device_store\<close> is what the state writer, the queries
  and the geofence handlers rely on; in it the outcome of any sequence of updates is
  proved. \<open>reservation_store\<close> is what the matcher relies on; in it mutual exclusion is proved.
  Both are interpreted on the store below. The invariant \<open>index_exact\<close> says that the cell index
  is exactly the inverse image of the device states.
\<close>

subsection \<open>State\<close>

record reservation_record =
  rs_request_id :: string
  rs_expires_at_ms :: int

record redis =
  rd_device_states :: "(string, device_state) umap"
  rd_cell_devices :: "(cell, string list) umap"
  rd_fence_states :: "(string, fence_state_record) umap"
  rd_reservations :: "(string, reservation_record) umap"

definition new_redis :: redis where
  "new_redis = \<lparr>rd_device_states = [], rd_cell_devices = [], rd_fence_states = [],
     rd_reservations = []\<rparr>"

definition ping :: "redis \<Rightarrow> bool" where
  "ping r = True"

subsection \<open>Device states and the cell index\<close>

definition erase_from_cell :: "cell \<Rightarrow> string \<Rightarrow> (cell, string list) umap \<Rightarrow> (cell, string list) umap" where
  "erase_from_cell c d cells = (case map_of cells c of None \<Rightarrow> cells
     | Some ds \<Rightarrow> if us_del d ds = [] then um_del c cells else um_put c (us_del d ds) cells)"

definition insert_into_cell :: "cell \<Rightarrow> string \<Rightarrow> (cell, string list) umap \<Rightarrow> (cell, string list) umap" where
  "insert_into_cell c d cells =
     um_put c (us_add d (case map_of cells c of None \<Rightarrow> [] | Some ds \<Rightarrow> ds)) cells"

definition update_device_state_cas :: "string \<Rightarrow> device_state \<Rightarrow> int \<Rightarrow> redis \<Rightarrow> bool \<times> redis" where
  "update_device_state_cas d s ttl_s r =
     (let current = map_of (rd_device_states r) d in
      if (case current of None \<Rightarrow> False | Some old \<Rightarrow> ds_seq s \<le> ds_seq old) then (False, r)
      else let cells = (case current of None \<Rightarrow> rd_cell_devices r
                 | Some old \<Rightarrow> if ds_h3_cell old \<noteq> ds_h3_cell s
                     then erase_from_cell (ds_h3_cell old) d (rd_cell_devices r) else rd_cell_devices r);
               stored = s\<lparr>ds_device_id := d\<rparr>
           in (True, r\<lparr>rd_device_states := um_put d stored (rd_device_states r),
                       rd_cell_devices := insert_into_cell (ds_h3_cell s) d cells\<rparr>))"

definition get_device_state :: "redis \<Rightarrow> string \<Rightarrow> device_state option" where
  "get_device_state r d = map_of (rd_device_states r) d"

definition get_device_states_batch :: "redis \<Rightarrow> string list \<Rightarrow> device_state option list" where
  "get_device_states_batch r ds = map (get_device_state r) ds"

definition add_device_to_cell :: "cell \<Rightarrow> string \<Rightarrow> redis \<Rightarrow> redis" where
  "add_device_to_cell c d r = r\<lparr>rd_cell_devices := insert_into_cell c d (rd_cell_devices r)\<rparr>"

definition remove_device_from_cell :: "cell \<Rightarrow> string \<Rightarrow> redis \<Rightarrow> redis" where
  "remove_device_from_cell c d r = r\<lparr>rd_cell_devices := erase_from_cell c d (rd_cell_devices r)\<rparr>"

definition get_devices_in_cell :: "redis \<Rightarrow> cell \<Rightarrow> string list" where
  "get_devices_in_cell r c = (case map_of (rd_cell_devices r) c of None \<Rightarrow> [] | Some ds \<Rightarrow> ds)"

definition get_devices_in_cells :: "redis \<Rightarrow> cell list \<Rightarrow> string list" where
  "get_devices_in_cells r cells =
     fold (\<lambda>c unique. fold us_add (get_devices_in_cell r c) unique) cells []"

text \<open>The sweep visits the cells in iteration order; it drops members without a state, counts
  them and the cells they were in, and erases cells left empty.\<close>

fun sweep_cells :: "(string \<Rightarrow> bool) \<Rightarrow> (cell, string list) umap \<Rightarrow> nat \<times> nat \<times> (cell, string list) umap" where
  "sweep_cells live [] = (0, 0, [])"
| "sweep_cells live ((c, ds) # rest) =
     (let (removed, touched, rest') = sweep_cells live rest;
          kept = filter live ds; gone = length ds - length kept
      in (removed + gone, (if gone > 0 then touched + 1 else touched),
          if kept = [] then rest' else (c, kept) # rest'))"

definition remove_stale_cell_members :: "redis \<Rightarrow> (nat \<times> nat) \<times> redis" where
  "remove_stale_cell_members r =
     (let (removed, touched, cells) =
        sweep_cells (\<lambda>d. map_of (rd_device_states r) d \<noteq> None) (rd_cell_devices r)
      in ((removed, touched), r\<lparr>rd_cell_devices := cells\<rparr>))"

subsection \<open>Fence states\<close>

definition fence_key :: "string \<Rightarrow> string \<Rightarrow> string" where
  "fence_key d f = d @ '':'' @ f"

definition set_fence_state :: "string \<Rightarrow> string \<Rightarrow> fence_state \<Rightarrow> int \<Rightarrow> redis \<Rightarrow> redis" where
  "set_fence_state d f st ts r =
     (let key = fence_key d f;
          entered = (case st of
              INSIDE \<Rightarrow> ts
            | DWELL \<Rightarrow> (case map_of (rd_fence_states r) key of
                Some prev \<Rightarrow> if fs_entered_at_ms prev > 0 then fs_entered_at_ms prev else ts
              | None \<Rightarrow> ts)
            | OUTSIDE \<Rightarrow> 0)
      in r\<lparr>rd_fence_states := um_put key \<lparr>fs_device_id = d, fs_fence_id = f, fs_state = st,
             fs_entered_at_ms = entered, fs_updated_at_ms = ts\<rparr> (rd_fence_states r)\<rparr>)"

definition get_fence_state_record :: "redis \<Rightarrow> string \<Rightarrow> string \<Rightarrow> fence_state_record option" where
  "get_fence_state_record r d f = map_of (rd_fence_states r) (fence_key d f)"

definition get_fence_state :: "redis \<Rightarrow> string \<Rightarrow> string \<Rightarrow> fence_state option" where
  "get_fence_state r d f = map_option fs_state (get_fence_state_record r d f)"

definition list_fence_states :: "fence_state \<Rightarrow> redis \<Rightarrow> fence_state_record list" where
  "list_fence_states st r = filter (\<lambda>rec. fs_state rec = st) (map snd (rd_fence_states r))"

subsection \<open>Reservations\<close>

definition reservation_expired_at :: "int \<Rightarrow> int \<Rightarrow> bool" where
  "reservation_expired_at expires_at now = (expires_at \<le> now)"

definition try_reserve_agent :: "int \<Rightarrow> string \<Rightarrow> string \<Rightarrow> int \<Rightarrow> redis \<Rightarrow> bool \<times> redis" where
  "try_reserve_agent now agent request ttl_ms r =
     (if agent = [] \<or> request = [] \<or> ttl_ms \<le> 0 then (False, r)
      else let fresh = \<lparr>rs_request_id = request, rs_expires_at_ms = now + ttl_ms\<rparr> in
        (case map_of (rd_reservations r) agent of
           Some old \<Rightarrow> if \<not> reservation_expired_at (rs_expires_at_ms old) now then (False, r)
             else (True, r\<lparr>rd_reservations := um_put agent fresh (um_del agent (rd_reservations r))\<rparr>)
         | None \<Rightarrow> (True, r\<lparr>rd_reservations := um_put agent fresh (rd_reservations r)\<rparr>)))"

definition release_agent :: "string \<Rightarrow> string \<Rightarrow> redis \<Rightarrow> redis" where
  "release_agent agent request r = (case map_of (rd_reservations r) agent of
     Some rec \<Rightarrow> if rs_request_id rec = request
       then r\<lparr>rd_reservations := um_del agent (rd_reservations r)\<rparr> else r
   | None \<Rightarrow> r)"

definition is_agent_reserved :: "int \<Rightarrow> redis \<Rightarrow> string \<Rightarrow> bool" where
  "is_agent_reserved now r agent = (case map_of (rd_reservations r) agent of None \<Rightarrow> False
     | Some rec \<Rightarrow> \<not> reservation_expired_at (rs_expires_at_ms rec) now)"

definition get_agent_reservation_holder :: "int \<Rightarrow> redis \<Rightarrow> string \<Rightarrow> string option" where
  "get_agent_reservation_holder now r agent = (case map_of (rd_reservations r) agent of None \<Rightarrow> None
     | Some rec \<Rightarrow> if reservation_expired_at (rs_expires_at_ms rec) now then None
                   else Some (rs_request_id rec))"

subsection \<open>Frames\<close>

lemma get_after_cas:
  "get_device_state (snd (update_device_state_cas d s t r)) d' =
     (if d' = d \<and> fst (update_device_state_cas d s t r) then Some (s\<lparr>ds_device_id := d\<rparr>)
      else get_device_state r d')"
  by (auto simp: update_device_state_cas_def get_device_state_def Let_def split: option.splits)

lemma cas_ok_iff:
  "fst (update_device_state_cas d s t r) \<longleftrightarrow>
     (case get_device_state r d of None \<Rightarrow> True | Some old \<Rightarrow> ds_seq old < ds_seq s)"
  by (auto simp: update_device_state_cas_def get_device_state_def Let_def not_le split: option.splits)

lemma cas_frame [simp]:
  "rd_fence_states (snd (update_device_state_cas d s t r)) = rd_fence_states r"
  "rd_reservations (snd (update_device_state_cas d s t r)) = rd_reservations r"
  by (auto simp: update_device_state_cas_def Let_def split: option.splits)

lemma set_fence_frame [simp]:
  "rd_device_states (set_fence_state d f st ts r) = rd_device_states r"
  "rd_cell_devices (set_fence_state d f st ts r) = rd_cell_devices r"
  "rd_reservations (set_fence_state d f st ts r) = rd_reservations r"
  by (simp_all add: set_fence_state_def Let_def)

lemma get_fence_after_set:
  "get_fence_state (set_fence_state d f st ts r) d' f' =
     (if fence_key d' f' = fence_key d f then Some st else get_fence_state r d' f')"
  by (simp add: get_fence_state_def get_fence_state_record_def set_fence_state_def Let_def)

lemma fence_key_inj: "CHR '':'' \<notin> set d \<Longrightarrow> CHR '':'' \<notin> set d' \<Longrightarrow>
  fence_key d f = fence_key d' f' \<longleftrightarrow> d = d' \<and> f = f'"
proof (induction d arbitrary: d')
  case Nil
  then show ?case by (cases d') (auto simp: fence_key_def)
next
  case (Cons c d)
  then show ?case by (cases d') (auto simp: fence_key_def)
qed

text \<open>Two different pairs share a key when an identifier contains the separator.\<close>

lemma fence_key_collision: "fence_key ''a:b'' ''c'' = fence_key ''a'' ''b:c''"
  by (simp add: fence_key_def)

subsection \<open>The interface of the device store\<close>

text \<open>What a list of updates (device, state, time to live) does to one device.\<close>

fun latest :: "string \<Rightarrow> (string \<times> device_state \<times> int) list \<Rightarrow> device_state option \<Rightarrow> device_state option" where
  "latest d [] cur = cur"
| "latest d ((d', s, t) # us) cur = latest d us
     (if d' = d \<and> (case cur of None \<Rightarrow> True | Some old \<Rightarrow> ds_seq old < ds_seq s)
      then Some (s\<lparr>ds_device_id := d\<rparr>) else cur)"

lemma latest_None: "latest d us cur = None \<Longrightarrow> cur = None \<and> (\<forall>s t. (d, s, t) \<notin> set us)"
proof (induction d us cur rule: latest.induct)
  case (2 d d' s t us cur)
  from "2.IH" "2.prems" show ?case by (auto split: if_splits option.splits)
qed simp

lemma latest_ge: "latest d us (Some old) = Some s \<Longrightarrow> ds_seq old \<le> ds_seq s"
proof (induction us arbitrary: old)
  case (Cons u us)
  obtain d' s' t where u: "u = (d', s', t)" by (cases u)
  show ?case
  proof (cases "d' = d \<and> ds_seq old < ds_seq s'")
    case True
    then have "ds_seq s' \<le> ds_seq s" using Cons.IH [of "s'\<lparr>ds_device_id := d\<rparr>"] Cons.prems by (simp add: u)
    moreover have "ds_seq old \<le> ds_seq s'" using True by (simp add: less_imp_le)
    ultimately show ?thesis by (rule order_trans [rotated])
  next
    case False
    then show ?thesis using Cons by (auto simp: u)
  qed
qed simp

text \<open>The latest state is one of the updates, and none has a higher sequence number.\<close>

lemma latest_Some: "latest d us cur = Some s \<Longrightarrow> cur = None \<Longrightarrow>
  (\<exists>s' t. (d, s', t) \<in> set us \<and> s = s'\<lparr>ds_device_id := d\<rparr>) \<and>
  (\<forall>s' t. (d, s', t) \<in> set us \<longrightarrow> ds_seq s' \<le> ds_seq s)"
proof -
  have origin: "latest d us cur = Some s \<Longrightarrow>
      cur = Some s \<or> (\<exists>s' t. (d, s', t) \<in> set us \<and> s = s'\<lparr>ds_device_id := d\<rparr>)" for us cur
    by (induction d us cur rule: latest.induct) (auto split: if_splits)
  have upper: "latest d us cur = Some s \<Longrightarrow> (d, s', t) \<in> set us \<Longrightarrow> ds_seq s' \<le> ds_seq s" for us cur s' t
  proof (induction us arbitrary: cur)
    case (Cons u us)
    obtain d1 s1 t1 where u: "u = (d1, s1, t1)" by (cases u)
    show ?case
    proof (cases "(d, s', t) = u")
      case True
      have "\<exists>x. (if case cur of None \<Rightarrow> True | Some old \<Rightarrow> ds_seq old < ds_seq s'
          then Some (s'\<lparr>ds_device_id := d\<rparr>) else cur) = Some x \<and> ds_seq s' \<le> ds_seq x"
        by (auto split: option.splits)
      then obtain x where "(if case cur of None \<Rightarrow> True | Some old \<Rightarrow> ds_seq old < ds_seq s'
          then Some (s'\<lparr>ds_device_id := d\<rparr>) else cur) = Some x" "ds_seq s' \<le> ds_seq x" by blast
      then show ?thesis using Cons.prems(1) True latest_ge [of d us x s]
        by (auto simp: u split: option.splits)
    next
      case False
      then show ?thesis using Cons.IH Cons.prems by (auto simp: u)
    qed
  qed simp
  assume "latest d us cur = Some s" "cur = None"
  then show ?thesis using origin [of us cur] upper [of us cur] by blast
qed

locale device_store =
  fixes get :: "'s \<Rightarrow> string \<Rightarrow> device_state option"
    and cas :: "string \<Rightarrow> device_state \<Rightarrow> int \<Rightarrow> 's \<Rightarrow> bool \<times> 's"
  assumes cas_applies: "fst (cas d s t r) \<longleftrightarrow>
      (case get r d of None \<Rightarrow> True | Some old \<Rightarrow> ds_seq old < ds_seq s)"
    and get_cas: "get (snd (cas d s t r)) d' =
      (if d' = d \<and> fst (cas d s t r) then Some (s\<lparr>ds_device_id := d\<rparr>) else get r d')"
begin

text \<open>A store only moves forward.\<close>

lemma seq_grows:
  assumes "get r d = Some s"
  shows "\<exists>s'. get (fold (\<lambda>(d, s, t) r. snd (cas d s t r)) us r) d = Some s' \<and> ds_seq s \<le> ds_seq s'"
  using assms
proof (induction us arbitrary: r s)
  case (Cons u us)
  obtain d' s' t where u: "u = (d', s', t)" by (cases u)
  have "\<exists>s1. get (snd (cas d' s' t r)) d = Some s1 \<and> ds_seq s \<le> ds_seq s1"
    using Cons.prems by (auto simp: get_cas cas_applies)
  then obtain s1 where s1: "get (snd (cas d' s' t r)) d = Some s1" "ds_seq s \<le> ds_seq s1" by blast
  from Cons.IH [OF s1(1)] s1(2) show ?case unfolding u by (auto intro: order_trans)
qed simp

lemma get_fold: "get (fold (\<lambda>(d, s, t) r. snd (cas d s t r)) us r) d = latest d us (get r d)"
  by (induction us arbitrary: r) (auto simp: get_cas cas_applies)

lemma fold_None: "get (fold (\<lambda>(d, s, t) r. snd (cas d s t r)) us r) d = None \<Longrightarrow>
  get r d = None \<and> (\<forall>s t. (d, s, t) \<notin> set us)"
  unfolding get_fold by (rule latest_None)

lemma fold_Some: "get (fold (\<lambda>(d, s, t) r. snd (cas d s t r)) us r) d = Some s \<Longrightarrow> get r d = None \<Longrightarrow>
  (\<exists>s' t. (d, s', t) \<in> set us \<and> s = s'\<lparr>ds_device_id := d\<rparr>) \<and>
  (\<forall>s' t. (d, s', t) \<in> set us \<longrightarrow> ds_seq s' \<le> ds_seq s)"
  unfolding get_fold by (rule latest_Some)

text \<open>So the outcome does not depend on the order in which updates arrive.\<close>

lemma order_irrelevant:
  assumes "set us = set us'" "get r d = None"
    and distinct: "\<And>s t s' t'. (d, s, t) \<in> set us \<Longrightarrow> (d, s', t') \<in> set us \<Longrightarrow>
      ds_seq s = ds_seq s' \<Longrightarrow> s = s'"
  shows "get (fold (\<lambda>(d, s, t) r. snd (cas d s t r)) us r) d =
    get (fold (\<lambda>(d, s, t) r. snd (cas d s t r)) us' r) d"
proof -
  let ?run = "\<lambda>us. get (fold (\<lambda>(d, s, t) r. snd (cas d s t r)) us r) d"
  show ?thesis
  proof (cases "?run us")
    case None
    then have "\<forall>s t. (d, s, t) \<notin> set us'" using fold_None [OF None] assms(1) by blast
    then have "?run us' = None" using fold_Some [OF _ assms(2)] by (metis option.exhaust)
    with None show ?thesis by simp
  next
    case (Some s)
    from fold_Some [OF Some assms(2)] obtain a t where a: "(d, a, t) \<in> set us"
      "s = a\<lparr>ds_device_id := d\<rparr>" "\<forall>s' t. (d, s', t) \<in> set us \<longrightarrow> ds_seq s' \<le> ds_seq s" by blast
    obtain s2 where s2: "?run us' = Some s2"
      using fold_None [of us' r d] a(1) assms(1) by (metis option.exhaust)
    from fold_Some [OF s2 assms(2)] obtain b t' where b: "(d, b, t') \<in> set us'"
      "s2 = b\<lparr>ds_device_id := d\<rparr>" "\<forall>s' t. (d, s', t) \<in> set us' \<longrightarrow> ds_seq s' \<le> ds_seq s2" by blast
    have "ds_seq b \<le> ds_seq s" using a(3) b(1) assms(1) by blast
    moreover have "ds_seq a \<le> ds_seq s2" using b(3) a(1) assms(1) by blast
    ultimately have "ds_seq a = ds_seq b" using a(2) b(2) by simp
    then have "a = b" using distinct [OF a(1)] b(1) assms(1) by blast
    then show ?thesis using Some s2 a(2) b(2) by simp
  qed
qed

end

interpretation redis_store: device_store get_device_state update_device_state_cas
  by unfold_locales (rule cas_ok_iff, rule get_after_cas)

subsection \<open>The interface of the reservation store\<close>

datatype reservation_op = Reserve int string string int | Release int string string

fun op_time :: "reservation_op \<Rightarrow> int" where
  "op_time (Reserve now a q ttl) = now"
| "op_time (Release now a q) = now"

fun res_step :: "(int \<Rightarrow> string \<Rightarrow> string \<Rightarrow> int \<Rightarrow> 's \<Rightarrow> bool \<times> 's) \<Rightarrow> (string \<Rightarrow> string \<Rightarrow> 's \<Rightarrow> 's) \<Rightarrow>
    reservation_op \<Rightarrow> 's \<Rightarrow> bool \<times> 's" where
  "res_step res rel (Reserve now a q ttl) r = res now a q ttl r"
| "res_step res rel (Release now a q) r = (True, rel a q r)"

fun res_run :: "(int \<Rightarrow> string \<Rightarrow> string \<Rightarrow> int \<Rightarrow> 's \<Rightarrow> bool \<times> 's) \<Rightarrow> (string \<Rightarrow> string \<Rightarrow> 's \<Rightarrow> 's) \<Rightarrow>
    reservation_op list \<Rightarrow> 's \<Rightarrow> (reservation_op \<times> bool) list \<times> 's" where
  "res_run res rel [] r = ([], r)"
| "res_run res rel (p # ps) r = (let (ok, r1) = res_step res rel p r; (rest, r2) = res_run res rel ps r1
     in ((p, ok) # rest, r2))"

locale reservation_store =
  fixes holder :: "int \<Rightarrow> 's \<Rightarrow> string \<Rightarrow> string option"
    and res :: "int \<Rightarrow> string \<Rightarrow> string \<Rightarrow> int \<Rightarrow> 's \<Rightarrow> bool \<times> 's"
    and rel :: "string \<Rightarrow> string \<Rightarrow> 's \<Rightarrow> 's"
  assumes res_ok: "fst (res now a q ttl r) \<longleftrightarrow> a \<noteq> [] \<and> q \<noteq> [] \<and> 0 < ttl \<and> holder now r a = None"
    and holder_res: "fst (res now a q ttl r) \<Longrightarrow>
      holder t (snd (res now a q ttl r)) a = (if t < now + ttl then Some q else None)"
    and holder_res_frame: "a' \<noteq> a \<or> \<not> fst (res now a q ttl r) \<Longrightarrow>
      holder t (snd (res now a q ttl r)) a' = holder t r a'"
    and holder_rel: "holder t (rel a q r) a' = (if a' = a \<and> holder t r a = Some q then None else holder t r a')"
    and holder_back: "holder t' r a = Some q \<Longrightarrow> t \<le> t' \<Longrightarrow> holder t r a = Some q"
begin

text \<open>While a reservation lasts and its holder does not release it, every other attempt fails.\<close>

lemma exclusive:
  assumes "holder until r a = Some q" "\<forall>p \<in> set ps. op_time p \<le> until"
    and "\<forall>now. Release now a q \<notin> set ps"
  shows "holder until (snd (res_run res rel ps r)) a = Some q \<and>
    (\<forall>now q' ttl ok. (Reserve now a q' ttl, ok) \<in> set (fst (res_run res rel ps r)) \<longrightarrow> \<not> ok)"
  using assms
proof (induction ps arbitrary: r)
  case (Cons p ps)
  let ?r1 = "snd (res_step res rel p r)"
  have h: "holder until ?r1 a = Some q \<and> (\<forall>now q' ttl. p = Reserve now a q' ttl \<longrightarrow> \<not> fst (res_step res rel p r))"
  proof (cases p)
    case (Reserve now b q' ttl)
    have "holder now r a = Some q" using Cons.prems(1,2) Reserve by (auto intro: holder_back)
    then have "b = a \<Longrightarrow> \<not> fst (res now b q' ttl r)" by (simp add: res_ok)
    then show ?thesis using Cons.prems(1) Reserve holder_res_frame [of a b now q' ttl r until] by auto
  next
    case (Release now b q')
    then show ?thesis using Cons.prems(1,3) by (auto simp: holder_rel)
  qed
  from Cons.IH [of ?r1] h Cons.prems(2,3) show ?case
    by (fastforce simp: Let_def case_prod_beta)
qed simp

end

lemma holder_try_reserve:
  "fst (try_reserve_agent now a q ttl r) \<longleftrightarrow>
     a \<noteq> [] \<and> q \<noteq> [] \<and> 0 < ttl \<and> get_agent_reservation_holder now r a = None"
  "fst (try_reserve_agent now a q ttl r) \<Longrightarrow>
     get_agent_reservation_holder t (snd (try_reserve_agent now a q ttl r)) a =
       (if t < now + ttl then Some q else None)"
  "a' \<noteq> a \<or> \<not> fst (try_reserve_agent now a q ttl r) \<Longrightarrow>
     get_agent_reservation_holder t (snd (try_reserve_agent now a q ttl r)) a' =
       get_agent_reservation_holder t r a'"
  by (auto simp: try_reserve_agent_def get_agent_reservation_holder_def reservation_expired_at_def
      Let_def split: option.splits if_splits)

lemma holder_release:
  "get_agent_reservation_holder t (release_agent a q r) a' =
     (if a' = a \<and> get_agent_reservation_holder t r a = Some q then None
      else get_agent_reservation_holder t r a')"
  by (auto simp: release_agent_def get_agent_reservation_holder_def split: option.splits)

interpretation redis_reservations:
  reservation_store get_agent_reservation_holder try_reserve_agent release_agent
  by unfold_locales
    (auto simp: holder_try_reserve holder_release,
     auto simp: get_agent_reservation_holder_def reservation_expired_at_def
       split: option.splits if_splits)

lemma reserved_iff_holder: "is_agent_reserved now r a \<longleftrightarrow> get_agent_reservation_holder now r a \<noteq> None"
  by (simp add: is_agent_reserved_def get_agent_reservation_holder_def split: option.splits)

lemma reserve_frame [simp]:
  "rd_device_states (snd (try_reserve_agent now a q ttl r)) = rd_device_states r"
  "rd_cell_devices (snd (try_reserve_agent now a q ttl r)) = rd_cell_devices r"
  "rd_fence_states (snd (try_reserve_agent now a q ttl r)) = rd_fence_states r"
  "rd_device_states (release_agent a q r) = rd_device_states r"
  "rd_cell_devices (release_agent a q r) = rd_cell_devices r"
  "rd_fence_states (release_agent a q r) = rd_fence_states r"
  by (auto simp: try_reserve_agent_def release_agent_def Let_def split: option.splits)

subsection \<open>The cell index\<close>

definition redis_ok :: "redis \<Rightarrow> bool" where
  "redis_ok r \<longleftrightarrow> um_ok (rd_device_states r) \<and> um_ok (rd_cell_devices r) \<and>
     um_ok (rd_fence_states r) \<and> um_ok (rd_reservations r) \<and>
     (\<forall>d s. get_device_state r d = Some s \<longrightarrow> ds_device_id s = d) \<and>
     (\<forall>c. map_of (rd_cell_devices r) c \<noteq> Some []) \<and>
     (\<forall>c. distinct (get_devices_in_cell r c)) \<and>
     (\<forall>k rec. map_of (rd_fence_states r) k = Some rec \<longrightarrow> k = fence_key (fs_device_id rec) (fs_fence_id rec))"

definition index_exact :: "redis \<Rightarrow> bool" where
  "index_exact r \<longleftrightarrow> (\<forall>c d. d \<in> set (get_devices_in_cell r c) \<longleftrightarrow>
     (\<exists>s. get_device_state r d = Some s \<and> ds_h3_cell s = c))"

definition members :: "(cell, string list) umap \<Rightarrow> cell \<Rightarrow> string list" where
  "members cells c = (case map_of cells c of None \<Rightarrow> [] | Some ds \<Rightarrow> ds)"

lemma get_devices_members: "get_devices_in_cell r c = members (rd_cell_devices r) c"
  by (simp add: get_devices_in_cell_def members_def)

lemma members_erase: "members (erase_from_cell c d cells) c' =
    (if c' = c then us_del d (members cells c) else members cells c')"
  by (auto simp: members_def erase_from_cell_def us_del_def split: option.splits)

lemma members_insert: "members (insert_into_cell c d cells) c' =
    (if c' = c then us_add d (members cells c) else members cells c')"
  by (simp add: members_def insert_into_cell_def)

definition cells_ok :: "(cell, string list) umap \<Rightarrow> bool" where
  "cells_ok cells \<longleftrightarrow> um_ok cells \<and> (\<forall>c. map_of cells c \<noteq> Some []) \<and> (\<forall>c. distinct (members cells c))"

lemma cells_ok_erase: "cells_ok cells \<Longrightarrow> cells_ok (erase_from_cell c d cells)"
proof -
  assume ok: "cells_ok cells"
  have "um_ok (erase_from_cell c d cells)"
    using ok by (auto simp: cells_ok_def erase_from_cell_def split: option.splits)
  moreover have "map_of (erase_from_cell c d cells) c' \<noteq> Some []" for c'
    using ok by (auto simp: cells_ok_def erase_from_cell_def split: option.splits)
  ultimately show ?thesis using ok by (simp add: cells_ok_def members_erase)
qed

lemma cells_ok_insert: "cells_ok cells \<Longrightarrow> cells_ok (insert_into_cell c d cells)"
proof -
  assume ok: "cells_ok cells"
  have "um_ok (insert_into_cell c d cells)" "\<forall>c'. map_of (insert_into_cell c d cells) c' \<noteq> Some []"
    using ok by (simp_all add: cells_ok_def insert_into_cell_def)
  then show ?thesis using ok by (simp add: cells_ok_def members_insert)
qed

lemma redis_ok_cells: "redis_ok r \<longleftrightarrow> um_ok (rd_device_states r) \<and> cells_ok (rd_cell_devices r) \<and>
     um_ok (rd_fence_states r) \<and> um_ok (rd_reservations r) \<and>
     (\<forall>d s. get_device_state r d = Some s \<longrightarrow> ds_device_id s = d) \<and>
     (\<forall>k rec. map_of (rd_fence_states r) k = Some rec \<longrightarrow> k = fence_key (fs_device_id rec) (fs_fence_id rec))"
  by (auto simp: redis_ok_def cells_ok_def get_devices_members)

lemma cas_cells: "update_device_state_cas d s t r = (True, r') \<Longrightarrow>
  rd_device_states r' = um_put d (s\<lparr>ds_device_id := d\<rparr>) (rd_device_states r) \<and>
  rd_cell_devices r' = insert_into_cell (ds_h3_cell s) d
    (case get_device_state r d of None \<Rightarrow> rd_cell_devices r
     | Some old \<Rightarrow> if ds_h3_cell old \<noteq> ds_h3_cell s then erase_from_cell (ds_h3_cell old) d (rd_cell_devices r)
         else rd_cell_devices r)"
  by (auto simp: update_device_state_cas_def get_device_state_def Let_def split: option.splits if_splits)

lemma cas_failed: "update_device_state_cas d s t r = (False, r') \<Longrightarrow> r' = r"
  by (auto simp: update_device_state_cas_def Let_def split: option.splits if_splits)

lemma cas_redis_ok: "redis_ok r \<Longrightarrow> redis_ok (snd (update_device_state_cas d s t r))"
proof (cases "update_device_state_cas d s t r")
  case (Pair b r')
  assume ok: "redis_ok r"
  show ?thesis
  proof (cases b)
    case False
    then show ?thesis using Pair cas_failed [of d s t r r'] ok by simp
  next
    case True
    with Pair have up: "update_device_state_cas d s t r = (True, r')" by simp
    have "cells_ok (rd_cell_devices r')"
      using cas_cells [OF up] ok by (auto simp: redis_ok_cells intro: cells_ok_insert cells_ok_erase split: option.splits)
    moreover have "rd_fence_states r' = rd_fence_states r" "rd_reservations r' = rd_reservations r"
      using cas_frame [of d s t r] Pair by simp_all
    ultimately show ?thesis using cas_cells [OF up] ok Pair
      by (auto simp: redis_ok_cells get_device_state_def)
  qed
qed

lemma cas_index_exact:
  assumes "index_exact r"
  shows "index_exact (snd (update_device_state_cas d s t r))"
proof (cases "update_device_state_cas d s t r")
  case (Pair b r')
  show ?thesis
  proof (cases b)
    case False
    then show ?thesis using Pair cas_failed [of d s t r r'] assms by simp
  next
    case True
    with Pair have up: "update_device_state_cas d s t r = (True, r')" by simp
    note c = cas_cells [OF up]
    have get: "get_device_state r' d' = (if d' = d then Some (s\<lparr>ds_device_id := d\<rparr>) else get_device_state r d')" for d'
      using c by (simp add: get_device_state_def)
    have mem: "d' \<in> set (get_devices_in_cell r' c') \<longleftrightarrow>
        (if d' = d then c' = ds_h3_cell s else d' \<in> set (get_devices_in_cell r c'))" for c' d'
    proof (cases "get_device_state r d")
      case None
      then have "d \<notin> set (get_devices_in_cell r c')" using assms by (auto simp: index_exact_def)
      with None c show ?thesis by (auto simp: get_devices_members members_insert)
    next
      case (Some old)
      have "d \<in> set (get_devices_in_cell r c') \<longleftrightarrow> c' = ds_h3_cell old"
        using assms Some by (auto simp: index_exact_def)
      with Some c show ?thesis by (auto simp: get_devices_members members_insert members_erase)
    qed
    show ?thesis using assms by (auto simp: index_exact_def mem get Pair)
  qed
qed

lemma new_redis_ok [simp]: "redis_ok new_redis" "index_exact new_redis"
  by (simp_all add: redis_ok_def index_exact_def new_redis_def get_device_state_def get_devices_in_cell_def)

lemma set_fence_redis_ok: "redis_ok r \<Longrightarrow> redis_ok (set_fence_state d f st ts r)"
  by (simp add: redis_ok_cells get_device_state_def set_fence_state_def Let_def)

lemma index_exact_fence [simp]: "index_exact (set_fence_state d f st ts r) = index_exact r"
  by (simp add: index_exact_def get_device_state_def get_devices_in_cell_def)

lemma set_get_devices_in_cells: "set (get_devices_in_cells r cells) = (\<Union>c \<in> set cells. set (get_devices_in_cell r c))"
proof -
  have add: "set (fold us_add ds acc) = set acc \<union> set ds" for ds acc :: "string list"
    by (induction ds arbitrary: acc) auto
  have "set (fold (\<lambda>c u. fold us_add (get_devices_in_cell r c) u) cells acc) =
      set acc \<union> (\<Union>c \<in> set cells. set (get_devices_in_cell r c))" for acc
    by (induction cells arbitrary: acc) (auto simp: add)
  then show ?thesis by (simp add: get_devices_in_cells_def)
qed

lemma distinct_get_devices_in_cells: "distinct (get_devices_in_cells r cells)"
proof -
  have add: "distinct acc \<Longrightarrow> distinct (fold us_add ds acc)" for ds acc :: "string list"
    by (induction ds arbitrary: acc) auto
  have "distinct acc \<Longrightarrow> distinct (fold (\<lambda>c u. fold us_add (get_devices_in_cell r c) u) cells acc)" for acc
    by (induction cells arbitrary: acc) (auto simp: add)
  then show ?thesis by (simp add: get_devices_in_cells_def)
qed

subsection \<open>The sweep\<close>

lemma sweep_cells_members:
  assumes "um_ok cells" "sweep_cells live cells = (n, m, cells')"
  shows "members cells' c = filter live (members cells c) \<and> um_ok cells' \<and>
    fst ` set cells' \<subseteq> fst ` set cells \<and> [] \<notin> snd ` set cells'"
  using assms
proof (induction cells arbitrary: n m cells')
  case (Cons p rest)
  obtain c0 ds where p: "p = (c0, ds)" by (cases p)
  obtain n1 m1 rest' where s: "sweep_cells live rest = (n1, m1, rest')" by (cases "sweep_cells live rest")
  have ok: "um_ok rest" "c0 \<notin> fst ` set rest" using Cons.prems(1) by (auto simp: um_ok_def p)
  note IH = Cons.IH [OF ok(1) s]
  then have "map_of rest' c0 = None" "map_of rest c0 = None"
    using ok(2) by (auto simp: map_of_eq_None_iff)
  moreover have "c0 \<notin> fst ` set rest'" using IH ok(2) by blast
  moreover have "(a, b) \<in> set rest' \<Longrightarrow> a \<in> fst ` set rest" for a b using IH by force
  ultimately show ?case using Cons.prems(2) IH ok(2) unfolding p
    by (auto simp: s Let_def members_def um_ok_def split: if_splits)
qed (simp add: members_def)

lemma sweep_cells_idle:
  assumes "\<forall>(c, ds) \<in> set cells. ds \<noteq> [] \<and> list_all live ds"
  shows "sweep_cells live cells = (0, 0, cells)"
  using assms by (induction cells) (auto simp: list_all_iff filter_id_conv)

subsection \<open>Properties of the store\<close>

lemma members_map: "um_ok cells \<Longrightarrow> (c, ds) \<in> set cells \<Longrightarrow> members cells c = ds"
  by (simp add: um_ok_in_set members_def)

text \<open>C14: Whatever updates arrive, in whatever order: the store stays well formed, and the cell
  index holds a device in exactly the cell of its latest state.\<close>

theorem updates_keep_index:
  "redis_ok (fold (\<lambda>(d, s, t) r. snd (update_device_state_cas d s t r)) us new_redis) \<and>
   index_exact (fold (\<lambda>(d, s, t) r. snd (update_device_state_cas d s t r)) us new_redis)"
  by (rule fold_invariant_list [of "\<lambda>r. redis_ok r \<and> index_exact r"])
    (auto intro: cas_redis_ok cas_index_exact)

text \<open>C15: The state of a device does not depend on the order in which its updates arrive, as long
  as no two different updates of it carry the same sequence number.\<close>

theorem updates_converge:
  assumes "set us = set us'"
    and "\<And>s t s' t'. (d, s, t) \<in> set us \<Longrightarrow> (d, s', t') \<in> set us \<Longrightarrow> ds_seq s = ds_seq s' \<Longrightarrow> s = s'"
  shows "get_device_state (fold (\<lambda>(d, s, t) r. snd (update_device_state_cas d s t r)) us new_redis) d =
    get_device_state (fold (\<lambda>(d, s, t) r. snd (update_device_state_cas d s t r)) us' new_redis) d"
  by (rule redis_store.order_irrelevant [OF assms(1) _ assms(2)])
    (simp_all add: get_device_state_def new_redis_def)

definition sample_state :: "u64 \<Rightarrow> cell \<Rightarrow> device_state" where
  "sample_state n c = device_state_default\<lparr>ds_seq := n, ds_h3_cell := c\<rparr>"

theorem updates_converge_witness:
  "get_device_state (fold (\<lambda>(d, s, t) r. snd (update_device_state_cas d s t r))
      [(''a'', sample_state 1 5, 60), (''a'', sample_state 2 6, 60)] new_redis) ''a'' =
   get_device_state (fold (\<lambda>(d, s, t) r. snd (update_device_state_cas d s t r))
      [(''a'', sample_state 2 6, 60), (''a'', sample_state 1 5, 60)] new_redis) ''a''"
  by (rule updates_converge) (auto simp: sample_state_def)

text \<open>C16: After an agent is reserved, and until the reservation expires or its holder releases it,
  every further attempt to reserve the agent fails, whoever makes it and whatever else
  happens in between.\<close>

theorem reservation_exclusive:
  assumes "try_reserve_agent now a q ttl r = (True, r1)"
    and "\<forall>p \<in> set ps. op_time p < now + ttl" and "\<forall>t. Release t a q \<notin> set ps"
    and "(Reserve t a q' ttl', ok) \<in> set (fst (res_run try_reserve_agent release_agent ps r1))"
  shows "\<not> ok"
proof -
  have "get_agent_reservation_holder (now + ttl - 1) r1 a = Some q"
    using holder_try_reserve(2) [of now a q ttl r "now + ttl - 1"] assms(1) by simp
  moreover have "\<forall>p \<in> set ps. op_time p \<le> now + ttl - 1" using assms(2) by fastforce
  ultimately show ?thesis using redis_reservations.exclusive assms(3,4) by blast
qed

theorem reservation_exclusive_witness:
  "\<not> False \<and> (Reserve 40 ''a'' ''q2'' 100, False) \<in>
     set (fst (res_run try_reserve_agent release_agent [Release 30 ''a'' ''q2'', Reserve 40 ''a'' ''q2'' 100]
       (snd (try_reserve_agent 0 ''a'' ''q1'' 50 new_redis))))"
proof -
  let ?ps = "[Release 30 ''a'' ''q2'', Reserve 40 ''a'' ''q2'' 100]"
  have 1: "try_reserve_agent 0 ''a'' ''q1'' 50 new_redis =
      (True, snd (try_reserve_agent 0 ''a'' ''q1'' 50 new_redis))"
    by (simp add: try_reserve_agent_def new_redis_def)
  have mem: "(Reserve 40 ''a'' ''q2'' 100, False) \<in> set (fst (res_run try_reserve_agent release_agent ?ps
       (snd (try_reserve_agent 0 ''a'' ''q1'' 50 new_redis))))"
    by (simp add: try_reserve_agent_def new_redis_def release_agent_def Let_def um_put_def
        reservation_expired_at_def)
  show ?thesis using reservation_exclusive [OF 1 _ _ mem] mem by simp
qed

text \<open>After a sweep every member of every cell has a state; members that had one are kept, and
  with an exact index the sweep finds nothing to remove.\<close>

lemma sweep_removes_stale:
  assumes "redis_ok r" "remove_stale_cell_members r = ((removed, touched), r')"
  shows "(\<forall>c. set (get_devices_in_cell r' c) =
      {d \<in> set (get_devices_in_cell r c). get_device_state r d \<noteq> None}) \<and>
    (index_exact r \<longrightarrow> removed = 0 \<and> touched = 0 \<and> r' = r)"
proof
  let ?live = "\<lambda>d. map_of (rd_device_states r) d \<noteq> None"
  obtain cells where s: "sweep_cells ?live (rd_cell_devices r) = (removed, touched, cells)"
    and r': "r' = r\<lparr>rd_cell_devices := cells\<rparr>"
    using assms(2) by (auto simp: remove_stale_cell_members_def split: prod.splits)
  have ok: "um_ok (rd_cell_devices r)" "\<forall>c. map_of (rd_cell_devices r) c \<noteq> Some []"
    using assms(1) by (simp_all add: redis_ok_def)
  show "\<forall>c. set (get_devices_in_cell r' c) =
      {d \<in> set (get_devices_in_cell r c). get_device_state r d \<noteq> None}"
    using sweep_cells_members [OF ok(1) s] by (auto simp: get_devices_members r' get_device_state_def)
  show "index_exact r \<longrightarrow> removed = 0 \<and> touched = 0 \<and> r' = r"
  proof
    assume ex: "index_exact r"
    have "\<forall>(c, ds) \<in> set (rd_cell_devices r). ds \<noteq> [] \<and> list_all ?live ds"
    proof clarify
      fix c ds assume m: "(c, ds) \<in> set (rd_cell_devices r)"
      then have "map_of (rd_cell_devices r) c = Some ds" using ok(1) by (simp add: um_ok_in_set)
      then have ne: "ds \<noteq> []" using ok(2) by auto
      have "d \<in> set ds \<Longrightarrow> get_device_state r d \<noteq> None" for d
        using ex members_map [OF ok(1) m] by (auto simp: index_exact_def get_devices_members)
      then show "ds \<noteq> [] \<and> list_all ?live ds" using ne by (simp add: list_all_iff get_device_state_def)
    qed
    from sweep_cells_idle [OF this] s show "removed = 0 \<and> touched = 0 \<and> r' = r" by (simp add: r')
  qed
qed

end
