(* ===== verification/Kafka.thy ===== *)
theory Kafka
  imports Text Config
begin

text \<open>
  \<open>common/kafka/\<close>: the in-memory broker of builds without \<open>SIGNALROUTE_HAS_KAFKA\<close>
  (\<open>kafka_fallback\<close>), the producer over it, and the consumer with its offsets. The broker
  is the process-wide \<open>broker_topics()\<close> map, passed as a state. Sleeping in \<open>poll\<close> and the
  delivery callback (called synchronously with success) leave no trace in the state.
\<close>

subsection \<open>The broker log\<close>

record kafka_message =
  km_topic :: string
  km_partition :: int
  km_offset :: int
  km_key :: string
  km_payload :: string
  km_timestamp_ms :: int

type_synonym broker = "(string, kafka_message list) umap"

definition topic_log :: "broker \<Rightarrow> string \<Rightarrow> kafka_message list" where
  "topic_log b t = (case map_of b t of None \<Rightarrow> [] | Some ms \<Rightarrow> ms)"

definition append_message :: "string \<Rightarrow> string \<Rightarrow> string \<Rightarrow> broker \<Rightarrow> int \<times> broker" where
  "append_message topic key payload b =
     (let messages = topic_log b topic; offset = int (length messages) in
      (offset, um_put topic (messages @ [\<lparr>km_topic = topic, km_partition = 0, km_offset = offset,
         km_key = key, km_payload = payload, km_timestamp_ms = 0\<rparr>]) b))"

definition read_message :: "string \<Rightarrow> int \<Rightarrow> broker \<Rightarrow> kafka_message option" where
  "read_message topic offset b = (case map_of b topic of None \<Rightarrow> None
     | Some ms \<Rightarrow> if offset < 0 \<or> offset \<ge> int (length ms) then None else Some (ms ! nat offset))"

definition topic_size :: "string \<Rightarrow> broker \<Rightarrow> int" where
  "topic_size topic b = int (length (topic_log b topic))"

definition produce :: "string \<Rightarrow> string \<Rightarrow> string \<Rightarrow> broker \<Rightarrow> broker exc" where
  "produce topic key payload b =
     (if topic = [] then Inl ''Kafka topic must not be empty''
      else Inr (snd (append_message topic key payload b)))"

subsection \<open>The consumer\<close>

record consumer =
  co_topics :: "string list"
  co_next_offsets :: "(string, int) umap"
  co_committed_offsets :: "(string, int) umap"
  co_last_polled :: "kafka_message option"

definition partition_key :: "string \<Rightarrow> int \<Rightarrow> string" where
  "partition_key topic p = topic @ CHR ''#'' # show_int p"

definition new_consumer :: "string list \<Rightarrow> consumer" where
  "new_consumer topics = fold (\<lambda>t c. c\<lparr>
       co_next_offsets := um_put t 0 (co_next_offsets c),
       co_committed_offsets := um_put (partition_key t 0) 0 (co_committed_offsets c)\<rparr>) topics
     \<lparr>co_topics = topics, co_next_offsets = [], co_committed_offsets = [], co_last_polled = None\<rparr>"

definition offset_of :: "(string, int) umap \<Rightarrow> string \<Rightarrow> int" where
  "offset_of m k = (case map_of m k of None \<Rightarrow> 0 | Some n \<Rightarrow> n)"

text \<open>\<open>poll\<close> visits the topics in order; \<open>next_offsets_[topic]\<close> inserts 0 for an unknown topic.\<close>

fun poll_topics :: "string list \<Rightarrow> broker \<Rightarrow> consumer \<Rightarrow> kafka_message option \<times> consumer" where
  "poll_topics [] b c = (None, c)"
| "poll_topics (t # ts) b c =
     (let next = offset_of (co_next_offsets c) t in
      case read_message t next b of
        Some m \<Rightarrow> (Some m, c\<lparr>co_next_offsets := um_put t (next + 1) (co_next_offsets c),
                             co_last_polled := Some m\<rparr>)
      | None \<Rightarrow> poll_topics ts b (c\<lparr>co_next_offsets := um_put t next (co_next_offsets c)\<rparr>))"

definition poll :: "broker \<Rightarrow> consumer \<Rightarrow> kafka_message option \<times> consumer" where
  "poll b c = poll_topics (co_topics c) b c"

definition commit_message :: "kafka_message \<Rightarrow> consumer \<Rightarrow> consumer" where
  "commit_message m c = (let k = partition_key (km_topic m) (km_partition m) in
     c\<lparr>co_committed_offsets :=
         um_put k (max (offset_of (co_committed_offsets c) k) (km_offset m + 1))
           (co_committed_offsets c)\<rparr>)"

definition commit_last :: "consumer \<Rightarrow> consumer" where
  "commit_last c = (case co_last_polled c of None \<Rightarrow> c | Some m \<Rightarrow> commit_message m c)"

definition get_lag :: "broker \<Rightarrow> consumer \<Rightarrow> (int \<times> int) list" where
  "get_lag b c = map (\<lambda>t. (0, max 0 (topic_size t b
       - offset_of (co_committed_offsets c) (partition_key t 0)))) (co_topics c)"

text \<open>\<open>poll_loop\<close> for a given number of iterations (the stop flag is set from outside).\<close>

fun poll_loop :: "nat \<Rightarrow> (kafka_message \<Rightarrow> 's \<Rightarrow> bool \<times> 's) \<Rightarrow> broker \<Rightarrow> consumer \<times> 's \<Rightarrow> consumer \<times> 's" where
  "poll_loop 0 h b cs = cs"
| "poll_loop (Suc n) h b (c, s) = (case poll b c of
     (None, c') \<Rightarrow> poll_loop n h b (c', s)
   | (Some m, c') \<Rightarrow> (let (ok, s') = h m s in
       poll_loop n h b (if ok then commit_message m c' else c', s')))"

subsection \<open>The log as an interface\<close>

text \<open>
  What a consumer may rely on: appending puts the message at the offset it returns, which
  was the size of the topic, and changes nothing that was readable before.
\<close>

locale message_log =
  fixes append :: "string \<Rightarrow> string \<Rightarrow> string \<Rightarrow> 'b \<Rightarrow> int \<times> 'b"
    and lookup :: "string \<Rightarrow> int \<Rightarrow> 'b \<Rightarrow> kafka_message option"
    and size_of :: "string \<Rightarrow> 'b \<Rightarrow> int"
  assumes append_offset: "append t k p b = (off, b') \<Longrightarrow> off = size_of t b"
    and append_size: "append t k p b = (off, b') \<Longrightarrow>
          size_of t' b' = size_of t' b + (if t' = t then 1 else 0)"
    and append_lookup: "append t k p b = (off, b') \<Longrightarrow>
          lookup t off b' = Some \<lparr>km_topic = t, km_partition = 0, km_offset = off,
             km_key = k, km_payload = p, km_timestamp_ms = 0\<rparr>"
    and append_keeps: "append t k p b = (off, b') \<Longrightarrow> lookup t' i b = Some m \<Longrightarrow>
          lookup t' i b' = Some m"
    and lookup_range: "lookup t i b \<noteq> None \<longleftrightarrow> 0 \<le> i \<and> i < size_of t b"
begin

text \<open>Appending a sequence of messages: everything readable stays readable.\<close>

fun append_all :: "(string \<times> string \<times> string) list \<Rightarrow> 'b \<Rightarrow> 'b" where
  "append_all [] b = b"
| "append_all ((t, k, p) # ms) b = append_all ms (snd (append t k p b))"

lemma append_all_keeps: "lookup t i b = Some m \<Longrightarrow> lookup t i (append_all ms b) = Some m"
proof (induction ms arbitrary: b)
  case (Cons x ms)
  obtain t' k p where x: "x = (t', k, p)" by (cases x)
  obtain off b' where ap: "append t' k p b = (off, b')" by fastforce
  from append_keeps [OF ap Cons.prems] have "lookup t i b' = Some m" .
  with Cons.IH show ?case by (simp add: x ap)
qed simp

lemma append_all_size:
  "size_of t (append_all ms b) = size_of t b + int (length (filter (\<lambda>m. fst m = t) ms))"
proof (induction ms arbitrary: b)
  case (Cons x ms)
  obtain t' k p where x: "x = (t', k, p)" by (cases x)
  obtain off b' where ap: "append t' k p b = (off, b')" by fastforce
  show ?case using append_size [OF ap, of t] Cons.IH [of b'] by (simp add: x ap)
qed simp

end

lemma topic_log_put [simp]: "topic_log (um_put t ms b) t' = (if t' = t then ms else topic_log b t')"
  by (simp add: topic_log_def)

lemma read_message_log: "read_message t i b =
  (if 0 \<le> i \<and> i < int (length (topic_log b t)) then Some (topic_log b t ! nat i) else None)"
  by (auto simp: read_message_def topic_log_def split: option.splits)

interpretation broker_log: message_log append_message read_message topic_size
proof
  fix t k p t' :: string and b b' :: broker and off i m
  assume ap: "append_message t k p b = (off, b')"
  show "off = topic_size t b"
    using ap by (auto simp: append_message_def topic_size_def Let_def)
  show "topic_size t' b' = topic_size t' b + (if t' = t then 1 else 0)"
    using ap by (auto simp: append_message_def topic_size_def Let_def)
  show "read_message t off b' = Some \<lparr>km_topic = t, km_partition = 0, km_offset = off,
             km_key = k, km_payload = p, km_timestamp_ms = 0\<rparr>"
    using ap by (auto simp: append_message_def read_message_log Let_def nth_append)
  show "read_message t' i b = Some m \<Longrightarrow> read_message t' i b' = Some m"
    using ap by (auto simp: append_message_def read_message_log Let_def nth_append split: if_splits)
next
  fix t :: string and i and b :: broker
  show "read_message t i b \<noteq> None \<longleftrightarrow> 0 \<le> i \<and> i < topic_size t b"
    by (auto simp: read_message_log topic_size_def)
qed

text \<open>Every message in a well-formed log carries its topic, partition 0 and its position.\<close>

definition broker_ok :: "broker \<Rightarrow> bool" where
  "broker_ok b = (\<forall>t i. i < length (topic_log b t) \<longrightarrow>
     km_topic (topic_log b t ! i) = t \<and> km_partition (topic_log b t ! i) = 0 \<and>
     km_offset (topic_log b t ! i) = int i)"

lemma broker_ok_Nil [simp]: "broker_ok []"
  by (simp add: broker_ok_def topic_log_def)

lemma broker_ok_append:
  "broker_ok b \<Longrightarrow> broker_ok (snd (append_message t k p b))"
  unfolding broker_ok_def
  by (auto simp: append_message_def Let_def nth_append less_Suc_eq)

lemma broker_ok_produce: "broker_ok b \<Longrightarrow> produce t k p b = Inr b' \<Longrightarrow> broker_ok b'"
  using broker_ok_append [of b t k p] by (auto simp: produce_def split: if_splits)

lemma produce_Inr_iff: "produce t k p b = Inr b' \<longleftrightarrow> t \<noteq> [] \<and> b' = snd (append_message t k p b)"
  by (auto simp: produce_def)

lemma topic_log_produce: "produce t k p b = Inr b' \<Longrightarrow> topic_log b' t' =
  (if t' = t then topic_log b t @ [\<lparr>km_topic = t, km_partition = 0,
     km_offset = int (length (topic_log b t)), km_key = k, km_payload = p, km_timestamp_ms = 0\<rparr>]
   else topic_log b t')"
  by (auto simp: produce_Inr_iff append_message_def Let_def)

subsection \<open>Polling\<close>

text \<open>A consumer of one topic reads the log from its next offset on, in order.\<close>

fun poll_n :: "nat \<Rightarrow> broker \<Rightarrow> consumer \<Rightarrow> kafka_message list \<times> consumer" where
  "poll_n 0 b c = ([], c)"
| "poll_n (Suc n) b c = (case poll b c of (None, c') \<Rightarrow> poll_n n b c'
     | (Some m, c') \<Rightarrow> (let (ms, c'') = poll_n n b c' in (m # ms, c'')))"

lemma poll_single:
  assumes "co_topics c = [t]" "offset_of (co_next_offsets c) t = int k"
  shows "poll b c =
    (if k < length (topic_log b t)
     then (Some (topic_log b t ! k), c\<lparr>co_next_offsets := um_put t (int k + 1) (co_next_offsets c),
             co_last_polled := Some (topic_log b t ! k)\<rparr>)
     else (None, c\<lparr>co_next_offsets := um_put t (int k) (co_next_offsets c)\<rparr>))"
  using assms by (simp add: poll_def read_message_log)

lemma offset_of_put [simp]: "offset_of (um_put k v m) k' = (if k' = k then v else offset_of m k')"
  by (simp add: offset_of_def)

lemma poll_n_single:
  assumes "co_topics c = [t]" "offset_of (co_next_offsets c) t = int k"
  shows "fst (poll_n n b c) = take n (drop k (topic_log b t)) \<and>
         co_topics (snd (poll_n n b c)) = [t] \<and>
         offset_of (co_next_offsets (snd (poll_n n b c))) t =
           int (max k (min (k + n) (length (topic_log b t))))"
  using assms
proof (induction n arbitrary: c k)
  case 0
  then show ?case by simp
next
  case (Suc n)
  let ?log = "topic_log b t"
  show ?case
  proof (cases "k < length ?log")
    case True
    define c' where "c' = c\<lparr>co_next_offsets := um_put t (int k + 1) (co_next_offsets c),
      co_last_polled := Some (?log ! k)\<rparr>"
    have p: "poll b c = (Some (?log ! k), c')"
      using True poll_single [OF Suc.prems, of b] by (simp add: c'_def)
    have "co_topics c' = [t]" "offset_of (co_next_offsets c') t = int (Suc k)"
      using Suc.prems by (simp_all add: c'_def)
    from Suc.IH [OF this] True show ?thesis
      by (simp add: p case_prod_beta Let_def Cons_nth_drop_Suc [symmetric])
  next
    case False
    define c' where "c' = c\<lparr>co_next_offsets := um_put t (int k) (co_next_offsets c)\<rparr>"
    have p: "poll b c = (None, c')"
      using False poll_single [OF Suc.prems, of b] by (simp add: c'_def)
    have "co_topics c' = [t]" "offset_of (co_next_offsets c') t = int k"
      using Suc.prems by (simp_all add: c'_def)
    from Suc.IH [OF this] False show ?thesis by (simp add: p)
  qed
qed

lemma offset_of_new_consumer: "offset_of (co_next_offsets (new_consumer [t])) t = int 0"
  "co_topics (new_consumer [t]) = [t]"
  by (simp_all add: new_consumer_def)

subsection \<open>Commits\<close>

lemma commit_monotone:
  "offset_of (co_committed_offsets c) k \<le> offset_of (co_committed_offsets (commit_message m c)) k"
  by (simp add: commit_message_def Let_def)

lemma commit_frame [simp]:
  "co_topics (commit_message m c) = co_topics c"
  "co_next_offsets (commit_message m c) = co_next_offsets c"
  "co_last_polled (commit_message m c) = co_last_polled c"
  by (simp_all add: commit_message_def Let_def)

end
