(* ===== verification/Codec.thy ===== *)
theory Codec
  imports Text Domain
begin

text \<open>
  The payload codecs of \<open>common/proto/\<close>: \<open>location_payload_codec\<close>,
  \<open>geofence_payload_codec\<close> and \<open>matching_payload_codec\<close>, in the configuration without
  protobuf, where every payload is a line of comma separated fields. An exception of a
  number conversion is caught by each decoder and becomes its generic error; the order of
  the conversions and of the checks after them is that of the code.

  The round trips below say which fields survive: identifiers and integers exactly,
  coordinates to six significant digits, and the fields a payload does not carry not at all.
\<close>

type_synonym 'a decoded = "('a, string) result"

text \<open>The value of a conversion whose unread rest the code ignores.\<close>

definition value_of :: "('a \<times> string) exc \<Rightarrow> 'a exc" where
  "value_of r = (case r of Inl e \<Rightarrow> Inl e | Inr (v, _) \<Rightarrow> Inr v)"

text \<open>The body of a \<open>try\<close> block whose handler returns one fixed error.\<close>

definition try_decode :: "string \<Rightarrow> ('a decoded) exc \<Rightarrow> 'a decoded" where
  "try_decode msg body = (case body of Inl _ \<Rightarrow> Inl msg | Inr r \<Rightarrow> r)"

lemma value_of_Inr [simp, result_simps]: "value_of (Inr (v, r)) = Inr v"
  by (simp add: value_of_def)

lemma try_decode_simps [simp, result_simps]: "try_decode m (Inl e) = Inl m" "try_decode m (Inr r) = r"
  by (simp_all add: try_decode_def)

subsection \<open>Location events\<close>

definition encode_location_payload :: "location_event \<Rightarrow> string" where
  "encode_location_payload e = join_on CHR '',''
     [le_device_id e, show_nat (unat (le_seq e)), show_int (le_timestamp_ms e),
      show_int (le_server_recv_ms e), show_double (le_lat e), show_double (le_lon e)]"

definition decode_location_payload :: "string \<Rightarrow> location_event decoded" where
  "decode_location_payload payload =
     (let fields = getline_fields CHR '','' payload in
      if length fields \<noteq> 6 then Inl ''invalid location payload''
      else try_decode ''invalid location payload''
        (bind_exc (value_of (sto_ull (fields ! 1))) (\<lambda>seq.
         bind_exc (value_of (sto_ll (fields ! 2))) (\<lambda>ts.
         bind_exc (value_of (sto_ll (fields ! 3))) (\<lambda>recv.
         bind_exc (value_of (sto_d (fields ! 4))) (\<lambda>lat.
         bind_exc (value_of (sto_d (fields ! 5))) (\<lambda>lon.
           if fields ! 0 = [] then Inr (Inl ''device_id is required'')
           else Inr (Inr (location_event_default\<lparr>le_device_id := fields ! 0, le_seq := seq,
                  le_timestamp_ms := ts, le_server_recv_ms := recv,
                  le_lat := lat, le_lon := lon\<rparr>)))))))))"

subsection \<open>Geofence events\<close>

definition encode_geofence_event_payload :: "geofence_event_record \<Rightarrow> string" where
  "encode_geofence_event_payload e = join_on CHR '',''
     ([ge_device_id e, ge_fence_id e, geofence_event_type_to_string (ge_event_type e),
       show_int (ge_event_ts_ms e)] @
      (if ge_event_type e = Ev_DWELL then [show_int (ge_inside_duration_s e)]
       else [show_double (ge_lat e), show_double (ge_lon e)]))"

definition decode_geofence_event_payload :: "string \<Rightarrow> geofence_event_record decoded" where
  "decode_geofence_event_payload payload =
     (let fields = getline_fields CHR '','' payload in
      if length fields \<noteq> 5 \<and> length fields \<noteq> 6 then Inl ''invalid geofence event payload''
      else try_decode ''invalid geofence event payload''
        (bind_exc (value_of (sto_ll (fields ! 3))) (\<lambda>ts.
         let e = (geofence_event_default (geofence_event_type_from_string (fields ! 2)))
                   \<lparr>ge_device_id := fields ! 0, ge_fence_id := fields ! 1, ge_event_ts_ms := ts\<rparr> in
         bind_exc
           (if length fields = 5
            then bind_exc (value_of (sto_i (fields ! 4))) (\<lambda>d. Inr (e\<lparr>ge_inside_duration_s := d\<rparr>))
            else bind_exc (value_of (sto_d (fields ! 4))) (\<lambda>lat.
                 bind_exc (value_of (sto_d (fields ! 5))) (\<lambda>lon.
                   Inr (e\<lparr>ge_lat := lat, ge_lon := lon\<rparr>))))
           (\<lambda>e. if ge_device_id e = [] \<or> ge_fence_id e = []
                then Inr (Inl ''geofence event identifiers are required'')
                else Inr (Inr e)))))"

subsection \<open>Match requests and results\<close>

text \<open>This codec's \<open>split_csv\<close> puts a last empty field back.\<close>

definition split_csv :: "char \<Rightarrow> string \<Rightarrow> string list" where
  "split_csv delimiter payload = getline_fields delimiter payload @
     (if payload \<noteq> [] \<and> last payload = delimiter then [[]] else [])"

definition join_ids :: "string list \<Rightarrow> string" where
  "join_ids ids = join_on CHR '';'' ids"

fun match_status_to_string :: "match_status \<Rightarrow> string" where
  "match_status_to_string MATCHED = ''MATCHED''"
| "match_status_to_string EXPIRED = ''EXPIRED''"
| "match_status_to_string FAILED = ''FAILED''"

definition match_status_from_string :: "string \<Rightarrow> match_status" where
  "match_status_from_string s =
     (if s = ''MATCHED'' then MATCHED else if s = ''EXPIRED'' then EXPIRED else FAILED)"

definition encode_match_request_payload :: "match_request \<Rightarrow> string" where
  "encode_match_request_payload r = join_on CHR '',''
     [mr_request_id r, mr_requester_id r, show_double (mr_lat r), show_double (mr_lon r),
      show_double (mr_radius_m r), show_int (mr_max_agents r), show_int (mr_deadline_ms r),
      mr_strategy r]"

definition decode_match_request_payload :: "string \<Rightarrow> match_request decoded" where
  "decode_match_request_payload payload =
     (let fields = split_csv CHR '','' payload in
      if length fields \<noteq> 8 then Inl ''invalid match request payload''
      else try_decode ''invalid match request payload''
        (bind_exc (value_of (sto_d (fields ! 2))) (\<lambda>lat.
         bind_exc (value_of (sto_d (fields ! 3))) (\<lambda>lon.
         bind_exc (value_of (sto_d (fields ! 4))) (\<lambda>radius.
         bind_exc (value_of (sto_i (fields ! 5))) (\<lambda>agents.
         bind_exc (value_of (sto_ll (fields ! 6))) (\<lambda>deadline.
           if fields ! 0 = [] then Inr (Inl ''request_id is required'')
           else Inr (Inr (match_request_default\<lparr>mr_request_id := fields ! 0,
                  mr_requester_id := fields ! 1, mr_lat := lat, mr_lon := lon,
                  mr_radius_m := radius, mr_max_agents := agents, mr_deadline_ms := deadline,
                  mr_strategy := fields ! 7\<rparr>)))))))))"

definition encode_match_result_payload :: "match_result \<Rightarrow> string" where
  "encode_match_result_payload r = join_on CHR '',''
     [mres_request_id r, match_status_to_string (mres_status r), show_int (mres_latency_ms r),
      mres_reason r, join_ids (mres_assigned_agent_ids r)]"

definition decode_match_result_payload :: "string \<Rightarrow> match_result decoded" where
  "decode_match_result_payload payload =
     (let fields = split_csv CHR '','' payload in
      if length fields \<noteq> 5 then Inl ''invalid match result payload''
      else try_decode ''invalid match result payload''
        (bind_exc (value_of (sto_ll (fields ! 2))) (\<lambda>latency.
           if fields ! 0 = [] then Inr (Inl ''request_id is required'')
           else Inr (Inr (match_result_default\<lparr>mres_request_id := fields ! 0,
                  mres_status := match_status_from_string (fields ! 1),
                  mres_latency_ms := latency, mres_reason := fields ! 3,
                  mres_assigned_agent_ids :=
                    (if fields ! 4 \<noteq> [] then split_csv CHR '';'' (fields ! 4) else [])\<rparr>)))))"

subsection \<open>Round trips\<close>

text \<open>Coordinates the decimal form carries, and how close the value read back is.\<close>

definition printable :: "double \<Rightarrow> bool" where
  "printable d = (\<exists>x. d = Fin x \<and> (x = 0 \<or> 1 / 10000 \<le> \<bar>x\<bar> \<and> \<bar>x\<bar> < 999999))"

definition six_digits_of :: "double \<Rightarrow> double \<Rightarrow> bool" where
  "six_digits_of d d' = (\<exists>x v. d = Fin x \<and> d' = fl v \<and> \<bar>v - x\<bar> \<le> \<bar>x\<bar> / 200000)"

definition csv_field :: "string \<Rightarrow> bool" where
  "csv_field s = (CHR '','' \<notin> set s)"

lemma csv_numbers [simp]: "csv_field (show_nat n)" "csv_field (show_int i)"
  using show_nat_digits [of n] set_show_int [of i]
  by (auto simp: csv_field_def is_digit_def code_of_def)

lemma printable_field:
  assumes "printable d"
  obtains d' where "value_of (sto_d (show_double d)) = Inr d'" "six_digits_of d d'"
    "csv_field (show_double d)" "show_double d \<noteq> []"
proof -
  obtain x where d: "d = Fin x" and x: "x = 0 \<or> 1 / 10000 \<le> \<bar>x\<bar> \<and> \<bar>x\<bar> < 999999"
    using assms by (auto simp: printable_def)
  obtain v where v: "sto_d (show_double (Fin x)) = Inr (fl v, [])" "\<bar>v - x\<bar> \<le> \<bar>x\<bar> / 200000"
    "set (show_double (Fin x)) \<subseteq> {c. is_digit c} \<union> {CHR ''.'', CHR ''-''}"
    using show_double_reads_back [OF x] by blast
  have "csv_field (show_double d)" using v(3) d
    by (auto simp: csv_field_def is_digit_def code_of_def)
  moreover have "show_double d \<noteq> []"
    using v(1) d by (auto simp: sto_d_def read_sign_def skip_space_def read_number_def prefix_ci_def
        read_mantissa_def)
  ultimately show ?thesis using that [of "fl v"] v d by (auto simp: six_digits_of_def)
qed

lemma split_csv_join:
  assumes "fs \<noteq> []" "\<forall>f \<in> set fs. d \<notin> set f" "fs \<noteq> [[]]"
  shows "split_csv d (join_on d fs) = fs"
proof -
  have ne: "join_on d fs \<noteq> []" using assms(1,3) by (cases "(d, fs)" rule: join_on.cases) auto
  have "last (join_on d fs) = d \<longleftrightarrow> last fs = []"
    using assms(1,2,3)
  proof (induction d fs rule: join_on.induct)
    case (2 d f)
    then show ?case using last_in_set [of f] by auto
  next
    case (3 d f g fs)
    then show ?case by (cases "(d, g # fs)" rule: join_on.cases) auto
  qed simp
  moreover have "butlast fs @ [[]] = fs" if "last fs = []"
    using append_butlast_last_id [OF assms(1)] that by simp
  ultimately show ?thesis
    using ne assms(1,2) by (simp add: split_csv_def getline_fields_def split_on_join)
qed

text \<open>
  A decoded location keeps the identifier, the sequence number and both timestamps of the
  encoded one and reads its coordinates to six digits; everything else is the initial value.
\<close>

lemma decode_encode_location:
  assumes "le_device_id e \<noteq> []" "csv_field (le_device_id e)"
    and "- (2 ^ 63) \<le> le_timestamp_ms e" "le_timestamp_ms e < 2 ^ 63"
    and "- (2 ^ 63) \<le> le_server_recv_ms e" "le_server_recv_ms e < 2 ^ 63"
    and "printable (le_lat e)" "printable (le_lon e)"
  obtains lat lon where "six_digits_of (le_lat e) lat" "six_digits_of (le_lon e) lon"
    "decode_location_payload (encode_location_payload e) =
       Inr (location_event_default\<lparr>le_device_id := le_device_id e, le_seq := le_seq e,
              le_timestamp_ms := le_timestamp_ms e, le_server_recv_ms := le_server_recv_ms e,
              le_lat := lat, le_lon := lon\<rparr>)"
proof -
  obtain lat where lat: "value_of (sto_d (show_double (le_lat e))) = Inr lat"
    "six_digits_of (le_lat e) lat" "csv_field (show_double (le_lat e))"
    using printable_field [OF assms(7)] by blast
  obtain lon where lon: "value_of (sto_d (show_double (le_lon e))) = Inr lon"
    "six_digits_of (le_lon e) lon" "csv_field (show_double (le_lon e))" "show_double (le_lon e) \<noteq> []"
    using printable_field [OF assms(8)] by blast
  have fields: "getline_fields CHR '','' (encode_location_payload e) =
     [le_device_id e, show_nat (unat (le_seq e)), show_int (le_timestamp_ms e),
      show_int (le_server_recv_ms e), show_double (le_lat e), show_double (le_lon e)]"
    unfolding encode_location_payload_def
    using assms(2) lat(3) lon(3,4) csv_numbers [unfolded csv_field_def]
    by (intro getline_join) (simp_all add: csv_field_def)
  show ?thesis
    using that [OF lat(2) lon(2)] assms(1)
    by (simp add: decode_location_payload_def fields lat(1) lon(1) sto_ull_show_nat
        sto_ll_show_int [OF assms(3,4)] sto_ll_show_int [OF assms(5,6)])
qed

lemma decode_location_ok:
  assumes "decode_location_payload p = Inr e"
  shows "le_device_id e \<noteq> [] \<and> csv_field (le_device_id e) \<and> le_metadata e = []"
proof -
  let ?fs = "getline_fields CHR '','' p"
  have in_split: "f \<in> set (split_on d s) \<Longrightarrow> d \<notin> set f" for f d s
    by (induction s arbitrary: f) (auto split: if_splits list.splits)
  have len: "length ?fs = 6" and id: "le_device_id e = ?fs ! 0" "?fs ! 0 \<noteq> []" "le_metadata e = []"
    using assms by (auto simp: decode_location_payload_def Let_def try_decode_def result_simps
        location_event_default_def split: if_splits sum.splits)
  have "?fs ! 0 \<in> set ?fs" using len by simp
  then have "?fs ! 0 \<in> set (split_on CHR '','' p)"
    by (auto simp: getline_fields_def Let_def dest: in_set_butlastD split: if_splits)
  with id in_split show ?thesis by (auto simp: csv_field_def)
qed

lemma decode_encode_dwell:
  assumes "ge_event_type e = Ev_DWELL"
    and "ge_device_id e \<noteq> []" "csv_field (ge_device_id e)" "ge_fence_id e \<noteq> []" "csv_field (ge_fence_id e)"
    and "- (2 ^ 63) \<le> ge_event_ts_ms e" "ge_event_ts_ms e < 2 ^ 63"
    and "- (2 ^ 31) \<le> ge_inside_duration_s e" "ge_inside_duration_s e < 2 ^ 31"
  shows "decode_geofence_event_payload (encode_geofence_event_payload e) =
     Inr (e\<lparr>ge_fence_name := [], ge_lat := Fin 0, ge_lon := Fin 0\<rparr>)"
proof -
  have ne: "show_int i \<noteq> []" for i by (simp add: show_int_def)
  have fields: "getline_fields CHR '','' (encode_geofence_event_payload e) =
     [ge_device_id e, ge_fence_id e, ''DWELL'', show_int (ge_event_ts_ms e),
      show_int (ge_inside_duration_s e)]"
    unfolding encode_geofence_event_payload_def
    using assms(1,3,5) csv_numbers [unfolded csv_field_def] ne
    by (simp add: csv_field_def getline_join del: join_on.simps)
  show ?thesis
    using assms by (simp add: decode_geofence_event_payload_def fields sto_ll_show_int sto_i_show_int
        geofence_event_default_def geofence_event_type_from_string_def)
qed

lemma decode_encode_transition:
  assumes "ge_event_type e \<noteq> Ev_DWELL"
    and "ge_device_id e \<noteq> []" "csv_field (ge_device_id e)" "ge_fence_id e \<noteq> []" "csv_field (ge_fence_id e)"
    and "- (2 ^ 63) \<le> ge_event_ts_ms e" "ge_event_ts_ms e < 2 ^ 63"
    and "printable (ge_lat e)" "printable (ge_lon e)"
  obtains lat lon where "six_digits_of (ge_lat e) lat" "six_digits_of (ge_lon e) lon"
    "decode_geofence_event_payload (encode_geofence_event_payload e) =
       Inr (e\<lparr>ge_fence_name := [], ge_lat := lat, ge_lon := lon, ge_inside_duration_s := 0\<rparr>)"
proof -
  obtain lat where lat: "value_of (sto_d (show_double (ge_lat e))) = Inr lat"
    "six_digits_of (ge_lat e) lat" "csv_field (show_double (ge_lat e))"
    using printable_field [OF assms(8)] by blast
  obtain lon where lon: "value_of (sto_d (show_double (ge_lon e))) = Inr lon"
    "six_digits_of (ge_lon e) lon" "csv_field (show_double (ge_lon e))" "show_double (ge_lon e) \<noteq> []"
    using printable_field [OF assms(9)] by blast
  have ty: "CHR '','' \<notin> set (geofence_event_type_to_string t)" for t by (cases t) simp_all
  have fields: "getline_fields CHR '','' (encode_geofence_event_payload e) =
     [ge_device_id e, ge_fence_id e, geofence_event_type_to_string (ge_event_type e),
      show_int (ge_event_ts_ms e), show_double (ge_lat e), show_double (ge_lon e)]"
    unfolding encode_geofence_event_payload_def
    using assms(1,3,5) csv_numbers [unfolded csv_field_def] lat(3) lon(3,4) ty
    by (simp add: csv_field_def getline_join del: join_on.simps)
  show ?thesis
    using that [OF lat(2) lon(2)] assms
    by (simp add: decode_geofence_event_payload_def fields sto_ll_show_int lat(1) lon(1)
        geofence_event_default_def event_type_string_inverse)
qed

lemma match_status_inverse: "match_status_from_string (match_status_to_string s) = s"
  by (cases s) (simp_all add: match_status_from_string_def)

lemma decode_encode_match_request:
  assumes "mr_request_id r \<noteq> []" "csv_field (mr_request_id r)" "csv_field (mr_requester_id r)"
    and "csv_field (mr_strategy r)"
    and "printable (mr_lat r)" "printable (mr_lon r)" "printable (mr_radius_m r)"
    and "- (2 ^ 31) \<le> mr_max_agents r" "mr_max_agents r < 2 ^ 31"
    and "- (2 ^ 63) \<le> mr_deadline_ms r" "mr_deadline_ms r < 2 ^ 63"
  obtains lat lon radius where "six_digits_of (mr_lat r) lat" "six_digits_of (mr_lon r) lon"
    "six_digits_of (mr_radius_m r) radius"
    "decode_match_request_payload (encode_match_request_payload r) =
       Inr (r\<lparr>mr_lat := lat, mr_lon := lon, mr_radius_m := radius\<rparr>)"
proof -
  obtain lat where lat: "value_of (sto_d (show_double (mr_lat r))) = Inr lat"
    "six_digits_of (mr_lat r) lat" "csv_field (show_double (mr_lat r))"
    using printable_field [OF assms(5)] by blast
  obtain lon where lon: "value_of (sto_d (show_double (mr_lon r))) = Inr lon"
    "six_digits_of (mr_lon r) lon" "csv_field (show_double (mr_lon r))"
    using printable_field [OF assms(6)] by blast
  obtain rad where rad: "value_of (sto_d (show_double (mr_radius_m r))) = Inr rad"
    "six_digits_of (mr_radius_m r) rad" "csv_field (show_double (mr_radius_m r))"
    using printable_field [OF assms(7)] by blast
  have fields: "split_csv CHR '','' (encode_match_request_payload r) =
     [mr_request_id r, mr_requester_id r, show_double (mr_lat r), show_double (mr_lon r),
      show_double (mr_radius_m r), show_int (mr_max_agents r), show_int (mr_deadline_ms r),
      mr_strategy r]"
    unfolding encode_match_request_payload_def
    using assms(2-4) csv_numbers [unfolded csv_field_def] lat(3) lon(3) rad(3)
    by (intro split_csv_join) (simp_all add: csv_field_def)
  show ?thesis
    using that [OF lat(2) lon(2) rad(2)] assms(1)
    by (simp add: decode_match_request_payload_def fields lat(1) lon(1) rad(1) sto_i_show_int [OF assms(8,9)]
        sto_ll_show_int [OF assms(10,11)] match_request_default_def)
qed

lemma decode_encode_match_result:
  assumes "mres_request_id r \<noteq> []" "csv_field (mres_request_id r)" "csv_field (mres_reason r)"
    and "- (2 ^ 63) \<le> mres_latency_ms r" "mres_latency_ms r < 2 ^ 63"
    and ids: "\<forall>a \<in> set (mres_assigned_agent_ids r). csv_field a \<and> CHR '';'' \<notin> set a"
    and not_empty_id: "mres_assigned_agent_ids r \<noteq> [[]]"
  shows "decode_match_result_payload (encode_match_result_payload r) = Inr r"
proof -
  let ?ids = "mres_assigned_agent_ids r"
  have set_join: "set (join_on d fs) \<subseteq> insert d (\<Union> (set ` set fs))" for d fs
    by (induction d fs rule: join_on.induct) auto
  have joined: "CHR '','' \<notin> set (join_ids ?ids)"
    using set_join [of "CHR '';''" ?ids] ids by (auto simp: join_ids_def csv_field_def)
  have st: "CHR '','' \<notin> set (match_status_to_string s)" for s by (cases s) simp_all
  have fields: "split_csv CHR '','' (encode_match_result_payload r) =
     [mres_request_id r, match_status_to_string (mres_status r), show_int (mres_latency_ms r),
      mres_reason r, join_ids ?ids]"
    unfolding encode_match_result_payload_def
    using assms(2,3) csv_numbers [unfolded csv_field_def] joined st
    by (intro split_csv_join) (simp_all add: csv_field_def)
  have agents: "(if join_ids ?ids \<noteq> [] then split_csv CHR '';'' (join_ids ?ids) else []) = ?ids"
  proof (cases "?ids = []")
    case True
    then show ?thesis by (simp add: join_ids_def)
  next
    case False
    then have "join_ids ?ids \<noteq> []" using not_empty_id
      by (cases "(CHR '';'', ?ids)" rule: join_on.cases) (auto simp: join_ids_def)
    then show ?thesis using split_csv_join [of ?ids "CHR '';''"] False ids not_empty_id
      by (simp add: join_ids_def)
  qed
  have "decode_match_result_payload (encode_match_result_payload r) =
     Inr (match_result_default\<lparr>mres_request_id := mres_request_id r, mres_status := mres_status r,
            mres_latency_ms := mres_latency_ms r, mres_reason := mres_reason r,
            mres_assigned_agent_ids := ?ids\<rparr>)"
    using assms(1) agents
    by (simp add: decode_match_result_payload_def fields sto_ll_show_int [OF assms(4,5)]
        match_status_inverse split del: if_split cong: if_cong)
  then show ?thesis by (simp add: match_result_default_def)
qed

text \<open>C23: A location event whose device identifier is not empty and has no comma, whose timestamps fit 64
  bits and whose coordinates the decimal form carries survives its payload: decoding what was
  encoded gives back the device, the sequence number and both timestamps, whatever they are, and
  coordinates that agree with the encoded ones to six digits. The other members of the event are
  not transported.\<close>

theorem location_payload_roundtrip:
  assumes "le_device_id e \<noteq> []" "csv_field (le_device_id e)"
    and "- (2 ^ 63) \<le> le_timestamp_ms e" "le_timestamp_ms e < 2 ^ 63"
    and "- (2 ^ 63) \<le> le_server_recv_ms e" "le_server_recv_ms e < 2 ^ 63"
    and "printable (le_lat e)" "printable (le_lon e)"
  shows "\<exists>lat lon. six_digits_of (le_lat e) lat \<and> six_digits_of (le_lon e) lon \<and>
    decode_location_payload (encode_location_payload e) =
      Inr (location_event_default\<lparr>le_device_id := le_device_id e, le_seq := le_seq e,
             le_timestamp_ms := le_timestamp_ms e, le_server_recv_ms := le_server_recv_ms e,
             le_lat := lat, le_lon := lon\<rparr>)"
  by (rule decode_encode_location [OF assms]) blast

theorem location_payload_roundtrip_witness:
  "\<exists>lat lon. decode_location_payload (encode_location_payload
      (location_event_default\<lparr>le_device_id := ''car-7'', le_seq := 12, le_lat := Fin 10, le_lon := Fin (- 106)\<rparr>)) =
    Inr (location_event_default\<lparr>le_device_id := ''car-7'', le_seq := 12, le_lat := lat, le_lon := lon\<rparr>)"
  using location_payload_roundtrip
    [of "location_event_default\<lparr>le_device_id := ''car-7'', le_seq := 12, le_lat := Fin 10, le_lon := Fin (- 106)\<rparr>"]
  by (auto simp: csv_field_def printable_def location_event_default_def)

end
