(* ===== verification/Event_Bus.thy ===== *)
theory Event_Bus
  imports Domain
begin

text \<open>
  The in-process event bus of \<open>common/events/event_bus.h\<close>. The C++ bus is keyed by
  \<open>std::type_index\<close> and stores closures; here the key type and the type that names a
  closure are parameters, so a bus is the table of who is subscribed to what in which order.
  \<open>publish\<close> copies the callbacks of the event's type and calls them one after the other
  without holding the lock: \<open>callbacks_of\<close> is the copy, \<open>run_callbacks\<close> the calls, where an
  exception of a callback keeps the later ones from running.

  The event structs of \<open>common/events/*_events.h\<close> follow as one datatype.

  The lemmas show: subscription identifiers are fresh and a subscription ends exactly its
  own entry; callbacks run in the order of subscription; an invariant every callback keeps
  is kept by a publication.
\<close>

subsection \<open>Programs with a state and exceptions\<close>

type_synonym ('s, 'a) prog = "'s \<Rightarrow> 'a exc \<times> 's"

definition ret :: "'a \<Rightarrow> ('s, 'a) prog" where
  "ret a = (\<lambda>s. (Inr a, s))"

definition throw :: "string \<Rightarrow> ('s, 'a) prog" where
  "throw e = (\<lambda>s. (Inl e, s))"

definition seq_prog :: "('s, 'a) prog \<Rightarrow> ('a \<Rightarrow> ('s, 'b) prog) \<Rightarrow> ('s, 'b) prog" where
  "seq_prog m f = (\<lambda>s. case m s of (Inl e, s') \<Rightarrow> (Inl e, s') | (Inr a, s') \<Rightarrow> f a s')"

lemma seq_prog_simps [simp, result_simps]:
  "m s = (Inl e, s') \<Longrightarrow> seq_prog m f s = (Inl e, s')"
  "m s = (Inr a, s') \<Longrightarrow> seq_prog m f s = f a s'"
  by (simp_all add: seq_prog_def)

lemma ret_apply [simp, result_simps]: "ret a s = (Inr a, s)"
  by (simp add: ret_def)

lemma throw_apply [simp, result_simps]: "throw e s = (Inl e, s)"
  by (simp add: throw_def)

subsection \<open>The bus\<close>

record ('k, 'h) bus =
  eb_next_id :: nat
  eb_handlers :: "('k, (nat \<times> 'h) list) umap"

definition empty_bus :: "('k, 'h) bus" where
  "empty_bus = \<lparr>eb_next_id = 1, eb_handlers = []\<rparr>"

definition entries :: "('k, 'h) bus \<Rightarrow> 'k \<Rightarrow> (nat \<times> 'h) list" where
  "entries b k = (case map_of (eb_handlers b) k of None \<Rightarrow> [] | Some es \<Rightarrow> es)"

text \<open>A \<open>Subscription\<close> with \<open>bus_ == nullptr\<close> is \<open>None\<close>; otherwise it has the type and the id.\<close>

type_synonym 'k subscription = "('k \<times> nat) option"

definition subscribe :: "'k \<Rightarrow> 'h \<Rightarrow> ('k, 'h) bus \<Rightarrow> 'k subscription \<times> ('k, 'h) bus" where
  "subscribe k h b = (let sid = eb_next_id b in
     (Some (k, sid), b\<lparr>eb_next_id := sid + 1,
        eb_handlers := um_put k (entries b k @ [(sid, h)]) (eb_handlers b)\<rparr>))"

definition unsubscribe :: "'k \<Rightarrow> nat \<Rightarrow> ('k, 'h) bus \<Rightarrow> ('k, 'h) bus" where
  "unsubscribe k sid b = (case map_of (eb_handlers b) k of None \<Rightarrow> b
     | Some es \<Rightarrow> (let es' = filter (\<lambda>e. fst e \<noteq> sid) es in
         b\<lparr>eb_handlers := (if es' = [] then um_del k (eb_handlers b)
                           else um_put k es' (eb_handlers b))\<rparr>))"

definition subscriber_count :: "'k \<Rightarrow> ('k, 'h) bus \<Rightarrow> nat" where
  "subscriber_count k b = (case map_of (eb_handlers b) k of None \<Rightarrow> 0 | Some es \<Rightarrow> length es)"

definition callbacks_of :: "('k, 'h) bus \<Rightarrow> 'k \<Rightarrow> 'h list" where
  "callbacks_of b k = map snd (entries b k)"

fun run_callbacks :: "('h \<Rightarrow> ('s, unit) prog) \<Rightarrow> 'h list \<Rightarrow> ('s, unit) prog" where
  "run_callbacks call [] = ret ()"
| "run_callbacks call (h # hs) = seq_prog (call h) (\<lambda>_. run_callbacks call hs)"

definition sub_active :: "'k subscription \<Rightarrow> bool" where
  "sub_active s = (s \<noteq> None)"

definition sub_reset :: "'k subscription \<Rightarrow> ('k, 'h) bus \<Rightarrow> 'k subscription \<times> ('k, 'h) bus" where
  "sub_reset s b = (case s of None \<Rightarrow> (None, b) | Some (k, sid) \<Rightarrow> (None, unsubscribe k sid b))"

text \<open>The move constructor: the source is left inactive.\<close>

definition sub_move :: "'k subscription \<Rightarrow> 'k subscription \<times> 'k subscription" where
  "sub_move other = (other, None)"

text \<open>Move assignment \<open>s = std::move(other)\<close> with \<open>this != &other\<close>; the result is
  the assigned subscription, the source afterwards, and the bus.\<close>

definition sub_move_assign ::
  "'k subscription \<Rightarrow> 'k subscription \<Rightarrow> ('k, 'h) bus \<Rightarrow> ('k subscription \<times> 'k subscription) \<times> ('k, 'h) bus" where
  "sub_move_assign s other b = (let (s', b') = sub_reset s b in ((other, None), b'))"

text \<open>The vectors of subscriptions the components own are cleared one element at a time.\<close>

fun sub_clear :: "'k subscription list \<Rightarrow> ('k, 'h) bus \<Rightarrow> 'k subscription list \<times> ('k, 'h) bus" where
  "sub_clear [] b = ([], b)"
| "sub_clear (s # ss) b = sub_clear ss (snd (sub_reset s b))"

fun subscribe_all :: "('k \<times> 'h) list \<Rightarrow> ('k, 'h) bus \<Rightarrow> 'k subscription list \<times> ('k, 'h) bus" where
  "subscribe_all [] b = ([], b)"
| "subscribe_all ((k, h) # rest) b =
     (let (s, b') = subscribe k h b; (ss, b'') = subscribe_all rest b' in (s # ss, b''))"

subsection \<open>Well-formed buses\<close>

definition bus_ok :: "('k, 'h) bus \<Rightarrow> bool" where
  "bus_ok b = (um_ok (eb_handlers b) \<and> [] \<notin> set (map snd (eb_handlers b)) \<and>
     (\<forall>k. \<forall>e \<in> set (entries b k). fst e < eb_next_id b) \<and>
     (\<forall>k. distinct (map fst (entries b k))) \<and>
     (\<forall>k k'. k \<noteq> k' \<longrightarrow> fst ` set (entries b k) \<inter> fst ` set (entries b k') = {}))"

lemma entries_subscribe [simp]:
  "entries (snd (subscribe k h b)) k' =
     (if k' = k then entries b k @ [(eb_next_id b, h)] else entries b k')"
  by (simp add: entries_def subscribe_def Let_def)

lemma fst_subscribe: "fst (subscribe k h b) = Some (k, eb_next_id b)"
  by (simp add: subscribe_def Let_def)

lemma next_id_subscribe [simp]: "eb_next_id (snd (subscribe k h b)) = eb_next_id b + 1"
  by (simp add: subscribe_def Let_def)

lemma entries_unsubscribe [simp]:
  "entries (unsubscribe k sid b) k' =
     (if k' = k then filter (\<lambda>e. fst e \<noteq> sid) (entries b k) else entries b k')"
  by (auto simp: entries_def unsubscribe_def Let_def split: option.splits)

lemma next_id_unsubscribe [simp]: "eb_next_id (unsubscribe k sid b) = eb_next_id b"
  by (simp add: unsubscribe_def Let_def split: option.splits)

lemma um_put_values: "um_ok m \<Longrightarrow> v \<in> set (map snd (um_put k x m)) \<Longrightarrow> v = x \<or> v \<in> set (map snd m)"
proof -
  assume ok: "um_ok m" and v: "v \<in> set (map snd (um_put k x m))"
  then obtain k' where "(k', v) \<in> set (um_put k x m)" by auto
  then have "map_of (um_put k x m) k' = Some v" using ok by (simp add: um_ok_in_set)
  then show ?thesis using map_of_SomeD [of m k' v] by (force split: if_splits)
qed

lemma um_del_values: "v \<in> set (map snd (um_del k m)) \<Longrightarrow> v \<in> set (map snd m)"
  by (auto simp: um_del_def AList.delete_eq)

lemma subscribe_ok [intro]: "bus_ok b \<Longrightarrow> bus_ok (snd (subscribe k h b))"
proof -
  assume ok: "bus_ok b"
  have "um_ok (eb_handlers (snd (subscribe k h b)))"
    using ok by (simp add: subscribe_def bus_ok_def Let_def)
  moreover have "[] \<notin> set (map snd (eb_handlers (snd (subscribe k h b))))"
    using ok um_put_values [of "eb_handlers b" "[]" k "entries b k @ [(eb_next_id b, h)]"]
    by (auto simp: subscribe_def bus_ok_def Let_def)
  moreover have "\<forall>k. \<forall>e \<in> set (entries b k). fst e \<noteq> eb_next_id b"
    using ok by (fastforce simp: bus_ok_def)
  ultimately show ?thesis
    using ok by (fastforce simp: bus_ok_def less_Suc_eq)
qed

lemma unsubscribe_ok [intro]: "bus_ok b \<Longrightarrow> bus_ok (unsubscribe k sid b)"
proof -
  assume ok: "bus_ok b"
  have "um_ok (eb_handlers (unsubscribe k sid b))"
    using ok by (auto simp: unsubscribe_def bus_ok_def Let_def split: option.splits)
  moreover have "[] \<notin> set (map snd (eb_handlers (unsubscribe k sid b)))"
    using ok um_put_values [of "eb_handlers b" "[]" k "filter (\<lambda>e. fst e \<noteq> sid) (entries b k)"]
      um_del_values [of "[]" k "eb_handlers b"]
    by (auto simp: unsubscribe_def bus_ok_def Let_def entries_def simp del: set_map split: option.splits)
  moreover have "distinct (map fst (entries (unsubscribe k sid b) j))" for j
    using ok by (simp add: bus_ok_def distinct_map_filter)
  moreover have sub: "set (entries (unsubscribe k sid b) j) \<subseteq> set (entries b j)" for j
    by auto
  then have "\<forall>j. \<forall>e \<in> set (entries (unsubscribe k sid b) j). fst e < eb_next_id (unsubscribe k sid b)"
    using ok unfolding bus_ok_def next_id_unsubscribe by blast
  moreover have "fst ` set (entries (unsubscribe k sid b) j) \<inter> fst ` set (entries (unsubscribe k sid b) j') = {}"
    if "j \<noteq> j'" for j j'
  proof -
    have "fst ` set (entries b j) \<inter> fst ` set (entries b j') = {}"
      using ok that by (simp add: bus_ok_def)
    then show ?thesis using sub [of j] sub [of j'] by blast
  qed
  ultimately show ?thesis unfolding bus_ok_def by blast
qed

lemma empty_bus_ok [simp]: "bus_ok empty_bus"
  by (simp add: bus_ok_def empty_bus_def entries_def)

subsection \<open>Behaviour\<close>

lemma subscriber_count_entries: "subscriber_count k b = length (entries b k)"
  by (simp add: subscriber_count_def entries_def split: option.splits)

text \<open>Ending a subscription just made restores what was subscribed before, for every type.\<close>

lemma subscribe_reset:
  assumes "bus_ok b" "subscribe k h b = (s, b')"
  shows "fst (sub_reset s b') = None \<and> entries (snd (sub_reset s b')) k' = entries b k'"
proof -
  have s: "s = Some (k, eb_next_id b)" "b' = snd (subscribe k h b)"
    using assms(2) by (auto simp: subscribe_def Let_def)
  have "filter (\<lambda>e. fst e \<noteq> eb_next_id b) (entries b k) = entries b k"
    using assms(1) by (intro filter_True) (fastforce simp: bus_ok_def)
  then show ?thesis by (simp add: sub_reset_def s)
qed

lemma reset_only_own:
  assumes "bus_ok b" "(sid, h) \<in> set (entries b k)"
  shows "entries (snd (sub_reset (Some (k, sid)) b)) k' =
    (if k' = k then removeAll (sid, h) (entries b k) else entries b k')"
proof -
  have "e = (sid, h) \<longleftrightarrow> fst e = sid" if "e \<in> set (entries b k)" for e
    using assms that by (cases e) (auto simp: bus_ok_def dest: eq_key_imp_eq_value)
  then have "filter (\<lambda>e. fst e \<noteq> sid) (entries b k) = filter (\<lambda>e. e \<noteq> (sid, h)) (entries b k)"
    by (intro filter_cong) auto
  also have "\<dots> = removeAll (sid, h) (entries b k)"
    by (metis (mono_tags, lifting) filter_cong removeAll_filter_not_eq)
  finally show ?thesis by (simp add: sub_reset_def)
qed

lemma reset_twice: "sub_reset (fst (sub_reset s b)) (snd (sub_reset s b)) = sub_reset s b"
  by (auto simp: sub_reset_def split: option.splits)

lemma callbacks_subscribe:
  "callbacks_of (snd (subscribe k h b)) k' =
     callbacks_of b k' @ (if k' = k then [h] else [])"
  by (simp add: callbacks_of_def)

lemma callbacks_subscribe_all:
  "callbacks_of (snd (subscribe_all hs b)) k = callbacks_of b k @ map snd (filter (\<lambda>p. fst p = k) hs)"
  by (induction hs arbitrary: b)
    (auto simp: Let_def case_prod_beta callbacks_subscribe)

lemma subscribe_all_ok: "bus_ok b \<Longrightarrow> bus_ok (snd (subscribe_all hs b))"
  by (induction hs arbitrary: b) (auto simp: Let_def case_prod_beta subscribe_ok)

lemma subscribe_all_length [simp]: "length (fst (subscribe_all hs b)) = length hs"
  by (induction hs arbitrary: b) (auto simp: Let_def case_prod_beta)

lemma subscribe_all_active: "s \<in> set (fst (subscribe_all hs b)) \<Longrightarrow> sub_active s"
  by (induction hs arbitrary: b)
    (auto simp: Let_def case_prod_beta sub_active_def subscribe_def)

lemma sub_clear_ok: "bus_ok b \<Longrightarrow> bus_ok (snd (sub_clear ss b))"
  by (induction ss b rule: sub_clear.induct)
    (auto simp: sub_reset_def unsubscribe_ok split: option.splits)

lemma sub_clear_entries:
  "entries (snd (sub_clear ss b)) k = filter (\<lambda>e. Some (k, fst e) \<notin> set ss) (entries b k)"
proof (induction ss b rule: sub_clear.induct)
  case (2 s ss b)
  show ?case unfolding sub_clear.simps 2
    by (auto simp: sub_reset_def conj_commute split: option.splits intro: filter_cong)
qed simp

lemma subscribe_all_ids:
  "Some (k, sid) \<in> set (fst (subscribe_all hs b)) \<Longrightarrow> eb_next_id b \<le> sid"
  by (induction hs arbitrary: b)
    (fastforce simp: Let_def case_prod_beta subscribe_def)+

lemma subscribe_all_entries:
  "\<exists>new. entries (snd (subscribe_all hs b)) k = entries b k @ new \<and>
     (\<forall>e \<in> set new. Some (k, fst e) \<in> set (fst (subscribe_all hs b)))"
proof (induction hs arbitrary: b)
  case (Cons p rest)
  obtain k' h where p: "p = (k', h)" by (cases p)
  obtain new where
    "entries (snd (subscribe_all rest (snd (subscribe k' h b)))) k = entries (snd (subscribe k' h b)) k @ new"
    "\<forall>e \<in> set new. Some (k, fst e) \<in> set (fst (subscribe_all rest (snd (subscribe k' h b))))"
    using Cons [of "snd (subscribe k' h b)"] by auto
  then show ?case unfolding p
    by (intro exI [of _ "(if k = k' then [(eb_next_id b, h)] else []) @ new"])
      (auto simp: Let_def case_prod_beta fst_subscribe)
qed simp

text \<open>A component that wires its handlers and clears them leaves no trace in the table.\<close>

lemma wire_then_clear:
  assumes "bus_ok b" "subscribe_all hs b = (ss, b')"
  shows "sub_clear ss b' = ([], snd (sub_clear ss b')) \<and> entries (snd (sub_clear ss b')) k = entries b k"
proof -
  have fst: "fst (sub_clear ss b') = []" for ss :: "'a subscription list" and b' :: "('a, 'b) bus"
    by (induction ss b' rule: sub_clear.induct) auto
  obtain new where new: "entries b' k = entries b k @ new" "\<forall>e \<in> set new. Some (k, fst e) \<in> set ss"
    using subscribe_all_entries [of hs b k] assms(2) by auto
  have "Some (k, fst e) \<notin> set ss" if "e \<in> set (entries b k)" for e
    using subscribe_all_ids [of k "fst e" hs b] assms that by (fastforce simp: bus_ok_def)
  then have "filter (\<lambda>e. Some (k, fst e) \<notin> set ss) (entries b' k) = entries b k"
    using new by (simp add: filter_empty_conv)
  then show ?thesis using fst [of ss b'] by (metis prod.collapse sub_clear_entries)
qed

lemma run_callbacks_invariant:
  assumes "P s" "\<And>h s. h \<in> set hs \<Longrightarrow> P s \<Longrightarrow> P (snd (call h s))"
  shows "P (snd (run_callbacks call hs s))"
  using assms
proof (induction hs arbitrary: s)
  case (Cons h hs)
  have "P (snd (call h s))" using Cons.prems by simp
  then show ?case using Cons.IH [of "snd (call h s)"] Cons.prems(2)
    by (cases "call h s"; cases "fst (call h s)") simp_all
qed simp

lemma run_callbacks_append:
  "run_callbacks call (hs @ hs') s = seq_prog (run_callbacks call hs) (\<lambda>_. run_callbacks call hs') s"
  by (induction hs arbitrary: s) (auto simp: seq_prog_def split: prod.splits sum.splits)

lemma run_callbacks_total:
  assumes "\<And>h s. h \<in> set hs \<Longrightarrow> fst (call h s) = Inr ()"
  shows "run_callbacks call hs s = (Inr (), fold (\<lambda>h s. snd (call h s)) hs s)"
  using assms
proof (induction hs arbitrary: s)
  case (Cons h hs)
  have "call h s = (Inr (), snd (call h s))" using Cons.prems [of h s] by (metis list.set_intros(1) prod.collapse)
  then show ?case using Cons by simp
qed simp

end
