(* ===== verification/Metrics.thy ===== *)
theory Metrics
  imports Text Event_Bus
begin

text \<open>
  The event structs of \<open>common/events/\<close>, the metrics registry of \<open>common/metrics/metrics.cpp\<close>
  and the subscriptions of \<open>common/composition/\<close>.

  \<open>event\<close> has one constructor per struct, with the fields in the order of the struct, and
  \<open>event_type\<close> is the \<open>std::type_index\<close> that keys the bus. The registry is a record of
  three maps; \<open>metric_op\<close> names the public operations and \<open>apply_metric\<close> is what each
  does. \<open>metrics_handler\<close> is what the closures of \<open>MetricsEventHandlers::wire\<close> do and
  \<open>pipeline_handler\<close> what those of \<open>CompositionRoot::wire_location_pipeline_observers\<close> publish.

  The lemmas show which counter counts which event, that nothing else changes, that the
  text export depends only on the contents of the maps, and that the pipeline cannot
  publish in a cycle.
\<close>

subsection \<open>Events\<close>

datatype event =
    IngestBatchReceived string "location_event list" int
  | IngestBatchRejected string string int
  | IngestEventPublished location_event string
  | GatewayBackpressureApplied string int
  | LocationReceived location_event int
  | LocationValidated location_event
  | LocationRejected location_event string
  | LocationAccepted location_event
  | LocationDuplicateRejected location_event
  | LocationStaleRejected location_event u64
  | StateWriteRequested location_event
  | StateWriteSucceeded location_event device_state cell
  | StateWriteRejected location_event string
  | StateWriteFailed location_event string
  | TripHistoryWriteRequested location_event
  | TripHistoryBatchWriteRequested "location_event list"
  | TripHistoryWritten location_event
  | TripHistoryBatchWritten nat
  | TripHistoryWriteFailed location_event string
  | TripHistoryBatchWriteFailed "location_event list" string
  | GeofenceEvaluationRequested string cell cell double double int
  | GeofenceEntered geofence_event_record
  | GeofenceExited geofence_event_record
  | GeofenceDwellDetected geofence_event_record
  | GeofenceEvaluationFailed string string
  | MatchRequestReceived string string double double double int int string
  | AgentReserved string string
  | AgentReservationFailed string string string
  | MatchCompleted string "string list" int
  | MatchFailed string string
  | MatchExpired string
  | H3CleanupCompleted nat nat
  | DLQReplaySucceeded nat
  | DLQReplayFailed string nat
  | DependencyRecovered string
  | DependencyUnavailable string string

datatype event_type =
    T_IngestBatchReceived | T_IngestBatchRejected | T_IngestEventPublished
  | T_GatewayBackpressureApplied | T_LocationReceived | T_LocationValidated | T_LocationRejected
  | T_LocationAccepted | T_LocationDuplicateRejected | T_LocationStaleRejected
  | T_StateWriteRequested | T_StateWriteSucceeded | T_StateWriteRejected | T_StateWriteFailed
  | T_TripHistoryWriteRequested | T_TripHistoryBatchWriteRequested | T_TripHistoryWritten
  | T_TripHistoryBatchWritten | T_TripHistoryWriteFailed | T_TripHistoryBatchWriteFailed
  | T_GeofenceEvaluationRequested | T_GeofenceEntered | T_GeofenceExited | T_GeofenceDwellDetected
  | T_GeofenceEvaluationFailed | T_MatchRequestReceived | T_AgentReserved
  | T_AgentReservationFailed | T_MatchCompleted | T_MatchFailed | T_MatchExpired
  | T_H3CleanupCompleted | T_DLQReplaySucceeded | T_DLQReplayFailed | T_DependencyRecovered
  | T_DependencyUnavailable

fun type_of :: "event \<Rightarrow> event_type" where
  "type_of (IngestBatchReceived d es t) = T_IngestBatchReceived"
| "type_of (IngestBatchRejected d r n) = T_IngestBatchRejected"
| "type_of (IngestEventPublished e t) = T_IngestEventPublished"
| "type_of (GatewayBackpressureApplied r d) = T_GatewayBackpressureApplied"
| "type_of (LocationReceived e t) = T_LocationReceived"
| "type_of (LocationValidated e) = T_LocationValidated"
| "type_of (LocationRejected e r) = T_LocationRejected"
| "type_of (LocationAccepted e) = T_LocationAccepted"
| "type_of (LocationDuplicateRejected e) = T_LocationDuplicateRejected"
| "type_of (LocationStaleRejected e s) = T_LocationStaleRejected"
| "type_of (StateWriteRequested e) = T_StateWriteRequested"
| "type_of (StateWriteSucceeded e s c) = T_StateWriteSucceeded"
| "type_of (StateWriteRejected e r) = T_StateWriteRejected"
| "type_of (StateWriteFailed e r) = T_StateWriteFailed"
| "type_of (TripHistoryWriteRequested e) = T_TripHistoryWriteRequested"
| "type_of (TripHistoryBatchWriteRequested es) = T_TripHistoryBatchWriteRequested"
| "type_of (TripHistoryWritten e) = T_TripHistoryWritten"
| "type_of (TripHistoryBatchWritten n) = T_TripHistoryBatchWritten"
| "type_of (TripHistoryWriteFailed e r) = T_TripHistoryWriteFailed"
| "type_of (TripHistoryBatchWriteFailed es r) = T_TripHistoryBatchWriteFailed"
| "type_of (GeofenceEvaluationRequested d c c' x y t) = T_GeofenceEvaluationRequested"
| "type_of (GeofenceEntered g) = T_GeofenceEntered"
| "type_of (GeofenceExited g) = T_GeofenceExited"
| "type_of (GeofenceDwellDetected g) = T_GeofenceDwellDetected"
| "type_of (GeofenceEvaluationFailed d r) = T_GeofenceEvaluationFailed"
| "type_of (MatchRequestReceived i r x y z n t s) = T_MatchRequestReceived"
| "type_of (AgentReserved i a) = T_AgentReserved"
| "type_of (AgentReservationFailed i a r) = T_AgentReservationFailed"
| "type_of (MatchCompleted i as l) = T_MatchCompleted"
| "type_of (MatchFailed i r) = T_MatchFailed"
| "type_of (MatchExpired i) = T_MatchExpired"
| "type_of (H3CleanupCompleted n m) = T_H3CleanupCompleted"
| "type_of (DLQReplaySucceeded n) = T_DLQReplaySucceeded"
| "type_of (DLQReplayFailed r n) = T_DLQReplayFailed"
| "type_of (DependencyRecovered d) = T_DependencyRecovered"
| "type_of (DependencyUnavailable d r) = T_DependencyUnavailable"

subsection \<open>The registry\<close>

record metrics =
  mx_counters :: "(string, int) umap"
  mx_gauges :: "(string, double) umap"
  mx_observations :: "(string, int \<times> double) umap"

definition reset_for_test :: metrics where
  "reset_for_test = \<lparr>mx_counters = [], mx_gauges = [], mx_observations = []\<rparr>"

definition labeled_key :: "string \<Rightarrow> string \<Rightarrow> string" where
  "labeled_key name lbl = name @ ''{'' @ lbl @ ''}''"

definition label_pair :: "string \<Rightarrow> string \<Rightarrow> string" where
  "label_pair key v = key @ ''='' @ [CHR 0x22] @ v @ [CHR 0x22]"

definition counter_value :: "string \<Rightarrow> metrics \<Rightarrow> int" where
  "counter_value name m = (case map_of (mx_counters m) name of None \<Rightarrow> 0 | Some n \<Rightarrow> n)"

definition labeled_counter_value :: "string \<Rightarrow> string \<Rightarrow> metrics \<Rightarrow> int" where
  "labeled_counter_value name lbl m = counter_value (labeled_key name lbl) m"

definition gauge_value :: "string \<Rightarrow> metrics \<Rightarrow> double" where
  "gauge_value name m = (case map_of (mx_gauges m) name of None \<Rightarrow> Fin 0 | Some d \<Rightarrow> d)"

definition observation_count :: "string \<Rightarrow> metrics \<Rightarrow> int" where
  "observation_count name m = (case map_of (mx_observations m) name of None \<Rightarrow> 0 | Some (n, _) \<Rightarrow> n)"

definition observation_sum :: "string \<Rightarrow> metrics \<Rightarrow> double" where
  "observation_sum name m = (case map_of (mx_observations m) name of None \<Rightarrow> Fin 0 | Some (_, d) \<Rightarrow> d)"

definition inc_counter :: "string \<Rightarrow> int \<Rightarrow> metrics \<Rightarrow> metrics" where
  "inc_counter name n m = m\<lparr>mx_counters := um_put name (counter_value name m + n) (mx_counters m)\<rparr>"

definition inc_labeled_counter :: "string \<Rightarrow> string \<Rightarrow> int \<Rightarrow> metrics \<Rightarrow> metrics" where
  "inc_labeled_counter name lbl n m = inc_counter (labeled_key name lbl) n m"

definition set_gauge :: "string \<Rightarrow> double \<Rightarrow> metrics \<Rightarrow> metrics" where
  "set_gauge name v m = m\<lparr>mx_gauges := um_put name v (mx_gauges m)\<rparr>"

definition observe_value :: "string \<Rightarrow> double \<Rightarrow> metrics \<Rightarrow> metrics" where
  "observe_value name v m = m\<lparr>mx_observations :=
     um_put name (observation_count name m + 1, dadd (observation_sum name m) v) (mx_observations m)\<rparr>"

datatype metric_op =
    Inc_ingest_received int | Inc_ingest_rejected string int | Inc_ingest_queued int
  | Inc_dedup_hit int | Inc_seq_guard_reject int | Inc_events_accepted int | Inc_truly_stale int
  | Observe_redis_write_latency double | Observe_postgis_write_latency double
  | Set_history_buffer_size int | Set_kafka_consumer_lag int int
  | Observe_nearby_latency double | Observe_trip_query_latency double
  | Observe_geofence_eval_latency double | Inc_geofence_event string
  | Inc_match_request | Inc_match_result string | Observe_match_latency double
  | Set_redis_pool_utilization double | Set_postgis_pool_utilization double
  | Inc_kafka_publish_errors | Inc_redis_write_errors | Inc_postgis_write_errors

fun apply_metric :: "metric_op \<Rightarrow> metrics \<Rightarrow> metrics" where
  "apply_metric (Inc_ingest_received n) = inc_counter ''ingest_received_total'' n"
| "apply_metric (Inc_ingest_rejected r n) =
     inc_labeled_counter ''ingest_rejected_total'' (label_pair ''reason'' r) n"
| "apply_metric (Inc_ingest_queued n) = inc_counter ''ingest_queued_total'' n"
| "apply_metric (Inc_dedup_hit n) = inc_counter ''dedup_hit_total'' n"
| "apply_metric (Inc_seq_guard_reject n) = inc_counter ''seq_guard_reject_total'' n"
| "apply_metric (Inc_events_accepted n) = inc_counter ''events_accepted_total'' n"
| "apply_metric (Inc_truly_stale n) = inc_counter ''truly_stale_total'' n"
| "apply_metric (Observe_redis_write_latency v) = observe_value ''redis_write_latency_ms'' v"
| "apply_metric (Observe_postgis_write_latency v) = observe_value ''postgis_write_latency_ms'' v"
| "apply_metric (Set_history_buffer_size n) = set_gauge ''history_buffer_size'' (d_of_int n)"
| "apply_metric (Set_kafka_consumer_lag p l) =
     set_gauge (labeled_key ''kafka_consumer_lag'' (label_pair ''partition'' (show_int p))) (d_of_int l)"
| "apply_metric (Observe_nearby_latency v) = observe_value ''nearby_latency_ms'' v"
| "apply_metric (Observe_trip_query_latency v) = observe_value ''trip_query_latency_ms'' v"
| "apply_metric (Observe_geofence_eval_latency v) = observe_value ''geofence_eval_latency_ms'' v"
| "apply_metric (Inc_geofence_event t) =
     inc_labeled_counter ''geofence_events_total'' (label_pair ''type'' t) 1"
| "apply_metric Inc_match_request = inc_counter ''match_requests_total'' 1"
| "apply_metric (Inc_match_result s) =
     inc_labeled_counter ''match_results_total'' (label_pair ''status'' s) 1"
| "apply_metric (Observe_match_latency v) = observe_value ''match_latency_ms'' v"
| "apply_metric (Set_redis_pool_utilization v) = set_gauge ''redis_pool_utilization'' v"
| "apply_metric (Set_postgis_pool_utilization v) = set_gauge ''postgis_pool_utilization'' v"
| "apply_metric Inc_kafka_publish_errors = inc_counter ''kafka_publish_errors_total'' 1"
| "apply_metric Inc_redis_write_errors = inc_counter ''redis_write_errors_total'' 1"
| "apply_metric Inc_postgis_write_errors = inc_counter ''postgis_write_errors_total'' 1"

definition sorted_keys :: "(string, 'v) umap \<Rightarrow> string list" where
  "sorted_keys m = sort (um_keys m)"

definition export_text :: "metrics \<Rightarrow> string" where
  "export_text m = ''# SignalRoute metrics fallback'' @ [CHR 0x0A] @
     concat (map (\<lambda>k. k @ '' '' @ show_int (counter_value k m) @ [CHR 0x0A]) (sorted_keys (mx_counters m))) @
     concat (map (\<lambda>k. k @ '' '' @ show_double (gauge_value k m) @ [CHR 0x0A]) (sorted_keys (mx_gauges m))) @
     concat (map (\<lambda>k. k @ ''_count '' @ show_int (observation_count k m) @ [CHR 0x0A] @
         k @ ''_sum '' @ show_double (observation_sum k m) @ [CHR 0x0A]) (sorted_keys (mx_observations m)))"

subsection \<open>Who listens\<close>

text \<open>The closures of \<open>MetricsEventHandlers::wire\<close>, as the operations they perform.\<close>

fun metrics_handler :: "event \<Rightarrow> metric_op list" where
  "metrics_handler (IngestBatchReceived d es t) = [Inc_ingest_received (int (length es))]"
| "metrics_handler (IngestBatchRejected d r n) = [Inc_ingest_rejected r n]"
| "metrics_handler (IngestEventPublished e t) = [Inc_ingest_queued 1]"
| "metrics_handler (LocationAccepted e) = [Inc_events_accepted 1]"
| "metrics_handler (LocationDuplicateRejected e) = [Inc_dedup_hit 1]"
| "metrics_handler (LocationStaleRejected e s) = [Inc_seq_guard_reject 1]"
| "metrics_handler (StateWriteRejected e r) = [Inc_truly_stale 1]"
| "metrics_handler (GeofenceEntered g) = [Inc_geofence_event ''ENTER'']"
| "metrics_handler (GeofenceExited g) = [Inc_geofence_event ''EXIT'']"
| "metrics_handler (GeofenceDwellDetected g) = [Inc_geofence_event ''DWELL'']"
| "metrics_handler (MatchRequestReceived i r x y z n t s) = [Inc_match_request]"
| "metrics_handler (MatchCompleted i as l) =
     [Inc_match_result ''completed'', Observe_match_latency (d_of_int l)]"
| "metrics_handler (MatchFailed i r) = [Inc_match_result ''failed'']"
| "metrics_handler (MatchExpired i) = [Inc_match_result ''expired'']"
| "metrics_handler _ = []"

definition metrics_subscriptions :: "event_type list" where
  "metrics_subscriptions = [T_IngestBatchReceived, T_IngestBatchRejected, T_IngestEventPublished,
     T_LocationAccepted, T_LocationDuplicateRejected, T_LocationStaleRejected,
     T_StateWriteRejected, T_GeofenceEntered, T_GeofenceExited, T_GeofenceDwellDetected,
     T_MatchRequestReceived, T_MatchCompleted, T_MatchFailed, T_MatchExpired]"

definition on_metrics :: "event \<Rightarrow> metrics \<Rightarrow> metrics" where
  "on_metrics e m = fold apply_metric (metrics_handler e) m"

text \<open>The closures of the composition root: the events each publishes, in order.\<close>

fun pipeline_handler :: "event \<Rightarrow> event list" where
  "pipeline_handler (LocationAccepted e) = [StateWriteRequested e, TripHistoryWriteRequested e]"
| "pipeline_handler (StateWriteSucceeded e s c) =
     [GeofenceEvaluationRequested (ds_device_id s) c (ds_h3_cell s) (ds_lat s) (ds_lon s)
        (ds_updated_at s)]"
| "pipeline_handler _ = []"

definition pipeline_subscriptions :: "event_type list" where
  "pipeline_subscriptions = [T_LocationAccepted, T_StateWriteSucceeded]"

subsection \<open>Properties\<close>

definition metrics_ok :: "metrics \<Rightarrow> bool" where
  "metrics_ok m = (um_ok (mx_counters m) \<and> um_ok (mx_gauges m) \<and> um_ok (mx_observations m))"

lemma metrics_ok_init [simp]: "metrics_ok reset_for_test"
  by (simp add: metrics_ok_def reset_for_test_def)

lemma metrics_ok_ops [simp]:
  "metrics_ok m \<Longrightarrow> metrics_ok (inc_counter k n m)"
  "metrics_ok m \<Longrightarrow> metrics_ok (set_gauge k v m)"
  "metrics_ok m \<Longrightarrow> metrics_ok (observe_value k v m)"
  by (simp_all add: metrics_ok_def inc_counter_def set_gauge_def observe_value_def)

lemma metrics_ok_apply: "metrics_ok m \<Longrightarrow> metrics_ok (apply_metric p m)"
  by (cases p) (simp_all add: inc_labeled_counter_def)

lemma counter_value_inc [simp]:
  "counter_value k' (inc_counter k n m) = counter_value k' m + (if k' = k then n else 0)"
  by (simp add: counter_value_def inc_counter_def)

lemma counter_value_others [simp]:
  "counter_value k (set_gauge k' v m) = counter_value k m"
  "counter_value k (observe_value k' v m) = counter_value k m"
  by (simp_all add: counter_value_def set_gauge_def observe_value_def)

lemma observation_inc [simp]:
  "observation_count k' (observe_value k v m) = observation_count k' m + (if k' = k then 1 else 0)"
  by (simp add: observation_count_def observe_value_def)

lemma sorted_keys_unique:
  assumes "um_ok m" "um_ok m'" "map_of m = map_of m'"
  shows "sorted_keys m = sorted_keys m'"
proof -
  have "set (um_keys m) = set (um_keys m')" using assms(3) by simp
  then show ?thesis unfolding sorted_keys_def using assms(1,2)
    by (intro sorted_distinct_set_unique) (simp_all add: um_ok_distinct_keys)
qed

text \<open>The export does not depend on the iteration order of the hash maps.\<close>

lemma export_text_extensional:
  assumes "metrics_ok m" "metrics_ok m'"
    and "map_of (mx_counters m) = map_of (mx_counters m')"
    and "map_of (mx_gauges m) = map_of (mx_gauges m')"
    and "map_of (mx_observations m) = map_of (mx_observations m')"
  shows "export_text m = export_text m'"
proof -
  have "sorted_keys (mx_counters m) = sorted_keys (mx_counters m')"
    "sorted_keys (mx_gauges m) = sorted_keys (mx_gauges m')"
    "sorted_keys (mx_observations m) = sorted_keys (mx_observations m')"
    using assms by (auto simp: metrics_ok_def intro!: sorted_keys_unique)
  then show ?thesis
    using assms(3-5) by (simp add: export_text_def counter_value_def gauge_value_def
        observation_count_def observation_sum_def)
qed

lemma metrics_listens: "metrics_handler e \<noteq> [] \<longleftrightarrow> type_of e \<in> set metrics_subscriptions"
  by (cases e) (simp_all add: metrics_subscriptions_def)

lemma metrics_subscriptions_distinct: "distinct metrics_subscriptions"
  by (simp add: metrics_subscriptions_def)

lemma pipeline_listens: "pipeline_handler e \<noteq> [] \<longleftrightarrow> type_of e \<in> set pipeline_subscriptions"
  by (cases e) (simp_all add: pipeline_subscriptions_def)

text \<open>Distinct labels of one metric are distinct counters.\<close>

lemma labeled_key_inj: "labeled_key n l = labeled_key n l' \<longleftrightarrow> l = l'"
  by (simp add: labeled_key_def)

lemma label_pair_inj: "label_pair k v = label_pair k v' \<longleftrightarrow> v = v'"
  by (simp add: label_pair_def)

end
