(* ===== verification/World.thy ===== *)
theory World
  imports Fence_Registry Dedup Redis Kafka Codec Metrics
begin

text \<open>
  What the handlers of one process share: the in-memory broker, the metrics registry, the
  event bus with the subscriptions made on it, and the parts the processor and the geofence
  engine own (each service makes clients of its own, so in the in-memory build each has its
  own device store and its own relational store).

  A handler is a program \<open>(world, 'a) prog\<close>: it may change the world and may leave with an
  exception. Clocks are read one after the other; \<open>w_tick\<close> counts the readings and the
  environment says what each answers. \<open>en_insert\<close> is the insertion of a batch by the
  relational client: the in-memory client always succeeds with
  \<open>batch_insert_trip_points\<close>, a client over the network may raise instead.
\<close>

subsection \<open>State and environment\<close>

text \<open>The closures the components subscribe.\<close>

datatype handler = H_metrics | H_pipeline | H_state_write | H_trip_history | H_geofence

record world =
  w_broker :: broker
  w_metrics :: metrics
  w_bus :: "(event_type, handler) bus"
  w_trace :: "event list"
  w_tick :: nat
  w_consumer :: consumer
  w_redis :: redis
  w_pg :: postgres
  w_dedup :: dedup_window
  w_buffer :: "location_event list"
  w_last_flush :: int
  w_registry :: fence_registry
  w_fence_redis :: redis
  w_fence_pg :: postgres

record env =
  en_config :: config
  en_sys_ms :: "nat \<Rightarrow> int"
  en_steady_ns :: "nat \<Rightarrow> int"
  en_insert :: "location_event list \<Rightarrow> postgres \<Rightarrow> postgres exc"

definition memory_insert :: "location_event list \<Rightarrow> postgres \<Rightarrow> postgres exc" where
  "memory_insert es p = Inr (batch_insert_trip_points es p)"

definition new_world :: "broker \<Rightarrow> world" where
  "new_world b = \<lparr>w_broker = b, w_metrics = reset_for_test, w_bus = empty_bus, w_trace = [],
     w_tick = 0, w_consumer = new_consumer [], w_redis = new_redis, w_pg = new_postgres,
     w_dedup = new_dedup_window 0 0, w_buffer = [], w_last_flush = 0,
     w_registry = new_fence_registry, w_fence_redis = new_redis, w_fence_pg = new_postgres\<rparr>"

subsection \<open>Elementary programs\<close>

definition modify :: "('s \<Rightarrow> 's) \<Rightarrow> ('s, unit) prog" where
  "modify f = (\<lambda>s. (Inr (), f s))"

definition gets :: "('s \<Rightarrow> 'a) \<Rightarrow> ('s, 'a) prog" where
  "gets f = (\<lambda>s. (Inr (f s), s))"

definition skip :: "('s, unit) prog" where
  "skip = ret ()"

text \<open>Run the second program after the first, whose value is not needed.\<close>

definition andthen :: "('s, 'a) prog \<Rightarrow> ('s, 'b) prog \<Rightarrow> ('s, 'b) prog" where
  "andthen m k = seq_prog m (\<lambda>_. k)"

fun for_each :: "('x \<Rightarrow> ('s, unit) prog) \<Rightarrow> 'x list \<Rightarrow> ('s, unit) prog" where
  "for_each f [] = skip"
| "for_each f (x # xs) = andthen (f x) (for_each f xs)"

definition read_sys_ms :: "env \<Rightarrow> (world, int) prog" where
  "read_sys_ms v = (\<lambda>w. (Inr (en_sys_ms v (w_tick w)), w\<lparr>w_tick := w_tick w + 1\<rparr>))"

definition read_steady_ns :: "env \<Rightarrow> (world, int) prog" where
  "read_steady_ns v = (\<lambda>w. (Inr (en_steady_ns v (w_tick w)), w\<lparr>w_tick := w_tick w + 1\<rparr>))"

definition w_metric :: "metric_op \<Rightarrow> (world, unit) prog" where
  "w_metric p = modify (\<lambda>w. w\<lparr>w_metrics := apply_metric p (w_metrics w)\<rparr>)"

definition w_produce :: "string \<Rightarrow> string \<Rightarrow> string \<Rightarrow> (world, unit) prog" where
  "w_produce topic key payload = (\<lambda>w. case produce topic key payload (w_broker w) of
     Inl ex \<Rightarrow> (Inl ex, w) | Inr b \<Rightarrow> (Inr (), w\<lparr>w_broker := b\<rparr>))"

lemma prog_simps [simp, result_simps]:
  "modify f s = (Inr (), f s)" "gets g s = (Inr (g s), s)" "skip s = (Inr (), s)"
  "read_sys_ms v w = (Inr (en_sys_ms v (w_tick w)), w\<lparr>w_tick := w_tick w + 1\<rparr>)"
  "read_steady_ns v w = (Inr (en_steady_ns v (w_tick w)), w\<lparr>w_tick := w_tick w + 1\<rparr>)"
  "w_metric p w = (Inr (), w\<lparr>w_metrics := apply_metric p (w_metrics w)\<rparr>)"
  by (simp_all add: modify_def gets_def skip_def read_sys_ms_def read_steady_ns_def w_metric_def)

lemma andthen_simps [simp, result_simps]:
  "m s = (Inl e, s') \<Longrightarrow> andthen m k s = (Inl e, s')"
  "m s = (Inr a, s') \<Longrightarrow> andthen m k s = k s'"
  by (simp_all add: andthen_def)

lemma andthen_invariant:
  assumes "P s" "\<And>s. P s \<Longrightarrow> P (snd (m s))" "\<And>s. P s \<Longrightarrow> P (snd (k s))"
  shows "P (snd (andthen m k s))"
  using assms(1) assms(2) [of s] assms(3) [of "snd (m s)"]
  by (cases "m s"; cases "fst (m s)") auto

lemma seq_invariant:
  assumes "P s" "\<And>s. P s \<Longrightarrow> P (snd (m s))" "\<And>a s. P s \<Longrightarrow> P (snd (k a s))"
  shows "P (snd (seq_prog m k s))"
proof (cases "m s")
  case (Pair r s')
  then show ?thesis using assms(1) assms(2) [of s] assms(3) [of s'] by (cases r) simp_all
qed

lemma for_each_invariant:
  assumes "P s" "\<And>x s. x \<in> set xs \<Longrightarrow> P s \<Longrightarrow> P (snd (f x s))"
  shows "P (snd (for_each f xs s))"
  using assms
proof (induction xs arbitrary: s)
  case (Cons x xs)
  have "P (snd (f x s))" using Cons.prems by simp
  then have "P (snd (for_each f xs (snd (f x s))))" using Cons.IH Cons.prems(2) by simp
  then show ?case using \<open>P (snd (f x s))\<close> by (cases "f x s"; cases "fst (f x s)") auto
qed simp

lemma for_each_append: "for_each f (xs @ ys) s = andthen (for_each f xs) (for_each f ys) s"
proof (induction xs arbitrary: s)
  case (Cons x xs)
  show ?case
  proof (cases "f x s")
    case (Pair r s')
    then show ?thesis using Cons by (cases r) (simp_all add: andthen_def seq_prog_def)
  qed
qed simp

lemma for_each_total:
  assumes "\<And>x s. x \<in> set xs \<Longrightarrow> fst (f x s) = Inr ()"
  shows "for_each f xs s = (Inr (), fold (\<lambda>x s. snd (f x s)) xs s)"
  using assms
proof (induction xs arbitrary: s)
  case (Cons x xs)
  have "f x s = (Inr (), snd (f x s))" using Cons.prems [of x s] by (metis list.set_intros(1) prod.collapse)
  then show ?case using Cons by simp
qed simp

subsection \<open>Programs that keep an invariant\<close>

definition keeps :: "('s \<Rightarrow> bool) \<Rightarrow> ('s, 'a) prog \<Rightarrow> bool" where
  "keeps P m \<longleftrightarrow> (\<forall>s. P s \<longrightarrow> P (snd (m s)))"

named_theorems keep_intros \<open>rules for programs that keep an invariant\<close>

lemma keepsD: "keeps P m \<Longrightarrow> P s \<Longrightarrow> P (snd (m s))"
  by (simp add: keeps_def)

lemma keeps_ret [keep_intros]: "keeps P (ret a)" "keeps P (throw e)" "keeps P skip" "keeps P (gets f)"
  by (simp_all add: keeps_def)

lemma keeps_modify: "(\<And>s. P s \<Longrightarrow> P (f s)) \<Longrightarrow> keeps P (modify f)"
  by (simp add: keeps_def)

lemma keeps_seq [keep_intros]: "keeps P m \<Longrightarrow> (\<And>a. keeps P (k a)) \<Longrightarrow> keeps P (seq_prog m k)"
  unfolding keeps_def using seq_invariant by metis

lemma keeps_andthen [keep_intros]: "keeps P m \<Longrightarrow> keeps P k \<Longrightarrow> keeps P (andthen m k)"
  unfolding andthen_def by (rule keeps_seq)

lemma keeps_if [keep_intros]: "(b \<Longrightarrow> keeps P m) \<Longrightarrow> (\<not> b \<Longrightarrow> keeps P k) \<Longrightarrow> keeps P (if b then m else k)"
  by simp

lemma keeps_for_each [keep_intros]: "(\<And>x. keeps P (f x)) \<Longrightarrow> keeps P (for_each f xs)"
  unfolding keeps_def using for_each_invariant [of P _ xs f] by blast

lemma keeps_run_callbacks [keep_intros]: "(\<And>h. keeps P (f h)) \<Longrightarrow> keeps P (run_callbacks f hs)"
  unfolding keeps_def using run_callbacks_invariant [of P _ hs f] by blast

lemma keeps_produce:
  assumes "\<And>w. P w \<Longrightarrow> P (w\<lparr>w_broker := snd (append_message topic key payload (w_broker w))\<rparr>)"
  shows "keeps P (w_produce topic key payload)"
  using assms by (simp add: keeps_def w_produce_def produce_def)

lemma w_produce_total: "topic \<noteq> [] \<Longrightarrow>
  w_produce topic key payload w = (Inr (), w\<lparr>w_broker := snd (append_message topic key payload (w_broker w))\<rparr>)"
  by (simp add: w_produce_def produce_def)

end
