(* ===== verification/Processor.thy ===== *)
theory Processor
  imports World
begin

text \<open>
  The processor of \<open>processor/\<close>: the state writer, the sequence guard, the history writer with its
  dead-letter path, the handlers that put them on the bus, and one iteration of the
  processing loop. A publication is a parameter \<open>pub\<close> here (the bus is closed in
  \<open>Pipeline\<close>); \<open>None\<close> is the loop without a bus.

  The duplicate window reads its clock once or twice; the readings a call does not use are
  not observable, so two are taken here.

  The lemmas show what a state write does on every branch and where the events of a flushed batch
  are, whatever the store and the dead-letter producer do.
\<close>

subsection \<open>State writer and sequence guard\<close>

record state_write_outcome =
  sw_accepted :: bool
  sw_state :: device_state
  sw_previous_h3_cell :: cell

definition state_of_event :: "location_event \<Rightarrow> cell \<Rightarrow> int \<Rightarrow> device_state" where
  "state_of_event e c ts = \<lparr>ds_device_id = le_device_id e, ds_lat = le_lat e, ds_lon = le_lon e,
     ds_altitude_m = le_altitude_m e, ds_accuracy_m = le_accuracy_m e, ds_speed_ms = le_speed_ms e,
     ds_heading_deg = le_heading_deg e, ds_h3_cell = c, ds_seq = le_seq e, ds_updated_at = ts\<rparr>"

definition cell_of_state :: "device_state option \<Rightarrow> cell" where
  "cell_of_state s = (case s of None \<Rightarrow> 0 | Some s \<Rightarrow> ds_h3_cell s)"

definition resolution_of :: "env \<Rightarrow> int" where
  "resolution_of v = sp_h3_resolution (cf_spatial (en_config v))"

definition write_with_result :: "env \<Rightarrow> location_event \<Rightarrow> (world, state_write_outcome) prog" where
  "write_with_result v e =
     seq_prog (gets (\<lambda>w. get_device_state (w_redis w) (le_device_id e))) (\<lambda>previous.
       case lat_lng_to_cell (resolution_of v) (le_lat e) (le_lon e) of
         Inl ex \<Rightarrow> throw ex
       | Inr c \<Rightarrow>
           seq_prog (if le_server_recv_ms e = 0 then read_sys_ms v else ret (le_server_recv_ms e)) (\<lambda>ts w.
             let s = state_of_event e c ts;
                 (ok, r) = update_device_state_cas (le_device_id e) s
                             (rc_device_ttl_s (cf_redis (en_config v))) (w_redis w)
             in (Inr \<lparr>sw_accepted = ok, sw_state = s, sw_previous_h3_cell = cell_of_state previous\<rparr>,
                 w\<lparr>w_redis := r\<rparr>)))"

definition write_state :: "env \<Rightarrow> location_event \<Rightarrow> (world, bool) prog" where
  "write_state v e = seq_prog (write_with_result v e) (\<lambda>outcome. ret (sw_accepted outcome))"

definition should_accept :: "redis \<Rightarrow> string \<Rightarrow> u64 \<Rightarrow> bool" where
  "should_accept r d s = (case get_device_state r d of None \<Rightarrow> True | Some st \<Rightarrow> s > ds_seq st)"

definition current_seq :: "redis \<Rightarrow> string \<Rightarrow> u64" where
  "current_seq r d = (case get_device_state r d of None \<Rightarrow> 0 | Some st \<Rightarrow> ds_seq st)"

subsection \<open>History writer\<close>

definition buffer_event :: "location_event \<Rightarrow> (world, unit) prog" where
  "buffer_event e = andthen (modify (\<lambda>w. w\<lparr>w_buffer := w_buffer w @ [e]\<rparr>))
     (\<lambda>w. w_metric (Set_history_buffer_size (int (length (w_buffer w)))) w)"

definition dlq_topic :: string where
  "dlq_topic = ''tm.location.dlq''"

definition serialize_dlq_payload :: "location_event \<Rightarrow> string" where
  "serialize_dlq_payload e = join_on CHR '',''
     [le_device_id e, show_nat (unat (le_seq e)), show_int (le_timestamp_ms e),
      show_int (le_server_recv_ms e), show_double (le_lat e), show_double (le_lon e)]"

text \<open>The dead-letter producer is the argument \<open>send\<close>: a message is appended to the broker or an exception
  leaves the loop. \<open>flush_with\<close> is the code with any producer; the processor of this build has the
  in-memory one.\<close>

type_synonym sender = "string \<Rightarrow> string \<Rightarrow> string \<Rightarrow> broker \<Rightarrow> broker exc"

definition to_dlq_with :: "sender \<Rightarrow> location_event \<Rightarrow> (world, unit) prog" where
  "to_dlq_with send e = (\<lambda>w. case send dlq_topic (le_device_id e) (serialize_dlq_payload e) (w_broker w) of
     Inl ex \<Rightarrow> (Inl ex, w) | Inr b \<Rightarrow> (Inr (), w\<lparr>w_broker := b\<rparr>))"

definition elapsed_ms_double :: "int \<Rightarrow> int \<Rightarrow> double" where
  "elapsed_ms_double t0 t1 = ddiv (d_of_int (t1 - t0)) (Fin 1000000)"

definition flush_with :: "sender \<Rightarrow> env \<Rightarrow> (world, unit) prog" where
  "flush_with send v = (\<lambda>w.
     if w_buffer w = [] then (Inr (), w)
     else let batch = w_buffer w in
       seq_prog (read_steady_ns v) (\<lambda>start w1.
         case en_insert v batch (w_pg w1) of
           Inr p \<Rightarrow> seq_prog (read_steady_ns v) (\<lambda>stop.
               andthen (w_metric (Observe_postgis_write_latency (elapsed_ms_double start stop)))
                 (w_metric (Set_history_buffer_size 0))) (w1\<lparr>w_pg := p\<rparr>)
         | Inl _ \<Rightarrow> andthen (w_metric Inc_postgis_write_errors) (for_each (to_dlq_with send) batch) w1)
       (w\<lparr>w_buffer := []\<rparr>))"

definition to_dlq :: "location_event \<Rightarrow> (world, unit) prog" where
  "to_dlq = to_dlq_with produce"

definition flush_history :: "env \<Rightarrow> (world, unit) prog" where
  "flush_history = flush_with produce"

definition history_buffer_size :: "world \<Rightarrow> nat" where
  "history_buffer_size w = length (w_buffer w)"

definition should_flush :: "env \<Rightarrow> world \<Rightarrow> bool" where
  "should_flush v w = (wrap32 (int (length (w_buffer w))) \<ge> pr_history_batch_size (cf_processor (en_config v)))"

subsection \<open>Handlers on the bus\<close>

fun processor_handler :: "env \<Rightarrow> (event \<Rightarrow> (world, unit) prog) \<Rightarrow> event \<Rightarrow> (world, unit) prog" where
  "processor_handler v pub (StateWriteRequested e) =
     seq_prog (write_with_result v e) (\<lambda>outcome.
       if \<not> sw_accepted outcome then pub (StateWriteRejected e ''state write rejected'')
       else pub (StateWriteSucceeded e (sw_state outcome) (sw_previous_h3_cell outcome)))"
| "processor_handler v pub (TripHistoryWriteRequested e) =
     andthen (buffer_event e) (andthen (pub (TripHistoryWritten e))
       (seq_prog (gets (should_flush v)) (\<lambda>full. if full then flush_history v else skip)))"
| "processor_handler v pub _ = skip"

definition processor_subscriptions :: "(event_type \<times> handler) list" where
  "processor_subscriptions = [(T_StateWriteRequested, H_state_write), (T_TripHistoryWriteRequested, H_trip_history)]"

subsection \<open>The processing loop\<close>

definition w_poll :: "(world, kafka_message option) prog" where
  "w_poll = (\<lambda>w. let (m, c) = poll (w_broker w) (w_consumer w) in (Inr m, w\<lparr>w_consumer := c\<rparr>))"

definition w_commit :: "kafka_message \<Rightarrow> (world, unit) prog" where
  "w_commit m = modify (\<lambda>w. w\<lparr>w_consumer := commit_message m (w_consumer w)\<rparr>)"

definition w_is_duplicate :: "env \<Rightarrow> location_event \<Rightarrow> (world, bool) prog" where
  "w_is_duplicate v e = seq_prog (read_steady_ns v) (\<lambda>t1. seq_prog (read_steady_ns v) (\<lambda>t2 w.
     let (dup, d) = is_duplicate t1 t2 (le_device_id e) (le_seq e) (w_dedup w) in (Inr dup, w\<lparr>w_dedup := d\<rparr>)))"

definition w_mark_seen :: "env \<Rightarrow> location_event \<Rightarrow> (world, unit) prog" where
  "w_mark_seen v e = seq_prog (read_steady_ns v) (\<lambda>t1. seq_prog (read_steady_ns v) (\<lambda>t2.
     modify (\<lambda>w. w\<lparr>w_dedup := mark_seen t1 t2 (le_device_id e) (le_seq e) (w_dedup w)\<rparr>)))"

definition mark_flushed :: "env \<Rightarrow> (world, unit) prog" where
  "mark_flushed v = seq_prog (read_steady_ns v) (\<lambda>t. modify (\<lambda>w. w\<lparr>w_last_flush := t\<rparr>))"

text \<open>With a bus an outcome is published, without one it is counted.\<close>

definition report :: "(event \<Rightarrow> (world, unit) prog) option \<Rightarrow> event \<Rightarrow> metric_op \<Rightarrow> (world, unit) prog" where
  "report bus e p = (case bus of Some pub \<Rightarrow> pub e | None \<Rightarrow> w_metric p)"

definition idle_flush :: "env \<Rightarrow> (world, unit) prog" where
  "idle_flush v = seq_prog (read_steady_ns v) (\<lambda>now w.
     if history_buffer_size w > 0 \<and>
        cdiv (now - w_last_flush w) 1000000 \<ge> pr_history_flush_interval_ms (cf_processor (en_config v))
     then andthen (flush_history v) (mark_flushed v) w else (Inr (), w))"

definition write_directly :: "env \<Rightarrow> location_event \<Rightarrow> (world, unit) prog" where
  "write_directly v e = seq_prog (write_state v e) (\<lambda>ok.
     if \<not> ok then w_metric (Inc_truly_stale 1)
     else andthen (w_metric (Inc_events_accepted 1)) (andthen (buffer_event e)
       (seq_prog (gets (should_flush v)) (\<lambda>full. if full then andthen (flush_history v) (mark_flushed v) else skip))))"

definition process_event :: "env \<Rightarrow> (event \<Rightarrow> (world, unit) prog) option \<Rightarrow> location_event \<Rightarrow> (world, unit) prog" where
  "process_event v bus e =
     seq_prog (w_is_duplicate v e) (\<lambda>dup.
       if dup then report bus (LocationDuplicateRejected e) (Inc_dedup_hit 1)
       else andthen (w_mark_seen v e)
         (seq_prog (gets (\<lambda>w. (should_accept (w_redis w) (le_device_id e) (le_seq e),
                                current_seq (w_redis w) (le_device_id e)))) (\<lambda>(ok, cur).
           if \<not> ok then report bus (LocationStaleRejected e cur) (Inc_seq_guard_reject 1)
           else case bus of Some pub \<Rightarrow> pub (LocationAccepted e) | None \<Rightarrow> write_directly v e)))"

definition process_message :: "env \<Rightarrow> (event \<Rightarrow> (world, unit) prog) option \<Rightarrow> kafka_message \<Rightarrow> (world, unit) prog" where
  "process_message v bus m =
     (case decode_location_payload (km_payload m) of
        Inl _ \<Rightarrow> w_commit m
      | Inr e \<Rightarrow> andthen (process_event v bus e) (w_commit m))"

definition loop_step :: "env \<Rightarrow> (event \<Rightarrow> (world, unit) prog) option \<Rightarrow> (world, unit) prog" where
  "loop_step v bus = seq_prog w_poll (\<lambda>msg. case msg of None \<Rightarrow> idle_flush v | Some m \<Rightarrow> process_message v bus m)"

text \<open>\<open>ProcessingLoop::run\<close> for the number of iterations until the stop flag is seen.\<close>

fun loop_iterate :: "env \<Rightarrow> (event \<Rightarrow> (world, unit) prog) option \<Rightarrow> nat \<Rightarrow> (world, unit) prog" where
  "loop_iterate v bus 0 = flush_history v"
| "loop_iterate v bus (Suc n) = andthen (loop_step v bus) (loop_iterate v bus n)"

definition loop_run :: "env \<Rightarrow> (event \<Rightarrow> (world, unit) prog) option \<Rightarrow> nat \<Rightarrow> (world, unit) prog" where
  "loop_run v bus n = andthen (mark_flushed v) (loop_iterate v bus n)"

definition sample_env :: env where
  "sample_env = \<lparr>en_config = config_default, en_sys_ms = (\<lambda>n. 1000 + int n),
     en_steady_ns = (\<lambda>n. int n), en_insert = memory_insert\<rparr>"

definition failing_env :: env where
  "failing_env = sample_env\<lparr>en_insert := (\<lambda>es p. Inl ''connection lost'')\<rparr>"

subsection \<open>State writes\<close>

lemma write_with_result_cases:
  obtains (invalid) "\<not> valid_lat_lon (le_lat e) (le_lon e)"
      "write_with_result v e w = (Inl ''coordinate out of range'', w)"
  | (written) c ts w1 where "lat_lng_to_cell (resolution_of v) (le_lat e) (le_lon e) = Inr c"
      "valid_lat_lon (le_lat e) (le_lon e)"
      "ts = (if le_server_recv_ms e = 0 then en_sys_ms v (w_tick w) else le_server_recv_ms e)"
      "w1 = w\<lparr>w_tick := w_tick w + (if le_server_recv_ms e = 0 then 1 else 0)\<rparr>"
      "write_with_result v e w =
        (Inr \<lparr>sw_accepted = should_accept (w_redis w) (le_device_id e) (le_seq e), sw_state = state_of_event e c ts,
              sw_previous_h3_cell = cell_of_state (get_device_state (w_redis w) (le_device_id e))\<rparr>,
         w1\<lparr>w_redis := snd (update_device_state_cas (le_device_id e) (state_of_event e c ts)
              (rc_device_ttl_s (cf_redis (en_config v))) (w_redis w))\<rparr>)"
proof (cases "lat_lng_to_cell (resolution_of v) (le_lat e) (le_lon e)")
  case (Inl ex)
  then have "\<not> valid_lat_lon (le_lat e) (le_lon e)" "ex = ''coordinate out of range''"
    by (auto simp: lat_lng_to_cell_def Let_def split: if_splits)
  then show ?thesis using Inl invalid by (simp add: write_with_result_def)
next
  case (Inr c)
  then have valid: "valid_lat_lon (le_lat e) (le_lon e)" using lat_lng_to_cell_ok_iff by blast
  have acc: "fst (update_device_state_cas (le_device_id e) (state_of_event e c ts) ttl (w_redis w)) =
      should_accept (w_redis w) (le_device_id e) (le_seq e)" for ts ttl
    by (simp add: cas_ok_iff should_accept_def state_of_event_def split: option.split)
  show ?thesis
  proof (cases "le_server_recv_ms e = 0")
    case True
    show ?thesis
      by (rule written [OF Inr valid, of "en_sys_ms v (w_tick w)" "w\<lparr>w_tick := w_tick w + 1\<rparr>"])
        (simp_all add: True write_with_result_def Inr Let_def case_prod_beta acc)
  next
    case False
    show ?thesis
      by (rule written [OF Inr valid, of "le_server_recv_ms e" w])
        (simp_all add: False write_with_result_def Inr Let_def case_prod_beta acc)
  qed
qed

text \<open>C10: A state write of an event with valid coordinates returns. It is accepted exactly when the
  sequence guard lets the event through; then the device has the state of the event in the
  cell of its coordinates, stamped with the time the gateway received the event or, if it has
  none, the clock reading of the write; otherwise the store is as it was. An event with
  coordinates out of range raises before anything is written. No other device, no fence state
  and no reservation changes, the cell index stays exact, and nothing outside the store is
  touched (the clock is read at most once).\<close>

theorem state_write_correct:
  "case write_with_result v e w of
     (Inl ex, w') \<Rightarrow> \<not> valid_lat_lon (le_lat e) (le_lon e) \<and> ex = ''coordinate out of range'' \<and> w' = w
   | (Inr r, w') \<Rightarrow> valid_lat_lon (le_lat e) (le_lon e) \<and>
       sw_accepted r = should_accept (w_redis w) (le_device_id e) (le_seq e) \<and>
       lat_lng_to_cell (resolution_of v) (le_lat e) (le_lon e) = Inr (ds_h3_cell (sw_state r)) \<and>
       sw_state r = state_of_event e (ds_h3_cell (sw_state r))
         (if le_server_recv_ms e = 0 then en_sys_ms v (w_tick w) else le_server_recv_ms e) \<and>
       sw_previous_h3_cell r = cell_of_state (get_device_state (w_redis w) (le_device_id e)) \<and>
       (\<forall>d. get_device_state (w_redis w') d =
          (if d = le_device_id e \<and> sw_accepted r then Some (sw_state r) else get_device_state (w_redis w) d)) \<and>
       (\<not> sw_accepted r \<longrightarrow> w_redis w' = w_redis w) \<and>
       rd_fence_states (w_redis w') = rd_fence_states (w_redis w) \<and>
       rd_reservations (w_redis w') = rd_reservations (w_redis w) \<and>
       (index_exact (w_redis w) \<and> redis_ok (w_redis w) \<longrightarrow> index_exact (w_redis w')) \<and>
       w' = w\<lparr>w_redis := w_redis w', w_tick := w_tick w + (if le_server_recv_ms e = 0 then 1 else 0)\<rparr>"
proof (cases rule: write_with_result_cases [of e v w])
  case invalid
  then show ?thesis by simp
next
  case (written c ts w1)
  let ?s = "state_of_event e c ts" and ?ttl = "rc_device_ttl_s (cf_redis (en_config v))"
  let ?cas = "update_device_state_cas (le_device_id e) ?s ?ttl (w_redis w)"
  have acc: "fst ?cas = should_accept (w_redis w) (le_device_id e) (le_seq e)"
    by (simp add: cas_ok_iff should_accept_def state_of_event_def split: option.split)
  have "?s\<lparr>ds_device_id := le_device_id e\<rparr> = ?s" by (simp add: state_of_event_def)
  then have "get_device_state (snd ?cas) d = (if d = le_device_id e \<and> fst ?cas then Some ?s
      else get_device_state (w_redis w) d)" for d
    by (simp add: get_after_cas)
  moreover have "index_exact (w_redis w) \<and> redis_ok (w_redis w) \<longrightarrow> index_exact (snd ?cas)"
    using cas_index_exact by blast
  moreover have "\<not> fst ?cas \<longrightarrow> snd ?cas = w_redis w"
    "rd_fence_states (snd ?cas) = rd_fence_states (w_redis w)" "rd_reservations (snd ?cas) = rd_reservations (w_redis w)"
    by (simp_all add: update_device_state_cas_def Let_def)
  moreover have "ds_h3_cell ?s = c" by (simp add: state_of_event_def)
  moreover have run: "write_with_result v e w = (Inr \<lparr>sw_accepted = should_accept (w_redis w) (le_device_id e) (le_seq e),
      sw_state = ?s, sw_previous_h3_cell = cell_of_state (get_device_state (w_redis w) (le_device_id e))\<rparr>,
      w\<lparr>w_redis := snd ?cas, w_tick := w_tick w + (if le_server_recv_ms e = 0 then 1 else 0)\<rparr>)"
    by (simp add: written(4,5))
  ultimately show ?thesis
    unfolding run prod.case sum.case written(3) [symmetric] acc using written(1,2) by simp
qed

theorem state_write_correct_witness:
  "get_device_state (w_redis (snd (write_with_result sample_env (location_event_default\<lparr>le_device_id := ''d''\<rparr>) (new_world [])))) ''x'' = None \<and>
   index_exact (w_redis (snd (write_with_result sample_env (location_event_default\<lparr>le_device_id := ''d''\<rparr>) (new_world []))))"
proof -
  define e where "e = location_event_default\<lparr>le_device_id := ''d''\<rparr>"
  have e: "le_device_id e = ''d''" by (simp add: e_def)
  have store: "get_device_state (w_redis (new_world [])) d = None" "index_exact (w_redis (new_world []))"
    "redis_ok (w_redis (new_world []))" for d
    by (simp_all add: new_world_def) (simp add: get_device_state_def new_redis_def)
  obtain r w' where run: "write_with_result sample_env e (new_world []) = (r, w')" by fastforce
  show ?thesis unfolding e_def [symmetric] run snd_conv
    using state_write_correct [where v = sample_env and e = e and w = "new_world []"] store
    by (cases r) (simp_all add: run e)
qed

subsection \<open>History\<close>

text \<open>The dead letters are in the format the ingest topic uses, so the decoder reads them.\<close>

lemma serialize_dlq_payload_encode: "serialize_dlq_payload e = encode_location_payload e"
  by (simp add: serialize_dlq_payload_def encode_location_payload_def)

text \<open>A producer that, when it returns, has appended the message.\<close>

definition appends :: "sender \<Rightarrow> bool" where
  "appends send \<longleftrightarrow> (\<forall>t k p b b'. send t k p b = Inr b' \<longrightarrow> b' = snd (append_message t k p b))"

lemma produce_appends: "appends produce"
  by (simp add: appends_def produce_def)

text \<open>The dead letters sent until one fails.\<close>

lemma to_dlq_prefix:
  assumes "appends send" "for_each (to_dlq_with send) es w = (r, w')"
  shows "\<exists>done lost b. es = done @ lost \<and> (lost = [] \<longleftrightarrow> r = Inr ()) \<and> w' = w\<lparr>w_broker := b\<rparr> \<and>
     map km_payload (topic_log b dlq_topic) =
       map km_payload (topic_log (w_broker w) dlq_topic) @ map encode_location_payload done \<and>
     (\<forall>t. t \<noteq> dlq_topic \<longrightarrow> topic_log b t = topic_log (w_broker w) t)"
  using assms(2)
proof (induction es arbitrary: w)
  case Nil
  then show ?case by (intro exI [of _ "[]"] exI [of _ "[]"] exI [of _ "w_broker w"]) simp
next
  case (Cons e es)
  show ?case
  proof (cases "send dlq_topic (le_device_id e) (serialize_dlq_payload e) (w_broker w)")
    case (Inl ex)
    then have "to_dlq_with send e w = (Inl ex, w)" by (simp add: to_dlq_with_def)
    then show ?thesis using Cons.prems
      by (intro exI [of _ "[]"] exI [of _ "e # es"] exI [of _ "w_broker w"]) auto
  next
    case (Inr b1)
    have b1: "b1 = snd (append_message dlq_topic (le_device_id e) (encode_location_payload e) (w_broker w))"
      using assms(1) Inr unfolding appends_def serialize_dlq_payload_encode by blast
    have "to_dlq_with send e w = (Inr (), w\<lparr>w_broker := b1\<rparr>)" using Inr by (simp add: to_dlq_with_def)
    then have "for_each (to_dlq_with send) es (w\<lparr>w_broker := b1\<rparr>) = (r, w')" using Cons.prems by simp
    then obtain sent lost b where "es = sent @ lost" "lost = [] \<longleftrightarrow> r = Inr ()" "w' = w\<lparr>w_broker := b\<rparr>"
      "map km_payload (topic_log b dlq_topic) = map km_payload (topic_log b1 dlq_topic) @ map encode_location_payload sent"
      "\<forall>t. t \<noteq> dlq_topic \<longrightarrow> topic_log b t = topic_log b1 t"
      using Cons.IH [of "w\<lparr>w_broker := b1\<rparr>"] by auto
    then show ?thesis
      by (intro exI [of _ "e # sent"] exI [of _ lost] exI [of _ b]) (auto simp: b1 append_message_def Let_def)
  qed
qed

lemma to_dlq_total: "fst (for_each to_dlq es w) = Inr ()"
proof -
  have "fst (to_dlq e w) = Inr ()" for e w
    by (simp add: to_dlq_def to_dlq_with_def produce_def dlq_topic_def)
  then show ?thesis using for_each_total [of es to_dlq w] by simp
qed

lemma flush_with_spec:
  assumes "appends send" "flush_with send v w = (r, w')"
  shows "w_buffer w' = [] \<and>
     w_redis w' = w_redis w \<and> w_registry w' = w_registry w \<and> w_fence_redis w' = w_fence_redis w \<and>
     w_fence_pg w' = w_fence_pg w \<and> w_bus w' = w_bus w \<and> w_consumer w' = w_consumer w \<and>
     w_trace w' = w_trace w \<and> w_dedup w' = w_dedup w \<and>
     (if w_buffer w = [] then r = Inr () \<and> w' = w
      else case en_insert v (w_buffer w) (w_pg w) of
        Inr p \<Rightarrow> r = Inr () \<and> w_pg w' = p \<and> w_broker w' = w_broker w
      | Inl _ \<Rightarrow> w_pg w' = w_pg w \<and> (\<exists>sent lost. w_buffer w = sent @ lost \<and> (lost = [] \<longleftrightarrow> r = Inr ()) \<and>
          map km_payload (topic_log (w_broker w') dlq_topic) =
            map km_payload (topic_log (w_broker w) dlq_topic) @ map encode_location_payload sent \<and>
          (\<forall>t. t \<noteq> dlq_topic \<longrightarrow> topic_log (w_broker w') t = topic_log (w_broker w) t)))"
proof (cases "w_buffer w = []")
  case True
  then show ?thesis using assms(2) by (simp add: flush_with_def)
next
  case False
  show ?thesis
  proof (cases "en_insert v (w_buffer w) (w_pg w)")
    case (Inr p)
    then show ?thesis using False assms(2) by (auto simp: flush_with_def Let_def)
  next
    case (Inl ex)
    let ?w = "w\<lparr>w_buffer := [], w_tick := w_tick w + 1, w_metrics := apply_metric Inc_postgis_write_errors (w_metrics w)\<rparr>"
    have run: "for_each (to_dlq_with send) (w_buffer w) ?w = (r, w')"
      using False Inl assms(2) by (simp add: flush_with_def Let_def)
    obtain sent lost b where "w_buffer w = sent @ lost" "lost = [] \<longleftrightarrow> r = Inr ()" "w' = ?w\<lparr>w_broker := b\<rparr>"
      "map km_payload (topic_log b dlq_topic) =
         map km_payload (topic_log (w_broker w) dlq_topic) @ map encode_location_payload sent"
      "\<forall>t. t \<noteq> dlq_topic \<longrightarrow> topic_log b t = topic_log (w_broker w) t"
      using to_dlq_prefix [OF assms(1) run] by auto
    then show ?thesis using Inl False by auto
  qed
qed

text \<open>With the in-memory producer a flush never raises.\<close>

lemma flush_returns: "fst (flush_history v w) = Inr ()"
proof (cases "w_buffer w = []")
  case False
  then show ?thesis
    using to_dlq_total [of "w_buffer w"] unfolding flush_history_def flush_with_def to_dlq_def
    by (cases "en_insert v (w_buffer w) (w_pg w)") (simp_all add: Let_def)
qed (simp add: flush_history_def flush_with_def)

lemma flush_spec:
  assumes "flush_history v w = (r, w')"
  shows "r = Inr () \<and> w_buffer w' = [] \<and>
     w_redis w' = w_redis w \<and> w_registry w' = w_registry w \<and> w_fence_redis w' = w_fence_redis w \<and>
     w_fence_pg w' = w_fence_pg w \<and> w_bus w' = w_bus w \<and> w_consumer w' = w_consumer w \<and>
     w_trace w' = w_trace w \<and> w_dedup w' = w_dedup w \<and>
     (if w_buffer w = [] then w' = w
      else case en_insert v (w_buffer w) (w_pg w) of
        Inr p \<Rightarrow> w_pg w' = p \<and> w_broker w' = w_broker w
      | Inl _ \<Rightarrow> w_pg w' = w_pg w \<and>
          map km_payload (topic_log (w_broker w') dlq_topic) =
            map km_payload (topic_log (w_broker w) dlq_topic) @ map encode_location_payload (w_buffer w) \<and>
          (\<forall>t. t \<noteq> dlq_topic \<longrightarrow> topic_log (w_broker w') t = topic_log (w_broker w) t))"
proof -
  have "r = Inr ()" using flush_returns [of v w] assms by simp
  then show ?thesis
    using flush_with_spec [OF produce_appends assms [unfolded flush_history_def]]
    by (auto split: sum.splits)
qed

lemma flush_total: "\<exists>w'. flush_history v w = (Inr (), w')"
  using flush_spec [of v w] by (metis prod.exhaust)


definition one_event :: world where
  "one_event = (new_world [])\<lparr>w_buffer := [location_event_default]\<rparr>"


text \<open>A producer that raises loses the events from there on: they are no longer buffered, not stored and
  not among the dead letters.\<close>

lemma dead_letters_lost:
  assumes "\<And>t k p b. send t k p b = Inl ''queue full''" "en_insert v (w_buffer w) (w_pg w) = Inl ex" "w_buffer w \<noteq> []"
  shows "\<exists>w'. flush_with send v w = (Inl ''queue full'', w') \<and> w_buffer w' = [] \<and> w_pg w' = w_pg w \<and> w_broker w' = w_broker w"
proof -
  obtain e es where "w_buffer w = e # es" using assms(3) by (cases "w_buffer w") auto
  moreover have "to_dlq_with send e w = (Inl ''queue full'', w)" for e w by (simp add: to_dlq_with_def assms(1))
  ultimately show ?thesis using assms(2) by (simp add: flush_with_def Let_def)
qed

end
