(* ===== verification/Geofence.thy ===== *)
theory Geofence
  imports World
begin

text \<open>
  The geofence engine of \<open>geofence/\<close>: the evaluator of one movement, the dwell checker, the
  handler that puts the evaluator on the bus, and the engine that owns them.

  The abstract machine of one device at one fence is \<open>fence_step\<close>: OUTSIDE, INSIDE and DWELL with
  the events ENTER, DWELL and EXIT. The lemmas show what one evaluation and one dwell check do
  to every fence state, to the audit log and to the topic; \<open>fence_log_ok\<close> is the refinement:
  the audit log of a device at a fence is a run of the machine that ends in the stored state.
\<close>

subsection \<open>Records of events\<close>

definition make_event_record :: "string \<Rightarrow> geofence_rule \<Rightarrow> geofence_event_type \<Rightarrow> double \<Rightarrow> double \<Rightarrow> int \<Rightarrow>
    geofence_event_record" where
  "make_event_record d fence t lat lon ts =
     (geofence_event_default t)\<lparr>ge_device_id := d, ge_fence_id := gr_fence_id fence,
        ge_fence_name := gr_name fence, ge_lat := lat, ge_lon := lon, ge_event_ts_ms := ts\<rparr>"

definition make_dwell_record :: "fence_state_record \<Rightarrow> geofence_rule \<Rightarrow> int \<Rightarrow> geofence_event_record" where
  "make_dwell_record st fence now_ms =
     (geofence_event_default Ev_DWELL)\<lparr>ge_device_id := fs_device_id st, ge_fence_id := gr_fence_id fence,
        ge_fence_name := gr_name fence, ge_event_ts_ms := now_ms,
        ge_inside_duration_s := wrap32 (cdiv (now_ms - fs_entered_at_ms st) 1000)\<rparr>"

subsection \<open>The evaluator\<close>

definition fence_state_of :: "world \<Rightarrow> string \<Rightarrow> string \<Rightarrow> fence_state" where
  "fence_state_of w d f = (case get_fence_state (w_fence_redis w) d f of None \<Rightarrow> OUTSIDE | Some s \<Rightarrow> s)"

text \<open>The state is written, the audit record inserted and the event produced, in this order.\<close>

definition change_fence :: "string \<Rightarrow> string \<Rightarrow> string \<Rightarrow> fence_state \<Rightarrow> int \<Rightarrow> geofence_event_record \<Rightarrow>
    (world, unit) prog" where
  "change_fence topic d f st ts rec =
     andthen (modify (\<lambda>w. w\<lparr>w_fence_redis := set_fence_state d f st ts (w_fence_redis w),
                             w_fence_pg := insert_geofence_event rec (w_fence_pg w)\<rparr>))
       (w_produce topic d (encode_geofence_event_payload rec))"

definition evaluate_fence :: "string \<Rightarrow> string \<Rightarrow> double \<Rightarrow> double \<Rightarrow> int \<Rightarrow> geofence_rule \<Rightarrow> (world, unit) prog" where
  "evaluate_fence topic d lat lon ts fence =
     (let inside = point_in_polygon lat lon (gr_polygon_vertices fence); f = gr_fence_id fence in
      seq_prog (gets (\<lambda>w. fence_state_of w d f)) (\<lambda>previous.
        if inside \<and> previous = OUTSIDE
        then andthen (change_fence topic d f INSIDE ts (make_event_record d fence Ev_ENTER lat lon ts))
               (w_metric (Inc_geofence_event ''ENTER''))
        else if \<not> inside \<and> (previous = INSIDE \<or> previous = DWELL)
        then andthen (change_fence topic d f OUTSIDE ts (make_event_record d fence Ev_EXIT lat lon ts))
               (w_metric (Inc_geofence_event ''EXIT''))
        else skip))"

text \<open>The candidates of the new cell and, after a move between cells, of the old one.\<close>

definition add_candidate :: "geofence_rule \<Rightarrow> (string, geofence_rule) umap \<Rightarrow> (string, geofence_rule) umap" where
  "add_candidate r m = (if gr_active r then um_put (gr_fence_id r) r m else m)"

definition candidates :: "fence_registry \<Rightarrow> cell \<Rightarrow> cell \<Rightarrow> (string, geofence_rule) umap" where
  "candidates reg old_h3 new_h3 =
     (let m = fold add_candidate (get_candidates reg new_h3) [] in
      if old_h3 \<noteq> 0 \<and> old_h3 \<noteq> new_h3 then fold add_candidate (get_candidates reg old_h3) m else m)"

definition evaluate :: "string \<Rightarrow> string \<Rightarrow> cell \<Rightarrow> cell \<Rightarrow> double \<Rightarrow> double \<Rightarrow> int \<Rightarrow> (world, unit) prog" where
  "evaluate topic d old_h3 new_h3 lat lon ts =
     (if d = [] then skip
      else seq_prog (gets (\<lambda>w. candidates (w_registry w) old_h3 new_h3)) (\<lambda>cs.
        for_each (evaluate_fence topic d lat lon ts) (map snd cs)))"

subsection \<open>The dwell checker\<close>

definition dwell_due :: "geofence_config \<Rightarrow> int \<Rightarrow> geofence_rule option \<Rightarrow> fence_state_record \<Rightarrow> bool" where
  "dwell_due cfg now_ms fence st = (case fence of None \<Rightarrow> False | Some r \<Rightarrow>
     gr_active r \<and> fs_entered_at_ms st > 0 \<and>
     now_ms - fs_entered_at_ms st \<ge>
       (if gr_dwell_threshold_s r > 0 then gr_dwell_threshold_s r else gc_dwell_threshold_s cfg) * 1000)"

fun dwell_loop :: "string \<Rightarrow> geofence_config \<Rightarrow> int \<Rightarrow> fence_state_record list \<Rightarrow> nat \<Rightarrow> (world, nat) prog" where
  "dwell_loop topic cfg now_ms [] n = ret n"
| "dwell_loop topic cfg now_ms (st # sts) n =
     seq_prog (gets (\<lambda>w. get_fence (w_registry w) (fs_fence_id st))) (\<lambda>fence.
       if \<not> dwell_due cfg now_ms fence st then dwell_loop topic cfg now_ms sts n
       else andthen (change_fence topic (fs_device_id st) (fs_fence_id st) DWELL now_ms
                       (make_dwell_record st (the fence) now_ms))
              (dwell_loop topic cfg now_ms sts (n + 1)))"

definition check_once :: "string \<Rightarrow> geofence_config \<Rightarrow> int \<Rightarrow> (world, nat) prog" where
  "check_once topic cfg now_ms =
     seq_prog (gets (\<lambda>w. list_fence_states INSIDE (w_fence_redis w))) (\<lambda>sts. dwell_loop topic cfg now_ms sts 0)"

text \<open>\<open>DwellChecker::run\<close> for a number of iterations; each reads the system clock.\<close>

fun dwell_run :: "env \<Rightarrow> nat \<Rightarrow> (world, unit) prog" where
  "dwell_run v 0 = skip"
| "dwell_run v (Suc n) = seq_prog (read_sys_ms v) (\<lambda>now_ms.
     andthen (check_once (kc_geofence_topic (cf_kafka (en_config v))) (cf_geofence (en_config v)) now_ms)
       (dwell_run v n))"

subsection \<open>On the bus\<close>

fun geofence_handler :: "env \<Rightarrow> event \<Rightarrow> (world, unit) prog" where
  "geofence_handler v (GeofenceEvaluationRequested d old_h3 new_h3 lat lon ts) =
     evaluate (kc_geofence_topic (cf_kafka (en_config v))) d old_h3 new_h3 lat lon ts"
| "geofence_handler v _ = skip"

definition geofence_subscriptions :: "event_type list" where
  "geofence_subscriptions = [T_GeofenceEvaluationRequested]"

subsection \<open>What the evaluator promises\<close>

fun fence_step :: "fence_state \<Rightarrow> geofence_event_type \<Rightarrow> fence_state option" where
  "fence_step OUTSIDE Ev_ENTER = Some INSIDE"
| "fence_step INSIDE Ev_DWELL = Some DWELL"
| "fence_step INSIDE Ev_EXIT = Some OUTSIDE"
| "fence_step DWELL Ev_EXIT = Some OUTSIDE"
| "fence_step s t = None"

fun fence_run :: "fence_state \<Rightarrow> geofence_event_type list \<Rightarrow> fence_state option" where
  "fence_run s [] = Some s"
| "fence_run s (t # ts) = (case fence_step s t of None \<Rightarrow> None | Some s' \<Rightarrow> fence_run s' ts)"

lemma fence_run_append: "fence_run s (ts @ us) = (case fence_run s ts of None \<Rightarrow> None | Some s' \<Rightarrow> fence_run s' us)"
  by (induction ts arbitrary: s) (auto split: option.splits)

definition fence_next :: "bool \<Rightarrow> fence_state \<Rightarrow> fence_state" where
  "fence_next inside prev = (if inside then (if prev = OUTSIDE then INSIDE else prev) else OUTSIDE)"

definition fence_events :: "string \<Rightarrow> double \<Rightarrow> double \<Rightarrow> int \<Rightarrow> world \<Rightarrow> geofence_rule \<Rightarrow> geofence_event_record list" where
  "fence_events d lat lon ts w r =
     (let inside = point_in_polygon lat lon (gr_polygon_vertices r);
          previous = fence_state_of w d (gr_fence_id r) in
      if inside \<and> previous = OUTSIDE then [make_event_record d r Ev_ENTER lat lon ts]
      else if \<not> inside \<and> previous \<noteq> OUTSIDE then [make_event_record d r Ev_EXIT lat lon ts] else [])"

text \<open>What an operation of the engine leaves behind: more audit records, the same events on the
  topic in the same order, and nothing else outside the fence states.\<close>

definition emits :: "string \<Rightarrow> geofence_event_record list \<Rightarrow> world \<Rightarrow> world \<Rightarrow> bool" where
  "emits topic es w w' \<longleftrightarrow>
     pg_geofence_events (w_fence_pg w') = pg_geofence_events (w_fence_pg w) @ es \<and>
     map km_payload (topic_log (w_broker w') topic) =
       map km_payload (topic_log (w_broker w) topic) @ map encode_geofence_event_payload es \<and>
     (\<forall>t. t \<noteq> topic \<longrightarrow> topic_log (w_broker w') t = topic_log (w_broker w) t) \<and>
     w_registry w' = w_registry w \<and> w_redis w' = w_redis w \<and> w_pg w' = w_pg w \<and>
     w_buffer w' = w_buffer w \<and> w_bus w' = w_bus w \<and> w_trace w' = w_trace w"

lemma emits_refl [simp]: "emits topic [] w w"
  by (simp add: emits_def)

lemma emits_trans: "emits topic es w w' \<Longrightarrow> emits topic es' w' w'' \<Longrightarrow> emits topic (es @ es') w w''"
  by (simp add: emits_def)

lemma change_fence_total:
  assumes "topic \<noteq> []"
  shows "\<exists>w'. change_fence topic d f st ts rec w = (Inr (), w') \<and> emits topic [rec] w w' \<and>
    w_fence_redis w' = set_fence_state d f st ts (w_fence_redis w) \<and> w_metrics w' = w_metrics w"
  by (auto simp: change_fence_def w_produce_total [OF assms] emits_def insert_geofence_event_def
      append_message_def Let_def)

lemma fence_state_of_set:
  "w_fence_redis w' = set_fence_state d f st ts (w_fence_redis w) \<Longrightarrow>
   fence_state_of w' d' f' = (if fence_key d' f' = fence_key d f then st else fence_state_of w d' f')"
  by (simp add: fence_state_of_def get_fence_after_set)

lemma fence_state_of_key: "fence_key d f = fence_key d' f' \<Longrightarrow> fence_state_of w d f = fence_state_of w d' f'"
  by (simp add: fence_state_of_def get_fence_state_def get_fence_state_record_def)

lemma evaluate_fence_spec:
  assumes "topic \<noteq> []"
  shows "\<exists>w'. evaluate_fence topic d lat lon ts r w = (Inr (), w') \<and>
    emits topic (fence_events d lat lon ts w r) w w' \<and>
    (\<forall>d' f'. fence_state_of w' d' f' = (if fence_key d' f' = fence_key d (gr_fence_id r)
       then fence_next (point_in_polygon lat lon (gr_polygon_vertices r)) (fence_state_of w d (gr_fence_id r))
       else fence_state_of w d' f'))"
proof -
  let ?in = "point_in_polygon lat lon (gr_polygon_vertices r)" and ?prev = "fence_state_of w d (gr_fence_id r)"
  have metric: "emits topic es w (w1\<lparr>w_metrics := x\<rparr>) = emits topic es w w1"
    "fence_state_of (w1\<lparr>w_metrics := x\<rparr>) d' f' = fence_state_of w1 d' f'" for es w1 x d' f'
    by (simp_all add: emits_def fence_state_of_def)
  consider (enter) "?in" "?prev = OUTSIDE" | (exit) "\<not> ?in" "?prev \<noteq> OUTSIDE"
    | (stay) "?in \<longleftrightarrow> ?prev \<noteq> OUTSIDE" by blast
  then show ?thesis
  proof cases
    case enter
    obtain w1 where w1: "change_fence topic d (gr_fence_id r) INSIDE ts (make_event_record d r Ev_ENTER lat lon ts) w = (Inr (), w1)"
      "emits topic [make_event_record d r Ev_ENTER lat lon ts] w w1"
      "w_fence_redis w1 = set_fence_state d (gr_fence_id r) INSIDE ts (w_fence_redis w)"
      using change_fence_total [OF assms] by blast
    have "evaluate_fence topic d lat lon ts r w =
        (Inr (), w1\<lparr>w_metrics := apply_metric (Inc_geofence_event ''ENTER'') (w_metrics w1)\<rparr>)"
      using enter w1(1) by (simp add: evaluate_fence_def Let_def)
    moreover have "fence_events d lat lon ts w r = [make_event_record d r Ev_ENTER lat lon ts]"
      using enter by (simp add: fence_events_def Let_def)
    ultimately show ?thesis
      using w1(2) enter by (simp add: metric fence_state_of_set [OF w1(3)] fence_next_def)
  next
    case exit
    obtain w1 where w1: "change_fence topic d (gr_fence_id r) OUTSIDE ts (make_event_record d r Ev_EXIT lat lon ts) w = (Inr (), w1)"
      "emits topic [make_event_record d r Ev_EXIT lat lon ts] w w1"
      "w_fence_redis w1 = set_fence_state d (gr_fence_id r) OUTSIDE ts (w_fence_redis w)"
      using change_fence_total [OF assms] by blast
    have "?prev = INSIDE \<or> ?prev = DWELL" using exit(2) by (cases ?prev) simp_all
    then have "evaluate_fence topic d lat lon ts r w =
        (Inr (), w1\<lparr>w_metrics := apply_metric (Inc_geofence_event ''EXIT'') (w_metrics w1)\<rparr>)"
      using exit w1(1) by (simp add: evaluate_fence_def Let_def)
    moreover have "fence_events d lat lon ts w r = [make_event_record d r Ev_EXIT lat lon ts]"
      using exit by (simp add: fence_events_def Let_def)
    ultimately show ?thesis
      using w1(2) exit by (simp add: metric fence_state_of_set [OF w1(3)] fence_next_def)
  next
    case stay
    then have ev: "evaluate_fence topic d lat lon ts r w = (Inr (), w)"
      by (auto simp: evaluate_fence_def Let_def)
    have no: "fence_events d lat lon ts w r = []"
      using stay by (auto simp: fence_events_def Let_def)
    have same: "fence_next ?in ?prev = ?prev" using stay by (auto simp: fence_next_def)
    have "fence_state_of w d' f' = (if fence_key d' f' = fence_key d (gr_fence_id r)
        then fence_next ?in ?prev else fence_state_of w d' f')" for d' f'
      unfolding same using fence_state_of_key [of d' f' d "gr_fence_id r" w] by simp
    with ev show ?thesis unfolding no by (intro exI [of _ w] conjI allI emits_refl)
  qed
qed

text \<open>The keys of one device are different for different fences.\<close>

lemma fence_key_same_device [simp]: "fence_key d f = fence_key d f' \<longleftrightarrow> f = f'"
  by (simp add: fence_key_def)

lemma evaluate_fences_spec:
  assumes "topic \<noteq> []" "distinct (map gr_fence_id rs)"
  shows "\<exists>w'. for_each (evaluate_fence topic d lat lon ts) rs w = (Inr (), w') \<and>
    emits topic (concat (map (fence_events d lat lon ts w) rs)) w w' \<and>
    (\<forall>d' f'. fence_state_of w' d' f' =
       (case find (\<lambda>r. fence_key d' f' = fence_key d (gr_fence_id r)) rs of
          None \<Rightarrow> fence_state_of w d' f'
        | Some r \<Rightarrow> fence_next (point_in_polygon lat lon (gr_polygon_vertices r)) (fence_state_of w d (gr_fence_id r))))"
  using assms(2)
proof (induction rs arbitrary: w)
  case (Cons r rs)
  obtain w1 where w1: "evaluate_fence topic d lat lon ts r w = (Inr (), w1)"
    "emits topic (fence_events d lat lon ts w r) w w1"
    "\<And>d' f'. fence_state_of w1 d' f' = (if fence_key d' f' = fence_key d (gr_fence_id r)
       then fence_next (point_in_polygon lat lon (gr_polygon_vertices r)) (fence_state_of w d (gr_fence_id r))
       else fence_state_of w d' f')"
    using evaluate_fence_spec [OF assms(1)] by blast
  have same: "fence_state_of w1 d (gr_fence_id r') = fence_state_of w d (gr_fence_id r')"
    if "r' \<in> set rs" for r'
  proof -
    have "gr_fence_id r \<notin> gr_fence_id ` set rs" using Cons.prems by simp
    then have "gr_fence_id r' \<noteq> gr_fence_id r" using imageI [OF that, of gr_fence_id] by metis
    then show ?thesis by (simp add: w1(3))
  qed
  then have ev: "map (fence_events d lat lon ts w1) rs = map (fence_events d lat lon ts w) rs"
    by (intro map_cong) (simp_all add: fence_events_def)
  obtain w2 where w2: "for_each (evaluate_fence topic d lat lon ts) rs w1 = (Inr (), w2)"
    "emits topic (concat (map (fence_events d lat lon ts w1) rs)) w1 w2"
    "\<And>d' f'. fence_state_of w2 d' f' =
       (case find (\<lambda>r. fence_key d' f' = fence_key d (gr_fence_id r)) rs of
          None \<Rightarrow> fence_state_of w1 d' f'
        | Some r \<Rightarrow> fence_next (point_in_polygon lat lon (gr_polygon_vertices r)) (fence_state_of w1 d (gr_fence_id r)))"
    using Cons.IH [of w1] Cons.prems by auto
  have none: "find (\<lambda>r'. fence_key d' f' = fence_key d (gr_fence_id r')) rs = None"
    if "fence_key d' f' = fence_key d (gr_fence_id r)" for d' f'
    using Cons.prems that by (auto simp: find_None_iff)
  have "fence_state_of w2 d' f' =
       (case find (\<lambda>r. fence_key d' f' = fence_key d (gr_fence_id r)) (r # rs) of
          None \<Rightarrow> fence_state_of w d' f'
        | Some r \<Rightarrow> fence_next (point_in_polygon lat lon (gr_polygon_vertices r)) (fence_state_of w d (gr_fence_id r)))" for d' f'
  proof (cases "fence_key d' f' = fence_key d (gr_fence_id r)")
    case True
    then show ?thesis using none [OF True] by (simp add: w2(3) w1(3))
  next
    case False
    have "r' \<in> set rs" if "find (\<lambda>r. fence_key d' f' = fence_key d (gr_fence_id r)) rs = Some r'" for r'
      using that by (auto simp: find_Some_iff)
    then show ?thesis using False same by (simp add: w2(3) w1(3) [of d' f'] split: option.split)
  qed
  then show ?case using w1(1) w2(1) emits_trans [OF w1(2) w2(2)] by (simp add: ev)
qed simp

subsection \<open>The candidates\<close>

text \<open>The fences a movement concerns.\<close>

definition concerns :: "fence_registry \<Rightarrow> cell \<Rightarrow> cell \<Rightarrow> geofence_rule \<Rightarrow> bool" where
  "concerns reg old_h3 new_h3 r \<longleftrightarrow> get_fence reg (gr_fence_id r) = Some r \<and> gr_active r \<and>
     (new_h3 \<in> set (gr_h3_cells r) \<or> old_h3 \<noteq> 0 \<and> old_h3 \<in> set (gr_h3_cells r))"

lemma fold_add_candidate:
  assumes "um_ok m" "\<forall>f r. map_of m f = Some r \<longrightarrow> get_fence reg f = Some r"
    and "\<forall>r \<in> set rs. get_fence reg (gr_fence_id r) = Some r"
  shows "um_ok (fold add_candidate rs m) \<and>
    (\<forall>f r. map_of (fold add_candidate rs m) f = Some r \<longleftrightarrow>
       map_of m f = Some r \<or> r \<in> set rs \<and> gr_active r \<and> gr_fence_id r = f)"
  using assms
proof (induction rs arbitrary: m)
  case (Cons r rs)
  have reg: "get_fence reg (gr_fence_id r) = Some r" using Cons.prems(3) by simp
  have "um_ok (add_candidate r m)" using Cons.prems(1) by (simp add: add_candidate_def)
  moreover have "\<forall>f r'. map_of (add_candidate r m) f = Some r' \<longrightarrow> get_fence reg f = Some r'"
    using Cons.prems(2) reg by (auto simp: add_candidate_def)
  moreover have "\<forall>r \<in> set rs. get_fence reg (gr_fence_id r) = Some r" using Cons.prems(3) by simp
  ultimately have IH: "um_ok (fold add_candidate rs (add_candidate r m)) \<and>
      (\<forall>f r'. map_of (fold add_candidate rs (add_candidate r m)) f = Some r' \<longleftrightarrow>
         map_of (add_candidate r m) f = Some r' \<or> r' \<in> set rs \<and> gr_active r' \<and> gr_fence_id r' = f)"
    by (rule Cons.IH)
  have "map_of (add_candidate r m) f = Some r' \<longleftrightarrow>
      map_of m f = Some r' \<or> r' = r \<and> gr_active r \<and> gr_fence_id r = f" for f r'
    using Cons.prems(2) reg by (auto simp: add_candidate_def)
  with IH show ?case by auto
qed simp

lemma candidates_spec:
  assumes "registry_ok reg"
  shows "um_ok (candidates reg old_h3 new_h3) \<and>
    (\<forall>f r. map_of (candidates reg old_h3 new_h3) f = Some r \<longleftrightarrow> concerns reg old_h3 new_h3 r \<and> gr_fence_id r = f)"
proof -
  have cells: "set (get_candidates reg c) = {r. get_fence reg (gr_fence_id r) = Some r \<and> c \<in> set (gr_h3_cells r)}" for c
    by (rule get_candidates_set [OF assms])
  define m where "m = fold add_candidate (get_candidates reg new_h3) []"
  have m: "um_ok m" "\<And>f r. map_of m f = Some r \<longleftrightarrow>
      r \<in> set (get_candidates reg new_h3) \<and> gr_active r \<and> gr_fence_id r = f"
    using fold_add_candidate [of "[]" reg "get_candidates reg new_h3"] by (simp_all add: m_def cells)
  have m_reg: "\<forall>f r. map_of m f = Some r \<longrightarrow> get_fence reg f = Some r"
    unfolding m(2) cells by auto
  have m': "um_ok (fold add_candidate (get_candidates reg old_h3) m)"
    "\<And>f r. map_of (fold add_candidate (get_candidates reg old_h3) m) f = Some r \<longleftrightarrow> map_of m f = Some r \<or>
      r \<in> set (get_candidates reg old_h3) \<and> gr_active r \<and> gr_fence_id r = f"
    using fold_add_candidate [OF m(1) m_reg, of "get_candidates reg old_h3"] by (simp_all add: cells)
  show ?thesis
  proof (cases "old_h3 \<noteq> 0 \<and> old_h3 \<noteq> new_h3")
    case True
    then have c: "candidates reg old_h3 new_h3 = fold add_candidate (get_candidates reg old_h3) m"
      by (simp add: candidates_def m_def)
    show ?thesis unfolding c m'(2) m(2) cells using True m'(1) by (auto simp: concerns_def)
  next
    case False
    then have c: "candidates reg old_h3 new_h3 = m" by (auto simp: candidates_def m_def)
    show ?thesis unfolding c m(2) cells using False m(1) by (auto simp: concerns_def)
  qed
qed

lemma candidate_rules:
  assumes "registry_ok reg"
  shows "distinct (map gr_fence_id (map snd (candidates reg old_h3 new_h3))) \<and>
    set (map snd (candidates reg old_h3 new_h3)) = {r. concerns reg old_h3 new_h3 r}"
proof -
  let ?cs = "candidates reg old_h3 new_h3"
  have ok: "um_ok ?cs" using candidates_spec [OF assms] by simp
  have at: "(f, r) \<in> set ?cs \<longleftrightarrow> concerns reg old_h3 new_h3 r \<and> gr_fence_id r = f" for f r
    using candidates_spec [OF assms, of old_h3 new_h3] by (simp add: um_ok_in_set [OF ok])
  have nm: "gr_fence_id (snd x) = fst x" if "x \<in> set ?cs" for x
    using at [of "fst x" "snd x"] that unfolding prod.collapse by blast
  have "map gr_fence_id (map snd ?cs) = map fst ?cs"
    by (simp add: nm)
  then have "distinct (map gr_fence_id (map snd ?cs))" using ok by (simp only: um_ok_def)
  moreover have "r \<in> set (map snd ?cs) \<longleftrightarrow> concerns reg old_h3 new_h3 r" for r
    unfolding set_map using at by (metis (no_types, lifting) image_iff prod.collapse snd_conv)
  ultimately show ?thesis by blast
qed

lemma evaluate_spec:
  assumes "registry_ok (w_registry w)" "topic \<noteq> []" "d \<noteq> []"
  shows "\<exists>w' es. evaluate topic d old_h3 new_h3 lat lon ts w = (Inr (), w') \<and> emits topic es w w' \<and>
    (\<forall>f. fence_state_of w' d f = (case get_fence (w_registry w) f of
         None \<Rightarrow> fence_state_of w d f
       | Some r \<Rightarrow> if concerns (w_registry w) old_h3 new_h3 r
           then fence_next (point_in_polygon lat lon (gr_polygon_vertices r)) (fence_state_of w d f)
           else fence_state_of w d f)) \<and>
    (\<forall>d' f'. (\<forall>f. fence_key d' f' \<noteq> fence_key d f) \<longrightarrow> fence_state_of w' d' f' = fence_state_of w d' f') \<and>
    distinct (map ge_fence_id es) \<and>
    set es = (\<Union>r \<in> {r. concerns (w_registry w) old_h3 new_h3 r}. set (fence_events d lat lon ts w r))"
proof -
  let ?reg = "w_registry w"
  define crs where "crs = map snd (candidates (w_registry w) old_h3 new_h3)"
  have rs: "distinct (map gr_fence_id crs)" "set crs = {r. concerns ?reg old_h3 new_h3 r}"
    using candidate_rules [OF assms(1)] unfolding crs_def by blast+
  obtain w' where w': "for_each (evaluate_fence topic d lat lon ts) crs w = (Inr (), w')"
    "emits topic (concat (map (fence_events d lat lon ts w) crs)) w w'"
    "\<And>d' f'. fence_state_of w' d' f' =
       (case find (\<lambda>r. fence_key d' f' = fence_key d (gr_fence_id r)) crs of
          None \<Rightarrow> fence_state_of w d' f'
        | Some r \<Rightarrow> fence_next (point_in_polygon lat lon (gr_polygon_vertices r)) (fence_state_of w d (gr_fence_id r)))"
    using evaluate_fences_spec [OF assms(2) rs(1)] by blast
  have "evaluate topic d old_h3 new_h3 lat lon ts w = (Inr (), w')"
    using w'(1) assms(3) by (simp add: evaluate_def crs_def)
  moreover have "fence_state_of w' d f = (case get_fence ?reg f of
         None \<Rightarrow> fence_state_of w d f
       | Some r \<Rightarrow> if concerns ?reg old_h3 new_h3 r
           then fence_next (point_in_polygon lat lon (gr_polygon_vertices r)) (fence_state_of w d f)
           else fence_state_of w d f)" for f
  proof (cases "find (\<lambda>r. fence_key d f = fence_key d (gr_fence_id r)) crs")
    case None
    then have "\<forall>r \<in> set crs. gr_fence_id r \<noteq> f"
      unfolding find_None_iff by (metis fence_key_same_device)
    then have "\<not> concerns ?reg old_h3 new_h3 r" if "gr_fence_id r = f" for r
      using that rs(2) by blast
    moreover have "gr_fence_id r = f" if "get_fence ?reg f = Some r" for r
      using registry_index.fence_named [OF assms(1) that] .
    ultimately show ?thesis using None by (auto simp: w'(3) split: option.split)
  next
    case (Some r)
    then have "r \<in> set crs" "gr_fence_id r = f" by (auto simp: find_Some_iff)
    then have "concerns ?reg old_h3 new_h3 r" "get_fence ?reg f = Some r"
      using rs(2) by (auto simp: concerns_def)
    then show ?thesis using Some \<open>gr_fence_id r = f\<close> by (simp add: w'(3))
  qed
  moreover have "fence_state_of w' d' f' = fence_state_of w d' f'"
    if "\<forall>f. fence_key d' f' \<noteq> fence_key d f" for d' f'
  proof -
    have "find (\<lambda>r. fence_key d' f' = fence_key d (gr_fence_id r)) crs = None"
      using that by (simp add: find_None_iff)
    then show ?thesis by (simp add: w'(3))
  qed
  moreover
  have "distinct (map ge_fence_id (concat (map (fence_events d lat lon ts w) rs)))"
    if "distinct (map gr_fence_id rs)" for rs :: "geofence_rule list"
    using that
  proof (induction rs)
    case (Cons r rs)
    have named: "ge_fence_id e = gr_fence_id r'" if "e \<in> set (fence_events d lat lon ts w r')" for e r'
      using that by (auto simp: fence_events_def make_event_record_def Let_def split: if_splits)
    have "distinct (map ge_fence_id (fence_events d lat lon ts w r))" by (simp add: fence_events_def Let_def)
    moreover have "gr_fence_id r \<notin> gr_fence_id ` set rs" using Cons.prems by simp
    then have "ge_fence_id ` set (fence_events d lat lon ts w r) \<inter>
        ge_fence_id ` set (concat (map (fence_events d lat lon ts w) rs)) = {}"
      using named by (auto simp: image_iff)
    ultimately show ?case using Cons by simp
  qed simp
  then have "distinct (map ge_fence_id (concat (map (fence_events d lat lon ts w) crs)))" using rs(1) .
  moreover have "set (concat (map (fence_events d lat lon ts w) crs)) =
      (\<Union>r \<in> {r. concerns ?reg old_h3 new_h3 r}. set (fence_events d lat lon ts w r))"
    using rs(2) by simp
  ultimately show ?thesis using w'(2)
    by (intro exI [of _ w'] exI [of _ "concat (map (fence_events d lat lon ts w) crs)"] conjI allI impI) blast+
qed

text \<open>C4: One evaluation of a movement always returns. Afterwards every active fence that covers the
  new cell or the old one has the state its polygon test calls for and every other fence
  state is as before; the audit log and the topic grow by the same events, exactly one for
  every fence entered or left.\<close>

theorem evaluate_correct:
  assumes "registry_ok (w_registry w)" "topic \<noteq> []" "d \<noteq> []"
  shows "\<exists>w' es. evaluate topic d old_h3 new_h3 lat lon ts w = (Inr (), w') \<and> emits topic es w w' \<and>
    (\<forall>f. fence_state_of w' d f = (case get_fence (w_registry w) f of
         None \<Rightarrow> fence_state_of w d f
       | Some r \<Rightarrow> if concerns (w_registry w) old_h3 new_h3 r
           then fence_next (point_in_polygon lat lon (gr_polygon_vertices r)) (fence_state_of w d f)
           else fence_state_of w d f)) \<and>
    (\<forall>d' f'. (\<forall>f. fence_key d' f' \<noteq> fence_key d f) \<longrightarrow> fence_state_of w' d' f' = fence_state_of w d' f') \<and>
    distinct (map ge_fence_id es) \<and>
    set es = (\<Union>r \<in> {r. concerns (w_registry w) old_h3 new_h3 r}. set (fence_events d lat lon ts w r))"
  by (rule evaluate_spec [OF assms])

definition sample_fence :: geofence_rule where
  "sample_fence = geofence_rule_default\<lparr>gr_fence_id := ''f'', gr_name := ''depot'',
     gr_polygon_vertices := [(Fin 0, Fin 0), (Fin 0, Fin 10), (Fin 10, Fin 0)], gr_h3_cells := [7]\<rparr>"

definition sample_fence_world :: world where
  "sample_fence_world = (new_world [])\<lparr>w_registry := load_registry (set_active_fences [sample_fence] new_postgres)\<rparr>"

lemma sample_fence_world_ok: "registry_ok (w_registry sample_fence_world)"
  by (simp add: sample_fence_world_def)

theorem evaluate_correct_witness:
  "\<exists>w' es. evaluate ''geo'' ''dev'' 0 7 (Fin 0) (Fin 10) 1000 sample_fence_world = (Inr (), w') \<and>
     emits ''geo'' es sample_fence_world w' \<and> distinct (map ge_fence_id es)"
  using evaluate_correct [OF sample_fence_world_ok, of "''geo''" "''dev''" 0 7 "Fin 0" "Fin 10" 1000] by blast

subsection \<open>The dwell checker\<close>

lemma dwell_loop_spec:
  assumes "topic \<noteq> []"
  shows "\<exists>w'. dwell_loop topic cfg now_ms sts n w =
      (Inr (n + length (filter (\<lambda>st. dwell_due cfg now_ms (get_fence (w_registry w) (fs_fence_id st)) st) sts)), w') \<and>
    emits topic (map (\<lambda>st. make_dwell_record st (the (get_fence (w_registry w) (fs_fence_id st))) now_ms)
      (filter (\<lambda>st. dwell_due cfg now_ms (get_fence (w_registry w) (fs_fence_id st)) st) sts)) w w' \<and>
    (\<forall>d f. fence_state_of w' d f =
      (if \<exists>st \<in> set sts. dwell_due cfg now_ms (get_fence (w_registry w) (fs_fence_id st)) st \<and>
           fence_key d f = fence_key (fs_device_id st) (fs_fence_id st)
       then DWELL else fence_state_of w d f))"
proof (induction sts arbitrary: n w)
  case (Cons st sts)
  let ?due = "dwell_due cfg now_ms (get_fence (w_registry w) (fs_fence_id st)) st"
  show ?case
  proof (cases ?due)
    case False
    have step: "dwell_loop topic cfg now_ms (st # sts) n w = dwell_loop topic cfg now_ms sts n w"
      using False by simp
    show ?thesis unfolding step using Cons.IH [of n w] False by simp
  next
    case True
    let ?rec = "make_dwell_record st (the (get_fence (w_registry w) (fs_fence_id st))) now_ms"
    obtain w1 where w1: "change_fence topic (fs_device_id st) (fs_fence_id st) DWELL now_ms ?rec w = (Inr (), w1)"
      "emits topic [?rec] w w1"
      "w_fence_redis w1 = set_fence_state (fs_device_id st) (fs_fence_id st) DWELL now_ms (w_fence_redis w)"
      using change_fence_total [OF assms] by blast
    have step: "dwell_loop topic cfg now_ms (st # sts) n w = dwell_loop topic cfg now_ms sts (n + 1) w1"
      using True w1(1) by simp
    have reg: "w_registry w1 = w_registry w" using w1(2) by (simp add: emits_def)
    obtain w2 where w2: "dwell_loop topic cfg now_ms sts (n + 1) w1 =
        (Inr (n + 1 + length (filter (\<lambda>st. dwell_due cfg now_ms (get_fence (w_registry w) (fs_fence_id st)) st) sts)), w2)"
      "emits topic (map (\<lambda>st. make_dwell_record st (the (get_fence (w_registry w) (fs_fence_id st))) now_ms)
        (filter (\<lambda>st. dwell_due cfg now_ms (get_fence (w_registry w) (fs_fence_id st)) st) sts)) w1 w2"
      "\<And>d f. fence_state_of w2 d f =
        (if \<exists>st \<in> set sts. dwell_due cfg now_ms (get_fence (w_registry w) (fs_fence_id st)) st \<and>
             fence_key d f = fence_key (fs_device_id st) (fs_fence_id st)
         then DWELL else fence_state_of w1 d f)"
      using Cons.IH [of "n + 1" w1] unfolding reg by blast
    show ?thesis unfolding step
      using True w2(1) emits_trans [OF w1(2) w2(2)]
      by (auto simp: w2(3) fence_state_of_set [OF w1(3)])
  qed
qed simp

lemma check_once_spec:
  assumes "topic \<noteq> []"
  shows "\<exists>w' due. check_once topic cfg now_ms w = (Inr (length due), w') \<and>
    due = filter (\<lambda>st. dwell_due cfg now_ms (get_fence (w_registry w) (fs_fence_id st)) st)
            (list_fence_states INSIDE (w_fence_redis w)) \<and>
    emits topic (map (\<lambda>st. make_dwell_record st (the (get_fence (w_registry w) (fs_fence_id st))) now_ms) due) w w' \<and>
    (\<forall>d f. fence_state_of w' d f =
      (if \<exists>st \<in> set due. fence_key d f = fence_key (fs_device_id st) (fs_fence_id st)
       then DWELL else fence_state_of w d f))"
proof -
  obtain w' where "dwell_loop topic cfg now_ms (list_fence_states INSIDE (w_fence_redis w)) 0 w =
      (Inr (length (filter (\<lambda>st. dwell_due cfg now_ms (get_fence (w_registry w) (fs_fence_id st)) st)
         (list_fence_states INSIDE (w_fence_redis w)))), w')"
    "emits topic (map (\<lambda>st. make_dwell_record st (the (get_fence (w_registry w) (fs_fence_id st))) now_ms)
      (filter (\<lambda>st. dwell_due cfg now_ms (get_fence (w_registry w) (fs_fence_id st)) st)
         (list_fence_states INSIDE (w_fence_redis w)))) w w'"
    "\<And>d f. fence_state_of w' d f =
      (if \<exists>st \<in> set (list_fence_states INSIDE (w_fence_redis w)).
           dwell_due cfg now_ms (get_fence (w_registry w) (fs_fence_id st)) st \<and>
           fence_key d f = fence_key (fs_device_id st) (fs_fence_id st)
       then DWELL else fence_state_of w d f)"
    using dwell_loop_spec [OF assms, of cfg now_ms "list_fence_states INSIDE (w_fence_redis w)" 0 w] by auto
  then show ?thesis by (intro exI conjI) (auto simp: check_once_def)
qed

text \<open>The stays a check is meant to report: longer than the threshold of the fence, or than the default
  one.\<close>

definition dwell_threshold_ms :: "geofence_config \<Rightarrow> geofence_rule \<Rightarrow> int" where
  "dwell_threshold_ms cfg r =
     (if gr_dwell_threshold_s r > 0 then gr_dwell_threshold_s r else gc_dwell_threshold_s cfg) * 1000"

definition stay_overdue :: "geofence_config \<Rightarrow> int \<Rightarrow> world \<Rightarrow> fence_state_record \<Rightarrow> bool" where
  "stay_overdue cfg now_ms w st = (case get_fence (w_registry w) (fs_fence_id st) of None \<Rightarrow> False
     | Some r \<Rightarrow> gr_active r \<and> fs_entered_at_ms st > 0 \<and> now_ms - fs_entered_at_ms st > dwell_threshold_ms cfg r)"

text \<open>The code also reports the stays that have just reached the threshold.\<close>

lemma dwell_due_at_threshold:
  "get_fence (w_registry w) (fs_fence_id st) = Some r \<Longrightarrow> gr_active r \<Longrightarrow> 0 < fs_entered_at_ms st \<Longrightarrow>
   now_ms - fs_entered_at_ms st = dwell_threshold_ms cfg r \<Longrightarrow>
   dwell_due cfg now_ms (get_fence (w_registry w) (fs_fence_id st)) st \<and> \<not> stay_overdue cfg now_ms w st"
  by (simp add: dwell_due_def stay_overdue_def dwell_threshold_ms_def)

text \<open>C20: A dwell check always returns. At a time at which no stay is exactly as long as its threshold,
  it moves to DWELL precisely the INSIDE states whose fence is loaded and active and whose stay is
  longer than the threshold of the fence (or the default one), counts them, and emits one event for
  each with the time of the stay; no other state changes.\<close>

theorem dwell_check_correct:
  assumes "topic \<noteq> []"
    and "\<And>st r. st \<in> set (list_fence_states INSIDE (w_fence_redis w)) \<Longrightarrow>
      get_fence (w_registry w) (fs_fence_id st) = Some r \<Longrightarrow> now_ms - fs_entered_at_ms st \<noteq> dwell_threshold_ms cfg r"
  shows "\<exists>w' due. check_once topic cfg now_ms w = (Inr (length due), w') \<and>
    due = filter (stay_overdue cfg now_ms w) (list_fence_states INSIDE (w_fence_redis w)) \<and>
    emits topic (map (\<lambda>st. make_dwell_record st (the (get_fence (w_registry w) (fs_fence_id st))) now_ms) due) w w' \<and>
    (\<forall>d f. fence_state_of w' d f =
      (if \<exists>st \<in> set due. fence_key d f = fence_key (fs_device_id st) (fs_fence_id st)
       then DWELL else fence_state_of w d f))"
proof -
  let ?sts = "list_fence_states INSIDE (w_fence_redis w)"
  have "dwell_due cfg now_ms (get_fence (w_registry w) (fs_fence_id st)) st \<longleftrightarrow> stay_overdue cfg now_ms w st"
    if "st \<in> set ?sts" for st
    using assms(2) [OF that]
    by (cases "get_fence (w_registry w) (fs_fence_id st)") (auto simp: dwell_due_def stay_overdue_def dwell_threshold_ms_def)
  then have due: "filter (\<lambda>st. dwell_due cfg now_ms (get_fence (w_registry w) (fs_fence_id st)) st) ?sts =
      filter (stay_overdue cfg now_ms w) ?sts" by (rule filter_cong [OF refl])
  then show ?thesis using check_once_spec [OF assms(1), of cfg now_ms w] by auto
qed

theorem dwell_check_correct_witness:
  "\<exists>w'. check_once ''geo'' geofence_config_default 1000500
      (sample_fence_world\<lparr>w_fence_redis := set_fence_state ''d'' ''f'' INSIDE 1000 new_redis\<rparr>) = (Inr 1, w')"
proof -
  let ?w = "sample_fence_world\<lparr>w_fence_redis := set_fence_state ''d'' ''f'' INSIDE 1000 new_redis\<rparr>"
  define st where "st = \<lparr>fs_device_id = ''d'', fs_fence_id = ''f'', fs_state = INSIDE, fs_entered_at_ms = 1000,
      fs_updated_at_ms = 1000\<rparr>"
  have sts: "list_fence_states INSIDE (w_fence_redis ?w) = [st]"
    by (simp add: list_fence_states_def set_fence_state_def new_redis_def Let_def st_def fence_key_def um_put_def)
  have "1000500 - fs_entered_at_ms st \<noteq> dwell_threshold_ms geofence_config_default r" for r
    unfolding dwell_threshold_ms_def st_def by simp presburger
  moreover have "get_fence (w_registry ?w) ''f'' = Some sample_fence"
    by (simp add: sample_fence_world_def get_fence_load load_active_fences_def set_active_fences_def
        sample_fence_def geofence_rule_default_def)
  then have "stay_overdue geofence_config_default 1000500 ?w st"
    by (simp add: stay_overdue_def st_def dwell_threshold_ms_def sample_fence_def geofence_rule_default_def
        geofence_config_default_def)
  moreover define w where "w = ?w"
  ultimately have "\<exists>w' due. check_once ''geo'' geofence_config_default 1000500 w = (Inr (length due), w') \<and>
      due = filter (stay_overdue geofence_config_default 1000500 w) [st]"
    using dwell_check_correct [of "''geo''" w 1000500 geofence_config_default, OF list.distinct(2)] sts
    unfolding w_def [symmetric] by force
  then show ?thesis using \<open>stay_overdue geofence_config_default 1000500 ?w st\<close> unfolding w_def by auto
qed

subsection \<open>The audit log is a run of the state machine\<close>

definition audit :: "string \<Rightarrow> string \<Rightarrow> world \<Rightarrow> geofence_event_type list" where
  "audit d f w = map ge_event_type
     (filter (\<lambda>e. ge_device_id e = d \<and> ge_fence_id e = f) (pg_geofence_events (w_fence_pg w)))"

definition plain_id :: "string \<Rightarrow> bool" where
  "plain_id d = (CHR '':'' \<notin> set d)"

definition fence_log_ok :: "world \<Rightarrow> bool" where
  "fence_log_ok w \<longleftrightarrow>
     (\<forall>d f. plain_id d \<longrightarrow> fence_run OUTSIDE (audit d f w) = Some (fence_state_of w d f)) \<and>
     um_ok (rd_fence_states (w_fence_redis w)) \<and>
     (\<forall>k rec. map_of (rd_fence_states (w_fence_redis w)) k = Some rec \<longrightarrow>
        k = fence_key (fs_device_id rec) (fs_fence_id rec) \<and> plain_id (fs_device_id rec))"

lemma change_fence_log:
  assumes "fence_log_ok w" "plain_id d" "fence_step (fence_state_of w d f) (ge_event_type rec) = Some st"
    and "ge_device_id rec = d" "ge_fence_id rec = f"
  shows "fence_log_ok (snd (change_fence topic d f st ts rec w))"
proof -
  let ?w = "w\<lparr>w_fence_redis := set_fence_state d f st ts (w_fence_redis w),
      w_fence_pg := insert_geofence_event rec (w_fence_pg w)\<rparr>"
  have run: "fence_run OUTSIDE (audit d' f' ?w) = Some (fence_state_of ?w d' f')" if "plain_id d'" for d' f'
  proof -
    have old: "fence_run OUTSIDE (audit d' f' w) = Some (fence_state_of w d' f')"
      using assms(1) that by (simp add: fence_log_ok_def)
    have audit: "audit d' f' ?w = audit d' f' w @ (if d' = d \<and> f' = f then [ge_event_type rec] else [])"
      using assms(4,5) by (auto simp: audit_def insert_geofence_event_def)
    have "fence_key d' f' = fence_key d f \<longleftrightarrow> d' = d \<and> f' = f"
      using fence_key_inj that assms(2) by (simp add: plain_id_def)
    then have "fence_state_of ?w d' f' = (if d' = d \<and> f' = f then st else fence_state_of w d' f')"
      using fence_state_of_set [of ?w d f st ts w] by simp
    then show ?thesis using old assms(3) by (auto simp: audit fence_run_append)
  qed
  have "um_ok (rd_fence_states (w_fence_redis ?w))"
    using assms(1) by (simp add: fence_log_ok_def set_fence_state_def Let_def)
  moreover have "k = fence_key (fs_device_id r) (fs_fence_id r) \<and> plain_id (fs_device_id r)"
    if "map_of (rd_fence_states (w_fence_redis ?w)) k = Some r" for k r
    using that assms(1,2) by (auto simp: fence_log_ok_def set_fence_state_def Let_def split: if_splits)
  ultimately have "fence_log_ok ?w" using run unfolding fence_log_ok_def by blast
  then have "fence_log_ok (?w\<lparr>w_broker := b\<rparr>)" for b
    by (simp add: fence_log_ok_def audit_def fence_state_of_def)
  with \<open>fence_log_ok ?w\<close> show ?thesis
    by (simp add: change_fence_def w_produce_def split: sum.split)
qed

lemma metric_log [simp]: "fence_log_ok (w\<lparr>w_metrics := x\<rparr>) = fence_log_ok w"
  by (simp add: fence_log_ok_def audit_def fence_state_of_def)

lemma evaluate_fence_log:
  assumes "fence_log_ok w" "plain_id d"
  shows "fence_log_ok (snd (evaluate_fence topic d lat lon ts r w))"
proof -
  let ?prev = "fence_state_of w d (gr_fence_id r)" and ?in = "point_in_polygon lat lon (gr_polygon_vertices r)"
  have metric: "fence_log_ok (snd (andthen m (w_metric p) w))" if "fence_log_ok (snd (m w))" for m p
    using that by (cases "m w"; cases "fst (m w)") auto
  have rec: "ge_device_id (make_event_record d r t lat lon ts) = d"
    "ge_fence_id (make_event_record d r t lat lon ts) = gr_fence_id r"
    "ge_event_type (make_event_record d r t lat lon ts) = t" for t
    by (simp_all add: make_event_record_def geofence_event_default_def)
  consider (enter) "?in" "?prev = OUTSIDE" | (exit) "\<not> ?in" "?prev = INSIDE \<or> ?prev = DWELL"
    | (stay) "evaluate_fence topic d lat lon ts r w = (Inr (), w)"
    by (cases ?in; cases ?prev) (auto simp: evaluate_fence_def Let_def)
  then show ?thesis
  proof cases
    case enter
    have "fence_log_ok (snd (change_fence topic d (gr_fence_id r) INSIDE ts (make_event_record d r Ev_ENTER lat lon ts) w))"
      using enter assms by (intro change_fence_log) (simp_all add: rec)
    then show ?thesis using enter metric by (simp add: evaluate_fence_def Let_def)
  next
    case exit
    have "fence_log_ok (snd (change_fence topic d (gr_fence_id r) OUTSIDE ts (make_event_record d r Ev_EXIT lat lon ts) w))"
      using exit assms by (intro change_fence_log) (auto simp: rec)
    then show ?thesis using exit metric by (auto simp: evaluate_fence_def Let_def)
  next
    case stay
    then show ?thesis using assms by simp
  qed
qed

lemma evaluate_log:
  assumes "fence_log_ok w" "plain_id d"
  shows "fence_log_ok (snd (evaluate topic d old_h3 new_h3 lat lon ts w))"
proof -
  have "fence_log_ok (snd (for_each (evaluate_fence topic d lat lon ts) rs w))" for rs
    by (rule for_each_invariant [of fence_log_ok]) (simp_all add: assms evaluate_fence_log)
  then show ?thesis using assms(1) by (simp add: evaluate_def)
qed

text \<open>The records the dwell loop still has to visit are INSIDE, under different keys.\<close>

definition pending_ok :: "fence_state_record list \<Rightarrow> world \<Rightarrow> bool" where
  "pending_ok sts w \<longleftrightarrow>
     (\<forall>st \<in> set sts. plain_id (fs_device_id st) \<and> fence_state_of w (fs_device_id st) (fs_fence_id st) = INSIDE) \<and>
     distinct (map (\<lambda>st. fence_key (fs_device_id st) (fs_fence_id st)) sts)"

lemma dwell_loop_log:
  assumes "fence_log_ok w" "pending_ok sts w" "registry_ok (w_registry w)"
  shows "fence_log_ok (snd (dwell_loop topic cfg now_ms sts n w))"
  using assms
proof (induction sts arbitrary: n w)
  case (Cons st sts)
  have st: "plain_id (fs_device_id st)" "fence_state_of w (fs_device_id st) (fs_fence_id st) = INSIDE"
    and rest: "pending_ok sts w"
    and key: "\<And>st'. st' \<in> set sts \<Longrightarrow>
      fence_key (fs_device_id st') (fs_fence_id st') \<noteq> fence_key (fs_device_id st) (fs_fence_id st)"
    using Cons.prems(2) by (auto simp: pending_ok_def rev_image_eqI)
  show ?case
  proof (cases "dwell_due cfg now_ms (get_fence (w_registry w) (fs_fence_id st)) st")
    case False
    then show ?thesis using Cons rest by simp
  next
    case True
    then obtain r where r: "get_fence (w_registry w) (fs_fence_id st) = Some r"
      by (auto simp: dwell_due_def split: option.splits)
    have id: "gr_fence_id r = fs_fence_id st" using registry_index.fence_named [OF Cons.prems(3) r] .
    let ?out = "change_fence topic (fs_device_id st) (fs_fence_id st) DWELL now_ms (make_dwell_record st r now_ms) w"
    have log: "fence_log_ok (snd ?out)"
      using Cons.prems(1) st id
      by (intro change_fence_log) (simp_all add: make_dwell_record_def geofence_event_default_def)
    have redis: "w_fence_redis (snd ?out) = set_fence_state (fs_device_id st) (fs_fence_id st) DWELL now_ms (w_fence_redis w)"
      and reg: "w_registry (snd ?out) = w_registry w"
      by (simp_all add: change_fence_def w_produce_def split: sum.split)
    have pend: "pending_ok sts (snd ?out)"
      using rest key by (simp add: pending_ok_def fence_state_of_set [OF redis])
    show ?thesis
    proof (cases ?out)
      case (Pair res w1)
      then show ?thesis
        using True r log Cons.IH [of w1 "n + 1"] pend reg Cons.prems(3) by (cases res) simp_all
    qed
  qed
qed simp

lemma check_once_log:
  assumes "fence_log_ok w" "registry_ok (w_registry w)"
  shows "fence_log_ok (snd (check_once topic cfg now_ms w))"
proof -
  let ?m = "rd_fence_states (w_fence_redis w)"
  have ok: "um_ok ?m" "\<And>k rec. (k, rec) \<in> set ?m \<Longrightarrow>
      k = fence_key (fs_device_id rec) (fs_fence_id rec) \<and> plain_id (fs_device_id rec)"
    using assms(1) by (auto simp: fence_log_ok_def um_ok_in_set)
  have keys: "map (\<lambda>st. fence_key (fs_device_id st) (fs_fence_id st)) (map snd ?m) = map fst ?m"
    using ok(2) by (auto simp: case_prod_beta prod_eq_iff)
  have "distinct (map (\<lambda>st. fence_key (fs_device_id st) (fs_fence_id st)) (map snd ?m))"
    unfolding keys using ok(1) by (simp add: um_ok_def)
  then have "distinct (map (\<lambda>st. fence_key (fs_device_id st) (fs_fence_id st)) (list_fence_states INSIDE (w_fence_redis w)))"
    by (simp only: list_fence_states_def distinct_map_filter)
  moreover have "plain_id (fs_device_id st) \<and> fence_state_of w (fs_device_id st) (fs_fence_id st) = INSIDE"
    if "st \<in> set (list_fence_states INSIDE (w_fence_redis w))" for st
  proof -
    have "st \<in> snd ` set ?m" and inside: "fs_state st = INSIDE"
      using that by (simp_all add: list_fence_states_def)
    then obtain k where k: "(k, st) \<in> set ?m" by (metis imageE prod.collapse)
    from k have "map_of ?m (fence_key (fs_device_id st) (fs_fence_id st)) = Some st"
      using ok(2) [OF k] um_ok_in_set [OF ok(1)] by metis
    then show ?thesis using ok(2) [OF k] inside
      by (simp add: fence_state_of_def get_fence_state_def get_fence_state_record_def)
  qed
  ultimately have "pending_ok (list_fence_states INSIDE (w_fence_redis w)) w" by (simp add: pending_ok_def)
  then show ?thesis using dwell_loop_log [OF assms(1) _ assms(2)] by (simp add: check_once_def)
qed

subsection \<open>The engine\<close>

record geofence_engine =
  fe_running :: bool
  fe_lifecycle :: lifecycle_state
  fe_started :: bool
  fe_subscriptions :: "event_type subscription list"

definition new_geofence_engine :: geofence_engine where
  "new_geofence_engine = \<lparr>fe_running = False, fe_lifecycle = Stopped, fe_started = False, fe_subscriptions = []\<rparr>"

text \<open>Start on the shared bus: new stores, an empty registry loaded from the new store, and the
  handler wired. The handlers of an earlier start were cleared when it was stopped.\<close>

definition start_engine :: "geofence_engine \<Rightarrow> world \<Rightarrow> geofence_engine \<times> world" where
  "start_engine g w =
     (if fe_running g then (g, w)
      else let (subs, b) = subscribe_all (map (\<lambda>t. (t, H_geofence)) geofence_subscriptions) (w_bus w) in
        (g\<lparr>fe_running := True, fe_lifecycle := Ready, fe_started := True, fe_subscriptions := subs\<rparr>,
         w\<lparr>w_fence_redis := new_redis, w_fence_pg := new_postgres,
           w_registry := load_registry new_postgres, w_bus := b\<rparr>))"

definition stop_engine :: "geofence_engine \<Rightarrow> world \<Rightarrow> geofence_engine \<times> world" where
  "stop_engine g w =
     (if \<not> fe_running g then (g, w)
      else let (subs, b) = sub_clear (fe_subscriptions g) (w_bus w) in
        (g\<lparr>fe_running := False, fe_lifecycle := Stopped, fe_subscriptions := subs\<rparr>, w\<lparr>w_bus := b\<rparr>))"

definition engine_is_healthy :: "geofence_engine \<Rightarrow> bool" where
  "engine_is_healthy g = fe_running g"

definition engine_is_ready :: "geofence_engine \<Rightarrow> bool" where
  "engine_is_ready g = (fe_lifecycle g = Ready)"

definition engine_health :: "geofence_engine \<Rightarrow> health_snapshot" where
  "engine_health g = (case fe_lifecycle g of
       Ready \<Rightarrow> ready_health ''geofence evaluating events''
     | Starting \<Rightarrow> starting_health ''geofence starting''
     | Draining \<Rightarrow> draining_health ''geofence draining''
     | LFailed \<Rightarrow> failed_health ''geofence failed''
     | Stopped \<Rightarrow> stopped_health ''geofence stopped'')"

definition engine_subscription_count :: "geofence_engine \<Rightarrow> nat" where
  "engine_subscription_count g = (if fe_started g then length (fe_subscriptions g) else 0)"

definition load_fences_for_test :: "geofence_rule list \<Rightarrow> geofence_engine \<Rightarrow> world \<Rightarrow> world" where
  "load_fences_for_test fences g w =
     (if \<not> fe_started g then w
      else let p = set_active_fences fences (w_fence_pg w) in
        w\<lparr>w_fence_pg := p, w_registry := load_registry p\<rparr>)"

text \<open>What can happen to a started engine, in any order. Device identifiers without the separator
  of the fence keys, which the key of the in-memory store does not tell apart otherwise.\<close>

inductive engine_reach :: "string \<Rightarrow> geofence_config \<Rightarrow> world \<Rightarrow> bool" for topic cfg where
  started: "engine_reach topic cfg (snd (start_engine new_geofence_engine w))"
| loaded: "engine_reach topic cfg w \<Longrightarrow>
     engine_reach topic cfg (load_fences_for_test fences (fst (start_engine new_geofence_engine w)) w)"
| evaluated: "engine_reach topic cfg w \<Longrightarrow> plain_id d \<Longrightarrow>
     engine_reach topic cfg (snd (evaluate topic d old_h3 new_h3 lat lon ts w))"
| checked: "engine_reach topic cfg w \<Longrightarrow> engine_reach topic cfg (snd (check_once topic cfg now_ms w))"

lemma start_engine_log:
  assumes "start_engine new_geofence_engine w = (g, w')"
  shows "fence_log_ok w' \<and> registry_ok (w_registry w') \<and> pg_geofence_events (w_fence_pg w') = []"
  using assms
  by (auto simp: start_engine_def new_geofence_engine_def Let_def case_prod_beta fence_log_ok_def audit_def
      fence_state_of_def get_fence_state_def get_fence_state_record_def new_redis_def new_postgres_def)

lemma load_fences_log:
  assumes "fence_log_ok w" "registry_ok (w_registry w)"
  shows "fence_log_ok (load_fences_for_test fences g w) \<and> registry_ok (w_registry (load_fences_for_test fences g w))"
  using assms
  by (simp add: load_fences_for_test_def Let_def fence_log_ok_def audit_def fence_state_of_def set_active_fences_def)

lemma change_fence_registry [simp]: "w_registry (snd (change_fence topic d f st ts rec w)) = w_registry w"
  by (simp add: change_fence_def w_produce_def split: sum.split)

lemma evaluate_registry [simp]: "w_registry (snd (evaluate topic d old_h3 new_h3 lat lon ts w)) = w_registry w"
proof -
  have change: "w_registry (snd (andthen (change_fence topic d f st ts rec) (w_metric p) w)) = w_registry w"
    for f st ts rec p w
    using change_fence_registry [of topic d f st ts rec w]
    by (cases "change_fence topic d f st ts rec w"; cases "fst (change_fence topic d f st ts rec w)") auto
  have "w_registry (snd (evaluate_fence topic d lat lon ts r s)) = w_registry s" for r s
    by (simp add: evaluate_fence_def Let_def change)
  then have "w_registry (snd (for_each (evaluate_fence topic d lat lon ts) rs w)) = w_registry w" for rs
    by (rule_tac for_each_invariant [of "\<lambda>s. w_registry s = w_registry w"]) simp_all
  then show ?thesis by (simp add: evaluate_def)
qed

lemma dwell_loop_registry: "w_registry (snd (dwell_loop topic cfg now_ms sts n w)) = w_registry w"
proof (induction sts arbitrary: n w)
  case (Cons st sts)
  let ?rec = "make_dwell_record st (the (get_fence (w_registry w) (fs_fence_id st))) now_ms"
  let ?out = "change_fence topic (fs_device_id st) (fs_fence_id st) DWELL now_ms ?rec w"
  have "w_registry (snd ?out) = w_registry w" by simp
  then show ?case using Cons by (cases ?out; cases "fst ?out") auto
qed simp

lemma check_once_registry [simp]: "w_registry (snd (check_once topic cfg now_ms w)) = w_registry w"
  by (simp add: check_once_def dwell_loop_registry)

text \<open>C5: For devices whose identifiers have no colon, the separator of the keys of the in-memory store:
  whatever movements of such devices are evaluated, dwell checks run and fences reloaded after the
  engine has started, the audit log of every such device at every fence is a run of the state
  machine OUTSIDE, INSIDE, DWELL, and the stored state is where that run ends. So ENTER and EXIT
  alternate and a dwell is reported at most once per stay. (No guard refuses a colon, and two
  devices that differ in where it stands can share a state: \<open>fence_key_collision\<close>.)\<close>

theorem audit_log_is_run:
  assumes "engine_reach topic cfg w" "plain_id d"
  shows "fence_run OUTSIDE (audit d f w) = Some (fence_state_of w d f)"
proof -
  have "fence_log_ok w \<and> registry_ok (w_registry w)" using assms(1)
  proof (induction rule: engine_reach.induct)
    case (started w)
    then show ?case using start_engine_log [of w] by (metis prod.collapse)
  next
    case (loaded w fences)
    then show ?case using load_fences_log by blast
  next
    case (evaluated w d old_h3 new_h3 lat lon ts)
    then show ?case by (simp add: evaluate_log)
  next
    case (checked w now_ms)
    then show ?case by (simp add: check_once_log)
  qed
  then show ?thesis using assms(2) by (simp add: fence_log_ok_def)
qed

theorem audit_log_is_run_witness:
  "fence_run OUTSIDE (audit ''dev'' ''f'' (snd (check_once ''geo'' geofence_config_default 9000000
      (snd (evaluate ''geo'' ''dev'' 0 7 (Fin 0) (Fin 10) 1000
        (load_fences_for_test [sample_fence] (fst (start_engine new_geofence_engine
           (snd (start_engine new_geofence_engine (new_world [])))))
           (snd (start_engine new_geofence_engine (new_world [])))))))))
   = Some (fence_state_of (snd (check_once ''geo'' geofence_config_default 9000000
      (snd (evaluate ''geo'' ''dev'' 0 7 (Fin 0) (Fin 10) 1000
        (load_fences_for_test [sample_fence] (fst (start_engine new_geofence_engine
           (snd (start_engine new_geofence_engine (new_world [])))))
           (snd (start_engine new_geofence_engine (new_world [])))))))) ''dev'' ''f'')"
  by (rule audit_log_is_run [of "''geo''" geofence_config_default])
    (auto intro!: engine_reach.intros simp: plain_id_def)

end
