(* ===== verification/Pipeline.thy ===== *)
theory Pipeline
  imports Processor Geofence
begin

text \<open>
  The bus closed over its handlers: the components of one process, wired as the processor
  service and the geofence engine wire them, and the events that run between them.

  \<open>publish\<close> copies the callbacks of the event's type and runs them; a callback may publish in
  turn, so it is defined with fuel. \<open>rank\<close> bounds how deep the publications of an event can
  nest, whatever is subscribed: \<open>publish_enough_fuel\<close> shows that any fuel above the rank
  gives the same result, so the fuel \<open>event_fuel\<close> the service uses is never what ends a
  publication. Then the service with its start and stop, and what becomes of an accepted event.
\<close>

subsection \<open>Publication\<close>

fun call_handler :: "env \<Rightarrow> (event \<Rightarrow> (world, unit) prog) \<Rightarrow> event \<Rightarrow> handler \<Rightarrow> (world, unit) prog" where
  "call_handler v pub e H_metrics = modify (\<lambda>w. w\<lparr>w_metrics := on_metrics e (w_metrics w)\<rparr>)"
| "call_handler v pub e H_pipeline = for_each pub (pipeline_handler e)"
| "call_handler v pub e H_state_write = processor_handler v pub e"
| "call_handler v pub e H_trip_history = processor_handler v pub e"
| "call_handler v pub e H_geofence = geofence_handler v e"

definition record_event :: "event \<Rightarrow> world \<Rightarrow> world" where
  "record_event e w = w\<lparr>w_trace := w_trace w @ [e]\<rparr>"

fun publish :: "env \<Rightarrow> nat \<Rightarrow> event \<Rightarrow> (world, unit) prog" where
  "publish v 0 e = throw ''out of fuel''"
| "publish v (Suc n) e =
     (\<lambda>w. run_callbacks (call_handler v (publish v n) e) (callbacks_of (w_bus w) (type_of e)) (record_event e w))"

text \<open>How deep the publications an event causes can nest.\<close>

fun rank :: "event \<Rightarrow> nat" where
  "rank (LocationAccepted e) = 3"
| "rank (StateWriteRequested e) = 2"
| "rank (StateWriteSucceeded e s c) = 1"
| "rank (TripHistoryWriteRequested e) = 1"
| "rank e = 0"

definition event_fuel :: nat where
  "event_fuel = 4"

definition publish_event :: "env \<Rightarrow> event \<Rightarrow> (world, unit) prog" where
  "publish_event v = publish v event_fuel"

lemma rank_less_fuel: "rank e < event_fuel"
  by (cases e) (simp_all add: event_fuel_def)

lemma run_callbacks_cong:
  assumes "\<And>h s. h \<in> set hs \<Longrightarrow> f h s = g h s"
  shows "run_callbacks f hs s = run_callbacks g hs s"
  using assms
proof (induction hs arbitrary: s)
  case (Cons h hs)
  then show ?case by (auto simp: seq_prog_def split: prod.split sum.split)
qed simp

lemma for_each_cong:
  assumes "\<And>x s. x \<in> set xs \<Longrightarrow> f x s = g x s"
  shows "for_each f xs s = for_each g xs s"
  using assms
proof (induction xs arbitrary: s)
  case (Cons x xs)
  then show ?case by (auto simp: andthen_def seq_prog_def split: prod.split sum.split)
qed simp

text \<open>A handler publishes only events of a lower rank.\<close>

lemma seq_prog_cong: "(\<And>a s. k a s = k' a s) \<Longrightarrow> seq_prog m k = seq_prog m k'"
  by (auto simp: seq_prog_def fun_eq_iff split: prod.split sum.split)

lemma call_handler_lower:
  assumes "\<And>e' s. rank e' < rank e \<Longrightarrow> p e' s = q e' s"
  shows "call_handler v p e h s = call_handler v q e h s"
proof -
  have lower: "rank e' < rank e \<Longrightarrow> p e' = q e'" for e' using assms by (intro ext)
  have "for_each p (pipeline_handler e) s = for_each q (pipeline_handler e) s"
    by (rule for_each_cong) (cases e; auto intro: assms)
  moreover have "processor_handler v p e = processor_handler v q e"
  proof (cases e)
    case (StateWriteRequested x)
    have "p (StateWriteRejected x r) = q (StateWriteRejected x r)"
      "p (StateWriteSucceeded x st c) = q (StateWriteSucceeded x st c)" for r st c
      by (rule lower; simp add: StateWriteRequested)+
    then show ?thesis by (simp add: StateWriteRequested cong: if_cong)
  next
    case (TripHistoryWriteRequested x)
    have "p (TripHistoryWritten x) = q (TripHistoryWritten x)"
      by (rule lower) (simp add: TripHistoryWriteRequested)
    then show ?thesis by (simp add: TripHistoryWriteRequested)
  qed simp_all
  ultimately show ?thesis by (cases h) simp_all
qed

lemma publish_fuel_irrelevant: "rank e < n \<Longrightarrow> rank e < m \<Longrightarrow> publish v n e w = publish v m e w"
proof (induction "rank e" arbitrary: e n m w rule: less_induct)
  case less
  obtain n' m' where nm: "n = Suc n'" "m = Suc m'" using less.prems by (cases n; cases m) auto
  have "call_handler v (publish v n') e h s = call_handler v (publish v m') e h s" for h s
  proof (rule call_handler_lower)
    fix e' s assume low: "rank e' < rank e"
    then have "rank e' < n'" "rank e' < m'" using less.prems nm by simp_all
    then show "publish v n' e' s = publish v m' e' s" by (rule less.hyps [OF low])
  qed
  then show ?case unfolding nm by (auto intro: run_callbacks_cong)
qed

text \<open>C36: Publications end: whatever is subscribed to the bus, the publications an event causes nest
  at most as deep as its rank, so every fuel above it gives the result the service computes.\<close>

theorem publish_enough_fuel:
  assumes "event_fuel \<le> n"
  shows "publish v n e w = publish_event v e w"
  unfolding publish_event_def
  using assms rank_less_fuel [of e] by (intro publish_fuel_irrelevant) simp_all

theorem publish_enough_fuel_witness:
  "\<forall>v w. publish v 100 (LocationAccepted location_event_default) w = publish_event v (LocationAccepted location_event_default) w"
  using publish_enough_fuel [of 100] by (simp add: event_fuel_def)

subsection \<open>The processor service\<close>

record processor_service =
  ps_running :: bool
  ps_should_stop :: bool
  ps_lifecycle :: lifecycle_state
  ps_started :: bool
  ps_composition :: "event_type subscription list"
  ps_handlers :: "event_type subscription list"
  ps_metrics :: "event_type subscription list"

definition new_processor_service :: processor_service where
  "new_processor_service = \<lparr>ps_running = False, ps_should_stop = False, ps_lifecycle = Stopped,
     ps_started = False, ps_composition = [], ps_handlers = [], ps_metrics = []\<rparr>"

definition wire_pipeline :: "(event_type, handler) bus \<Rightarrow> event_type subscription list \<times> (event_type, handler) bus" where
  "wire_pipeline = subscribe_all (map (\<lambda>t. (t, H_pipeline)) pipeline_subscriptions)"

definition wire_processor :: "(event_type, handler) bus \<Rightarrow> event_type subscription list \<times> (event_type, handler) bus" where
  "wire_processor = subscribe_all processor_subscriptions"

definition wire_metrics :: "(event_type, handler) bus \<Rightarrow> event_type subscription list \<times> (event_type, handler) bus" where
  "wire_metrics = subscribe_all (map (\<lambda>t. (t, H_metrics)) metrics_subscriptions)"

text \<open>A resolution out of range makes the index raise; by then the broker clients and the stores
  are already new and the service is left in state Starting. The size of the window is the
  configured integer converted to \<open>size_t\<close>.\<close>

definition start_processor :: "env \<Rightarrow> processor_service \<Rightarrow> world \<Rightarrow> unit exc \<times> processor_service \<times> world" where
  "start_processor v s w =
     (if ps_running s then (Inr (), s, w)
      else let cfg = en_config v;
               w1 = w\<lparr>w_consumer := new_consumer [kc_ingest_topic (cf_kafka cfg)],
                      w_redis := new_redis, w_pg := new_postgres\<rparr> in
        (case new_h3_index (sp_h3_resolution (cf_spatial cfg)) of
           Inl ex \<Rightarrow> (Inl ex, s\<lparr>ps_should_stop := False, ps_lifecycle := Starting\<rparr>, w1)
         | Inr _ \<Rightarrow>
            (let (cs, b1) = wire_pipeline (w_bus w1);
                 (hs, b2) = wire_processor b1;
                 (ms, b3) = wire_metrics b2 in
             (Inr (), s\<lparr>ps_running := True, ps_should_stop := False, ps_lifecycle := Ready, ps_started := True,
                  ps_composition := cs, ps_handlers := hs, ps_metrics := ms\<rparr>,
              w1\<lparr>w_dedup := new_dedup_window (unat (of_int (pr_dedup_max_entries (cf_processor cfg)) :: u64))
                               (pr_dedup_ttl_s (cf_processor cfg)),
                 w_buffer := [], w_bus := b3\<rparr>))))"

text \<open>Stop, after the worker has been joined.\<close>

definition stop_processor :: "env \<Rightarrow> processor_service \<Rightarrow> world \<Rightarrow> processor_service \<times> world" where
  "stop_processor v s w =
     (if \<not> ps_running s then (s, w)
      else let w1 = snd (flush_history v w);
               (hs, b1) = sub_clear (ps_handlers s) (w_bus w1);
               (ms, b2) = sub_clear (ps_metrics s) b1;
               (cs, b3) = sub_clear (ps_composition s) b2 in
        (s\<lparr>ps_running := False, ps_should_stop := True, ps_lifecycle := Stopped,
           ps_handlers := hs, ps_metrics := ms, ps_composition := cs\<rparr>, w1\<lparr>w_bus := b3\<rparr>))"

definition processor_is_healthy :: "processor_service \<Rightarrow> bool" where
  "processor_is_healthy s = ps_running s"

definition processor_is_ready :: "processor_service \<Rightarrow> bool" where
  "processor_is_ready s = (ps_lifecycle s = Ready)"

definition processor_health :: "processor_service \<Rightarrow> health_snapshot" where
  "processor_health s = (case ps_lifecycle s of
       Ready \<Rightarrow> ready_health ''processor consuming events''
     | Starting \<Rightarrow> starting_health ''processor starting''
     | Draining \<Rightarrow> draining_health ''processor draining''
     | LFailed \<Rightarrow> failed_health ''processor failed''
     | Stopped \<Rightarrow> stopped_health ''processor stopped'')"

definition processor_subscription_count :: "processor_service \<Rightarrow> nat" where
  "processor_subscription_count s = length (ps_composition s) + length (ps_handlers s) + length (ps_metrics s)"

definition processor_step :: "env \<Rightarrow> (world, unit) prog" where
  "processor_step v = loop_step v (Some (publish_event v))"

definition processor_worker :: "env \<Rightarrow> nat \<Rightarrow> (world, unit) prog" where
  "processor_worker v n = loop_run v (Some (publish_event v)) n"

subsection \<open>The wiring\<close>

definition expected_wiring :: "(event_type \<times> handler) list" where
  "expected_wiring = map (\<lambda>t. (t, H_pipeline)) pipeline_subscriptions @ processor_subscriptions @
     map (\<lambda>t. (t, H_metrics)) metrics_subscriptions @ map (\<lambda>t. (t, H_geofence)) geofence_subscriptions"

definition wired :: "world \<Rightarrow> bool" where
  "wired w \<longleftrightarrow> (\<forall>k. callbacks_of (w_bus w) k = map snd (filter (\<lambda>p. fst p = k) expected_wiring))"

lemmas wiring_defs = expected_wiring_def pipeline_subscriptions_def processor_subscriptions_def
  metrics_subscriptions_def geofence_subscriptions_def

lemma wired_callbacks:
  assumes "wired w"
  shows "callbacks_of (w_bus w) T_LocationAccepted = [H_pipeline, H_metrics]"
    "callbacks_of (w_bus w) T_StateWriteRequested = [H_state_write]"
    "callbacks_of (w_bus w) T_StateWriteSucceeded = [H_pipeline]"
    "callbacks_of (w_bus w) T_StateWriteRejected = [H_metrics]"
    "callbacks_of (w_bus w) T_TripHistoryWriteRequested = [H_trip_history]"
    "callbacks_of (w_bus w) T_TripHistoryWritten = []"
    "callbacks_of (w_bus w) T_GeofenceEvaluationRequested = [H_geofence]"
    "callbacks_of (w_bus w) T_LocationDuplicateRejected = [H_metrics]"
    "callbacks_of (w_bus w) T_LocationStaleRejected = [H_metrics]"
  using assms by (simp_all add: wired_def wiring_defs)

lemma wired_bus: "w_bus w' = w_bus w \<Longrightarrow> wired w' = wired w"
  by (simp add: wired_def)

lemma record_event_simps [simp]:
  "w_bus (record_event e w) = w_bus w" "w_redis (record_event e w) = w_redis w"
  "w_trace (record_event e w) = w_trace w @ [e]" "w_buffer (record_event e w) = w_buffer w"
  "w_pg (record_event e w) = w_pg w" "w_broker (record_event e w) = w_broker w"
  "w_registry (record_event e w) = w_registry w" "w_fence_redis (record_event e w) = w_fence_redis w"
  "w_fence_pg (record_event e w) = w_fence_pg w" "w_consumer (record_event e w) = w_consumer w"
  "w_dedup (record_event e w) = w_dedup w"
  "wired (record_event e w) = wired w" "fence_state_of (record_event e w) = fence_state_of w"
  by (simp_all add: record_event_def wired_def fence_state_of_def fun_eq_iff)

lemma run_one: "run_callbacks f [h] s = f h s"
  by (cases "f h s"; cases "fst (f h s)") auto

lemma publish_none:
  "callbacks_of (w_bus w) (type_of e) = [] \<Longrightarrow> publish v (Suc n) e w = (Inr (), record_event e w)"
  by simp

lemma publish_one:
  "callbacks_of (w_bus w) (type_of e) = [h] \<Longrightarrow>
   publish v (Suc n) e w = call_handler v (publish v n) e h (record_event e w)"
  using run_one by simp

lemma publish_two:
  "callbacks_of (w_bus w) (type_of e) = [h, h'] \<Longrightarrow>
   publish v (Suc n) e w = andthen (call_handler v (publish v n) e h) (call_handler v (publish v n) e h') (record_event e w)"
  using run_one [of "call_handler v (publish v n) e"] by (simp add: andthen_def fun_eq_iff del: run_callbacks.simps)
    (simp add: seq_prog_def fun_eq_iff run_one split: prod.split sum.split)

declare publish.simps(2) [simp del]

subsection \<open>History requests\<close>

text \<open>Where an event is after its history request: in the buffer, or with the whole buffer in
  the store, or with it in the dead-letter topic.\<close>

definition history_kept :: "env \<Rightarrow> location_event \<Rightarrow> world \<Rightarrow> world \<Rightarrow> bool" where
  "history_kept v e w w' \<longleftrightarrow>
     (let batch = w_buffer w @ [e];
          dlq = (\<lambda>w. map km_payload (topic_log (w_broker w) dlq_topic)) in
      if \<not> should_flush v (w\<lparr>w_buffer := batch\<rparr>)
      then w_buffer w' = batch \<and> w_pg w' = w_pg w \<and> dlq w' = dlq w
      else w_buffer w' = [] \<and> (case en_insert v batch (w_pg w) of
          Inr p \<Rightarrow> w_pg w' = p \<and> dlq w' = dlq w
        | Inl _ \<Rightarrow> w_pg w' = w_pg w \<and> dlq w' = dlq w @ map encode_location_payload batch))"

lemma flush_outcome:
  "\<exists>w'. flush_history v w = (Inr (), w') \<and> w_buffer w' = [] \<and>
     w_redis w' = w_redis w \<and> w_registry w' = w_registry w \<and> w_fence_redis w' = w_fence_redis w \<and>
     w_fence_pg w' = w_fence_pg w \<and> w_bus w' = w_bus w \<and> w_consumer w' = w_consumer w \<and>
     w_trace w' = w_trace w \<and> w_dedup w' = w_dedup w \<and>
     (w_buffer w \<noteq> [] \<longrightarrow> (case en_insert v (w_buffer w) (w_pg w) of
        Inr p \<Rightarrow> w_pg w' = p \<and> w_broker w' = w_broker w
      | Inl _ \<Rightarrow> w_pg w' = w_pg w \<and>
          map km_payload (topic_log (w_broker w') dlq_topic) =
            map km_payload (topic_log (w_broker w) dlq_topic) @ map encode_location_payload (w_buffer w)))"
proof -
  obtain w' where "flush_history v w = (Inr (), w')"
    using flush_total [of v w] by blast
  then show ?thesis using flush_spec [of v w "Inr ()" w'] by (intro exI [of _ w']) (auto split: sum.splits)
qed

lemma trip_history_flow:
  assumes "wired w"
  shows "\<exists>w'. publish v (Suc (Suc n)) (TripHistoryWriteRequested e) w = (Inr (), w') \<and>
    w_trace w' = w_trace w @ [TripHistoryWriteRequested e, TripHistoryWritten e] \<and>
    history_kept v e w w' \<and> w_redis w' = w_redis w \<and> w_registry w' = w_registry w \<and>
    w_fence_redis w' = w_fence_redis w \<and> w_fence_pg w' = w_fence_pg w \<and> w_bus w' = w_bus w \<and>
    w_consumer w' = w_consumer w \<and> w_dedup w' = w_dedup w"
proof -
  define w1 where "w1 = (record_event (TripHistoryWriteRequested e) w)\<lparr>w_buffer := w_buffer w @ [e]\<rparr>"
  define w2 where "w2 = record_event (TripHistoryWritten e)
    (w1\<lparr>w_metrics := apply_metric (Set_history_buffer_size (int (length (w_buffer w1)))) (w_metrics w1)\<rparr>)"
  have buf: "buffer_event e (record_event (TripHistoryWriteRequested e) w) =
      (Inr (), w1\<lparr>w_metrics := apply_metric (Set_history_buffer_size (int (length (w_buffer w1)))) (w_metrics w1)\<rparr>)"
    by (simp add: buffer_event_def w1_def)
  have wired1: "wired (w1\<lparr>w_metrics := x\<rparr>)" for x using assms by (simp add: w1_def wired_def)
  have pub: "publish v (Suc n) (TripHistoryWritten e)
      (w1\<lparr>w_metrics := apply_metric (Set_history_buffer_size (int (length (w_buffer w1)))) (w_metrics w1)\<rparr>) = (Inr (), w2)"
    using wired_callbacks(6) [OF wired1] by (simp add: publish_none w2_def)
  have step: "publish v (Suc (Suc n)) (TripHistoryWriteRequested e) w =
      (if should_flush v w2 then flush_history v w2 else (Inr (), w2))"
    using buf pub by (simp add: publish_one wired_callbacks [OF assms] del: publish.simps(2) apply_metric.simps)
  have w2: "w_buffer w2 = w_buffer w @ [e]" "w_redis w2 = w_redis w" "w_pg w2 = w_pg w"
    "w_registry w2 = w_registry w" "w_fence_redis w2 = w_fence_redis w" "w_fence_pg w2 = w_fence_pg w"
    "w_bus w2 = w_bus w" "w_consumer w2 = w_consumer w" "w_dedup w2 = w_dedup w" "w_broker w2 = w_broker w"
    "w_trace w2 = w_trace w @ [TripHistoryWriteRequested e, TripHistoryWritten e]"
    "should_flush v w2 = should_flush v (w\<lparr>w_buffer := w_buffer w @ [e]\<rparr>)"
    by (simp_all add: w2_def w1_def should_flush_def)
  obtain w3 where w3: "flush_history v w2 = (Inr (), w3)" "w_buffer w3 = []"
     "w_redis w3 = w_redis w2" "w_registry w3 = w_registry w2" "w_fence_redis w3 = w_fence_redis w2"
     "w_fence_pg w3 = w_fence_pg w2" "w_bus w3 = w_bus w2" "w_consumer w3 = w_consumer w2"
     "w_trace w3 = w_trace w2" "w_dedup w3 = w_dedup w2"
     "case en_insert v (w_buffer w2) (w_pg w2) of
        Inr p \<Rightarrow> w_pg w3 = p \<and> w_broker w3 = w_broker w2
      | Inl _ \<Rightarrow> w_pg w3 = w_pg w2 \<and>
          map km_payload (topic_log (w_broker w3) dlq_topic) =
            map km_payload (topic_log (w_broker w2) dlq_topic) @ map encode_location_payload (w_buffer w2)"
    using flush_outcome [of v w2] w2(1) by auto
  show ?thesis
  proof (cases "should_flush v w2")
    case True
    have "history_kept v e w w3" using True w3(2,11) by (auto simp: history_kept_def Let_def w2 split: sum.splits)
    then show ?thesis using True step w3 by (simp add: w2)
  next
    case False
    then show ?thesis using step by (simp add: w2 history_kept_def Let_def)
  qed
qed

subsection \<open>Starting and stopping\<close>

abbreviation geofence_topic :: "env \<Rightarrow> string" where
  "geofence_topic v \<equiv> kc_geofence_topic (cf_kafka (en_config v))"

lemma start_processor_callbacks:
  assumes "start_processor v s w = (Inr (), s', w')" "\<not> ps_running s"
  shows "callbacks_of (w_bus w') k = callbacks_of (w_bus w) k @ map snd (filter (\<lambda>p. fst p = k)
      (map (\<lambda>t. (t, H_pipeline)) pipeline_subscriptions @ processor_subscriptions @
       map (\<lambda>t. (t, H_metrics)) metrics_subscriptions))"
  using assms
  by (auto simp: start_processor_def Let_def case_prod_beta wire_pipeline_def wire_processor_def wire_metrics_def
      callbacks_subscribe_all split: sum.splits)

lemma start_engine_callbacks:
  assumes "\<not> fe_running g"
  shows "callbacks_of (w_bus (snd (start_engine g w))) k =
    callbacks_of (w_bus w) k @ map snd (filter (\<lambda>p. fst p = k) (map (\<lambda>t. (t, H_geofence)) geofence_subscriptions))"
  using assms by (simp add: start_engine_def Let_def case_prod_beta callbacks_subscribe_all)

lemma start_all_wired:
  assumes "\<And>k. callbacks_of (w_bus w) k = []" "start_processor v new_processor_service w = (Inr (), s, w1)"
  shows "wired (snd (start_engine new_geofence_engine w1))"
  using start_processor_callbacks [OF assms(2)] assms(1)
  by (simp add: wired_def expected_wiring_def start_engine_callbacks new_processor_service_def new_geofence_engine_def)

lemma flush_bus: "w_bus (snd (flush_history v w)) = w_bus w"
  using flush_spec [of v w "fst (flush_history v w)" "snd (flush_history v w)"] by simp

lemma wire_lengths:
  "length (fst (wire_pipeline b)) = 2" "length (fst (wire_processor b)) = 2" "length (fst (wire_metrics b)) = 14"
  unfolding wire_pipeline_def wire_processor_def wire_metrics_def subscribe_all_length
  by (simp_all add: pipeline_subscriptions_def processor_subscriptions_def metrics_subscriptions_def)

lemma sub_clear_fst: "fst (sub_clear ss b) = []"
  by (induction ss b rule: sub_clear.induct) auto

lemma subscribe_all_next_id: "eb_next_id (snd (subscribe_all hs b)) = eb_next_id b + length hs"
  by (induction hs arbitrary: b) (auto simp: Let_def case_prod_beta)

text \<open>Three groups of subscriptions on one bus may be cleared in any order.\<close>

lemma three_wires_cleared:
  assumes "bus_ok b0" "subscribe_all xs b0 = (cs, b1)" "subscribe_all ys b1 = (hs, b2)" "subscribe_all zs b2 = (ms, b3)"
  shows "entries (snd (sub_clear cs (snd (sub_clear ms (snd (sub_clear hs b3)))))) k = entries b0 k"
proof -
  obtain nc where nc: "entries b1 k = entries b0 k @ nc" "\<forall>e \<in> set nc. Some (k, fst e) \<in> set cs"
    using subscribe_all_entries [of xs b0 k] assms(2) by auto
  obtain nh where nh: "entries b2 k = entries b1 k @ nh" "\<forall>e \<in> set nh. Some (k, fst e) \<in> set hs"
    using subscribe_all_entries [of ys b1 k] assms(3) by auto
  obtain nm where nm: "entries b3 k = entries b2 k @ nm" "\<forall>e \<in> set nm. Some (k, fst e) \<in> set ms"
    using subscribe_all_entries [of zs b2 k] assms(4) by auto
  have next_ids: "eb_next_id b0 \<le> eb_next_id b1" "eb_next_id b1 \<le> eb_next_id b2"
    using subscribe_all_next_id [of xs b0] subscribe_all_next_id [of ys b1] assms(2,3) by simp_all
  have fresh: "Some (k, fst e) \<notin> set cs \<and> Some (k, fst e) \<notin> set hs \<and> Some (k, fst e) \<notin> set ms"
    if "e \<in> set (entries b0 k)" for e
  proof -
    have "fst e < eb_next_id b0" using assms(1) that by (auto simp: bus_ok_def)
    then show ?thesis
      using subscribe_all_ids [of k "fst e" xs b0] subscribe_all_ids [of k "fst e" ys b1]
        subscribe_all_ids [of k "fst e" zs b2] assms(2-4) next_ids by auto
  qed
  have "filter (\<lambda>e. Some (k, fst e) \<notin> set cs) (filter (\<lambda>e. Some (k, fst e) \<notin> set ms)
      (filter (\<lambda>e. Some (k, fst e) \<notin> set hs) (entries b3 k))) =
    filter (\<lambda>e. Some (k, fst e) \<notin> set cs \<and> Some (k, fst e) \<notin> set ms \<and> Some (k, fst e) \<notin> set hs) (entries b3 k)"
    by (simp add: conj_commute conj_left_commute)
  also have "\<dots> = entries b0 k"
    using fresh nc(2) nh(2) nm(2) unfolding nm(1) nh(1) nc(1) by (simp add: filter_empty_conv filter_id_conv)
  finally show ?thesis by (simp add: sub_clear_entries)
qed

lemma sample_start: "\<exists>s w1. start_processor sample_env new_processor_service (new_world []) = (Inr (), s, w1)"
  by (simp add: start_processor_def new_processor_service_def Let_def case_prod_beta new_h3_index_def
      sample_env_def config_default_def spatial_config_default_def)

text \<open>Starting the processor on a bus and stopping it, with anything the worker does to the rest
  of the world in between, leaves the bus with the subscriptions it had, for every type of
  event; in between the service holds one active subscription per closure it wired, and
  starting it a second time or stopping it a second time changes nothing.\<close>

lemma processor_start_stop:
  assumes "bus_ok (w_bus w)" "\<not> ps_running s" "start_processor v s w = (Inr (), s1, w1)"
    and "w_bus w2 = w_bus w1" "stop_processor v s1 w2 = (s3, w3)"
  shows "entries (w_bus w3) k = entries (w_bus w) k \<and>
    processor_is_ready s1 \<and> processor_subscription_count s1 = 18 \<and>
    start_processor v s1 w2 = (Inr (), s1, w2) \<and>
    \<not> processor_is_healthy s3 \<and> processor_subscription_count s3 = 0 \<and> stop_processor v s3 w3 = (s3, w3)"
proof -
  obtain cs b1 where 1: "wire_pipeline (w_bus w) = (cs, b1)" by fastforce
  obtain hs b2 where 2: "wire_processor b1 = (hs, b2)" by fastforce
  obtain ms b3 where 3: "wire_metrics b2 = (ms, b3)" by fastforce
  have start: "ps_running s1" "ps_lifecycle s1 = Ready" "ps_composition s1 = cs" "ps_handlers s1 = hs"
    "ps_metrics s1 = ms" "w_bus w1 = b3"
    using assms(2,3) 1 2 3 by (auto simp: start_processor_def Let_def split: sum.splits)
  have lens: "length cs = 2" "length hs = 2" "length ms = 14"
    using wire_lengths [of "w_bus w"] wire_lengths [of b1] wire_lengths [of b2] 1 2 3 by simp_all
  have bus3: "w_bus w3 = snd (sub_clear cs (snd (sub_clear ms (snd (sub_clear hs b3)))))"
    and s3: "\<not> ps_running s3" "ps_composition s3 = []" "ps_handlers s3 = []" "ps_metrics s3 = []"
    using assms(4,5) start flush_bus [of v w2]
    by (auto simp: stop_processor_def Let_def case_prod_beta sub_clear_fst)
  have "entries (w_bus w3) k = entries (w_bus w) k"
    unfolding bus3 using three_wires_cleared [OF assms(1) 1 [unfolded wire_pipeline_def]
        2 [unfolded wire_processor_def] 3 [unfolded wire_metrics_def]] .
  then show ?thesis using start lens s3
    by (simp add: processor_is_ready_def processor_subscription_count_def start_processor_def
        processor_is_healthy_def stop_processor_def)
qed

definition sample_located :: location_event where
  "sample_located = location_event_default\<lparr>le_device_id := ''dev'', le_seq := 1\<rparr>"

definition sample_started :: world where
  "sample_started = snd (start_engine new_geofence_engine
     (snd (snd (start_processor sample_env new_processor_service (new_world [])))))"

lemma sample_topics: "geofence_topic sample_env \<noteq> []" "geofence_topic sample_env \<noteq> dlq_topic"
  by (simp_all add: sample_env_def config_default_def kafka_config_default_def dlq_topic_def)

lemma sample_started_ok: "wired sample_started" "registry_ok (w_registry sample_started)"
proof -
  obtain s w1 where start: "start_processor sample_env new_processor_service (new_world []) = (Inr (), s, w1)"
    using sample_start by blast
  have "callbacks_of (w_bus (new_world [])) k = []" for k
    by (simp add: new_world_def callbacks_of_def entries_def empty_bus_def)
  from start_all_wired [OF this start] show "wired sample_started" by (simp add: sample_started_def start)
  show "registry_ok (w_registry sample_started)"
    by (simp add: sample_started_def start_engine_def new_geofence_engine_def Let_def case_prod_beta)
qed

lemma sample_located_ok: "le_device_id sample_located \<noteq> []" "valid_lat_lon (le_lat sample_located) (le_lon sample_located)"
  by (simp_all add: sample_located_def location_event_default_def valid_lat_lon_def)

subsection \<open>What becomes of an accepted event\<close>

text \<open>What the processor and the broker's dead-letter topic look like to the history writer is
  not touched by a fence evaluation.\<close>

lemma history_kept_frame:
  assumes "history_kept v e w1 w2" "w_buffer w1 = w_buffer w" "w_pg w1 = w_pg w"
    and "topic_log (w_broker w1) dlq_topic = topic_log (w_broker w) dlq_topic"
  shows "history_kept v e w w2"
proof -
  have "should_flush v (w1\<lparr>w_buffer := w_buffer w @ [e]\<rparr>) = should_flush v (w\<lparr>w_buffer := w_buffer w @ [e]\<rparr>)"
    by (simp add: should_flush_def)
  then show ?thesis using assms unfolding history_kept_def Let_def by (simp split: sum.splits if_splits)
qed

lemma history_kept_metrics [simp]: "history_kept v e w (w'\<lparr>w_metrics := m\<rparr>) = history_kept v e w w'"
  by (simp add: history_kept_def Let_def split: sum.split)

lemma geofence_flow:
  assumes "wired w" "registry_ok (w_registry w)" "geofence_topic v \<noteq> []" "d \<noteq> []"
  shows "\<exists>w' es. publish v (Suc n) (GeofenceEvaluationRequested d c c' x y t) w = (Inr (), w') \<and>
    emits (geofence_topic v) es (record_event (GeofenceEvaluationRequested d c c' x y t) w) w' \<and>
    (\<forall>f r. get_fence (w_registry w) f = Some r \<and> concerns (w_registry w) c c' r \<longrightarrow>
       fence_state_of w' d f = fence_next (point_in_polygon x y (gr_polygon_vertices r)) (fence_state_of w d f))"
proof -
  let ?w = "record_event (GeofenceEvaluationRequested d c c' x y t) w"
  have reg: "registry_ok (w_registry ?w)" using assms(2) by simp
  obtain w' es where e: "evaluate (geofence_topic v) d c c' x y t ?w = (Inr (), w')"
    "emits (geofence_topic v) es ?w w'"
    "\<And>f. fence_state_of w' d f = (case get_fence (w_registry w) f of
         None \<Rightarrow> fence_state_of w d f
       | Some r \<Rightarrow> if concerns (w_registry w) c c' r
           then fence_next (point_in_polygon x y (gr_polygon_vertices r)) (fence_state_of w d f)
           else fence_state_of w d f)"
    using evaluate_spec [OF reg assms(3,4), of c c' x y t] unfolding record_event_simps by blast
  have "publish v (Suc n) (GeofenceEvaluationRequested d c c' x y t) w = (Inr (), w')"
    using e(1) by (simp add: publish_one wired_callbacks [OF assms(1)])
  then show ?thesis using e(2,3) by fastforce
qed

text \<open>The events the state request of an accepted event leads to.\<close>

lemma state_request_accepted:
  assumes "wired w" "registry_ok (w_registry w)" "geofence_topic v \<noteq> []" "le_device_id e \<noteq> []"
    and "valid_lat_lon (le_lat e) (le_lon e)" "should_accept (w_redis w) (le_device_id e) (le_seq e)"
  shows "\<exists>w' es s. publish v (Suc (Suc (Suc n))) (StateWriteRequested e) w = (Inr (), w') \<and>
    get_device_state (w_redis w') (le_device_id e) = Some s \<and>
    s = state_of_event e (ds_h3_cell s) (ds_updated_at s) \<and>
    lat_lng_to_cell (resolution_of v) (le_lat e) (le_lon e) = Inr (ds_h3_cell s) \<and>
    (let prev = cell_of_state (get_device_state (w_redis w) (le_device_id e)) in
      w_trace w' = w_trace w @ [StateWriteRequested e, StateWriteSucceeded e s prev,
        GeofenceEvaluationRequested (le_device_id e) prev (ds_h3_cell s) (le_lat e) (le_lon e) (ds_updated_at s)] \<and>
      (\<forall>f r. get_fence (w_registry w) f = Some r \<and> concerns (w_registry w) prev (ds_h3_cell s) r \<longrightarrow>
         fence_state_of w' (le_device_id e) f =
           fence_next (point_in_polygon (le_lat e) (le_lon e) (gr_polygon_vertices r))
             (fence_state_of w (le_device_id e) f))) \<and>
    emits (geofence_topic v) es (w\<lparr>w_redis := w_redis w', w_trace := w_trace w'\<rparr>) w'"
proof -
  let ?d = "le_device_id e" and ?w1 = "record_event (StateWriteRequested e) w"
  let ?prev = "cell_of_state (get_device_state (w_redis w) ?d)"
  show ?thesis
  proof (cases rule: write_with_result_cases [of e v ?w1])
    case invalid
    then show ?thesis using assms(5) by simp
  next
    case (written c ts w2)
    define s where "s = state_of_event e c ts"
    define r where "r = snd (update_device_state_cas ?d s (rc_device_ttl_s (cf_redis (en_config v))) (w_redis w))"
    define w3 where "w3 = w2\<lparr>w_redis := r\<rparr>"
    have w2: "w_bus w2 = w_bus w" "w_registry w2 = w_registry w" "w_trace w2 = w_trace w @ [StateWriteRequested e]"
      "fence_state_of w2 = fence_state_of w" "w_broker w2 = w_broker w" "w_fence_pg w2 = w_fence_pg w"
      "w_pg w2 = w_pg w" "w_buffer w2 = w_buffer w"
      using written(4) by (auto simp: fence_state_of_def fun_eq_iff)
    have w3: "wired w3" "w_registry w3 = w_registry w" "w_trace w3 = w_trace w @ [StateWriteRequested e]"
      "fence_state_of w3 = fence_state_of w" "w_redis w3 = r" "w_broker w3 = w_broker w" "w_fence_pg w3 = w_fence_pg w"
      "w_pg w3 = w_pg w" "w_buffer w3 = w_buffer w" "w_bus w3 = w_bus w"
      using assms(1) w2 by (simp_all add: w3_def wired_def fence_state_of_def fun_eq_iff)
    have wrote: "write_with_result v e ?w1 =
        (Inr \<lparr>sw_accepted = True, sw_state = s, sw_previous_h3_cell = ?prev\<rparr>, w3)"
      using written(5) assms(6) by (simp add: s_def r_def w3_def)
    have state: "get_device_state r ?d = Some s"
      using assms(6) get_after_cas [of ?d s "rc_device_ttl_s (cf_redis (en_config v))" "w_redis w" ?d]
      by (simp add: r_def cas_ok_iff should_accept_def s_def state_of_event_def split: option.splits)
    have fields: "ds_device_id s = ?d" "ds_lat s = le_lat e" "ds_lon s = le_lon e" "ds_h3_cell s = c" "ds_updated_at s = ts"
      by (simp_all add: s_def state_of_event_def)
    let ?ev = "GeofenceEvaluationRequested ?d ?prev c (le_lat e) (le_lon e) ts"
    let ?w4 = "record_event (StateWriteSucceeded e s ?prev) w3"
    obtain w' es where g: "publish v (Suc n) ?ev ?w4 = (Inr (), w')"
      "emits (geofence_topic v) es (record_event ?ev ?w4) w'"
      "\<forall>f r. get_fence (w_registry ?w4) f = Some r \<and> concerns (w_registry ?w4) ?prev c r \<longrightarrow>
         fence_state_of w' ?d f = fence_next (point_in_polygon (le_lat e) (le_lon e) (gr_polygon_vertices r)) (fence_state_of ?w4 ?d f)"
      using geofence_flow [of ?w4 v ?d n ?prev c "le_lat e" "le_lon e" ts] assms(2,3,4) w3(1,2) by auto
    have "publish v (Suc (Suc n)) (StateWriteSucceeded e s ?prev) w3 = (Inr (), w')"
      using g(1) by (simp add: publish_one wired_callbacks [OF w3(1)] fields)
    then have run: "publish v (Suc (Suc (Suc n))) (StateWriteRequested e) w = (Inr (), w')"
      using wrote by (simp add: publish_one wired_callbacks [OF assms(1)])
    have frame: "w_redis w' = r" "w_trace w' = w_trace w @ [StateWriteRequested e, StateWriteSucceeded e s ?prev, ?ev]"
      "emits (geofence_topic v) es (w\<lparr>w_redis := w_redis w', w_trace := w_trace w'\<rparr>) w'"
      using g(2) w3 by (simp_all add: emits_def)
    show ?thesis
      using run state frame g(3) w3 written(1)
      by (intro exI [of _ w'] exI [of _ es] exI [of _ s]) (simp add: fields Let_def, simp add: s_def)
  qed
qed

lemma state_request_rejected:
  assumes "wired w" "valid_lat_lon (le_lat e) (le_lon e)"
    and "\<not> should_accept (w_redis w) (le_device_id e) (le_seq e)"
  shows "\<exists>w'. publish v (Suc (Suc n)) (StateWriteRequested e) w = (Inr (), w') \<and>
    w_trace w' = w_trace w @ [StateWriteRequested e, StateWriteRejected e ''state write rejected''] \<and>
    w_redis w' = w_redis w \<and> w_registry w' = w_registry w \<and> w_fence_redis w' = w_fence_redis w \<and>
    w_fence_pg w' = w_fence_pg w \<and> w_bus w' = w_bus w \<and> w_buffer w' = w_buffer w \<and> w_pg w' = w_pg w \<and>
    w_broker w' = w_broker w"
proof -
  let ?w1 = "record_event (StateWriteRequested e) w"
  show ?thesis
  proof (cases rule: write_with_result_cases [of e v ?w1])
    case invalid
    then show ?thesis using assms(2) by simp
  next
    case (written c ts w2)
    let ?cas = "update_device_state_cas (le_device_id e) (state_of_event e c ts) (rc_device_ttl_s (cf_redis (en_config v))) (w_redis w)"
    have "snd ?cas = w_redis w"
      using assms(3) by (auto simp: update_device_state_cas_def should_accept_def get_device_state_def
          state_of_event_def Let_def not_less split: option.splits)
    then have cas: "w2\<lparr>w_redis := snd ?cas\<rparr> = w2" using written(4) by auto
    have w2: "wired w2" "w_trace w2 = w_trace w @ [StateWriteRequested e]" "w_redis w2 = w_redis w"
      "w_registry w2 = w_registry w" "w_fence_redis w2 = w_fence_redis w" "w_fence_pg w2 = w_fence_pg w"
      "w_bus w2 = w_bus w" "w_buffer w2 = w_buffer w" "w_pg w2 = w_pg w" "w_broker w2 = w_broker w"
      using written(4) assms(1) by (auto simp: wired_def)
    obtain res where res: "write_with_result v e ?w1 = (Inr res, w2)" "\<not> sw_accepted res"
      using written(5) cas assms(3) by simp
    have "publish v (Suc (Suc n)) (StateWriteRequested e) w =
        publish v (Suc n) (StateWriteRejected e ''state write rejected'') w2"
      using res by (simp add: publish_one wired_callbacks [OF assms(1)])
    then show ?thesis using w2 by (simp add: publish_one wired_callbacks [OF assms(1)])
  qed
qed

text \<open>C1: An accepted event with valid coordinates runs through the pipeline without an exception.
  If its sequence number is still newer, the device ends in the state of the event, the
  fences it concerns end in the states their polygons call for, and the events published are
  exactly the write, its success, the evaluation, and the history request with its answer, in
  this order; otherwise the rejection takes the place of the middle ones and no state
  changes. In both cases the event is kept by the history writer.\<close>

theorem accepted_event_flow:
  assumes "wired w" "registry_ok (w_registry w)" "geofence_topic v \<noteq> []" "geofence_topic v \<noteq> dlq_topic"
    and "le_device_id e \<noteq> []" "valid_lat_lon (le_lat e) (le_lon e)"
  shows "\<exists>w'. publish_event v (LocationAccepted e) w = (Inr (), w') \<and> history_kept v e w w' \<and>
    (let d = le_device_id e; prev = cell_of_state (get_device_state (w_redis w) d) in
     if should_accept (w_redis w) d (le_seq e)
     then \<exists>s. get_device_state (w_redis w') d = Some s \<and>
        s = state_of_event e (ds_h3_cell s) (ds_updated_at s) \<and>
        w_trace w' = w_trace w @ [LocationAccepted e, StateWriteRequested e, StateWriteSucceeded e s prev,
          GeofenceEvaluationRequested d prev (ds_h3_cell s) (le_lat e) (le_lon e) (ds_updated_at s),
          TripHistoryWriteRequested e, TripHistoryWritten e] \<and>
        (\<forall>f r. get_fence (w_registry w) f = Some r \<and> concerns (w_registry w) prev (ds_h3_cell s) r \<longrightarrow>
           fence_state_of w' d f =
             fence_next (point_in_polygon (le_lat e) (le_lon e) (gr_polygon_vertices r)) (fence_state_of w d f))
     else w_redis w' = w_redis w \<and> fence_state_of w' = fence_state_of w \<and>
        w_trace w' = w_trace w @ [LocationAccepted e, StateWriteRequested e,
          StateWriteRejected e ''state write rejected'', TripHistoryWriteRequested e, TripHistoryWritten e])"
proof -
  let ?d = "le_device_id e" and ?w0 = "record_event (LocationAccepted e) w"
  have w0: "wired ?w0" "registry_ok (w_registry ?w0)" using assms(1,2) by simp_all
  have tail: "\<exists>w'. publish_event v (LocationAccepted e) w = (Inr (), w') \<and>
      w_trace w' = w_trace w1 @ [TripHistoryWriteRequested e, TripHistoryWritten e] \<and>
      history_kept v e w1 w' \<and> w_redis w' = w_redis w1 \<and> fence_state_of w' = fence_state_of w1"
    if first: "publish v 3 (StateWriteRequested e) ?w0 = (Inr (), w1)" and bus: "w_bus w1 = w_bus w" for w1
  proof -
    have "wired w1" using bus assms(1) by (simp add: wired_def)
    from trip_history_flow [OF this, of v 1 e] obtain w2 where
      w2: "publish v 3 (TripHistoryWriteRequested e) w1 = (Inr (), w2)"
      "w_trace w2 = w_trace w1 @ [TripHistoryWriteRequested e, TripHistoryWritten e]"
      "history_kept v e w1 w2" "w_redis w2 = w_redis w1" "w_fence_redis w2 = w_fence_redis w1"
      by (auto simp: numeral_3_eq_3)
    have four: "event_fuel = Suc 3" by (simp add: event_fuel_def)
    let ?w3 = "w2\<lparr>w_metrics := on_metrics (LocationAccepted e) (w_metrics w2)\<rparr>"
    have cb: "callbacks_of (w_bus w) (type_of (LocationAccepted e)) = [H_pipeline, H_metrics]"
      by (simp add: wired_callbacks [OF assms(1)])
    have "publish_event v (LocationAccepted e) w = (Inr (), ?w3)"
      unfolding publish_event_def four publish_two [OF cb] using first w2(1) by simp
    moreover have "history_kept v e w1 ?w3" using w2(3) by simp
    ultimately show ?thesis using w2 by (intro exI [of _ ?w3]) (simp add: fence_state_of_def fun_eq_iff)
  qed
  show ?thesis
  proof (cases "should_accept (w_redis w) ?d (le_seq e)")
    case True
    then have acc: "should_accept (w_redis ?w0) ?d (le_seq e)" by simp
    obtain w1 es s where w1: "publish v 3 (StateWriteRequested e) ?w0 = (Inr (), w1)"
      "get_device_state (w_redis w1) ?d = Some s" "s = state_of_event e (ds_h3_cell s) (ds_updated_at s)"
      "let prev = cell_of_state (get_device_state (w_redis w) ?d) in
        w_trace w1 = w_trace w @ [LocationAccepted e, StateWriteRequested e, StateWriteSucceeded e s prev,
          GeofenceEvaluationRequested ?d prev (ds_h3_cell s) (le_lat e) (le_lon e) (ds_updated_at s)] \<and>
        (\<forall>f r. get_fence (w_registry w) f = Some r \<and> concerns (w_registry w) prev (ds_h3_cell s) r \<longrightarrow>
           fence_state_of w1 ?d f =
             fence_next (point_in_polygon (le_lat e) (le_lon e) (gr_polygon_vertices r)) (fence_state_of w ?d f))"
      "emits (geofence_topic v) es (?w0\<lparr>w_redis := w_redis w1, w_trace := w_trace w1\<rparr>) w1"
      using state_request_accepted [OF w0 assms(3,5,6) acc, of 0] by (auto simp: numeral_3_eq_3 Let_def)
    have frame: "w_bus w1 = w_bus w" "w_buffer w1 = w_buffer w" "w_pg w1 = w_pg w"
      "topic_log (w_broker w1) dlq_topic = topic_log (w_broker w) dlq_topic"
      using w1(5) assms(4) by (auto simp: emits_def)
    obtain w' where w': "publish_event v (LocationAccepted e) w = (Inr (), w')"
      "w_trace w' = w_trace w1 @ [TripHistoryWriteRequested e, TripHistoryWritten e]"
      "history_kept v e w1 w'" "w_redis w' = w_redis w1" "fence_state_of w' = fence_state_of w1"
      using tail [OF w1(1) frame(1)] by blast
    have "history_kept v e w w'" using history_kept_frame [OF w'(3) frame(2-4)] .
    then show ?thesis using w' w1 True unfolding Let_def by (intro exI [of _ w'] conjI) auto
  next
    case False
    then have rej: "\<not> should_accept (w_redis ?w0) ?d (le_seq e)" by simp
    obtain w1 where w1: "publish v 3 (StateWriteRequested e) ?w0 = (Inr (), w1)"
      "w_trace w1 = w_trace w @ [LocationAccepted e, StateWriteRequested e, StateWriteRejected e ''state write rejected'']"
      "w_redis w1 = w_redis w" "w_fence_redis w1 = w_fence_redis w" "w_bus w1 = w_bus w"
      "w_buffer w1 = w_buffer w" "w_pg w1 = w_pg w" "w_broker w1 = w_broker w"
      using state_request_rejected [OF w0(1) assms(6) rej, of v 1] by (auto simp: numeral_3_eq_3)
    obtain w' where w': "publish_event v (LocationAccepted e) w = (Inr (), w')"
      "w_trace w' = w_trace w1 @ [TripHistoryWriteRequested e, TripHistoryWritten e]"
      "history_kept v e w1 w'" "w_redis w' = w_redis w1" "fence_state_of w' = fence_state_of w1"
      using tail [OF w1(1,5)] by blast
    have "history_kept v e w w'" using history_kept_frame [OF w'(3) w1(6,7)] w1(8) by simp
    moreover have "fence_state_of w' = fence_state_of w" using w'(5) w1(4) by (simp add: fence_state_of_def fun_eq_iff)
    ultimately show ?thesis using w' w1 False by (intro exI [of _ w'] conjI) (simp_all add: Let_def)
  qed
qed

theorem accepted_event_flow_witness:
  "\<exists>w'. publish_event sample_env (LocationAccepted sample_located) sample_started = (Inr (), w') \<and>
     history_kept sample_env sample_located sample_started w'"
  using accepted_event_flow [OF sample_started_ok sample_topics sample_located_ok] by blast

end
