(* ===== verification/Workers.thy ===== *)
theory Workers
  imports Pipeline
begin

text \<open>
  The background workers of \<open>workers/\<close>: the replay of dead letters, the sweep of the cell index
  and the metrics report.

  A worker is given its clients by reference; they are the consumer and the stores of the world
  it runs in. \<open>run_once\<close> of each worker is a program on that world; \<open>run\<close> repeats it until the
  stop flag is seen, so it is given the number of rounds. Sleeping is not an effect of the
  model, but the replay worker records how long it would sleep between attempts.

  The writer of the replay worker is the relational client unless a writer was injected. A
  writer that raises something that is no \<open>std::exception\<close> answers \<open>False\<close>.

  The lemmas show that a replay round accounts for every message it takes, that it commits
  exactly what it stored or could not decode, and how long it backs off. The last section
  follows a deferred message into the next round.
\<close>

subsection \<open>Replay of dead letters\<close>

record dlq_result =
  dr_replayed :: nat
  dr_failed :: nat
  dr_retried :: nat
  dr_deferred :: nat
  dr_last_error :: string

definition dlq_result_zero :: dlq_result where
  "dlq_result_zero = \<lparr>dr_replayed = 0, dr_failed = 0, dr_retried = 0, dr_deferred = 0, dr_last_error = []\<rparr>"

record dlq_policy =
  dp_max_write_attempts :: int
  dp_initial_backoff_ms :: int
  dp_max_backoff_ms :: int

definition dlq_policy_default :: dlq_policy where
  "dlq_policy_default = \<lparr>dp_max_write_attempts = 3, dp_initial_backoff_ms = 10, dp_max_backoff_ms = 1000\<rparr>"

type_synonym trip_writer = "location_event \<Rightarrow> (world, bool) prog"

record dlq_worker =
  dw_has_bus :: bool
  dw_retry_policy :: dlq_policy
  dw_writer :: "trip_writer option"

definition new_dlq_worker :: "bool \<Rightarrow> dlq_worker" where
  "new_dlq_worker has_bus = \<lparr>dw_has_bus = has_bus, dw_retry_policy = dlq_policy_default, dw_writer = None\<rparr>"

definition set_retry_policy :: "dlq_policy \<Rightarrow> dlq_worker \<Rightarrow> dlq_worker" where
  "set_retry_policy p d = d\<lparr>dw_retry_policy := p\<rparr>"

definition set_trip_point_writer :: "trip_writer \<Rightarrow> dlq_worker \<Rightarrow> dlq_worker" where
  "set_trip_point_writer f d = d\<lparr>dw_writer := Some f\<rparr>"

definition store_trip_points :: "env \<Rightarrow> location_event list \<Rightarrow> (world, unit) prog" where
  "store_trip_points v es = (\<lambda>w. case en_insert v es (w_pg w) of
     Inl ex \<Rightarrow> (Inl ex, w) | Inr p \<Rightarrow> (Inr (), w\<lparr>w_pg := p\<rparr>))"

definition write_trip_point :: "env \<Rightarrow> dlq_worker \<Rightarrow> trip_writer" where
  "write_trip_point v d e =
     (case dw_writer d of Some f \<Rightarrow> f e | None \<Rightarrow> andthen (store_trip_points v [e]) (ret True))"

definition bounded_attempts :: "int \<Rightarrow> int" where
  "bounded_attempts n = max 1 n"

definition bounded_backoff_ms :: "int \<Rightarrow> int" where
  "bounded_backoff_ms n = max 0 n"

text \<open>The state of a round: the world, the result so far and the sleeps.\<close>

record dlq_state =
  dq_world :: world
  dq_result :: dlq_result
  dq_sleeps :: "int list"

text \<open>One attempt, with both catch clauses: the answer says whether the point was written.\<close>

definition try_write :: "env \<Rightarrow> dlq_worker \<Rightarrow> location_event \<Rightarrow> dlq_state \<Rightarrow> bool \<times> dlq_state" where
  "try_write v d e s = (case write_trip_point v d e (dq_world s) of
     (Inr True, w) \<Rightarrow> (True, s\<lparr>dq_world := w\<rparr>)
   | (Inr False, w) \<Rightarrow> (False, s\<lparr>dq_world := w,
        dq_result := (dq_result s)\<lparr>dr_last_error := ''unknown DLQ replay write failure''\<rparr>\<rparr>)
   | (Inl ex, w) \<Rightarrow> (False, s\<lparr>dq_world := w, dq_result := (dq_result s)\<lparr>dr_last_error := ex\<rparr>\<rparr>))"

definition next_backoff :: "int \<Rightarrow> int \<Rightarrow> int" where
  "next_backoff max_backoff_ms backoff_ms =
     (if backoff_ms > 0 then (if max_backoff_ms \<le> 0 then backoff_ms else min (wrap32 (backoff_ms * 2)) max_backoff_ms)
      else backoff_ms)"

definition note_retry :: "int \<Rightarrow> dlq_state \<Rightarrow> dlq_state" where
  "note_retry backoff_ms s = s\<lparr>dq_result := (dq_result s)\<lparr>dr_retried := dr_retried (dq_result s) + 1\<rparr>,
     dq_sleeps := dq_sleeps s @ (if backoff_ms > 0 then [backoff_ms] else [])\<rparr>"

text \<open>The attempts that are left, and the sleep before the next one.\<close>

fun write_attempts :: "env \<Rightarrow> dlq_worker \<Rightarrow> location_event \<Rightarrow> nat \<Rightarrow> int \<Rightarrow> dlq_state \<Rightarrow> bool \<times> dlq_state" where
  "write_attempts v d e 0 backoff_ms s = (False, s)"
| "write_attempts v d e (Suc n) backoff_ms s =
     (case try_write v d e s of
        (True, s') \<Rightarrow> (True, s')
      | (False, s') \<Rightarrow> (if n = 0 then (False, s')
          else write_attempts v d e n (next_backoff (dp_max_backoff_ms (dw_retry_policy d)) backoff_ms)
                 (note_retry backoff_ms s')))"

definition publish_dlq :: "env \<Rightarrow> dlq_worker \<Rightarrow> event \<Rightarrow> dlq_state \<Rightarrow> dlq_state" where
  "publish_dlq v d e s = (if dw_has_bus d then s\<lparr>dq_world := snd (publish_event v e (dq_world s))\<rparr> else s)"

definition count_result :: "(dlq_result \<Rightarrow> dlq_result) \<Rightarrow> dlq_state \<Rightarrow> dlq_state" where
  "count_result f s = s\<lparr>dq_result := f (dq_result s)\<rparr>"

definition commit_dlq :: "kafka_message \<Rightarrow> dlq_state \<Rightarrow> dlq_state" where
  "commit_dlq m s = s\<lparr>dq_world := (dq_world s)\<lparr>w_consumer := commit_message m (w_consumer (dq_world s))\<rparr>\<rparr>"

text \<open>One message; the flag says whether the loop goes on.\<close>

definition replay_message :: "env \<Rightarrow> dlq_worker \<Rightarrow> kafka_message \<Rightarrow> dlq_state \<Rightarrow> bool \<times> dlq_state" where
  "replay_message v d m s =
     (case decode_location_payload (km_payload m) of
        Inl _ \<Rightarrow> (True, commit_dlq m (count_result (\<lambda>r. r\<lparr>dr_failed := dr_failed r + 1\<rparr>) s))
      | Inr e \<Rightarrow>
         (case write_attempts v d e (nat (bounded_attempts (dp_max_write_attempts (dw_retry_policy d))))
                 (bounded_backoff_ms (dp_initial_backoff_ms (dw_retry_policy d))) s of
            (True, s') \<Rightarrow> (True, count_result (\<lambda>r. r\<lparr>dr_replayed := dr_replayed r + 1\<rparr>) (commit_dlq m s'))
          | (False, s') \<Rightarrow>
              (let err = dr_last_error (dq_result s') in
               (False, publish_dlq v d (DLQReplayFailed (if err = [] then ''DLQ replay write failed'' else err) 1)
                         (count_result (\<lambda>r. r\<lparr>dr_deferred := dr_deferred r + 1\<rparr>) s')))))"

definition poll_dlq :: "dlq_state \<Rightarrow> kafka_message option \<times> dlq_state" where
  "poll_dlq s = (let (m, c) = poll (w_broker (dq_world s)) (w_consumer (dq_world s)) in
     (m, s\<lparr>dq_world := (dq_world s)\<lparr>w_consumer := c\<rparr>\<rparr>))"

fun replay_loop :: "env \<Rightarrow> dlq_worker \<Rightarrow> nat \<Rightarrow> dlq_state \<Rightarrow> dlq_state" where
  "replay_loop v d 0 s = s"
| "replay_loop v d (Suc n) s = (case poll_dlq s of
     (None, s') \<Rightarrow> s'
   | (Some m, s') \<Rightarrow> (case replay_message v d m s' of
       (True, s'') \<Rightarrow> replay_loop v d n s'' | (False, s'') \<Rightarrow> s''))"

definition report_round :: "env \<Rightarrow> dlq_worker \<Rightarrow> dlq_state \<Rightarrow> dlq_state" where
  "report_round v d s = (let r = dq_result s;
       s1 = (if dr_replayed r > 0 then publish_dlq v d (DLQReplaySucceeded (dr_replayed r)) s else s) in
     if dr_failed r > 0 then publish_dlq v d (DLQReplayFailed ''invalid DLQ payload'' (dr_failed r)) s1 else s1)"

definition replay_once :: "env \<Rightarrow> dlq_worker \<Rightarrow> int \<Rightarrow> world \<Rightarrow> dlq_state" where
  "replay_once v d max_messages w =
     (if max_messages \<le> 0 then \<lparr>dq_world = w, dq_result = dlq_result_zero, dq_sleeps = []\<rparr>
      else report_round v d (replay_loop v d (nat max_messages)
             \<lparr>dq_world = w, dq_result = dlq_result_zero, dq_sleeps = []\<rparr>))"

fun replay_run :: "env \<Rightarrow> dlq_worker \<Rightarrow> nat \<Rightarrow> world \<Rightarrow> world" where
  "replay_run v d 0 w = w"
| "replay_run v d (Suc n) w = replay_run v d n (dq_world (replay_once v d 100 w))"

subsection \<open>Sweeping the cell index\<close>

definition cleanup_once :: "env \<Rightarrow> bool \<Rightarrow> world \<Rightarrow> (nat \<times> nat) \<times> world" where
  "cleanup_once v has_bus w =
     (let ((removed, touched), r) = remove_stale_cell_members (w_redis w); w1 = w\<lparr>w_redis := r\<rparr> in
      ((removed, touched),
       if has_bus \<and> (removed > 0 \<or> touched > 0) then snd (publish_event v (H3CleanupCompleted removed touched) w1) else w1))"

fun cleanup_run :: "env \<Rightarrow> bool \<Rightarrow> nat \<Rightarrow> world \<Rightarrow> world" where
  "cleanup_run v has_bus 0 w = w"
| "cleanup_run v has_bus (Suc n) w = cleanup_run v has_bus n (snd (cleanup_once v has_bus w))"

subsection \<open>Reporting metrics\<close>

record metrics_report =
  rp_export_count :: nat
  rp_text :: string

definition report_once :: "env \<Rightarrow> bool \<Rightarrow> nat \<Rightarrow> world \<Rightarrow> metrics_report \<times> nat \<times> world" where
  "report_once v has_bus exported w =
     (\<lparr>rp_export_count = exported + 1, rp_text = export_text (w_metrics w)\<rparr>, exported + 1,
      if has_bus then snd (publish_event v (DependencyRecovered ''metrics'') w) else w)"

fun report_run :: "env \<Rightarrow> bool \<Rightarrow> nat \<Rightarrow> nat \<Rightarrow> world \<Rightarrow> nat \<times> world" where
  "report_run v has_bus 0 exported w = (exported, w)"
| "report_run v has_bus (Suc n) exported w =
     (case report_once v has_bus exported w of (_, exported', w') \<Rightarrow> report_run v has_bus n exported' w')"

subsection \<open>Events of the workers\<close>

text \<open>Nobody acts on the events the workers publish, so their publication never raises and only
  shows in the trace; \<open>publish_dlq\<close> and the other workers need not pass an exception on.\<close>

lemma run_callbacks_idle:
  assumes "\<And>h w. f h w = (Inr (), w)"
  shows "run_callbacks f hs w = (Inr (), w)"
  by (induction hs) (simp_all add: assms)

lemma publish_unheard:
  assumes "\<And>p h w. call_handler v p e h w = (Inr (), w)"
  shows "publish_event v e w = (Inr (), record_event e w)"
proof -
  have four: "event_fuel = Suc 3" by (simp add: event_fuel_def)
  show ?thesis unfolding publish_event_def four
    by (subst publish.simps(2)) (rule run_callbacks_idle [OF assms])
qed

lemma on_metrics_unheard: "metrics_handler e = [] \<Longrightarrow> on_metrics e m = m"
  by (simp add: on_metrics_def)

lemma unheard:
  assumes "type_of e \<in> {T_DLQReplaySucceeded, T_DLQReplayFailed, T_H3CleanupCompleted, T_DependencyRecovered}"
  shows "call_handler v p e h w = (Inr (), w)"
  using assms by (cases h; cases e) (simp_all add: on_metrics_unheard)

lemma worker_events [simp]:
  "publish_event v (DLQReplaySucceeded n) w = (Inr (), record_event (DLQReplaySucceeded n) w)"
  "publish_event v (DLQReplayFailed r n) w = (Inr (), record_event (DLQReplayFailed r n) w)"
  "publish_event v (H3CleanupCompleted n k) w = (Inr (), record_event (H3CleanupCompleted n k) w)"
  "publish_event v (DependencyRecovered r) w = (Inr (), record_event (DependencyRecovered r) w)"
  by (rule publish_unheard; rule unheard; simp)+

subsection \<open>What a replay round does\<close>

definition quiet_writer :: "trip_writer \<Rightarrow> bool" where
  "quiet_writer f \<longleftrightarrow> (\<forall>e w. \<exists>p. snd (f e w) = w\<lparr>w_pg := p\<rparr>)"

lemma store_quiet: "\<exists>p. snd (store_trip_points v es w) = w\<lparr>w_pg := p\<rparr>"
proof (cases "en_insert v es (w_pg w)")
  case (Inl ex)
  then show ?thesis by (intro exI [of _ "w_pg w"]) (simp add: store_trip_points_def)
next
  case (Inr p)
  then show ?thesis by (intro exI [of _ p]) (simp add: store_trip_points_def)
qed

lemma write_trip_point_quiet:
  assumes "\<forall>f. dw_writer d = Some f \<longrightarrow> quiet_writer f"
  shows "quiet_writer (write_trip_point v d)"
proof (cases "dw_writer d")
  case None
  have "snd (write_trip_point v d e w) = snd (store_trip_points v [e] w)" for e w
    using None by (auto simp: write_trip_point_def andthen_def seq_prog_def split: prod.split sum.split)
  then show ?thesis using store_quiet by (auto simp: quiet_writer_def)
next
  case (Some f)
  then show ?thesis using assms by (simp add: write_trip_point_def quiet_writer_def)
qed

text \<open>While a message is being written only the store, the error, the retries and the sleeps
  change.\<close>

definition write_frame :: "dlq_state \<Rightarrow> dlq_state \<Rightarrow> bool" where
  "write_frame s s' \<longleftrightarrow> (\<exists>p. dq_world s' = (dq_world s)\<lparr>w_pg := p\<rparr>) \<and>
     (\<exists>k err. dq_result s' = (dq_result s)\<lparr>dr_retried := dr_retried (dq_result s) + k, dr_last_error := err\<rparr>)"

lemma write_frame_trans [trans]:
  assumes "write_frame s s'" "write_frame s' s''"
  shows "write_frame s s''"
proof -
  obtain p k err p' k' err' where "dq_world s' = (dq_world s)\<lparr>w_pg := p\<rparr>"
    "dq_result s' = (dq_result s)\<lparr>dr_retried := dr_retried (dq_result s) + k, dr_last_error := err\<rparr>"
    "dq_world s'' = (dq_world s')\<lparr>w_pg := p'\<rparr>"
    "dq_result s'' = (dq_result s')\<lparr>dr_retried := dr_retried (dq_result s') + k', dr_last_error := err'\<rparr>"
    using assms unfolding write_frame_def by blast
  then show ?thesis unfolding write_frame_def
    by (intro conjI exI [of _ p'] exI [of _ "k + k'"] exI [of _ err']) (simp_all add: add.assoc)
qed

lemma try_write_frame:
  assumes "quiet_writer (write_trip_point v d)" "try_write v d e s = (ok, s')"
  shows "write_frame s s' \<and> dq_sleeps s' = dq_sleeps s"
proof -
  obtain r w where r: "write_trip_point v d e (dq_world s) = (r, w)" by (cases "write_trip_point v d e (dq_world s)")
  obtain p where p: "w = (dq_world s)\<lparr>w_pg := p\<rparr>" using assms(1) r unfolding quiet_writer_def by (metis snd_conv)
  show ?thesis
  proof (cases r)
    case (Inl ex)
    then have "s' = s\<lparr>dq_world := w, dq_result := (dq_result s)\<lparr>dr_last_error := ex\<rparr>\<rparr>"
      using assms(2) r by (simp add: try_write_def)
    then show ?thesis unfolding write_frame_def p by (intro conjI exI [of _ p] exI [of _ 0] exI [of _ ex]) simp_all
  next
    case (Inr b)
    show ?thesis
    proof (cases b)
      case True
      then have "s' = s\<lparr>dq_world := w\<rparr>" using Inr assms(2) r by (simp add: try_write_def)
      then show ?thesis unfolding write_frame_def p
        by (intro conjI exI [of _ p] exI [of _ 0] exI [of _ "dr_last_error (dq_result s)"]) simp_all
    next
      case False
      then have "s' = s\<lparr>dq_world := w,
          dq_result := (dq_result s)\<lparr>dr_last_error := ''unknown DLQ replay write failure''\<rparr>\<rparr>"
        using Inr assms(2) r by (simp add: try_write_def)
      then show ?thesis unfolding write_frame_def p
        by (intro conjI exI [of _ p] exI [of _ 0] exI [of _ "''unknown DLQ replay write failure''"]) simp_all
    qed
  qed
qed

lemma note_retry_frame: "write_frame s (note_retry b s)"
  unfolding write_frame_def note_retry_def
  by (intro conjI exI [of _ "w_pg (dq_world s)"] exI [of _ 1] exI [of _ "dr_last_error (dq_result s)"]) simp_all

lemma write_attempts_frame:
  assumes "quiet_writer (write_trip_point v d)" "write_attempts v d e n b s = (ok, s')" "0 < n"
  shows "write_frame s s'"
  using assms(2,3)
proof (induction n arbitrary: b s)
  case (Suc n)
  obtain ok1 s1 where t: "try_write v d e s = (ok1, s1)" by (cases "try_write v d e s")
  have f: "write_frame s s1" using try_write_frame [OF assms(1) t] by blast
  show ?case
  proof (cases "ok1 \<or> n = 0")
    case True
    then show ?thesis using Suc.prems t f by (cases ok1) auto
  next
    case False
    then have "write_attempts v d e n (next_backoff (dp_max_backoff_ms (dw_retry_policy d)) b) (note_retry b s1) = (ok, s')"
      using Suc.prems t by simp
    from Suc.IH [OF this] False have "write_frame (note_retry b s1) s'" by simp
    then show ?thesis using f note_retry_frame [of s1 b] write_frame_trans by blast
  qed
qed simp

text \<open>What a message leads to, with the part of the trace it adds.\<close>

definition undecodable :: "kafka_message \<Rightarrow> bool" where
  "undecodable m \<longleftrightarrow> is_err (decode_location_payload (km_payload m))"

lemma replay_message_run:
  assumes "quiet_writer (write_trip_point v d)" "replay_message v d m s = (go, s')"
  shows "\<exists>p tr. dq_world s' = (dq_world s)\<lparr>w_pg := p, w_trace := w_trace (dq_world s) @ tr,
      w_consumer := (if go then commit_message m (w_consumer (dq_world s)) else w_consumer (dq_world s))\<rparr> \<and>
    dr_failed (dq_result s') = dr_failed (dq_result s) + (if undecodable m then 1 else 0) \<and>
    dr_replayed (dq_result s') = dr_replayed (dq_result s) + (if go \<and> \<not> undecodable m then 1 else 0) \<and>
    dr_deferred (dq_result s') = dr_deferred (dq_result s) + (if go then 0 else 1) \<and>
    (undecodable m \<longrightarrow> go \<and> p = w_pg (dq_world s)) \<and>
    (if go \<or> \<not> dw_has_bus d then tr = [] else \<exists>err. err \<noteq> [] \<and> tr = [DLQReplayFailed err 1])"
proof (cases "decode_location_payload (km_payload m)")
  case (Inl err)
  then have "undecodable m" by (simp add: undecodable_def)
  then show ?thesis using assms(2) Inl
    by (intro exI [of _ "w_pg (dq_world s)"] exI [of _ "[]"]) (auto simp: replay_message_def commit_dlq_def count_result_def)
next
  case (Inr e)
  let ?n = "nat (bounded_attempts (dp_max_write_attempts (dw_retry_policy d)))"
  let ?b = "bounded_backoff_ms (dp_initial_backoff_ms (dw_retry_policy d))"
  obtain ok s1 where a: "write_attempts v d e ?n ?b s = (ok, s1)" by (cases "write_attempts v d e ?n ?b s")
  have "0 < ?n" by (simp add: bounded_attempts_def)
  from write_attempts_frame [OF assms(1) a this] obtain p k err where f:
    "dq_world s1 = (dq_world s)\<lparr>w_pg := p\<rparr>"
    "dq_result s1 = (dq_result s)\<lparr>dr_retried := dr_retried (dq_result s) + k, dr_last_error := err\<rparr>"
    unfolding write_frame_def by blast
  have d: "\<not> undecodable m" using Inr by (simp add: undecodable_def)
  show ?thesis
  proof (cases ok)
    case True
    then have "go \<and> s' = count_result (\<lambda>r. r\<lparr>dr_replayed := dr_replayed r + 1\<rparr>) (commit_dlq m s1)"
      using assms(2) Inr a by (simp add: replay_message_def)
    then show ?thesis using d f
      by (intro exI [of _ p] exI [of _ "[]"]) (simp add: count_result_def commit_dlq_def)
  next
    case False
    let ?ev = "DLQReplayFailed (if err = [] then ''DLQ replay write failed'' else err) 1"
    have "\<not> go \<and> s' = publish_dlq v d ?ev (count_result (\<lambda>r. r\<lparr>dr_deferred := dr_deferred r + 1\<rparr>) s1)"
      using False assms(2) Inr a f(2) by (auto simp: replay_message_def Let_def)
    then show ?thesis using d f
      by (intro exI [of _ p] exI [of _ "if dw_has_bus d then [?ev] else []"])
         (simp add: count_result_def publish_dlq_def record_event_def)
  qed
qed

lemma poll_dlq_run:
  assumes "co_topics (w_consumer (dq_world s)) = [t]" "offset_of (co_next_offsets (w_consumer (dq_world s))) t = int k"
  shows "\<exists>c. poll_dlq s = (if k < length (topic_log (w_broker (dq_world s)) t)
      then Some (topic_log (w_broker (dq_world s)) t ! k) else None, s\<lparr>dq_world := (dq_world s)\<lparr>w_consumer := c\<rparr>\<rparr>) \<and>
    co_topics c = [t] \<and> co_committed_offsets c = co_committed_offsets (w_consumer (dq_world s)) \<and>
    offset_of (co_next_offsets c) t = int (if k < length (topic_log (w_broker (dq_world s)) t) then Suc k else k)"
  using poll_single [OF assms, of "w_broker (dq_world s)"] assms
  by (intro exI [of _ "snd (poll (w_broker (dq_world s)) (w_consumer (dq_world s)))"]) (simp add: poll_dlq_def)

lemma commits_only:
  "co_committed_offsets c = co_committed_offsets c' \<Longrightarrow>
   co_committed_offsets (fold commit_message ms c) = co_committed_offsets (fold commit_message ms c')"
  by (induction ms arbitrary: c c') (auto simp: commit_message_def Let_def)

definition committed_part :: "bool \<Rightarrow> 'm list \<Rightarrow> 'm list" where
  "committed_part deferred ms = (if deferred then butlast ms else ms)"

lemma committed_part_Cons [simp]: "(df \<longrightarrow> ms \<noteq> []) \<Longrightarrow> committed_part df (m # ms) = m # committed_part df ms"
  by (simp add: committed_part_def)

text \<open>The messages taken, how many of them, and whether the last one was deferred.\<close>

definition round_ok :: "dlq_worker \<Rightarrow> string \<Rightarrow> nat \<Rightarrow> kafka_message list \<Rightarrow> dlq_state \<Rightarrow> dlq_state \<Rightarrow> nat \<Rightarrow> bool \<Rightarrow> bool" where
  "round_ok d t k pending s s' n deferred \<longleftrightarrow>
     n \<le> length pending \<and> (deferred \<longrightarrow> 0 < n) \<and> (\<not> deferred \<longrightarrow> n = length pending) \<and>
     (let taken = take n pending; r = dq_result s; r' = dq_result s'; w = dq_world s; w' = dq_world s' in
      dr_deferred r' = dr_deferred r + (if deferred then 1 else 0) \<and>
      dr_failed r' = dr_failed r + length (filter undecodable taken) \<and>
      dr_replayed r' + dr_deferred r' + dr_failed r' = dr_replayed r + dr_deferred r + dr_failed r + n \<and>
      w_broker w' = w_broker w \<and> w_redis w' = w_redis w \<and> co_topics (w_consumer w') = [t] \<and>
      offset_of (co_next_offsets (w_consumer w')) t = int (k + n) \<and>
      co_committed_offsets (w_consumer w') =
        co_committed_offsets (fold commit_message (committed_part deferred taken) (w_consumer w)) \<and>
      (\<exists>tr. w_trace w' = w_trace w @ tr \<and>
         (if deferred \<and> dw_has_bus d then \<exists>err. err \<noteq> [] \<and> tr = [DLQReplayFailed err 1] else tr = [])))"

lemma round_okD:
  assumes "round_ok d t k pending s s' n df"
  shows "n \<le> length pending" "df \<longrightarrow> 0 < n" "\<not> df \<longrightarrow> n = length pending"
    "dr_deferred (dq_result s') = dr_deferred (dq_result s) + (if df then 1 else 0)"
    "dr_failed (dq_result s') = dr_failed (dq_result s) + length (filter undecodable (take n pending))"
    "dr_replayed (dq_result s') + dr_deferred (dq_result s') + dr_failed (dq_result s') =
       dr_replayed (dq_result s) + dr_deferred (dq_result s) + dr_failed (dq_result s) + n"
    "w_broker (dq_world s') = w_broker (dq_world s)"
    "offset_of (co_next_offsets (w_consumer (dq_world s'))) t = int (k + n)"
    "co_committed_offsets (w_consumer (dq_world s')) =
       co_committed_offsets (fold commit_message (committed_part df (take n pending)) (w_consumer (dq_world s)))"
    "\<exists>tr. w_trace (dq_world s') = w_trace (dq_world s) @ tr \<and>
       (if df \<and> dw_has_bus d then \<exists>err. err \<noteq> [] \<and> tr = [DLQReplayFailed err 1] else tr = [])"
  using assms unfolding round_ok_def Let_def by - (elim conjE, assumption)+

lemma replay_loop_run:
  assumes "quiet_writer (write_trip_point v d)"
    and "co_topics (w_consumer (dq_world s)) = [t]" "offset_of (co_next_offsets (w_consumer (dq_world s))) t = int k"
  shows "\<exists>m deferred. round_ok d t k (take n (drop k (topic_log (w_broker (dq_world s)) t))) s (replay_loop v d n s) m deferred"
  using assms(2,3)
proof (induction n arbitrary: s k)
  case 0
  then show ?case by (intro exI [of _ 0] exI [of _ False]) (simp add: round_ok_def committed_part_def)
next
  case (Suc n)
  let ?log = "topic_log (w_broker (dq_world s)) t"
  obtain c where p: "poll_dlq s = (if k < length ?log then Some (?log ! k) else None,
      s\<lparr>dq_world := (dq_world s)\<lparr>w_consumer := c\<rparr>\<rparr>)"
    and c: "co_topics c = [t]" "co_committed_offsets c = co_committed_offsets (w_consumer (dq_world s))"
      "offset_of (co_next_offsets c) t = int (if k < length ?log then Suc k else k)"
    using poll_dlq_run [OF Suc.prems] by blast
  show ?case
  proof (cases "k < length ?log")
    case False
    then show ?thesis using p c
      by (intro exI [of _ 0] exI [of _ False]) (simp add: round_ok_def committed_part_def)
  next
    case True
    let ?m = "?log ! k" and ?s1 = "s\<lparr>dq_world := (dq_world s)\<lparr>w_consumer := c\<rparr>\<rparr>"
    define pend where "pend = take n (drop (Suc k) ?log)"
    have pending: "take (Suc n) (drop k ?log) = ?m # pend"
      using True by (simp add: Cons_nth_drop_Suc [symmetric] pend_def)
    obtain go s2 where r: "replay_message v d ?m ?s1 = (go, s2)" by (cases "replay_message v d ?m ?s1")
    from replay_message_run [OF assms(1) r] obtain pg tr where m:
      "dq_world s2 = (dq_world ?s1)\<lparr>w_pg := pg, w_trace := w_trace (dq_world ?s1) @ tr,
        w_consumer := (if go then commit_message ?m (w_consumer (dq_world ?s1)) else w_consumer (dq_world ?s1))\<rparr>"
      "dr_failed (dq_result s2) = dr_failed (dq_result s) + (if undecodable ?m then 1 else 0)"
      "dr_replayed (dq_result s2) = dr_replayed (dq_result s) + (if go \<and> \<not> undecodable ?m then 1 else 0)"
      "dr_deferred (dq_result s2) = dr_deferred (dq_result s) + (if go then 0 else 1)"
      "undecodable ?m \<longrightarrow> go"
      "if go \<or> \<not> dw_has_bus d then tr = [] else \<exists>err. err \<noteq> [] \<and> tr = [DLQReplayFailed err 1]"
      by auto
    show ?thesis
    proof (cases go)
      case False
      then have run: "replay_loop v d (Suc n) s = s2" using p True r by simp
      show ?thesis unfolding run pending using False m c True
        by (intro exI [of _ 1] exI [of _ True]) (auto simp: round_ok_def committed_part_def)
    next
      case go: True
      have run: "replay_loop v d (Suc n) s = replay_loop v d n s2" using p True r go by simp
      have nx: "co_topics (w_consumer (dq_world s2)) = [t]"
        "offset_of (co_next_offsets (w_consumer (dq_world s2))) t = int (Suc k)"
        using m(1) c True go by simp_all
      have log: "topic_log (w_broker (dq_world s2)) t = ?log" using m(1) by simp
      obtain n' df where ih: "round_ok d t (Suc k) pend s2 (replay_loop v d n s2) n' df"
        using Suc.IH [OF nx] unfolding log pend_def by blast
      have tr: "tr = []" using m(6) go by simp
      have com: "co_committed_offsets (fold commit_message ms (w_consumer (dq_world s2))) =
          co_committed_offsets (fold commit_message (?m # ms) (w_consumer (dq_world s)))" for ms
        using m(1) go c(2) by (simp, intro commits_only) (simp add: commit_message_def Let_def)
      have ne: "df \<longrightarrow> take n' pend \<noteq> []" using ih by (auto simp: round_ok_def)
      show ?thesis unfolding run pending using ih m(1-5) go tr com
        by (intro exI [of _ "Suc n'"] exI [of _ df], cases "undecodable ?m"; cases df)
           (use ne in \<open>simp_all add: round_ok_def Let_def\<close>)
    qed
  qed
qed

text \<open>C12: One replay round returns and accounts for the messages it takes from the front of the
  dead-letter topic: each is replayed, counted as undecodable, or it is the one deferred message
  that ends the round; without one the round takes all it may. Exactly the messages that are
  not deferred are committed, the next one to be polled follows the last one taken, and what
  the round published says the same as its result.\<close>

theorem dlq_round_accounts:
  assumes "\<forall>f. dw_writer d = Some f \<longrightarrow> quiet_writer f" "0 < n"
    and "co_topics (w_consumer w) = [t]" "offset_of (co_next_offsets (w_consumer w)) t = int k"
    and "pending = take (nat n) (drop k (topic_log (w_broker w) t))"
  shows "\<exists>taken rest. let s = replay_once v d n w; r = dq_result s; w' = dq_world s in
    pending = taken @ rest \<and> (rest \<noteq> [] \<longrightarrow> dr_deferred r = 1) \<and>
    dr_deferred r \<le> min 1 (length taken) \<and> dr_failed r = length (filter undecodable taken) \<and>
    dr_replayed r + dr_failed r + dr_deferred r = length taken \<and>
    w_broker w' = w_broker w \<and> offset_of (co_next_offsets (w_consumer w')) t = int (k + length taken) \<and>
    co_committed_offsets (w_consumer w') =
      co_committed_offsets (fold commit_message (take (dr_replayed r + dr_failed r) pending) (w_consumer w)) \<and>
    (dw_has_bus d \<longrightarrow> (\<exists>err. w_trace w' = w_trace w @
      (if dr_deferred r = 1 then [DLQReplayFailed err 1] else []) @
      (if dr_replayed r > 0 then [DLQReplaySucceeded (dr_replayed r)] else []) @
      (if dr_failed r > 0 then [DLQReplayFailed ''invalid DLQ payload'' (dr_failed r)] else [])))"
proof -
  let ?s0 = "\<lparr>dq_world = w, dq_result = dlq_result_zero, dq_sleeps = []\<rparr>"
  define s1 where "s1 = replay_loop v d (nat n) ?s0"
  obtain m df where run: "round_ok d t k pending ?s0 s1 m df"
    using replay_loop_run [OF write_trip_point_quiet [OF assms(1), of v], of ?s0 t k "nat n"] assms(3-5) by (auto simp: s1_def)
  have once: "replay_once v d n w = report_round v d s1" using assms(2) by (simp add: replay_once_def s1_def)
  have rep: "dq_result (report_round v d s) = dq_result s"
    "w_broker (dq_world (report_round v d s)) = w_broker (dq_world s)"
    "w_consumer (dq_world (report_round v d s)) = w_consumer (dq_world s)"
    "dw_has_bus d \<Longrightarrow> w_trace (dq_world (report_round v d s)) = w_trace (dq_world s) @
      (if dr_replayed (dq_result s) > 0 then [DLQReplaySucceeded (dr_replayed (dq_result s))] else []) @
      (if dr_failed (dq_result s) > 0 then [DLQReplayFailed ''invalid DLQ payload'' (dr_failed (dq_result s))] else [])" for s
    by (simp_all add: report_round_def Let_def publish_dlq_def record_event_def)
  define r where "r = dq_result s1"
  define w' where "w' = dq_world s1"
  have zero: "dq_result ?s0 = dlq_result_zero" "dq_world ?s0 = w" by simp_all
  note D = round_okD [OF run, unfolded zero, folded r_def w'_def]
  have m: "m \<le> length pending" "df \<longrightarrow> 0 < m" "\<not> df \<longrightarrow> m = length pending" by (fact D(1-3))+
  have counts: "dr_deferred r = (if df then 1 else 0)" "dr_failed r = length (filter undecodable (take m pending))"
      "dr_replayed r + dr_deferred r + dr_failed r = m"
    using D(4-6) by (simp_all add: dlq_result_zero_def)
  note world = D(7,8,9)
  have trace: "\<exists>err. w_trace w' = w_trace w @ (if dr_deferred r = 1 \<and> dw_has_bus d then [DLQReplayFailed err 1] else [])"
    using D(10) counts(1) by (cases df; cases "dw_has_bus d") auto
  have parts: "committed_part df (take m pending) = take (dr_replayed r + dr_failed r) pending"
  proof (cases df)
    case True
    then have "dr_replayed r + dr_failed r = m - 1" using counts by simp
    then show ?thesis using True m by (simp add: committed_part_def butlast_take)
  next
    case False
    then have "dr_replayed r + dr_failed r = m" using counts by simp
    then show ?thesis using False by (simp add: committed_part_def)
  qed
  have rest: "drop m pending \<noteq> [] \<longrightarrow> dr_deferred r = 1" using m counts(1) by auto
  have len: "length (take m pending) = m" using m(1) by simp
  have published: "\<exists>err. w_trace (dq_world (report_round v d s1)) = w_trace w @
      (if dr_deferred r = 1 then [DLQReplayFailed err 1] else []) @
      (if dr_replayed r > 0 then [DLQReplaySucceeded (dr_replayed r)] else []) @
      (if dr_failed r > 0 then [DLQReplayFailed ''invalid DLQ payload'' (dr_failed r)] else [])"
    if bus: "dw_has_bus d"
  proof -
    obtain err where "w_trace w' = w_trace w @ (if dr_deferred r = 1 then [DLQReplayFailed err 1] else [])"
      using trace bus by (metis (full_types))
    then show ?thesis using rep(4) [OF bus, of s1, folded r_def w'_def] by (intro exI [of _ err]) (simp only: append_assoc)
  qed
  have bound: "dr_deferred r \<le> min 1 (length (take m pending))" using counts(1) m by (cases df) auto
  have total: "dr_replayed r + dr_failed r + dr_deferred r = length (take m pending)" unfolding len using counts(3) by linarith
  have polled: "offset_of (co_next_offsets (w_consumer w')) t = int (k + length (take m pending))"
    using world(2) unfolding len .
  have "pending = take m pending @ drop m pending" by simp
  note all = this rest bound counts(2) total world(1) polled
    world(3) [unfolded parts] published
  show ?thesis unfolding Let_def once rep(1-3) r_def [symmetric] w'_def [symmetric]
    by (rule exI [of _ "take m pending"], rule exI [of _ "drop m pending"], intro conjI impI) (fact all | rule rest [THEN mp], assumption | rule published, assumption)+
qed

subsection \<open>Retries and sleeps\<close>

text \<open>Sleeps are positive and bounded, and there is at most one before each retry.\<close>

definition sleeps_ok :: "dlq_policy \<Rightarrow> dlq_state \<Rightarrow> bool" where
  "sleeps_ok p s \<longleftrightarrow> length (dq_sleeps s) \<le> dr_retried (dq_result s) \<and>
     (\<forall>x \<in> set (dq_sleeps s). 0 < x \<and> x \<le> max (dp_initial_backoff_ms p) (dp_max_backoff_ms p))"

lemma try_write_sleeps:
  assumes "try_write v d e s = (ok, s')"
  shows "dq_sleeps s' = dq_sleeps s" "dr_retried (dq_result s') = dr_retried (dq_result s)"
    "dr_replayed (dq_result s') = dr_replayed (dq_result s)" "dr_deferred (dq_result s') = dr_deferred (dq_result s)"
  using assms by (auto simp: try_write_def split: prod.splits sum.splits bool.splits)

lemma next_backoff_bound:
  assumes "b \<le> max i m"
  shows "next_backoff m b \<le> max i m"
  using assms by (auto simp: next_backoff_def)

lemma write_attempts_sleeps:
  assumes "write_attempts v d e n b s = (ok, s')" "sleeps_ok (dw_retry_policy d) s"
    and "b \<le> max (dp_initial_backoff_ms (dw_retry_policy d)) (dp_max_backoff_ms (dw_retry_policy d)) \<or> b = 0"
  shows "sleeps_ok (dw_retry_policy d) s' \<and> dr_retried (dq_result s') \<le> dr_retried (dq_result s) + (n - 1) \<and>
    dr_replayed (dq_result s') = dr_replayed (dq_result s) \<and> dr_deferred (dq_result s') = dr_deferred (dq_result s)"
  using assms
proof (induction n arbitrary: b s)
  case (Suc n)
  let ?p = "dw_retry_policy d"
  obtain ok1 s1 where t: "try_write v d e s = (ok1, s1)" by (cases "try_write v d e s")
  note T = try_write_sleeps [OF t]
  show ?case
  proof (cases "ok1 \<or> n = 0")
    case True
    then have "s' = s1" using Suc.prems(1) t by (cases ok1) auto
    then show ?thesis using Suc.prems(2) T by (simp add: sleeps_ok_def)
  next
    case False
    then have run: "write_attempts v d e n (next_backoff (dp_max_backoff_ms ?p) b) (note_retry b s1) = (ok, s')"
      using Suc.prems t by simp
    have ok: "sleeps_ok ?p (note_retry b s1)"
      using Suc.prems(2,3) T by (auto simp: sleeps_ok_def note_retry_def)
    have b: "next_backoff (dp_max_backoff_ms ?p) b \<le> max (dp_initial_backoff_ms ?p) (dp_max_backoff_ms ?p) \<or>
        next_backoff (dp_max_backoff_ms ?p) b = 0"
      using Suc.prems(3) next_backoff_bound by (auto simp: next_backoff_def)
    show ?thesis using Suc.IH [OF run ok b] T False by (simp add: note_retry_def)
  qed
qed simp

definition attempts_of :: "dlq_worker \<Rightarrow> nat" where
  "attempts_of d = nat (bounded_attempts (dp_max_write_attempts (dw_retry_policy d)))"

definition retries_ok :: "dlq_worker \<Rightarrow> dlq_state \<Rightarrow> bool" where
  "retries_ok d s \<longleftrightarrow> sleeps_ok (dw_retry_policy d) s \<and>
     dr_retried (dq_result s) \<le> (attempts_of d - 1) * (dr_replayed (dq_result s) + dr_deferred (dq_result s))"

lemma replay_message_retries:
  assumes "replay_message v d m s = (go, s')" "retries_ok d s"
  shows "retries_ok d s'"
proof (cases "decode_location_payload (km_payload m)")
  case (Inl err)
  then show ?thesis using assms
    by (auto simp: replay_message_def commit_dlq_def count_result_def retries_ok_def sleeps_ok_def)
next
  case (Inr e)
  let ?b = "bounded_backoff_ms (dp_initial_backoff_ms (dw_retry_policy d))"
  obtain ok s1 where a: "write_attempts v d e (attempts_of d) ?b s = (ok, s1)"
    by (cases "write_attempts v d e (attempts_of d) ?b s")
  have "?b \<le> max (dp_initial_backoff_ms (dw_retry_policy d)) (dp_max_backoff_ms (dw_retry_policy d)) \<or> ?b = 0"
    by (auto simp: bounded_backoff_ms_def)
  from write_attempts_sleeps [OF a _ this] assms(2)
  have W: "sleeps_ok (dw_retry_policy d) s1" "dr_retried (dq_result s1) \<le> dr_retried (dq_result s) + (attempts_of d - 1)"
    "dr_replayed (dq_result s1) = dr_replayed (dq_result s)" "dr_deferred (dq_result s1) = dr_deferred (dq_result s)"
    by (auto simp: retries_ok_def)
  have bound: "dr_retried (dq_result s1) \<le>
      (attempts_of d - 1) * Suc (dr_replayed (dq_result s) + dr_deferred (dq_result s))"
    using W(2) assms(2) by (simp add: retries_ok_def)
  show ?thesis
  proof (cases ok)
    case True
    then have "s' = count_result (\<lambda>r. r\<lparr>dr_replayed := dr_replayed r + 1\<rparr>) (commit_dlq m s1)"
      using assms(1) Inr a by (simp add: replay_message_def attempts_of_def)
    then show ?thesis using W bound
      by (simp add: retries_ok_def sleeps_ok_def count_result_def commit_dlq_def)
  next
    case False
    then obtain err where "s' = publish_dlq v d (DLQReplayFailed err 1) (count_result (\<lambda>r. r\<lparr>dr_deferred := dr_deferred r + 1\<rparr>) s1)"
      using assms(1) Inr a by (auto simp: replay_message_def attempts_of_def Let_def)
    then show ?thesis using W bound
      by (simp add: retries_ok_def sleeps_ok_def count_result_def publish_dlq_def)
  qed
qed

lemma replay_loop_retries: "retries_ok d s \<Longrightarrow> retries_ok d (replay_loop v d n s)"
proof (induction n arbitrary: s)
  case (Suc n)
  have "retries_ok d (snd (poll_dlq s))" using Suc.prems
    by (simp add: poll_dlq_def retries_ok_def sleeps_ok_def case_prod_beta)
  then show ?case using Suc.IH replay_message_retries
    by (auto split: prod.splits option.splits bool.splits)
qed simp

text \<open>In every replay round, whatever the writer does: each sleep is positive and at most the
  larger of the initial and the maximal backoff, there is at most one sleep for each retry, and
  a message is retried at most one time less than the policy allows attempts.\<close>

lemma dlq_backoff_bounded:
  "let s = replay_once v d n w; r = dq_result s; p = dw_retry_policy d in
    list_all (\<lambda>x. 0 < x \<and> x \<le> max (dp_initial_backoff_ms p) (dp_max_backoff_ms p)) (dq_sleeps s) \<and>
    length (dq_sleeps s) \<le> dr_retried r \<and>
    dr_retried r \<le> (nat (max 1 (dp_max_write_attempts p)) - 1) * (dr_replayed r + dr_deferred r)"
proof -
  let ?s0 = "\<lparr>dq_world = w, dq_result = dlq_result_zero, dq_sleeps = []\<rparr>"
  have start: "retries_ok d ?s0" by (simp add: retries_ok_def sleeps_ok_def dlq_result_zero_def)
  have "dq_result (report_round v d s) = dq_result s" "dq_sleeps (report_round v d s) = dq_sleeps s" for s
    by (simp_all add: report_round_def Let_def publish_dlq_def)
  then have "retries_ok d (report_round v d s)" if "retries_ok d s" for s
    using that by (simp add: retries_ok_def sleeps_ok_def)
  then have "retries_ok d (replay_once v d n w)"
    using start replay_loop_retries [OF start] by (simp add: replay_once_def)
  then show ?thesis
    by (simp add: retries_ok_def sleeps_ok_def attempts_of_def bounded_attempts_def list_all_iff Let_def)
qed

subsection \<open>What becomes of a deferred message\<close>

text \<open>A deferred message is not committed, but the consumer has moved past it. The next round starts
  with the message after it, and when that one is stored the commit covers both: the deferred
  event is in no store and is not read again, not even by a consumer that restarts from the
  committed offset.\<close>

lemma deferred_message_lost:
  assumes "decode_location_payload (km_payload m0) = Inr e0" "decode_location_payload (km_payload m1) = Inr e1"
    and "m0 = \<lparr>km_topic = ''dlq'', km_partition = 0, km_offset = 0, km_key = [], km_payload = p0, km_timestamp_ms = 0\<rparr>"
    and "m1 = \<lparr>km_topic = ''dlq'', km_partition = 0, km_offset = 1, km_key = [], km_payload = p1, km_timestamp_ms = 0\<rparr>"
    and "w = (new_world [(''dlq'', [m0, m1])])\<lparr>w_consumer := new_consumer [''dlq'']\<rparr>"
    and "s0 = replay_once failing_env (new_dlq_worker True) 1 w"
    and "s1 = replay_once sample_env (new_dlq_worker True) 1 (dq_world s0)"
  shows "dr_deferred (dq_result s0) = 1 \<and> w_pg (dq_world s0) = new_postgres \<and>
    dr_replayed (dq_result s1) = 1 \<and> w_pg (dq_world s1) = batch_insert_trip_points [e1] new_postgres \<and>
    offset_of (co_committed_offsets (w_consumer (dq_world s1))) (partition_key ''dlq'' 0) = 2"
proof -
  have attempts: "write_attempts failing_env (new_dlq_worker True) e 3 10 s =
      (False, note_retry 20 (note_retry 10 (s\<lparr>dq_result := (dq_result s)\<lparr>dr_last_error := ''connection lost''\<rparr>\<rparr>)))"
    for e s
    by (simp add: numeral_3_eq_3 new_dlq_worker_def dlq_policy_default_def try_write_def write_trip_point_def
        store_trip_points_def failing_env_def next_backoff_def wrap32_def note_retry_def)
  have attempt: "write_attempts sample_env (new_dlq_worker True) e 3 10 s =
      (True, s\<lparr>dq_world := (dq_world s)\<lparr>w_pg := batch_insert_trip_points [e] (w_pg (dq_world s))\<rparr>\<rparr>)" for e s
    by (simp add: numeral_3_eq_3 new_dlq_worker_def try_write_def write_trip_point_def
        store_trip_points_def sample_env_def memory_insert_def)
  have policy: "nat (bounded_attempts (dp_max_write_attempts (dw_retry_policy (new_dlq_worker True)))) = 3"
    "bounded_backoff_ms (dp_initial_backoff_ms (dw_retry_policy (new_dlq_worker True))) = 10"
    by (simp_all add: new_dlq_worker_def dlq_policy_default_def bounded_attempts_def bounded_backoff_ms_def)
  note decode = assms(1,2) [unfolded assms(3,4), simplified]
  have 0: "w_pg (dq_world s0) = new_postgres" "dr_deferred (dq_result s0) = 1"
    "w_broker (dq_world s0) = [(''dlq'', [m0, m1])]" "co_topics (w_consumer (dq_world s0)) = [''dlq'']"
    "offset_of (co_next_offsets (w_consumer (dq_world s0))) ''dlq'' = 1"
    "offset_of (co_committed_offsets (w_consumer (dq_world s0))) (partition_key ''dlq'' 0) = 0"
    by (simp_all add: assms(3-6) decode replay_once_def poll_dlq_def poll_def read_message_def replay_message_def
        policy attempts note_retry_def Let_def new_world_def new_consumer_def dlq_result_zero_def
        report_round_def publish_dlq_def count_result_def record_event_def)
  have "dr_replayed (dq_result s1) = 1 \<and> w_pg (dq_world s1) = batch_insert_trip_points [e1] new_postgres \<and>
    offset_of (co_committed_offsets (w_consumer (dq_world s1))) (partition_key ''dlq'' 0) = 2"
    using 0
    by (simp add: assms(3,4,7) decode replay_once_def poll_dlq_def poll_def read_message_def replay_message_def
        policy attempt Let_def dlq_result_zero_def commit_dlq_def
        report_round_def publish_dlq_def count_result_def record_event_def commit_message_def)
  then show ?thesis using 0 by blast
qed

theorem dlq_round_accounts_witness:
  "\<forall>p. \<exists>taken rest. let w = (new_world [(''dlq'', [p])])\<lparr>w_consumer := new_consumer [''dlq'']\<rparr>;
      r = dq_result (replay_once sample_env (new_dlq_worker True) 5 w) in
    [p] = taken @ rest \<and> dr_replayed r + dr_failed r + dr_deferred r = length taken"
proof
  fix p
  let ?w = "(new_world [(''dlq'', [p])])\<lparr>w_consumer := new_consumer [''dlq'']\<rparr>"
  have log: "[p] = take (nat 5) (drop 0 (topic_log (w_broker ?w) ''dlq''))"
    by (simp add: new_world_def topic_log_def)
  show "\<exists>taken rest. let w = ?w; r = dq_result (replay_once sample_env (new_dlq_worker True) 5 w) in
    [p] = taken @ rest \<and> dr_replayed r + dr_failed r + dr_deferred r = length taken"
    using dlq_round_accounts [OF _ _ _ _ log, of "new_dlq_worker True" sample_env] offset_of_new_consumer [of "''dlq''"]
    by (auto simp: new_dlq_worker_def Let_def)
qed

end
