(* ===== verification/Config_Valid.thy ===== *)
theory Config_Valid
  imports Config
begin

text \<open>
  What a configuration guarantees once \<open>Config::load\<close> has returned it. \<open>config_valid\<close> says in
  one place what the checks of \<open>Config::validate\<close> come to, and \<open>config_ints\<close> lists the integers
  of a configuration, section by section. The components rest on these facts: resolutions in
  range, limits that are positive, numbers that fit an \<open>int\<close>.
\<close>

subsection \<open>The checks\<close>

lemma first_error_ok: "first_error cs = Inr () \<longleftrightarrow> list_all is_ok cs"
  by (induction cs rule: first_error.induct) auto

lemma require_ok [simp]:
  "is_ok (require_non_empty s n) \<longleftrightarrow> s \<noteq> []" "is_ok (require_positive i n) \<longleftrightarrow> 0 < i"
  "is_ok (require_non_negative i n) \<longleftrightarrow> 0 \<le> i" "is_ok (require_port i n) \<longleftrightarrow> 1 \<le> i \<and> i \<le> 65535"
  "is_ok (require_port_or_zero i n) \<longleftrightarrow> 0 \<le> i \<and> i \<le> 65535"
  "is_ok (require_path s n) \<longleftrightarrow> s \<noteq> [] \<and> hd s = CHR ''/''"
  by (auto simp: require_non_empty_def require_positive_def require_non_negative_def require_port_def
      require_port_or_zero_def require_path_def)

lemma is_ok_if [simp]: "is_ok (if b then Inl e else Inr ()) \<longleftrightarrow> \<not> b"
  by simp

lemma is_ok_if_then: "is_ok (if b then require_non_empty s n else Inr ()) \<longleftrightarrow> b \<longrightarrow> s \<noteq> []"
  by simp

text \<open>The integers that must be positive and those that must not be negative, the texts that must not
  be empty, the ports and the paths.\<close>

definition positive_ints :: "config \<Rightarrow> int list" where
  "positive_ints c = [kc_num_partitions (cf_kafka c), kc_batch_size_bytes (cf_kafka c), rc_pool_size (cf_redis c),
     rc_connect_timeout_ms (cf_redis c), rc_read_timeout_ms (cf_redis c), rc_device_ttl_s (cf_redis c),
     pc_pool_size (cf_postgis c), pc_write_batch_size (cf_postgis c),
     pc_write_flush_interval_ms (cf_postgis c), pc_query_timeout_ms (cf_postgis c),
     pr_dedup_ttl_s (cf_processor c), pr_dedup_max_entries (cf_processor c),
     pr_history_batch_size (cf_processor c), pr_history_flush_interval_ms (cf_processor c),
     pr_history_buffer_max_rows (cf_processor c), sp_nearby_max_results (cf_spatial c),
     sp_h3_cache_size_mb (cf_spatial c), gc_dwell_threshold_s (cf_geofence c), gc_max_fences (cf_geofence c),
     gc_reload_interval_s (cf_geofence c), gw_max_batch_events (cf_gateway c),
     gw_rate_limit_rps_per_device (cf_gateway c), gw_queue_full_timeout_ms (cf_gateway c),
     mt_request_ttl_ms (cf_matching c), th_geofence_eval_threads (cf_threads c),
     th_blocking_pool_size (cf_threads c), ob_admin_socket_backlog (cf_observability c),
     ob_admin_request_timeout_ms (cf_observability c), ob_admin_max_request_bytes (cf_observability c)]"

definition non_negative_ints :: "config \<Rightarrow> int list" where
  "non_negative_ints c = [kc_linger_ms (cf_kafka c), pr_out_of_order_tolerance_s (cf_processor c),
     pr_redis_max_retries (cf_processor c), pr_redis_backoff_max_ms (cf_processor c),
     gw_timestamp_skew_tolerance_s (cf_gateway c), gw_max_in_flight_requests (cf_gateway c),
     th_io_threads (cf_threads c), th_processor_threads (cf_threads c)]"

definition required_texts :: "config \<Rightarrow> string list" where
  "required_texts c = [sv_listen_addr (cf_server c), kc_brokers (cf_kafka c), kc_ingest_topic (cf_kafka c),
     kc_geofence_topic (cf_kafka c), kc_dlq_topic (cf_kafka c), kc_consumer_group (cf_kafka c),
     rc_addrs (cf_redis c), rc_key_prefix (cf_redis c), pc_dsn (cf_postgis c),
     mt_strategy_name (cf_matching c), mt_request_topic (cf_matching c), mt_result_topic (cf_matching c),
     ob_metrics_addr (cf_observability c), ob_admin_socket_addr (cf_observability c)]"

definition required_ports :: "config \<Rightarrow> int list" where
  "required_ports c = [sv_grpc_port (cf_server c), sv_udp_port (cf_server c)]"

definition optional_ports :: "config \<Rightarrow> int list" where
  "optional_ports c = [ob_metrics_port (cf_observability c), ob_admin_socket_port (cf_observability c)]"

definition required_paths :: "config \<Rightarrow> string list" where
  "required_paths c = [ob_metrics_path (cf_observability c), ob_health_path (cf_observability c),
     ob_readiness_path (cf_observability c)]"

definition config_valid :: "config \<Rightarrow> bool" where
  "config_valid c \<longleftrightarrow> sv_role (cf_server c) \<in> set config_roles \<and>
     ob_log_level (cf_observability c) \<in> set config_log_levels \<and>
     list_all (\<lambda>i. 0 < i) (positive_ints c) \<and> list_all (\<lambda>i. 0 \<le> i) (non_negative_ints c) \<and>
     list_all (\<lambda>s. s \<noteq> []) (required_texts c) \<and> list_all (\<lambda>i. 1 \<le> i \<and> i \<le> 65535) (required_ports c) \<and>
     list_all (\<lambda>i. 0 \<le> i \<and> i \<le> 65535) (optional_ports c) \<and>
     list_all (\<lambda>s. s \<noteq> [] \<and> hd s = CHR ''/'') (required_paths c) \<and>
     0 \<le> sp_h3_resolution (cf_spatial c) \<and> sp_h3_resolution (cf_spatial c) \<le> 15 \<and>
     \<not> dle (sp_nearby_max_radius_m (cf_spatial c)) (Fin 0) \<and>
     (gw_auth_required (cf_gateway c) \<longrightarrow> gw_api_key (cf_gateway c) \<noteq> [])"

lemma all_nil: "list_all P [] = True"
  by simp

lemma validate_config_iff: "validate_config c = Inr () \<longleftrightarrow> config_valid c"
  unfolding validate_config_def first_error_ok list_all_append
    validate_server_def validate_kafka_def validate_redis_def validate_postgis_def validate_processor_def validate_spatial_def
    validate_geofence_def validate_gateway_def validate_matching_def validate_threads_def validate_observability_def
    config_valid_def positive_ints_def non_negative_ints_def required_texts_def required_ports_def optional_ports_def
    required_paths_def list.pred_inject(2) all_nil is_ok_if is_ok_if_then require_ok not_not simp_thms de_Morgan_disj not_less
  by blast

subsection \<open>What is read from a file\<close>

definition int32 :: "int \<Rightarrow> bool" where
  "int32 i \<longleftrightarrow> - (2 ^ 31) \<le> i \<and> i < 2 ^ 31"

lemma get_int_range: "get_int path m s k d = Inr i \<Longrightarrow> int32 d \<Longrightarrow> int32 i"
  by (auto simp: get_int_def int32_def Let_def split: option.splits sum.splits prod.splits if_splits)

definition server_ints :: "server_config \<Rightarrow> int list" where
  "server_ints x = [sv_grpc_port x, sv_udp_port x]"

lemma load_server_int32: "load_server path m d = Inr x \<Longrightarrow> list_all int32 (server_ints d) \<Longrightarrow> list_all int32 (server_ints x)"
  by (auto simp: load_server_def server_ints_def result_simps intro: get_int_range)

definition kafka_ints :: "kafka_config \<Rightarrow> int list" where
  "kafka_ints x = [kc_num_partitions x, kc_batch_size_bytes x, kc_linger_ms x]"

lemma load_kafka_int32: "load_kafka path m d = Inr x \<Longrightarrow> list_all int32 (kafka_ints d) \<Longrightarrow> list_all int32 (kafka_ints x)"
  by (auto simp: load_kafka_def kafka_ints_def result_simps intro: get_int_range)

definition redis_ints :: "redis_config \<Rightarrow> int list" where
  "redis_ints x = [rc_pool_size x, rc_connect_timeout_ms x, rc_read_timeout_ms x, rc_device_ttl_s x]"

lemma load_redis_int32: "load_redis path m d = Inr x \<Longrightarrow> list_all int32 (redis_ints d) \<Longrightarrow> list_all int32 (redis_ints x)"
  by (auto simp: load_redis_def redis_ints_def result_simps intro: get_int_range)

definition postgis_ints :: "postgis_config \<Rightarrow> int list" where
  "postgis_ints x = [pc_pool_size x, pc_write_batch_size x, pc_write_flush_interval_ms x, pc_query_timeout_ms x]"

lemma load_postgis_int32: "load_postgis path m d = Inr x \<Longrightarrow> list_all int32 (postgis_ints d) \<Longrightarrow> list_all int32 (postgis_ints x)"
  by (auto simp: load_postgis_def postgis_ints_def result_simps intro: get_int_range)

definition processor_ints :: "processor_config \<Rightarrow> int list" where
  "processor_ints x = [pr_dedup_ttl_s x, pr_dedup_max_entries x, pr_out_of_order_tolerance_s x, pr_history_batch_size x, pr_history_flush_interval_ms x, pr_history_buffer_max_rows x, pr_redis_max_retries x, pr_redis_backoff_max_ms x]"

lemma load_processor_int32: "load_processor path m d = Inr x \<Longrightarrow> list_all int32 (processor_ints d) \<Longrightarrow> list_all int32 (processor_ints x)"
  by (auto simp: load_processor_def processor_ints_def result_simps intro: get_int_range)

definition spatial_ints :: "spatial_config \<Rightarrow> int list" where
  "spatial_ints x = [sp_h3_resolution x, sp_nearby_max_results x, sp_h3_cache_size_mb x]"

lemma load_spatial_int32: "load_spatial path m d = Inr x \<Longrightarrow> list_all int32 (spatial_ints d) \<Longrightarrow> list_all int32 (spatial_ints x)"
  by (auto simp: load_spatial_def spatial_ints_def result_simps intro: get_int_range)

definition geofence_ints :: "geofence_config \<Rightarrow> int list" where
  "geofence_ints x = [gc_dwell_threshold_s x, gc_max_fences x, gc_reload_interval_s x]"

lemma load_geofence_int32: "load_geofence path m d = Inr x \<Longrightarrow> list_all int32 (geofence_ints d) \<Longrightarrow> list_all int32 (geofence_ints x)"
  by (auto simp: load_geofence_def geofence_ints_def result_simps intro: get_int_range)

definition gateway_ints :: "gateway_config \<Rightarrow> int list" where
  "gateway_ints x = [gw_max_batch_events x, gw_rate_limit_rps_per_device x, gw_timestamp_skew_tolerance_s x, gw_queue_full_timeout_ms x, gw_max_in_flight_requests x]"

lemma load_gateway_int32: "load_gateway path m d = Inr x \<Longrightarrow> list_all int32 (gateway_ints d) \<Longrightarrow> list_all int32 (gateway_ints x)"
  by (auto simp: load_gateway_def gateway_ints_def result_simps intro: get_int_range)

definition matching_ints :: "matching_config \<Rightarrow> int list" where
  "matching_ints x = [mt_request_ttl_ms x]"

lemma load_matching_int32: "load_matching path m d = Inr x \<Longrightarrow> list_all int32 (matching_ints d) \<Longrightarrow> list_all int32 (matching_ints x)"
  by (auto simp: load_matching_def matching_ints_def result_simps intro: get_int_range)

definition thread_ints :: "thread_config \<Rightarrow> int list" where
  "thread_ints x = [th_io_threads x, th_processor_threads x, th_geofence_eval_threads x, th_blocking_pool_size x]"

lemma load_threads_int32: "load_threads path m d = Inr x \<Longrightarrow> list_all int32 (thread_ints d) \<Longrightarrow> list_all int32 (thread_ints x)"
  by (auto simp: load_threads_def thread_ints_def result_simps intro: get_int_range)

definition observability_ints :: "observability_config \<Rightarrow> int list" where
  "observability_ints x = [ob_metrics_port x, ob_admin_socket_port x, ob_admin_socket_backlog x, ob_admin_request_timeout_ms x, ob_admin_max_request_bytes x]"

lemma load_observability_int32: "load_observability path m d = Inr x \<Longrightarrow> list_all int32 (observability_ints d) \<Longrightarrow> list_all int32 (observability_ints x)"
  by (auto simp: load_observability_def observability_ints_def result_simps intro: get_int_range)

definition config_ints :: "config \<Rightarrow> int list" where
  "config_ints c = server_ints (cf_server c) @
     kafka_ints (cf_kafka c) @
     redis_ints (cf_redis c) @
     postgis_ints (cf_postgis c) @
     processor_ints (cf_processor c) @
     spatial_ints (cf_spatial c) @
     geofence_ints (cf_geofence c) @
     gateway_ints (cf_gateway c) @
     matching_ints (cf_matching c) @
     thread_ints (cf_threads c) @
     observability_ints (cf_observability c)"

lemma default_ints: "list_all int32 (server_ints server_config_default)" "list_all int32 (kafka_ints kafka_config_default)" "list_all int32 (redis_ints redis_config_default)" "list_all int32 (postgis_ints postgis_config_default)" "list_all int32 (processor_ints processor_config_default)" "list_all int32 (spatial_ints spatial_config_default)" "list_all int32 (geofence_ints geofence_config_default)" "list_all int32 (gateway_ints gateway_config_default)" "list_all int32 (matching_ints matching_config_default)" "list_all int32 (thread_ints thread_config_default)" "list_all int32 (observability_ints observability_config_default)"
  by (simp_all add: int32_def server_ints_def server_config_default_def kafka_ints_def kafka_config_default_def redis_ints_def redis_config_default_def postgis_ints_def postgis_config_default_def processor_ints_def processor_config_default_def spatial_ints_def spatial_config_default_def geofence_ints_def geofence_config_default_def gateway_ints_def gateway_config_default_def matching_ints_def matching_config_default_def thread_ints_def thread_config_default_def observability_ints_def observability_config_default_def)

lemma load_valid: "load_config path content = Inr c \<Longrightarrow> validate_config c = Inr ()"
  by (auto simp: load_config_def Let_def result_simps)

lemma load_int32:
  assumes "load_config path content = Inr c"
  shows "list_all int32 (config_ints c)"
  using assms default_ints unfolding load_config_def Let_def bind_exc_Inr_iff
  by (auto simp: config_ints_def intro: load_server_int32 load_kafka_int32 load_redis_int32 load_postgis_int32 load_processor_int32
      load_spatial_int32 load_geofence_int32 load_gateway_int32 load_matching_int32 load_threads_int32 load_observability_int32)

text \<open>C0: Whatever is in the file, a configuration that is returned passed every check, each
  of its integers fits an \<open>int\<close> although they are read as 64-bit numbers, and validating it again
  succeeds; a file that cannot be opened gives no configuration.\<close>

theorem load_config_sound:
  "(load_config path content = Inr c \<longrightarrow> config_valid c \<and> list_all int32 (config_ints c) \<and> validate_config c = Inr ()) \<and>
   \<not> is_ok (load_config path None)"
  using load_valid [of path content c] load_int32 [of path content c] validate_config_iff [of c]
  by (simp add: load_config_def parse_file_def)

definition sample_file :: string where
  "sample_file = ''[postgis]'' @ [CHR 0x0A] @ ''dsn = '' @ [CHR 0x22] @ ''host=db'' @ [CHR 0x22] @ [CHR 0x0A] @
     ''[server]'' @ [CHR 0x0A] @ ''role = '' @ [CHR 0x22] @ ''gateway'' @ [CHR 0x22] @ [CHR 0x0A] @ ''grpc_port = 7000''"

theorem load_config_sound_witness:
  "\<exists>c. load_config ''a.toml'' (Some sample_file) = Inr c \<and> config_valid c \<and> list_all int32 (config_ints c)"
proof -
  have "is_ok (load_config ''a.toml'' (Some sample_file))" by code_simp
  then obtain c where "load_config ''a.toml'' (Some sample_file) = Inr c" by (auto simp: is_ok_iff)
  then show ?thesis using load_config_sound [of "''a.toml''" "Some sample_file" c] by blast
qed

text \<open>The check of the search radius is \<open>radius <= 0\<close>, which is false of a NaN.\<close>

lemma nan_radius_accepted:
  "config_valid c \<Longrightarrow> config_valid (c\<lparr>cf_spatial := (cf_spatial c)\<lparr>sp_nearby_max_radius_m := NaN\<rparr>\<rparr>)"
  by (simp add: config_valid_def positive_ints_def non_negative_ints_def required_texts_def required_ports_def
      optional_ports_def required_paths_def dle_def)

end
