(* ===== verification/Gateway_Guards.thy ===== *)
theory Gateway_Guards
  imports Config
begin

text \<open>
  The three guards of the ingestion gateway: the stateless \<open>Validator\<close>, the per-device
  \<open>RateLimiter\<close> and the \<open>GatewayAdmissionControl\<close> with its leases. Clock readings are
  arguments: \<open>now_ms\<close> is the system clock in milliseconds, \<open>now\<close> the steady clock in
  nanoseconds. The mutex of the rate limiter makes \<open>allow\<close> one atomic step; the admission
  control is lock-free, so its compare-and-swap loop is also given as a step relation over
  any number of threads.
\<close>

subsection \<open>Validator\<close>

definition validate :: "gateway_config \<Rightarrow> int \<Rightarrow> location_event \<Rightarrow> unit exc" where
  "validate cfg now_ms e =
     (if le_device_id e = [] then Inl ''device_id is required''
      else if \<not> dfinite (le_lat e) \<or> \<not> dfinite (le_lon e) then Inl ''coordinates must be finite''
      else if dlt (le_lat e) (Fin (- 90)) \<or> dlt (Fin 90) (le_lat e)
        then Inl ''lat out of range [-90, 90]''
      else if dlt (le_lon e) (Fin (- 180)) \<or> dlt (Fin 180) (le_lon e)
        then Inl ''lon out of range [-180, 180]''
      else if le_seq e = 0 then Inl ''seq must be > 0''
      else if dlt (le_accuracy_m e) (Fin 0) then Inl ''accuracy_m must be >= 0''
      else if le_timestamp_ms e \<le> 0 then Inl ''timestamp_ms is required''
      else if le_timestamp_ms e > now_ms + gw_timestamp_skew_tolerance_s cfg * 1000
        then Inl ''timestamp is in the future''
      else if le_timestamp_ms e < now_ms - 24 * 60 * 60 * 1000 then Inl ''timestamp is too old''
      else Inr ())"

text \<open>Each event of a batch is validated with a clock reading of its own.\<close>

definition validate_batch :: "gateway_config \<Rightarrow> (nat \<Rightarrow> int) \<Rightarrow> location_event list \<Rightarrow> unit exc list" where
  "validate_batch cfg clk events =
     (if int (length events) > gw_max_batch_events cfg
      then map (\<lambda>_. Inl ''batch too large'') events
      else map (\<lambda>(i, e). validate cfg (clk i) e) (enumerate 0 events))"

definition event_valid :: "gateway_config \<Rightarrow> int \<Rightarrow> location_event \<Rightarrow> bool" where
  "event_valid cfg now_ms e \<longleftrightarrow> le_device_id e \<noteq> [] \<and> valid_lat_lon (le_lat e) (le_lon e) \<and>
     le_seq e \<noteq> 0 \<and> \<not> dlt (le_accuracy_m e) (Fin 0) \<and> 0 < le_timestamp_ms e \<and>
     now_ms - 86400000 \<le> le_timestamp_ms e \<and>
     le_timestamp_ms e \<le> now_ms + gw_timestamp_skew_tolerance_s cfg * 1000"

lemma validate_ok_iff: "validate cfg now_ms e = Inr () \<longleftrightarrow> event_valid cfg now_ms e"
  by (auto simp: validate_def event_valid_def valid_lat_lon_def dfinite_iff not_less)

lemma validate_not_batch_error: "validate cfg now_ms e \<noteq> Inl ''batch too large''"
  by (simp add: validate_def)

lemma length_validate_batch [simp]: "length (validate_batch cfg clk events) = length events"
  by (simp add: validate_batch_def)

subsection \<open>Rate limiter\<close>

record window =
  w_started_at :: int
  w_count :: int

record rate_limiter =
  rl_max_rps :: int
  rl_windows :: "(string, window) umap"

definition new_rate_limiter :: "int \<Rightarrow> rate_limiter" where
  "new_rate_limiter m = \<lparr>rl_max_rps = m, rl_windows = []\<rparr>"

definition k_window :: int where
  "k_window = 1000000000"

definition window_of :: "rate_limiter \<Rightarrow> string \<Rightarrow> window" where
  "window_of l d = (case map_of (rl_windows l) d of None \<Rightarrow> \<lparr>w_started_at = 0, w_count = 0\<rparr>
     | Some w \<Rightarrow> w)"

definition allow :: "int \<Rightarrow> string \<Rightarrow> rate_limiter \<Rightarrow> bool \<times> rate_limiter" where
  "allow now d l =
     (if d = [] \<or> rl_max_rps l \<le> 0 then (False, l)
      else let w = window_of l d;
               w1 = (if w_count w = 0 \<or> now - w_started_at w \<ge> k_window
                     then \<lparr>w_started_at = now, w_count = 0\<rparr> else w)
           in if w_count w1 \<ge> rl_max_rps l
              then (False, l\<lparr>rl_windows := um_put d w1 (rl_windows l)\<rparr>)
              else (True, l\<lparr>rl_windows := um_put d (w1\<lparr>w_count := w_count w1 + 1\<rparr>) (rl_windows l)\<rparr>))"

definition current_rate :: "string \<Rightarrow> rate_limiter \<Rightarrow> int" where
  "current_rate d l = (case map_of (rl_windows l) d of None \<Rightarrow> 0 | Some w \<Rightarrow> w_count w)"

definition tracked_devices :: "rate_limiter \<Rightarrow> nat" where
  "tracked_devices l = length (rl_windows l)"

text \<open>A run of calls, each with its clock reading and device.\<close>

fun run_allow :: "(int \<times> string) list \<Rightarrow> rate_limiter \<Rightarrow> bool list \<times> rate_limiter" where
  "run_allow [] l = ([], l)"
| "run_allow ((t, d) # cs) l = (let (b, l') = allow t d l; (bs, l'') = run_allow cs l' in (b # bs, l''))"

definition limiter_ok :: "rate_limiter \<Rightarrow> bool" where
  "limiter_ok l \<longleftrightarrow> um_ok (rl_windows l) \<and>
     (\<forall>d w. map_of (rl_windows l) d = Some w \<longrightarrow> 0 \<le> w_count w \<and> w_count w \<le> rl_max_rps l)"

lemma allow_max [simp]: "rl_max_rps (snd (allow t d l)) = rl_max_rps l"
  by (simp add: allow_def Let_def)

lemma allow_limiter_ok: "limiter_ok l \<Longrightarrow> limiter_ok (snd (allow t d l))"
  unfolding limiter_ok_def allow_def Let_def window_of_def
  by (fastforce split: option.splits if_splits)

lemma window_of_allow_other: "d' \<noteq> d \<Longrightarrow> window_of (snd (allow t d l)) d' = window_of l d'"
  by (simp add: allow_def window_of_def Let_def)

lemma window_count_bounds: "limiter_ok l \<Longrightarrow> 0 < rl_max_rps l \<Longrightarrow>
  0 \<le> w_count (window_of l d) \<and> w_count (window_of l d) \<le> rl_max_rps l"
  by (auto simp: limiter_ok_def window_of_def split: option.splits)

text \<open>How many calls of device \<open>d\<close> a run lets through.\<close>

fun allowed_count :: "string \<Rightarrow> (int \<times> string) list \<Rightarrow> rate_limiter \<Rightarrow> int" where
  "allowed_count d [] l = 0"
| "allowed_count d ((t, d') # cs) l = (let (b, l') = allow t d' l in
     (if b \<and> d' = d then 1 else 0) + allowed_count d cs l')"

lemma allow_same_device:
  assumes "d \<noteq> []" "0 < rl_max_rps l"
  defines "w \<equiv> window_of l d"
  shows "window_of (snd (allow t d l)) d =
      (if w_count w = 0 \<or> t - w_started_at w \<ge> k_window then \<lparr>w_started_at = t, w_count = 1\<rparr>
       else if w_count w < rl_max_rps l then w\<lparr>w_count := w_count w + 1\<rparr> else w)"
    and "fst (allow t d l) \<longleftrightarrow> w_count w = 0 \<or> t - w_started_at w \<ge> k_window \<or> w_count w < rl_max_rps l"
  using assms by (auto simp: allow_def Let_def window_of_def)

text \<open>
  Once a window of \<open>d\<close> has begun inside an interval of one window length, only what is
  left of that window is let through in the interval.
\<close>

lemma allowed_within_window:
  assumes "d \<noteq> []" "0 < rl_max_rps l" "\<forall>(t, _) \<in> set cs. a \<le> t \<and> t < a + k_window"
    and "a \<le> w_started_at (window_of l d)" "0 < w_count (window_of l d)"
    and "w_count (window_of l d) \<le> rl_max_rps l"
  shows "allowed_count d cs l \<le> rl_max_rps l - w_count (window_of l d)"
  using assms
proof (induction cs arbitrary: l)
  case (Cons c cs)
  obtain t d' where c: "c = (t, d')" by (cases c)
  let ?l = "snd (allow t d' l)"
  have step: "allowed_count d (c # cs) l =
      (if fst (allow t d' l) \<and> d' = d then 1 else 0) + allowed_count d cs ?l"
    by (simp add: c case_prod_beta Let_def)
  show ?case
  proof (cases "d' = d")
    case False
    with Cons.prems have "window_of ?l d = window_of l d" by (simp add: window_of_allow_other)
    with Cons.IH [of ?l] Cons.prems step False show ?thesis by (simp add: c)
  next
    case True
    have noreset: "\<not> (t - w_started_at (window_of l d) \<ge> k_window)"
      using Cons.prems by (auto simp: c)
    note w = allow_same_device [OF Cons.prems(1,2), of t]
    show ?thesis
      using Cons.IH [of ?l] Cons.prems step w noreset True
      by (auto simp: c split: if_splits)
  qed
qed simp

lemma allowed_in_interval:
  assumes "d \<noteq> []" "0 < rl_max_rps l" "\<forall>(t, _) \<in> set cs. a \<le> t \<and> t < a + k_window"
    and "0 \<le> w_count (window_of l d)" "w_count (window_of l d) \<le> rl_max_rps l"
  shows "allowed_count d cs l \<le> 2 * rl_max_rps l - w_count (window_of l d)"
  using assms
proof (induction cs arbitrary: l)
  case (Cons c cs)
  obtain t d' where c: "c = (t, d')" by (cases c)
  let ?l = "snd (allow t d' l)"
  have step: "allowed_count d (c # cs) l =
      (if fst (allow t d' l) \<and> d' = d then 1 else 0) + allowed_count d cs ?l"
    by (simp add: c case_prod_beta Let_def)
  show ?case
  proof (cases "d' = d")
    case False
    with Cons.prems have "window_of ?l d = window_of l d" by (simp add: window_of_allow_other)
    with Cons.IH [of ?l] Cons.prems step False show ?thesis by (simp add: c)
  next
    case True
    note w = allow_same_device [OF Cons.prems(1,2), of t]
    show ?thesis
    proof (cases "w_count (window_of l d) = 0 \<or> t - w_started_at (window_of l d) \<ge> k_window")
      case reset: True
      have "allowed_count d cs ?l \<le> rl_max_rps ?l - w_count (window_of ?l d)"
        using Cons.prems w reset True by (intro allowed_within_window [where a = a]) (auto simp: c)
      then show ?thesis using step w reset True Cons.prems by simp
    next
      case False
      then show ?thesis
        using Cons.IH [of ?l] Cons.prems step w True by (auto simp: c split: if_splits)
    qed
  qed
qed simp

subsection \<open>Admission control\<close>

definition authorize :: "gateway_config \<Rightarrow> string \<Rightarrow> unit exc" where
  "authorize cfg key =
     (if \<not> gw_auth_required cfg then Inr ()
      else if gw_api_key cfg \<noteq> [] \<and> key = gw_api_key cfg then Inr ()
      else Inl ''unauthorized'')"

text \<open>
  A lease is \<open>True\<close> when it points to its owner. \<open>try_acquire\<close> run without interference
  succeeds at its first compare-and-swap.
\<close>

definition try_acquire :: "gateway_config \<Rightarrow> int \<Rightarrow> bool exc \<times> int" where
  "try_acquire cfg in_flight =
     (if gw_max_in_flight_requests cfg \<le> 0 then (Inr False, in_flight)
      else if in_flight < gw_max_in_flight_requests cfg then (Inr True, in_flight + 1)
      else (Inl ''gateway backpressure'', in_flight))"

definition release_lease :: "bool \<Rightarrow> int \<Rightarrow> int" where
  "release_lease active in_flight = (if active then in_flight - 1 else in_flight)"

text \<open>Move assignment: the lease held before is released, the other one is emptied.\<close>

definition lease_move_assign :: "bool \<Rightarrow> bool \<Rightarrow> int \<Rightarrow> (bool \<times> bool) \<times> int" where
  "lease_move_assign this_lease other in_flight =
     ((other, False), release_lease this_lease in_flight)"

lemma authorize_open: "\<not> gw_auth_required cfg \<Longrightarrow> authorize cfg key = Inr ()"
  by (simp add: authorize_def)

lemma authorize_ok_iff: "authorize cfg key = Inr () \<longleftrightarrow>
  \<not> gw_auth_required cfg \<or> (gw_api_key cfg \<noteq> [] \<and> key = gw_api_key cfg)"
  by (simp add: authorize_def)

lemma acquire_release: "try_acquire cfg n = (Inr a, n') \<Longrightarrow> release_lease a n' = n"
  by (auto simp: try_acquire_def release_lease_def split: if_splits)

subsubsection \<open>Interleavings of threads\<close>

text \<open>
  One thread of \<open>try_acquire\<close> is idle, in the loop with its local \<open>current\<close>, holding an
  active lease, or refused. The compare-and-swap is the only step that changes the counter
  besides \<open>release\<close>; \<open>compare_exchange_weak\<close> may fail and then reloads \<open>current\<close>.
\<close>

datatype adm_pc = Adm_Idle | Adm_Loop int | Adm_Held | Adm_Refused

record adm_state =
  adm_in_flight :: int
  adm_pcs :: "nat \<Rightarrow> adm_pc"

definition adm_init :: adm_state where
  "adm_init = \<lparr>adm_in_flight = 0, adm_pcs = (\<lambda>_. Adm_Idle)\<rparr>"

inductive adm_step :: "int \<Rightarrow> adm_state \<Rightarrow> adm_state \<Rightarrow> bool" for limit where
  adm_load: "adm_pcs s i = Adm_Idle \<Longrightarrow>
     adm_step limit s (s\<lparr>adm_pcs := (adm_pcs s)(i := Adm_Loop (adm_in_flight s))\<rparr>)"
| adm_cas: "adm_pcs s i = Adm_Loop current \<Longrightarrow> current < limit \<Longrightarrow> adm_in_flight s = current \<Longrightarrow>
     adm_step limit s (s\<lparr>adm_in_flight := current + 1, adm_pcs := (adm_pcs s)(i := Adm_Held)\<rparr>)"
| adm_cas_fail: "adm_pcs s i = Adm_Loop current \<Longrightarrow> current < limit \<Longrightarrow>
     adm_step limit s (s\<lparr>adm_pcs := (adm_pcs s)(i := Adm_Loop (adm_in_flight s))\<rparr>)"
| adm_refuse: "adm_pcs s i = Adm_Loop current \<Longrightarrow> \<not> current < limit \<Longrightarrow>
     adm_step limit s (s\<lparr>adm_pcs := (adm_pcs s)(i := Adm_Refused)\<rparr>)"
| adm_release: "adm_pcs s i = Adm_Held \<Longrightarrow>
     adm_step limit s (s\<lparr>adm_in_flight := adm_in_flight s - 1, adm_pcs := (adm_pcs s)(i := Adm_Idle)\<rparr>)"

inductive_cases adm_stepE: "adm_step limit s t"

inductive adm_reachable :: "int \<Rightarrow> adm_state \<Rightarrow> bool" for limit where
  adm_start: "adm_reachable limit adm_init"
| adm_next: "adm_reachable limit s \<Longrightarrow> adm_step limit s t \<Longrightarrow> adm_reachable limit t"

definition adm_holders :: "adm_state \<Rightarrow> nat set" where
  "adm_holders s = {i. adm_pcs s i = Adm_Held}"

definition adm_inv :: "int \<Rightarrow> adm_state \<Rightarrow> bool" where
  "adm_inv limit s \<longleftrightarrow> finite (adm_holders s) \<and> adm_in_flight s = int (card (adm_holders s)) \<and>
     adm_in_flight s \<le> max 0 limit"

lemma adm_holders_upd:
  "adm_holders (s\<lparr>adm_in_flight := n, adm_pcs := (adm_pcs s)(i := pc)\<rparr>) =
     (if pc = Adm_Held then insert i (adm_holders s) else adm_holders s - {i})"
  "adm_holders (s\<lparr>adm_pcs := (adm_pcs s)(i := pc)\<rparr>) =
     (if pc = Adm_Held then insert i (adm_holders s) else adm_holders s - {i})"
  by (auto simp: adm_holders_def)

lemma adm_not_holder: "adm_pcs s i = pc \<Longrightarrow> pc \<noteq> Adm_Held \<Longrightarrow> i \<notin> adm_holders s"
  by (simp add: adm_holders_def)

lemma adm_step_inv: "adm_step limit s t \<Longrightarrow> adm_inv limit s \<Longrightarrow> adm_inv limit t"
proof (induction rule: adm_step.induct)
  case (adm_cas s i current)
  then have "i \<notin> adm_holders s" by (auto simp: adm_holders_def)
  with adm_cas show ?case by (auto simp: adm_inv_def adm_holders_upd)
next
  case (adm_release s i)
  then have "i \<in> adm_holders s" by (simp add: adm_holders_def)
  with adm_release show ?case
    by (auto simp: adm_inv_def adm_holders_upd card_Diff_singleton)
       (metis card_gt_0_iff equals0D Suc_leI of_nat_diff of_nat_1 One_nat_def)
qed (auto simp: adm_inv_def adm_holders_upd adm_not_holder)

lemma adm_reachable_inv: "adm_reachable limit s \<Longrightarrow> adm_inv limit s"
proof (induction rule: adm_reachable.induct)
  case adm_start
  show ?case by (simp add: adm_inv_def adm_init_def adm_holders_def)
next
  case (adm_next s t)
  then show ?case by (blast intro: adm_step_inv)
qed

end
