(* ===== verification/Gateway_Service.thy ===== *)
theory Gateway_Service
  imports Kafka Gateway_Guards Codec Metrics
begin

text \<open>
  \<open>GatewayService\<close> of \<open>gateway/gateway_service.cpp\<close>: start and stop, the ingestion of one
  event and of a batch, and the transport entry points with authorisation and admission.

  The record \<open>gateway\<close> holds the members of the class (a unique pointer is an \<open>option\<close>, or a
  boolean where the object has no state) and the two things outside it that an operation
  changes: the in-memory broker and \<open>g_trace\<close>, the events published so far, oldest first.
  Only the metrics observers listen to the gateway's events and they neither throw nor touch
  the gateway, so the trace is all a publication does here.

  \<open>clk\<close> gives the clock readings of one call of \<open>ingest_one\<close>: \<open>clk 0\<close> for \<open>server_recv_ms\<close>,
  \<open>clk 1\<close> for the validator, \<open>clk 2\<close> for the rate limiter (steady clock). A batch reads
  its own clock first: \<open>bclk 0\<close> for the batch event, \<open>bclk (Suc i)\<close> for the validation of event i.
  An exception of the producer leaves every operation as \<open>Inl\<close>; the lease is released on
  that way out too, as its destructor runs.
\<close>

subsection \<open>State\<close>

record gateway =
  g_running :: bool
  g_lifecycle :: lifecycle_state
  g_config :: config
  g_bus :: bool
  g_producer :: bool
  g_validator :: "gateway_config option"
  g_limiter :: "rate_limiter option"
  g_admission :: "(gateway_config \<times> int) option"
  g_broker :: broker
  g_trace :: "event list"

definition new_gateway :: "broker \<Rightarrow> gateway" where
  "new_gateway b = \<lparr>g_running = False, g_lifecycle = Stopped, g_config = config_default,
     g_bus = False, g_producer = False, g_validator = None, g_limiter = None,
     g_admission = None, g_broker = b, g_trace = []\<rparr>"

record ingest_result =
  ir_accepted :: int
  ir_rejected :: int
  ir_errors :: "string list"

definition ingest_result_ok :: "ingest_result \<Rightarrow> bool" where
  "ingest_result_ok r = (ir_rejected r = 0)"

record ingest_response =
  rsp_accepted :: bool
  rsp_accepted_count :: int
  rsp_rejected_count :: int
  rsp_accepted_events :: "location_event list"
  rsp_errors :: "string list"

definition ingest_response_default :: ingest_response where
  "ingest_response_default = \<lparr>rsp_accepted = False, rsp_accepted_count = 0,
     rsp_rejected_count = 0, rsp_accepted_events = [], rsp_errors = []\<rparr>"

definition ingest_response_ok :: "ingest_response \<Rightarrow> bool" where
  "ingest_response_ok r = (rsp_accepted r \<and> rsp_rejected_count r = 0)"

definition g_publish :: "event list \<Rightarrow> gateway \<Rightarrow> gateway" where
  "g_publish es g = (if g_bus g then g\<lparr>g_trace := g_trace g @ es\<rparr> else g)"

subsection \<open>Start, stop and health\<close>

definition start_with_bus :: "config \<Rightarrow> gateway \<Rightarrow> gateway" where
  "start_with_bus c g =
     (if g_running g then g
      else g\<lparr>g_config := c, g_bus := True, g_producer := True,
             g_validator := Some (cf_gateway c),
             g_limiter := Some (new_rate_limiter (gw_rate_limit_rps_per_device (cf_gateway c))),
             g_admission := Some (cf_gateway c, 0),
             g_running := True, g_lifecycle := Ready\<rparr>)"

definition stop_gateway :: "gateway \<Rightarrow> gateway" where
  "stop_gateway g =
     (if \<not> g_running g then g else g\<lparr>g_running := False, g_lifecycle := Stopped\<rparr>)"

definition gateway_is_healthy :: "gateway \<Rightarrow> bool" where
  "gateway_is_healthy g = g_running g"

definition gateway_is_ready :: "gateway \<Rightarrow> bool" where
  "gateway_is_ready g = (g_lifecycle g = Ready)"

definition gateway_health :: "gateway \<Rightarrow> health_snapshot" where
  "gateway_health g = (case g_lifecycle g of
       Ready \<Rightarrow> ready_health ''gateway accepting ingest''
     | Starting \<Rightarrow> starting_health ''gateway starting''
     | Draining \<Rightarrow> draining_health ''gateway draining''
     | LFailed \<Rightarrow> failed_health ''gateway failed''
     | Stopped \<Rightarrow> stopped_health ''gateway stopped'')"

definition gateway_in_flight :: "gateway \<Rightarrow> int" where
  "gateway_in_flight g = (case g_admission g of None \<Rightarrow> 0 | Some (_, n) \<Rightarrow> n)"

definition gateway_tracked_devices :: "gateway \<Rightarrow> nat" where
  "gateway_tracked_devices g = (case g_limiter g of None \<Rightarrow> 0 | Some l \<Rightarrow> tracked_devices l)"

subsection \<open>Ingestion\<close>

definition stamp_event :: "int \<Rightarrow> location_event \<Rightarrow> location_event" where
  "stamp_event now e = (if le_server_recv_ms e = 0 then e\<lparr>le_server_recv_ms := now\<rparr> else e)"

definition ingest_one :: "(nat \<Rightarrow> int) \<Rightarrow> location_event \<Rightarrow> gateway \<Rightarrow>
    (location_event, string) result exc \<times> gateway" where
  "ingest_one clk e0 g =
     (case (g_validator g, g_limiter g) of
        (Some vcfg, Some limiter) \<Rightarrow>
          if \<not> g_running g \<or> \<not> g_producer g then (Inr (Inl ''gateway service is not running''), g)
          else let e = stamp_event (clk 0) e0 in
            (case validate vcfg (clk 1) e of
               Inl err \<Rightarrow> (Inr (Inl err), g_publish [IngestBatchRejected (le_device_id e) err 1] g)
             | Inr _ \<Rightarrow>
               (let (ok, limiter') = allow (clk 2) (le_device_id e) limiter;
                    g1 = g\<lparr>g_limiter := Some limiter'\<rparr> in
                if \<not> ok then (Inr (Inl ''rate limited''),
                   g_publish [GatewayBackpressureApplied ''rate limited'' 0,
                              IngestBatchRejected (le_device_id e) ''rate limited'' 1] g1)
                else let topic = kc_ingest_topic (cf_kafka (g_config g)) in
                  (case produce topic (le_device_id e) (encode_location_payload e) (g_broker g1) of
                     Inl ex \<Rightarrow> (Inl ex, g1)
                   | Inr b \<Rightarrow> (Inr (Inr e), g_publish [IngestEventPublished e topic] (g1\<lparr>g_broker := b\<rparr>)))))
      | _ \<Rightarrow> (Inr (Inl ''gateway service is not running''), g))"

fun ingest_loop :: "(nat \<Rightarrow> nat \<Rightarrow> int) \<Rightarrow> location_event list \<Rightarrow> ingest_result \<Rightarrow> gateway \<Rightarrow>
    ingest_result exc \<times> gateway" where
  "ingest_loop clks [] r g = (Inr r, g)"
| "ingest_loop clks (e # es) r g =
     (case ingest_one (clks (length es)) e g of
        (Inl ex, g') \<Rightarrow> (Inl ex, g')
      | (Inr (Inr _), g') \<Rightarrow> ingest_loop clks es (r\<lparr>ir_accepted := ir_accepted r + 1\<rparr>) g'
      | (Inr (Inl err), g') \<Rightarrow> ingest_loop clks es
          (r\<lparr>ir_rejected := ir_rejected r + 1, ir_errors := ir_errors r @ [err]\<rparr>) g')"

definition first_device :: "location_event list \<Rightarrow> string" where
  "first_device es = (case es of [] \<Rightarrow> [] | e # _ \<Rightarrow> le_device_id e)"

definition batch_level_reject :: "unit exc list \<Rightarrow> bool" where
  "batch_level_reject rs = list_all (\<lambda>r. r = Inl ''batch too large'') rs"

definition ingest_batch :: "(nat \<Rightarrow> int) \<Rightarrow> (nat \<Rightarrow> nat \<Rightarrow> int) \<Rightarrow> location_event list \<Rightarrow> gateway \<Rightarrow>
    ingest_result exc \<times> gateway" where
  "ingest_batch bclk clks batch g =
     (let g1 = g_publish [IngestBatchReceived (first_device batch) batch (bclk 0)] g;
          n = int (length batch);
          too_large = (case g_validator g of None \<Rightarrow> False
            | Some vcfg \<Rightarrow> (let rs = validate_batch vcfg (\<lambda>i. bclk (Suc i)) batch in
                rs \<noteq> [] \<and> batch_level_reject rs)) in
      if too_large
      then (Inr \<lparr>ir_accepted = 0, ir_rejected = n,
                 ir_errors = replicate (length batch) ''batch too large''\<rparr>,
            g_publish [IngestBatchRejected (first_device batch) ''batch too large'' n] g1)
      else ingest_loop clks batch \<lparr>ir_accepted = 0, ir_rejected = 0, ir_errors = []\<rparr> g1)"

subsection \<open>Transport entry points\<close>

definition reject_transport_request :: "string \<Rightarrow> int \<Rightarrow> string \<Rightarrow> bool \<Rightarrow> gateway \<Rightarrow>
    ingest_response \<times> gateway" where
  "reject_transport_request reason n device backpressure g =
     (ingest_response_default\<lparr>rsp_rejected_count := n, rsp_errors := [reason]\<rparr>,
      g_publish ((if backpressure
                  then [GatewayBackpressureApplied reason (gw_queue_full_timeout_ms (cf_gateway (g_config g)))]
                  else []) @ [IngestBatchRejected device reason n]) g)"

definition release_admission :: "bool \<Rightarrow> gateway \<Rightarrow> gateway" where
  "release_admission lease g = (case g_admission g of None \<Rightarrow> g
     | Some (cfg, n) \<Rightarrow> g\<lparr>g_admission := Some (cfg, release_lease lease n)\<rparr>)"

text \<open>The guards both entry points share, around the work done under the lease.\<close>

definition admit :: "string \<Rightarrow> int \<Rightarrow> string \<Rightarrow> (gateway \<Rightarrow> ingest_response exc \<times> gateway) \<Rightarrow> gateway \<Rightarrow>
    ingest_response exc \<times> gateway" where
  "admit key n device work g = (case g_admission g of
       None \<Rightarrow> (let (r, g') = reject_transport_request ''gateway service is not running'' n device False g
               in (Inr r, g'))
     | Some (cfg, in_flight) \<Rightarrow> (case authorize cfg key of
           Inl err \<Rightarrow> (let (r, g') = reject_transport_request err n device False g in (Inr r, g'))
         | Inr _ \<Rightarrow> (case try_acquire cfg in_flight of
             (Inl err, _) \<Rightarrow> (let (r, g') = reject_transport_request err n device True g in (Inr r, g'))
           | (Inr lease, n') \<Rightarrow>
               (let (r, g') = work (g\<lparr>g_admission := Some (cfg, n')\<rparr>) in (r, release_admission lease g')))))"

definition handle_ingest_one :: "(nat \<Rightarrow> int) \<Rightarrow> location_event \<Rightarrow> string \<Rightarrow> gateway \<Rightarrow>
    ingest_response exc \<times> gateway" where
  "handle_ingest_one clk e key g = admit key 1 (le_device_id e) (\<lambda>g.
     (case ingest_one clk e g of
        (Inl ex, g') \<Rightarrow> (Inl ex, g')
      | (Inr (Inr ev), g') \<Rightarrow> (Inr (ingest_response_default\<lparr>rsp_accepted := True,
            rsp_accepted_count := 1, rsp_accepted_events := [ev]\<rparr>), g')
      | (Inr (Inl err), g') \<Rightarrow> (Inr (ingest_response_default\<lparr>rsp_rejected_count := 1,
            rsp_errors := [err]\<rparr>), g'))) g"

definition handle_ingest_batch :: "(nat \<Rightarrow> int) \<Rightarrow> (nat \<Rightarrow> nat \<Rightarrow> int) \<Rightarrow> location_event list \<Rightarrow> string \<Rightarrow>
    gateway \<Rightarrow> ingest_response exc \<times> gateway" where
  "handle_ingest_batch bclk clks es key g =
     admit key (if es = [] then 1 else int (length es)) (first_device es) (\<lambda>g.
       (case ingest_batch bclk clks es g of
          (Inl ex, g') \<Rightarrow> (Inl ex, g')
        | (Inr r, g') \<Rightarrow> (Inr (ingest_response_default\<lparr>rsp_accepted := ingest_result_ok r,
              rsp_accepted_count := ir_accepted r, rsp_rejected_count := ir_rejected r,
              rsp_errors := ir_errors r\<rparr>), g'))) g"

subsection \<open>Invariant\<close>

text \<open>
  A running service has all its parts and says it is ready; the ingest topic is not empty,
  as the validated configuration guarantees.
\<close>

definition gateway_ok :: "gateway \<Rightarrow> bool" where
  "gateway_ok g \<longleftrightarrow> (g_running g \<longleftrightarrow> g_lifecycle g = Ready) \<and>
     (g_running g \<longrightarrow> g_bus g \<and> g_producer g \<and> g_validator g \<noteq> None \<and> g_limiter g \<noteq> None \<and>
        g_admission g \<noteq> None \<and> kc_ingest_topic (cf_kafka (g_config g)) \<noteq> [])"

lemma g_publish_frame [simp]:
  "g_running (g_publish es g) = g_running g" "g_lifecycle (g_publish es g) = g_lifecycle g"
  "g_config (g_publish es g) = g_config g" "g_bus (g_publish es g) = g_bus g"
  "g_producer (g_publish es g) = g_producer g" "g_validator (g_publish es g) = g_validator g"
  "g_limiter (g_publish es g) = g_limiter g" "g_admission (g_publish es g) = g_admission g"
  "g_broker (g_publish es g) = g_broker g"
  by (simp_all add: g_publish_def)

lemma g_publish_trace: "g_bus g \<Longrightarrow> g_trace (g_publish es g) = g_trace g @ es"
  by (simp add: g_publish_def)

lemma new_gateway_ok [simp]: "gateway_ok (new_gateway b)"
  by (simp add: gateway_ok_def new_gateway_def)

lemma start_gateway_ok:
  "gateway_ok g \<Longrightarrow> kc_ingest_topic (cf_kafka c) \<noteq> [] \<Longrightarrow> gateway_ok (start_with_bus c g)"
  by (simp add: gateway_ok_def start_with_bus_def)

lemma stop_gateway_ok: "gateway_ok g \<Longrightarrow> gateway_ok (stop_gateway g)"
  by (simp add: gateway_ok_def stop_gateway_def)

text \<open>What \<open>ingest_one\<close> leaves alone.\<close>

lemma ingest_one_frame:
  assumes "ingest_one clk e g = (r, g')"
  shows "g_running g' = g_running g \<and> g_lifecycle g' = g_lifecycle g \<and> g_config g' = g_config g \<and>
    g_bus g' = g_bus g \<and> g_producer g' = g_producer g \<and> g_validator g' = g_validator g \<and>
    g_admission g' = g_admission g \<and> (g_limiter g' = None \<longleftrightarrow> g_limiter g = None)"
  using assms
  by (auto simp: ingest_one_def Let_def split: option.splits if_splits sum.splits prod.splits)

lemma stamp_event_device [simp]: "le_device_id (stamp_event now e) = le_device_id e"
  by (simp add: stamp_event_def)

lemma ingest_one_ok: "gateway_ok g \<Longrightarrow> ingest_one clk e g = (r, g') \<Longrightarrow> gateway_ok g'"
  using ingest_one_frame [of clk e g r g'] by (simp add: gateway_ok_def)

lemma ingest_one_not_running: "\<not> g_running g \<Longrightarrow>
  ingest_one clk e g = (Inr (Inl ''gateway service is not running''), g)"
  by (simp add: ingest_one_def split: option.splits)

definition ingest_topic :: "gateway \<Rightarrow> string" where
  "ingest_topic g = kc_ingest_topic (cf_kafka (g_config g))"

definition logs :: "gateway \<Rightarrow> string \<Rightarrow> kafka_message list" where
  "logs g t = topic_log (g_broker g) t"

text \<open>The message an accepted event becomes.\<close>

definition ingest_message :: "gateway \<Rightarrow> location_event \<Rightarrow> kafka_message" where
  "ingest_message g e = \<lparr>km_topic = ingest_topic g, km_partition = 0,
     km_offset = int (length (logs g (ingest_topic g))), km_key = le_device_id e,
     km_payload = encode_location_payload e, km_timestamp_ms = 0\<rparr>"

lemma ingest_one_cases:
  assumes ok: "gateway_ok g" and call: "ingest_one clk e0 g = (r, g')"
  obtains
    (accepted) e where "e = stamp_event (clk 0) e0" "r = Inr (Inr e)"
      "event_valid (the (g_validator g)) (clk 1) e"
      "fst (allow (clk 2) (le_device_id e) (the (g_limiter g)))"
      "\<forall>t. logs g' t = logs g t @ (if t = ingest_topic g then [ingest_message g e] else [])"
      "g_trace g' = g_trace g @ [IngestEventPublished e (ingest_topic g)]"
  | (rejected) err where "r = Inr (Inl err)" "g_broker g' = g_broker g"
      "err \<noteq> ''batch too large''"
      "\<not> (g_running g \<and> event_valid (the (g_validator g)) (clk 1) (stamp_event (clk 0) e0) \<and>
         fst (allow (clk 2) (le_device_id e0) (the (g_limiter g))))"
      "g_running g \<longrightarrow> (\<exists>pre. g_trace g' = g_trace g @ pre @ [IngestBatchRejected (le_device_id e0) err 1])"
proof (cases "g_running g")
  case False
  with call show ?thesis by (intro rejected) (auto simp: ingest_one_not_running)
next
  case run: True
  then obtain vcfg lim where parts: "g_validator g = Some vcfg" "g_limiter g = Some lim"
    "g_producer g" "g_bus g" "kc_ingest_topic (cf_kafka (g_config g)) \<noteq> []"
    using ok by (auto simp: gateway_ok_def)
  define e where "e = stamp_event (clk 0) e0"
  have dev: "le_device_id e = le_device_id e0" by (simp add: e_def stamp_event_def)
  obtain allowed lim' where al: "allow (clk 2) (le_device_id e) lim = (allowed, lim')"
    by (cases "allow (clk 2) (le_device_id e) lim")
  show ?thesis
  proof (cases "validate vcfg (clk 1) e")
    case (Inl err)
    have "err \<noteq> ''batch too large''" using Inl validate_not_batch_error by metis
    moreover have "\<not> event_valid vcfg (clk 1) e" using Inl validate_ok_iff [of vcfg "clk 1" e] by simp
    ultimately show ?thesis using call run parts Inl dev
      by (intro rejected [of err])
        (auto simp: ingest_one_def e_def [symmetric] g_publish_trace)
  next
    case (Inr u)
    then have valid: "event_valid vcfg (clk 1) e" using validate_ok_iff [of vcfg "clk 1" e] by simp
    show ?thesis
    proof (cases allowed)
      case False
      with call run parts Inr al dev show ?thesis
        by (intro rejected [of "''rate limited''"])
          (auto simp: ingest_one_def e_def [symmetric] g_publish_trace)
    next
      case True
      obtain b where b: "produce (ingest_topic g) (le_device_id e) (encode_location_payload e) (g_broker g) = Inr b"
        using parts(5) by (simp add: produce_def ingest_topic_def)
      have log: "\<forall>t. topic_log b t = logs g t @ (if t = ingest_topic g then [ingest_message g e] else [])"
        using topic_log_produce [OF b] by (simp add: logs_def ingest_message_def)
      from True call run parts Inr al b valid log show ?thesis
        by (intro accepted [of e])
          (auto simp: ingest_one_def e_def [symmetric] g_publish_trace ingest_topic_def [symmetric] logs_def)
    qed
  qed
qed

subsection \<open>Batches\<close>

lemma ingest_loop_account:
  assumes "gateway_ok g" "ingest_loop clks es r g = (out, g')"
  shows "gateway_ok g' \<and> (\<exists>r' new. out = Inr r' \<and>
    ir_accepted r' + ir_rejected r' = ir_accepted r + ir_rejected r + int (length es) \<and>
    int (length (ir_errors r')) - ir_rejected r' = int (length (ir_errors r)) - ir_rejected r \<and>
    logs g' (ingest_topic g) = logs g (ingest_topic g) @ new \<and>
    int (length new) = ir_accepted r' - ir_accepted r \<and>
    (\<forall>m \<in> set new. \<exists>e \<in> set es. km_key m = le_device_id e) \<and>
    (\<forall>t. t \<noteq> ingest_topic g \<longrightarrow> logs g' t = logs g t))"
  using assms
proof (induction es arbitrary: r g)
  case Nil
  then show ?case by auto
next
  case (Cons e es)
  obtain o1 g1 where one: "ingest_one (clks (length es)) e g = (o1, g1)" by (cases "ingest_one (clks (length es)) e g")
  note ok1 = ingest_one_ok [OF Cons.prems(1) one]
  have top: "ingest_topic g1 = ingest_topic g"
    using ingest_one_frame [OF one] by (simp add: ingest_topic_def)
  show ?case
  proof (cases rule: ingest_one_cases [OF Cons.prems(1) one])
    case (1 e')
    have rec: "ingest_loop clks es (r\<lparr>ir_accepted := ir_accepted r + 1\<rparr>) g1 = (out, g')"
      using Cons.prems(2) one 1(2) by simp
    have dev: "le_device_id e' = le_device_id e" using 1(1) by (simp add: stamp_event_def)
    from Cons.IH [OF ok1 rec] obtain r' new where IH: "gateway_ok g'" "out = Inr r'"
      "ir_accepted r' + ir_rejected r' = ir_accepted r + 1 + ir_rejected r + int (length es)"
      "int (length (ir_errors r')) - ir_rejected r' = int (length (ir_errors r)) - ir_rejected r"
      "logs g' (ingest_topic g) = logs g1 (ingest_topic g) @ new"
      "int (length new) = ir_accepted r' - (ir_accepted r + 1)"
      "\<forall>m \<in> set new. \<exists>e \<in> set es. km_key m = le_device_id e"
      "\<forall>t. t \<noteq> ingest_topic g \<longrightarrow> logs g' t = logs g1 t"
      by (auto simp: top)
    then show ?thesis using 1(5) dev
      by (intro conjI exI [of _ r'] exI [of _ "ingest_message g e' # new"])
        (auto simp: ingest_message_def)
  next
    case (2 err)
    have rec: "ingest_loop clks es (r\<lparr>ir_rejected := ir_rejected r + 1, ir_errors := ir_errors r @ [err]\<rparr>) g1
        = (out, g')"
      using Cons.prems(2) one 2(1) by simp
    have "\<forall>t. logs g1 t = logs g t" using 2(2) by (simp add: logs_def)
    then show ?thesis using Cons.IH [OF ok1 rec] by (auto simp: top)
  qed
qed

text \<open>The events of a batch a running gateway takes, stamped and in order: those that pass the validator
  and then the rate limiter, whose windows only the valid events before them have used.\<close>

fun accepted_events :: "gateway_config \<Rightarrow> (nat \<Rightarrow> nat \<Rightarrow> int) \<Rightarrow> location_event list \<Rightarrow> rate_limiter \<Rightarrow>
    location_event list" where
  "accepted_events vcfg clks [] limiter = []"
| "accepted_events vcfg clks (e # es) limiter =
     (let clk = clks (length es); e' = stamp_event (clk 0) e; (ok, limiter') = allow (clk 2) (le_device_id e) limiter in
      if \<not> event_valid vcfg (clk 1) e' then accepted_events vcfg clks es limiter
      else if ok then e' # accepted_events vcfg clks es limiter'
      else accepted_events vcfg clks es limiter')"

text \<open>What a consumer of the topic reads of a message.\<close>

abbreviation message_content :: "kafka_message \<Rightarrow> string \<times> string" where
  "message_content m \<equiv> (km_key m, km_payload m)"

abbreviation event_content :: "location_event \<Rightarrow> string \<times> string" where
  "event_content e \<equiv> (le_device_id e, encode_location_payload e)"

lemma ingest_one_limiter:
  assumes "gateway_ok g" "g_running g" "ingest_one clk e g = (r, g')"
  shows "the (g_limiter g') =
    (if event_valid (the (g_validator g)) (clk 1) (stamp_event (clk 0) e)
     then snd (allow (clk 2) (le_device_id e) (the (g_limiter g))) else the (g_limiter g))"
proof -
  obtain vcfg lim where "g_validator g = Some vcfg" "g_limiter g = Some lim" "g_producer g"
    using assms(1,2) by (auto simp: gateway_ok_def)
  then show ?thesis
    using assms(2,3) validate_ok_iff [of vcfg "clk 1" "stamp_event (clk 0) e"]
    by (auto simp: ingest_one_def Let_def split: sum.splits prod.splits if_splits)
qed

lemma ingest_loop_accepted:
  assumes "gateway_ok g" "g_running g" "ingest_loop clks es r g = (out, g')"
  shows "\<exists>new. logs g' (ingest_topic g) = logs g (ingest_topic g) @ new \<and>
    map message_content new =
      map event_content (accepted_events (the (g_validator g)) clks es (the (g_limiter g)))"
  using assms
proof (induction es arbitrary: r g)
  case Nil
  then show ?case by auto
next
  case (Cons e es)
  obtain o1 g1 where one: "ingest_one (clks (length es)) e g = (o1, g1)" by (cases "ingest_one (clks (length es)) e g")
  note ok1 = ingest_one_ok [OF Cons.prems(1) one] and frame = ingest_one_frame [OF one]
  note lim1 = ingest_one_limiter [OF Cons.prems(1,2) one]
  have run1: "g_running g1" "the (g_validator g1) = the (g_validator g)" "ingest_topic g1 = ingest_topic g"
    using frame Cons.prems(2) by (simp_all add: ingest_topic_def)
  show ?case
  proof (cases rule: ingest_one_cases [OF Cons.prems(1) one])
    case (1 e')
    have dev: "le_device_id e' = le_device_id e" using 1(1) by simp
    have rec: "ingest_loop clks es (r\<lparr>ir_accepted := ir_accepted r + 1\<rparr>) g1 = (out, g')"
      using Cons.prems(3) one 1(2) by simp
    from Cons.IH [OF ok1 run1(1) rec] obtain new where "logs g' (ingest_topic g) = logs g1 (ingest_topic g) @ new"
      "map message_content new = map event_content (accepted_events (the (g_validator g)) clks es (the (g_limiter g1)))"
      by (auto simp: run1)
    then show ?thesis using 1(1,3-5) lim1 dev
      by (intro exI [of _ "ingest_message g e' # new"]) (simp add: ingest_message_def case_prod_beta Let_def)
  next
    case (2 err)
    have rec: "ingest_loop clks es (r\<lparr>ir_rejected := ir_rejected r + 1, ir_errors := ir_errors r @ [err]\<rparr>) g1
        = (out, g')"
      using Cons.prems(3) one 2(1) by simp
    have "logs g1 = logs g" using 2(2) by (simp add: logs_def fun_eq_iff)
    then show ?thesis using Cons.IH [OF ok1 run1(1) rec] 2(4) Cons.prems(2) lim1
      by (auto simp: run1 case_prod_beta Let_def)
  qed
qed

lemma ingest_loop_not_running: "\<not> g_running g \<Longrightarrow> snd (ingest_loop clks es r g) = g"
  by (induction es arbitrary: r) (simp_all add: ingest_one_not_running)

lemma ingest_batch_split:
  assumes "ingest_batch bclk clks es g = (out, g')"
  obtains (large) "es \<noteq> []" "out = Inr \<lparr>ir_accepted = 0, ir_rejected = int (length es),
         ir_errors = replicate (length es) ''batch too large''\<rparr>" "g_broker g' = g_broker g"
      "g_running g' = g_running g" "gateway_ok g \<longrightarrow> gateway_ok g'" "g_admission g' = g_admission g"
      "g_limiter g' = g_limiter g"
  | (events) "ingest_loop clks es \<lparr>ir_accepted = 0, ir_rejected = 0, ir_errors = []\<rparr>
       (g_publish [IngestBatchReceived (first_device es) es (bclk 0)] g) = (out, g')"
proof -
  have frame: "gateway_ok (g_publish xs g) = gateway_ok g" for xs g by (simp add: gateway_ok_def)
  show ?thesis
  proof (cases "\<exists>v. g_validator g = Some v \<and> validate_batch v (\<lambda>i. bclk (Suc i)) es \<noteq> [] \<and>
      batch_level_reject (validate_batch v (\<lambda>i. bclk (Suc i)) es)")
    case True
    then have "es \<noteq> []" by (metis length_0_conv length_validate_batch)
    with True assms show ?thesis
      by (intro large) (auto simp: ingest_batch_def Let_def frame)
  next
    case False
    then have "(case g_validator g of None \<Rightarrow> False
            | Some vcfg \<Rightarrow> (let rs = validate_batch vcfg (\<lambda>i. bclk (Suc i)) es in
                rs \<noteq> [] \<and> batch_level_reject rs)) = False"
      by (auto split: option.splits simp: Let_def)
    with assms show ?thesis by (intro events) (simp add: ingest_batch_def Let_def)
  qed
qed

lemma batch_level_reject_iff:
  "batch_level_reject (validate_batch cfg clk es) \<longleftrightarrow> es = [] \<or> int (length es) > gw_max_batch_events cfg"
proof (cases "int (length es) > gw_max_batch_events cfg")
  case True
  then show ?thesis by (simp add: validate_batch_def batch_level_reject_def list_all_iff)
next
  case False
  show ?thesis
  proof (cases es)
    case Nil
    then show ?thesis by (simp add: validate_batch_def batch_level_reject_def)
  next
    case (Cons e es')
    have "hd (validate_batch cfg clk es) = validate cfg (clk 0) e" "validate_batch cfg clk es \<noteq> []"
      using False Cons by (simp_all add: validate_batch_def enumerate_eq_zip upt_rec)
    then have "\<exists>r \<in> set (validate_batch cfg clk es). r \<noteq> Inl ''batch too large''"
      using validate_not_batch_error hd_in_set by metis
    then show ?thesis using False Cons by (auto simp: batch_level_reject_def list_all_iff)
  qed
qed

subsection \<open>Sample values\<close>

definition sample_gateway :: gateway where
  "sample_gateway = start_with_bus config_default (new_gateway [])"

definition sample_event :: location_event where
  "sample_event = location_event_default\<lparr>le_device_id := ''d'', le_seq := 1, le_timestamp_ms := 1000\<rparr>"

lemma sample_gateway_ok: "gateway_ok sample_gateway" "g_running sample_gateway"
  by (simp_all add: sample_gateway_def start_with_bus_def new_gateway_def gateway_ok_def
      config_default_def kafka_config_default_def)

subsection \<open>Properties of the gateway\<close>

text \<open>C3: A running gateway accepts an event exactly when it passes the validator and the rate
  limiter; then precisely one message, keyed by the device and carrying the stamped event,
  is appended to the ingest topic, and a rejection leaves every log as it was.\<close>

theorem gateway_accepts_iff:
  assumes "gateway_ok g" "g_running g" "ingest_one clk e g = (r, g')"
  shows "(\<exists>e'. r = Inr (Inr e')) =
      (event_valid (the (g_validator g)) (clk 1) (stamp_event (clk 0) e) \<and>
       fst (allow (clk 2) (le_device_id e) (the (g_limiter g)))) \<and>
    (case r of Inl _ \<Rightarrow> False
     | Inr (Inl _) \<Rightarrow> g_broker g' = g_broker g
     | Inr (Inr e') \<Rightarrow> e' = stamp_event (clk 0) e \<and>
         (\<forall>t. logs g' t = logs g t @ (if t = ingest_topic g then [ingest_message g e'] else [])))"
proof (cases rule: ingest_one_cases [OF assms(1,3)])
  case (1 e')
  then show ?thesis by simp
next
  case (2 err)
  then show ?thesis using assms(2) by auto
qed

theorem gateway_accepts_iff_witness:
  "\<forall>t. logs (snd (ingest_one (\<lambda>_. 1000) sample_event sample_gateway)) t =
     logs sample_gateway t @ (if t = ingest_topic sample_gateway
       then [ingest_message sample_gateway (stamp_event 1000 sample_event)] else [])"
proof -
  let ?out = "ingest_one (\<lambda>_. 1000) sample_event sample_gateway"
  have valid: "event_valid (the (g_validator sample_gateway)) 1000 (stamp_event 1000 sample_event) \<and>
    fst (allow 1000 (le_device_id sample_event) (the (g_limiter sample_gateway)))"
    by (simp add: sample_gateway_def start_with_bus_def new_gateway_def config_default_def
        gateway_config_default_def event_valid_def validate_def stamp_event_def sample_event_def
        location_event_default_def allow_def new_rate_limiter_def window_of_def valid_lat_lon_def)
  note props = gateway_accepts_iff [OF sample_gateway_ok, of "\<lambda>_. 1000" sample_event "fst ?out" "snd ?out", OF prod.collapse [symmetric]]
  from props valid obtain e' where "fst ?out = Inr (Inr e')" by auto
  then show ?thesis using props by simp
qed

lemma ingest_batch_counts:
  assumes "gateway_ok g" "ingest_batch bclk clks es g = (out, g')"
  shows "\<exists>r new. out = Inr r \<and> ir_accepted r + ir_rejected r = int (length es) \<and>
    int (length (ir_errors r)) = ir_rejected r \<and>
    logs g' (ingest_topic g) = logs g (ingest_topic g) @ new \<and> int (length new) = ir_accepted r \<and>
    (\<forall>t. t \<noteq> ingest_topic g \<longrightarrow> logs g' t = logs g t)"
  using assms(2)
proof (cases rule: ingest_batch_split)
  case large
  then show ?thesis by (simp add: logs_def)
next
  case events
  let ?g1 = "g_publish [IngestBatchReceived (first_device es) es (bclk 0)] g"
  have ok: "gateway_ok ?g1" using assms(1) by (simp add: gateway_ok_def)
  have "ingest_topic ?g1 = ingest_topic g" "logs ?g1 = logs g"
    by (simp_all add: ingest_topic_def logs_def fun_eq_iff)
  with ingest_loop_account [OF ok events] show ?thesis by auto
qed

text \<open>The events of a batch that are taken; none when the gateway does not run or the batch is over its
  limit.\<close>

definition batch_accepted :: "(nat \<Rightarrow> nat \<Rightarrow> int) \<Rightarrow> location_event list \<Rightarrow> gateway \<Rightarrow> location_event list" where
  "batch_accepted clks es g =
     (if g_running g \<and> int (length es) \<le> gw_max_batch_events (the (g_validator g))
      then accepted_events (the (g_validator g)) clks es (the (g_limiter g)) else [])"

lemma ingest_batch_accepted:
  assumes "gateway_ok g" "ingest_batch bclk clks es g = (out, g')"
  shows "\<exists>new. logs g' (ingest_topic g) = logs g (ingest_topic g) @ new \<and>
    map message_content new = map event_content (batch_accepted clks es g)"
proof -
  let ?g1 = "g_publish [IngestBatchReceived (first_device es) es (bclk 0)] g"
  have g1: "gateway_ok ?g1" "ingest_topic ?g1 = ingest_topic g" "logs ?g1 = logs g"
    using assms(1) by (simp_all add: gateway_ok_def ingest_topic_def logs_def fun_eq_iff)
  show ?thesis
  proof (cases "g_running g")
    case False
    have "g_broker g' = g_broker g"
      using assms(2)
    proof (cases rule: ingest_batch_split)
      case events
      then show ?thesis using ingest_loop_not_running [of ?g1 clks es] False by (metis g_publish_frame(1,9) snd_conv)
    qed simp
    then show ?thesis using False by (simp add: batch_accepted_def logs_def)
  next
    case run: True
    then obtain v where v: "g_validator g = Some v" using assms(1) by (auto simp: gateway_ok_def)
    let ?rs = "validate_batch v (\<lambda>i. bclk (Suc i)) es"
    have empty: "?rs = [] \<longleftrightarrow> es = []" using length_validate_batch [of v "\<lambda>i. bclk (Suc i)" es] by (metis length_0_conv)
    show ?thesis
    proof (cases "int (length es) \<le> gw_max_batch_events v \<or> es = []")
      case True
      then have "?rs = [] \<or> \<not> batch_level_reject ?rs"
        using batch_level_reject_iff [of v "\<lambda>i. bclk (Suc i)" es] unfolding empty by auto
      then have loop: "ingest_loop clks es \<lparr>ir_accepted = 0, ir_rejected = 0, ir_errors = []\<rparr> ?g1 = (out, g')"
        using assms(2) v by (auto simp: ingest_batch_def Let_def)
      have "accepted_events (the (g_validator g)) clks es (the (g_limiter g)) = batch_accepted clks es g"
        using True run v by (auto simp: batch_accepted_def)
      then show ?thesis using ingest_loop_accepted [OF g1(1) _ loop] run by (simp add: g1(2,3))
    next
      case False
      then have "?rs \<noteq> [] \<and> batch_level_reject ?rs"
        using batch_level_reject_iff [of v "\<lambda>i. bclk (Suc i)" es] unfolding empty by auto
      then have "g_broker g' = g_broker g" using assms(2) v by (auto simp: ingest_batch_def Let_def)
      then show ?thesis using False v by (simp add: batch_accepted_def logs_def)
    qed
  qed
qed

text \<open>C21: A batch is accounted for: accepted plus rejected is its size, there is one error per
  rejection, and what is appended to the ingest topic are exactly the accepted events, each once,
  stamped, under its own device and in the order of the batch (those that pass the validator and
  the rate limiter; none of a batch over the size limit or given to a gateway that does not run).
  No other topic changes.\<close>

theorem gateway_batch_accounting:
  assumes "gateway_ok g" "ingest_batch bclk clks es g = (out, g')"
  shows "\<exists>r new. out = Inr r \<and> ir_accepted r + ir_rejected r = int (length es) \<and>
    int (length (ir_errors r)) = ir_rejected r \<and>
    logs g' (ingest_topic g) = logs g (ingest_topic g) @ new \<and>
    map message_content new = map event_content (batch_accepted clks es g) \<and>
    ir_accepted r = int (length (batch_accepted clks es g)) \<and>
    (\<forall>t. t \<noteq> ingest_topic g \<longrightarrow> logs g' t = logs g t)"
proof -
  obtain new where new: "logs g' (ingest_topic g) = logs g (ingest_topic g) @ new"
    "map message_content new = map event_content (batch_accepted clks es g)"
    using ingest_batch_accepted [OF assms] by blast
  have "length new = length (batch_accepted clks es g)" using new(2) by (metis length_map)
  then show ?thesis using ingest_batch_counts [OF assms] new by auto
qed

theorem gateway_batch_accounting_witness:
  "\<exists>r. fst (ingest_batch (\<lambda>_. 1000) (\<lambda>_ _. 1000) [sample_event, location_event_default] sample_gateway) = Inr r \<and>
    ir_accepted r = 1 \<and> ir_rejected r = 1"
proof -
  have "batch_accepted (\<lambda>_ _. 1000) [sample_event, location_event_default] sample_gateway = [stamp_event 1000 sample_event]"
    by (simp add: batch_accepted_def sample_gateway_def start_with_bus_def new_gateway_def config_default_def
        gateway_config_default_def event_valid_def validate_def stamp_event_def sample_event_def
        location_event_default_def allow_def new_rate_limiter_def window_of_def valid_lat_lon_def)
  then show ?thesis
    using gateway_batch_accounting [OF sample_gateway_ok(1) prod.collapse [symmetric],
      of "\<lambda>_. 1000" "\<lambda>_ _. 1000" "[sample_event, location_event_default]"]
    by auto
qed

text \<open>A batch over the size limit is refused whole: every event is rejected with the same
  error and neither the broker nor the rate limiter is touched.\<close>

lemma gateway_oversized_batch:
  assumes "g_validator g = Some cfg" "int (length es) > gw_max_batch_events cfg" "es \<noteq> []"
  shows "\<exists>g'. ingest_batch bclk clks es g = (Inr \<lparr>ir_accepted = 0, ir_rejected = int (length es),
      ir_errors = replicate (length es) ''batch too large''\<rparr>, g') \<and>
    g_broker g' = g_broker g \<and> g_limiter g' = g_limiter g"
proof -
  have ne: "validate_batch cfg (\<lambda>i. bclk (Suc i)) es \<noteq> []"
    using assms(3) length_validate_batch by (metis length_0_conv)
  have rej: "batch_level_reject (validate_batch cfg (\<lambda>i. bclk (Suc i)) es)"
    using batch_level_reject_iff [of cfg "\<lambda>i. bclk (Suc i)" es] assms(2) by simp
  show ?thesis using ne rej by (simp add: ingest_batch_def assms(1) Let_def)
qed

text \<open>The work under a lease gives the lease back, whatever happens in between.\<close>

lemma admit_in_flight:
  assumes "\<And>g. g_admission (snd (work g)) = g_admission g"
  shows "gateway_in_flight (snd (admit key n dev work g)) = gateway_in_flight g"
proof (cases "g_admission g")
  case None
  then show ?thesis by (simp add: admit_def reject_transport_request_def gateway_in_flight_def)
next
  case (Some p)
  obtain cfg k where p: "p = (cfg, k)" by (cases p)
  show ?thesis
  proof (cases "authorize cfg key")
    case (Inl err)
    then show ?thesis
      by (simp add: admit_def Some p reject_transport_request_def gateway_in_flight_def)
  next
    case (Inr u)
    show ?thesis
    proof (cases "try_acquire cfg k")
      case (Pair a k')
      show ?thesis
      proof (cases a)
        case (Inl err)
        then show ?thesis using Inr Pair
          by (simp add: admit_def Some p reject_transport_request_def gateway_in_flight_def)
      next
        case (Inr lease)
        have "release_lease lease k' = k" using acquire_release Pair Inr by metis
        then show ?thesis using \<open>authorize cfg key = Inr u\<close> Pair Inr assms [of "g\<lparr>g_admission := Some (cfg, k')\<rparr>"]
          by (simp add: admit_def Some p gateway_in_flight_def release_admission_def case_prod_beta)
      qed
    qed
  qed
qed

lemma ingest_loop_admission: "g_admission (snd (ingest_loop clks es r g)) = g_admission g"
proof (induction es arbitrary: r g)
  case (Cons e es)
  obtain o1 g1 where one: "ingest_one (clks (length es)) e g = (o1, g1)" by (cases "ingest_one (clks (length es)) e g")
  have "g_admission g1 = g_admission g" using ingest_one_frame [OF one] by simp
  then show ?case using Cons one by (simp split: sum.splits)
qed simp

lemma ingest_batch_admission: "g_admission (snd (ingest_batch bclk clks es g)) = g_admission g"
  by (simp add: ingest_batch_def Let_def ingest_loop_admission)

lemma ingest_in_flight:
  "gateway_in_flight (snd (handle_ingest_one clk e key g)) = gateway_in_flight g"
  "gateway_in_flight (snd (handle_ingest_batch bclk clks es key g)) = gateway_in_flight g"
proof -
  have "g_admission (snd (ingest_one clk e g)) = g_admission g" for g
    using ingest_one_frame [of clk e g] by (cases "ingest_one clk e g") simp
  then show "gateway_in_flight (snd (handle_ingest_one clk e key g)) = gateway_in_flight g"
    unfolding handle_ingest_one_def
    by (intro admit_in_flight) (simp add: case_prod_beta split: sum.splits)
  show "gateway_in_flight (snd (handle_ingest_batch bclk clks es key g)) = gateway_in_flight g"
    unfolding handle_ingest_batch_def
    by (intro admit_in_flight)
      (simp add: case_prod_beta ingest_batch_admission split: sum.splits)
qed

text \<open>C22: Every transport request, whether it ends in a response or in an exception of the
  producer, leaves the number of requests in flight as it found it.\<close>

theorem gateway_lease_returned:
  "gateway_in_flight (snd (handle_ingest_one clk e key g)) = gateway_in_flight g \<and>
   gateway_in_flight (snd (handle_ingest_batch bclk clks es key g)) = gateway_in_flight g"
  by (simp add: ingest_in_flight)

text \<open>A request with the wrong key, or one that arrives when as many requests are in flight
  as the limit allows, reaches neither the broker nor the rate limiter; the refusal is
  published, after a backpressure event exactly when the limit was the reason.\<close>

lemma gateway_refusal:
  assumes "g_admission g = Some (cfg, n)" "g_bus g"
    and "authorize cfg key = Inl reason \<or> authorize cfg key = Inr () \<and> reason = ''gateway backpressure'' \<and>
         0 < gw_max_in_flight_requests cfg \<and> gw_max_in_flight_requests cfg \<le> n"
  shows "\<exists>g'. handle_ingest_one clk e key g =
      (Inr (ingest_response_default\<lparr>rsp_rejected_count := 1, rsp_errors := [reason]\<rparr>), g') \<and>
    g_broker g' = g_broker g \<and> g_limiter g' = g_limiter g \<and>
    g_trace g' = g_trace g @
      (if authorize cfg key = Inr ()
       then [GatewayBackpressureApplied reason (gw_queue_full_timeout_ms (cf_gateway (g_config g)))] else []) @
      [IngestBatchRejected (le_device_id e) reason 1]"
  using assms
  by (auto simp: handle_ingest_one_def admit_def try_acquire_def reject_transport_request_def
      g_publish_trace)

end
