(* ===== verification/Query.thy ===== *)
theory Query
  imports World
begin

text \<open>
  The read side of \<open>query/\<close>: the handlers for the latest state, for the devices near a point and
  for trips, and the service that checks the requests and owns the stores. The clock reading
  of a nearby query is an argument, as are the functions of the math library (\<open>libm\<close>).

  The lemmas show what a nearby query answers, relative to the cells of its disk, what the
  downsampling of a trip keeps, and which requests are refused.
\<close>

subsection \<open>Handlers\<close>

definition latest_handle :: "string \<Rightarrow> redis \<Rightarrow> device_state option" where
  "latest_handle d r = (if d = [] then None else get_device_state r d)"

record nearby_result =
  nb_devices :: "(device_state \<times> double) list"
  nb_total_candidates :: int
  nb_total_in_radius :: int

definition nearby_result_default :: nearby_result where
  "nearby_result_default = \<lparr>nb_devices = [], nb_total_candidates = 0, nb_total_in_radius = 0\<rparr>"

text \<open>The order of the answer: by distance, then by device.\<close>

definition nearby_order :: "device_state \<times> double \<Rightarrow> double \<times> string" where
  "nearby_order p = (snd p, ds_device_id (fst p))"

text \<open>The body of the loop over the states of the candidates: seen recently enough and near enough.\<close>

definition nearby_hit :: "libm \<Rightarrow> double \<Rightarrow> double \<Rightarrow> double \<Rightarrow> int \<Rightarrow> int \<Rightarrow> device_state option \<Rightarrow>
    (device_state \<times> double) option" where
  "nearby_hit m lat lon radius_m last_seen_s now_ms opt =
     (case opt of None \<Rightarrow> None
      | Some s \<Rightarrow>
          if last_seen_s > 0 \<and> now_ms - ds_updated_at s > last_seen_s * 1000 then None
          else let dist = haversine m lat lon (ds_lat s) (ds_lon s) in
            if dle dist radius_m then Some (s, dist) else None)"

definition nearby_search :: "libm \<Rightarrow> int \<Rightarrow> int \<Rightarrow> redis \<Rightarrow> double \<Rightarrow> double \<Rightarrow> double \<Rightarrow> int \<Rightarrow> int \<Rightarrow>
    (metrics, nearby_result) prog" where
  "nearby_search m res now_ms r lat lon radius_m n last_seen_s =
     (case lat_lng_to_cell res lat lon of Inl ex \<Rightarrow> throw ex
      | Inr center_cell \<Rightarrow>
     (case radius_to_k res radius_m of Inl ex \<Rightarrow> throw ex
      | Inr k \<Rightarrow>
     (case grid_disk center_cell k of Inl ex \<Rightarrow> throw ex
      | Inr cells \<Rightarrow>
          let ids = get_devices_in_cells r cells;
              states = get_device_states_batch r ids;
              hits = List.map_filter (nearby_hit m lat lon radius_m last_seen_s now_ms) states;
              sorted = sort_key nearby_order hits
          in (\<lambda>mx. (Inr \<lparr>nb_devices = (if wrap32 (int (length sorted)) > n then take (nat n) sorted else sorted),
                        nb_total_candidates = wrap32 (int (length ids)),
                        nb_total_in_radius = wrap32 (int (length hits))\<rparr>,
                   apply_metric (Observe_nearby_latency (Fin 0)) mx)))))"

definition nearby_handle :: "libm \<Rightarrow> int \<Rightarrow> spatial_config \<Rightarrow> int \<Rightarrow> redis \<Rightarrow> double \<Rightarrow> double \<Rightarrow> double \<Rightarrow> int \<Rightarrow> int \<Rightarrow>
    (metrics, nearby_result) prog" where
  "nearby_handle m res cfg now_ms r lat lon radius_m n last_seen_s =
     (if \<not> dfinite lat \<or> \<not> dfinite lon \<or> \<not> dfinite radius_m \<or>
         dlt lat (Fin (- 90)) \<or> dlt (Fin 90) lat \<or> dlt lon (Fin (- 180)) \<or> dlt (Fin 180) lon \<or>
         dle radius_m (Fin 0) \<or> last_seen_s < 0
      then ret nearby_result_default
      else let radius = (if dlt (sp_nearby_max_radius_m cfg) radius_m then sp_nearby_max_radius_m cfg else radius_m) in
        if dle radius (Fin 0) then ret nearby_result_default
        else let limit = (if n \<le> 0 \<or> n > sp_nearby_max_results cfg then sp_nearby_max_results cfg else n) in
          if limit \<le> 0 then ret nearby_result_default
          else nearby_search m res now_ms r lat lon radius limit last_seen_s)"

text \<open>The loop over the events keeps the bucket of the event it kept last.\<close>

fun downsample_loop :: "int \<Rightarrow> location_event list \<Rightarrow> int option \<Rightarrow> location_event list" where
  "downsample_loop interval_ms [] kept = []"
| "downsample_loop interval_ms (e # es) kept =
     (let bucket = cdiv (event_time_ms e) interval_ms in
      if kept = Some bucket then downsample_loop interval_ms es kept
      else e # downsample_loop interval_ms es (Some bucket))"

definition downsample_by_interval :: "location_event list \<Rightarrow> int \<Rightarrow> location_event list" where
  "downsample_by_interval es sample_interval_s =
     (if sample_interval_s \<le> 0 \<or> length es \<le> 1 then es
      else downsample_loop (sample_interval_s * 1000) es None)"

definition trip_handle :: "string \<Rightarrow> int \<Rightarrow> int \<Rightarrow> int \<Rightarrow> int \<Rightarrow> postgres \<Rightarrow> location_event list" where
  "trip_handle d from_ts to_ts sample_interval_s n p =
     (if d = [] \<or> from_ts > to_ts \<or> n \<le> 0 then []
      else downsample_by_interval (query_trip d from_ts to_ts n p) sample_interval_s)"

definition trip_handle_spatial :: "libm \<Rightarrow> string \<Rightarrow> int \<Rightarrow> int \<Rightarrow> double \<Rightarrow> double \<Rightarrow> double \<Rightarrow> int \<Rightarrow> int \<Rightarrow> postgres \<Rightarrow>
    location_event list" where
  "trip_handle_spatial m d from_ts to_ts center_lat center_lon radius_m sample_interval_s n p =
     (if d = [] \<or> from_ts > to_ts \<or> n \<le> 0 \<or>
         \<not> dfinite center_lat \<or> \<not> dfinite center_lon \<or> \<not> dfinite radius_m \<or>
         dlt center_lat (Fin (- 90)) \<or> dlt (Fin 90) center_lat \<or>
         dlt center_lon (Fin (- 180)) \<or> dlt (Fin 180) center_lon \<or> dlt radius_m (Fin 0) then []
      else downsample_by_interval
        (query_trip_spatial m d from_ts to_ts center_lat center_lon radius_m n p) sample_interval_s)"

subsection \<open>The service\<close>

text \<open>The stores and the index are held through pointers that are empty until the first start; the
  handlers are made together at the end of a start, with a copy of the spatial
  configuration.\<close>

record query_service =
  qs_running :: bool
  qs_lifecycle :: lifecycle_state
  qs_redis :: "redis option"
  qs_pg :: "postgres option"
  qs_h3 :: "int option"
  qs_handlers :: "spatial_config option"
  qs_device_ttl_s :: int

definition new_query_service :: query_service where
  "new_query_service = \<lparr>qs_running = False, qs_lifecycle = Stopped, qs_redis = None, qs_pg = None,
     qs_h3 = None, qs_handlers = None, qs_device_ttl_s = 3600\<rparr>"

definition start_query :: "config \<Rightarrow> query_service \<Rightarrow> unit exc \<times> query_service" where
  "start_query cfg s =
     (if qs_running s then (Inr (), s)
      else let s1 = s\<lparr>qs_lifecycle := Starting, qs_device_ttl_s := rc_device_ttl_s (cf_redis cfg),
                      qs_redis := Some new_redis, qs_pg := Some new_postgres\<rparr> in
        (case new_h3_index (sp_h3_resolution (cf_spatial cfg)) of
           Inl ex \<Rightarrow> (Inl ex, s1)
         | Inr res \<Rightarrow> (Inr (), s1\<lparr>qs_h3 := Some res, qs_handlers := Some (cf_spatial cfg),
                                  qs_running := True, qs_lifecycle := Ready\<rparr>)))"

definition stop_query :: "query_service \<Rightarrow> query_service" where
  "stop_query s =
     (if \<not> qs_running s then s
      else s\<lparr>qs_running := False, qs_handlers := None, qs_h3 := None, qs_pg := None, qs_redis := None,
             qs_lifecycle := Stopped\<rparr>)"

definition query_is_healthy :: "query_service \<Rightarrow> bool" where
  "query_is_healthy s = qs_running s"

definition query_is_ready :: "query_service \<Rightarrow> bool" where
  "query_is_ready s = (qs_lifecycle s = Ready)"

definition query_health :: "query_service \<Rightarrow> health_snapshot" where
  "query_health s = (case qs_lifecycle s of
       Ready \<Rightarrow> ready_health ''query serving reads''
     | Starting \<Rightarrow> starting_health ''query starting''
     | Draining \<Rightarrow> draining_health ''query draining''
     | LFailed \<Rightarrow> failed_health ''query failed''
     | Stopped \<Rightarrow> stopped_health ''query stopped'')"

text \<open>The handlers reach the stores they were made with, which are those the service holds.\<close>

definition query_latest :: "query_service \<Rightarrow> string \<Rightarrow> device_state option" where
  "query_latest s d = (if \<not> qs_running s \<or> qs_handlers s = None then None else latest_handle d (the (qs_redis s)))"

definition query_nearby :: "libm \<Rightarrow> int \<Rightarrow> query_service \<Rightarrow> double \<Rightarrow> double \<Rightarrow> double \<Rightarrow> int \<Rightarrow> int \<Rightarrow>
    (metrics, nearby_result) prog" where
  "query_nearby m now_ms s lat lon radius_m n last_seen_s =
     (if \<not> qs_running s \<or> qs_handlers s = None then ret nearby_result_default
      else nearby_handle m (the (qs_h3 s)) (the (qs_handlers s)) now_ms (the (qs_redis s)) lat lon radius_m n last_seen_s)"

definition query_trip_points :: "query_service \<Rightarrow> string \<Rightarrow> int \<Rightarrow> int \<Rightarrow> int \<Rightarrow> int \<Rightarrow> location_event list" where
  "query_trip_points s d from_ts to_ts sample_interval_s n =
     (if \<not> qs_running s \<or> qs_handlers s = None then []
      else trip_handle d from_ts to_ts sample_interval_s n (the (qs_pg s)))"

definition query_trip_area :: "libm \<Rightarrow> query_service \<Rightarrow> string \<Rightarrow> int \<Rightarrow> int \<Rightarrow> double \<Rightarrow> double \<Rightarrow> double \<Rightarrow> int \<Rightarrow> int \<Rightarrow>
    location_event list" where
  "query_trip_area m s d from_ts to_ts center_lat center_lon radius_m sample_interval_s n =
     (if \<not> qs_running s \<or> qs_handlers s = None then []
      else trip_handle_spatial m d from_ts to_ts center_lat center_lon radius_m sample_interval_s n (the (qs_pg s)))"

subsection \<open>Requests\<close>

record latest_response =
  lr_ok :: bool
  lr_found :: bool
  lr_state :: device_state
  lr_error :: string

definition latest_response_default :: latest_response where
  "latest_response_default = \<lparr>lr_ok = False, lr_found = False, lr_state = device_state_default, lr_error = []\<rparr>"

definition handle_latest :: "query_service \<Rightarrow> string \<Rightarrow> latest_response" where
  "handle_latest s d =
     (if \<not> qs_running s then latest_response_default\<lparr>lr_error := ''query service is not running''\<rparr>
      else if d = [] then latest_response_default\<lparr>lr_error := ''device_id is required''\<rparr>
      else case query_latest s d of
        None \<Rightarrow> latest_response_default\<lparr>lr_ok := True, lr_found := False\<rparr>
      | Some st \<Rightarrow> latest_response_default\<lparr>lr_ok := True, lr_found := True, lr_state := st\<rparr>)"

record nearby_request =
  nq_lat :: double
  nq_lon :: double
  nq_radius_m :: double
  nq_limit :: int
  nq_last_seen_s :: int

record nearby_response =
  nr_ok :: bool
  nr_result :: nearby_result
  nr_error :: string

definition nearby_response_default :: nearby_response where
  "nearby_response_default = \<lparr>nr_ok = False, nr_result = nearby_result_default, nr_error = []\<rparr>"

definition handle_nearby :: "libm \<Rightarrow> int \<Rightarrow> query_service \<Rightarrow> nearby_request \<Rightarrow> (metrics, nearby_response) prog" where
  "handle_nearby m now_ms s q =
     (if \<not> qs_running s then ret (nearby_response_default\<lparr>nr_error := ''query service is not running''\<rparr>)
      else if \<not> valid_lat_lon (nq_lat q) (nq_lon q)
      then ret (nearby_response_default\<lparr>nr_error := ''valid lat/lon is required''\<rparr>)
      else if \<not> dfinite (nq_radius_m q) \<or> dle (nq_radius_m q) (Fin 0)
      then ret (nearby_response_default\<lparr>nr_error := ''radius_m must be positive''\<rparr>)
      else if nq_last_seen_s q < 0
      then ret (nearby_response_default\<lparr>nr_error := ''last_seen_s must be non-negative''\<rparr>)
      else seq_prog (query_nearby m now_ms s (nq_lat q) (nq_lon q) (nq_radius_m q) (nq_limit q) (nq_last_seen_s q))
             (\<lambda>res. ret \<lparr>nr_ok = True, nr_result = res, nr_error = []\<rparr>))"

record trip_request =
  tq_device_id :: string
  tq_from_ts :: int
  tq_to_ts :: int
  tq_sample_interval_s :: int
  tq_limit :: int

record spatial_trip_request = trip_request +
  tq_center_lat :: double
  tq_center_lon :: double
  tq_radius_m :: double

record trip_response =
  tr_ok :: bool
  tr_events :: "location_event list"
  tr_error :: string

definition trip_response_error :: "string \<Rightarrow> trip_response" where
  "trip_response_error e = \<lparr>tr_ok = False, tr_events = [], tr_error = e\<rparr>"

definition valid_trip_range :: "int \<Rightarrow> int \<Rightarrow> int \<Rightarrow> bool" where
  "valid_trip_range from_ts to_ts n = (from_ts \<le> to_ts \<and> n > 0)"

definition handle_trip :: "query_service \<Rightarrow> trip_request \<Rightarrow> trip_response" where
  "handle_trip s q =
     (if \<not> qs_running s then trip_response_error ''query service is not running''
      else if tq_device_id q = [] then trip_response_error ''device_id is required''
      else if \<not> valid_trip_range (tq_from_ts q) (tq_to_ts q) (tq_limit q)
      then trip_response_error ''valid time range and positive limit are required''
      else \<lparr>tr_ok = True, tr_events = query_trip_points s (tq_device_id q) (tq_from_ts q) (tq_to_ts q)
             (tq_sample_interval_s q) (tq_limit q), tr_error = []\<rparr>)"

definition handle_trip_spatial :: "libm \<Rightarrow> query_service \<Rightarrow> spatial_trip_request \<Rightarrow> trip_response" where
  "handle_trip_spatial m s q =
     (if \<not> qs_running s then trip_response_error ''query service is not running''
      else if tq_device_id q = [] then trip_response_error ''device_id is required''
      else if \<not> valid_trip_range (tq_from_ts q) (tq_to_ts q) (tq_limit q) \<or>
         \<not> valid_lat_lon (tq_center_lat q) (tq_center_lon q) \<or>
         \<not> dfinite (tq_radius_m q) \<or> dlt (tq_radius_m q) (Fin 0)
      then trip_response_error ''valid spatial trip query is required''
      else \<lparr>tr_ok = True, tr_events = query_trip_area m s (tq_device_id q) (tq_from_ts q) (tq_to_ts q)
             (tq_center_lat q) (tq_center_lon q) (tq_radius_m q) (tq_sample_interval_s q) (tq_limit q),
           tr_error = []\<rparr>)"

subsection \<open>Seeding\<close>

definition seed_device_state :: "device_state \<Rightarrow> query_service \<Rightarrow> bool exc \<times> query_service" where
  "seed_device_state st s =
     (if \<not> qs_running s \<or> qs_redis s = None \<or> qs_h3 s = None then (Inr False, s)
      else case (if ds_h3_cell st = 0
                 then bind_exc (lat_lng_to_cell (the (qs_h3 s)) (ds_lat st) (ds_lon st)) (\<lambda>c. Inr (st\<lparr>ds_h3_cell := c\<rparr>))
                 else Inr st) of
        Inl ex \<Rightarrow> (Inl ex, s)
      | Inr st' \<Rightarrow>
          if ds_device_id st' = [] then (Inr False, s)
          else let (ok, r) = update_device_state_cas (ds_device_id st') st' (qs_device_ttl_s s) (the (qs_redis s))
               in (Inr ok, s\<lparr>qs_redis := Some r\<rparr>))"

definition seed_trip_points :: "location_event list \<Rightarrow> query_service \<Rightarrow> query_service" where
  "seed_trip_points es s =
     (case qs_pg s of None \<Rightarrow> s
      | Some p \<Rightarrow> if \<not> qs_running s then s else s\<lparr>qs_pg := Some (batch_insert_trip_points es p)\<rparr>)"

definition query_trip_point_count :: "query_service \<Rightarrow> nat" where
  "query_trip_point_count s = (case qs_pg s of None \<Rightarrow> 0 | Some p \<Rightarrow> trip_point_count p)"

subsection \<open>What a nearby query answers\<close>

text \<open>The default configuration searches disks the code can size: 500 metres (and its largest radius of
  50 km) at resolution 7.\<close>

lemma disk_fits_default: "disk_fits 7 (Fin 500)" "disk_fits 7 (sp_nearby_max_radius_m spatial_config_default)"
proof -
  obtain e where e: "avg_edge_length_m 7 = Fin e" using edge_length_bounds [of 7] by auto
  have "fl 1000 = Fin 1000" using fl_of_int [of 1000] by simp
  moreover have "Fin e = fl (1220629 / 1000)" using e by (simp add: avg_edge_length_m_def edge_lengths_def)
  ultimately have "Fin 1000 \<le> Fin e" using fl_mono [of 1000 "1220629 / 1000"] by simp
  then have "avg_edge_length_m 7 = Fin e" "1000 \<le> e" using e by simp_all
  then show "disk_fits 7 (Fin 500)" "disk_fits 7 (sp_nearby_max_radius_m spatial_config_default)"
    by (simp_all add: disk_fits_def spatial_config_default_def)
qed

text \<open>The devices a query could find in the cells of its disk.\<close>

definition nearby_matches :: "libm \<Rightarrow> double \<Rightarrow> double \<Rightarrow> double \<Rightarrow> int \<Rightarrow> int \<Rightarrow> cell list \<Rightarrow> redis \<Rightarrow>
    (device_state \<times> double) set" where
  "nearby_matches m lat lon radius_m last_seen_s now_ms cells r =
     {(s, dist). get_device_state r (ds_device_id s) = Some s \<and> ds_h3_cell s \<in> set cells \<and>
        (last_seen_s = 0 \<or> now_ms - ds_updated_at s \<le> last_seen_s * 1000) \<and>
        dist = haversine m lat lon (ds_lat s) (ds_lon s) \<and> dle dist radius_m}"

lemma nearby_hit_Some:
  assumes "0 \<le> last_seen_s"
  shows "nearby_hit m lat lon radius_m last_seen_s now_ms opt = Some x \<longleftrightarrow>
    (\<exists>s. opt = Some s \<and> x = (s, haversine m lat lon (ds_lat s) (ds_lon s)) \<and>
       (last_seen_s = 0 \<or> now_ms - ds_updated_at s \<le> last_seen_s * 1000) \<and>
       dle (haversine m lat lon (ds_lat s) (ds_lon s)) radius_m)"
  using assms by (cases opt) (auto simp: nearby_hit_def Let_def)

text \<open>The candidates, from an exact index.\<close>

lemma candidate_ids:
  assumes "redis_ok r" "index_exact r"
  shows "set (get_devices_in_cells r cells) =
      {d. \<exists>s. get_device_state r d = Some s \<and> ds_h3_cell s \<in> set cells}"
    "int (length (get_devices_in_cells r cells)) \<le> int (length (rd_device_states r))"
proof -
  show ids: "set (get_devices_in_cells r cells) = {d. \<exists>s. get_device_state r d = Some s \<and> ds_h3_cell s \<in> set cells}"
    using assms(2) by (auto simp: set_get_devices_in_cells index_exact_def)
  have state: "get_device_state r = map_of (rd_device_states r)" by (simp add: fun_eq_iff get_device_state_def)
  have "length (get_devices_in_cells r cells) = card (set (get_devices_in_cells r cells))"
    by (simp add: distinct_card distinct_get_devices_in_cells)
  also have "\<dots> \<le> card (dom (get_device_state r))"
    unfolding ids state by (intro card_mono) (auto simp: finite_dom_map_of)
  also have "\<dots> = length (rd_device_states r)"
    using assms(1) by (simp add: state um_ok_card redis_ok_def)
  finally show "int (length (get_devices_in_cells r cells)) \<le> int (length (rd_device_states r))" by simp
qed

lemma nearby_hits:
  fixes cells :: "cell list" and lat lon radius_m :: double and now_ms :: int and m :: libm
  assumes "redis_ok r" "index_exact r" "0 \<le> last_seen_s"
  defines "hits \<equiv> List.map_filter (nearby_hit m lat lon radius_m last_seen_s now_ms)
      (get_device_states_batch r (get_devices_in_cells r cells))"
  shows "set hits = nearby_matches m lat lon radius_m last_seen_s now_ms cells r"
    "distinct (map (\<lambda>x. ds_device_id (fst x)) hits)"
    "length hits \<le> length (get_devices_in_cells r cells)"
proof -
  have owner: "ds_device_id s = d" if "get_device_state r d = Some s" for d s
    using assms(1) that by (simp add: redis_ok_def)
  have hits: "hits = List.map_filter (\<lambda>d. nearby_hit m lat lon radius_m last_seen_s now_ms (get_device_state r d))
      (get_devices_in_cells r cells)"
    by (simp add: hits_def get_device_states_batch_def map_filter_map)
  show "set hits = nearby_matches m lat lon radius_m last_seen_s now_ms cells r"
  proof (rule set_eqI)
    fix x
    have "x \<in> set hits \<longleftrightarrow> (\<exists>d s. get_device_state r d = Some s \<and> ds_h3_cell s \<in> set cells \<and>
        nearby_hit m lat lon radius_m last_seen_s now_ms (Some s) = Some x)"
      unfolding hits set_map_filter_iff candidate_ids(1) [OF assms(1,2)] by (auto, metis)
    also have "\<dots> \<longleftrightarrow> x \<in> nearby_matches m lat lon radius_m last_seen_s now_ms cells r"
      unfolding nearby_hit_Some [OF assms(3)] nearby_matches_def
      by (cases x) (auto dest: owner simp: owner)
    finally show "x \<in> set hits \<longleftrightarrow> x \<in> nearby_matches m lat lon radius_m last_seen_s now_ms cells r" .
  qed
  show "distinct (map (\<lambda>x. ds_device_id (fst x)) hits)"
    unfolding hits
    by (rule distinct_map_filter_keyed [OF distinct_get_devices_in_cells])
      (auto simp: nearby_hit_Some [OF assms(3)] owner)
  show "length hits \<le> length (get_devices_in_cells r cells)"
    unfolding hits by (rule length_map_filter)
qed

lemma nearby_search_result:
  assumes "nearby_search m res now_ms r lat lon radius_m n last_seen_s mx = (Inr out, mx')"
  shows "\<exists>cells i. nb_devices out = take i (sort_key nearby_order (List.map_filter
       (nearby_hit m lat lon radius_m last_seen_s now_ms)
       (get_device_states_batch r (get_devices_in_cells r cells))))"
proof -
  obtain c where c: "lat_lng_to_cell res lat lon = Inr c"
    using assms by (cases "lat_lng_to_cell res lat lon") (simp_all add: nearby_search_def)
  obtain k where k: "radius_to_k res radius_m = Inr k"
    using assms c by (cases "radius_to_k res radius_m") (simp_all add: nearby_search_def)
  obtain cells where cells: "grid_disk c k = Inr cells"
    using assms c k by (cases "grid_disk c k") (simp_all add: nearby_search_def)
  define es where "es = sort_key nearby_order (List.map_filter
       (nearby_hit m lat lon radius_m last_seen_s now_ms)
       (get_device_states_batch r (get_devices_in_cells r cells)))"
  have "nb_devices out = (if wrap32 (int (length es)) > n then take (nat n) es else es)"
    using assms c k cells by (auto simp: nearby_search_def Let_def es_def)
  then have "nb_devices out = take (if wrap32 (int (length es)) > n then nat n else length es) es" by simp
  then show ?thesis unfolding es_def by blast
qed

lemma nearby_handle_result:
  assumes "nearby_handle m res cfg now_ms r lat lon radius_m n last_seen_s mx = (Inr out, mx')"
  shows "nb_devices out = [] \<or>
    0 \<le> last_seen_s \<and> (\<exists>radius limit. nearby_search m res now_ms r lat lon radius limit last_seen_s mx = (Inr out, mx'))"
  using assms unfolding nearby_handle_def Let_def
  by (auto simp: nearby_result_default_def split: if_split_asm)

text \<open>An answer is sorted by distance and names no device twice.\<close>

lemma nearby_devices:
  assumes "redis_ok r" "index_exact r"
    and "nearby_handle m res cfg now_ms r lat lon radius_m n last_seen_s mx = (Inr out, mx')"
  shows "sorted (map nearby_order (nb_devices out)) \<and>
    distinct (map (\<lambda>x. ds_device_id (fst x)) (nb_devices out)) \<and>
    length (nb_devices out) \<le> length (rd_device_states r)"
  using nearby_handle_result [OF assms(3)]
proof
  assume "0 \<le> last_seen_s \<and> (\<exists>radius limit. nearby_search m res now_ms r lat lon radius limit last_seen_s mx = (Inr out, mx'))"
  then obtain radius limit where last: "0 \<le> last_seen_s"
    and s: "nearby_search m res now_ms r lat lon radius limit last_seen_s mx = (Inr out, mx')" by blast
  obtain cells i where dev: "nb_devices out = take i (sort_key nearby_order (List.map_filter
       (nearby_hit m lat lon radius last_seen_s now_ms)
       (get_device_states_batch r (get_devices_in_cells r cells))))"
    using nearby_search_result [OF s] by blast
  define hits where "hits = List.map_filter (nearby_hit m lat lon radius last_seen_s now_ms)
       (get_device_states_batch r (get_devices_in_cells r cells))"
  have hits: "distinct (map (\<lambda>x. ds_device_id (fst x)) hits)" "length hits \<le> length (rd_device_states r)"
    using nearby_hits(2,3) [OF assms(1,2) last, of m lat lon radius now_ms cells]
      candidate_ids(2) [OF assms(1,2), of cells] by (simp_all add: hits_def)
  have "sorted (map nearby_order (take i (sort_key nearby_order hits)))"
    by (simp add: take_map [symmetric] sorted_wrt_take)
  moreover have "distinct (map (\<lambda>x. ds_device_id (fst x)) (sort_key nearby_order hits))"
    using hits(1) by (simp add: distinct_map)
  then have "distinct (take i (map (\<lambda>x. ds_device_id (fst x)) (sort_key nearby_order hits)))" by (rule distinct_take)
  ultimately show ?thesis using hits(2) unfolding dev hits_def [symmetric] by (simp add: take_map)
qed simp

text \<open>C6: A nearby query with a valid point, a positive radius and a limit within the configured
  bounds, and a radius of at most 26754 cell edges (the disks the code can size in an int),
  always returns. It answers devices whose latest state lies in a cell of the disk around the
  point, was updated recently enough and is within the radius, each with its distance, nearest
  first; it answers all of them or as many as asked for, and never one that is further than one
  it leaves out. The counts are those of the devices in the cells of the disk and of the devices
  found in the radius.\<close>

theorem nearby_correct:
  assumes "redis_ok r" "index_exact r" "0 \<le> res" "res \<le> 15" "valid_lat_lon lat lon"
    and "dlt (Fin 0) radius_m" "dle radius_m (sp_nearby_max_radius_m cfg)" "disk_fits res radius_m"
    and "0 < n" "n \<le> sp_nearby_max_results cfg" "0 \<le> last_seen_s" "length (rd_device_states r) < 2 ^ 31"
  shows "\<exists>out mx' c k cells. nearby_handle m res cfg now_ms r lat lon radius_m n last_seen_s mx = (Inr out, mx') \<and>
    lat_lng_to_cell res lat lon = Inr c \<and> radius_to_k res radius_m = Inr k \<and> grid_disk c k = Inr cells \<and>
    (let found = nearby_matches m lat lon radius_m last_seen_s now_ms cells r in
      set (nb_devices out) \<subseteq> found \<and> distinct (nb_devices out) \<and>
      sorted (map nearby_order (nb_devices out)) \<and>
      int (length (nb_devices out)) = min n (int (card found)) \<and>
      nb_total_in_radius out = int (card found) \<and>
      nb_total_candidates out = int (card {d. \<exists>s. get_device_state r d = Some s \<and> ds_h3_cell s \<in> set cells}) \<and>
      (\<forall>x \<in> found - set (nb_devices out). \<forall>y \<in> set (nb_devices out). nearby_order y \<le> nearby_order x))"
proof -
  obtain c where c: "lat_lng_to_cell res lat lon = Inr c" using assms(3-5) lat_lng_to_cell_indices by metis
  have fin: "dfinite radius_m" "\<not> dlt radius_m (Fin 0)"
    using assms(6,8) by (auto simp: disk_fits_def dlt_def split: double.splits)
  obtain k where k: "radius_to_k res radius_m = Inr k" "\<And>c. grid_disk c k = Inr (disk_cells c k)"
    using disk_fits_k [OF assms(3,4,8) fin(2)] by metis
  define ids where "ids = get_devices_in_cells r (disk_cells c k)"
  define hits where "hits = List.map_filter (nearby_hit m lat lon radius_m last_seen_s now_ms) (get_device_states_batch r ids)"
  define es where "es = sort_key nearby_order hits"
  define found where "found = nearby_matches m lat lon radius_m last_seen_s now_ms (disk_cells c k) r"
  have hits: "set hits = found" "distinct (map (\<lambda>x. ds_device_id (fst x)) hits)" "length hits \<le> length ids"
    unfolding hits_def ids_def found_def by (rule nearby_hits [OF assms(1,2,11)])+
  then have d: "distinct hits" by (simp add: distinct_map)
  have es: "set es = found" "distinct es" "length es = length hits" "sorted (map nearby_order es)"
    using hits(1) d by (simp_all add: es_def)
  have small: "wrap32 (int (length ids)) = int (length ids)" "wrap32 (int (length hits)) = int (length hits)"
    using candidate_ids(2) [OF assms(1,2), of "disk_cells c k"] hits(3) assms(12)
    by (auto simp: ids_def intro!: wrap32_id)
  have cand: "length ids = card {d. \<exists>s. get_device_state r d = Some s \<and> ds_h3_cell s \<in> set (disk_cells c k)}"
    unfolding candidate_ids(1) [OF assms(1,2), symmetric] ids_def
    by (simp add: distinct_card distinct_get_devices_in_cells)
  have card: "card found = length hits" using hits(1) d distinct_card by metis
  let ?out = "\<lparr>nb_devices = (if int (length es) > n then take (nat n) es else es),
    nb_total_candidates = int (length ids), nb_total_in_radius = int (length hits)\<rparr>"
  have guards: "dfinite lat" "dfinite lon" "\<not> dlt lat (Fin (- 90))" "\<not> dlt (Fin 90) lat" "\<not> dlt lon (Fin (- 180))"
    "\<not> dlt (Fin 180) lon" "\<not> dle radius_m (Fin 0)" "\<not> dlt (sp_nearby_max_radius_m cfg) radius_m"
    using assms(5-7) by (auto simp: valid_lat_lon_iff dlt_def dle_def)
  have run: "nearby_handle m res cfg now_ms r lat lon radius_m n last_seen_s mx =
      (Inr ?out, apply_metric (Observe_nearby_latency (Fin 0)) mx)"
    using guards fin assms(9-11) c k
    by (simp add: nearby_handle_def nearby_search_def Let_def ids_def [symmetric] hits_def [symmetric]
        es_def [symmetric] small es(3))
  obtain out where out: "nearby_handle m res cfg now_ms r lat lon radius_m n last_seen_s mx =
      (Inr out, apply_metric (Observe_nearby_latency (Fin 0)) mx)" "nb_devices out = take (nat n) es"
    "nb_total_candidates out = int (length ids)" "nb_total_in_radius out = int (length hits)"
    using run assms(9) by fastforce
  have least: "\<forall>x \<in> found - set (take (nat n) es). \<forall>y \<in> set (take (nat n) es). nearby_order y \<le> nearby_order x"
    using sorted_take_least [of "\<lambda>a b. nearby_order a \<le> nearby_order b" es] es(1,4)
    by (auto simp: sorted_map)
  have "sorted (map nearby_order (take (nat n) es))"
    using es(4) by (simp add: take_map [symmetric] sorted_wrt_take)
  moreover have "set (take (nat n) es) \<subseteq> found" using es(1) by (auto dest: in_set_takeD)
  moreover have "int (length (take (nat n) es)) = min n (int (card found))" using assms(9) es(3) card by auto
  moreover have "distinct (take (nat n) es)" using es(2) by simp
  ultimately show ?thesis
    using c k out(1) least unfolding Let_def
    by (intro exI [of _ out] exI [of _ c] exI [of _ k] exI [of _ "disk_cells c k"] exI conjI [OF out(1)])
      (simp add: out(2-4) found_def [symmetric] card cand [symmetric])
qed

theorem nearby_correct_witness:
  "\<forall>m mx. \<exists>out mx'. nearby_handle m 7 spatial_config_default 5000 new_redis (Fin 10) (Fin 20) (Fin 500) 10 60 mx = (Inr out, mx') \<and>
     nb_total_in_radius out = 0 \<and> nb_total_candidates out = 0 \<and> nb_devices out = []"
proof (intro allI)
  fix m mx
  have empty: "nearby_matches m (Fin 10) (Fin 20) (Fin 500) 60 5000 cells new_redis = {}" for cells
    by (simp add: nearby_matches_def new_redis_def get_device_state_def)
  have none: "{d. \<exists>s. get_device_state new_redis d = Some s \<and> ds_h3_cell s \<in> set cells} = {}" for cells
    by (simp add: new_redis_def get_device_state_def)
  have hyps: "valid_lat_lon (Fin 10) (Fin 20)" "dlt (Fin 0) (Fin 500)" "disk_fits 7 (Fin 500)"
    "dle (Fin 500) (sp_nearby_max_radius_m spatial_config_default)" "10 \<le> sp_nearby_max_results spatial_config_default"
    using disk_fits_default by (simp_all add: valid_lat_lon_def dlt_def dle_def spatial_config_default_def)
  from nearby_correct [OF new_redis_ok(1) new_redis_ok(2), where m = m and mx = mx and now_ms = 5000 and last_seen_s = 60
      and n = 10 and res = 7, OF _ _ hyps(1,2,4,3) _ hyps(5)]
  show "\<exists>out mx'. nearby_handle m 7 spatial_config_default 5000 new_redis (Fin 10) (Fin 20) (Fin 500) 10 60 mx = (Inr out, mx') \<and>
     nb_total_in_radius out = 0 \<and> nb_total_candidates out = 0 \<and> nb_devices out = []"
    unfolding empty none by (fastforce simp: Let_def new_redis_def)
qed

subsection \<open>Downsampling\<close>

text \<open>The first event of every bucket, in the order of the events.\<close>

fun first_of_each :: "('a \<Rightarrow> 'b) \<Rightarrow> 'a list \<Rightarrow> 'a list" where
  "first_of_each f [] = []"
| "first_of_each f (x # xs) = x # filter (\<lambda>y. f y \<noteq> f x) (first_of_each f xs)"

lemma first_of_each_filter: "first_of_each f (filter (\<lambda>y. P (f y)) xs) = filter (\<lambda>y. P (f y)) (first_of_each f xs)"
proof (induction xs)
  case (Cons x xs)
  have comm: "filter (\<lambda>y. P (f y) \<and> f y \<noteq> f x) ys = filter (\<lambda>y. f y \<noteq> f x \<and> P (f y)) ys" for ys
    by (rule filter_cong) auto
  have "filter (\<lambda>y. P (f y)) (filter (\<lambda>y. f y \<noteq> f x) ys) = filter (\<lambda>y. P (f y)) ys" if "\<not> P (f x)" for ys
    using that by (induction ys) auto
  then show ?case using Cons by (simp add: comm)
qed simp

text \<open>On a list sorted by bucket the loop, which only remembers the last bucket, keeps exactly those.\<close>

lemma downsample_loop_sorted:
  fixes g :: "location_event \<Rightarrow> int"
  assumes "sorted (map (\<lambda>e. cdiv (event_time_ms e) i) es)"
    and "\<And>b. kept = Some b \<Longrightarrow> \<forall>e \<in> set es. b \<le> cdiv (event_time_ms e) i"
  shows "downsample_loop i es kept =
    first_of_each (\<lambda>e. cdiv (event_time_ms e) i) (filter (\<lambda>e. kept \<noteq> Some (cdiv (event_time_ms e) i)) es)"
  using assms
proof (induction es arbitrary: kept)
  case (Cons e es)
  let ?b = "\<lambda>e. cdiv (event_time_ms e) i"
  have IH: "downsample_loop i es (Some (?b e)) = first_of_each ?b (filter (\<lambda>x. Some (?b e) \<noteq> Some (?b x)) es)"
    using Cons.prems(1) by (intro Cons.IH) auto
  show ?case
  proof (cases "kept = Some (?b e)")
    case True
    then show ?thesis using IH by simp
  next
    case False
    have later: "kept \<noteq> Some (?b x)" if "x \<in> set es" for x
    proof
      assume k: "kept = Some (?b x)"
      have "?b e \<le> ?b x" using Cons.prems(1) that by simp
      moreover have "?b x \<le> ?b e" using Cons.prems(2) [OF k] by simp
      ultimately show False using k False by simp
    qed
    then have "filter (\<lambda>x. kept \<noteq> Some (?b x)) es = es" by simp
    then show ?thesis using False IH first_of_each_filter [of ?b "\<lambda>z. z \<noteq> ?b e" es]
      by (simp add: Let_def eq_commute [of "?b e"])
  qed
qed simp

lemma first_of_each_image: "f ` set (first_of_each f xs) = f ` set xs"
proof (induction xs)
  case (Cons x xs)
  have "f ` {y \<in> set (first_of_each f xs). f y \<noteq> f x} = f ` set xs - {f x}"
    unfolding Cons.IH [symmetric] by auto
  then show ?case by auto
qed simp

lemma first_of_each_props:
  "distinct (map f (first_of_each f xs))" "set (first_of_each f xs) \<subseteq> set xs"
  by (induction xs) (auto simp: distinct_map inj_on_def)
lemma first_of_each_sorted: "sorted (map g xs) \<Longrightarrow> sorted (map g (first_of_each f xs))"
proof (induction xs)
  case (Cons x xs)
  then have "sorted (map g (filter (\<lambda>y. f y \<noteq> f x) (first_of_each f xs)))"
    by (intro sorted_filter) simp
  moreover have "g x \<le> g y" if "y \<in> set (first_of_each f xs)" for y
    using Cons.prems that first_of_each_props(2) [of f xs] by auto
  ultimately show ?case by simp
qed simp

lemma first_of_each_earliest:
  assumes "sorted (map g xs)" "e \<in> set xs"
  shows "\<exists>a \<in> set (first_of_each f xs). f a = f e \<and> g a \<le> g e"
  using assms
proof (induction xs)
  case (Cons x xs)
  show ?case
  proof (cases "f e = f x")
    case True
    then show ?thesis using Cons.prems by auto
  next
    case False
    then show ?thesis using Cons by fastforce
  qed
qed simp

lemma query_trip_times: "sorted (map event_time_ms (query_trip d from_ts to_ts n p))"
proof (cases "0 < n \<and> from_ts \<le> to_ts")
  case True
  obtain es where es: "query_trip d from_ts to_ts n p = take (nat n) es"
    "sorted_wrt (\<lambda>a b. trip_order a \<le> trip_order b) es"
    using query_trip_sort [of n from_ts to_ts d p] True by metis
  have "sorted_wrt (\<lambda>a b. event_time_ms a \<le> event_time_ms b) es"
    using es(2) by (rule sorted_wrt_mono_rel [rotated]) (auto simp: trip_order_def less_eq_prod_def)
  then show ?thesis using es(1) sorted_wrt_take by (simp add: sorted_map)
qed (auto simp: query_trip_def)

lemma cdiv_sorted: "0 < i \<Longrightarrow> sorted (map g xs) \<Longrightarrow> sorted (map (\<lambda>x. cdiv (g x) i) xs)"
  by (induction xs) (auto intro: cdiv_mono)

text \<open>C33: A sampled trip is the full answer of the store thinned to the first event of every interval:
  no interval appears twice, none that has an event is missing, and the event that stands
  for an interval is not later than any other of it.\<close>

theorem trip_sampling:
  assumes "d \<noteq> []" "from_ts \<le> to_ts" "0 < n" "0 < s"
  shows "let full = query_trip d from_ts to_ts n p; bucket = (\<lambda>e. cdiv (event_time_ms e) (s * 1000)) in
    trip_handle d from_ts to_ts s n p = first_of_each bucket full \<and>
    distinct (map bucket (trip_handle d from_ts to_ts s n p)) \<and>
    bucket ` set (trip_handle d from_ts to_ts s n p) = bucket ` set full \<and>
    sorted (map event_time_ms (trip_handle d from_ts to_ts s n p)) \<and>
    (\<forall>e \<in> set full. \<exists>a \<in> set (trip_handle d from_ts to_ts s n p).
       bucket a = bucket e \<and> event_time_ms a \<le> event_time_ms e)"
proof -
  define full where "full = query_trip d from_ts to_ts n p"
  define bucket where "bucket = (\<lambda>e. cdiv (event_time_ms e) (s * 1000))"
  have times: "sorted (map event_time_ms full)" unfolding full_def by (rule query_trip_times)
  have "sorted (map bucket full)" unfolding bucket_def using assms(4) times by (intro cdiv_sorted) simp_all
  then have "downsample_loop (s * 1000) full None = first_of_each bucket full"
    using downsample_loop_sorted [of "s * 1000" full None] by (simp add: bucket_def)
  moreover have "first_of_each bucket full = full" if "length full \<le> 1"
    using that by (cases full) simp_all
  ultimately have h: "trip_handle d from_ts to_ts s n p = first_of_each bucket full"
    using assms(1-4) by (auto simp: trip_handle_def downsample_by_interval_def full_def)
  show ?thesis unfolding Let_def full_def [symmetric] bucket_def [symmetric] h
    by (intro conjI ballI refl first_of_each_props(1) first_of_each_image first_of_each_sorted [OF times]
        first_of_each_earliest [OF times])
qed

theorem trip_sampling_witness:
  "distinct (map (\<lambda>e. cdiv (event_time_ms e) (2 * 1000))
     (trip_handle ''a'' 0 10 2 5 (batch_insert_trip_points sample_points new_postgres)))"
  by (rule trip_sampling [of "''a''" 0 10 5 2, unfolded Let_def, THEN conjunct2, THEN conjunct1]) simp_all

subsection \<open>The service\<close>

definition query_ok :: "query_service \<Rightarrow> bool" where
  "query_ok s \<longleftrightarrow>
     (qs_running s \<longrightarrow> qs_handlers s \<noteq> None \<and> qs_lifecycle s = Ready \<and>
        (\<exists>r res. qs_redis s = Some r \<and> qs_h3 s = Some res \<and> redis_ok r \<and> index_exact r \<and> 0 \<le> res \<and> res \<le> 15) \<and>
        (\<exists>p. qs_pg s = Some p \<and> postgres_ok p))"

lemma new_query_ok [simp]: "query_ok new_query_service"
  by (simp add: query_ok_def new_query_service_def)

lemma start_query_ok:
  assumes "query_ok s"
  shows "query_ok (snd (start_query cfg s))"
proof (cases "qs_running s")
  case False
  then show ?thesis
    by (auto simp: query_ok_def start_query_def Let_def new_h3_index_def split: if_splits)
qed (use assms in \<open>simp add: start_query_def\<close>)

lemma stop_query_ok: "query_ok (stop_query s)" if "query_ok s"
  using that by (simp add: query_ok_def stop_query_def)

lemma seed_device_ok: "query_ok s \<Longrightarrow> query_ok (snd (seed_device_state st s))"
  by (auto simp: query_ok_def seed_device_state_def case_prod_beta cas_redis_ok cas_index_exact
      split: sum.splits if_splits)

lemma seed_trip_ok: "query_ok s \<Longrightarrow> query_ok (seed_trip_points es s)"
  by (auto simp: query_ok_def seed_trip_points_def batch_insert_ok split: option.splits)

text \<open>What can happen to a query service.\<close>

inductive query_reach :: "query_service \<Rightarrow> bool" where
  query_new: "query_reach new_query_service"
| query_start: "query_reach s \<Longrightarrow> query_reach (snd (start_query cfg s))"
| query_stop: "query_reach s \<Longrightarrow> query_reach (stop_query s)"
| query_seed_device: "query_reach s \<Longrightarrow> query_reach (snd (seed_device_state st s))"
| query_seed_trip: "query_reach s \<Longrightarrow> query_reach (seed_trip_points es s)"

lemma query_reach_ok: "query_reach s \<Longrightarrow> query_ok s"
  by (induction rule: query_reach.induct) (auto intro: start_query_ok stop_query_ok seed_device_ok seed_trip_ok)

lemma nearby_handle_total:
  assumes "0 \<le> res" "res \<le> 15" "disk_fits res (sp_nearby_max_radius_m cfg)"
  shows "\<exists>out mx'. nearby_handle m res cfg now_ms r lat lon radius_m n last_seen_s mx = (Inr out, mx')"
proof -
  define rad where "rad = (if dlt (sp_nearby_max_radius_m cfg) radius_m then sp_nearby_max_radius_m cfg else radius_m)"
  have search: "\<exists>out mx'. nearby_search m res now_ms r lat lon rad n' last_seen_s mx = (Inr out, mx')"
    if v: "valid_lat_lon lat lon" and r: "dfinite radius_m" "\<not> dle rad (Fin 0)" for n'
  proof -
    have cap: "dfinite (sp_nearby_max_radius_m cfg)" using assms(3) by (auto simp: disk_fits_def split: double.splits)
    then obtain x where x: "rad = Fin x" "dle (Fin x) (sp_nearby_max_radius_m cfg)"
      using r(1) by (cases "dlt (sp_nearby_max_radius_m cfg) radius_m") (auto simp: rad_def dfinite_iff dlt_def dle_def)
    then have "disk_fits res rad" "\<not> dlt rad (Fin 0)"
      using disk_fits_mono [OF assms(3) x(2)] r(2) by (auto simp: dlt_def dle_def)
    then obtain k where "radius_to_k res rad = Inr k" "\<And>c. grid_disk c k = Inr (disk_cells c k)"
      using disk_fits_k [OF assms(1,2)] by metis
    moreover obtain c where "lat_lng_to_cell res lat lon = Inr c" using lat_lng_to_cell_indices [OF assms(1,2) v] by metis
    ultimately show ?thesis by (simp add: nearby_search_def Let_def)
  qed
  have valid: "valid_lat_lon lat lon" if "dfinite lat" "dfinite lon" "\<not> dlt lat (Fin (- 90))" "\<not> dlt (Fin 90) lat"
    "\<not> dlt lon (Fin (- 180))" "\<not> dlt (Fin 180) lon"
    using that by (auto simp: valid_lat_lon_iff dlt_def dfinite_iff)
  show ?thesis
    unfolding nearby_handle_def Let_def rad_def [symmetric] using search valid by auto
qed

text \<open>Whatever was started, stopped and seeded before: a nearby request to a query service whose largest
  radius fits its resolution never raises. It is refused, with a reason and without touching the metrics, exactly when the
  service is not running, the point is not a valid coordinate, the radius is not finite and
  positive, or the age limit is negative; any other request is answered by the handler on
  the service's own store.\<close>

lemma nearby_request_total:
  assumes "query_reach s"
    and "\<And>res cfg. qs_h3 s = Some res \<Longrightarrow> qs_handlers s = Some cfg \<Longrightarrow> disk_fits res (sp_nearby_max_radius_m cfg)"
  shows "\<exists>resp mx'. handle_nearby m now_ms s q mx = (Inr resp, mx') \<and>
    (if qs_running s \<and> valid_lat_lon (nq_lat q) (nq_lon q) \<and>
        dfinite (nq_radius_m q) \<and> dlt (Fin 0) (nq_radius_m q) \<and> 0 \<le> nq_last_seen_s q
     then nr_ok resp \<and> nr_error resp = [] \<and>
       (\<exists>r res cfg. qs_redis s = Some r \<and> qs_h3 s = Some res \<and> qs_handlers s = Some cfg \<and>
          redis_ok r \<and> index_exact r \<and> 0 \<le> res \<and> res \<le> 15 \<and>
          nearby_handle m res cfg now_ms r (nq_lat q) (nq_lon q) (nq_radius_m q) (nq_limit q) (nq_last_seen_s q) mx =
            (Inr (nr_result resp), mx'))
     else \<not> nr_ok resp \<and> nr_error resp \<noteq> [] \<and> nr_result resp = nearby_result_default \<and> mx' = mx)"
proof -
  let ?good = "qs_running s \<and> valid_lat_lon (nq_lat q) (nq_lon q) \<and>
       dfinite (nq_radius_m q) \<and> dlt (Fin 0) (nq_radius_m q) \<and> 0 \<le> nq_last_seen_s q"
  have ok: "query_ok s" using assms(1) by (rule query_reach_ok)
  have rad: "dlt (Fin 0) x \<longleftrightarrow> \<not> dle x (Fin 0)" if "dfinite x" for x
    using that by (auto simp: dlt_def dle_def dfinite_iff)
  show ?thesis
  proof (cases ?good)
    case True
    then obtain r res cfg where st: "qs_redis s = Some r" "qs_h3 s = Some res" "qs_handlers s = Some cfg"
      "redis_ok r" "index_exact r" "0 \<le> res" "res \<le> 15"
      using ok by (auto simp: query_ok_def)
    obtain out mx' where "nearby_handle m res cfg now_ms r (nq_lat q) (nq_lon q) (nq_radius_m q) (nq_limit q)
        (nq_last_seen_s q) mx = (Inr out, mx')"
      using nearby_handle_total [OF st(6,7) assms(2) [OF st(2,3)]] by blast
    then show ?thesis using True st rad [of "nq_radius_m q"]
      by (auto simp: handle_nearby_def query_nearby_def)
  next
    case False
    then show ?thesis using rad [of "nq_radius_m q"]
      by (auto simp: handle_nearby_def nearby_response_default_def)
  qed
qed

subsection \<open>What the disk leaves out\<close>

text \<open>A device in the cell next to the centre on the diagonal (one row and one column further) is not
  a candidate of a search with one ring, whatever its distance: the disk of the in-memory
  index bounds the sum of the offsets.\<close>

lemma disk_misses_diagonal:
  assumes "unpack_cell c = (res, la, lo)" "1 \<le> la" "la + 1 < 2 ^ 29" "1 \<le> lo" "lo + 1 < 2 ^ 29"
  shows "pack_cell res (la + 1) (lo + 1) \<notin> set (disk_cells c 1)"
proof
  assume "pack_cell res (la + 1) (lo + 1) \<in> set (disk_cells c 1)"
  then obtain dx dy where d: "(dx, dy) \<in> set (disk_offsets 1)"
    "pack_cell res (la + 1) (lo + 1) = pack_cell res (la + dx) (lo + dy)"
    using assms(1) by (auto simp: disk_cells_def)
  have res: "0 \<le> res" "res < 16" using unpack_range [OF assms(1)] by simp_all
  have b: "\<bar>dx\<bar> \<le> 1" "\<bar>dy\<bar> \<le> 1" "\<bar>dx + dy\<bar> \<le> 1" using d(1) unfolding set_disk_offsets by auto
  have "la + 1 = la + dx \<and> lo + 1 = lo + dy"
    using d(2) pack_cell_inj [OF res _ _ _ _ res, of "la + 1" "lo + 1" "la + dx" "lo + dy"] assms(2-5) b by auto
  then show False using b(3) by simp
qed

lemma diagonal_not_found:
  assumes "unpack_cell c = (res, la, lo)" "1 \<le> la" "la + 1 < 2 ^ 29" "1 \<le> lo" "lo + 1 < 2 ^ 29"
    and "ds_h3_cell s = pack_cell res (la + 1) (lo + 1)"
  shows "(s, x) \<notin> nearby_matches m lat lon radius_m last_seen_s now_ms (disk_cells c 1) r"
  using disk_misses_diagonal [OF assms(1-5)] assms(6) by (simp add: nearby_matches_def)

end
