(* ===== verification/Strategy.thy ===== *)
theory Strategy
  imports Query
begin

text \<open>
  The plug-in side of \<open>matching/\<close>: strategies, the context they work through, the nearest-agent
  strategy, the registry of strategies, and \<open>match_once\<close>, which runs a strategy and settles the
  reservations it made.

  A strategy is code of a plug-in: it may call its context in any order and as often as it
  likes, and return or raise. \<open>strategy_run\<close> is the tree of its calls; \<open>run_strategy\<close> executes
  it against a context. What is proved about \<open>match_once\<close> holds for every such tree.

  The locale \<open>reservation_context\<close> states what \<open>match_once\<close> relies on in a context, and
  \<open>steady_context\<close> what the nearest strategy relies on; both are interpreted on the context of
  the matching service in theory \<open>Matching\<close>.
\<close>

subsection \<open>Contexts and strategies\<close>

record 's match_context =
  cx_reserve :: "string \<Rightarrow> ('s, bool) prog"
  cx_release :: "string \<Rightarrow> ('s, unit) prog"
  cx_nearby :: "double \<Rightarrow> double \<Rightarrow> double \<Rightarrow> int \<Rightarrow> ('s, match_candidate list) prog"
  cx_time_remaining_ms :: "('s, int) prog"

datatype strategy_run =
    S_return "string list"
  | S_raise string
  | S_raise_unknown
  | S_reserve string "bool \<Rightarrow> strategy_run"
  | S_release string strategy_run
  | S_nearby double double double int "match_candidate list exc \<Rightarrow> strategy_run"
  | S_time "int \<Rightarrow> strategy_run"

type_synonym strategy = "match_request \<Rightarrow> match_candidate list \<Rightarrow> strategy_run"

text \<open>A nearby query may raise, and a strategy may catch that and go on (one that does not continues with
  \<open>S_raise\<close>), so it is given the outcome of the call. The result is \<open>None\<close> when the strategy raises
  something that is no \<open>std::exception\<close>.\<close>

definition with_outcome :: "('s, 'a) prog \<Rightarrow> ('a exc \<Rightarrow> ('s, 'b) prog) \<Rightarrow> ('s, 'b) prog" where
  "with_outcome m k = (\<lambda>s. case m s of (r, s') \<Rightarrow> k r s')"

primrec run_strategy :: "'s match_context \<Rightarrow> strategy_run \<Rightarrow> ('s, string list option) prog" where
  "run_strategy c (S_return ids) = ret (Some ids)"
| "run_strategy c (S_raise ex) = throw ex"
| "run_strategy c S_raise_unknown = ret None"
| "run_strategy c (S_reserve a k) = seq_prog (cx_reserve c a) (\<lambda>ok. run_strategy c (k ok))"
| "run_strategy c (S_release a k) = andthen (cx_release c a) (run_strategy c k)"
| "run_strategy c (S_nearby lat lon radius_m n k) =
     with_outcome (cx_nearby c lat lon radius_m n) (\<lambda>cs. run_strategy c (k cs))"
| "run_strategy c (S_time k) = seq_prog (cx_time_remaining_ms c) (\<lambda>t. run_strategy c (k t))"

subsection \<open>The nearest strategy\<close>

definition candidate_order :: "match_candidate \<Rightarrow> double \<times> string" where
  "candidate_order c = (mc_distance_m c, mc_agent_id c)"

fun nearest_loop :: "int \<Rightarrow> match_candidate list \<Rightarrow> string list \<Rightarrow> strategy_run" where
  "nearest_loop max_agents [] assigned = S_return assigned"
| "nearest_loop max_agents (c # cs) assigned = S_time (\<lambda>t.
     if t = 0 then S_return assigned
     else S_reserve (mc_agent_id c) (\<lambda>ok.
       if ok then (let assigned' = assigned @ [mc_agent_id c] in
         if wrap32 (int (length assigned')) \<ge> max_agents then S_return assigned'
         else nearest_loop max_agents cs assigned')
       else nearest_loop max_agents cs assigned))"

definition nearest_strategy :: strategy where
  "nearest_strategy q candidates =
     (if mr_max_agents q \<le> 0 then S_return []
      else nearest_loop (mr_max_agents q)
        (sort_key candidate_order (filter (\<lambda>c. mc_available c \<and> mc_agent_id c \<noteq> []) candidates)) [])"

subsection \<open>The registry\<close>

text \<open>A factory makes a strategy that is initialised with the configuration, or returns null; an
  empty \<open>std::function\<close> is no factory.\<close>

type_synonym strategy_factory = "(config \<Rightarrow> strategy) option"
type_synonym strategy_registry = "(string, strategy_factory) umap"

definition register_strategy :: "string \<Rightarrow> strategy_factory option \<Rightarrow> strategy_registry \<Rightarrow> strategy_registry exc" where
  "register_strategy name factory reg =
     (if name = [] then Inl ''matching strategy name must not be empty''
      else case factory of None \<Rightarrow> Inl ''matching strategy factory must not be empty''
      | Some f \<Rightarrow> Inr (um_put name f reg))"

definition create_strategy :: "string \<Rightarrow> strategy_registry \<Rightarrow> (config \<Rightarrow> strategy) exc" where
  "create_strategy name reg =
     (case map_of reg name of None \<Rightarrow> Inl (''Unknown matching strategy: '' @ name)
      | Some f \<Rightarrow> (case f of None \<Rightarrow> Inl (''Matching strategy factory returned null: '' @ name)
        | Some s \<Rightarrow> Inr s))"

definition has_strategy :: "string \<Rightarrow> strategy_registry \<Rightarrow> bool" where
  "has_strategy name reg = (map_of reg name \<noteq> None)"

definition registered_names :: "strategy_registry \<Rightarrow> string list" where
  "registered_names reg = sort (um_keys reg)"

definition register_builtin_strategies :: "strategy_registry \<Rightarrow> strategy_registry exc" where
  "register_builtin_strategies reg =
     bind_exc (register_strategy ''default'' (Some (Some (\<lambda>_. nearest_strategy))) reg)
       (register_strategy ''nearest'' (Some (Some (\<lambda>_. nearest_strategy))))"

lemma registered_names_correct:
  assumes "um_ok reg"
  shows "sorted (registered_names reg) \<and> distinct (registered_names reg) \<and>
    (has_strategy name reg \<longleftrightarrow> name \<in> set (registered_names reg))"
  using assms by (auto simp: registered_names_def has_strategy_def um_ok_def um_keys_def map_of_eq_None_iff)

lemma builtin_registered:
  assumes "register_builtin_strategies reg = Inr reg'"
  shows "create_strategy ''nearest'' reg' = Inr (\<lambda>_. nearest_strategy) \<and>
    create_strategy ''default'' reg' = Inr (\<lambda>_. nearest_strategy) \<and>
    (\<forall>name. name \<noteq> ''nearest'' \<and> name \<noteq> ''default'' \<longrightarrow> map_of reg' name = map_of reg name)"
  using assms by (auto simp: register_builtin_strategies_def register_strategy_def create_strategy_def)

subsection \<open>Tracking the reservations of a match\<close>

text \<open>The state of the inner context with the agents reserved through the tracking context.\<close>

definition on_inner :: "('s, 'a) prog \<Rightarrow> ('s \<times> string list, 'a) prog" where
  "on_inner m = (\<lambda>(s, rs). case m s of (r, s') \<Rightarrow> (r, (s', rs)))"

definition note_reserved :: "string \<Rightarrow> string list \<Rightarrow> string list" where
  "note_reserved a rs = (if a \<in> set rs then rs else rs @ [a])"

definition tracking_reserve :: "'s match_context \<Rightarrow> string \<Rightarrow> ('s \<times> string list, bool) prog" where
  "tracking_reserve c a = seq_prog (on_inner (cx_reserve c a)) (\<lambda>ok.
     if \<not> ok then ret False
     else andthen (modify (\<lambda>(s, rs). (s, note_reserved a rs))) (ret True))"

definition tracking_release :: "'s match_context \<Rightarrow> string \<Rightarrow> ('s \<times> string list, unit) prog" where
  "tracking_release c a = andthen (on_inner (cx_release c a)) (modify (\<lambda>(s, rs). (s, removeAll a rs)))"

definition tracking_context :: "'s match_context \<Rightarrow> ('s \<times> string list) match_context" where
  "tracking_context c = \<lparr>cx_reserve = tracking_reserve c, cx_release = tracking_release c,
     cx_nearby = (\<lambda>lat lon radius_m n. on_inner (cx_nearby c lat lon radius_m n)),
     cx_time_remaining_ms = on_inner (cx_time_remaining_ms c)\<rparr>"

definition release_all :: "'s match_context \<Rightarrow> ('s \<times> string list, unit) prog" where
  "release_all c = (\<lambda>(s, rs). for_each (tracking_release c) rs (s, rs))"

definition release_unassigned :: "'s match_context \<Rightarrow> string list \<Rightarrow> ('s \<times> string list, unit) prog" where
  "release_unassigned c assigned =
     (\<lambda>(s, rs). for_each (tracking_release c) (filter (\<lambda>a. a \<notin> set assigned) rs) (s, rs))"

definition owns_all :: "string list \<Rightarrow> string list \<Rightarrow> bool" where
  "owns_all rs ids = (\<forall>a \<in> set ids. a \<noteq> [] \<and> a \<in> set rs)"

subsection \<open>One match\<close>

definition failed_result :: "match_request \<Rightarrow> string \<Rightarrow> match_result" where
  "failed_result q reason = match_result_default\<lparr>mres_request_id := mr_request_id q,
     mres_status := FAILED, mres_reason := reason\<rparr>"

definition expired_result :: "match_request \<Rightarrow> match_result" where
  "expired_result q = match_result_default\<lparr>mres_request_id := mr_request_id q,
     mres_status := EXPIRED, mres_reason := ''request deadline expired''\<rparr>"

definition matched_result :: "match_request \<Rightarrow> string list \<Rightarrow> int \<Rightarrow> match_result" where
  "matched_result q assigned latency_ms = match_result_default\<lparr>mres_request_id := mr_request_id q,
     mres_status := MATCHED, mres_assigned_agent_ids := assigned, mres_latency_ms := latency_ms\<rparr>"

definition catching :: "('s, 'a) prog \<Rightarrow> (string \<Rightarrow> ('s, 'a) prog) \<Rightarrow> ('s, 'a) prog" where
  "catching m h = (\<lambda>s. case m s of (Inl ex, s') \<Rightarrow> h ex s' | (Inr a, s') \<Rightarrow> (Inr a, s'))"

text \<open>The body of the try block, after the strategy has returned; at most \<open>max_agents\<close> of the agents
  it names count.\<close>

definition settle :: "('s, int) prog \<Rightarrow> int \<Rightarrow> match_request \<Rightarrow> 's match_context \<Rightarrow> string list \<Rightarrow>
    ('s \<times> string list, match_result option) prog" where
  "settle clock started_ms q c ids =
     (let assigned = (if mr_max_agents q > 0 \<and> wrap32 (int (length ids)) > mr_max_agents q
                      then take (nat (mr_max_agents q)) ids else ids) in
      if assigned = [] then andthen (release_all c) (ret (Some (failed_result q ''no agents matched'')))
      else seq_prog (gets (\<lambda>(s, rs). owns_all rs assigned)) (\<lambda>owned.
        if \<not> owned
        then andthen (release_all c) (ret (Some (failed_result q ''strategy returned unreserved agent'')))
        else andthen (release_unassigned c assigned)
          (seq_prog (on_inner clock) (\<lambda>now. ret (Some (matched_result q assigned (now - started_ms)))))))"

definition run_and_settle :: "('s, int) prog \<Rightarrow> int \<Rightarrow> strategy_run \<Rightarrow> match_request \<Rightarrow> 's match_context \<Rightarrow>
    ('s \<times> string list, match_result) prog" where
  "run_and_settle clock started_ms st q c =
     seq_prog (catching
        (seq_prog (run_strategy (tracking_context c) st) (\<lambda>ids. case ids of None \<Rightarrow> ret None
           | Some ids \<Rightarrow> settle clock started_ms q c ids))
        (\<lambda>ex. andthen (release_all c) (ret (Some (failed_result q ex)))))
      (\<lambda>r. case r of Some res \<Rightarrow> ret res
        | None \<Rightarrow> andthen (release_all c) (ret (failed_result q ''matching strategy failed'')))"

definition match_once :: "('s, int) prog \<Rightarrow> bool \<Rightarrow> strategy option \<Rightarrow> match_request \<Rightarrow> match_candidate list \<Rightarrow>
    's match_context \<Rightarrow> ('s, match_result) prog" where
  "match_once clock running strategy q candidates c =
     seq_prog clock (\<lambda>started_ms.
       case (running, strategy) of
         (True, Some st) \<Rightarrow>
           if mr_request_id q = [] then ret (failed_result q ''request_id is required'')
           else if mr_deadline_ms q > 0 \<and> started_ms \<ge> mr_deadline_ms q then ret (expired_result q)
           else (\<lambda>s. case run_and_settle clock started_ms (st q candidates) q c (s, []) of
                       (r, (s', rs)) \<Rightarrow> (r, s'))
       | _ \<Rightarrow> ret (failed_result q ''matching service is not running''))"

subsection \<open>What a context promises\<close>

lemma keeps_Pair [keep_intros]: "keeps P (Pair r)"
  by (simp add: keeps_def)

lemma keeps_with_outcome [keep_intros]: "keeps P m \<Longrightarrow> (\<And>r. keeps P (k r)) \<Longrightarrow> keeps P (with_outcome m k)"
  by (auto simp: keeps_def with_outcome_def case_prod_beta)

locale reservation_context =
  fixes c :: "'s match_context"
    and clock :: "('s, int) prog"
    and held :: "'s \<Rightarrow> string \<Rightarrow> bool"
    and frame :: "'s \<Rightarrow> 's \<Rightarrow> bool"
  assumes frame_refl: "frame s s"
    and frame_trans: "frame s s' \<Longrightarrow> frame s' s'' \<Longrightarrow> frame s s''"
    and reserve_law: "cx_reserve c a s = (r, s') \<Longrightarrow>
          frame s s' \<and> (\<forall>b. held s' b \<longleftrightarrow> held s b \<or> r = Inr True \<and> b = a)"
    and release_law: "cx_release c a s = (u, s') \<Longrightarrow>
          u = Inr () \<and> frame s s' \<and> (\<forall>b. held s' b \<longleftrightarrow> held s b \<and> b \<noteq> a)"
    and nearby_law: "cx_nearby c lat lon radius_m n s = (cs, s') \<Longrightarrow> frame s s' \<and> held s' = held s"
    and time_law: "cx_time_remaining_ms c s = (t, s') \<Longrightarrow> frame s s' \<and> held s' = held s"
    and clock_law: "\<exists>t s'. clock s = (Inr t, s') \<and> frame s s' \<and> held s' = held s"
begin

text \<open>While a strategy runs, what is held is what was held before and what was reserved.\<close>

definition tracks :: "'s \<Rightarrow> 's \<times> string list \<Rightarrow> bool" where
  "tracks s0 x \<longleftrightarrow> frame s0 (fst x) \<and> (\<forall>a \<in> set (snd x). held (fst x) a) \<and>
     (\<forall>a. held (fst x) a \<longrightarrow> held s0 a \<or> a \<in> set (snd x))"

lemma keeps_reserve: "keeps (tracks s0) (tracking_reserve c a)"
proof -
  have "tracks s0 (snd (tracking_reserve c a (s, rs)))" if "tracks s0 (s, rs)" for s rs
  proof (cases "cx_reserve c a s")
    case (Pair r s')
    have law: "frame s s'" "\<And>b. held s' b \<longleftrightarrow> held s b \<or> r = Inr True \<and> b = a"
      using reserve_law [OF Pair] by blast+
    have run: "tracking_reserve c a (s, rs) = (r, (s', if r = Inr True then note_reserved a rs else rs))"
      using Pair by (cases r; simp add: tracking_reserve_def on_inner_def)
    show ?thesis
      using that law(2) frame_trans [OF _ law(1)] unfolding run
      by (auto simp: tracks_def note_reserved_def)
  qed
  then show ?thesis by (simp add: keeps_def)
qed

lemma tracking_release_run:
  "\<exists>s'. tracking_release c a (s, rs) = (Inr (), (s', removeAll a rs)) \<and> frame s s' \<and>
     (\<forall>b. held s' b \<longleftrightarrow> held s b \<and> b \<noteq> a)"
proof (cases "cx_release c a s")
  case (Pair u s')
  then show ?thesis using release_law [OF Pair]
    by (auto simp: tracking_release_def on_inner_def)
qed

lemma keeps_release: "keeps (tracks s0) (tracking_release c a)"
proof -
  have "tracks s0 (snd (tracking_release c a (s, rs)))" if "tracks s0 (s, rs)" for s rs
    using that tracking_release_run [of a s rs] frame_trans by (fastforce simp: tracks_def)
  then show ?thesis by (simp add: keeps_def)
qed

lemma keeps_on_inner:
  assumes "\<And>s r s'. m s = (r, s') \<Longrightarrow> frame s s' \<and> held s' = held s"
  shows "keeps (tracks s0) (on_inner m)"
proof -
  have "tracks s0 (snd (on_inner m (s, rs)))" if "tracks s0 (s, rs)" for s rs
    using that assms [of s "fst (m s)" "snd (m s)"] frame_trans
    by (fastforce simp: tracks_def on_inner_def case_prod_beta)
  then show ?thesis by (simp add: keeps_def)
qed

lemma keeps_run: "keeps (tracks s0) (run_strategy (tracking_context c) st)"
proof (induction st)
  case (S_nearby lat lon radius_m n k)
  have "keeps (tracks s0) (on_inner (cx_nearby c lat lon radius_m n))"
    by (rule keeps_on_inner) (rule nearby_law)
  then show ?case using S_nearby by (auto simp: tracking_context_def intro!: keep_intros)
next
  case (S_time k)
  have "keeps (tracks s0) (on_inner (cx_time_remaining_ms c))" by (rule keeps_on_inner) (rule time_law)
  then show ?case using S_time by (auto simp: tracking_context_def intro!: keep_intros)
qed (auto simp: tracking_context_def intro!: keep_intros keeps_reserve keeps_release)

lemma release_list_run:
  "\<exists>s' rs'. for_each (tracking_release c) as (s, rs) = (Inr (), (s', rs')) \<and> frame s s' \<and>
     (\<forall>b. held s' b \<longleftrightarrow> held s b \<and> b \<notin> set as)"
proof (induction as arbitrary: s rs)
  case Nil
  then show ?case by (simp add: frame_refl)
next
  case (Cons a as)
  obtain s1 where 1: "tracking_release c a (s, rs) = (Inr (), (s1, removeAll a rs))" "frame s s1"
    "\<And>b. held s1 b \<longleftrightarrow> held s b \<and> b \<noteq> a"
    using tracking_release_run [of a s rs] by blast
  obtain s2 rs2 where 2: "for_each (tracking_release c) as (s1, removeAll a rs) = (Inr (), (s2, rs2))" "frame s1 s2"
    "\<And>b. held s2 b \<longleftrightarrow> held s1 b \<and> b \<notin> set as"
    using Cons.IH by blast
  show ?case using 1 2 frame_trans [OF 1(2) 2(2)] by auto
qed

text \<open>After a failed match nothing is held that was not held before.\<close>

definition clean :: "'s \<Rightarrow> 's \<times> string list \<Rightarrow> bool" where
  "clean s0 x \<longleftrightarrow> frame s0 (fst x) \<and> (\<forall>a. held (fst x) a \<longrightarrow> held s0 a)"

lemma release_all_clean:
  assumes "tracks s0 x"
  shows "\<exists>x'. release_all c x = (Inr (), x') \<and> clean s0 x'"
proof -
  obtain s rs where x: "x = (s, rs)" by (cases x)
  obtain s' rs' where r: "for_each (tracking_release c) rs (s, rs) = (Inr (), (s', rs'))" "frame s s'"
    "\<And>b. held s' b \<longleftrightarrow> held s b \<and> b \<notin> set rs"
    using release_list_run by blast
  then have "release_all c x = (Inr (), (s', rs'))" by (simp add: release_all_def x)
  moreover have "clean s0 (s', rs')"
    using assms r frame_trans [OF _ r(2)] by (auto simp: tracks_def clean_def x)
  ultimately show ?thesis by blast
qed

text \<open>What a result says about the reservations.\<close>

definition result_ok :: "match_request \<Rightarrow> 's \<Rightarrow> match_result \<Rightarrow> 's \<Rightarrow> bool" where
  "result_ok q s0 res s' \<longleftrightarrow> frame s0 s' \<and> mres_request_id res = mr_request_id q \<and>
     (let ids = mres_assigned_agent_ids res in
      (ids \<noteq> [] \<longleftrightarrow> mres_status res = MATCHED) \<and> [] \<notin> set ids \<and>
      (0 < mr_max_agents q \<longrightarrow> wrap32 (int (length ids)) \<le> mr_max_agents q) \<and>
      (\<forall>a \<in> set ids. held s' a) \<and> (\<forall>a. held s' a \<longrightarrow> held s0 a \<or> a \<in> set ids))"

lemma failed_result_ok: "clean s0 x \<Longrightarrow> result_ok q s0 (failed_result q reason) (fst x)"
  by (simp add: clean_def result_ok_def failed_result_def match_result_default_def wrap32_def)

lemma settle_run:
  assumes "tracks s0 x"
  shows "\<exists>res x'. settle clock started_ms q c ids x = (Inr (Some res), x') \<and> result_ok q s0 res (fst x')"
proof -
  obtain s rs where x: "x = (s, rs)" by (cases x)
  define assigned where "assigned = (if mr_max_agents q > 0 \<and> wrap32 (int (length ids)) > mr_max_agents q
      then take (nat (mr_max_agents q)) ids else ids)"
  have wrap_le: "wrap32 n \<le> n" if "0 \<le> n" for n
    using that by (simp add: wrap32_def) (smt (verit) zmod_le_nonneg_dividend)
  have short: "wrap32 (int (length assigned)) \<le> mr_max_agents q" if "0 < mr_max_agents q"
    using that wrap_le [of "int (min (length ids) (nat (mr_max_agents q)))"]
    by (auto simp: assigned_def min_def split: if_splits)
  consider "assigned = []" | "assigned \<noteq> []" "\<not> owns_all rs assigned" | "assigned \<noteq> []" "owns_all rs assigned"
    by blast
  then show ?thesis
  proof cases
    case 1
    obtain x' where "release_all c x = (Inr (), x')" "clean s0 x'" using release_all_clean [OF assms] by blast
    then show ?thesis using 1 failed_result_ok by (simp add: settle_def assigned_def [symmetric] Let_def)
  next
    case 2
    obtain x' where "release_all c x = (Inr (), x')" "clean s0 x'" using release_all_clean [OF assms] by blast
    then show ?thesis using 2 failed_result_ok
      by (simp add: settle_def assigned_def [symmetric] Let_def x)
  next
    case 3
    let ?as = "filter (\<lambda>a. a \<notin> set assigned) rs"
    obtain s1 rs1 where r: "for_each (tracking_release c) ?as (s, rs) = (Inr (), (s1, rs1))" "frame s s1"
      "\<And>b. held s1 b \<longleftrightarrow> held s b \<and> b \<notin> set ?as"
      using release_list_run by blast
    obtain t s2 where t: "clock s1 = (Inr t, s2)" "frame s1 s2" "held s2 = held s1" using clock_law by blast
    let ?res = "matched_result q assigned (t - started_ms)"
    have run: "settle clock started_ms q c ids x = (Inr (Some ?res), (s2, rs1))"
      using 3 r(1) t(1)
      by (simp add: settle_def assigned_def [symmetric] Let_def x release_unassigned_def on_inner_def)
    have fr: "frame s0 s2" using assms frame_trans r(2) t(2) by (auto simp: tracks_def x)
    have own: "\<forall>a \<in> set assigned. a \<noteq> [] \<and> a \<in> set rs" using 3(2) by (simp add: owns_all_def)
    have held: "held s2 b \<longleftrightarrow> held s b \<and> (b \<in> set rs \<longrightarrow> b \<in> set assigned)" for b
      using r(3) [of b] t(3) by auto
    have "\<forall>a \<in> set assigned. held s2 a" using own assms unfolding held by (auto simp: tracks_def x)
    moreover have "\<forall>a. held s2 a \<longrightarrow> held s0 a \<or> a \<in> set assigned"
      using assms unfolding held by (auto simp: tracks_def x)
    ultimately have "result_ok q s0 ?res (fst (s2, rs1))"
      using 3 own fr short by (auto simp: result_ok_def matched_result_def match_result_default_def Let_def)
    with run show ?thesis by blast
  qed
qed

lemma run_and_settle_run:
  "\<exists>res x'. run_and_settle clock started_ms st q c (s, []) = (Inr res, x') \<and> result_ok q s res (fst x')"
proof -
  have start: "tracks s (s, [])" by (simp add: tracks_def frame_refl)
  obtain r x1 where r: "run_strategy (tracking_context c) st (s, []) = (r, x1)"
    by (cases "run_strategy (tracking_context c) st (s, [])")
  have x1: "tracks s x1" using keepsD [OF keeps_run start, of st] r by simp
  obtain x2 where x2: "release_all c x1 = (Inr (), x2)" "clean s x2" using release_all_clean [OF x1] by blast
  show ?thesis
  proof (cases r)
    case (Inl ex)
    then show ?thesis using r x2 failed_result_ok by (simp add: run_and_settle_def catching_def)
  next
    case (Inr ids)
    show ?thesis
    proof (cases ids)
      case None
      then show ?thesis using Inr r x2 failed_result_ok by (simp add: run_and_settle_def catching_def)
    next
      case (Some as)
      obtain res x' where "settle clock started_ms q c as x1 = (Inr (Some res), x')" "result_ok q s res (fst x')"
        using settle_run [OF x1] by blast
      then show ?thesis using Inr Some r by (simp add: run_and_settle_def catching_def)
    qed
  qed
qed

text \<open>Whatever the strategy does, one match returns and settles all its reservations.\<close>

lemma match_once_run:
  "\<exists>res s'. match_once clock running st q candidates c s = (Inr res, s') \<and> result_ok q s res s'"
proof -
  obtain t s1 where t: "clock s = (Inr t, s1)" "frame s s1" "held s1 = held s" using clock_law by blast
  have quiet: "result_ok q s (failed_result q reason) s1" "result_ok q s (expired_result q) s1" for reason
    using t by (simp_all add: result_ok_def failed_result_def expired_result_def match_result_default_def wrap32_def)
  show ?thesis
  proof (cases "running \<and> st \<noteq> None \<and> mr_request_id q \<noteq> [] \<and> \<not> (mr_deadline_ms q > 0 \<and> t \<ge> mr_deadline_ms q)")
    case True
    then obtain f where f: "st = Some f" by blast
    obtain res x' where "run_and_settle clock t (f q candidates) q c (s1, []) = (Inr res, x')"
      "result_ok q s1 res (fst x')"
      using run_and_settle_run by blast
    moreover from this have "result_ok q s res (fst x')"
      using t frame_trans [OF t(2)] by (auto simp: result_ok_def Let_def)
    ultimately show ?thesis using True f t(1) by (auto simp: match_once_def split: prod.split)
  next
    case False
    then show ?thesis using t(1) quiet
      by (auto simp: match_once_def split: bool.split option.split)
  qed
qed

end
subsection \<open>The nearest strategy in a steady context\<close>

text \<open>The agents to choose from, nearest first.\<close>

definition ranked :: "match_candidate list \<Rightarrow> string list" where
  "ranked candidates = map mc_agent_id
     (sort_key candidate_order (filter (\<lambda>x. mc_available x \<and> mc_agent_id x \<noteq> []) candidates))"

text \<open>A context with time left, in which reserving one agent does not change which others are free.\<close>

locale steady_context =
  fixes c :: "'s match_context"
    and clock :: "('s, int) prog"
    and deadline_ms :: int
    and steady :: "'s \<Rightarrow> bool"
    and free :: "'s \<Rightarrow> string \<Rightarrow> bool"
  assumes time_left: "steady s \<Longrightarrow> \<exists>t s'. cx_time_remaining_ms c s = (Inr t, s') \<and> t \<noteq> 0 \<and> steady s' \<and> free s' = free s"
    and reserve_free: "steady s \<Longrightarrow> \<exists>s'. cx_reserve c a s = (Inr (free s a), s') \<and> steady s' \<and>
          (\<forall>b. b \<noteq> a \<longrightarrow> free s' b = free s b)"
    and in_time: "steady s \<Longrightarrow> \<exists>t s'. clock s = (Inr t, s') \<and> steady s' \<and> free s' = free s \<and>
          \<not> (deadline_ms > 0 \<and> t \<ge> deadline_ms)"
begin

lemma nearest_loop_run:
  assumes "steady s" "distinct (acc @ map mc_agent_id cs)" "int (length acc) < max_agents"
    and "length acc + length cs < 2 ^ 31"
  shows "\<exists>s'. run_strategy (tracking_context c) (nearest_loop max_agents cs acc) (s, acc) =
    (Inr (Some (acc @ take (nat max_agents - length acc) (filter (free s) (map mc_agent_id cs)))),
     (s', acc @ take (nat max_agents - length acc) (filter (free s) (map mc_agent_id cs)))) \<and> steady s'"
  using assms
proof (induction cs arbitrary: s acc)
  case (Cons x cs)
  let ?a = "mc_agent_id x"
  obtain t s1 where 1: "cx_time_remaining_ms c s = (Inr t, s1)" "t \<noteq> 0" "steady s1" "free s1 = free s"
    using time_left [OF Cons.prems(1)] by blast
  obtain s2 where 2: "cx_reserve c ?a s1 = (Inr (free s1 ?a), s2)" "steady s2" "\<forall>b. b \<noteq> ?a \<longrightarrow> free s2 b = free s1 b"
    using reserve_free [OF 1(3)] by blast
  have others: "filter (free s2) (map mc_agent_id cs) = filter (free s) (map mc_agent_id cs)"
  proof (rule filter_cong [OF refl])
    fix y assume "y \<in> set (map mc_agent_id cs)"
    then have "y \<in> mc_agent_id ` set cs" by (simp only: set_map)
    moreover have "?a \<notin> mc_agent_id ` set cs" using Cons.prems(2) by simp
    ultimately have "y \<noteq> ?a" by blast
    then show "free s2 y = free s y" using 1(4) 2(3) by simp
  qed
  have new: "?a \<notin> set acc" using Cons.prems(2) by auto
  have room: "nat max_agents - length acc = Suc (nat max_agents - length (acc @ [?a]))"
    using Cons.prems(3) by simp
  have tr: "cx_time_remaining_ms (tracking_context c) (s, acc) = (Inr t, (s1, acc))"
    "cx_reserve (tracking_context c) ?a (s1, acc) =
       (Inr (free s ?a), (s2, if free s ?a then acc @ [?a] else acc))"
    using 1 2(1) new by (simp_all add: tracking_context_def on_inner_def tracking_reserve_def note_reserved_def)
  have step: "run_strategy (tracking_context c) (nearest_loop max_agents (x # cs) acc) (s, acc) =
      run_strategy (tracking_context c)
        (if free s ?a then (if wrap32 (int (length (acc @ [?a]))) \<ge> max_agents then S_return (acc @ [?a])
           else nearest_loop max_agents cs (acc @ [?a])) else nearest_loop max_agents cs acc)
        (s2, if free s ?a then acc @ [?a] else acc)"
    using tr 1(2) by (simp add: Let_def del: length_append)
  show ?case
  proof (cases "free s ?a")
    case False
    then show ?thesis
      using Cons.IH [OF 2(2), of acc] Cons.prems(2-4) others unfolding step by simp
  next
    case True
    have small: "wrap32 (int (length (acc @ [?a]))) = int (length (acc @ [?a]))"
      using Cons.prems(4) by (intro wrap32_id) simp_all
    show ?thesis
    proof (cases "int (length (acc @ [?a])) \<ge> max_agents")
      case full: True
      then have "nat max_agents - length (acc @ [?a]) = 0" by simp
      then show ?thesis using True full 2(2) small room unfolding step by simp
    next
      case more: False
      have ne: "\<not> wrap32 (int (length (acc @ [?a]))) \<ge> max_agents" using more small by simp
      obtain s' where "run_strategy (tracking_context c) (nearest_loop max_agents cs (acc @ [?a])) (s2, acc @ [?a]) =
          (Inr (Some ((acc @ [?a]) @ take (nat max_agents - length (acc @ [?a])) (filter (free s2) (map mc_agent_id cs)))),
           (s', (acc @ [?a]) @ take (nat max_agents - length (acc @ [?a])) (filter (free s2) (map mc_agent_id cs))))"
        "steady s'"
        using Cons.IH [OF 2(2), of "acc @ [?a]"] Cons.prems(2,4) more by auto
      then show ?thesis using True ne room unfolding step others by simp
    qed
  qed
qed simp

lemma match_nearest_run:
  assumes "steady s" "mr_request_id q \<noteq> []" "0 < mr_max_agents q" "mr_deadline_ms q = deadline_ms"
    and "distinct (map mc_agent_id candidates)" "length candidates < 2 ^ 31"
  shows "\<exists>res s'. match_once clock True (Some nearest_strategy) q candidates c s = (Inr res, s') \<and> steady s' \<and>
    (let ids = take (nat (mr_max_agents q)) (filter (free s) (ranked candidates)) in
      if ids = [] then res = failed_result q ''no agents matched'' else \<exists>l. res = matched_result q ids l)"
proof -
  obtain t s1 where t: "clock s = (Inr t, s1)" "steady s1" "free s1 = free s" "\<not> (deadline_ms > 0 \<and> t \<ge> deadline_ms)"
    using in_time [OF assms(1)] by blast
  define cs where "cs = sort_key candidate_order (filter (\<lambda>x. mc_available x \<and> mc_agent_id x \<noteq> []) candidates)"
  define ids where "ids = take (nat (mr_max_agents q)) (filter (free s) (map mc_agent_id cs))"
  have "distinct (map mc_agent_id (filter (\<lambda>x. mc_available x \<and> mc_agent_id x \<noteq> []) candidates))"
    using assms(5) by (rule distinct_map_filter)
  then have d: "distinct (map mc_agent_id cs)" by (simp add: cs_def distinct_map)
  have len: "length cs \<le> length candidates" by (simp add: cs_def)
  have ne: "[] \<notin> set ids" by (auto simp: ids_def cs_def dest!: in_set_takeD)
  obtain s2 where run: "run_strategy (tracking_context c) (nearest_strategy q candidates) (s1, []) =
      (Inr (Some ids), (s2, ids))" "steady s2"
  proof -
    have n: "nearest_strategy q candidates = nearest_loop (mr_max_agents q) cs []"
      using assms(3) by (simp add: nearest_strategy_def cs_def)
    have "length ([] :: string list) + length cs < 2 ^ 31" using len assms(6) by simp
    with nearest_loop_run [OF t(2), of "[]" cs "mr_max_agents q"] d assms(3)
    show ?thesis using that unfolding n ids_def t(3) by auto
  qed
  have short: "\<not> wrap32 (int (length ids)) > mr_max_agents q"
  proof -
    have "length ids \<le> length (filter (free s) (map mc_agent_id cs))" by (simp add: ids_def)
    also have "\<dots> \<le> length (map mc_agent_id cs)" by (rule length_filter_le)
    finally have "length ids < 2 ^ 31" using len assms(6) by simp
    then show ?thesis using assms(3) by (subst wrap32_id) (auto simp: ids_def)
  qed
  have ranked: "ids = take (nat (mr_max_agents q)) (filter (free s) (ranked candidates))"
    by (simp add: ids_def ranked_def cs_def)
  show ?thesis
  proof (cases "ids = []")
    case True
    have "release_all c (s2, []) = (Inr (), (s2, []))" by (simp add: release_all_def)
    then have "settle clock t q c [] (s2, []) = (Inr (Some (failed_result q ''no agents matched'')), (s2, []))"
      by (simp add: settle_def)
    then have "run_and_settle clock t (nearest_strategy q candidates) q c (s1, []) =
        (Inr (failed_result q ''no agents matched''), (s2, []))"
      using run(1) True by (simp add: run_and_settle_def catching_def)
    then show ?thesis using t assms(2,4) run(2) True unfolding ranked [symmetric]
      by (auto simp: match_once_def Let_def)
  next
    case False
    obtain t' s3 where t': "clock s2 = (Inr t', s3)" "steady s3" using in_time [OF run(2)] by blast
    have "owns_all ids ids" using ne by (auto simp: owns_all_def)
    moreover have "release_unassigned c ids (s2, ids) = (Inr (), (s2, ids))" by (simp add: release_unassigned_def)
    ultimately have "settle clock t q c ids (s2, ids) = (Inr (Some (matched_result q ids (t' - t))), (s3, ids))"
      using False short t'(1) by (simp add: settle_def on_inner_def)
    then have "run_and_settle clock t (nearest_strategy q candidates) q c (s1, []) =
        (Inr (matched_result q ids (t' - t)), (s3, ids))"
      using run(1) by (simp add: run_and_settle_def catching_def)
    then show ?thesis using t assms(2,4) t'(2) False unfolding ranked [symmetric]
      by (auto simp: match_once_def Let_def)
  qed
qed

end

end
