(* ===== verification/Matching.thy ===== *)
theory Matching
  imports Strategy Pipeline
begin

text \<open>
  The matching service of \<open>matching/\<close>: the reservation manager, the context a strategy works
  through, start and stop, the handling of one request and of a batch of messages.

  A request runs in the world of its process (broker, bus, metrics, clocks; theory \<open>World\<close>)
  with a device store and a consumer of the service's own. One request is handled at a time,
  as in the code; other instances that reserve agents meanwhile are not modelled.

  The lemmas show that a match settles its reservations whatever the strategy does, what the
  nearest strategy assigns, and that no two requests are assigned the same agent while the
  reservation lasts.
\<close>

subsection \<open>State\<close>

record match_world =
  mw_world :: world
  mw_redis :: redis
  mw_consumer :: consumer

definition in_world :: "(world, 'a) prog \<Rightarrow> (match_world, 'a) prog" where
  "in_world m = (\<lambda>w. case m (mw_world w) of (r, w') \<Rightarrow> (r, w\<lparr>mw_world := w'\<rparr>))"

lemma in_world_simps [simp, result_simps]:
  "m (mw_world w) = (r, w') \<Longrightarrow> in_world m w = (r, w\<lparr>mw_world := w'\<rparr>)"
  by (simp add: in_world_def)

record matching_service =
  ms_running :: bool
  ms_lifecycle :: lifecycle_state
  ms_config :: config
  ms_strategy :: "strategy option"
  ms_strategy_name :: string
  ms_h3 :: "int option"
  ms_reservations :: "int option"
  ms_has_bus :: bool

definition new_matching_service :: matching_service where
  "new_matching_service = \<lparr>ms_running = False, ms_lifecycle = Stopped, ms_config = config_default,
     ms_strategy = None, ms_strategy_name = [], ms_h3 = None, ms_reservations = None, ms_has_bus = False\<rparr>"

subsection \<open>Reservations\<close>

definition to_ms :: "int \<Rightarrow> int" where
  "to_ms ns = cdiv ns 1000000"

definition reserve :: "env \<Rightarrow> int \<Rightarrow> string \<Rightarrow> string \<Rightarrow> (match_world, bool) prog" where
  "reserve v ttl_ms agent request =
     (if agent = [] \<or> request = [] \<or> ttl_ms \<le> 0 then ret False
      else seq_prog (in_world (read_steady_ns v)) (\<lambda>now w.
        let (ok, r) = try_reserve_agent (to_ms now) agent request ttl_ms (mw_redis w) in (Inr ok, w\<lparr>mw_redis := r\<rparr>)))"

definition release :: "string \<Rightarrow> string \<Rightarrow> (match_world, unit) prog" where
  "release agent request = modify (\<lambda>w. w\<lparr>mw_redis := release_agent agent request (mw_redis w)\<rparr>)"

definition is_reserved :: "env \<Rightarrow> string \<Rightarrow> (match_world, bool) prog" where
  "is_reserved v agent =
     (if agent = [] then ret False
      else seq_prog (in_world (read_steady_ns v)) (\<lambda>now. gets (\<lambda>w. is_agent_reserved (to_ms now) (mw_redis w) agent)))"

subsection \<open>The context of a request\<close>

definition to_candidates :: "nearby_result \<Rightarrow> match_candidate list" where
  "to_candidates nb = map (\<lambda>(s, distance). \<lparr>mc_agent_id = ds_device_id s, mc_lat = ds_lat s, mc_lon = ds_lon s,
     mc_distance_m = distance, mc_available = True\<rparr>) (nb_devices nb)"

definition nearby_agents :: "libm \<Rightarrow> env \<Rightarrow> int \<Rightarrow> spatial_config \<Rightarrow> double \<Rightarrow> double \<Rightarrow> double \<Rightarrow> int \<Rightarrow>
    (match_world, match_candidate list) prog" where
  "nearby_agents m v res cfg lat lon radius_m n =
     seq_prog (in_world (read_sys_ms v)) (\<lambda>now_ms w.
       case nearby_handle m res cfg now_ms (mw_redis w) lat lon radius_m n 0 (w_metrics (mw_world w)) of
         (Inl ex, mx) \<Rightarrow> (Inl ex, w\<lparr>mw_world := (mw_world w)\<lparr>w_metrics := mx\<rparr>\<rparr>)
       | (Inr nb, mx) \<Rightarrow> (Inr (to_candidates nb), w\<lparr>mw_world := (mw_world w)\<lparr>w_metrics := mx\<rparr>\<rparr>))"

definition time_remaining :: "env \<Rightarrow> match_request \<Rightarrow> (match_world, int) prog" where
  "time_remaining v q =
     (if mr_deadline_ms q \<le> 0 then ret 60000
      else seq_prog (in_world (read_sys_ms v)) (\<lambda>now. ret (max 0 (mr_deadline_ms q - now))))"

definition service_context :: "libm \<Rightarrow> env \<Rightarrow> matching_service \<Rightarrow> match_request \<Rightarrow> match_world match_context" where
  "service_context m v ms q = \<lparr>
     cx_reserve = (\<lambda>a. reserve v (the (ms_reservations ms)) a (mr_request_id q)),
     cx_release = (\<lambda>a. release a (mr_request_id q)),
     cx_nearby = nearby_agents m v (the (ms_h3 ms)) (cf_spatial (ms_config ms)),
     cx_time_remaining_ms = time_remaining v q\<rparr>"

subsection \<open>Start and stop\<close>

text \<open>Without an external bus the service publishes on a new one of its own. An unknown strategy or
  a resolution out of range raises and leaves the service in state Starting.\<close>

definition start_matching :: "config \<Rightarrow> bool \<Rightarrow> strategy_registry \<Rightarrow> matching_service \<Rightarrow> match_world \<Rightarrow>
    unit exc \<times> matching_service \<times> strategy_registry \<times> match_world" where
  "start_matching cfg external reg ms w =
     (if ms_running ms then (Inr (), ms, reg, w)
      else let ms1 = ms\<lparr>ms_lifecycle := Starting, ms_config := cfg, ms_has_bus := True\<rparr>;
               w1 = (if external then w else w\<lparr>mw_world := (mw_world w)\<lparr>w_bus := empty_bus\<rparr>\<rparr>) in
        (case register_builtin_strategies reg of
           Inl ex \<Rightarrow> (Inl ex, ms1, reg, w1)
         | Inr reg' \<Rightarrow>
        (case create_strategy (mt_strategy_name (cf_matching cfg)) reg' of
           Inl ex \<Rightarrow> (Inl ex, ms1, reg', w1)
         | Inr st \<Rightarrow>
            (let ms2 = ms1\<lparr>ms_strategy := Some (st cfg), ms_strategy_name := mt_strategy_name (cf_matching cfg)\<rparr>;
                 w2 = w1\<lparr>mw_redis := new_redis\<rparr> in
             (case new_h3_index (sp_h3_resolution (cf_spatial cfg)) of
                Inl ex \<Rightarrow> (Inl ex, ms2, reg', w2)
              | Inr res \<Rightarrow>
                  (Inr (), ms2\<lparr>ms_h3 := Some res, ms_reservations := Some (mt_request_ttl_ms (cf_matching cfg)),
                     ms_running := True, ms_lifecycle := Ready\<rparr>, reg',
                   w2\<lparr>mw_consumer := new_consumer [mt_request_topic (cf_matching cfg)]\<rparr>))))))"

definition stop_matching :: "matching_service \<Rightarrow> matching_service" where
  "stop_matching ms = ms\<lparr>ms_running := False, ms_reservations := None, ms_h3 := None, ms_strategy := None,
     ms_lifecycle := Stopped\<rparr>"

definition matching_is_healthy :: "matching_service \<Rightarrow> bool" where
  "matching_is_healthy ms = ms_running ms"

definition matching_is_ready :: "matching_service \<Rightarrow> bool" where
  "matching_is_ready ms = (ms_lifecycle ms = Ready)"

definition matching_health :: "matching_service \<Rightarrow> health_snapshot" where
  "matching_health ms = (case ms_lifecycle ms of
       Ready \<Rightarrow> ready_health ''matching serving requests''
     | Starting \<Rightarrow> starting_health ''matching starting''
     | Draining \<Rightarrow> draining_health ''matching draining''
     | LFailed \<Rightarrow> failed_health ''matching failed''
     | Stopped \<Rightarrow> stopped_health ''matching stopped'')"

subsection \<open>One request\<close>

definition epoch_now_ms :: "env \<Rightarrow> (match_world, int) prog" where
  "epoch_now_ms v = in_world (read_sys_ms v)"

definition publish_match :: "env \<Rightarrow> matching_service \<Rightarrow> event \<Rightarrow> (match_world, unit) prog" where
  "publish_match v ms e = (if ms_has_bus ms then in_world (publish_event v e) else skip)"

definition with_defaults :: "matching_service \<Rightarrow> int \<Rightarrow> match_request \<Rightarrow> match_request" where
  "with_defaults ms started_ms q =
     q\<lparr>mr_strategy := (if mr_strategy q = [] then ms_strategy_name ms else mr_strategy q),
       mr_deadline_ms := (if mr_deadline_ms q = 0 \<and> mt_request_ttl_ms (cf_matching (ms_config ms)) > 0
          then started_ms + mt_request_ttl_ms (cf_matching (ms_config ms)) else mr_deadline_ms q),
       mr_max_agents := (if mr_max_agents q \<le> 0 then 1 else mr_max_agents q)\<rparr>"

definition request_received :: "match_request \<Rightarrow> event" where
  "request_received q = MatchRequestReceived (mr_request_id q) (mr_requester_id q) (mr_lat q) (mr_lon q)
     (mr_radius_m q) (mr_max_agents q) (mr_deadline_ms q) (mr_strategy q)"

fun outcome_event :: "match_status \<Rightarrow> match_result \<Rightarrow> event" where
  "outcome_event MATCHED res = MatchCompleted (mres_request_id res) (mres_assigned_agent_ids res) (mres_latency_ms res)"
| "outcome_event EXPIRED res = MatchExpired (mres_request_id res)"
| "outcome_event FAILED res = MatchFailed (mres_request_id res) (mres_reason res)"

definition handle_request :: "libm \<Rightarrow> env \<Rightarrow> matching_service \<Rightarrow> match_request \<Rightarrow> (match_world, match_result) prog" where
  "handle_request m v ms q0 =
     seq_prog (epoch_now_ms v) (\<lambda>started_ms.
       if \<not> ms_running ms \<or> ms_h3 ms = None \<or> ms_reservations ms = None
       then ret (failed_result q0 ''matching service is not running'')
       else let q = with_defaults ms started_ms q0 in
         andthen (publish_match v ms (request_received q))
          (if mr_deadline_ms q > 0 \<and> started_ms \<ge> mr_deadline_ms q
           then andthen (publish_match v ms (MatchExpired (mr_request_id q))) (ret (expired_result q))
           else if mr_request_id q = [] \<or> \<not> dfinite (mr_lat q) \<or> \<not> dfinite (mr_lon q) \<or>
              \<not> dfinite (mr_radius_m q) \<or> dle (mr_radius_m q) (Fin 0)
           then andthen (publish_match v ms (MatchFailed (mr_request_id q) ''invalid match request''))
                  (ret (failed_result q ''invalid match request''))
           else seq_prog (nearby_agents m v (the (ms_h3 ms)) (cf_spatial (ms_config ms)) (mr_lat q) (mr_lon q)
                            (mr_radius_m q) (wrap32 (mr_max_agents q * 4))) (\<lambda>candidates.
                seq_prog (match_once (epoch_now_ms v) (ms_running ms) (ms_strategy ms) q candidates (service_context m v ms q)) (\<lambda>res0.
                seq_prog (epoch_now_ms v) (\<lambda>now.
                  let res = res0\<lparr>mres_latency_ms := now - started_ms\<rparr> in
                  andthen (publish_match v ms (outcome_event (mres_status res) res)) (ret res))))))"

subsection \<open>The request loop\<close>

record loop_result =
  ml_processed_requests :: nat
  ml_published_results :: nat
  ml_invalid_messages :: nat
  ml_failed_messages :: nat

definition loop_result_zero :: loop_result where
  "loop_result_zero = \<lparr>ml_processed_requests = 0, ml_published_results = 0, ml_invalid_messages = 0, ml_failed_messages = 0\<rparr>"

definition poll_request :: "(match_world, kafka_message option) prog" where
  "poll_request = (\<lambda>w. let (m, c) = poll (w_broker (mw_world w)) (mw_consumer w) in (Inr m, w\<lparr>mw_consumer := c\<rparr>))"

definition commit_request :: "kafka_message \<Rightarrow> (match_world, unit) prog" where
  "commit_request m = modify (\<lambda>w. w\<lparr>mw_consumer := commit_message m (mw_consumer w)\<rparr>)"

definition publish_result :: "matching_service \<Rightarrow> match_result \<Rightarrow> (match_world, unit) prog" where
  "publish_result ms res = in_world (w_produce (mt_result_topic (cf_matching (ms_config ms))) (mres_request_id res)
     (encode_match_result_payload res))"

definition process_request :: "libm \<Rightarrow> env \<Rightarrow> matching_service \<Rightarrow> kafka_message \<Rightarrow> loop_result \<Rightarrow> (match_world, loop_result) prog" where
  "process_request m v ms msg acc =
     (case decode_match_request_payload (km_payload msg) of
        Inl _ \<Rightarrow> andthen (commit_request msg) (ret (acc\<lparr>ml_invalid_messages := ml_invalid_messages acc + 1\<rparr>))
      | Inr q \<Rightarrow> seq_prog (handle_request m v ms q) (\<lambda>res.
          catching (andthen (publish_result ms res) (andthen (commit_request msg)
            (ret (acc\<lparr>ml_processed_requests := ml_processed_requests acc + 1,
                      ml_published_results := ml_published_results acc + 1\<rparr>))))
            (\<lambda>_. ret (acc\<lparr>ml_failed_messages := ml_failed_messages acc + 1\<rparr>))))"

fun request_loop :: "libm \<Rightarrow> env \<Rightarrow> matching_service \<Rightarrow> nat \<Rightarrow> loop_result \<Rightarrow> (match_world, loop_result) prog" where
  "request_loop m v ms 0 acc = ret acc"
| "request_loop m v ms (Suc n) acc = seq_prog poll_request (\<lambda>msg. case msg of None \<Rightarrow> ret acc
     | Some msg \<Rightarrow> seq_prog (process_request m v ms msg acc) (request_loop m v ms n))"

definition process_requests_once :: "libm \<Rightarrow> env \<Rightarrow> matching_service \<Rightarrow> int \<Rightarrow> (match_world, loop_result) prog" where
  "process_requests_once m v ms max_messages =
     (if max_messages \<le> 0 \<or> \<not> ms_running ms then ret loop_result_zero
      else request_loop m v ms (nat max_messages) loop_result_zero)"

text \<open>\<open>run_request_loop\<close> for the number of rounds until the stop flag is seen; 100 messages a round.\<close>

fun run_request_loop :: "libm \<Rightarrow> env \<Rightarrow> matching_service \<Rightarrow> nat \<Rightarrow> (match_world, unit) prog" where
  "run_request_loop m v ms 0 = skip"
| "run_request_loop m v ms (Suc n) = andthen (process_requests_once m v ms 100) (run_request_loop m v ms n)"

subsection \<open>Seeding\<close>

definition seed_agent :: "matching_service \<Rightarrow> device_state \<Rightarrow> (match_world, bool) prog" where
  "seed_agent ms st w =
     (if \<not> ms_running ms \<or> ms_h3 ms = None \<or> ds_device_id st = [] then (Inr False, w)
      else case (if ds_h3_cell st = 0
                 then bind_exc (lat_lng_to_cell (the (ms_h3 ms)) (ds_lat st) (ds_lon st)) (\<lambda>c. Inr (st\<lparr>ds_h3_cell := c\<rparr>))
                 else Inr st) of
        Inl ex \<Rightarrow> (Inl ex, w)
      | Inr st' \<Rightarrow> let (ok, r) = update_device_state_cas (ds_device_id st') st'
                               (rc_device_ttl_s (cf_redis (ms_config ms))) (mw_redis w)
                   in (Inr ok, w\<lparr>mw_redis := r\<rparr>))"

definition reserve_agent_for_test :: "env \<Rightarrow> matching_service \<Rightarrow> string \<Rightarrow> string \<Rightarrow> (match_world, bool) prog" where
  "reserve_agent_for_test v ms agent request =
     (case ms_reservations ms of None \<Rightarrow> ret False | Some ttl \<Rightarrow> reserve v ttl agent request)"

definition is_agent_reserved_for_test :: "env \<Rightarrow> matching_service \<Rightarrow> string \<Rightarrow> (match_world, bool) prog" where
  "is_agent_reserved_for_test v ms agent =
     (case ms_reservations ms of None \<Rightarrow> ret False | Some ttl \<Rightarrow> is_reserved v agent)"

subsection \<open>Events of a match\<close>

text \<open>The events of the matching service wake only the metrics, whatever else is subscribed.\<close>

fun is_match_event :: "event \<Rightarrow> bool" where
  "is_match_event (MatchRequestReceived i r x y z n t s) = True"
| "is_match_event (MatchCompleted i as l) = True"
| "is_match_event (MatchFailed i r) = True"
| "is_match_event (MatchExpired i) = True"
| "is_match_event e = False"

lemma run_callbacks_metrics:
  assumes "\<And>h w. \<exists>mx. f h w = (Inr (), w\<lparr>w_metrics := mx\<rparr>)"
  shows "\<exists>mx. run_callbacks f hs w = (Inr (), w\<lparr>w_metrics := mx\<rparr>)"
proof (induction hs arbitrary: w)
  case Nil
  show ?case by (intro exI [of _ "w_metrics w"]) simp
next
  case (Cons h hs)
  obtain mx where 1: "f h w = (Inr (), w\<lparr>w_metrics := mx\<rparr>)" using assms by blast
  obtain mx' where "run_callbacks f hs (w\<lparr>w_metrics := mx\<rparr>) = (Inr (), w\<lparr>w_metrics := mx\<rparr>\<lparr>w_metrics := mx'\<rparr>)"
    using Cons.IH by blast
  then show ?case using 1 by auto
qed

lemma publish_match_event:
  assumes "is_match_event e"
  shows "\<exists>mx. publish_event v e w = (Inr (), w\<lparr>w_metrics := mx, w_trace := w_trace w @ [e]\<rparr>)"
proof -
  have quiet: "\<exists>mx. call_handler v p e h w = (Inr (), w\<lparr>w_metrics := mx\<rparr>)" for p h w
  proof (cases "h = H_metrics")
    case True
    then show ?thesis by auto
  next
    case False
    then have "call_handler v p e h w = (Inr (), w)" using assms by (cases h; cases e) auto
    then show ?thesis by (intro exI [of _ "w_metrics w"]) simp
  qed
  have four: "event_fuel = Suc 3" by (simp add: event_fuel_def)
  have "publish_event v e w = run_callbacks (call_handler v (publish v 3) e)
      (callbacks_of (w_bus w) (type_of e)) (record_event e w)"
    unfolding publish_event_def four by (subst publish.simps(2)) (rule refl)
  with run_callbacks_metrics [of "call_handler v (publish v 3) e", OF quiet] show ?thesis
    by (metis (no_types, lifting) record_event_def world.surjective world.update_convs(2) world.update_convs(4))
qed

subsection \<open>The context keeps its promises\<close>

text \<open>What a context call may change besides the service's reservations: metrics and clocks.
  A reservation of another request that outlasts every clock reading survives.\<close>

definition match_frame :: "env \<Rightarrow> string \<Rightarrow> match_world \<Rightarrow> match_world \<Rightarrow> bool" where
  "match_frame v q w w' \<longleftrightarrow> mw_consumer w' = mw_consumer w \<and>
     (\<exists>mx n. mw_world w' = (mw_world w)\<lparr>w_metrics := mx, w_tick := n\<rparr>) \<and>
     rd_device_states (mw_redis w') = rd_device_states (mw_redis w) \<and>
     rd_cell_devices (mw_redis w') = rd_cell_devices (mw_redis w) \<and>
     rd_fence_states (mw_redis w') = rd_fence_states (mw_redis w) \<and>
     (\<forall>a q' t. q' \<noteq> q \<longrightarrow> (\<forall>n. to_ms (en_steady_ns v n) \<le> t) \<longrightarrow>
        get_agent_reservation_holder t (mw_redis w) a = Some q' \<longrightarrow>
        get_agent_reservation_holder t (mw_redis w') a = Some q')"

text \<open>A request holds an agent when the store has a reservation in its name, expired or not.\<close>

definition holds :: "string \<Rightarrow> match_world \<Rightarrow> string \<Rightarrow> bool" where
  "holds q w a \<longleftrightarrow> (\<exists>rec. map_of (rd_reservations (mw_redis w)) a = Some rec \<and> rs_request_id rec = q)"

lemma match_frame_refl [simp]: "match_frame v q w w"
  unfolding match_frame_def
  by (intro conjI exI [of _ "w_metrics (mw_world w)"] exI [of _ "w_tick (mw_world w)"]) simp_all

lemma match_frameD:
  assumes "match_frame v q w w'"
  shows "mw_consumer w' = mw_consumer w"
    "\<exists>mx n. mw_world w' = (mw_world w)\<lparr>w_metrics := mx, w_tick := n\<rparr>"
    "rd_device_states (mw_redis w') = rd_device_states (mw_redis w)"
    "rd_cell_devices (mw_redis w') = rd_cell_devices (mw_redis w)"
    "rd_fence_states (mw_redis w') = rd_fence_states (mw_redis w)"
    "\<forall>a q' t. q' \<noteq> q \<longrightarrow> (\<forall>n. to_ms (en_steady_ns v n) \<le> t) \<longrightarrow>
        get_agent_reservation_holder t (mw_redis w) a = Some q' \<longrightarrow>
        get_agent_reservation_holder t (mw_redis w') a = Some q'"
  using assms unfolding match_frame_def by - (elim conjE, assumption)+

lemma match_frame_trans:
  assumes "match_frame v q w w'" "match_frame v q w' w''"
  shows "match_frame v q w w''"
proof -
  note 1 = match_frameD [OF assms(1)] and 2 = match_frameD [OF assms(2)]
  obtain mx n mx' n' where "mw_world w' = (mw_world w)\<lparr>w_metrics := mx, w_tick := n\<rparr>"
    "mw_world w'' = (mw_world w')\<lparr>w_metrics := mx', w_tick := n'\<rparr>"
    using 1(2) 2(2) by blast
  then have "mw_world w'' = (mw_world w)\<lparr>w_metrics := mx', w_tick := n'\<rparr>" by simp
  moreover have "\<forall>a q' t. q' \<noteq> q \<longrightarrow> (\<forall>n. to_ms (en_steady_ns v n) \<le> t) \<longrightarrow>
        get_agent_reservation_holder t (mw_redis w) a = Some q' \<longrightarrow>
        get_agent_reservation_holder t (mw_redis w'') a = Some q'"
    using 1(6) 2(6) by blast
  ultimately show ?thesis
    unfolding match_frame_def 2(1,3,4,5) 1(1,3,4,5) by (intro conjI refl exI)
qed

lemma match_frame_tick:
  "mw_redis w' = mw_redis w \<Longrightarrow> mw_consumer w' = mw_consumer w \<Longrightarrow>
   mw_world w' = (mw_world w)\<lparr>w_metrics := mx, w_tick := n\<rparr> \<Longrightarrow> match_frame v q w w'"
  by (auto simp: match_frame_def)

lemma epoch_now_run: "epoch_now_ms v w = (Inr (en_sys_ms v (w_tick (mw_world w))),
    w\<lparr>mw_world := (mw_world w)\<lparr>w_tick := w_tick (mw_world w) + 1\<rparr>\<rparr>)"
  by (simp add: epoch_now_ms_def in_world_def)

lemma world_same_metrics: "(w :: world) = w\<lparr>w_metrics := w_metrics w\<rparr>"
  by simp

lemma clock_frame: "\<exists>t w'. epoch_now_ms v w = (Inr t, w') \<and> match_frame v q w w' \<and> mw_redis w' = mw_redis w"
  by (intro exI conjI, rule epoch_now_run, rule match_frame_tick [where mx = "w_metrics (mw_world w)"]) simp_all

lemma time_remaining_frame:
  assumes "time_remaining v q w = (r, w')"
  shows "match_frame v q' w w' \<and> mw_redis w' = mw_redis w"
proof (cases "mr_deadline_ms q \<le> 0")
  case True
  then show ?thesis using assms by (simp add: time_remaining_def)
next
  case False
  then have "w' = w\<lparr>mw_world := (mw_world w)\<lparr>w_tick := w_tick (mw_world w) + 1\<rparr>\<rparr>"
    using assms by (simp add: time_remaining_def in_world_def)
  then show ?thesis
    by (intro conjI match_frame_tick [where mx = "w_metrics (mw_world w)"]) simp_all
qed

lemma nearby_agents_frame:
  assumes "nearby_agents m v res cfg lat lon radius_m n w = (r, w')"
  shows "match_frame v q' w w' \<and> mw_redis w' = mw_redis w"
proof -
  obtain mx where "w' = w\<lparr>mw_world := (mw_world w)\<lparr>w_tick := w_tick (mw_world w) + 1, w_metrics := mx\<rparr>\<rparr>"
    using assms by (auto simp: nearby_agents_def in_world_def split: prod.splits sum.splits)
  then show ?thesis
    by (intro conjI match_frame_tick [where mx = mx and n = "w_tick (mw_world w) + 1"]) simp_all
qed

lemma reserve_run:
  "reserve v ttl a q w =
     (if a = [] \<or> q = [] \<or> ttl \<le> 0 then (Inr False, w)
      else let out = try_reserve_agent (to_ms (en_steady_ns v (w_tick (mw_world w)))) a q ttl (mw_redis w) in
        (Inr (fst out), w\<lparr>mw_world := (mw_world w)\<lparr>w_tick := w_tick (mw_world w) + 1\<rparr>, mw_redis := snd out\<rparr>))"
  by (simp add: reserve_def in_world_def Let_def case_prod_beta)

lemma try_reserve_holds:
  "map_of (rd_reservations (snd (try_reserve_agent now a q ttl r))) b =
     (if fst (try_reserve_agent now a q ttl r) \<and> b = a then Some \<lparr>rs_request_id = q, rs_expires_at_ms = now + ttl\<rparr>
      else map_of (rd_reservations r) b)"
  by (auto simp: try_reserve_agent_def Let_def split: option.splits)

lemma reserve_law:
  assumes "reserve v ttl a q w = (r, w')"
  shows "match_frame v q w w' \<and> (\<forall>b. holds q w' b \<longleftrightarrow> holds q w b \<or> r = Inr True \<and> b = a)"
proof (cases "a = [] \<or> q = [] \<or> ttl \<le> 0")
  case True
  then show ?thesis using assms by (auto simp: reserve_run)
next
  case False
  let ?now = "to_ms (en_steady_ns v (w_tick (mw_world w)))"
  let ?out = "try_reserve_agent ?now a q ttl (mw_redis w)"
  have w': "w' = w\<lparr>mw_world := (mw_world w)\<lparr>w_tick := w_tick (mw_world w) + 1\<rparr>, mw_redis := snd ?out\<rparr>"
    and r: "r = Inr (fst ?out)"
    using assms False by (auto simp: reserve_run Let_def)
  have "get_agent_reservation_holder t (snd ?out) b = Some q'"
    if "\<forall>n. to_ms (en_steady_ns v n) \<le> t" "get_agent_reservation_holder t (mw_redis w) b = Some q'" for t b q'
  proof (cases "fst ?out \<and> b = a")
    case True
    have "get_agent_reservation_holder ?now (mw_redis w) a = Some q'"
      using redis_reservations.holder_back [of t "mw_redis w" a q' ?now] that True by blast
    then show ?thesis using True by (simp add: holder_try_reserve(1))
  next
    case False
    then show ?thesis using that(2) holder_try_reserve(3) [of b a ?now q ttl "mw_redis w" t] by metis
  qed
  moreover have "\<exists>mx n. (mw_world w)\<lparr>w_tick := w_tick (mw_world w) + 1\<rparr> = (mw_world w)\<lparr>w_metrics := mx, w_tick := n\<rparr>"
    by (intro exI [of _ "w_metrics (mw_world w)"] exI [of _ "w_tick (mw_world w) + 1"]) simp
  ultimately have "match_frame v q w w'" by (simp add: match_frame_def w')
  then show ?thesis using False by (auto simp: holds_def w' r try_reserve_holds)
qed

lemma release_law:
  assumes "release a q w = (u, w')"
  shows "u = Inr () \<and> match_frame v q w w' \<and> (\<forall>b. holds q w' b \<longleftrightarrow> holds q w b \<and> b \<noteq> a)"
proof -
  have w': "u = Inr ()" "w' = w\<lparr>mw_redis := release_agent a q (mw_redis w)\<rparr>"
    using assms by (auto simp: release_def)
  have "match_frame v q w w'"
    unfolding match_frame_def w' by (auto simp: holder_release intro!: exI [of _ "w_metrics (mw_world w)"] exI [of _ "w_tick (mw_world w)"])
  moreover have "holds q w' b \<longleftrightarrow> holds q w b \<and> b \<noteq> a" for b
    by (auto simp: holds_def w' release_agent_def split: option.splits)
  ultimately show ?thesis using w' by blast
qed

interpretation matching_context:
  reservation_context "service_context m v ms q" "epoch_now_ms v" "holds (mr_request_id q)"
    "match_frame v (mr_request_id q)"
  for m v ms q
proof
  fix s s' s'' :: match_world and a lat lon radius_m n r u cs t
  show "match_frame v (mr_request_id q) s s" by simp
  show "match_frame v (mr_request_id q) s s' \<Longrightarrow> match_frame v (mr_request_id q) s' s'' \<Longrightarrow>
      match_frame v (mr_request_id q) s s''"
    by (rule match_frame_trans)
  show "cx_reserve (service_context m v ms q) a s = (r, s') \<Longrightarrow> match_frame v (mr_request_id q) s s' \<and>
      (\<forall>b. holds (mr_request_id q) s' b \<longleftrightarrow> holds (mr_request_id q) s b \<or> r = Inr True \<and> b = a)"
    by (rule reserve_law) (simp add: service_context_def)
  show "cx_release (service_context m v ms q) a s = (u, s') \<Longrightarrow> u = Inr () \<and> match_frame v (mr_request_id q) s s' \<and>
      (\<forall>b. holds (mr_request_id q) s' b \<longleftrightarrow> holds (mr_request_id q) s b \<and> b \<noteq> a)"
    using release_law by (simp add: service_context_def)
  show "cx_nearby (service_context m v ms q) lat lon radius_m n s = (cs, s') \<Longrightarrow>
      match_frame v (mr_request_id q) s s' \<and> holds (mr_request_id q) s' = holds (mr_request_id q) s"
    using nearby_agents_frame [of m v _ _ lat lon radius_m n s cs s' "mr_request_id q"]
    by (auto simp: service_context_def holds_def fun_eq_iff)
  show "cx_time_remaining_ms (service_context m v ms q) s = (t, s') \<Longrightarrow>
      match_frame v (mr_request_id q) s s' \<and> holds (mr_request_id q) s' = holds (mr_request_id q) s"
    using time_remaining_frame [of v q s t s' "mr_request_id q"]
    by (auto simp: service_context_def holds_def fun_eq_iff)
  show "\<exists>t s'. epoch_now_ms v s = (Inr t, s') \<and> match_frame v (mr_request_id q) s s' \<and>
      holds (mr_request_id q) s' = holds (mr_request_id q) s"
    using clock_frame [of v s "mr_request_id q"] by (auto simp: holds_def fun_eq_iff)
qed

subsection \<open>A match settles its reservations\<close>

lemma match_once_settles:
  "\<exists>res w'. match_once (epoch_now_ms v) running st q cs (service_context m v ms q) w = (Inr res, w') \<and>
    match_frame v (mr_request_id q) w w' \<and> mres_request_id res = mr_request_id q \<and>
    (mres_status res = MATCHED \<longleftrightarrow> mres_assigned_agent_ids res \<noteq> []) \<and> [] \<notin> set (mres_assigned_agent_ids res) \<and>
    (0 < mr_max_agents q \<longrightarrow> wrap32 (int (length (mres_assigned_agent_ids res))) \<le> mr_max_agents q) \<and>
    (\<forall>a \<in> set (mres_assigned_agent_ids res). holds (mr_request_id q) w' a) \<and>
    (\<forall>a. holds (mr_request_id q) w' a \<longrightarrow> holds (mr_request_id q) w a \<or> a \<in> set (mres_assigned_agent_ids res))"
proof -
  obtain res w' where r: "match_once (epoch_now_ms v) running st q cs (service_context m v ms q) w = (Inr res, w')"
    "reservation_context.result_ok (holds (mr_request_id q)) (match_frame v (mr_request_id q)) q w res w'"
    using matching_context.match_once_run by blast
  show ?thesis
    using r(2) unfolding matching_context.result_ok_def Let_def
    by (intro exI [of _ res] exI [of _ w'] conjI r(1)) (elim conjE; blast)+
qed

text \<open>C2: Whatever strategy is plugged in, however it calls its context and whether it returns or
  raises: a match returns a result, and it settles its reservations. After a match without
  success the request holds no agent that it did not hold before; after a success it holds
  every agent of the result and no other that it did not hold before, and the result names
  at least one agent and at most as many as asked for. Device states, cells, fences and the
  lasting reservations of other requests are as before.\<close>

theorem match_settles_reservations:
  "\<exists>res w'. match_once (epoch_now_ms v) running st q cs (service_context m v ms q) w = (Inr res, w') \<and>
    match_frame v (mr_request_id q) w w' \<and> mres_request_id res = mr_request_id q \<and>
    (mres_status res = MATCHED \<longleftrightarrow> mres_assigned_agent_ids res \<noteq> []) \<and> [] \<notin> set (mres_assigned_agent_ids res) \<and>
    (0 < mr_max_agents q \<longrightarrow> wrap32 (int (length (mres_assigned_agent_ids res))) \<le> mr_max_agents q) \<and>
    (\<forall>a \<in> set (mres_assigned_agent_ids res). holds (mr_request_id q) w' a) \<and>
    (\<forall>a. holds (mr_request_id q) w' a \<longrightarrow> holds (mr_request_id q) w a \<or> a \<in> set (mres_assigned_agent_ids res))"
  by (rule match_once_settles)

definition sample_match_world :: match_world where
  "sample_match_world = \<lparr>mw_world = new_world [], mw_redis = new_redis, mw_consumer = new_consumer []\<rparr>"

definition sample_request :: match_request where
  "sample_request = match_request_default\<lparr>mr_request_id := ''r1'', mr_radius_m := Fin 100\<rparr>"

text \<open>A strategy that reserves two agents and then raises.\<close>

theorem match_settles_reservations_witness:
  "\<forall>m. \<exists>res w'. match_once (epoch_now_ms sample_env) True
       (Some (\<lambda>q cs. S_reserve ''a'' (\<lambda>ok. S_reserve ''b'' (\<lambda>ok. S_raise ''boom'')))) sample_request []
       (service_context m sample_env (new_matching_service\<lparr>ms_reservations := Some 5000\<rparr>) sample_request) sample_match_world
     = (Inr res, w') \<and>
     (\<forall>a. holds ''r1'' w' a \<longrightarrow> a \<in> set (mres_assigned_agent_ids res))"
proof
  fix m
  have "\<not> holds ''r1'' sample_match_world a" for a
    by (simp add: holds_def sample_match_world_def new_redis_def)
  then show "\<exists>res w'. match_once (epoch_now_ms sample_env) True
       (Some (\<lambda>q cs. S_reserve ''a'' (\<lambda>ok. S_reserve ''b'' (\<lambda>ok. S_raise ''boom'')))) sample_request []
       (service_context m sample_env (new_matching_service\<lparr>ms_reservations := Some 5000\<rparr>) sample_request) sample_match_world
     = (Inr res, w') \<and>
     (\<forall>a. holds ''r1'' w' a \<longrightarrow> a \<in> set (mres_assigned_agent_ids res))"
    using match_settles_reservations [of sample_env True
        "Some (\<lambda>q cs. S_reserve ''a'' (\<lambda>ok. S_reserve ''b'' (\<lambda>ok. S_raise ''boom'')))" sample_request "[]" m
        "new_matching_service\<lparr>ms_reservations := Some 5000\<rparr>" sample_match_world]
    by (auto simp: sample_request_def)
qed

subsection \<open>Reservations in time\<close>

text \<open>All clock readings lie between the reservation time to live before \<open>t\<close> and \<open>t\<close>: a
  reservation made at any of them lasts until after \<open>t\<close>.\<close>

definition within_ttl :: "env \<Rightarrow> int \<Rightarrow> int \<Rightarrow> bool" where
  "within_ttl v ttl t \<longleftrightarrow> (\<forall>n. to_ms (en_steady_ns v n) \<le> t \<and> t < to_ms (en_steady_ns v n) + ttl)"

lemma timed_reserve:
  assumes "within_ttl v ttl t" "reserve v ttl a q w = (r, w')"
  shows "get_agent_reservation_holder t (mw_redis w') b = Some q \<longleftrightarrow>
    get_agent_reservation_holder t (mw_redis w) b = Some q \<or> r = Inr True \<and> b = a"
proof (cases "a = [] \<or> q = [] \<or> ttl \<le> 0")
  case True
  then show ?thesis using assms(2) by (auto simp: reserve_run)
next
  case False
  let ?now = "to_ms (en_steady_ns v (w_tick (mw_world w)))"
  let ?out = "try_reserve_agent ?now a q ttl (mw_redis w)"
  have w': "mw_redis w' = snd ?out" "r = Inr (fst ?out)" using assms(2) False by (auto simp: reserve_run Let_def)
  show ?thesis
  proof (cases "fst ?out \<and> b = a")
    case True
    then show ?thesis using assms(1) holder_try_reserve(2) [of ?now a q ttl "mw_redis w" t]
      by (simp add: w' within_ttl_def)
  next
    case False
    then show ?thesis using holder_try_reserve(3) [of b a ?now q ttl "mw_redis w" t] by (auto simp: w')
  qed
qed

lemma timed_context:
  assumes "within_ttl v (the (ms_reservations ms)) t"
  shows "reservation_context (service_context m v ms q) (epoch_now_ms v)
    (\<lambda>w a. get_agent_reservation_holder t (mw_redis w) a = Some (mr_request_id q)) (match_frame v (mr_request_id q))"
proof
  fix s s' s'' :: match_world and a lat lon radius_m n r u cs i
  let ?held = "\<lambda>w a. get_agent_reservation_holder t (mw_redis w) a = Some (mr_request_id q)"
  show "match_frame v (mr_request_id q) s s" by simp
  show "match_frame v (mr_request_id q) s s' \<Longrightarrow> match_frame v (mr_request_id q) s' s'' \<Longrightarrow>
      match_frame v (mr_request_id q) s s''"
    by (rule match_frame_trans)
  show "cx_reserve (service_context m v ms q) a s = (r, s') \<Longrightarrow> match_frame v (mr_request_id q) s s' \<and>
      (\<forall>b. ?held s' b \<longleftrightarrow> ?held s b \<or> r = Inr True \<and> b = a)"
    using timed_reserve [OF assms, of a "mr_request_id q" s r s'] reserve_law [of v _ a "mr_request_id q" s r s']
    by (simp add: service_context_def)
  show "cx_release (service_context m v ms q) a s = (u, s') \<Longrightarrow> u = Inr () \<and> match_frame v (mr_request_id q) s s' \<and>
      (\<forall>b. ?held s' b \<longleftrightarrow> ?held s b \<and> b \<noteq> a)"
  proof -
    assume "cx_release (service_context m v ms q) a s = (u, s')"
    then have r: "release a (mr_request_id q) s = (u, s')" by (simp add: service_context_def)
    then have "mw_redis s' = release_agent a (mr_request_id q) (mw_redis s)" by (auto simp: release_def)
    then show ?thesis using release_law [OF r, of v] by (auto simp: holder_release)
  qed
  show "cx_nearby (service_context m v ms q) lat lon radius_m n s = (cs, s') \<Longrightarrow>
      match_frame v (mr_request_id q) s s' \<and> ?held s' = ?held s"
    using nearby_agents_frame [of m v _ _ lat lon radius_m n s cs s' "mr_request_id q"]
    by (simp add: service_context_def)
  show "cx_time_remaining_ms (service_context m v ms q) s = (i, s') \<Longrightarrow>
      match_frame v (mr_request_id q) s s' \<and> ?held s' = ?held s"
    using time_remaining_frame [of v q s i s' "mr_request_id q"] by (simp add: service_context_def)
  show "\<exists>i s'. epoch_now_ms v s = (Inr i, s') \<and> match_frame v (mr_request_id q) s s' \<and> ?held s' = ?held s"
    using clock_frame [of v s "mr_request_id q"] by auto
qed

subsection \<open>Requests\<close>

definition matching_ok :: "matching_service \<Rightarrow> bool" where
  "matching_ok ms \<longleftrightarrow> (ms_running ms \<longrightarrow> (\<exists>res ttl. ms_h3 ms = Some res \<and> 0 \<le> res \<and> res \<le> 15 \<and>
     ms_reservations ms = Some ttl \<and> ms_strategy ms \<noteq> None \<and> ms_has_bus ms))"

lemma new_matching_ok [simp]: "matching_ok new_matching_service"
  by (simp add: matching_ok_def new_matching_service_def)

lemma start_matching_ok:
  assumes "matching_ok ms" "start_matching cfg external reg ms w = (r, ms', reg', w')"
  shows "matching_ok ms'"
proof (cases "ms_running ms")
  case False
  then show ?thesis using assms(2)
    by (auto simp: matching_ok_def start_matching_def Let_def new_h3_index_def split: sum.splits if_splits)
qed (use assms in \<open>simp add: start_matching_def\<close>)

lemma stop_matching_ok [simp]: "matching_ok (stop_matching ms)"
  by (simp add: matching_ok_def stop_matching_def)

text \<open>What a request leaves as it was.\<close>

definition request_frame :: "env \<Rightarrow> string \<Rightarrow> match_world \<Rightarrow> match_world \<Rightarrow> bool" where
  "request_frame v q w w' \<longleftrightarrow> mw_consumer w' = mw_consumer w \<and>
     w_broker (mw_world w') = w_broker (mw_world w) \<and> w_bus (mw_world w') = w_bus (mw_world w) \<and>
     rd_device_states (mw_redis w') = rd_device_states (mw_redis w) \<and>
     rd_cell_devices (mw_redis w') = rd_cell_devices (mw_redis w) \<and>
     rd_fence_states (mw_redis w') = rd_fence_states (mw_redis w) \<and>
     (\<forall>a q' t. q' \<noteq> q \<longrightarrow> (\<forall>n. to_ms (en_steady_ns v n) \<le> t) \<longrightarrow>
        get_agent_reservation_holder t (mw_redis w) a = Some q' \<longrightarrow>
        get_agent_reservation_holder t (mw_redis w') a = Some q')"

lemma request_frame_same: "mw_consumer w' = mw_consumer w \<Longrightarrow> mw_redis w' = mw_redis w \<Longrightarrow>
  w_broker (mw_world w') = w_broker (mw_world w) \<Longrightarrow> w_bus (mw_world w') = w_bus (mw_world w) \<Longrightarrow> request_frame v q w w'"
  by (simp add: request_frame_def)

lemma request_frame_trans: "request_frame v q w w' \<Longrightarrow> request_frame v q w' w'' \<Longrightarrow> request_frame v q w w''"
  unfolding request_frame_def by (elim conjE) (intro conjI, simp_all)

lemma match_request_frame:
  assumes "match_frame v q w w'"
  shows "request_frame v q w w'"
  using match_frameD(2) [OF assms] match_frameD(1,3-6) [OF assms] unfolding request_frame_def by auto

text \<open>A published match event changes the metrics and the trace.\<close>

lemma publish_match_run:
  assumes "is_match_event e" "ms_has_bus ms"
  shows "\<exists>mx. publish_match v ms e w =
    (Inr (), w\<lparr>mw_world := (mw_world w)\<lparr>w_metrics := mx, w_trace := w_trace (mw_world w) @ [e]\<rparr>\<rparr>)"
proof -
  obtain mx where "publish_event v e (mw_world w) =
      (Inr (), (mw_world w)\<lparr>w_metrics := mx, w_trace := w_trace (mw_world w) @ [e]\<rparr>)"
    using publish_match_event [OF assms(1)] by blast
  then show ?thesis using assms(2) by (auto simp: publish_match_def)
qed

lemma outcome_is_match_event [simp]: "is_match_event (outcome_event st res)"
  by (cases st) simp_all

text \<open>What a request that is searched for does, before and after its match.\<close>

definition valid_request :: "match_request \<Rightarrow> bool" where
  "valid_request q \<longleftrightarrow> mr_request_id q \<noteq> [] \<and> dfinite (mr_lat q) \<and> dfinite (mr_lon q) \<and>
     dfinite (mr_radius_m q) \<and> \<not> dle (mr_radius_m q) (Fin 0)"

definition match_part :: "libm \<Rightarrow> env \<Rightarrow> matching_service \<Rightarrow> match_request \<Rightarrow> (match_world, match_result) prog" where
  "match_part m v ms q =
     seq_prog (nearby_agents m v (the (ms_h3 ms)) (cf_spatial (ms_config ms)) (mr_lat q) (mr_lon q)
                 (mr_radius_m q) (wrap32 (mr_max_agents q * 4))) (\<lambda>cs.
       match_once (epoch_now_ms v) (ms_running ms) (ms_strategy ms) q cs (service_context m v ms q))"

lemma handle_request_cases:
  assumes "matching_ok ms" "ms_running ms"
  obtains (expired) w' where "handle_request m v ms q0 w = (Inr (expired_result (with_defaults ms (en_sys_ms v (w_tick (mw_world w))) q0)), w')"
      "0 < mr_deadline_ms (with_defaults ms (en_sys_ms v (w_tick (mw_world w))) q0)"
      "mr_deadline_ms (with_defaults ms (en_sys_ms v (w_tick (mw_world w))) q0) \<le> en_sys_ms v (w_tick (mw_world w))"
      "request_frame v q w w'" "mw_redis w' = mw_redis w"
      "w_trace (mw_world w') = w_trace (mw_world w) @ [request_received (with_defaults ms (en_sys_ms v (w_tick (mw_world w))) q0),
         MatchExpired (mr_request_id q0)]"
  | (invalid) w' where "handle_request m v ms q0 w = (Inr (failed_result (with_defaults ms (en_sys_ms v (w_tick (mw_world w))) q0) ''invalid match request''), w')"
      "\<not> valid_request q0" "request_frame v q w w'" "mw_redis w' = mw_redis w"
      "w_trace (mw_world w') = w_trace (mw_world w) @ [request_received (with_defaults ms (en_sys_ms v (w_tick (mw_world w))) q0),
         MatchFailed (mr_request_id q0) ''invalid match request'']"
  | (tried) w1 where "valid_request q0" "request_frame v q w w1" "mw_redis w1 = mw_redis w"
      "w_trace (mw_world w1) = w_trace (mw_world w) @ [request_received (with_defaults ms (en_sys_ms v (w_tick (mw_world w))) q0)]"
      "\<And>res w2. match_part m v ms (with_defaults ms (en_sys_ms v (w_tick (mw_world w))) q0) w1 = (Inr res, w2) \<Longrightarrow>
        \<exists>l w3. handle_request m v ms q0 w = (Inr (res\<lparr>mres_latency_ms := l\<rparr>), w3) \<and> request_frame v q w2 w3 \<and>
          mw_redis w3 = mw_redis w2 \<and>
          w_trace (mw_world w3) = w_trace (mw_world w2) @ [outcome_event (mres_status res) (res\<lparr>mres_latency_ms := l\<rparr>)]"
proof -
  let ?started = "en_sys_ms v (w_tick (mw_world w))"
  define q1 where "q1 = with_defaults ms ?started q0"
  obtain res ttl where ms: "ms_h3 ms = Some res" "ms_reservations ms = Some ttl" "ms_has_bus ms"
    using assms by (auto simp: matching_ok_def)
  have q1: "mr_request_id q1 = mr_request_id q0" "valid_request q1 = valid_request q0"
    by (simp_all add: q1_def with_defaults_def valid_request_def)
  let ?w0 = "w\<lparr>mw_world := (mw_world w)\<lparr>w_tick := w_tick (mw_world w) + 1\<rparr>\<rparr>"
  have is_ev: "is_match_event (request_received q1)" by (simp add: request_received_def)
  obtain mx where 1: "publish_match v ms (request_received q1) ?w0 =
      (Inr (), ?w0\<lparr>mw_world := (mw_world ?w0)\<lparr>w_metrics := mx, w_trace := w_trace (mw_world ?w0) @ [request_received q1]\<rparr>\<rparr>)"
    using publish_match_run [OF is_ev ms(3)] by blast
  define w1 where "w1 = ?w0\<lparr>mw_world := (mw_world ?w0)\<lparr>w_metrics := mx, w_trace := w_trace (mw_world ?w0) @ [request_received q1]\<rparr>\<rparr>"
  have w1: "mw_redis w1 = mw_redis w" "request_frame v q w w1"
    "w_trace (mw_world w1) = w_trace (mw_world w) @ [request_received q1]"
    by (simp_all add: w1_def request_frame_def)
  note pub = 1 [folded w1_def]
  define K where "K = (\<lambda>res0. seq_prog (epoch_now_ms v) (\<lambda>now.
      let res = res0\<lparr>mres_latency_ms := now - ?started\<rparr> in
      andthen (publish_match v ms (outcome_event (mres_status res) res)) (ret res)))"
  have step: "handle_request m v ms q0 w =
      (if mr_deadline_ms q1 > 0 \<and> ?started \<ge> mr_deadline_ms q1
       then andthen (publish_match v ms (MatchExpired (mr_request_id q1))) (ret (expired_result q1)) w1
       else if \<not> valid_request q1
       then andthen (publish_match v ms (MatchFailed (mr_request_id q1) ''invalid match request''))
              (ret (failed_result q1 ''invalid match request'')) w1
       else seq_prog (match_part m v ms q1) K w1)"
  proof -
    have assoc: "seq_prog a (\<lambda>x. seq_prog (b x) k) = seq_prog (seq_prog a b) k"
      for a :: "(match_world, match_candidate list) prog" and b and k :: "match_result \<Rightarrow> (match_world, match_result) prog"
      by (auto simp: seq_prog_def fun_eq_iff split: prod.split sum.split)
    show ?thesis
      using assms(2) ms pub epoch_now_run [of v w]
      by (simp add: handle_request_def Let_def q1_def [symmetric] match_part_def assoc valid_request_def K_def)
  qed
  have quiet: "\<exists>w'. andthen (publish_match v ms e) (ret r) w1 = (Inr r, w') \<and> request_frame v q w w' \<and>
      mw_redis w' = mw_redis w \<and> w_trace (mw_world w') = w_trace (mw_world w) @ [request_received q1, e]"
    if ev: "is_match_event e" for e and r :: match_result
  proof -
    obtain mx' where p: "publish_match v ms e w1 =
        (Inr (), w1\<lparr>mw_world := (mw_world w1)\<lparr>w_metrics := mx', w_trace := w_trace (mw_world w1) @ [e]\<rparr>\<rparr>)"
      using publish_match_run [OF ev ms(3)] by blast
    have "request_frame v q w1 (w1\<lparr>mw_world := (mw_world w1)\<lparr>w_metrics := mx', w_trace := w_trace (mw_world w1) @ [e]\<rparr>\<rparr>)"
      by (simp add: request_frame_def)
    then show ?thesis using p w1 request_frame_trans [OF w1(2)] by auto
  qed
  consider (exp) "mr_deadline_ms q1 > 0 \<and> ?started \<ge> mr_deadline_ms q1"
    | (inv) "\<not> (mr_deadline_ms q1 > 0 \<and> ?started \<ge> mr_deadline_ms q1)" "\<not> valid_request q1"
    | (searched) "\<not> (mr_deadline_ms q1 > 0 \<and> ?started \<ge> mr_deadline_ms q1)" "valid_request q1" by blast
  then show ?thesis
  proof cases
    case exp
    then show ?thesis using expired quiet [of "MatchExpired (mr_request_id q1)" "expired_result q1"] step q1
      unfolding q1_def [symmetric] by auto
  next
    case inv
    then show ?thesis
      using invalid quiet [of "MatchFailed (mr_request_id q1) ''invalid match request''" "failed_result q1 ''invalid match request''"]
        step q1 unfolding q1_def [symmetric] by auto
  next
    case searched
    show ?thesis
    proof (rule tried)
      show "valid_request q0" using searched(2) q1(2) by simp
      show "request_frame v q w w1" "mw_redis w1 = mw_redis w" by (rule w1)+
      show "w_trace (mw_world w1) = w_trace (mw_world w) @ [request_received (with_defaults ms ?started q0)]"
        using w1(3) by (simp add: q1_def)
      fix res w2
      assume m2: "match_part m v ms (with_defaults ms ?started q0) w1 = (Inr res, w2)"
      let ?now = "en_sys_ms v (w_tick (mw_world w2))" and ?w = "w2\<lparr>mw_world := (mw_world w2)\<lparr>w_tick := w_tick (mw_world w2) + 1\<rparr>\<rparr>"
      let ?res = "res\<lparr>mres_latency_ms := ?now - ?started\<rparr>"
      obtain mx' where p: "publish_match v ms (outcome_event (mres_status ?res) ?res) ?w =
          (Inr (), ?w\<lparr>mw_world := (mw_world ?w)\<lparr>w_metrics := mx',
             w_trace := w_trace (mw_world ?w) @ [outcome_event (mres_status ?res) ?res]\<rparr>\<rparr>)"
        using publish_match_run [OF outcome_is_match_event ms(3)] by blast
      have "handle_request m v ms q0 w = (Inr ?res, ?w\<lparr>mw_world := (mw_world ?w)\<lparr>w_metrics := mx',
             w_trace := w_trace (mw_world ?w) @ [outcome_event (mres_status ?res) ?res]\<rparr>\<rparr>)"
      proof -
        have "handle_request m v ms q0 w = seq_prog (match_part m v ms q1) K w1"
          unfolding step if_not_P [OF searched(1)] using searched(2) by simp
        also have "\<dots> = K res w2" using m2 by (simp add: q1_def)
        finally show ?thesis using epoch_now_run [of v w2] p by (simp add: K_def Let_def)
      qed
      then show "\<exists>l w3. handle_request m v ms q0 w = (Inr (res\<lparr>mres_latency_ms := l\<rparr>), w3) \<and> request_frame v q w2 w3 \<and>
          mw_redis w3 = mw_redis w2 \<and>
          w_trace (mw_world w3) = w_trace (mw_world w2) @ [outcome_event (mres_status res) (res\<lparr>mres_latency_ms := l\<rparr>)]"
        by (intro exI conjI) (assumption, simp_all add: request_frame_def)
    qed
  qed
qed

text \<open>A service whose largest search radius its resolution can answer; a search beyond it would overflow
  the size of its disk.\<close>

definition searches_fit :: "matching_service \<Rightarrow> bool" where
  "searches_fit ms \<longleftrightarrow>
     (\<forall>res. ms_h3 ms = Some res \<longrightarrow> disk_fits res (sp_nearby_max_radius_m (cf_spatial (ms_config ms))))"

lemma nearby_agents_run:
  assumes "0 \<le> res" "res \<le> 15" "disk_fits res (sp_nearby_max_radius_m cfg)"
  shows "\<exists>nb now_ms mx mx' w'. nearby_handle m res cfg now_ms (mw_redis w) lat lon radius_m n 0 mx = (Inr nb, mx') \<and>
    nearby_agents m v res cfg lat lon radius_m n w = (Inr (to_candidates nb), w') \<and>
    match_frame v q w w' \<and> mw_redis w' = mw_redis w"
proof -
  let ?now = "en_sys_ms v (w_tick (mw_world w))"
  obtain nb mx' where nb: "nearby_handle m res cfg ?now (mw_redis w) lat lon radius_m n 0 (w_metrics (mw_world w)) = (Inr nb, mx')"
    using nearby_handle_total [OF assms] by blast
  then have "\<exists>w'. nearby_agents m v res cfg lat lon radius_m n w = (Inr (to_candidates nb), w')"
    by (simp add: nearby_agents_def in_world_def)
  then show ?thesis using nb nearby_agents_frame by blast
qed

lemma match_part_run:
  assumes "matching_ok ms" "ms_running ms" "within_ttl v (the (ms_reservations ms)) t" "searches_fit ms"
  shows "\<exists>res w'. match_part m v ms q w = (Inr res, w') \<and> request_frame v (mr_request_id q) w w' \<and>
    (\<forall>a \<in> set (mres_assigned_agent_ids res). get_agent_reservation_holder t (mw_redis w') a = Some (mr_request_id q))"
proof -
  obtain h3 where h3: "ms_h3 ms = Some h3" "0 \<le> h3" "h3 \<le> 15" using assms(1,2) by (auto simp: matching_ok_def)
  obtain nb w1 where 1: "nearby_agents m v h3 (cf_spatial (ms_config ms)) (mr_lat q) (mr_lon q) (mr_radius_m q)
      (wrap32 (mr_max_agents q * 4)) w = (Inr (to_candidates nb), w1)" "match_frame v (mr_request_id q) w w1"
    using nearby_agents_run [OF h3(2,3)] assms(4) h3(1) unfolding searches_fit_def by blast
  note ctx = timed_context [OF assms(3), of m q]
  obtain res w2 where 2: "match_once (epoch_now_ms v) (ms_running ms) (ms_strategy ms) q (to_candidates nb) (service_context m v ms q) w1 = (Inr res, w2)"
    "reservation_context.result_ok (\<lambda>w a. get_agent_reservation_holder t (mw_redis w) a = Some (mr_request_id q))
       (match_frame v (mr_request_id q)) q w1 res w2"
    using reservation_context.match_once_run [OF ctx] by blast
  have "match_frame v (mr_request_id q) w1 w2 \<and>
    (\<forall>a \<in> set (mres_assigned_agent_ids res). get_agent_reservation_holder t (mw_redis w2) a = Some (mr_request_id q))"
    using 2(2) unfolding reservation_context.result_ok_def [OF ctx] Let_def by (elim conjE) (intro conjI)
  then show ?thesis
    using 1 2(1) h3(1) match_request_frame request_frame_trans by (fastforce simp: match_part_def)
qed

lemma handle_request_timed:
  assumes "matching_ok ms" "ms_running ms" "within_ttl v (the (ms_reservations ms)) t" "searches_fit ms"
  shows "\<exists>res w'. handle_request m v ms q w = (Inr res, w') \<and> request_frame v (mr_request_id q) w w' \<and>
    (\<forall>a \<in> set (mres_assigned_agent_ids res). get_agent_reservation_holder t (mw_redis w') a = Some (mr_request_id q))"
proof (cases rule: handle_request_cases [OF assms(1,2), where m = m and v = v and ?q0.0 = q and w = w and q = "mr_request_id q", case_names expired invalid tried])
  case (expired w')
  then show ?thesis by (auto simp: expired_result_def match_result_default_def)
next
  case (invalid w')
  then show ?thesis by (auto simp: failed_result_def match_result_default_def)
next
  case (tried w1)
  let ?q = "with_defaults ms (en_sys_ms v (w_tick (mw_world w))) q"
  have id: "mr_request_id ?q = mr_request_id q" by (simp add: with_defaults_def)
  obtain res w2 where 2: "match_part m v ms ?q w1 = (Inr res, w2)" "request_frame v (mr_request_id q) w1 w2"
    "\<forall>a \<in> set (mres_assigned_agent_ids res). get_agent_reservation_holder t (mw_redis w2) a = Some (mr_request_id q)"
    using match_part_run [OF assms, of m ?q w1] unfolding id by blast
  obtain l w3 where 3: "handle_request m v ms q w = (Inr (res\<lparr>mres_latency_ms := l\<rparr>), w3)"
    "request_frame v (mr_request_id q) w2 w3" "mw_redis w3 = mw_redis w2"
    using tried(5) [OF 2(1)] by blast
  have "request_frame v (mr_request_id q) w w3"
    using tried(2) 2(2) 3(2) request_frame_trans by blast
  then show ?thesis using 2(3) 3 by (intro exI conjI) (rule 3(1), assumption, simp)
qed

subsection \<open>Many requests\<close>

fun handle_requests :: "libm \<Rightarrow> env \<Rightarrow> matching_service \<Rightarrow> match_request list \<Rightarrow> (match_world, match_result list) prog" where
  "handle_requests m v ms [] = ret []"
| "handle_requests m v ms (q # qs) = seq_prog (handle_request m v ms q) (\<lambda>r.
     seq_prog (handle_requests m v ms qs) (\<lambda>rs. ret (r # rs)))"

lemma handle_requests_timed:
  assumes "matching_ok ms" "ms_running ms" "within_ttl v (the (ms_reservations ms)) t" "searches_fit ms"
    and "distinct (map mr_request_id qs)"
  shows "\<exists>rs w'. handle_requests m v ms qs w = (Inr rs, w') \<and> length rs = length qs \<and>
    (\<forall>i < length qs. \<forall>a \<in> set (mres_assigned_agent_ids (rs ! i)).
       get_agent_reservation_holder t (mw_redis w') a = Some (mr_request_id (qs ! i))) \<and>
    (\<forall>a q'. q' \<notin> mr_request_id ` set qs \<longrightarrow> get_agent_reservation_holder t (mw_redis w) a = Some q' \<longrightarrow>
       get_agent_reservation_holder t (mw_redis w') a = Some q')"
  using assms(5)
proof (induction qs arbitrary: w)
  case (Cons q qs)
  have clocks: "\<forall>n. to_ms (en_steady_ns v n) \<le> t" using assms(3) by (simp add: within_ttl_def)
  obtain r w1 where 1: "handle_request m v ms q w = (Inr r, w1)" "request_frame v (mr_request_id q) w w1"
    "\<forall>a \<in> set (mres_assigned_agent_ids r). get_agent_reservation_holder t (mw_redis w1) a = Some (mr_request_id q)"
    using handle_request_timed [OF assms(1-4)] by blast
  have distinct: "distinct (map mr_request_id qs)" and new: "mr_request_id q \<notin> mr_request_id ` set qs"
    using Cons.prems by simp_all
  obtain rs w2 where 2: "handle_requests m v ms qs w1 = (Inr rs, w2)" "length rs = length qs"
    "\<forall>i < length qs. \<forall>a \<in> set (mres_assigned_agent_ids (rs ! i)).
       get_agent_reservation_holder t (mw_redis w2) a = Some (mr_request_id (qs ! i))"
    "\<forall>a q'. q' \<notin> mr_request_id ` set qs \<longrightarrow> get_agent_reservation_holder t (mw_redis w1) a = Some q' \<longrightarrow>
       get_agent_reservation_holder t (mw_redis w2) a = Some q'"
    using Cons.IH [OF distinct, of w1] by blast
  have keep: "get_agent_reservation_holder t (mw_redis w1) a = Some q'"
    if "q' \<noteq> mr_request_id q" "get_agent_reservation_holder t (mw_redis w) a = Some q'" for a q'
    using 1(2) that clocks unfolding request_frame_def by blast
  have "handle_requests m v ms (q # qs) w = (Inr (r # rs), w2)" using 1(1) 2(1) by simp
  moreover have "\<forall>i < length (q # qs). \<forall>a \<in> set (mres_assigned_agent_ids ((r # rs) ! i)).
       get_agent_reservation_holder t (mw_redis w2) a = Some (mr_request_id ((q # qs) ! i))"
  proof (intro allI impI ballI)
    fix i a assume "i < length (q # qs)" "a \<in> set (mres_assigned_agent_ids ((r # rs) ! i))"
    then show "get_agent_reservation_holder t (mw_redis w2) a = Some (mr_request_id ((q # qs) ! i))"
      using 1(3) 2(3,4) new by (cases i) auto
  qed
  moreover have "\<forall>a q'. q' \<notin> mr_request_id ` set (q # qs) \<longrightarrow> get_agent_reservation_holder t (mw_redis w) a = Some q' \<longrightarrow>
       get_agent_reservation_holder t (mw_redis w2) a = Some q'"
    using keep 2(4) by simp
  ultimately show ?case using 2(2) by (intro exI [of _ "r # rs"] exI [of _ w2]) simp
qed simp

text \<open>C7: At a service whose largest search radius its resolution can answer (at most 26754 cell edges; a
  wider disk has a size that overflows), a sequence of requests with different identifiers is
  answered, one result each, and no agent is assigned to two of them as long as all of it happens within the time to live of a
  reservation, whatever the strategy: at the end the store still says of every assigned
  agent which request holds it.\<close>

theorem no_double_assignment:
  assumes "matching_ok ms" "ms_running ms" "within_ttl v (the (ms_reservations ms)) t" "searches_fit ms"
    and "distinct (map mr_request_id qs)"
  shows "\<exists>rs w'. handle_requests m v ms qs w = (Inr rs, w') \<and> length rs = length qs \<and>
    (\<forall>i < length qs. \<forall>a \<in> set (mres_assigned_agent_ids (rs ! i)).
       get_agent_reservation_holder t (mw_redis w') a = Some (mr_request_id (qs ! i))) \<and>
    (\<forall>i < length qs. \<forall>j < length qs. i \<noteq> j \<longrightarrow>
       set (mres_assigned_agent_ids (rs ! i)) \<inter> set (mres_assigned_agent_ids (rs ! j)) = {})"
proof -
  obtain rs w' where r: "handle_requests m v ms qs w = (Inr rs, w')" "length rs = length qs"
    "\<forall>i < length qs. \<forall>a \<in> set (mres_assigned_agent_ids (rs ! i)).
       get_agent_reservation_holder t (mw_redis w') a = Some (mr_request_id (qs ! i))"
    using handle_requests_timed [OF assms] by blast
  have "mr_request_id (qs ! i) \<noteq> mr_request_id (qs ! j)" if "i < length qs" "j < length qs" "i \<noteq> j" for i j
    using assms(5) that nth_eq_iff_index_eq [of "map mr_request_id qs" i j] by simp
  then have "set (mres_assigned_agent_ids (rs ! i)) \<inter> set (mres_assigned_agent_ids (rs ! j)) = {}"
    if "i < length qs" "j < length qs" "i \<noteq> j" for i j
    using r(3) that by (metis (no_types, lifting) disjoint_iff option.inject)
  with r show ?thesis by blast
qed

definition sample_matching :: "matching_service \<times> match_world" where
  "sample_matching = (case start_matching config_default False [] new_matching_service sample_match_world of
     (r, ms, reg, w) \<Rightarrow> (ms, w))"

lemma sample_matching_ok:
  "matching_ok (fst sample_matching)" "ms_running (fst sample_matching)"
  "ms_reservations (fst sample_matching) = Some 5000" "ms_strategy (fst sample_matching) = Some nearest_strategy"
  "within_ttl (sample_env\<lparr>en_steady_ns := \<lambda>_. 0\<rparr>) 5000 100"
proof -
  obtain reg' where reg: "register_builtin_strategies [] = Inr reg'"
    by (simp add: register_builtin_strategies_def register_strategy_def)
  have start: "start_matching config_default False [] new_matching_service sample_match_world =
      (Inr (), fst sample_matching, reg', snd sample_matching)"
    and "ms_running (fst sample_matching)" "ms_reservations (fst sample_matching) = Some 5000"
      "ms_strategy (fst sample_matching) = Some nearest_strategy"
    using reg builtin_registered [OF reg]
    by (simp_all add: sample_matching_def start_matching_def Let_def new_matching_service_def config_default_def
        matching_config_default_def spatial_config_default_def new_h3_index_def)
  then show "ms_running (fst sample_matching)" "ms_reservations (fst sample_matching) = Some 5000"
    "ms_strategy (fst sample_matching) = Some nearest_strategy" "matching_ok (fst sample_matching)"
    using start_matching_ok [OF new_matching_ok start] by simp_all
  show "within_ttl (sample_env\<lparr>en_steady_ns := \<lambda>_. 0\<rparr>) 5000 100"
    by (simp add: within_ttl_def to_ms_def cdiv_def)
qed

lemma sample_matching_fits: "searches_fit (fst sample_matching)"
proof -
  obtain reg' where reg: "register_builtin_strategies [] = Inr reg'"
    by (simp add: register_builtin_strategies_def register_strategy_def)
  have "ms_h3 (fst sample_matching) = Some 7" "cf_spatial (ms_config (fst sample_matching)) = spatial_config_default"
    using reg builtin_registered [OF reg]
    by (simp_all add: sample_matching_def start_matching_def Let_def new_matching_service_def config_default_def
        matching_config_default_def spatial_config_default_def new_h3_index_def)
  then show ?thesis using disk_fits_default(2) by (simp add: searches_fit_def)
qed

theorem no_double_assignment_witness:
  "\<forall>m. \<exists>rs w'. handle_requests m (sample_env\<lparr>en_steady_ns := \<lambda>_. 0\<rparr>) (fst sample_matching)
       [sample_request, sample_request\<lparr>mr_request_id := ''r2''\<rparr>] (snd sample_matching) = (Inr rs, w') \<and>
     set (mres_assigned_agent_ids (rs ! 0)) \<inter> set (mres_assigned_agent_ids (rs ! 1)) = {}"
proof
  fix m
  have ttl: "within_ttl (sample_env\<lparr>en_steady_ns := \<lambda>_. 0\<rparr>) (the (ms_reservations (fst sample_matching))) 100"
    using sample_matching_ok(3,5) by simp
  have ids: "distinct (map mr_request_id [sample_request, sample_request\<lparr>mr_request_id := ''r2''\<rparr>])"
    by (simp add: sample_request_def)
  show "\<exists>rs w'. handle_requests m (sample_env\<lparr>en_steady_ns := \<lambda>_. 0\<rparr>) (fst sample_matching)
       [sample_request, sample_request\<lparr>mr_request_id := ''r2''\<rparr>] (snd sample_matching) = (Inr rs, w') \<and>
     set (mres_assigned_agent_ids (rs ! 0)) \<inter> set (mres_assigned_agent_ids (rs ! 1)) = {}"
    using no_double_assignment [OF sample_matching_ok(1,2) ttl sample_matching_fits ids, of m "snd sample_matching"]
    by (fastforce simp del: handle_requests.simps)
qed
subsection \<open>The nearest agents\<close>

text \<open>While a request is handled no reservation runs out, and it is handled before its deadline.\<close>

definition stable_reservations :: "env \<Rightarrow> match_world \<Rightarrow> bool" where
  "stable_reservations v w \<longleftrightarrow> (\<forall>a rec. map_of (rd_reservations (mw_redis w)) a = Some rec \<longrightarrow>
     (\<forall>n. rs_expires_at_ms rec \<le> to_ms (en_steady_ns v n)) \<or> (\<forall>n. to_ms (en_steady_ns v n) < rs_expires_at_ms rec))"

definition calm :: "env \<Rightarrow> matching_service \<Rightarrow> match_request \<Rightarrow> match_world \<Rightarrow> bool" where
  "calm v ms q w \<longleftrightarrow> (\<exists>t. within_ttl v (the (ms_reservations ms)) t) \<and> 0 < the (ms_reservations ms) \<and>
     mr_request_id q \<noteq> [] \<and> stable_reservations v w \<and>
     (mr_deadline_ms q > 0 \<longrightarrow> (\<forall>n. en_sys_ms v n < mr_deadline_ms q))"

definition agent_free :: "env \<Rightarrow> match_world \<Rightarrow> string \<Rightarrow> bool" where
  "agent_free v w a \<longleftrightarrow> a \<noteq> [] \<and> \<not> is_agent_reserved (to_ms (en_steady_ns v 0)) (mw_redis w) a"

lemma stable_reserved:
  assumes "stable_reservations v w"
  shows "is_agent_reserved (to_ms (en_steady_ns v n)) (mw_redis w) a \<longleftrightarrow>
     is_agent_reserved (to_ms (en_steady_ns v k)) (mw_redis w) a"
proof (cases "map_of (rd_reservations (mw_redis w)) a")
  case (Some rec)
  then have "(\<forall>n. rs_expires_at_ms rec \<le> to_ms (en_steady_ns v n)) \<or> (\<forall>n. to_ms (en_steady_ns v n) < rs_expires_at_ms rec)"
    using assms by (simp add: stable_reservations_def)
  then show ?thesis using Some by (auto simp: is_agent_reserved_def reservation_expired_at_def not_le [symmetric])
qed (simp add: is_agent_reserved_def)

lemma calm_reserve:
  assumes "calm v ms q w"
  shows "\<exists>w'. reserve v (the (ms_reservations ms)) a (mr_request_id q) w = (Inr (agent_free v w a), w') \<and>
    calm v ms q w' \<and> (\<forall>b. b \<noteq> a \<longrightarrow> agent_free v w' b = agent_free v w b)"
proof (cases "a = []")
  case True
  then show ?thesis using assms by (simp add: reserve_run agent_free_def)
next
  case False
  let ?now = "to_ms (en_steady_ns v (w_tick (mw_world w)))" and ?ttl = "the (ms_reservations ms)"
  let ?out = "try_reserve_agent ?now a (mr_request_id q) ?ttl (mw_redis w)"
  let ?w = "w\<lparr>mw_world := (mw_world w)\<lparr>w_tick := w_tick (mw_world w) + 1\<rparr>, mw_redis := snd ?out\<rparr>"
  have c: "0 < ?ttl" "mr_request_id q \<noteq> []" "stable_reservations v w" using assms by (simp_all add: calm_def)
  have "fst ?out = agent_free v w a"
    using False c stable_reserved [OF c(3), of "w_tick (mw_world w)" a 0]
    unfolding reserved_iff_holder agent_free_def holder_try_reserve(1) by blast
  moreover have "reserve v ?ttl a (mr_request_id q) w = (Inr (fst ?out), ?w)"
    using False c by (simp add: reserve_run Let_def)
  moreover obtain t where t: "within_ttl v ?ttl t" using assms by (auto simp: calm_def)
  have "to_ms (en_steady_ns v n) < ?now + ?ttl" for n
    using t unfolding within_ttl_def by (meson le_less_trans)
  then have "stable_reservations v ?w"
    using c(3) by (simp add: stable_reservations_def try_reserve_holds)
  then have "calm v ms q ?w" using assms by (simp add: calm_def)
  moreover have "agent_free v ?w b = agent_free v w b" if "b \<noteq> a" for b
    using that by (simp add: agent_free_def is_agent_reserved_def try_reserve_holds)
  ultimately show ?thesis by (intro exI [of _ ?w]) simp
qed

lemma calm_same: "mw_redis w' = mw_redis w \<Longrightarrow> calm v ms q w' = calm v ms q w \<and> agent_free v w' = agent_free v w"
  by (auto simp: calm_def stable_reservations_def agent_free_def fun_eq_iff)

interpretation calm_context:
  steady_context "service_context m v ms q" "epoch_now_ms v" "mr_deadline_ms q" "calm v ms q" "agent_free v"
  for m v ms q
proof
  fix s :: match_world and a
  assume calm: "calm v ms q s"
  let ?t = "mw_world s\<lparr>w_tick := w_tick (mw_world s) + 1\<rparr>"
  have same: "calm v ms q (s\<lparr>mw_world := ?t\<rparr>)" "agent_free v (s\<lparr>mw_world := ?t\<rparr>) = agent_free v s"
    using calm calm_same [of "s\<lparr>mw_world := ?t\<rparr>" s v ms q] by simp_all
  show "\<exists>t s'. cx_time_remaining_ms (service_context m v ms q) s = (Inr t, s') \<and> t \<noteq> 0 \<and> calm v ms q s' \<and>
      agent_free v s' = agent_free v s"
  proof (cases "mr_deadline_ms q \<le> 0")
    case True
    then show ?thesis using calm by (simp add: service_context_def time_remaining_def)
  next
    case False
    then have "en_sys_ms v (w_tick (mw_world s)) < mr_deadline_ms q" using calm by (simp add: calm_def)
    then show ?thesis using False same
      by (simp add: service_context_def time_remaining_def in_world_def)
  qed
  show "\<exists>s'. cx_reserve (service_context m v ms q) a s = (Inr (agent_free v s a), s') \<and> calm v ms q s' \<and>
      (\<forall>b. b \<noteq> a \<longrightarrow> agent_free v s' b = agent_free v s b)"
    using calm_reserve [OF calm] by (simp add: service_context_def)
  show "\<exists>t s'. epoch_now_ms v s = (Inr t, s') \<and> calm v ms q s' \<and> agent_free v s' = agent_free v s \<and>
      \<not> (mr_deadline_ms q > 0 \<and> t \<ge> mr_deadline_ms q)"
    using same calm by (auto simp: epoch_now_run calm_def not_le)
qed

text \<open>The answer of a nearby query is in the order in which the strategy tries the agents.\<close>

lemma sort_key_sorted: "sorted (map f xs) \<Longrightarrow> sort_key f xs = xs"
  by (induction xs) (auto simp: insort_is_Cons)

lemma ranked_candidates:
  assumes "sorted (map nearby_order (nb_devices nb))"
  shows "ranked (to_candidates nb) = filter (\<lambda>a. a \<noteq> []) (map (\<lambda>x. ds_device_id (fst x)) (nb_devices nb))"
proof -
  let ?cs = "filter (\<lambda>x. mc_available x \<and> mc_agent_id x \<noteq> []) (to_candidates nb)"
  have "map candidate_order (to_candidates nb) = map nearby_order (nb_devices nb)"
    by (auto simp: to_candidates_def candidate_order_def nearby_order_def)
  then have "sorted (map candidate_order ?cs)" using assms by (metis sorted_filter)
  then have "ranked (to_candidates nb) = map mc_agent_id ?cs" by (simp add: ranked_def sort_key_sorted)
  also have "\<dots> = filter (\<lambda>a. a \<noteq> []) (map (\<lambda>x. ds_device_id (fst x)) (nb_devices nb))"
    by (induction "nb_devices nb" arbitrary: nb) (auto simp: to_candidates_def filter_map comp_def case_prod_beta)
  finally show ?thesis .
qed

lemma request_frame_calm: "mw_redis w' = mw_redis w \<Longrightarrow> stable_reservations v w' = stable_reservations v w"
  by (simp add: stable_reservations_def)

text \<open>C25: A valid request to a started service with the nearest strategy, handled before its deadline
  while no reservation runs out, is tried on the answer of one nearby query around its point: the
  devices within its radius, nearest first and at most four times as many as it asks for (or as the
  configuration allows). It is assigned exactly the first of these candidates that are free, as
  many as it asks for or as there are among them; agents beyond the candidates are not tried. It
  fails with no agents matched only when none of the candidates is free. The outcome is published
  after the receipt of the request, with nothing in between.\<close>

theorem nearest_agents_assigned:
  assumes "matching_ok ms" "ms_running ms" "ms_strategy ms = Some nearest_strategy" "valid_request q0"
    and "q = with_defaults ms (en_sys_ms v (w_tick (mw_world w))) q0" "calm v ms q w"
    and "redis_ok (mw_redis w)" "index_exact (mw_redis w)" "length (rd_device_states (mw_redis w)) < 2 ^ 31"
    and "searches_fit ms"
  shows "\<exists>res nb now_ms mx mx' r w'. ms_h3 ms = Some res \<and>
    nearby_handle m res (cf_spatial (ms_config ms)) now_ms (mw_redis w) (mr_lat q) (mr_lon q) (mr_radius_m q)
      (wrap32 (mr_max_agents q * 4)) 0 mx = (Inr nb, mx') \<and>
    handle_request m v ms q0 w = (Inr r, w') \<and>
    mres_assigned_agent_ids r = take (nat (mr_max_agents q))
      (filter (agent_free v w) (map (\<lambda>x. ds_device_id (fst x)) (nb_devices nb))) \<and>
    mres_status r = (if mres_assigned_agent_ids r = [] then FAILED else MATCHED) \<and>
    w_trace (mw_world w') = w_trace (mw_world w) @ [request_received q, outcome_event (mres_status r) r]"
proof -
  obtain h3 where h3: "ms_h3 ms = Some h3" "0 \<le> h3" "h3 \<le> 15" using assms(1,2) by (auto simp: matching_ok_def)
  have q: "0 < mr_max_agents q" "mr_request_id q \<noteq> []" "mr_request_id q = mr_request_id q0"
    using assms(4,5) by (simp_all add: with_defaults_def valid_request_def)
  show ?thesis
  proof (cases rule: handle_request_cases [OF assms(1,2), where m = m and v = v and ?q0.0 = q0 and w = w and q = "mr_request_id q", case_names expired invalid tried])
    case (expired w')
    have "0 < mr_deadline_ms q" "mr_deadline_ms q \<le> en_sys_ms v (w_tick (mw_world w))"
      using expired(2,3) unfolding assms(5) .
    moreover have "en_sys_ms v (w_tick (mw_world w)) < mr_deadline_ms q"
      using assms(6) \<open>0 < mr_deadline_ms q\<close> unfolding calm_def by blast
    ultimately show ?thesis by simp
  next
    case (invalid w')
    then show ?thesis using assms(4) by simp
  next
    case (tried w1)
    note tried = tried [folded assms(5)]
    obtain nb now_ms mx mx' w2 where nb: "nearby_handle m h3 (cf_spatial (ms_config ms)) now_ms (mw_redis w1) (mr_lat q)
        (mr_lon q) (mr_radius_m q) (wrap32 (mr_max_agents q * 4)) 0 mx = (Inr nb, mx')"
      "nearby_agents m v h3 (cf_spatial (ms_config ms)) (mr_lat q) (mr_lon q) (mr_radius_m q) (wrap32 (mr_max_agents q * 4)) w1
         = (Inr (to_candidates nb), w2)" "match_frame v (mr_request_id q) w1 w2" "mw_redis w2 = mw_redis w1"
      using nearby_agents_run [OF h3(2,3)] assms(10) h3(1) unfolding searches_fit_def by blast
    have dev: "sorted (map nearby_order (nb_devices nb))"
      "distinct (map (\<lambda>x. ds_device_id (fst x)) (nb_devices nb))" "length (nb_devices nb) < 2 ^ 31"
      using nearby_devices [OF _ _ nb(1)] assms(7-9) tried(3) by auto
    have ids: "map mc_agent_id (to_candidates nb) = map (\<lambda>x. ds_device_id (fst x)) (nb_devices nb)"
      "length (to_candidates nb) = length (nb_devices nb)"
      by (auto simp: to_candidates_def)
    have red: "mw_redis w2 = mw_redis w" using nb(4) tried(3) by simp
    then have calm: "calm v ms q w2" and free: "agent_free v w2 = agent_free v w"
      using assms(6) calm_same [OF red, of v ms q] by simp_all
    obtain res w3 where m: "match_once (epoch_now_ms v) True (Some nearest_strategy) q (to_candidates nb) (service_context m v ms q) w2 = (Inr res, w3)"
      "let ids = take (nat (mr_max_agents q)) (filter (agent_free v w2) (ranked (to_candidates nb))) in
        if ids = [] then res = failed_result q ''no agents matched'' else \<exists>l. res = matched_result q ids l"
      using calm_context.match_nearest_run [OF calm q(2,1) refl, of "to_candidates nb" m] dev(2,3) ids by auto
    have "filter (agent_free v w2) (ranked (to_candidates nb)) =
        filter (agent_free v w) (map (\<lambda>x. ds_device_id (fst x)) (nb_devices nb))"
      unfolding ranked_candidates [OF dev(1)] free by (auto intro!: filter_cong simp: agent_free_def)
    then have out: "mres_assigned_agent_ids res = take (nat (mr_max_agents q))
        (filter (agent_free v w) (map (\<lambda>x. ds_device_id (fst x)) (nb_devices nb)))"
      "mres_status res = (if mres_assigned_agent_ids res = [] then FAILED else MATCHED)"
      using m(2) by (auto simp: Let_def failed_result_def matched_result_def match_result_default_def split: if_splits)
    have "match_part m v ms q w1 = (Inr res, w3)"
      using nb(2) m(1) h3(1) assms(2,3) by (simp add: match_part_def)
    from tried(5) [OF this] obtain l w4 where h: "handle_request m v ms q0 w = (Inr (res\<lparr>mres_latency_ms := l\<rparr>), w4)"
      "w_trace (mw_world w4) = w_trace (mw_world w3) @ [outcome_event (mres_status res) (res\<lparr>mres_latency_ms := l\<rparr>)]"
      by blast
    obtain res' w3' where settled: "match_once (epoch_now_ms v) True (Some nearest_strategy) q (to_candidates nb) (service_context m v ms q) w2
        = (Inr res', w3')" "match_frame v (mr_request_id q) w2 w3'"
      using match_once_settles by blast
    have "w_trace (mw_world w3) = w_trace (mw_world w1)"
      using match_frameD(2) [OF settled(2)] match_frameD(2) [OF nb(3)] settled(1) m(1) by auto
    then have "w_trace (mw_world w4) = w_trace (mw_world w) @
        [request_received q, outcome_event (mres_status res) (res\<lparr>mres_latency_ms := l\<rparr>)]"
      using h(2) tried(4) by simp
    then show ?thesis
      using h(1) h3(1) nb(1) out tried(3)
      by (intro exI [of _ h3] exI [of _ nb] exI [of _ now_ms] exI [of _ mx] exI [of _ mx']
          exI [of _ "res\<lparr>mres_latency_ms := l\<rparr>"] exI [of _ w4]) simp
  qed
qed

theorem nearest_agents_assigned_witness:
  "\<forall>m. \<exists>r w'. handle_request m (sample_env\<lparr>en_steady_ns := \<lambda>_. 0, en_sys_ms := \<lambda>_. 1000\<rparr>) (fst sample_matching)
     sample_request (snd sample_matching) = (Inr r, w') \<and> mres_status r = (if mres_assigned_agent_ids r = [] then FAILED else MATCHED)"
proof
  fix m
  let ?v = "sample_env\<lparr>en_steady_ns := \<lambda>_. 0, en_sys_ms := \<lambda>_. 1000\<rparr>"
  let ?q = "with_defaults (fst sample_matching) (en_sys_ms ?v (w_tick (mw_world (snd sample_matching)))) sample_request"
  obtain reg' where reg: "register_builtin_strategies [] = Inr reg'"
    by (simp add: register_builtin_strategies_def register_strategy_def)
  have st: "mw_redis (snd sample_matching) = new_redis" "cf_matching (ms_config (fst sample_matching)) = matching_config_default"
    using reg builtin_registered [OF reg]
    by (simp_all add: sample_matching_def start_matching_def Let_def new_matching_service_def config_default_def
        matching_config_default_def spatial_config_default_def new_h3_index_def)
  have "within_ttl ?v 5000 100" by (simp add: within_ttl_def to_ms_def cdiv_def)
  then have calm: "calm ?v (fst sample_matching) ?q (snd sample_matching)"
    using sample_matching_ok(3)
    by (auto simp: calm_def stable_reservations_def st new_redis_def with_defaults_def sample_request_def
        match_request_default_def matching_config_default_def)
  have valid: "valid_request sample_request"
    by (simp add: valid_request_def sample_request_def match_request_default_def dle_def)
  have store: "redis_ok (mw_redis (snd sample_matching))" "index_exact (mw_redis (snd sample_matching))"
    "length (rd_device_states (mw_redis (snd sample_matching))) < 2 ^ 31"
    by (simp_all add: st) (simp add: new_redis_def)
  show "\<exists>r w'. handle_request m ?v (fst sample_matching) sample_request (snd sample_matching) = (Inr r, w') \<and>
     mres_status r = (if mres_assigned_agent_ids r = [] then FAILED else MATCHED)"
    using nearest_agents_assigned [OF sample_matching_ok(1,2,4) valid refl calm store sample_matching_fits, of m] by blast
qed

subsection \<open>The request loop\<close>

lemma handle_request_returns:
  assumes "matching_ok ms" "ms_running ms" "searches_fit ms"
  shows "\<exists>res w'. handle_request m v ms q w = (Inr res, w') \<and> request_frame v (mr_request_id q) w w' \<and>
    mres_request_id res = mr_request_id q"
proof (cases rule: handle_request_cases [OF assms(1,2), where m = m and v = v and ?q0.0 = q and w = w and q = "mr_request_id q",
    case_names expired invalid tried])
  case (expired w')
  then show ?thesis by (auto simp: expired_result_def with_defaults_def)
next
  case (invalid w')
  then show ?thesis by (auto simp: failed_result_def with_defaults_def)
next
  case (tried w1)
  let ?q = "with_defaults ms (en_sys_ms v (w_tick (mw_world w))) q"
  have id: "mr_request_id ?q = mr_request_id q" by (simp add: with_defaults_def)
  obtain h3 where h3: "ms_h3 ms = Some h3" "0 \<le> h3" "h3 \<le> 15" using assms by (auto simp: matching_ok_def)
  obtain nb w2 where 1: "nearby_agents m v h3 (cf_spatial (ms_config ms)) (mr_lat ?q) (mr_lon ?q) (mr_radius_m ?q)
      (wrap32 (mr_max_agents ?q * 4)) w1 = (Inr (to_candidates nb), w2)" "match_frame v (mr_request_id q) w1 w2"
    using nearby_agents_run [OF h3(2,3)] assms(3) h3(1) unfolding searches_fit_def by blast
  obtain res w3 where 2: "match_once (epoch_now_ms v) (ms_running ms) (ms_strategy ms) ?q (to_candidates nb)
      (service_context m v ms ?q) w2 = (Inr res, w3)" "match_frame v (mr_request_id q) w2 w3"
    "mres_request_id res = mr_request_id q"
    using match_once_settles [of v "ms_running ms" "ms_strategy ms" ?q "to_candidates nb" m ms w2] unfolding id by blast
  have "match_part m v ms ?q w1 = (Inr res, w3)" using 1(1) 2(1) h3(1) by (simp add: match_part_def)
  from tried(5) [OF this] obtain l w4 where h: "handle_request m v ms q w = (Inr (res\<lparr>mres_latency_ms := l\<rparr>), w4)"
    "request_frame v (mr_request_id q) w3 w4" by blast
  have "request_frame v (mr_request_id q) w w4"
    using tried(2) match_request_frame [OF 1(2)] match_request_frame [OF 2(2)] h(2) request_frame_trans by blast
  then show ?thesis using h(1) 2(3) by (intro exI conjI) (rule h(1), assumption, simp)
qed

definition result_topic :: "matching_service \<Rightarrow> string" where
  "result_topic ms = mt_result_topic (cf_matching (ms_config ms))"

text \<open>What one message does: the counters, the result topic and the committed offset.\<close>

lemma process_request_run:
  assumes "matching_ok ms" "ms_running ms" "result_topic ms \<noteq> []" "searches_fit ms"
  shows "\<exists>w'. process_request m v ms msg acc w = (Inr (case decode_match_request_payload (km_payload msg) of
        Inl _ \<Rightarrow> acc\<lparr>ml_invalid_messages := ml_invalid_messages acc + 1\<rparr>
      | Inr q \<Rightarrow> acc\<lparr>ml_processed_requests := ml_processed_requests acc + 1, ml_published_results := ml_published_results acc + 1\<rparr>), w') \<and>
    mw_consumer w' = commit_message msg (mw_consumer w) \<and>
    map km_key (topic_log (w_broker (mw_world w')) (result_topic ms)) =
      map km_key (topic_log (w_broker (mw_world w)) (result_topic ms)) @
      (case decode_match_request_payload (km_payload msg) of Inl _ \<Rightarrow> [] | Inr q \<Rightarrow> [mr_request_id q]) \<and>
    (\<forall>t. t \<noteq> result_topic ms \<longrightarrow> topic_log (w_broker (mw_world w')) t = topic_log (w_broker (mw_world w)) t)"
proof (cases "decode_match_request_payload (km_payload msg)")
  case (Inl e)
  then show ?thesis by (simp add: process_request_def commit_request_def)
next
  case (Inr q)
  obtain res w1 where h: "handle_request m v ms q w = (Inr res, w1)" "request_frame v (mr_request_id q) w w1"
    "mres_request_id res = mr_request_id q"
    using handle_request_returns [OF assms(1,2,4)] by blast
  let ?b = "snd (append_message (result_topic ms) (mres_request_id res) (encode_match_result_payload res) (w_broker (mw_world w1)))"
  let ?w2 = "w1\<lparr>mw_world := (mw_world w1)\<lparr>w_broker := ?b\<rparr>\<rparr>"
  have "publish_result ms res w1 = (Inr (), ?w2)"
    using w_produce_total [OF assms(3)] by (simp add: publish_result_def result_topic_def in_world_def)
  then have "process_request m v ms msg acc w =
      (Inr (acc\<lparr>ml_processed_requests := ml_processed_requests acc + 1, ml_published_results := ml_published_results acc + 1\<rparr>),
       ?w2\<lparr>mw_consumer := commit_message msg (mw_consumer ?w2)\<rparr>)"
    using h(1) Inr by (simp add: process_request_def catching_def commit_request_def)
  then show ?thesis using h(2,3) Inr by (simp add: request_frame_def append_message_def Let_def)
qed

definition decodable :: "kafka_message \<Rightarrow> match_request option" where
  "decodable msg = (case decode_match_request_payload (km_payload msg) of Inl _ \<Rightarrow> None | Inr q \<Rightarrow> Some q)"

lemma request_loop_run:
  assumes "matching_ok ms" "ms_running ms" "result_topic ms \<noteq> []" "t \<noteq> result_topic ms"
    and "searches_fit ms"
    and "co_topics (mw_consumer w) = [t]" "offset_of (co_next_offsets (mw_consumer w)) t = int k"
  shows "let pending = take n (drop k (topic_log (w_broker (mw_world w)) t)); qs = List.map_filter decodable pending in
    \<exists>w'. request_loop m v ms n acc w = (Inr (acc\<lparr>ml_processed_requests := ml_processed_requests acc + length qs,
        ml_published_results := ml_published_results acc + length qs,
        ml_invalid_messages := ml_invalid_messages acc + (length pending - length qs)\<rparr>), w') \<and>
      map km_key (topic_log (w_broker (mw_world w')) (result_topic ms)) =
        map km_key (topic_log (w_broker (mw_world w)) (result_topic ms)) @ map mr_request_id qs \<and>
      (\<forall>t'. t' \<noteq> result_topic ms \<longrightarrow> topic_log (w_broker (mw_world w')) t' = topic_log (w_broker (mw_world w)) t') \<and>
      co_topics (mw_consumer w') = [t] \<and> offset_of (co_next_offsets (mw_consumer w')) t = int (k + length pending) \<and>
      co_committed_offsets (mw_consumer w') = co_committed_offsets (fold commit_message pending (mw_consumer w))"
  using assms(6,7)
proof (induction n arbitrary: w k acc)
  case 0
  then show ?case by (simp add: map_filter_simps)
next
  case (Suc n)
  let ?log = "topic_log (w_broker (mw_world w)) t"
  show ?case
  proof (cases "k < length ?log")
    case False
    then show ?thesis
      using Suc.prems poll_single [OF Suc.prems, of "w_broker (mw_world w)"]
      by (auto simp: poll_request_def map_filter_simps Let_def)
  next
    case True
    define msg where "msg = ?log ! k"
    define c1 where "c1 = (mw_consumer w)\<lparr>co_next_offsets := um_put t (int k + 1) (co_next_offsets (mw_consumer w)),
      co_last_polled := Some msg\<rparr>"
    have p: "poll_request w = (Inr (Some msg), w\<lparr>mw_consumer := c1\<rparr>)"
      using True poll_single [OF Suc.prems, of "w_broker (mw_world w)"] by (simp add: poll_request_def c1_def msg_def)
    define acc1 where "acc1 = (case decode_match_request_payload (km_payload msg) of
        Inl _ \<Rightarrow> acc\<lparr>ml_invalid_messages := ml_invalid_messages acc + 1\<rparr>
      | Inr q \<Rightarrow> acc\<lparr>ml_processed_requests := ml_processed_requests acc + 1, ml_published_results := ml_published_results acc + 1\<rparr>)"
    obtain w1 where w1: "process_request m v ms msg acc (w\<lparr>mw_consumer := c1\<rparr>) = (Inr acc1, w1)"
      "mw_consumer w1 = commit_message msg c1"
      "map km_key (topic_log (w_broker (mw_world w1)) (result_topic ms)) =
        map km_key (topic_log (w_broker (mw_world w)) (result_topic ms)) @
        (case decode_match_request_payload (km_payload msg) of Inl _ \<Rightarrow> [] | Inr q \<Rightarrow> [mr_request_id q])"
      "\<forall>t. t \<noteq> result_topic ms \<longrightarrow> topic_log (w_broker (mw_world w1)) t = topic_log (w_broker (mw_world w)) t"
      using process_request_run [OF assms(1-3,5), of m v msg acc "w\<lparr>mw_consumer := c1\<rparr>"] by (auto simp: acc1_def)
    have log: "topic_log (w_broker (mw_world w1)) t = ?log" using w1(4) assms(4) by blast
    have next_ok: "co_topics (mw_consumer w1) = [t]" "offset_of (co_next_offsets (mw_consumer w1)) t = int (Suc k)"
      using Suc.prems by (simp_all add: w1(2) c1_def)
    define pend where "pend = take n (drop (Suc k) ?log)"
    define qs where "qs = List.map_filter decodable pend"
    obtain w2 where w2: "request_loop m v ms n acc1 w1 = (Inr (acc1\<lparr>ml_processed_requests := ml_processed_requests acc1 + length qs,
        ml_published_results := ml_published_results acc1 + length qs,
        ml_invalid_messages := ml_invalid_messages acc1 + (length pend - length qs)\<rparr>), w2)"
      "map km_key (topic_log (w_broker (mw_world w2)) (result_topic ms)) =
        map km_key (topic_log (w_broker (mw_world w1)) (result_topic ms)) @ map mr_request_id qs"
      "\<forall>t'. t' \<noteq> result_topic ms \<longrightarrow> topic_log (w_broker (mw_world w2)) t' = topic_log (w_broker (mw_world w1)) t'"
      "co_topics (mw_consumer w2) = [t]" "offset_of (co_next_offsets (mw_consumer w2)) t = int (Suc k + length pend)"
      "co_committed_offsets (mw_consumer w2) = co_committed_offsets (fold commit_message pend (mw_consumer w1))"
      using Suc.IH [OF next_ok, of acc1] unfolding log pend_def [symmetric] Let_def qs_def [symmetric] by blast
    have pending: "take (Suc n) (drop k ?log) = msg # pend"
      using True by (simp add: Cons_nth_drop_Suc [symmetric] msg_def pend_def)
    have short: "length qs \<le> length pend" by (simp add: qs_def length_map_filter)
    have commits: "co_committed_offsets (fold commit_message ms' c) = co_committed_offsets (fold commit_message ms' c')"
      if "co_committed_offsets c = co_committed_offsets c'" for ms' c c'
      using that by (induction ms' arbitrary: c c') (auto simp: commit_message_def Let_def)
    have committed: "co_committed_offsets (fold commit_message pend (mw_consumer w1)) =
        co_committed_offsets (fold commit_message (msg # pend) (mw_consumer w))"
      unfolding w1(2) by (simp, rule commits) (simp add: commit_message_def Let_def c1_def)
    have run: "request_loop m v ms (Suc n) acc w = request_loop m v ms n acc1 w1" using p w1(1) by simp
    show ?thesis
    proof (cases "decode_match_request_payload (km_payload msg)")
      case (Inl e)
      then have d: "decodable msg = None" by (simp add: decodable_def)
      then show ?thesis unfolding Let_def pending run
        using Inl w2 w1(3,4) short committed
        by (intro exI [of _ w2]) (simp add: map_filter_simps qs_def [symmetric] acc1_def Suc_diff_le)
    next
      case (Inr q)
      then have d: "decodable msg = Some q" by (simp add: decodable_def)
      then show ?thesis unfolding Let_def pending run
        using Inr w2 w1(3,4) short committed
        by (intro exI [of _ w2]) (simp add: map_filter_simps qs_def [symmetric] acc1_def)
    qed
  qed
qed
text \<open>C24: One round of the request loop returns, at a service whose largest search radius its resolution
  can answer. Of the messages that wait on the request topic it
  takes the first ones up to the limit, in order: each that decodes is answered by exactly
  one message on the result topic, keyed by its request, each that does not is counted as
  invalid, none fails, and all of them are committed. No other topic changes.\<close>

theorem request_round_accounts:
  assumes "matching_ok ms" "ms_running ms" "result_topic ms \<noteq> []" "t \<noteq> result_topic ms" "0 < n"
    and "co_topics (mw_consumer w) = [t]" "offset_of (co_next_offsets (mw_consumer w)) t = int k"
    and "searches_fit ms" "pending = take (nat n) (drop k (topic_log (w_broker (mw_world w)) t))"
  shows "\<exists>out w'. process_requests_once m v ms n w = (Inr out, w') \<and>
    ml_processed_requests out = length (List.map_filter decodable pending) \<and>
    ml_published_results out = ml_processed_requests out \<and> ml_failed_messages out = 0 \<and>
    ml_processed_requests out + ml_invalid_messages out = length pending \<and>
    map km_key (topic_log (w_broker (mw_world w')) (result_topic ms)) =
      map km_key (topic_log (w_broker (mw_world w)) (result_topic ms)) @ map mr_request_id (List.map_filter decodable pending) \<and>
    (\<forall>t'. t' \<noteq> result_topic ms \<longrightarrow> topic_log (w_broker (mw_world w')) t' = topic_log (w_broker (mw_world w)) t') \<and>
    offset_of (co_next_offsets (mw_consumer w')) t = int (k + length pending) \<and>
    co_committed_offsets (mw_consumer w') = co_committed_offsets (fold commit_message pending (mw_consumer w))"
proof -
  have le: "length (List.map_filter decodable pending) \<le> length pending" by (rule length_map_filter)
  have "process_requests_once m v ms n w = request_loop m v ms (nat n) loop_result_zero w"
    using assms(2,5) by (simp add: process_requests_once_def)
  with request_loop_run [OF assms(1-4,8,6,7), of "nat n" m v loop_result_zero] le
  show ?thesis unfolding Let_def assms(9) [symmetric] by (auto simp: loop_result_zero_def)
qed

theorem request_round_accounts_witness:
  "\<forall>m. \<exists>out w'. process_requests_once m sample_env (fst sample_matching) 10
     ((snd sample_matching)\<lparr>mw_world := new_world (snd (append_message ''sr.match.requests'' [] ''x'' []))\<rparr>) = (Inr out, w') \<and>
     ml_processed_requests out + ml_invalid_messages out = 1"
proof
  fix m
  obtain reg' where reg: "register_builtin_strategies [] = Inr reg'"
    by (simp add: register_builtin_strategies_def register_strategy_def)
  have st: "result_topic (fst sample_matching) = ''sr.match.results''"
    "mw_consumer (snd sample_matching) = new_consumer [''sr.match.requests'']"
    using reg builtin_registered [OF reg]
    by (simp_all add: sample_matching_def start_matching_def Let_def new_matching_service_def config_default_def
        matching_config_default_def spatial_config_default_def new_h3_index_def result_topic_def)
  let ?w = "(snd sample_matching)\<lparr>mw_world := new_world (snd (append_message ''sr.match.requests'' [] ''x'' []))\<rparr>"
  have "length (take (nat 10) (drop 0 (topic_log (w_broker (mw_world ?w)) ''sr.match.requests''))) = 1"
    by (simp add: new_world_def append_message_def Let_def topic_log_def)
  then show "\<exists>out w'. process_requests_once m sample_env (fst sample_matching) 10 ?w = (Inr out, w') \<and>
     ml_processed_requests out + ml_invalid_messages out = 1"
    using request_round_accounts [OF sample_matching_ok(1,2), of "''sr.match.requests''" 10 ?w 0, OF _ _ _ _ _ sample_matching_fits refl, of m sample_env]
      offset_of_new_consumer [of "''sr.match.requests''"]
    by (auto simp: st)
qed

end
