(* ===== verification/Logging.thy ===== *)
theory Logging
  imports Text
begin

text \<open>
  The logfmt lines of \<open>common/logging/structured_log.cpp\<close>.

  \<open>escape_char\<close> is the switch over one character that \<open>escape_logfmt_value\<close> and the JSON
  writer of the admin endpoint share. \<open>read_quoted\<close> and \<open>parse_logfmt\<close> are a reader of such
  lines; the lemmas show that it reads back every field that was written.
\<close>

subsection \<open>Escaping\<close>

definition escape_char :: "char \<Rightarrow> string" where
  "escape_char c = (if c = CHR 0x22 then [CHR 0x5C, CHR 0x22] else if c = CHR 0x5C then [CHR 0x5C, CHR 0x5C]
     else if c = CHR 0x0A then [CHR 0x5C, CHR ''n''] else if c = CHR 0x0D then [CHR 0x5C, CHR ''r'']
     else if c = CHR 0x09 then [CHR 0x5C, CHR ''t''] else [c])"

definition needs_quotes :: "string \<Rightarrow> bool" where
  "needs_quotes s = (s = [] \<or> list_ex (\<lambda>c. c = CHR '' '' \<or> c = CHR 0x09 \<or> c = CHR 0x0A \<or> c = CHR 0x0D \<or>
     c = CHR 0x22 \<or> c = CHR 0x5C \<or> c = CHR ''='') s)"

definition escape_logfmt_value :: "string \<Rightarrow> string" where
  "escape_logfmt_value s = (if \<not> needs_quotes s then s
     else [CHR 0x22] @ concat (map escape_char s) @ [CHR 0x22])"

definition append_field :: "string \<Rightarrow> string \<Rightarrow> string" where
  "append_field key v = (if key = [] then [] else '' '' @ key @ ''='' @ escape_logfmt_value v)"

subsection \<open>Log events\<close>

record log_field =
  lf_key :: string
  lf_value :: string

record log_event =
  lg_level :: string
  lg_component :: string
  lg_event :: string
  lg_message :: string
  lg_fields :: "log_field list"

definition make_log_event :: "string \<Rightarrow> string \<Rightarrow> string \<Rightarrow> string \<Rightarrow> log_field list \<Rightarrow> log_event" where
  "make_log_event level component event message fs = \<lparr>lg_level = level, lg_component = component,
     lg_event = event, lg_message = message, lg_fields = fs\<rparr>"

definition format_logfmt :: "log_event \<Rightarrow> string" where
  "format_logfmt e = ''level='' @ escape_logfmt_value (if lg_level e = [] then ''info'' else lg_level e) @
     append_field ''component'' (lg_component e) @ append_field ''event'' (lg_event e) @
     append_field ''message'' (lg_message e) @
     concat (map (\<lambda>f. append_field (lf_key f) (lf_value f)) (lg_fields e))"

definition write_logfmt :: "log_event \<Rightarrow> string \<Rightarrow> string" where
  "write_logfmt e out = out @ format_logfmt e @ [CHR 0x0A]"

subsection \<open>Reading quoted text\<close>

definition unescape_char :: "char \<Rightarrow> char" where
  "unescape_char c = (if c = CHR ''n'' then CHR 0x0A else if c = CHR ''r'' then CHR 0x0D
     else if c = CHR ''t'' then CHR 0x09 else c)"

text \<open>The text up to the closing quote, and what follows it.\<close>

fun read_quoted :: "string \<Rightarrow> (string \<times> string) option" where
  "read_quoted [] = None"
| "read_quoted (c # s) =
     (if c = CHR 0x22 then Some ([], s)
      else if c = CHR 0x5C then (case s of [] \<Rightarrow> None
        | e # s' \<Rightarrow> map_option (\<lambda>(v, rest). (unescape_char e # v, rest)) (read_quoted s'))
      else map_option (\<lambda>(v, rest). (c # v, rest)) (read_quoted s))"

lemma read_escape_char: "read_quoted (escape_char c @ s) = map_option (\<lambda>(v, rest). (c # v, rest)) (read_quoted s)"
  by (simp add: escape_char_def unescape_char_def)

lemma read_quoted_escape: "read_quoted (concat (map escape_char s) @ CHR 0x22 # rest) = Some (s, rest)"
  by (induction s) (simp_all add: read_escape_char)

text \<open>Escaped text has no bare quote and no line break.\<close>

lemma escape_no_break: "CHR 0x0A \<notin> set (concat (map escape_char s)) \<and> CHR 0x0D \<notin> set (concat (map escape_char s))"
  by (induction s) (auto simp: escape_char_def split: if_splits)

lemma escape_inj:
  assumes "concat (map escape_char s) = concat (map escape_char t)"
  shows "s = t"
  using arg_cong [OF assms, of "\<lambda>x. read_quoted (x @ [CHR 0x22])"] by (simp add: read_quoted_escape)

lemma read_quoted_shorter: "read_quoted s = Some (v, rest) \<Longrightarrow> length rest < length s"
  by (induction s arbitrary: v rest rule: read_quoted.induct) (force split: if_splits list.splits)+

subsection \<open>Reading a line\<close>

definition read_value :: "string \<Rightarrow> (string \<times> string) option" where
  "read_value s = (case s of [] \<Rightarrow> None
     | c # q \<Rightarrow> if c = CHR 0x22 then read_quoted q
         else Some (takeWhile (\<lambda>c. c \<noteq> CHR '' '') s, dropWhile (\<lambda>c. c \<noteq> CHR '' '') s))"

definition read_field :: "string \<Rightarrow> (string \<times> string \<times> string) option" where
  "read_field s = (case dropWhile (\<lambda>c. c \<noteq> CHR ''='') s of [] \<Rightarrow> None
     | _ # r \<Rightarrow> map_option (\<lambda>(v, rest). (takeWhile (\<lambda>c. c \<noteq> CHR ''='') s, v, rest)) (read_value r))"

lemma read_value_shorter: "read_value s = Some (v, rest) \<Longrightarrow> length rest \<le> length s"
  using read_quoted_shorter length_dropWhile_le [of "\<lambda>c. c \<noteq> CHR '' ''" s]
  by (fastforce simp: read_value_def split: list.splits if_splits)

lemma read_field_shorter: "read_field s = Some (k, v, rest) \<Longrightarrow> length rest < length s"
  using length_dropWhile_le [of "\<lambda>c. c \<noteq> CHR ''=''" s]
  by (auto simp: read_field_def split: list.splits dest!: read_value_shorter)

function parse_logfmt :: "string \<Rightarrow> (string \<times> string) list option" where
  "parse_logfmt s = (case read_field s of None \<Rightarrow> None
     | Some (k, v, rest) \<Rightarrow> (case rest of [] \<Rightarrow> Some [(k, v)]
       | c # s' \<Rightarrow> if c = CHR '' '' then map_option (Cons (k, v)) (parse_logfmt s') else None))"
  by pat_completeness auto
termination
  by (relation "measure length") (auto dest: read_field_shorter)

declare parse_logfmt.simps [simp del]

lemma read_value_escape:
  assumes "rest = [] \<or> (\<exists>s. rest = CHR '' '' # s)"
  shows "read_value (escape_logfmt_value v @ rest) = Some (v, rest)"
proof (cases "needs_quotes v")
  case True
  then show ?thesis by (simp add: escape_logfmt_value_def read_value_def read_quoted_escape)
next
  case False
  then have v: "v \<noteq> []" "\<forall>c \<in> set v. c \<noteq> CHR '' '' \<and> c \<noteq> CHR 0x22"
    by (auto simp: needs_quotes_def list_ex_iff)
  then obtain c v' where c: "v = c # v'" "c \<noteq> CHR 0x22" by (cases v) auto
  have plain: "c \<in> set v \<Longrightarrow> c \<noteq> CHR '' ''" for c using v(2) by blast
  have parts: "takeWhile (\<lambda>c. c \<noteq> CHR '' '') (v @ rest) = v" "dropWhile (\<lambda>c. c \<noteq> CHR '' '') (v @ rest) = rest"
    using takeWhile_append2 [of v "\<lambda>c. c \<noteq> CHR '' ''" rest] dropWhile_append2 [of v "\<lambda>c. c \<noteq> CHR '' ''" rest] plain assms
    by (elim disjE exE; simp)+
  have "read_value (v @ rest) =
      Some (takeWhile (\<lambda>c. c \<noteq> CHR '' '') (v @ rest), dropWhile (\<lambda>c. c \<noteq> CHR '' '') (v @ rest))"
    using c(2) unfolding c(1) by (simp add: read_value_def)
  then show ?thesis using False unfolding parts by (simp add: escape_logfmt_value_def)
qed

lemma read_field_append:
  assumes "CHR ''='' \<notin> set k" "rest = [] \<or> (\<exists>s. rest = CHR '' '' # s)"
  shows "read_field (k @ ''='' @ escape_logfmt_value v @ rest) = Some (k, v, rest)"
proof -
  have "\<forall>c \<in> set k. c \<noteq> CHR ''=''" using assms(1) by auto
  then show ?thesis using read_value_escape [OF assms(2), of v]
    by (simp add: read_field_def takeWhile_append2 dropWhile_append2)
qed

lemma parse_fields:
  assumes "\<forall>f \<in> set fs. CHR ''='' \<notin> set (lf_key f)" "CHR ''='' \<notin> set k"
  shows "parse_logfmt (k @ ''='' @ escape_logfmt_value v @ concat (map (\<lambda>f. append_field (lf_key f) (lf_value f)) fs)) =
    Some ((k, v) # map (\<lambda>f. (lf_key f, lf_value f)) (filter (\<lambda>f. lf_key f \<noteq> []) fs))"
  using assms
proof (induction fs arbitrary: k v)
  case Nil
  then show ?case using read_field_append [of k "[]" v] by (simp add: parse_logfmt.simps)
next
  case (Cons f fs)
  let ?tail = "concat (map (\<lambda>f. append_field (lf_key f) (lf_value f)) fs)"
  show ?case
  proof (cases "lf_key f = []")
    case True
    then show ?thesis using Cons.IH [of k v] Cons.prems by (simp add: append_field_def)
  next
    case False
    let ?rest = "'' '' @ lf_key f @ ''='' @ escape_logfmt_value (lf_value f) @ ?tail"
    have "read_field (k @ ''='' @ escape_logfmt_value v @ ?rest) = Some (k, v, ?rest)"
      using Cons.prems by (intro read_field_append) auto
    then show ?thesis using Cons.IH [of "lf_key f" "lf_value f"] Cons.prems False
      by (subst parse_logfmt.simps) (simp add: append_field_def)
  qed
qed

text \<open>What a line says: the level, the three parts and the fields that have a key.\<close>

definition logged_fields :: "log_event \<Rightarrow> (string \<times> string) list" where
  "logged_fields e = [(''level'', if lg_level e = [] then ''info'' else lg_level e), (''component'', lg_component e),
     (''event'', lg_event e), (''message'', lg_message e)] @
     map (\<lambda>f. (lf_key f, lf_value f)) (filter (\<lambda>f. lf_key f \<noteq> []) (lg_fields e))"

text \<open>A log line can be read back: whatever the values are, quotes, blanks, line breaks and
  backslashes included, a reader of the line recovers the level, the component, the event, the
  message and every field with a key, in order, as long as no key contains an equals sign.\<close>

lemma logfmt_roundtrip:
  assumes "\<forall>f \<in> set (lg_fields e). CHR ''='' \<notin> set (lf_key f)"
  shows "parse_logfmt (format_logfmt e) = Some (logged_fields e)"
proof -
  let ?fs = "[\<lparr>lf_key = ''component'', lf_value = lg_component e\<rparr>, \<lparr>lf_key = ''event'', lf_value = lg_event e\<rparr>,
    \<lparr>lf_key = ''message'', lf_value = lg_message e\<rparr>] @ lg_fields e"
  have "format_logfmt e = ''level'' @ ''='' @ escape_logfmt_value (if lg_level e = [] then ''info'' else lg_level e) @
      concat (map (\<lambda>f. append_field (lf_key f) (lf_value f)) ?fs)"
    by (simp add: format_logfmt_def)
  then show ?thesis using parse_fields [of ?fs "''level''"] assms by (simp add: logged_fields_def)
qed

end
