(* ===== verification/Admin.thy ===== *)
theory Admin
  imports Logging World
begin

text \<open>
  The administration of \<open>common/admin/\<close>: the service that evaluates health and readiness probes,
  the endpoint that turns the answers into JSON, the HTTP routing of requests, and the
  registry of dependency probes.

  A probe is a closure that looks at the services of the process, so it is a function of their
  state \<open>'s\<close>; an empty \<open>std::function\<close> is \<open>None\<close>. It may raise, or leave with something that
  is no \<open>std::exception\<close>. The build flags \<open>SIGNALROUTE_HAS_*\<close> are a record.

  The lemmas show what the verdict of an evaluation means, that the JSON document says exactly
  what the answer holds (a reader recovers it), and how every request is routed.
\<close>

subsection \<open>Probes and the admin service\<close>

record component_health =
  ch_name :: string
  ch_healthy :: bool
  ch_required :: bool
  ch_detail :: string

datatype 'a probe_result = P_value 'a | P_raise string | P_raise_unknown

type_synonym ('s, 'a) probe = "'s \<Rightarrow> 'a probe_result"

record 's registered_component =
  rg_name :: string
  rg_health_probe :: "('s, component_health) probe option"
  rg_readiness_probe :: "('s, component_health) probe option"

record 's admin_service =
  as_role :: string
  as_version :: string
  as_started_at_ns :: int
  as_components :: "'s registered_component list"

record health_response =
  hr_healthy :: bool
  hr_role :: string
  hr_version :: string
  hr_uptime_s :: int
  hr_components :: "component_health list"

definition new_admin_service :: "string \<Rightarrow> string \<Rightarrow> int \<Rightarrow> 's admin_service" where
  "new_admin_service role version now_ns =
     \<lparr>as_role = role, as_version = version, as_started_at_ns = now_ns, as_components = []\<rparr>"

definition admin_version_default :: string where
  "admin_version_default = ''0.1.0''"

definition component_healthy :: "string \<Rightarrow> health_response \<Rightarrow> bool" where
  "component_healthy name r = (case find (\<lambda>c. ch_name c = name) (hr_components r) of
     None \<Rightarrow> False | Some c \<Rightarrow> ch_healthy c)"

definition add_component :: "'s registered_component \<Rightarrow> 's admin_service \<Rightarrow> 's admin_service" where
  "add_component c a = a\<lparr>as_components := as_components a @ [c]\<rparr>"

definition register_component :: "string \<Rightarrow> ('s, component_health) probe option \<Rightarrow> 's admin_service \<Rightarrow> 's admin_service" where
  "register_component name p = add_component \<lparr>rg_name = name, rg_health_probe = p, rg_readiness_probe = p\<rparr>"

definition register_readiness_component :: "string \<Rightarrow> ('s, component_health) probe option \<Rightarrow> 's admin_service \<Rightarrow> 's admin_service" where
  "register_readiness_component name p = add_component \<lparr>rg_name = name, rg_health_probe = None, rg_readiness_probe = p\<rparr>"

fun map_probe :: "('a \<Rightarrow> 'b) \<Rightarrow> 'a probe_result \<Rightarrow> 'b probe_result" where
  "map_probe f (P_value a) = P_value (f a)"
| "map_probe f (P_raise ex) = P_raise ex"
| "map_probe f P_raise_unknown = P_raise_unknown"

text \<open>A missing probe counts as unhealthy.\<close>

definition boolean_probe :: "string \<Rightarrow> string \<Rightarrow> string \<Rightarrow> ('s, bool) probe option \<Rightarrow> bool \<Rightarrow> ('s, component_health) probe" where
  "boolean_probe name good bad p required s =
     map_probe (\<lambda>healthy. \<lparr>ch_name = name, ch_healthy = healthy, ch_required = required,
         ch_detail = (if healthy then good else bad)\<rparr>)
       (case p of None \<Rightarrow> P_value False | Some f \<Rightarrow> f s)"

definition register_service_probe :: "string \<Rightarrow> ('s, bool) probe option \<Rightarrow> bool \<Rightarrow> 's admin_service \<Rightarrow> 's admin_service" where
  "register_service_probe name p required =
     register_component name (Some (boolean_probe name ''service healthy'' ''service unhealthy'' p required))"

definition register_dependency_probe :: "string \<Rightarrow> ('s, bool) probe option \<Rightarrow> bool \<Rightarrow> 's admin_service \<Rightarrow> 's admin_service" where
  "register_dependency_probe name p required =
     register_component name (Some (boolean_probe name ''dependency reachable'' ''dependency unreachable'' p required))"

definition lifecycle_health :: "string \<Rightarrow> (health_snapshot \<Rightarrow> bool) \<Rightarrow> ('s, health_snapshot) probe option \<Rightarrow> bool \<Rightarrow>
    ('s, component_health) probe" where
  "lifecycle_health name verdict p required s =
     map_probe (\<lambda>h. \<lparr>ch_name = name, ch_healthy = verdict h, ch_required = required,
         ch_detail = lifecycle_state_to_string (hs_state h) @ '': '' @ hs_detail h\<rparr>)
       (case p of None \<Rightarrow> P_value (stopped_health ''lifecycle probe missing'') | Some f \<Rightarrow> f s)"

definition register_lifecycle_probe :: "string \<Rightarrow> ('s, health_snapshot) probe option \<Rightarrow> bool \<Rightarrow> 's admin_service \<Rightarrow> 's admin_service" where
  "register_lifecycle_probe name p required = add_component \<lparr>rg_name = name,
     rg_health_probe = Some (lifecycle_health name hs_live p required),
     rg_readiness_probe = Some (lifecycle_health name hs_ready p required)\<rparr>"

definition clear_components :: "'s admin_service \<Rightarrow> 's admin_service" where
  "clear_components a = a\<lparr>as_components := []\<rparr>"

definition component_count :: "'s admin_service \<Rightarrow> nat" where
  "component_count a = length (as_components a)"

text \<open>One component: what its probe says, or an unhealthy required component when it raises.\<close>

definition run_probe :: "string \<Rightarrow> component_health probe_result \<Rightarrow> component_health" where
  "run_probe name r = (case r of
       P_value c \<Rightarrow> (if ch_name c = [] then c\<lparr>ch_name := name\<rparr> else c)
     | P_raise ex \<Rightarrow> \<lparr>ch_name = name, ch_healthy = False, ch_required = True, ch_detail = ex\<rparr>
     | P_raise_unknown \<Rightarrow> \<lparr>ch_name = name, ch_healthy = False, ch_required = True,
         ch_detail = ''unknown health probe failure''\<rparr>)"

definition probe_of :: "bool \<Rightarrow> 's registered_component \<Rightarrow> ('s, component_health) probe option" where
  "probe_of for_readiness c = (if for_readiness then rg_readiness_probe c else rg_health_probe c)"

fun evaluate_components :: "bool \<Rightarrow> 's \<Rightarrow> 's registered_component list \<Rightarrow> bool \<times> component_health list \<Rightarrow>
    bool \<times> component_health list" where
  "evaluate_components for_readiness s [] acc = acc"
| "evaluate_components for_readiness s (c # cs) (healthy, out) =
     (case probe_of for_readiness c of
        None \<Rightarrow> evaluate_components for_readiness s cs (healthy, out)
      | Some p \<Rightarrow> (let h = run_probe (rg_name c) (p s) in
          evaluate_components for_readiness s cs
            (if ch_required h \<and> \<not> ch_healthy h then False else healthy, out @ [h])))"

definition evaluate_admin :: "bool \<Rightarrow> int \<Rightarrow> 's \<Rightarrow> 's admin_service \<Rightarrow> health_response" where
  "evaluate_admin for_readiness now_ns s a =
     (case evaluate_components for_readiness s (as_components a) (True, []) of
        (healthy, out) \<Rightarrow> \<lparr>hr_healthy = healthy, hr_role = as_role a, hr_version = as_version a,
          hr_uptime_s = cdiv (now_ns - as_started_at_ns a) 1000000000, hr_components = out\<rparr>)"

definition admin_health :: "int \<Rightarrow> 's \<Rightarrow> 's admin_service \<Rightarrow> health_response" where
  "admin_health = evaluate_admin False"

definition admin_readiness :: "int \<Rightarrow> 's \<Rightarrow> 's admin_service \<Rightarrow> health_response" where
  "admin_readiness = evaluate_admin True"

subsection \<open>The endpoint\<close>

record endpoint_response =
  er_status_code :: int
  er_content_type :: string
  er_body :: string

definition json_escape :: "string \<Rightarrow> string" where
  "json_escape s = concat (map escape_char s)"

definition json_string :: "string \<Rightarrow> string" where
  "json_string s = [CHR 0x22] @ json_escape s @ [CHR 0x22]"

definition json_key :: "string \<Rightarrow> string" where
  "json_key k = [CHR 0x22] @ k @ [CHR 0x22] @ '':''"

definition json_bool :: "bool \<Rightarrow> string" where
  "json_bool b = (if b then ''true'' else ''false'')"

definition component_json :: "component_health \<Rightarrow> string" where
  "component_json c = ''{'' @ json_key ''name'' @ json_string (ch_name c) @
     '','' @ json_key ''healthy'' @ json_bool (ch_healthy c) @ '','' @ json_key ''required'' @ json_bool (ch_required c) @
     '','' @ json_key ''detail'' @ json_string (ch_detail c) @ ''}''"

fun components_json :: "component_health list \<Rightarrow> string" where
  "components_json [] = []"
| "components_json [c] = component_json c"
| "components_json (c # d # cs) = component_json c @ '','' @ components_json (d # cs)"

definition serialize_health_json :: "health_response \<Rightarrow> string" where
  "serialize_health_json h = ''{'' @ json_key ''healthy'' @ json_bool (hr_healthy h) @
     '','' @ json_key ''role'' @ json_string (hr_role h) @ '','' @ json_key ''version'' @ json_string (hr_version h) @
     '','' @ json_key ''uptime_s'' @ show_int (hr_uptime_s h) @
     '','' @ json_key ''components'' @ ''['' @ components_json (hr_components h) @ '']}''"

definition health_endpoint_response :: "health_response \<Rightarrow> endpoint_response" where
  "health_endpoint_response h = \<lparr>er_status_code = (if hr_healthy h then 200 else 503),
     er_content_type = ''application/json'', er_body = serialize_health_json h\<rparr>"

definition endpoint_health :: "int \<Rightarrow> 's \<Rightarrow> 's admin_service \<Rightarrow> endpoint_response" where
  "endpoint_health now_ns s a = health_endpoint_response (admin_health now_ns s a)"

definition endpoint_readiness :: "int \<Rightarrow> 's \<Rightarrow> 's admin_service \<Rightarrow> endpoint_response" where
  "endpoint_readiness now_ns s a = health_endpoint_response (admin_readiness now_ns s a)"

definition endpoint_metrics :: "metrics \<Rightarrow> endpoint_response" where
  "endpoint_metrics mx = \<lparr>er_status_code = 200, er_content_type = ''text/plain; version=0.0.4'',
     er_body = export_text mx\<rparr>"

definition status_ok :: "int \<Rightarrow> bool" where
  "status_ok code = (code \<ge> 200 \<and> code < 300)"

subsection \<open>HTTP\<close>

record http_request =
  hq_method :: string
  hq_path :: string
  hq_accept :: string

definition http_request_default :: http_request where
  "http_request_default = \<lparr>hq_method = ''GET'', hq_path = ''/health'', hq_accept = ''application/json''\<rparr>"

record http_routes =
  ht_health_path :: string
  ht_health_alias_path :: string
  ht_readiness_path :: string
  ht_readiness_alias_path :: string
  ht_metrics_path :: string

definition http_routes_default :: http_routes where
  "http_routes_default = \<lparr>ht_health_path = ''/health'', ht_health_alias_path = ''/healthz'',
     ht_readiness_path = ''/ready'', ht_readiness_alias_path = ''/readyz'', ht_metrics_path = ''/metrics''\<rparr>"

record http_response =
  hp_status_code :: int
  hp_reason_phrase :: string
  hp_content_type :: string
  hp_body :: string
  hp_headers :: "(string \<times> string) list"

definition is_health_path :: "string \<Rightarrow> http_routes \<Rightarrow> bool" where
  "is_health_path path r = (path = ht_health_path r \<or> path = ht_health_alias_path r)"

definition is_readiness_path :: "string \<Rightarrow> http_routes \<Rightarrow> bool" where
  "is_readiness_path path r = (path = ht_readiness_path r \<or> path = ht_readiness_alias_path r)"

definition is_metrics_path :: "string \<Rightarrow> http_routes \<Rightarrow> bool" where
  "is_metrics_path path r = (path = ht_metrics_path r)"

definition method_can_route :: "string \<Rightarrow> bool" where
  "method_can_route m = (m = ''GET'' \<or> m = ''HEAD'')"

definition add_standard_headers :: "http_response \<Rightarrow> http_response" where
  "add_standard_headers r = r\<lparr>hp_headers := hp_headers r @ [(''Content-Type'', hp_content_type r),
     (''Content-Length'', show_nat (length (hp_body r))), (''Cache-Control'', ''no-store'')]\<rparr>"

definition reason_phrase_for_status :: "int \<Rightarrow> string" where
  "reason_phrase_for_status code =
     (if code = 200 then ''OK'' else if code = 404 then ''Not Found'' else if code = 408 then ''Request Timeout''
      else if code = 405 then ''Method Not Allowed'' else if code = 413 then ''Payload Too Large''
      else if code = 503 then ''Service Unavailable'' else ''Unknown'')"

definition plain_response :: "int \<Rightarrow> string \<Rightarrow> string \<Rightarrow> bool \<Rightarrow> http_response" where
  "plain_response code content_type body include_body = \<lparr>hp_status_code = code,
     hp_reason_phrase = reason_phrase_for_status code, hp_content_type = content_type,
     hp_body = (if include_body then body else []), hp_headers = []\<rparr>"

definition json_error :: "string \<Rightarrow> string" where
  "json_error message = ''{'' @ json_key ''error'' @ [CHR 0x22] @ message @ [CHR 0x22] @ ''}''"

definition endpoint_to_http :: "endpoint_response \<Rightarrow> bool \<Rightarrow> http_response" where
  "endpoint_to_http r include_body =
     add_standard_headers (plain_response (er_status_code r) (er_content_type r) (er_body r) include_body)"

definition not_found :: "bool \<Rightarrow> http_response" where
  "not_found include_body =
     add_standard_headers (plain_response 404 ''application/json'' (json_error ''not found'') include_body)"

definition method_not_allowed :: "bool \<Rightarrow> http_response" where
  "method_not_allowed include_body =
     (let r = add_standard_headers (plain_response 405 ''application/json'' (json_error ''method not allowed'') include_body)
      in r\<lparr>hp_headers := hp_headers r @ [(''Allow'', ''GET, HEAD'')]\<rparr>)"

definition handle_http :: "int \<Rightarrow> 's \<Rightarrow> metrics \<Rightarrow> http_routes \<Rightarrow> 's admin_service \<Rightarrow> http_request \<Rightarrow> http_response" where
  "handle_http now_ns s mx routes a q =
     (let include_body = (hq_method q \<noteq> ''HEAD'') in
      if \<not> method_can_route (hq_method q) then method_not_allowed include_body
      else if is_health_path (hq_path q) routes then endpoint_to_http (endpoint_health now_ns s a) include_body
      else if is_readiness_path (hq_path q) routes then endpoint_to_http (endpoint_readiness now_ns s a) include_body
      else if is_metrics_path (hq_path q) routes then endpoint_to_http (endpoint_metrics mx) include_body
      else not_found include_body)"

definition crlf :: string where
  "crlf = [CHR 0x0D, CHR 0x0A]"

definition serialize_http_response :: "http_response \<Rightarrow> string" where
  "serialize_http_response r = ''HTTP/1.1 '' @ show_int (hp_status_code r) @ '' '' @ hp_reason_phrase r @ crlf @
     concat (map (\<lambda>(name, v). name @ '': '' @ v @ crlf) (hp_headers r)) @ crlf @ hp_body r"

subsection \<open>Dependency health\<close>

record dependency_health =
  dh_name :: string
  dh_healthy :: bool
  dh_detail :: string

type_synonym 's dependency_registry = "(string, ('s, dependency_health) probe option) umap"

definition register_source :: "string \<Rightarrow> ('s, dependency_health) probe option \<Rightarrow> 's dependency_registry \<Rightarrow> 's dependency_registry" where
  "register_source name p reg = um_put name p reg"

definition check_dependency :: "string \<Rightarrow> 's \<Rightarrow> 's dependency_registry \<Rightarrow> dependency_health probe_result" where
  "check_dependency name s reg = (case map_of reg name of
       Some (Some p) \<Rightarrow> map_probe (\<lambda>d. if dh_name d = [] then d\<lparr>dh_name := name\<rparr> else d) (p s)
     | _ \<Rightarrow> P_value \<lparr>dh_name = name, dh_healthy = False, dh_detail = ''dependency health source not registered''\<rparr>)"

definition readiness_component :: "string \<Rightarrow> 's \<Rightarrow> 's dependency_registry \<Rightarrow> component_health probe_result" where
  "readiness_component name s reg = map_probe (\<lambda>d. \<lparr>ch_name = dh_name d, ch_healthy = dh_healthy d,
     ch_required = True, ch_detail = dh_detail d\<rparr>) (check_dependency name s reg)"

definition source_count :: "'s dependency_registry \<Rightarrow> nat" where
  "source_count reg = length reg"

definition verdict_health :: "string \<Rightarrow> bool \<Rightarrow> string \<Rightarrow> string \<Rightarrow> dependency_health" where
  "verdict_health name ok good bad = \<lparr>dh_name = name, dh_healthy = ok, dh_detail = (if ok then good else bad)\<rparr>"

definition build_flag_dependency_health :: "string \<Rightarrow> bool \<Rightarrow> dependency_health" where
  "build_flag_dependency_health name enabled = verdict_health name enabled
     ''production adapter enabled'' ''production adapter required but not enabled in this build''"

definition kafka_producer_health :: "bool \<Rightarrow> dependency_health" where
  "kafka_producer_health ok = verdict_health ''kafka'' ok ''kafka producer connected'' ''kafka producer disconnected''"

definition kafka_consumer_health :: "bool \<Rightarrow> dependency_health" where
  "kafka_consumer_health ok = verdict_health ''kafka'' ok ''kafka consumer connected'' ''kafka consumer disconnected''"

definition redis_health :: "redis \<Rightarrow> dependency_health" where
  "redis_health r = verdict_health ''redis'' (ping r) ''redis ping ok'' ''redis ping failed''"

definition postgis_health :: "bool \<Rightarrow> dependency_health" where
  "postgis_health reachable = verdict_health ''postgis'' reachable ''postgis ping ok'' ''postgis ping failed''"

definition h3_health :: "double probe_result \<Rightarrow> dependency_health" where
  "h3_health edge = (case edge of
       P_value edge_m \<Rightarrow> verdict_health ''h3'' (dlt (Fin 0) edge_m) ''h3 index ready'' ''h3 index returned invalid edge length''
     | P_raise ex \<Rightarrow> \<lparr>dh_name = ''h3'', dh_healthy = False, dh_detail = ''h3 health check failed: '' @ ex\<rparr>
     | P_raise_unknown \<Rightarrow> \<lparr>dh_name = ''h3'', dh_healthy = False, dh_detail = ''h3 health check failed''\<rparr>)"

record build_flags =
  bf_kafka :: bool
  bf_redis :: bool
  bf_postgis :: bool
  bf_h3 :: bool

definition default_dependency_registry :: "build_flags \<Rightarrow> 's dependency_registry" where
  "default_dependency_registry b =
     register_source ''h3'' (Some (\<lambda>_. P_value (build_flag_dependency_health ''h3'' (bf_h3 b))))
    (register_source ''postgis'' (Some (\<lambda>_. P_value (build_flag_dependency_health ''postgis'' (bf_postgis b))))
    (register_source ''redis'' (Some (\<lambda>_. P_value (build_flag_dependency_health ''redis'' (bf_redis b))))
    (register_source ''kafka'' (Some (\<lambda>_. P_value (build_flag_dependency_health ''kafka'' (bf_kafka b)))) [])))"

subsection \<open>The verdict of an evaluation\<close>

text \<open>What one component contributes: nothing without a probe, an answer otherwise.\<close>

definition component_answer :: "bool \<Rightarrow> 's \<Rightarrow> 's registered_component \<Rightarrow> component_health option" where
  "component_answer for_readiness s c = map_option (\<lambda>p. run_probe (rg_name c) (p s)) (probe_of for_readiness c)"

lemma evaluate_components_run:
  "evaluate_components for_readiness s cs (healthy, out) =
    (let answers = List.map_filter (component_answer for_readiness s) cs in
     (healthy \<and> list_all (\<lambda>h. ch_healthy h \<or> \<not> ch_required h) answers, out @ answers))"
  by (induction cs arbitrary: healthy out)
     (auto simp: map_filter_simps component_answer_def Let_def split: option.splits)

lemma evaluate_admin_run:
  "hr_components (evaluate_admin rd now s a) = List.map_filter (component_answer rd s) (as_components a)"
  "hr_healthy (evaluate_admin rd now s a) \<longleftrightarrow>
     list_all (\<lambda>h. ch_healthy h \<or> \<not> ch_required h) (List.map_filter (component_answer rd s) (as_components a))"
  "hr_role (evaluate_admin rd now s a) = as_role a" "hr_version (evaluate_admin rd now s a) = as_version a"
  by (simp_all add: evaluate_admin_def evaluate_components_run Let_def)

text \<open>A component stands in the way when its probe raises or reports a required failure.\<close>

definition blocks :: "bool \<Rightarrow> 's \<Rightarrow> 's registered_component \<Rightarrow> bool" where
  "blocks for_readiness s c = (case probe_of for_readiness c of None \<Rightarrow> False
     | Some p \<Rightarrow> (case p s of P_value h \<Rightarrow> ch_required h \<and> \<not> ch_healthy h | _ \<Rightarrow> True))"

lemma healthy_iff_unblocked:
  "hr_healthy (evaluate_admin rd now s a) \<longleftrightarrow> \<not> list_ex (blocks rd s) (as_components a)"
proof -
  have "list_all (\<lambda>h. ch_healthy h \<or> \<not> ch_required h) (List.map_filter (component_answer rd s) cs) \<longleftrightarrow>
      \<not> list_ex (blocks rd s) cs" for cs
    by (induction cs)
       (auto simp: map_filter_simps component_answer_def blocks_def run_probe_def split: option.splits probe_result.splits)
  then show ?thesis by (simp add: evaluate_admin_run)
qed

text \<open>A readiness or health request is answered with 200 exactly when no component stands in the
  way: no probe raises and none reports a required component as unhealthy; otherwise with 503.
  The body lists one answer per component that has a probe, in the order of registration, and a
  probe that raised is listed as an unhealthy required component under its registered name.\<close>

lemma health_verdict:
  "let r = endpoint_to_http (if rd then endpoint_readiness now s a else endpoint_health now s a) True;
       h = evaluate_admin rd now s a in
    hp_status_code r = (if list_ex (blocks rd s) (as_components a) then 503 else 200) \<and>
    hp_body r = serialize_health_json h \<and>
    hr_healthy h = (hp_status_code r = 200) \<and>
    hr_components h = map (\<lambda>(name, p). run_probe name (p s))
      (List.map_filter (\<lambda>c. map_option (Pair (rg_name c)) (probe_of rd c)) (as_components a)) \<and>
    hr_role h = as_role a \<and> hr_version h = as_version a"
proof -
  have "List.map_filter (component_answer rd s) cs = map (\<lambda>(name, p). run_probe name (p s))
      (List.map_filter (\<lambda>c. map_option (Pair (rg_name c)) (probe_of rd c)) cs)" for cs
    by (induction cs) (auto simp: map_filter_simps component_answer_def split: option.splits)
  then show ?thesis
    by (simp add: Let_def endpoint_to_http_def add_standard_headers_def plain_response_def endpoint_health_def
        endpoint_readiness_def admin_health_def admin_readiness_def health_endpoint_response_def
        healthy_iff_unblocked evaluate_admin_run(1,3,4))
qed

subsection \<open>Routing\<close>

text \<open>Every request is routed by its method and path alone: anything but GET and HEAD is refused
  with 405 and names the two in an Allow header; a health, readiness or metrics path goes to its
  endpoint, in this order, and everything else is answered with 404. The answer to HEAD is that
  to GET without the body, Content-Length is the length of the body that is sent, and nothing is
  to be cached.\<close>

lemma http_routing:
  "let r = handle_http now s mx routes a q; get = handle_http now s mx routes a (q\<lparr>hq_method := ''GET''\<rparr>);
       routed = (hq_method q = ''GET'' \<or> hq_method q = ''HEAD'') in
    hp_status_code r = (if \<not> routed then 405
      else if hq_path q \<in> {ht_health_path routes, ht_health_alias_path routes}
        then (if hr_healthy (admin_health now s a) then 200 else 503)
      else if hq_path q \<in> {ht_readiness_path routes, ht_readiness_alias_path routes}
        then (if hr_healthy (admin_readiness now s a) then 200 else 503)
      else if hq_path q = ht_metrics_path routes then 200 else 404) \<and>
    (if hq_method q = ''HEAD'' then hp_body r = [] \<and> hp_status_code r = hp_status_code get \<and>
        hp_content_type r = hp_content_type get
     else hp_body r \<noteq> []) \<and>
    hp_reason_phrase r = reason_phrase_for_status (hp_status_code r) \<and>
    map_of (hp_headers r) ''Content-Length'' = Some (show_nat (length (hp_body r))) \<and>
    map_of (hp_headers r) ''Cache-Control'' = Some ''no-store'' \<and>
    map_of (hp_headers r) ''Allow'' = (if routed then None else Some ''GET, HEAD'')"
proof -
  have "export_text mx \<noteq> []" by (simp add: export_text_def)
  then show ?thesis
    by (cases "hq_method q = ''HEAD''"; cases "hq_method q = ''GET''";
        cases "is_health_path (hq_path q) routes"; cases "is_readiness_path (hq_path q) routes";
        cases "is_metrics_path (hq_path q) routes")
       (simp_all add: Let_def handle_http_def method_can_route_def method_not_allowed_def not_found_def
        endpoint_to_http_def add_standard_headers_def plain_response_def endpoint_health_def endpoint_readiness_def
        endpoint_metrics_def health_endpoint_response_def serialize_health_json_def json_error_def
        is_health_path_def is_readiness_path_def is_metrics_path_def)
qed
subsection \<open>Reading the document\<close>

text \<open>A reader of exactly the documents the endpoint writes; it is what a monitoring client relies on.\<close>

definition expect :: "string \<Rightarrow> string \<Rightarrow> string option" where
  "expect p s = (if take (length p) s = p then Some (drop (length p) s) else None)"

lemma expect_append [simp]: "expect p (p @ s) = Some s"
  by (simp add: expect_def)

definition read_json_string :: "string \<Rightarrow> (string \<times> string) option" where
  "read_json_string s = Option.bind (expect [CHR 0x22] s) read_quoted"

definition read_json_bool :: "string \<Rightarrow> (bool \<times> string) option" where
  "read_json_bool s = (case expect ''true'' s of Some r \<Rightarrow> Some (True, r)
     | None \<Rightarrow> map_option (Pair False) (expect ''false'' s))"

definition read_json_int :: "string \<Rightarrow> (int \<times> string) option" where
  "read_json_int s = (case read_int (takeWhile (\<lambda>c. c \<noteq> CHR '','') s) of
     Some (neg, n, []) \<Rightarrow> Some (if neg then - int n else int n, dropWhile (\<lambda>c. c \<noteq> CHR '','') s) | _ \<Rightarrow> None)"

lemma read_json_string_append [simp]: "read_json_string (json_string v @ s) = Some (v, s)"
  by (simp add: read_json_string_def json_string_def json_escape_def expect_def read_quoted_escape)

lemma read_json_bool_append [simp]: "read_json_bool (json_bool b @ s) = Some (b, s)"
  by (simp add: read_json_bool_def json_bool_def expect_def)

lemma read_json_int_append [simp]: "read_json_int (show_int i @ CHR '','' # s) = Some (i, CHR '','' # s)"
proof -
  have "c \<noteq> CHR '',''" if "c \<in> set (show_int i)" for c
    using that set_show_int [of i] by (auto simp: is_digit_def code_of_def)
  then have parts: "takeWhile (\<lambda>c. c \<noteq> CHR '','') (show_int i @ CHR '','' # s) = show_int i"
    "dropWhile (\<lambda>c. c \<noteq> CHR '','') (show_int i @ CHR '','' # s) = CHR '','' # s"
    by (simp_all add: takeWhile_append2 dropWhile_append2)
  show ?thesis unfolding read_json_int_def parts by (simp add: show_int_def)
qed

definition read_component :: "string \<Rightarrow> (component_health \<times> string) option" where
  "read_component s =
     Option.bind (expect (''{'' @ json_key ''name'') s) (\<lambda>s. Option.bind (read_json_string s) (\<lambda>(name, s).
     Option.bind (expect ('','' @ json_key ''healthy'') s) (\<lambda>s. Option.bind (read_json_bool s) (\<lambda>(healthy, s).
     Option.bind (expect ('','' @ json_key ''required'') s) (\<lambda>s. Option.bind (read_json_bool s) (\<lambda>(required, s).
     Option.bind (expect ('','' @ json_key ''detail'') s) (\<lambda>s. Option.bind (read_json_string s) (\<lambda>(detail, s).
     Option.bind (expect ''}'' s) (\<lambda>s. Some (\<lparr>ch_name = name, ch_healthy = healthy, ch_required = required,
       ch_detail = detail\<rparr>, s))))))))))"

lemma expect_append3: "expect (p @ q) (p @ q @ s) = Some s"
  by (simp add: expect_def)

lemma read_component_append: "read_component (component_json c @ s) = Some (c, s)"
  unfolding read_component_def component_json_def append_assoc
  by (simp only: expect_append3 expect_append Option.bind.bind_lunit read_json_string_append read_json_bool_append
      prod.case) simp

text \<open>The components up to the closing bracket; the number bounds how many there can be.\<close>

fun read_components :: "nat \<Rightarrow> string \<Rightarrow> (component_health list \<times> string) option" where
  "read_components 0 s = None"
| "read_components (Suc n) s =
     (case expect '']'' s of Some r \<Rightarrow> Some ([], r)
      | None \<Rightarrow> Option.bind (read_component s) (\<lambda>(c, s).
          (case expect '','' s of Some r \<Rightarrow> map_option (\<lambda>(cs, r). (c # cs, r)) (read_components n r)
           | None \<Rightarrow> map_option (\<lambda>(cs, r). (c # cs, r)) (read_components n s))))"

definition read_health_json :: "string \<Rightarrow> health_response option" where
  "read_health_json s =
     Option.bind (expect (''{'' @ json_key ''healthy'') s) (\<lambda>s. Option.bind (read_json_bool s) (\<lambda>(healthy, s).
     Option.bind (expect ('','' @ json_key ''role'') s) (\<lambda>s. Option.bind (read_json_string s) (\<lambda>(role, s).
     Option.bind (expect ('','' @ json_key ''version'') s) (\<lambda>s. Option.bind (read_json_string s) (\<lambda>(version, s).
     Option.bind (expect ('','' @ json_key ''uptime_s'') s) (\<lambda>s. Option.bind (read_json_int s) (\<lambda>(uptime, s).
     Option.bind (expect ('','' @ json_key ''components'' @ ''['') s) (\<lambda>s.
     Option.bind (read_components (length s) s) (\<lambda>(cs, s). if s \<noteq> ''}'' then None else
       Some \<lparr>hr_healthy = healthy, hr_role = role, hr_version = version, hr_uptime_s = uptime, hr_components = cs\<rparr>))))))))))"

lemma component_json_start: "component_json c @ s = CHR ''{'' # tl (component_json c) @ s"
  by (simp add: component_json_def)

lemma read_components_append:
  "length cs < n \<Longrightarrow> read_components n (components_json cs @ CHR '']'' # s) = Some (cs, s)"
proof (induction cs arbitrary: n rule: components_json.induct)
  case 1
  then show ?case by (cases n) (simp_all add: expect_def)
next
  case (2 c)
  then obtain m where n: "n = Suc (Suc m)" by (cases n; cases "n - 1") auto
  have "expect '']'' (component_json c @ CHR '']'' # s) = None"
    unfolding component_json_start by (simp add: expect_def)
  then show ?case by (simp add: n read_component_append expect_def)
next
  case (3 c d cs)
  then obtain m where n: "n = Suc m" "length (d # cs) < m" by (cases n) simp_all
  let ?rest = "components_json (d # cs) @ CHR '']'' # s"
  have "expect '']'' (component_json c @ CHR '','' # ?rest) = None"
    unfolding component_json_start by (simp add: expect_def)
  then show ?case using 3(1) [OF n(2)]
    by (simp add: n(1) read_component_append expect_def)
qed

lemma components_json_length: "length cs \<le> length (components_json cs)"
  by (induction cs rule: components_json.induct) (simp_all add: component_json_def)

text \<open>C39: The health document can be read back: a reader recovers from it the verdict, the role, the
  version, the uptime and every component with its flags and its detail, whatever characters the
  strings contain; so two different answers never have the same document.\<close>

theorem health_json_roundtrip:
  "read_health_json (serialize_health_json h) = Some h"
proof -
  have cs: "read_components (length (components_json cs @ '']}'')) (components_json cs @ CHR '']'' # ''}'') = Some (cs, ''}'')" for cs
    using components_json_length [of cs] by (intro read_components_append) simp
  have int: "read_json_int (show_int i @ '','' @ s) = Some (i, '','' @ s)" for i s
    using read_json_int_append [of i s] by simp
  have key: "expect ('','' @ k @ ''['') ('','' @ k @ ''['' @ s) = Some s" for k s by (simp add: expect_def)
  show ?thesis
    unfolding read_health_json_def serialize_health_json_def append_assoc
    by (simp only: expect_append3 key Option.bind.bind_lunit read_json_string_append read_json_bool_append int prod.case)
       (use cs [of "hr_components h"] in simp)
qed

end
