(* ===== verification/Http_Server.thy ===== *)
theory Http_Server
  imports Admin
begin

text \<open>
  The admin socket server, the metrics exporter and the request loop of \<open>runtime/\<close>: parsing of
  the request, reading it within its limits, answering it, the life cycle of the two servers
  and their accept loops.

  The operating system is a parameter. \<open>listen_outcome\<close> says how the calls that open the
  listening socket end, with the text of \<open>strerror\<close> where one fails; \<open>socket_ops\<close> are the calls
  on a client connection of type \<open>'c\<close>. What is relied on is \<open>ops_ok\<close>: a \<open>recv\<close> that yields
  data yields at least one byte and no more than asked for, and \<open>send\<close> accepts no more bytes
  than it is given; every call returns (nothing bounds the time a \<open>send\<close> may block). The reading and
  the sending loop are given as fuel the number of bytes they may move; with \<open>ops_ok\<close> it never runs
  out. A \<open>send\<close> to a peer that has reset the connection raises \<open>SIGPIPE\<close>, which nothing in the program
  handles: \<open>op_pipe\<close> says of a connection that this has happened, and the process ends.

  The two classes repeat the same code for the sockets; here it is one definition that both use.
  The accept thread is the list of what \<open>accept\<close> returns until the server is stopped.
\<close>

subsection \<open>Parsing a request\<close>

text \<open>\<open>std::string::find\<close>.\<close>

fun find_sub :: "string \<Rightarrow> string \<Rightarrow> nat option" where
  "find_sub p [] = (if p = [] then Some 0 else None)"
| "find_sub p (c # s) = (if take (length p) (c # s) = p then Some 0 else map_option Suc (find_sub p s))"

definition upto_sub :: "string \<Rightarrow> string \<Rightarrow> string" where
  "upto_sub p s = (case find_sub p s of None \<Rightarrow> s | Some i \<Rightarrow> take i s)"

text \<open>Method and path: the text before the first and between the first two blanks of the first line.\<close>

definition request_line_parts :: "string \<Rightarrow> (string \<times> string) option" where
  "request_line_parts raw =
     (let line = upto_sub crlf raw in
      case find_sub '' '' line of None \<Rightarrow> None
      | Some i \<Rightarrow> (let rest = drop (i + 1) line in
          case find_sub '' '' rest of None \<Rightarrow> None | Some j \<Rightarrow> Some (take i line, take j rest)))"

definition accept_value :: "string \<Rightarrow> string option" where
  "accept_value raw = (case find_sub ''Accept:'' raw of None \<Rightarrow> None
     | Some i \<Rightarrow> Some (upto_sub crlf (dropWhile (\<lambda>c. c = CHR '' '') (drop (i + 7) raw))))"

definition parse_admin_request :: "string \<Rightarrow> http_request" where
  "parse_admin_request raw = (case request_line_parts raw of
       None \<Rightarrow> http_request_default\<lparr>hq_method := ''GET'', hq_path := ''/health''\<rparr>
     | Some (method, path) \<Rightarrow> http_request_default\<lparr>hq_method := method,
         hq_path := (if path = [] then ''/health'' else path),
         hq_accept := (case accept_value raw of None \<Rightarrow> hq_accept http_request_default | Some a \<Rightarrow> a)\<rparr>)"

definition parse_scrape_request :: "string \<Rightarrow> http_request" where
  "parse_scrape_request raw = (case request_line_parts raw of
       None \<Rightarrow> http_request_default\<lparr>hq_method := ''GET'', hq_path := ''/''\<rparr>
     | Some (method, path) \<Rightarrow> http_request_default\<lparr>hq_method := method,
         hq_path := (if path = [] then ''/'' else path)\<rparr>)"

subsection \<open>Reading and sending\<close>

datatype recv_result = R_data string | R_end | R_would_block

record 'c socket_ops =
  op_timeout :: "int \<Rightarrow> 'c \<Rightarrow> string option \<times> 'c"
  op_recv :: "nat \<Rightarrow> 'c \<Rightarrow> recv_result \<times> 'c"
  op_send :: "string \<Rightarrow> 'c \<Rightarrow> int \<times> 'c"
  op_pipe :: "'c \<Rightarrow> bool"

definition end_of_headers :: string where
  "end_of_headers = crlf @ crlf"

definition is_complete :: "string \<Rightarrow> bool" where
  "is_complete raw = (find_sub end_of_headers raw \<noteq> None)"

text \<open>The bytes read, and whether reading ended in a timeout.\<close>

fun read_loop :: "'c socket_ops \<Rightarrow> nat \<Rightarrow> nat \<Rightarrow> string \<Rightarrow> 'c \<Rightarrow> (string \<times> bool \<times> 'c) option" where
  "read_loop ops fuel max_bytes raw c =
     (if is_complete raw \<or> length raw \<ge> max_bytes then Some (raw, False, c)
      else case fuel of 0 \<Rightarrow> None
      | Suc n \<Rightarrow> (case op_recv ops (min (max_bytes - length raw) 1024) c of
          (R_data d, c') \<Rightarrow> read_loop ops n max_bytes (raw @ d) c'
        | (R_end, c') \<Rightarrow> Some (raw, False, c')
        | (R_would_block, c') \<Rightarrow> Some (raw, True, c')))"

declare read_loop.simps [simp del]

definition read_request :: "'c socket_ops \<Rightarrow> nat \<Rightarrow> 'c \<Rightarrow> (string \<times> bool \<times> 'c) option" where
  "read_request ops max_bytes c = read_loop ops max_bytes max_bytes [] c"

fun send_loop :: "'c socket_ops \<Rightarrow> nat \<Rightarrow> string \<Rightarrow> nat \<Rightarrow> 'c \<Rightarrow> (nat \<times> 'c) option" where
  "send_loop ops fuel data sent c =
     (if sent \<ge> length data then Some (sent, c)
      else case fuel of 0 \<Rightarrow> None
      | Suc n \<Rightarrow> (case op_send ops (drop sent data) c of
          (written, c') \<Rightarrow> if written \<le> 0 then Some (sent, c') else send_loop ops n data (sent + nat written) c'))"

declare send_loop.simps [simp del]

definition send_all :: "'c socket_ops \<Rightarrow> string \<Rightarrow> 'c \<Rightarrow> (nat \<times> 'c) option" where
  "send_all ops data c = send_loop ops (length data) data 0 c"

subsection \<open>The request loop\<close>

record request_loop =
  rl_running :: bool
  rl_lifecycle :: lifecycle_state
  rl_handled_requests :: nat

definition new_request_loop :: request_loop where
  "new_request_loop = \<lparr>rl_running = False, rl_lifecycle = Stopped, rl_handled_requests = 0\<rparr>"

definition start_request_loop :: "request_loop \<Rightarrow> request_loop" where
  "start_request_loop l = (if rl_running l then l else l\<lparr>rl_running := True, rl_lifecycle := Ready\<rparr>)"

definition stop_request_loop :: "request_loop \<Rightarrow> request_loop" where
  "stop_request_loop l = (if \<not> rl_running l then l else l\<lparr>rl_running := False, rl_lifecycle := Stopped\<rparr>)"

definition request_loop_is_ready :: "request_loop \<Rightarrow> bool" where
  "request_loop_is_ready l = (rl_lifecycle l = Ready)"

definition request_loop_health :: "request_loop \<Rightarrow> health_snapshot" where
  "request_loop_health l = (case rl_lifecycle l of
       Ready \<Rightarrow> ready_health ''admin request loop accepting requests''
     | Starting \<Rightarrow> starting_health ''admin request loop starting''
     | Draining \<Rightarrow> draining_health ''admin request loop draining''
     | LFailed \<Rightarrow> failed_health ''admin request loop failed''
     | Stopped \<Rightarrow> stopped_health ''admin request loop stopped'')"

definition loop_stopped_response :: http_response where
  "loop_stopped_response =
     add_standard_headers (plain_response 503 ''application/json'' (json_error ''admin request loop stopped'') True)"

text \<open>\<open>runtime_.handle_admin_http\<close> is the argument \<open>h\<close>.\<close>

definition loop_handle :: "(http_request \<Rightarrow> http_response) \<Rightarrow> http_request \<Rightarrow> request_loop \<Rightarrow> http_response \<times> request_loop" where
  "loop_handle h q l = (if \<not> rl_running l then (loop_stopped_response, l)
     else (h q, l\<lparr>rl_handled_requests := rl_handled_requests l + 1\<rparr>))"

subsection \<open>Answering a client\<close>

definition close_connection :: "http_response \<Rightarrow> http_response" where
  "close_connection r = r\<lparr>hp_headers := hp_headers r @ [(''Connection'', ''close'')]\<rparr>"

definition error_response :: "int \<Rightarrow> string \<Rightarrow> bool \<Rightarrow> http_response" where
  "error_response code message include_body =
     close_connection (add_standard_headers (plain_response code ''application/json'' (json_error message) include_body))"

definition text_response :: "string \<Rightarrow> bool \<Rightarrow> http_response" where
  "text_response body include_body =
     close_connection (add_standard_headers (plain_response 200 ''text/plain; version=0.0.4'' body include_body))"

record socket_endpoint =
  ep_listen_addr :: string
  ep_port :: int
  ep_backlog :: int
  ep_read_timeout_ms :: int
  ep_max_request_bytes :: nat

record metrics_endpoint = socket_endpoint +
  ep_path :: string

record access_log_entry =
  al_method :: string
  al_path :: string
  al_status_code :: int
  al_request_bytes :: nat
  al_response_bytes :: nat
  al_timed_out :: bool
  al_payload_too_large :: bool

definition too_large :: "nat \<Rightarrow> string \<Rightarrow> bool" where
  "too_large max_bytes raw = (\<not> is_complete raw \<and> length raw \<ge> max_bytes)"

definition admin_answer :: "(http_request \<Rightarrow> http_response) \<Rightarrow> nat \<Rightarrow> string \<Rightarrow> bool \<Rightarrow> request_loop \<Rightarrow> http_response \<times> request_loop" where
  "admin_answer h max_bytes raw timed_out l =
     (if too_large max_bytes raw then (error_response 413 ''admin request too large'' True, l)
      else if \<not> is_complete raw \<and> timed_out then (error_response 408 ''admin request timeout'' True, l)
      else loop_handle h (parse_admin_request raw) l)"

definition access_entry :: "nat \<Rightarrow> string \<Rightarrow> bool \<Rightarrow> http_response \<Rightarrow> nat \<Rightarrow> access_log_entry" where
  "access_entry max_bytes raw timed_out r sent = (let q = parse_admin_request raw in
     \<lparr>al_method = hq_method q, al_path = hq_path q, al_status_code = hp_status_code r,
      al_request_bytes = length raw, al_response_bytes = sent,
      al_timed_out = (timed_out \<and> \<not> is_complete raw), al_payload_too_large = too_large max_bytes raw\<rparr>)"

text \<open>A client of the admin server: \<open>None\<close> when the fuel runs out, an exception when the read
  timeout cannot be set. Both an exception, which nothing catches in the thread, and the signal end
  the process.\<close>

definition killed_by_sigpipe :: string where
  "killed_by_sigpipe = ''SIGPIPE''"

definition admin_client :: "'c socket_ops \<Rightarrow> 'e socket_endpoint_scheme \<Rightarrow> (http_request \<Rightarrow> http_response) \<Rightarrow> 'c \<Rightarrow> request_loop \<Rightarrow>
    ((access_log_entry \<times> http_response \<times> request_loop) exc \<times> 'c) option" where
  "admin_client ops ep h c l =
     (case op_timeout ops (ep_read_timeout_ms ep) c of
        (Some err, c1) \<Rightarrow> Some (Inl (''admin socket client read timeout failed: '' @ err), c1)
      | (None, c1) \<Rightarrow> Option.bind (read_request ops (ep_max_request_bytes ep) c1) (\<lambda>(raw, timed_out, c2).
          (case admin_answer h (ep_max_request_bytes ep) raw timed_out l of
             (r, l') \<Rightarrow> Option.bind (send_all ops (serialize_http_response r) c2) (\<lambda>(sent, c3).
               if op_pipe ops c3 then Some (Inl killed_by_sigpipe, c3)
               else Some (Inr (access_entry (ep_max_request_bytes ep) raw timed_out r sent, r, l'), c3)))))"

definition scrape_answer :: "metrics \<Rightarrow> nat \<Rightarrow> string \<Rightarrow> string \<Rightarrow> bool \<Rightarrow> http_response" where
  "scrape_answer mx max_bytes path raw timed_out =
     (let q = parse_scrape_request raw; include_body = (hq_method q \<noteq> ''HEAD'') in
      if too_large max_bytes raw then error_response 413 ''metrics request too large'' include_body
      else if \<not> is_complete raw \<and> timed_out then error_response 408 ''metrics request timeout'' include_body
      else if hq_method q \<noteq> ''GET'' \<and> hq_method q \<noteq> ''HEAD'' then error_response 405 ''method not allowed'' include_body
      else if hq_path q \<noteq> path then error_response 404 ''metrics path not found'' include_body
      else text_response (export_text mx) include_body)"

definition scrape_client :: "'c socket_ops \<Rightarrow> metrics_endpoint \<Rightarrow> metrics \<Rightarrow> 'c \<Rightarrow> (http_response exc \<times> 'c) option" where
  "scrape_client ops ep mx c =
     (case op_timeout ops (ep_read_timeout_ms ep) c of
        (Some err, c1) \<Rightarrow> Some (Inl (''metrics exporter client read timeout failed: '' @ err), c1)
      | (None, c1) \<Rightarrow> Option.bind (read_request ops (ep_max_request_bytes ep) c1) (\<lambda>(raw, timed_out, c2).
          let r = scrape_answer mx (ep_max_request_bytes ep) (ep_path ep) raw timed_out in
          Option.bind (send_all ops (serialize_http_response r) c2) (\<lambda>(sent, c3).
            if op_pipe ops c3 then Some (Inl killed_by_sigpipe, c3) else Some (Inr r, c3))))"

definition make_access_log_event :: "access_log_entry \<Rightarrow> log_event" where
  "make_access_log_event e = make_log_event ''info'' ''admin'' ''admin.socket_request'' ''admin socket request handled''
     (map (\<lambda>(k, v). \<lparr>lf_key = k, lf_value = v\<rparr>)
       [(''method'', if al_method e = [] then ''unknown'' else al_method e),
        (''path'', if al_path e = [] then ''unknown'' else al_path e),
        (''status'', show_int (al_status_code e)),
        (''request_bytes'', show_nat (al_request_bytes e)),
        (''response_bytes'', show_nat (al_response_bytes e)),
        (''timed_out'', json_bool (al_timed_out e)),
        (''payload_too_large'', json_bool (al_payload_too_large e))])"

subsection \<open>The accept threads\<close>

datatype 'c accept_result = A_client 'c | A_retry | A_closed

text \<open>An exception of a client leaves the accept thread and ends the process. \<open>at_closed\<close> are the client
  connections as they were closed, in order.\<close>

record 'c admin_thread =
  at_loop :: request_loop
  at_accepted :: nat
  at_log :: "access_log_entry list"
  at_closed :: "'c list"

fun admin_accept_loop :: "'c socket_ops \<Rightarrow> 'e socket_endpoint_scheme \<Rightarrow> (http_request \<Rightarrow> http_response) \<Rightarrow> bool \<Rightarrow>
    'c accept_result list \<Rightarrow> 'c admin_thread \<Rightarrow> (unit exc \<times> 'c admin_thread) option" where
  "admin_accept_loop ops ep h sink [] t = Some (Inr (), t)"
| "admin_accept_loop ops ep h sink (A_closed # as) t = Some (Inr (), t)"
| "admin_accept_loop ops ep h sink (A_retry # as) t = admin_accept_loop ops ep h sink as t"
| "admin_accept_loop ops ep h sink (A_client c # as) t =
     (let t1 = t\<lparr>at_accepted := at_accepted t + 1\<rparr> in
      Option.bind (admin_client ops ep h c (at_loop t1)) (\<lambda>(r, c'). case r of
        Inl ex \<Rightarrow> Some (Inl ex, t1)
      | Inr (e, _, l) \<Rightarrow> admin_accept_loop ops ep h sink as
          (t1\<lparr>at_loop := l, at_log := (if sink then at_log t1 @ [e] else at_log t1), at_closed := at_closed t1 @ [c']\<rparr>)))"

fun scrape_accept_loop :: "'c socket_ops \<Rightarrow> metrics_endpoint \<Rightarrow> metrics \<Rightarrow> 'c accept_result list \<Rightarrow> nat \<Rightarrow>
    (unit exc \<times> nat) option" where
  "scrape_accept_loop ops ep mx [] n = Some (Inr (), n)"
| "scrape_accept_loop ops ep mx (A_closed # as) n = Some (Inr (), n)"
| "scrape_accept_loop ops ep mx (A_retry # as) n = scrape_accept_loop ops ep mx as n"
| "scrape_accept_loop ops ep mx (A_client c # as) n =
     Option.bind (scrape_client ops ep mx c) (\<lambda>(r, c'). case r of
        Inl ex \<Rightarrow> Some (Inl ex, n + 1)
      | Inr _ \<Rightarrow> scrape_accept_loop ops ep mx as (n + 1))"

subsection \<open>Starting and stopping the servers\<close>

record listen_outcome =
  lo_socket :: "string + int"
  lo_reuse :: "string option"
  lo_addr_ok :: bool
  lo_bind :: "string option"
  lo_listen :: "string option"
  lo_name :: "string + int"

record 'e http_server =
  sv_running :: bool
  sv_lifecycle :: lifecycle_state
  sv_listen_fd :: int
  sv_bound_port :: int
  sv_endpoint :: 'e

definition new_http_server :: "'e \<Rightarrow> 'e http_server" where
  "new_http_server ep = \<lparr>sv_running = False, sv_lifecycle = Stopped, sv_listen_fd = -1, sv_bound_port = 0, sv_endpoint = ep\<rparr>"

definition close_fd :: "'e http_server \<Rightarrow> 'e http_server" where
  "close_fd s = (if sv_listen_fd s \<ge> 0 then s\<lparr>sv_listen_fd := -1\<rparr> else s)"

definition endpoint_detail :: "socket_endpoint \<Rightarrow> string" where
  "endpoint_detail ep = ''listen_addr='' @ ep_listen_addr ep @ '' port='' @ show_int (ep_port ep) @
     '' backlog='' @ show_int (ep_backlog ep)"

definition metrics_endpoint_detail :: "metrics_endpoint \<Rightarrow> string" where
  "metrics_endpoint_detail ep = ''listen_addr='' @ ep_listen_addr ep @ '' port='' @ show_int (ep_port ep) @
     '' path='' @ ep_path ep @ '' backlog='' @ show_int (ep_backlog ep)"

definition socket_error :: "string \<Rightarrow> string \<Rightarrow> string \<Rightarrow> string" where
  "socket_error operation detail err = operation @ '' failed for '' @ detail @ '': '' @ err"

definition fail_start :: "string \<Rightarrow> 'e http_server \<Rightarrow> unit exc \<times> 'e http_server" where
  "fail_start message s = (Inl message, close_fd (s\<lparr>sv_lifecycle := LFailed\<rparr>))"

text \<open>The calls from \<open>socket\<close> to \<open>getsockname\<close>; the first that fails ends the start.\<close>

definition open_listener :: "string \<Rightarrow> string \<Rightarrow> listen_outcome \<Rightarrow> 'e http_server \<Rightarrow> unit exc \<times> 'e http_server" where
  "open_listener server detail os s0 =
     (case lo_socket os of
        Inl err \<Rightarrow> (Inl (socket_error (server @ '' create'') detail err), s0\<lparr>sv_listen_fd := -1, sv_lifecycle := LFailed\<rparr>)
      | Inr fd \<Rightarrow> (let s = s0\<lparr>sv_listen_fd := fd\<rparr> in
         case lo_reuse os of Some err \<Rightarrow> fail_start (socket_error (server @ '' setsockopt'') detail err) s
       | None \<Rightarrow> if \<not> lo_addr_ok os
           then fail_start (server @ '' listen_addr must be an IPv4 address: '' @ detail) s
           else (case lo_bind os of Some err \<Rightarrow> fail_start (socket_error (server @ '' bind'') detail err) s
       | None \<Rightarrow> (case lo_listen os of Some err \<Rightarrow> fail_start (socket_error (server @ '' listen'') detail err) s
       | None \<Rightarrow> (case lo_name os of Inl err \<Rightarrow> fail_start (socket_error (server @ '' getsockname'') detail err) s
       | Inr port \<Rightarrow> (Inr (), s\<lparr>sv_bound_port := port\<rparr>))))))"

definition start_admin_server :: "socket_endpoint \<Rightarrow> listen_outcome \<Rightarrow> socket_endpoint http_server \<times> request_loop \<Rightarrow>
    unit exc \<times> socket_endpoint http_server \<times> request_loop" where
  "start_admin_server ep os = (\<lambda>(s, l).
     if sv_running s then (Inr (), s, l)
     else if ep_read_timeout_ms ep \<le> 0 then (Inl ''admin socket read_timeout_ms must be positive'', s, l)
     else if ep_max_request_bytes ep = 0 then (Inl ''admin socket max_request_bytes must be positive'', s, l)
     else case open_listener ''admin socket'' (endpoint_detail ep) os (s\<lparr>sv_endpoint := ep, sv_lifecycle := Starting\<rparr>) of
        (Inl ex, s') \<Rightarrow> (Inl ex, s', l)
      | (Inr _, s') \<Rightarrow> (Inr (), s'\<lparr>sv_running := True, sv_lifecycle := Ready\<rparr>, start_request_loop l))"

definition start_metrics_exporter :: "metrics_endpoint \<Rightarrow> listen_outcome \<Rightarrow> metrics_endpoint http_server \<Rightarrow>
    unit exc \<times> metrics_endpoint http_server" where
  "start_metrics_exporter ep os s =
     (if sv_running s then (Inr (), s)
      else if ep_path ep = [] \<or> hd (ep_path ep) \<noteq> CHR ''/''
        then (Inl (''metrics exporter path must start with '' @ [CHR 0x27, CHR ''/'', CHR 0x27] @ '': '' @ ep_path ep), s)
      else if ep_read_timeout_ms ep \<le> 0 then (Inl ''metrics exporter read_timeout_ms must be positive'', s)
      else if ep_max_request_bytes ep = 0 then (Inl ''metrics exporter max_request_bytes must be positive'', s)
      else case open_listener ''metrics exporter'' (metrics_endpoint_detail ep) os
               (s\<lparr>sv_endpoint := ep, sv_lifecycle := Starting\<rparr>) of
        (Inl ex, s') \<Rightarrow> (Inl ex, s')
      | (Inr _, s') \<Rightarrow> (Inr (), s'\<lparr>sv_running := True, sv_lifecycle := Ready\<rparr>))"

definition stop_server :: "'e http_server \<Rightarrow> 'e http_server" where
  "stop_server s = (if \<not> sv_running s \<and> sv_listen_fd s < 0 then s
     else close_fd (s\<lparr>sv_running := False\<rparr>)\<lparr>sv_lifecycle := Stopped\<rparr>)"

definition stop_admin_server :: "socket_endpoint http_server \<times> request_loop \<Rightarrow> socket_endpoint http_server \<times> request_loop" where
  "stop_admin_server = (\<lambda>(s, l). if \<not> sv_running s \<and> sv_listen_fd s < 0 then (s, l)
     else (stop_server s, stop_request_loop l))"

definition server_health :: "string \<Rightarrow> string \<Rightarrow> 'e http_server \<Rightarrow> health_snapshot" where
  "server_health server serving s = (case sv_lifecycle s of
       Ready \<Rightarrow> ready_health (server @ '' accepting '' @ serving)
     | Starting \<Rightarrow> starting_health (server @ '' starting'')
     | Draining \<Rightarrow> draining_health (server @ '' draining'')
     | LFailed \<Rightarrow> failed_health (server @ '' failed'')
     | Stopped \<Rightarrow> stopped_health (server @ '' stopped''))"

definition admin_server_health :: "socket_endpoint http_server \<Rightarrow> health_snapshot" where
  "admin_server_health = server_health ''admin socket'' ''connections''"

definition metrics_exporter_health :: "metrics_endpoint http_server \<Rightarrow> health_snapshot" where
  "metrics_exporter_health = server_health ''metrics exporter'' ''scrapes''"

subsection \<open>Finding text\<close>

lemma find_sub_Some:
  "find_sub p s = Some i \<Longrightarrow> take (length p) (drop i s) = p \<and> i \<le> length s"
  by (induction p s arbitrary: i rule: find_sub.induct) (auto split: if_splits)

lemma find_char:
  "find_sub [d] s = (if d \<in> set s then Some (length (takeWhile (\<lambda>c. c \<noteq> d) s)) else None)"
  by (induction s) auto

lemma find_char_append: "d \<notin> set u \<Longrightarrow> find_sub [d] (u @ d # s) = Some (length u)"
  by (induction u) auto

lemma take_append_length: "take (length u) (u @ s) = u" "drop (length u) (u @ s) = s" "drop (Suc (length u)) (u @ d # s) = s"
  by simp_all

lemma find_crlf_append: "CHR 0x0D \<notin> set u \<Longrightarrow> find_sub crlf (u @ crlf @ s) = Some (length u)"
  by (induction u) (auto simp: crlf_def)

lemma find_crlf_none: "CHR 0x0D \<notin> set u \<Longrightarrow> find_sub crlf u = None"
  by (induction u) (auto simp: crlf_def)

lemma upto_crlf: "CHR 0x0D \<notin> set u \<Longrightarrow> upto_sub crlf (u @ crlf @ s) = u" "CHR 0x0D \<notin> set u \<Longrightarrow> upto_sub crlf u = u"
  by (simp_all add: upto_sub_def find_crlf_append find_crlf_none)

lemma find_sub_step: "take (length p) (c # s) \<noteq> p \<Longrightarrow> find_sub p (c # s) = map_option Suc (find_sub p s)"
  by simp

text \<open>A text without a colon does not hide the header in what follows it.\<close>

lemma find_accept_append:
  assumes "CHR '':'' \<notin> set u"
  shows "find_sub ''Accept:'' (u @ crlf @ ''Accept:'' @ s) = Some (length u + 2)"
  using assms
proof (induction u)
  case Nil
  then show ?case by (simp add: crlf_def)
next
  case (Cons c u)
  have differ: "take (length ''Accept:'') (c # u @ crlf @ ''Accept:'' @ s) \<noteq> ''Accept:''"
  proof
    assume a: "take (length ''Accept:'') (c # u @ crlf @ ''Accept:'' @ s) = ''Accept:''"
    have "(c # u @ crlf @ ''Accept:'' @ s) ! 6 = take (length ''Accept:'') (c # u @ crlf @ ''Accept:'' @ s) ! 6"
      by (rule nth_take [symmetric]) simp
    also have "\<dots> = CHR '':''" unfolding a by simp
    finally have "(c # u @ crlf @ ''Accept:'' @ s) ! 6 = CHR '':''" .
    moreover have "(c # u @ crlf @ ''Accept:'' @ s) ! 6 \<noteq> CHR '':''"
    proof (cases "6 < length (c # u)")
      case True
      then have "(c # u @ crlf @ ''Accept:'' @ s) ! 6 = (c # u) ! 6" by (metis Cons_eq_appendI nth_append)
      then show ?thesis using Cons.prems True nth_mem by metis
    next
      case False
      then have "length u = 0 \<or> length u = 1 \<or> length u = 2 \<or> length u = 3 \<or> length u = 4 \<or> length u = 5"
        using False unfolding list.size by linarith
      then show ?thesis by (auto simp: crlf_def nth_append)
    qed
    ultimately show False by simp
  qed
  let ?rest = "crlf @ ''Accept:'' @ s"
  have "find_sub ''Accept:'' ((c # u) @ ?rest) = find_sub ''Accept:'' (c # u @ ?rest)"
    by (rule arg_cong) (rule append_Cons)
  also have "\<dots> = map_option Suc (find_sub ''Accept:'' (u @ ?rest))" by (rule find_sub_step [OF differ])
  also have "find_sub ''Accept:'' (u @ ?rest) = Some (length u + 2)" by (rule Cons.IH) (use Cons.prems in simp)
  also have "map_option Suc (Some (length u + 2)) = Some (length (c # u) + 2)" by simp
  finally show ?case .
qed

lemma request_line_parts_run:
  assumes "CHR '' '' \<notin> set method" "CHR '' '' \<notin> set path" "CHR 0x0D \<notin> set (method @ path @ version)"
  shows "request_line_parts (method @ '' '' @ path @ '' '' @ version @ crlf @ rest) = Some (method, path)"
proof -
  let ?line = "method @ CHR '' '' # path @ CHR '' '' # version"
  have "upto_sub crlf (?line @ crlf @ rest) = ?line" using assms(3) by (intro upto_crlf) auto
  then have "upto_sub crlf (method @ '' '' @ path @ '' '' @ version @ crlf @ rest) = ?line" by simp
  then show ?thesis
    by (simp add: request_line_parts_def Let_def find_char_append [OF assms(1)] find_char_append [OF assms(2)])
qed

lemma drop_header: "drop (length u + 2 + 7) (u @ crlf @ ''Accept:'' @ s) = s"
  by (simp add: crlf_def)

text \<open>A well-formed request is understood: from a request line of method, path and version and an
  Accept header the servers recover the method, the path (their default for an empty one) and,
  at the admin server, the accepted type, whatever follows.\<close>

lemma request_parsing:
  assumes "CHR '' '' \<notin> set method" "CHR '' '' \<notin> set path" "CHR 0x0D \<notin> set (method @ path @ version @ a)"
    and "CHR '':'' \<notin> set (method @ path @ version)" "takeWhile (\<lambda>c. c = CHR '' '') a = []"
  shows "let raw = method @ '' '' @ path @ '' '' @ version @ crlf @ ''Accept: '' @ a @ crlf @ rest in
    parse_admin_request raw = \<lparr>hq_method = method, hq_path = (if path = [] then ''/health'' else path), hq_accept = a\<rparr> \<and>
    parse_scrape_request raw = \<lparr>hq_method = method, hq_path = (if path = [] then ''/'' else path),
      hq_accept = ''application/json''\<rparr>"
proof -
  let ?line = "method @ '' '' @ path @ '' '' @ version"
  let ?raw = "method @ '' '' @ path @ '' '' @ version @ crlf @ ''Accept: '' @ a @ crlf @ rest"
  have line: "?raw = ?line @ crlf @ ''Accept:'' @ '' '' @ a @ crlf @ rest" by simp
  have parts: "request_line_parts ?raw = Some (method, path)"
    using assms(1-3) by (intro request_line_parts_run) simp_all
  have "find_sub ''Accept:'' ?raw = Some (length ?line + 2)"
    unfolding line using assms(4) by (intro find_accept_append) simp
  moreover have "drop (length ?line + 2 + 7) ?raw = '' '' @ a @ crlf @ rest"
    unfolding line by (rule drop_header)
  moreover have "dropWhile (\<lambda>c. c = CHR '' '') ('' '' @ a @ crlf @ rest) = a @ crlf @ rest"
    using assms(5) by (cases a) (auto simp: crlf_def split: if_splits)
  moreover have "upto_sub crlf (a @ crlf @ rest) = a" using assms(3) by (intro upto_crlf) simp
  ultimately have "accept_value ?raw = Some a" by (simp add: accept_value_def)
  then show ?thesis unfolding Let_def parse_admin_request_def parse_scrape_request_def parts
    by (simp add: http_request_default_def)
qed

subsection \<open>Requests are read within their limits\<close>

definition ops_ok :: "'c socket_ops \<Rightarrow> bool" where
  "ops_ok ops \<longleftrightarrow>
     (\<forall>n c d c'. 0 < n \<longrightarrow> op_recv ops n c = (R_data d, c') \<longrightarrow> d \<noteq> [] \<and> length d \<le> n) \<and>
     (\<forall>data c w c'. op_send ops data c = (w, c') \<longrightarrow> w \<le> int (length data))"

lemma ops_ok_recv:
  assumes "ops_ok ops" "0 < n" "op_recv ops n c = (R_data d, c')"
  shows "d \<noteq> []" "length d \<le> n"
  using assms unfolding ops_ok_def by blast+

lemma read_loop_ends:
  assumes "ops_ok ops" "max_bytes \<le> length raw + fuel" "length raw \<le> max_bytes"
  shows "\<exists>raw' t c'. read_loop ops fuel max_bytes raw c = Some (raw', t, c') \<and> length raw' \<le> max_bytes \<and>
    (t \<longrightarrow> \<not> is_complete raw' \<and> length raw' < max_bytes)"
  using assms(2,3)
proof (induction fuel arbitrary: raw c)
  case 0
  then show ?case by (auto simp: read_loop.simps [of ops 0])
next
  case (Suc n)
  show ?case
  proof (cases "is_complete raw \<or> length raw \<ge> max_bytes")
    case True
    then have "read_loop ops (Suc n) max_bytes raw c = Some (raw, False, c)" by (simp add: read_loop.simps)
    then show ?thesis using Suc.prems by auto
  next
    case False
    let ?n = "min (max_bytes - length raw) 1024"
    obtain r c' where r: "op_recv ops ?n c = (r, c')" by (cases "op_recv ops ?n c")
    show ?thesis
    proof (cases r)
      case (R_data d)
      have "0 < ?n" using False by simp
      then have d: "d \<noteq> []" "length d \<le> ?n" using ops_ok_recv [OF assms(1)] r R_data by blast+
      have "0 < length d" "length d \<le> max_bytes - length raw" using d by simp_all
      then have "max_bytes \<le> length (raw @ d) + n" "length (raw @ d) \<le> max_bytes"
        using Suc.prems False unfolding length_append by linarith+
      from Suc.IH [OF this, of c'] show ?thesis
        using False r unfolding R_data read_loop.simps [of ops "Suc n" max_bytes raw c] by simp
    next
      case R_end
      then show ?thesis using False r Suc.prems by (auto simp: read_loop.simps [of ops "Suc n"])
    next
      case R_would_block
      then show ?thesis using False r Suc.prems by (auto simp: read_loop.simps [of ops "Suc n"])
    qed
  qed
qed

lemma send_loop_ends:
  assumes "ops_ok ops" "length data \<le> sent + fuel" "sent \<le> length data"
  shows "\<exists>sent' c'. send_loop ops fuel data sent c = Some (sent', c') \<and> sent \<le> sent' \<and> sent' \<le> length data"
  using assms(2,3)
proof (induction fuel arbitrary: sent c)
  case 0
  then show ?case by (simp add: send_loop.simps)
next
  case (Suc n)
  show ?case
  proof (cases "sent \<ge> length data")
    case True
    then show ?thesis using Suc.prems by (simp add: send_loop.simps)
  next
    case False
    obtain w c' where w: "op_send ops (drop sent data) c = (w, c')" by (cases "op_send ops (drop sent data) c")
    then have le: "w \<le> int (length data - sent)" using assms(1) by (force simp: ops_ok_def)
    show ?thesis
    proof (cases "w \<le> 0")
      case True
      then show ?thesis using False w Suc.prems by (simp add: send_loop.simps [of ops "Suc n"])
    next
      case pos: False
      have "length data \<le> sent + nat w + n" "sent + nat w \<le> length data" using pos le Suc.prems False by linarith+
      from Suc.IH [OF this, of c'] show ?thesis
        using False w pos by (auto simp: send_loop.simps [of ops "Suc n"])
    qed
  qed
qed

text \<open>C38: A connection is served in bounded work: reading a request ends for every client, however it
  splits its bytes or stalls, with no more bytes than the limit; it ends in a timeout only when
  the request is neither complete nor too large; and sending an answer ends as well, with no more
  bytes than the answer has.\<close>

theorem request_io_bounded:
  assumes "ops_ok ops"
  shows "\<exists>raw t c'. read_request ops max_bytes c = Some (raw, t, c') \<and> length raw \<le> max_bytes \<and>
    (t \<longrightarrow> \<not> is_complete raw \<and> \<not> too_large max_bytes raw) \<and>
    (\<exists>sent c''. send_all ops data c' = Some (sent, c'') \<and> sent \<le> length data)"
proof -
  obtain raw t c' where r: "read_request ops max_bytes c = Some (raw, t, c')" "length raw \<le> max_bytes"
    "t \<longrightarrow> \<not> is_complete raw \<and> length raw < max_bytes"
    using read_loop_ends [OF assms, of max_bytes "[]" max_bytes c] by (auto simp: read_request_def)
  moreover obtain sent c'' where "send_all ops data c' = Some (sent, c'')" "sent \<le> length data"
    using send_loop_ends [OF assms, of data 0 "length data" c'] by (auto simp: send_all_def)
  ultimately show ?thesis by (intro exI conjI) (auto simp: too_large_def)
qed

text \<open>A client that sends its bytes in given pieces, then stalls, and takes every answer whole. Its state
  is what it has still to send and what it was sent.\<close>

definition scripted_client :: "(string list \<times> string) socket_ops" where
  "scripted_client = \<lparr>op_timeout = (\<lambda>ms c. (None, c)),
     op_recv = (\<lambda>n (c, got). case c of [] \<Rightarrow> (R_would_block, [], got) | d # ds \<Rightarrow>
        if d = [] then (R_end, ds, got) else (R_data (take n d), if length d \<le> n then ds else drop n d # ds, got)),
     op_send = (\<lambda>data (c, got). (int (length data), c, got @ data)), op_pipe = (\<lambda>c. False)\<rparr>"

lemma scripted_client_ok: "ops_ok scripted_client"
  by (auto simp: ops_ok_def scripted_client_def split: list.splits if_splits)

theorem request_io_bounded_witness:
  "\<exists>raw t c'. read_request scripted_client 8 ([''GET /'', ''health HTTP/1.1''], []) = Some (raw, t, c') \<and> length raw \<le> 8"
  using request_io_bounded [OF scripted_client_ok, of 8 "([''GET /'', ''health HTTP/1.1''], [])" "[]"] by blast

subsection \<open>The accept thread\<close>

text \<open>With a read timeout that can be set, every client is answered: once, in the order of arrival.\<close>

definition timeout_ok :: "'c socket_ops \<Rightarrow> int \<Rightarrow> bool" where
  "timeout_ok ops ms \<longleftrightarrow> (\<forall>c. fst (op_timeout ops ms c) = None)"

fun served_clients :: "'c accept_result list \<Rightarrow> 'c list" where
  "served_clients [] = []"
| "served_clients (A_closed # as) = []"
| "served_clients (A_retry # as) = served_clients as"
| "served_clients (A_client c # as) = c # served_clients as"

text \<open>What a connection delivers: \<open>received\<close> is what its peer was sent, which only \<open>send\<close> extends, by the
  bytes it accepts.\<close>

definition delivers :: "'c socket_ops \<Rightarrow> ('c \<Rightarrow> string) \<Rightarrow> bool" where
  "delivers ops received \<longleftrightarrow>
     (\<forall>ms c. received (snd (op_timeout ops ms c)) = received c) \<and>
     (\<forall>n c. received (snd (op_recv ops n c)) = received c) \<and>
     (\<forall>data c. received (snd (op_send ops data c)) = received c @ take (nat (fst (op_send ops data c))) data)"

text \<open>The response a client is due, by what is read of its request.\<close>

definition due_response :: "'c socket_ops \<Rightarrow> 'e socket_endpoint_scheme \<Rightarrow> (http_request \<Rightarrow> http_response) \<Rightarrow> bool \<Rightarrow> 'c \<Rightarrow>
    http_response option" where
  "due_response ops ep h running c =
     map_option (\<lambda>(raw, timed_out, _).
       if too_large (ep_max_request_bytes ep) raw then error_response 413 ''admin request too large'' True
       else if \<not> is_complete raw \<and> timed_out then error_response 408 ''admin request timeout'' True
       else if running then h (parse_admin_request raw) else loop_stopped_response)
     (read_request ops (ep_max_request_bytes ep) (snd (op_timeout ops (ep_read_timeout_ms ep) c)))"

text \<open>A client is answered: it was sent the text of its response, whole unless a \<open>send\<close> of the rest of it
  was refused.\<close>

definition answered :: "'c socket_ops \<Rightarrow> ('c \<Rightarrow> string) \<Rightarrow> http_response option \<Rightarrow> 'c \<Rightarrow> 'c \<Rightarrow> bool" where
  "answered ops received due c c' \<longleftrightarrow> (\<exists>r n. due = Some r \<and>
     received c' = received c @ take n (serialize_http_response r) \<and>
     (n < length (serialize_http_response r) \<longrightarrow>
       (\<exists>cx w. op_send ops (drop n (serialize_http_response r)) cx = (w, c') \<and> w \<le> 0)))"

lemma read_loop_received:
  assumes "delivers ops received" "read_loop ops fuel max_bytes raw c = Some (raw', t, c')"
  shows "received c' = received c"
  using assms(2)
proof (induction fuel arbitrary: raw c)
  case 0
  then show ?case by (simp add: read_loop.simps [of ops 0] split: if_splits)
next
  case (Suc n)
  obtain r c1 where r: "op_recv ops (min (max_bytes - length raw) 1024) c = (r, c1)" by fastforce
  have "received c1 = received c" using assms(1) r unfolding delivers_def by (metis snd_conv)
  then show ?case using Suc r
    by (cases r) (auto simp: read_loop.simps [of ops "Suc n"] split: if_splits)
qed

lemma send_loop_delivers:
  assumes "ops_ok ops" "delivers ops received" "sent \<le> length data" "send_loop ops fuel data sent c = Some (sent', c')"
  shows "sent \<le> sent' \<and> sent' \<le> length data \<and> received c' = received c @ take (sent' - sent) (drop sent data) \<and>
    (sent' < length data \<longrightarrow> (\<exists>cx w. op_send ops (drop sent' data) cx = (w, c') \<and> w \<le> 0))"
  using assms(3,4)
proof (induction fuel arbitrary: sent c)
  case 0
  then show ?case by (simp add: send_loop.simps split: if_splits)
next
  case (Suc n)
  show ?case
  proof (cases "sent \<ge> length data")
    case True
    then show ?thesis using Suc.prems by (simp add: send_loop.simps)
  next
    case False
    obtain w c1 where w: "op_send ops (drop sent data) c = (w, c1)" by (cases "op_send ops (drop sent data) c")
    have le: "w \<le> int (length data - sent)" using assms(1) w by (force simp: ops_ok_def)
    have rec: "received c1 = received c @ take (nat w) (drop sent data)"
      using assms(2) w unfolding delivers_def by (metis fst_conv snd_conv)
    show ?thesis
    proof (cases "w \<le> 0")
      case True
      then have "sent' = sent" "c' = c1" using False w Suc.prems by (simp_all add: send_loop.simps [of ops "Suc n"])
      then show ?thesis using True w rec False by auto
    next
      case pos: False
      have run: "send_loop ops n data (sent + nat w) c1 = Some (sent', c')"
        using False w pos Suc.prems by (simp add: send_loop.simps [of ops "Suc n"])
      have "sent + nat w \<le> length data" using le pos False by linarith
      from Suc.IH [OF this run] have ih: "sent + nat w \<le> sent'" "sent' \<le> length data"
        "received c' = received c1 @ take (sent' - (sent + nat w)) (drop (sent + nat w) data)"
        "sent' < length data \<longrightarrow> (\<exists>cx w. op_send ops (drop sent' data) cx = (w, c') \<and> w \<le> 0)" by auto
      have "take (sent' - sent) (drop sent data) =
          take (nat w) (drop sent data) @ take (sent' - (sent + nat w)) (drop (sent + nat w) data)"
        using ih(1) take_add [of "nat w" "sent' - (sent + nat w)" "drop sent data"] by (simp add: add.commute)
      then show ?thesis using ih rec by simp
    qed
  qed
qed

lemma admin_client_answers:
  assumes "ops_ok ops" "timeout_ok ops (ep_read_timeout_ms ep)" "delivers ops received"
  shows "\<exists>raw timed_out sent r l' c'. admin_client ops ep h c l =
      Some (if op_pipe ops c' then Inl killed_by_sigpipe
            else Inr (access_entry (ep_max_request_bytes ep) raw timed_out r sent, r, l'), c') \<and>
    admin_answer h (ep_max_request_bytes ep) raw timed_out l = (r, l') \<and>
    length raw \<le> ep_max_request_bytes ep \<and>
    answered ops received (due_response ops ep h (rl_running l) c) c c'"
proof -
  obtain c1 where t: "op_timeout ops (ep_read_timeout_ms ep) c = (None, c1)"
    using assms(2) unfolding timeout_ok_def by (metis prod.collapse)
  obtain raw timed_out c2 where r: "read_request ops (ep_max_request_bytes ep) c1 = Some (raw, timed_out, c2)"
    "length raw \<le> ep_max_request_bytes ep"
    using read_loop_ends [OF assms(1), of "ep_max_request_bytes ep" "[]" "ep_max_request_bytes ep" c1]
    by (auto simp: read_request_def)
  obtain resp l' where a: "admin_answer h (ep_max_request_bytes ep) raw timed_out l = (resp, l')"
    by (cases "admin_answer h (ep_max_request_bytes ep) raw timed_out l")
  let ?text = "serialize_http_response resp"
  obtain sent c3 where s: "send_loop ops (length ?text) ?text 0 c2 = Some (sent, c3)"
    using send_loop_ends [OF assms(1), of ?text 0 "length ?text" c2] by auto
  have run: "admin_client ops ep h c l = Some (if op_pipe ops c3 then Inl killed_by_sigpipe
      else Inr (access_entry (ep_max_request_bytes ep) raw timed_out resp sent, resp, l'), c3)"
    by (simp add: admin_client_def t r(1) a s send_all_def)
  have "received c1 = received c" using assms(3) t unfolding delivers_def by (metis snd_conv)
  moreover have "received c2 = received c1"
    using read_loop_received [OF assms(3)] r(1) unfolding read_request_def by blast
  moreover have "due_response ops ep h (rl_running l) c = Some resp"
    using a by (auto simp: due_response_def t r(1) admin_answer_def loop_handle_def split: if_splits)
  ultimately have "answered ops received (due_response ops ep h (rl_running l) c) c c3"
    using send_loop_delivers [OF assms(1,3) _ s] by (auto simp: answered_def)
  then show ?thesis using run a r(2) by blast
qed

text \<open>What an entry of the access log says of the answer it reports.\<close>

definition entry_ok :: "nat \<Rightarrow> access_log_entry \<Rightarrow> bool" where
  "entry_ok max_bytes e \<longleftrightarrow> al_request_bytes e \<le> max_bytes \<and>
     (al_payload_too_large e \<longrightarrow> al_status_code e = 413) \<and>
     (al_timed_out e \<and> \<not> al_payload_too_large e \<longrightarrow> al_status_code e = 408)"

lemma admin_answer_entry:
  assumes "admin_answer h max_bytes raw timed_out l = (r, l')" "length raw \<le> max_bytes"
  shows "entry_ok max_bytes (access_entry max_bytes raw timed_out r sent)"
    "rl_running l' = rl_running l"
    "rl_handled_requests l' = rl_handled_requests l +
       (if rl_running l \<and> \<not> too_large max_bytes raw \<and> (is_complete raw \<or> \<not> timed_out) then 1 else 0)"
  using assms
  by (auto simp: admin_answer_def loop_handle_def entry_ok_def access_entry_def Let_def error_response_def
      close_connection_def add_standard_headers_def plain_response_def split: if_splits)

text \<open>C37: The accept thread answers every client that connects until the server is stopped, each once
  and in order. A client is sent the text of the response it is due (413 for a request that is too
  large, 408 for one that stalls, otherwise what the handler says of the request that was read), the
  whole text unless a send is refused; with a sink there is one entry of the access log for each,
  which keeps the request limit and reports 413 or 408. No client makes the thread raise or hang
  within the calls that return. Only a send to a connection that was reset ends the process, by
  \<open>SIGPIPE\<close>; the clients before it were answered.\<close>

theorem every_client_answered:
  assumes "ops_ok ops" "timeout_ok ops (ep_read_timeout_ms ep)" "delivers ops received"
  shows "\<exists>r t' new closed. admin_accept_loop ops ep h sink as t = Some (r, t') \<and>
    at_closed t' = at_closed t @ closed \<and>
    list_all2 (\<lambda>c. answered ops received (due_response ops ep h (rl_running (at_loop t)) c) c)
      (take (length closed) (served_clients as)) closed \<and>
    (case r of Inr _ \<Rightarrow> length closed = length (served_clients as)
     | Inl ex \<Rightarrow> ex = killed_by_sigpipe \<and> (\<exists>c. op_pipe ops c) \<and> length closed < length (served_clients as)) \<and>
    at_accepted t' = at_accepted t + length closed + (if is_ok r then 0 else 1) \<and>
    at_log t' = at_log t @ new \<and> length new = (if sink then length closed else 0) \<and>
    list_all (entry_ok (ep_max_request_bytes ep)) new \<and>
    rl_running (at_loop t') = rl_running (at_loop t) \<and>
    rl_handled_requests (at_loop t') \<le> rl_handled_requests (at_loop t) + length closed"
proof (induction as arbitrary: t rule: served_clients.induct)
  case (4 c as)
  let ?t1 = "t\<lparr>at_accepted := at_accepted t + 1\<rparr>"
  obtain raw timed_out sent r l' c' where run: "admin_client ops ep h c (at_loop ?t1) =
      Some (if op_pipe ops c' then Inl killed_by_sigpipe
            else Inr (access_entry (ep_max_request_bytes ep) raw timed_out r sent, r, l'), c')"
    and a: "admin_answer h (ep_max_request_bytes ep) raw timed_out (at_loop ?t1) = (r, l')"
      "length raw \<le> ep_max_request_bytes ep"
    and sent: "answered ops received (due_response ops ep h (rl_running (at_loop ?t1)) c) c c'"
    using admin_client_answers [OF assms, of h c "at_loop ?t1"] by blast
  show ?case
  proof (cases "op_pipe ops c'")
    case True
    then have "admin_accept_loop ops ep h sink (A_client c # as) t = Some (Inl killed_by_sigpipe, ?t1)"
      using run by (simp add: Let_def)
    then show ?thesis using True
      by (intro exI [of _ "Inl killed_by_sigpipe"] exI [of _ ?t1] exI [of _ "[]"]) (auto simp del: admin_accept_loop.simps)
  next
    case False
    let ?e = "access_entry (ep_max_request_bytes ep) raw timed_out r sent"
    let ?t2 = "?t1\<lparr>at_loop := l', at_log := (if sink then at_log ?t1 @ [?e] else at_log ?t1), at_closed := at_closed ?t1 @ [c']\<rparr>"
    note E = admin_answer_entry [OF a]
    have step: "admin_accept_loop ops ep h sink (A_client c # as) t = admin_accept_loop ops ep h sink as ?t2"
      using run False by (simp add: Let_def)
    have handled: "rl_handled_requests l' \<le> rl_handled_requests (at_loop t) + 1" "rl_running l' = rl_running (at_loop t)"
      using E(2,3) by simp_all
    obtain r' t' new closed where ih: "admin_accept_loop ops ep h sink as ?t2 = Some (r', t')"
      "at_closed t' = at_closed t @ c' # closed"
      "list_all2 (\<lambda>c. answered ops received (due_response ops ep h (rl_running (at_loop t)) c) c)
        (take (length closed) (served_clients as)) closed"
      "case r' of Inr _ \<Rightarrow> length closed = length (served_clients as)
       | Inl ex \<Rightarrow> ex = killed_by_sigpipe \<and> (\<exists>c. op_pipe ops c) \<and> length closed < length (served_clients as)"
      "at_accepted t' = at_accepted t + 1 + length closed + (if is_ok r' then 0 else 1)"
      "at_log t' = at_log ?t2 @ new" "length new = (if sink then length closed else 0)"
      "list_all (entry_ok (ep_max_request_bytes ep)) new"
      "rl_running (at_loop t') = rl_running (at_loop t)"
      "rl_handled_requests (at_loop t') \<le> rl_handled_requests l' + length closed"
      using "4.IH" [of ?t2] handled(2) by auto
    have run': "admin_accept_loop ops ep h sink (A_client c # as) t = Some (r', t')" unfolding step by (rule ih(1))
    show ?thesis
      using run' ih(2-10) E(1) [of sent] handled(1) sent
      by (intro exI [of _ r'] exI [of _ t'] exI [of _ "(if sink then [?e] else []) @ new"] exI [of _ "c' # closed"])
        (auto simp del: admin_accept_loop.simps split: sum.splits)
  qed
next
  case (3 as)
  show ?case using "3.IH" [of t] by (simp only: admin_accept_loop.simps served_clients.simps)
next
  case 1
  show ?case by (intro exI [of _ "Inr ()"] exI [of _ t] exI [of _ "[]"]) simp
next
  case (2 as)
  show ?case by (intro exI [of _ "Inr ()"] exI [of _ t] exI [of _ "[]"]) simp
qed

definition sample_endpoint :: socket_endpoint where
  "sample_endpoint = \<lparr>ep_listen_addr = ''127.0.0.1'', ep_port = 0, ep_backlog = 16, ep_read_timeout_ms = 1000,
     ep_max_request_bytes = 64\<rparr>"

theorem every_client_answered_witness:
  "\<exists>t'. admin_accept_loop scripted_client sample_endpoint (\<lambda>q. loop_stopped_response) True
      [A_client ([], []), A_retry, A_client ([[]], []), A_closed]
      \<lparr>at_loop = new_request_loop, at_accepted = 0, at_log = [], at_closed = []\<rparr> = Some (Inr (), t') \<and>
    length (at_log t') = 2 \<and> length (at_closed t') = 2"
proof -
  have hyps: "timeout_ok scripted_client (ep_read_timeout_ms sample_endpoint)" "delivers scripted_client snd"
    "\<not> op_pipe scripted_client c" for c
    by (auto simp: timeout_ok_def delivers_def scripted_client_def split: list.splits)
  let ?as = "[A_client ([], []), A_retry, A_client ([[]], []), A_closed] :: (string list \<times> string) accept_result list"
  let ?t = "\<lparr>at_loop = new_request_loop, at_accepted = 0, at_log = [], at_closed = []\<rparr> :: (string list \<times> string) admin_thread"
  obtain r t' new closed where run: "admin_accept_loop scripted_client sample_endpoint (\<lambda>q. loop_stopped_response) True ?as ?t = Some (r, t')"
    "at_closed t' = at_closed ?t @ closed" "at_log t' = at_log ?t @ new" "length new = length closed"
    "case r of Inr _ \<Rightarrow> length closed = length (served_clients ?as)
     | Inl ex \<Rightarrow> ex = killed_by_sigpipe \<and> (\<exists>c. op_pipe scripted_client c) \<and> length closed < length (served_clients ?as)"
    using every_client_answered [OF scripted_client_ok hyps(1,2), of "\<lambda>q. loop_stopped_response" True ?as ?t]
    unfolding if_True by (elim exE conjE) (rule that)
  have "r = Inr ()" "length closed = 2" using run(5) hyps(3) by (auto split: sum.splits)
  then show ?thesis using run(1-4) by (simp del: admin_accept_loop.simps)
qed

subsection \<open>The life cycle of a server\<close>

text \<open>\<open>socket\<close> answers a descriptor that is not negative.\<close>

definition outcome_ok :: "listen_outcome \<Rightarrow> bool" where
  "outcome_ok os \<longleftrightarrow> (\<forall>fd. lo_socket os = Inr fd \<longrightarrow> fd \<ge> 0)"

definition listening :: "listen_outcome \<Rightarrow> bool" where
  "listening os \<longleftrightarrow> (\<exists>fd port. lo_socket os = Inr fd \<and> lo_reuse os = None \<and> lo_addr_ok os \<and> lo_bind os = None \<and>
     lo_listen os = None \<and> lo_name os = Inr port)"

lemma open_listener_result:
  assumes "outcome_ok os"
  shows "if listening os
     then \<exists>fd port. 0 \<le> fd \<and> lo_name os = Inr port \<and>
       open_listener server detail os s = (Inr (), s\<lparr>sv_listen_fd := fd, sv_bound_port := port\<rparr>)
     else \<exists>ex. open_listener server detail os s = (Inl ex, s\<lparr>sv_listen_fd := -1, sv_lifecycle := LFailed\<rparr>)"
  using assms
  by (auto simp: listening_def outcome_ok_def open_listener_def fail_start_def close_fd_def Let_def
      split: sum.splits option.splits)

definition server_ok :: "'e http_server \<Rightarrow> bool" where
  "server_ok s \<longleftrightarrow> (if sv_running s then 0 \<le> sv_listen_fd s \<and> sv_lifecycle s = Ready
     else sv_listen_fd s = -1 \<and> (sv_lifecycle s = Stopped \<or> sv_lifecycle s = LFailed))"

definition admin_server_ok :: "socket_endpoint http_server \<times> request_loop \<Rightarrow> bool" where
  "admin_server_ok x \<longleftrightarrow> server_ok (fst x) \<and> rl_running (snd x) = sv_running (fst x) \<and>
     rl_lifecycle (snd x) = (if sv_running (fst x) then Ready else Stopped)"

lemma stop_server_ok: "server_ok s \<Longrightarrow> server_ok (stop_server s) \<and> \<not> sv_running (stop_server s)"
  by (auto simp: server_ok_def stop_server_def close_fd_def)

lemma start_exporter_ok:
  assumes "outcome_ok os" "server_ok s"
  shows "server_ok (snd (start_metrics_exporter ep os s)) \<and>
    (is_ok (fst (start_metrics_exporter ep os s)) = sv_running (snd (start_metrics_exporter ep os s)))"
proof -
  let ?s = "s\<lparr>sv_endpoint := ep, sv_lifecycle := Starting\<rparr>"
  show ?thesis
    using open_listener_result [OF assms(1), of "''metrics exporter''" "metrics_endpoint_detail ep" ?s] assms(2)
    by (cases "listening os") (auto simp: start_metrics_exporter_def server_ok_def)
qed

lemma start_admin_ok:
  assumes "outcome_ok os" "admin_server_ok x"
  shows "admin_server_ok (snd (start_admin_server ep os x)) \<and>
    (is_ok (fst (start_admin_server ep os x)) = sv_running (fst (snd (start_admin_server ep os x))))"
proof -
  obtain s l where x: "x = (s, l)" by (cases x)
  let ?s = "s\<lparr>sv_endpoint := ep, sv_lifecycle := Starting\<rparr>"
  show ?thesis
    using open_listener_result [OF assms(1), of "''admin socket''" "endpoint_detail ep" ?s] assms(2) unfolding x
    by (cases "listening os") (auto simp: start_admin_server_def server_ok_def admin_server_ok_def start_request_loop_def)
qed

lemma stop_admin_ok: "admin_server_ok x \<Longrightarrow> admin_server_ok (stop_admin_server x)"
  by (cases x) (auto simp: admin_server_ok_def stop_admin_server_def stop_server_def server_ok_def close_fd_def
      stop_request_loop_def)

text \<open>The servers a process can reach by starting and stopping, with whatever the system answers.\<close>

inductive admin_server_reach :: "socket_endpoint http_server \<times> request_loop \<Rightarrow> bool" where
  created: "admin_server_reach (new_http_server ep, new_request_loop)"
| started: "admin_server_reach x \<Longrightarrow> outcome_ok os \<Longrightarrow> admin_server_reach (snd (start_admin_server ep os x))"
| stopped: "admin_server_reach x \<Longrightarrow> admin_server_reach (stop_admin_server x)"

lemma admin_server_reach_ok: "admin_server_reach x \<Longrightarrow> admin_server_ok x"
  by (induction rule: admin_server_reach.induct)
     (use start_admin_ok stop_admin_ok in \<open>auto simp: admin_server_ok_def server_ok_def new_http_server_def new_request_loop_def\<close>)

text \<open>Whatever the admin server was put through and whatever the system answers, a start either
  succeeds, and then it listens on an open descriptor, is ready and its request loop accepts
  requests, or raises, and then no descriptor is left open and neither runs. Before and after a
  start, server and loop agree, and stopping always ends with the descriptor closed.\<close>

lemma admin_server_lifecycle:
  assumes "admin_server_reach x" "outcome_ok os"
  shows "let (r, s, l) = start_admin_server ep os x in
    (is_ok r \<longrightarrow> sv_running s \<and> 0 \<le> sv_listen_fd s \<and> sv_lifecycle s = Ready \<and> rl_running l \<and> request_loop_is_ready l) \<and>
    (\<not> is_ok r \<longrightarrow> \<not> sv_running s \<and> sv_listen_fd s = -1 \<and> \<not> rl_running l \<and> \<not> hs_ready (admin_server_health s)) \<and>
    (let (s', l') = stop_admin_server (s, l) in \<not> sv_running s' \<and> sv_listen_fd s' = -1 \<and> \<not> rl_running l')"
proof -
  obtain r s l where run: "start_admin_server ep os x = (r, s, l)" by (cases "start_admin_server ep os x") auto
  have ok: "admin_server_ok (s, l)" "is_ok r = sv_running s"
    using start_admin_ok [OF assms(2) admin_server_reach_ok [OF assms(1)], of ep] by (simp_all add: run)
  show ?thesis unfolding run using ok
    by (auto simp: admin_server_ok_def server_ok_def request_loop_is_ready_def stop_admin_server_def stop_server_def
        close_fd_def stop_request_loop_def admin_server_health_def server_health_def health_defs split: if_splits)
qed

end
