(* ===== verification/Runtime.thy ===== *)
theory Runtime
  imports Config_Valid Gateway_Service Query Matching Http_Server
begin

text \<open>
  The application of \<open>runtime/runtime_application.cpp\<close>: which services a role selects, start and
  stop with everything that can fail on the way, the probes it registers and what it answers
  about its own health.

  The probes are closures over the application, so they are functions of the part of it they
  look at, the record \<open>services\<close>. The gateway, the processor and the geofence engine share one
  event bus, whose subscriptions are those of \<open>rs_world\<close>; the gateway subscribes nothing. The
  matching service is started without a bus and makes one of its own. The records of the
  services that publish have a field of their own for the in-memory broker, which no start and
  no stop reads. What a dependency source looks at is outside the application: a state of any
  type \<open>'e\<close>. The outcome of the calls that open a listening socket is a parameter.

  The lemmas show that a start succeeds exactly when the configuration is valid, the strategy
  exists and the sockets open, that it is all or nothing, what health and readiness mean for a
  running application, and that a stop leaves nothing behind.
\<close>

subsection \<open>State\<close>

record role_selection =
  rr_gateway :: bool
  rr_processor :: bool
  rr_query :: bool
  rr_geofence :: bool
  rr_matching :: bool

definition no_roles :: role_selection where
  "no_roles = \<lparr>rr_gateway = False, rr_processor = False, rr_query = False, rr_geofence = False, rr_matching = False\<rparr>"

definition select_runtime_roles :: "config \<Rightarrow> role_selection" where
  "select_runtime_roles c =
     (let role = sv_role (cf_server c) in
      \<lparr>rr_gateway = (role = ''standalone'' \<or> role = ''gateway''),
       rr_processor = (role = ''standalone'' \<or> role = ''processor''),
       rr_query = (role = ''standalone'' \<or> role = ''query''),
       rr_geofence = ((role = ''standalone'' \<or> role = ''geofence'') \<and> gc_eval_enabled (cf_geofence c)),
       rr_matching = (role = ''standalone'' \<or> role = ''matcher'')\<rparr>)"

definition routes_from_config :: "config \<Rightarrow> http_routes" where
  "routes_from_config c =
     (let ob = cf_observability c in
      \<lparr>ht_health_path = ob_health_path ob,
       ht_health_alias_path = (if ob_health_path ob = ''/health'' then ''/healthz'' else ''/health''),
       ht_readiness_path = ob_readiness_path ob,
       ht_readiness_alias_path = (if ob_readiness_path ob = ''/ready'' then ''/readyz'' else ''/ready''),
       ht_metrics_path = ob_metrics_path ob\<rparr>)"

record 'e services =
  rs_startup_failed :: bool
  rs_last_start_error :: string
  rs_gateway :: gateway
  rs_processor :: processor_service
  rs_query :: query_service
  rs_geofence :: geofence_engine
  rs_matching :: matching_service
  rs_world :: world
  rs_match_world :: match_world
  rs_strategies :: strategy_registry
  rs_socket :: "(socket_endpoint http_server \<times> request_loop) option"
  rs_exporter :: "metrics_endpoint http_server option"
  rs_dependencies :: "'e dependency_registry"
  rs_external :: 'e

record 'e runtime_app =
  ra_running :: bool
  ra_last_stop_reason :: string
  ra_config :: config
  ra_roles :: role_selection
  ra_admin :: "'e services admin_service"
  ra_routes :: http_routes
  ra_services :: "'e services"

text \<open>What the system answers during a start.\<close>

record start_env =
  se_env :: env
  se_now_ns :: int
  se_socket :: listen_outcome
  se_exporter :: listen_outcome

definition socket_endpoint_default :: socket_endpoint where
  "socket_endpoint_default = \<lparr>ep_listen_addr = ''127.0.0.1'', ep_port = 0, ep_backlog = 16,
     ep_read_timeout_ms = 1000, ep_max_request_bytes = 8192\<rparr>"

definition metrics_endpoint_default :: metrics_endpoint where
  "metrics_endpoint_default = \<lparr>ep_listen_addr = ''127.0.0.1'', ep_port = 0, ep_backlog = 16,
     ep_read_timeout_ms = 1000, ep_max_request_bytes = 8192, ep_path = ''/metrics''\<rparr>"

definition new_services :: "build_flags \<Rightarrow> broker \<Rightarrow> strategy_registry \<Rightarrow> 'e \<Rightarrow> 'e services" where
  "new_services flags b reg ext = \<lparr>rs_startup_failed = False, rs_last_start_error = [],
     rs_gateway = new_gateway b, rs_processor = new_processor_service, rs_query = new_query_service,
     rs_geofence = new_geofence_engine, rs_matching = new_matching_service, rs_world = new_world b,
     rs_match_world = \<lparr>mw_world = new_world b, mw_redis = new_redis, mw_consumer = new_consumer []\<rparr>,
     rs_strategies = reg, rs_socket = None, rs_exporter = None,
     rs_dependencies = default_dependency_registry flags, rs_external = ext\<rparr>"

definition new_runtime :: "build_flags \<Rightarrow> broker \<Rightarrow> strategy_registry \<Rightarrow> 'e \<Rightarrow> int \<Rightarrow> 'e runtime_app" where
  "new_runtime flags b reg ext now_ns = \<lparr>ra_running = False, ra_last_stop_reason = ''not_started'',
     ra_config = config_default, ra_roles = no_roles,
     ra_admin = new_admin_service ''stopped'' admin_version_default now_ns,
     ra_routes = routes_from_config config_default,
     ra_services = new_services flags b reg ext\<rparr>"

subsection \<open>Configuring the servers\<close>

definition configure_admin_http :: "'e runtime_app \<Rightarrow> 'e runtime_app" where
  "configure_admin_http a = a\<lparr>ra_routes := routes_from_config (ra_config a)\<rparr>"

definition with_services :: "('e services \<Rightarrow> 'e services) \<Rightarrow> 'e runtime_app \<Rightarrow> 'e runtime_app" where
  "with_services f a = a\<lparr>ra_services := f (ra_services a)\<rparr>"

definition configure_admin_socket :: "'e runtime_app \<Rightarrow> 'e runtime_app" where
  "configure_admin_socket a = with_services (\<lambda>s. s\<lparr>rs_socket :=
     (if ob_admin_socket_enabled (cf_observability (ra_config a))
      then Some (new_http_server socket_endpoint_default, new_request_loop) else None)\<rparr>) a"

definition configure_metrics_exporter :: "'e runtime_app \<Rightarrow> 'e runtime_app" where
  "configure_metrics_exporter a = with_services (\<lambda>s. s\<lparr>rs_exporter :=
     (if ob_metrics_exporter_enabled (cf_observability (ra_config a))
      then Some (new_http_server metrics_endpoint_default) else None)\<rparr>) a"

text \<open>The conversion of a port to \<open>uint16_t\<close> and of the limit to \<open>size_t\<close>.\<close>

definition socket_endpoint_of :: "config \<Rightarrow> socket_endpoint" where
  "socket_endpoint_of c =
     (let ob = cf_observability c in
      \<lparr>ep_listen_addr = ob_admin_socket_addr ob,
       ep_port = uint (of_int (ob_admin_socket_port ob) :: 16 word),
       ep_backlog = ob_admin_socket_backlog ob,
       ep_read_timeout_ms = ob_admin_request_timeout_ms ob,
       ep_max_request_bytes = unat (of_int (ob_admin_max_request_bytes ob) :: u64)\<rparr>)"

definition metrics_endpoint_of :: "config \<Rightarrow> metrics_endpoint" where
  "metrics_endpoint_of c =
     (let ob = cf_observability c in
      \<lparr>ep_listen_addr = ob_metrics_addr ob,
       ep_port = uint (of_int (ob_metrics_port ob) :: 16 word),
       ep_backlog = ob_admin_socket_backlog ob,
       ep_read_timeout_ms = ob_admin_request_timeout_ms ob,
       ep_max_request_bytes = unat (of_int (ob_admin_max_request_bytes ob) :: u64),
       ep_path = ob_metrics_path ob\<rparr>)"

subsection \<open>Probes\<close>

definition runtime_probe :: "('e services, component_health) probe" where
  "runtime_probe s = P_value \<lparr>ch_name = ''runtime_startup'', ch_healthy = \<not> rs_startup_failed s, ch_required = True,
     ch_detail = (if rs_startup_failed s then rs_last_start_error s else ''runtime startup successful'')\<rparr>"

definition register_runtime_probe :: "'e services admin_service \<Rightarrow> 'e services admin_service" where
  "register_runtime_probe = register_component ''runtime_startup'' (Some runtime_probe)"

definition when_selected :: "bool \<Rightarrow> ('a \<Rightarrow> 'a) \<Rightarrow> 'a \<Rightarrow> 'a" where
  "when_selected b f x = (if b then f x else x)"

definition dependency_probe :: "string \<Rightarrow> ('e services, component_health) probe" where
  "dependency_probe name s = readiness_component name (rs_external s) (rs_dependencies s)"

definition register_dependency_readiness_probes :: "config \<Rightarrow> 'e services admin_service \<Rightarrow> 'e services admin_service" where
  "register_dependency_readiness_probes c ad =
     (let ob = cf_observability c;
          need = (\<lambda>b name. when_selected b (register_readiness_component name (Some (dependency_probe name)))) in
      need (ob_require_h3_readiness ob) ''h3''
       (need (ob_require_postgis_readiness ob) ''postgis''
         (need (ob_require_redis_readiness ob) ''redis''
           (need (ob_require_kafka_readiness ob) ''kafka'' ad))))"

text \<open>The probes of the two servers are registered only while the server exists, and it exists until
  the next start.\<close>

definition socket_probe :: "('e services, health_snapshot) probe" where
  "socket_probe s = P_value (admin_server_health (fst (the (rs_socket s))))"

definition exporter_probe :: "('e services, health_snapshot) probe" where
  "exporter_probe s = P_value (metrics_exporter_health (the (rs_exporter s)))"

definition register_admin_probes :: "'e runtime_app \<Rightarrow> 'e runtime_app" where
  "register_admin_probes a =
     (let roles = ra_roles a; s = ra_services a;
          lifecycle = (\<lambda>b name p. when_selected b (register_lifecycle_probe name (Some p) True));
          a0 = register_runtime_probe (clear_components (ra_admin a));
          a1 = lifecycle (rr_gateway roles) ''gateway'' (\<lambda>s. P_value (gateway_health (rs_gateway s))) a0;
          a2 = lifecycle (rr_processor roles) ''processor'' (\<lambda>s. P_value (processor_health (rs_processor s))) a1;
          a3 = lifecycle (rr_query roles) ''query'' (\<lambda>s. P_value (query_health (rs_query s))) a2;
          a4 = lifecycle (rr_geofence roles) ''geofence'' (\<lambda>s. P_value (engine_health (rs_geofence s))) a3;
          a5 = lifecycle (rr_matching roles) ''matcher'' (\<lambda>s. P_value (matching_health (rs_matching s))) a4;
          a6 = when_selected (rs_socket s \<noteq> None) (register_lifecycle_probe ''admin_socket'' (Some socket_probe) False) a5;
          a7 = when_selected (rs_exporter s \<noteq> None) (register_lifecycle_probe ''metrics_exporter'' (Some exporter_probe) False) a6;
          a8 = register_dependency_readiness_probes (ra_config a) a7
      in a\<lparr>ra_admin := register_dependency_probe ''event_bus'' (Some (\<lambda>_. P_value True)) False a8\<rparr>)"

definition register_startup_failure_probe :: "'e runtime_app \<Rightarrow> 'e runtime_app" where
  "register_startup_failure_probe a = a\<lparr>ra_admin := register_runtime_probe (clear_components (ra_admin a))\<rparr>"

subsection \<open>Stopping\<close>

definition stop_started_services :: "env \<Rightarrow> 'e runtime_app \<Rightarrow> 'e runtime_app" where
  "stop_started_services v a =
     (let roles = ra_roles a in with_services (\<lambda>s0.
        let s1 = s0\<lparr>rs_exporter := map_option stop_server (rs_exporter s0),
                    rs_socket := map_option stop_admin_server (rs_socket s0)\<rparr>;
            s2 = when_selected (rr_gateway roles) (rs_gateway_update stop_gateway) s1;
            s3 = when_selected (rr_matching roles) (rs_matching_update stop_matching) s2;
            s4 = when_selected (rr_geofence roles) (\<lambda>s. case stop_engine (rs_geofence s) (rs_world s) of
                   (g, w) \<Rightarrow> s\<lparr>rs_geofence := g, rs_world := w\<rparr>) s3;
            s5 = when_selected (rr_query roles) (rs_query_update stop_query) s4
        in when_selected (rr_processor roles) (\<lambda>s. case stop_processor (v\<lparr>en_config := ra_config a\<rparr>) (rs_processor s) (rs_world s) of
             (p, w) \<Rightarrow> s\<lparr>rs_processor := p, rs_world := w\<rparr>) s5) a)"

definition stop_runtime :: "env \<Rightarrow> string \<Rightarrow> 'e runtime_app \<Rightarrow> 'e runtime_app" where
  "stop_runtime v reason a =
     (let a1 = a\<lparr>ra_last_stop_reason := (if reason = [] then ''requested'' else reason)\<rparr> in
      if \<not> ra_running a1 then a1 else (stop_started_services v a1)\<lparr>ra_running := False\<rparr>)"

definition destroy_runtime :: "env \<Rightarrow> 'e runtime_app \<Rightarrow> 'e runtime_app" where
  "destroy_runtime v a = (if ra_running a then stop_runtime v ''destructor'' a else a)"

subsection \<open>Starting\<close>

definition on_services :: "('e services \<Rightarrow> unit exc \<times> 'e services) \<Rightarrow> ('e runtime_app, unit) prog" where
  "on_services m a = (case m (ra_services a) of (r, s) \<Rightarrow> (r, a\<lparr>ra_services := s\<rparr>))"

definition if_role :: "(role_selection \<Rightarrow> bool) \<Rightarrow> ('e runtime_app, unit) prog \<Rightarrow> ('e runtime_app, unit) prog" where
  "if_role sel m a = (if sel (ra_roles a) then m a else skip a)"

definition run_processor :: "env \<Rightarrow> ('e runtime_app, unit) prog" where
  "run_processor v a = on_services (\<lambda>s. case start_processor (v\<lparr>en_config := ra_config a\<rparr>) (rs_processor s) (rs_world s) of
     (r, p, w) \<Rightarrow> (r, s\<lparr>rs_processor := p, rs_world := w\<rparr>)) a"

definition run_query :: "('e runtime_app, unit) prog" where
  "run_query a = on_services (\<lambda>s. case start_query (ra_config a) (rs_query s) of
     (r, q) \<Rightarrow> (r, s\<lparr>rs_query := q\<rparr>)) a"

definition run_geofence :: "('e runtime_app, unit) prog" where
  "run_geofence = on_services (\<lambda>s. case start_engine (rs_geofence s) (rs_world s) of
     (g, w) \<Rightarrow> (Inr (), s\<lparr>rs_geofence := g, rs_world := w\<rparr>))"

definition run_matching :: "('e runtime_app, unit) prog" where
  "run_matching a = on_services (\<lambda>s.
     case start_matching (ra_config a) False (rs_strategies s) (rs_matching s) (rs_match_world s) of
     (r, ms, reg, mw) \<Rightarrow> (r, s\<lparr>rs_matching := ms, rs_strategies := reg, rs_match_world := mw\<rparr>)) a"

definition run_gateway :: "('e runtime_app, unit) prog" where
  "run_gateway a = on_services (\<lambda>s. (Inr (), s\<lparr>rs_gateway := start_with_bus (ra_config a) (rs_gateway s)\<rparr>)) a"

definition start_admin_socket :: "listen_outcome \<Rightarrow> ('e runtime_app, unit) prog" where
  "start_admin_socket os a = on_services (\<lambda>s. case rs_socket s of
       None \<Rightarrow> (Inr (), s)
     | Some x \<Rightarrow> (case start_admin_server (socket_endpoint_of (ra_config a)) os x of (r, x') \<Rightarrow> (r, s\<lparr>rs_socket := Some x'\<rparr>))) a"

definition start_exporter :: "listen_outcome \<Rightarrow> ('e runtime_app, unit) prog" where
  "start_exporter os a = on_services (\<lambda>s. case rs_exporter s of
       None \<Rightarrow> (Inr (), s)
     | Some x \<Rightarrow> (case start_metrics_exporter (metrics_endpoint_of (ra_config a)) os x of (r, x') \<Rightarrow> (r, s\<lparr>rs_exporter := Some x'\<rparr>))) a"

text \<open>The body of the \<open>try\<close> block, in the order of the code.\<close>

definition startup_steps :: "start_env \<Rightarrow> ('e runtime_app, unit) prog list" where
  "startup_steps e = [
     (\<lambda>a. (validate_config (ra_config a), a)),
     modify (\<lambda>a. a\<lparr>ra_roles := select_runtime_roles (ra_config a)\<rparr>),
     if_role rr_processor (run_processor (se_env e)),
     if_role rr_query run_query,
     if_role rr_geofence run_geofence,
     if_role rr_matching run_matching,
     if_role rr_gateway run_gateway,
     modify register_admin_probes,
     start_admin_socket (se_socket e),
     start_exporter (se_exporter e),
     modify (\<lambda>a. a\<lparr>ra_running := True\<rparr>)]"

definition prepare_start :: "start_env \<Rightarrow> config \<Rightarrow> 'e runtime_app \<Rightarrow> 'e runtime_app" where
  "prepare_start e c a =
     (let role = sv_role (cf_server c);
          a1 = a\<lparr>ra_config := c,
                 ra_admin := new_admin_service (if role = [] then ''invalid'' else role) admin_version_default (se_now_ns e)\<rparr>;
          a2 = configure_metrics_exporter (configure_admin_socket (configure_admin_http a1))
      in with_services (\<lambda>s. s\<lparr>rs_startup_failed := False, rs_last_start_error := []\<rparr>)
           (a2\<lparr>ra_last_stop_reason := ''not_stopped'', ra_roles := no_roles\<rparr>))"

definition startup_failure :: "env \<Rightarrow> string \<Rightarrow> 'e runtime_app \<Rightarrow> 'e runtime_app" where
  "startup_failure v ex a =
     (let a1 = with_services (\<lambda>s. s\<lparr>rs_startup_failed := True, rs_last_start_error := ex\<rparr>) (stop_started_services v a)
      in register_startup_failure_probe (a1\<lparr>ra_running := False, ra_roles := no_roles\<rparr>))"

definition start_runtime :: "start_env \<Rightarrow> config \<Rightarrow> 'e runtime_app \<Rightarrow> unit exc \<times> 'e runtime_app" where
  "start_runtime e c a =
     (if ra_running a then (Inr (), a)
      else case for_each (\<lambda>m. m) (startup_steps e) (prepare_start e c a) of
        (Inr _, a') \<Rightarrow> (Inr (), a')
      | (Inl ex, a') \<Rightarrow> (Inl (''Runtime startup failed: '' @ ex), startup_failure (se_env e) ex a'))"

subsection \<open>Health\<close>

definition runtime_is_healthy :: "int \<Rightarrow> 'e runtime_app \<Rightarrow> bool" where
  "runtime_is_healthy now_ns a =
     (let roles = ra_roles a; s = ra_services a in
      if \<not> ra_running a \<or> rs_startup_failed s then False
      else (\<not> rr_gateway roles \<or> gateway_is_healthy (rs_gateway s)) \<and>
           (\<not> rr_processor roles \<or> processor_is_healthy (rs_processor s)) \<and>
           (\<not> rr_query roles \<or> query_is_healthy (rs_query s)) \<and>
           (\<not> rr_geofence roles \<or> engine_is_healthy (rs_geofence s)) \<and>
           (\<not> rr_matching roles \<or> matching_is_healthy (rs_matching s)) \<and>
           hr_healthy (admin_health now_ns s (ra_admin a)))"

definition runtime_is_ready :: "int \<Rightarrow> 'e runtime_app \<Rightarrow> bool" where
  "runtime_is_ready now_ns a =
     (let roles = ra_roles a; s = ra_services a in
      if \<not> ra_running a \<or> rs_startup_failed s then False
      else (\<not> rr_gateway roles \<or> gateway_is_ready (rs_gateway s)) \<and>
           (\<not> rr_processor roles \<or> processor_is_ready (rs_processor s)) \<and>
           (\<not> rr_query roles \<or> query_is_ready (rs_query s)) \<and>
           (\<not> rr_geofence roles \<or> engine_is_ready (rs_geofence s)) \<and>
           (\<not> rr_matching roles \<or> matching_is_ready (rs_matching s)) \<and>
           hr_healthy (admin_readiness now_ns s (ra_admin a)))"

definition admin_http_enabled :: "'e runtime_app \<Rightarrow> bool" where
  "admin_http_enabled a = ob_admin_http_enabled (cf_observability (ra_config a))"

definition admin_http_disabled_response :: http_response where
  "admin_http_disabled_response =
     (let body = json_error ''admin http disabled'' in
      \<lparr>hp_status_code = 404, hp_reason_phrase = reason_phrase_for_status 404, hp_content_type = ''application/json'',
       hp_body = body, hp_headers = [(''Content-Type'', ''application/json''),
         (''Content-Length'', show_nat (length body)), (''Cache-Control'', ''no-store'')]\<rparr>)"

definition handle_admin_http :: "int \<Rightarrow> http_request \<Rightarrow> 'e runtime_app \<Rightarrow> http_response" where
  "handle_admin_http now_ns q a =
     (if \<not> admin_http_enabled a then admin_http_disabled_response
      else handle_http now_ns (ra_services a) (w_metrics (rs_world (ra_services a))) (ra_routes a) (ra_admin a) q)"

definition admin_socket_enabled :: "'e runtime_app \<Rightarrow> bool" where
  "admin_socket_enabled a = ob_admin_socket_enabled (cf_observability (ra_config a))"

definition admin_socket_running :: "'e runtime_app \<Rightarrow> bool" where
  "admin_socket_running a = (case rs_socket (ra_services a) of None \<Rightarrow> False | Some (s, _) \<Rightarrow> sv_running s)"

definition admin_socket_bound_port :: "'e runtime_app \<Rightarrow> int" where
  "admin_socket_bound_port a = (case rs_socket (ra_services a) of None \<Rightarrow> 0 | Some (s, _) \<Rightarrow> sv_bound_port s)"

definition admin_socket_health_snapshot :: "'e runtime_app \<Rightarrow> health_snapshot" where
  "admin_socket_health_snapshot a = (case rs_socket (ra_services a) of
     None \<Rightarrow> stopped_health ''admin socket disabled'' | Some (s, _) \<Rightarrow> admin_server_health s)"

definition metrics_exporter_enabled :: "'e runtime_app \<Rightarrow> bool" where
  "metrics_exporter_enabled a = ob_metrics_exporter_enabled (cf_observability (ra_config a))"

definition metrics_exporter_running :: "'e runtime_app \<Rightarrow> bool" where
  "metrics_exporter_running a = (case rs_exporter (ra_services a) of None \<Rightarrow> False | Some s \<Rightarrow> sv_running s)"

definition metrics_exporter_bound_port :: "'e runtime_app \<Rightarrow> int" where
  "metrics_exporter_bound_port a = (case rs_exporter (ra_services a) of None \<Rightarrow> 0 | Some s \<Rightarrow> sv_bound_port s)"

definition metrics_exporter_health_snapshot :: "'e runtime_app \<Rightarrow> health_snapshot" where
  "metrics_exporter_health_snapshot a = (case rs_exporter (ra_services a) of
     None \<Rightarrow> stopped_health ''metrics exporter disabled'' | Some s \<Rightarrow> metrics_exporter_health s)"

subsection \<open>What the services of an application look like\<close>

definition state_of :: "bool \<Rightarrow> lifecycle_state" where
  "state_of b = (if b then Ready else Stopped)"

text \<open>Exactly the services of a selection run; the one of the matching service is stated apart, since
  its start can fail half way.\<close>

definition four_up :: "role_selection \<Rightarrow> 'e services \<Rightarrow> bool" where
  "four_up d s \<longleftrightarrow>
     g_running (rs_gateway s) = rr_gateway d \<and> g_lifecycle (rs_gateway s) = state_of (rr_gateway d) \<and>
     ps_running (rs_processor s) = rr_processor d \<and> ps_lifecycle (rs_processor s) = state_of (rr_processor d) \<and>
     qs_running (rs_query s) = rr_query d \<and> qs_lifecycle (rs_query s) = state_of (rr_query d) \<and>
     fe_running (rs_geofence s) = rr_geofence d \<and> fe_lifecycle (rs_geofence s) = state_of (rr_geofence d)"

definition match_up :: "bool \<Rightarrow> 'e services \<Rightarrow> bool" where
  "match_up b s \<longleftrightarrow> ms_running (rs_matching s) = b \<and> ms_lifecycle (rs_matching s) = state_of b"

text \<open>Every subscription of the shared bus is held by a running service.\<close>

definition held_subscriptions :: "'e services \<Rightarrow> event_type subscription set" where
  "held_subscriptions s =
     (if ps_running (rs_processor s) then set (ps_composition (rs_processor s)) \<union> set (ps_handlers (rs_processor s)) \<union>
        set (ps_metrics (rs_processor s)) else {}) \<union>
     (if fe_running (rs_geofence s) then set (fe_subscriptions (rs_geofence s)) else {})"

definition bus_held :: "'e services \<Rightarrow> bool" where
  "bus_held s \<longleftrightarrow> (\<forall>k. \<forall>e \<in> set (entries (w_bus (rs_world s)) k). Some (k, fst e) \<in> held_subscriptions s)"

definition servers_ok :: "'e services \<Rightarrow> bool" where
  "servers_ok s \<longleftrightarrow> (\<forall>x. rs_socket s = Some x \<longrightarrow> admin_server_ok x) \<and> (\<forall>x. rs_exporter s = Some x \<longrightarrow> server_ok x)"

definition servers_running :: "bool \<Rightarrow> 'e services \<Rightarrow> bool" where
  "servers_running b s \<longleftrightarrow> (\<forall>x. rs_socket s = Some x \<longrightarrow> sv_running (fst x) = b) \<and>
     (\<forall>x. rs_exporter s = Some x \<longrightarrow> sv_running x = b)"

definition all_stopped :: "'e services \<Rightarrow> bool" where
  "all_stopped s \<longleftrightarrow> four_up no_roles s \<and> match_up False s \<and> bus_held s \<and> servers_ok s \<and> servers_running False s"

lemma new_services_stopped [simp]: "all_stopped (new_services flags b reg ext)"
  by (simp add: all_stopped_def four_up_def match_up_def bus_held_def servers_ok_def servers_running_def no_roles_def
      new_services_def new_gateway_def new_processor_service_def new_query_service_def new_geofence_engine_def
      new_matching_service_def state_of_def new_world_def empty_bus_def entries_def)

subsection \<open>The services one by one\<close>

lemma subscribe_all_held:
  "e \<in> set (entries (snd (subscribe_all hs b)) k) \<Longrightarrow>
     e \<in> set (entries b k) \<or> Some (k, fst e) \<in> set (fst (subscribe_all hs b))"
  using subscribe_all_entries [of hs b k] by auto

lemma start_processor_up:
  assumes "\<not> ps_running p" "new_h3_index (sp_h3_resolution (cf_spatial (en_config v))) = Inr res"
  obtains p' w' where "start_processor v p w = (Inr (), p', w')" "ps_running p'" "ps_lifecycle p' = Ready"
    "\<And>k e. e \<in> set (entries (w_bus w') k) \<Longrightarrow> e \<in> set (entries (w_bus w) k) \<or>
       Some (k, fst e) \<in> set (ps_composition p') \<union> set (ps_handlers p') \<union> set (ps_metrics p')"
proof -
  obtain cs b1 where 1: "wire_pipeline (w_bus w) = (cs, b1)" by fastforce
  obtain hs b2 where 2: "wire_processor b1 = (hs, b2)" by fastforce
  obtain ms b3 where 3: "wire_metrics b2 = (ms, b3)" by fastforce
  have "e \<in> set (entries (w_bus w) k) \<or> Some (k, fst e) \<in> set cs \<union> set hs \<union> set ms"
    if "e \<in> set (entries b3 k)" for k e
    using subscribe_all_held [of e "map (\<lambda>t. (t, H_pipeline)) pipeline_subscriptions" "w_bus w" k]
      subscribe_all_held [of e processor_subscriptions b1 k]
      subscribe_all_held [of e "map (\<lambda>t. (t, H_metrics)) metrics_subscriptions" b2 k] that
    unfolding 1 [unfolded wire_pipeline_def] 2 [unfolded wire_processor_def] 3 [unfolded wire_metrics_def] by auto
  then show thesis using assms 1 2 3 that by (simp add: start_processor_def Let_def)
qed

lemma start_engine_up:
  assumes "\<not> fe_running g"
  obtains g' w' where "start_engine g w = (g', w')" "fe_running g'" "fe_lifecycle g' = Ready"
    "\<And>k e. e \<in> set (entries (w_bus w') k) \<Longrightarrow>
       e \<in> set (entries (w_bus w) k) \<or> Some (k, fst e) \<in> set (fe_subscriptions g')"
  using assms subscribe_all_held [of _ "map (\<lambda>t. (t, H_geofence)) geofence_subscriptions" "w_bus w"] that
  by (simp add: start_engine_def Let_def case_prod_beta)

lemma start_query_up:
  assumes "\<not> qs_running q" "new_h3_index (sp_h3_resolution (cf_spatial c)) = Inr res"
  obtains q' where "start_query c q = (Inr (), q')" "qs_running q'" "qs_lifecycle q' = Ready"
  using assms that by (simp add: start_query_def Let_def)

text \<open>The strategies a start can use: the built-in ones, and what was registered before.\<close>

definition strategy_known :: "config \<Rightarrow> strategy_registry \<Rightarrow> bool" where
  "strategy_known c reg \<longleftrightarrow> (let name = mt_strategy_name (cf_matching c) in
     name = ''nearest'' \<or> name = ''default'' \<or> (\<exists>f. map_of reg name = Some (Some f)))"

lemma create_strategy_known:
  "\<exists>reg'. register_builtin_strategies reg = Inr reg' \<and>
     (is_ok (create_strategy (mt_strategy_name (cf_matching c)) reg') \<longleftrightarrow> strategy_known c reg)"
  by (auto simp: register_builtin_strategies_def register_strategy_def create_strategy_def strategy_known_def Let_def
      split: option.splits)

lemma start_matching_up:
  assumes "\<not> ms_running ms" "new_h3_index (sp_h3_resolution (cf_spatial c)) = Inr res"
  obtains r ms' reg' w' where "start_matching c False reg ms w = (r, ms', reg', w')"
    "is_ok r \<longleftrightarrow> strategy_known c reg" "is_ok r \<Longrightarrow> ms_running ms' \<and> ms_lifecycle ms' = Ready"
proof -
  obtain reg' where reg': "register_builtin_strategies reg = Inr reg'"
    "is_ok (create_strategy (mt_strategy_name (cf_matching c)) reg') \<longleftrightarrow> strategy_known c reg"
    using create_strategy_known by blast
  show thesis
    using assms reg' that
    by (cases "create_strategy (mt_strategy_name (cf_matching c)) reg'") (auto simp: start_matching_def Let_def)
qed

lemma stop_processor_down:
  assumes "ps_running p" "stop_processor v p w = (p', w')"
  shows "\<not> ps_running p' \<and> ps_lifecycle p' = Stopped \<and> entries (w_bus w') k =
    filter (\<lambda>e. Some (k, fst e) \<notin> set (ps_composition p) \<union> set (ps_handlers p) \<union> set (ps_metrics p)) (entries (w_bus w) k)"
  using assms flush_bus [of v w]
  by (auto simp: stop_processor_def Let_def case_prod_beta sub_clear_entries conj_ac intro!: filter_cong)

lemma stop_engine_down:
  assumes "fe_running g" "stop_engine g w = (g', w')"
  shows "\<not> fe_running g' \<and> fe_lifecycle g' = Stopped \<and>
    entries (w_bus w') k = filter (\<lambda>e. Some (k, fst e) \<notin> set (fe_subscriptions g)) (entries (w_bus w) k)"
  using assms by (auto simp: stop_engine_def Let_def case_prod_beta sub_clear_entries)

subsection \<open>Stopping what was started\<close>

definition roles_le :: "role_selection \<Rightarrow> role_selection \<Rightarrow> bool" where
  "roles_le d r \<longleftrightarrow> (rr_gateway d \<longrightarrow> rr_gateway r) \<and> (rr_processor d \<longrightarrow> rr_processor r) \<and> (rr_query d \<longrightarrow> rr_query r) \<and>
     (rr_geofence d \<longrightarrow> rr_geofence r)"

lemma stop_server_down: "server_ok s \<Longrightarrow> server_ok (stop_server s) \<and> \<not> sv_running (stop_server s)"
  by (rule stop_server_ok)

lemma stop_admin_down: "admin_server_ok x \<Longrightarrow> admin_server_ok (stop_admin_server x) \<and> \<not> sv_running (fst (stop_admin_server x))"
  using stop_admin_ok [of x] by (cases x) (auto simp: stop_admin_server_def stop_server_def close_fd_def admin_server_ok_def server_ok_def)

text \<open>The engine and the processor are stopped one after the other on the shared bus.\<close>

lemma stop_bus_services:
  assumes "bus_held s" "stop_engine (rs_geofence s) (rs_world s) = (g, w1)" "stop_processor v (rs_processor s) w1 = (p, w2)"
    "fe_lifecycle (rs_geofence s) = state_of (fe_running (rs_geofence s))"
    "ps_lifecycle (rs_processor s) = state_of (ps_running (rs_processor s))"
  shows "\<not> fe_running g" "fe_lifecycle g = Stopped" "\<not> ps_running p" "ps_lifecycle p = Stopped" "entries (w_bus w2) k = []"
proof -
  have g: "\<not> fe_running g \<and> fe_lifecycle g = Stopped \<and> entries (w_bus w1) k =
      filter (\<lambda>e. \<not> (fe_running (rs_geofence s) \<and> Some (k, fst e) \<in> set (fe_subscriptions (rs_geofence s)))) (entries (w_bus (rs_world s)) k)"
    using assms(2,4) stop_engine_down [of "rs_geofence s" "rs_world s" g w1 k]
    by (cases "fe_running (rs_geofence s)") (auto simp: stop_engine_def state_of_def)
  let ?subs = "set (ps_composition (rs_processor s)) \<union> set (ps_handlers (rs_processor s)) \<union> set (ps_metrics (rs_processor s))"
  have p: "\<not> ps_running p \<and> ps_lifecycle p = Stopped \<and> entries (w_bus w2) k =
      filter (\<lambda>e. \<not> (ps_running (rs_processor s) \<and> Some (k, fst e) \<in> ?subs)) (entries (w_bus w1) k)"
    using assms(3,5) stop_processor_down [of "rs_processor s" v w1 p w2 k]
    by (cases "ps_running (rs_processor s)") (auto simp: stop_processor_def state_of_def)
  have "entries (w_bus w2) k = []"
    using assms(1) g p unfolding bus_held_def held_subscriptions_def by (auto simp: filter_empty_conv split: if_splits)
  then show "\<not> fe_running g" "fe_lifecycle g = Stopped" "\<not> ps_running p" "ps_lifecycle p = Stopped" "entries (w_bus w2) k = []"
    using g p by simp_all
qed

lemma stop_idle: "\<not> fe_running g \<Longrightarrow> stop_engine g w = (g, w)" "\<not> ps_running p \<Longrightarrow> stop_processor v p w = (p, w)"
  "\<not> qs_running q \<Longrightarrow> stop_query q = q" "\<not> g_running gw \<Longrightarrow> stop_gateway gw = gw"
  by (simp_all add: stop_engine_def stop_processor_def stop_query_def stop_gateway_def)

lemma sel_gateway:
  "(\<not> b \<Longrightarrow> stop_gateway x0 = x0) \<Longrightarrow> rs_gateway s = x0 \<Longrightarrow>
     when_selected b (rs_gateway_update stop_gateway) s = s\<lparr>rs_gateway := stop_gateway x0\<rparr>"
  by (cases b) (auto simp: when_selected_def)

lemma sel_matching:
  "when_selected b (rs_matching_update stop_matching) s =
     s\<lparr>rs_matching := (if b then stop_matching (rs_matching s) else rs_matching s)\<rparr>"
  by (cases b) (simp_all add: when_selected_def)

lemma sel_query:
  "(\<not> b \<Longrightarrow> stop_query x0 = x0) \<Longrightarrow> rs_query s = x0 \<Longrightarrow>
     when_selected b (rs_query_update stop_query) s = s\<lparr>rs_query := stop_query x0\<rparr>"
  by (cases b) (auto simp: when_selected_def)

lemma sel_geofence:
  "stop_engine g0 w0 = (g, w) \<Longrightarrow> (\<not> b \<Longrightarrow> g = g0 \<and> w = w0) \<Longrightarrow> rs_geofence s = g0 \<Longrightarrow> rs_world s = w0 \<Longrightarrow>
     when_selected b (\<lambda>s. case stop_engine (rs_geofence s) (rs_world s) of (g, w) \<Rightarrow> s\<lparr>rs_geofence := g, rs_world := w\<rparr>) s =
     s\<lparr>rs_geofence := g, rs_world := w\<rparr>"
  by (cases b) (auto simp: when_selected_def)

lemma sel_processor:
  "stop_processor v p0 w0 = (p, w) \<Longrightarrow> (\<not> b \<Longrightarrow> p = p0 \<and> w = w0) \<Longrightarrow> rs_processor s = p0 \<Longrightarrow> rs_world s = w0 \<Longrightarrow>
     when_selected b (\<lambda>s. case stop_processor v (rs_processor s) (rs_world s) of (p, w) \<Rightarrow> s\<lparr>rs_processor := p, rs_world := w\<rparr>) s =
     s\<lparr>rs_processor := p, rs_world := w\<rparr>"
  by (cases b) (auto simp: when_selected_def)

lemma stop_all:
  assumes "four_up d (ra_services a)" "roles_le d (ra_roles a)" "rr_matching (ra_roles a) \<or> match_up False (ra_services a)"
    "bus_held (ra_services a)" "servers_ok (ra_services a)"
  shows "all_stopped (ra_services (stop_started_services v a))"
proof -
  let ?s = "ra_services a" and ?v = "v\<lparr>en_config := ra_config a\<rparr>"
  obtain g w1 where g: "stop_engine (rs_geofence ?s) (rs_world ?s) = (g, w1)" by fastforce
  obtain p w2 where p: "stop_processor ?v (rs_processor ?s) w1 = (p, w2)" by fastforce
  define s' where "s' = ?s\<lparr>rs_exporter := map_option stop_server (rs_exporter ?s),
      rs_socket := map_option stop_admin_server (rs_socket ?s), rs_gateway := stop_gateway (rs_gateway ?s),
      rs_matching := (if rr_matching (ra_roles a) then stop_matching (rs_matching ?s) else rs_matching ?s),
      rs_geofence := g, rs_query := stop_query (rs_query ?s), rs_processor := p, rs_world := w2\<rparr>"
  have roles: "\<not> rr_geofence (ra_roles a) \<Longrightarrow> g = rs_geofence ?s \<and> w1 = rs_world ?s"
    "\<not> rr_processor (ra_roles a) \<Longrightarrow> p = rs_processor ?s \<and> w2 = w1"
    "\<not> rr_query (ra_roles a) \<Longrightarrow> stop_query (rs_query ?s) = rs_query ?s"
    "\<not> rr_gateway (ra_roles a) \<Longrightarrow> stop_gateway (rs_gateway ?s) = rs_gateway ?s"
    using assms(1,2) g p by (auto simp: four_up_def roles_le_def stop_idle)
  have "ra_services (stop_started_services v a) = s'"
    unfolding stop_started_services_def Let_def with_services_def runtime_app.select_convs runtime_app.update_convs
    by (simp add: sel_gateway [OF roles(4)] sel_matching sel_geofence [OF g roles(1)] sel_query [OF roles(3)]
        sel_processor [OF p roles(2)] s'_def)
  moreover have "all_stopped s'"
    unfolding all_stopped_def
  proof (intro conjI)
    note down = stop_bus_services [OF assms(4) g p]
    have fields: "rs_gateway s' = stop_gateway (rs_gateway ?s)" "rs_processor s' = p" "rs_query s' = stop_query (rs_query ?s)"
      "rs_geofence s' = g" "rs_world s' = w2" "rs_exporter s' = map_option stop_server (rs_exporter ?s)"
      "rs_socket s' = map_option stop_admin_server (rs_socket ?s)"
      "rs_matching s' = (if rr_matching (ra_roles a) then stop_matching (rs_matching ?s) else rs_matching ?s)"
      by (simp_all add: s'_def)
    have settled: "fe_lifecycle (rs_geofence ?s) = state_of (fe_running (rs_geofence ?s))"
      "ps_lifecycle (rs_processor ?s) = state_of (ps_running (rs_processor ?s))"
      using assms(1) by (simp_all add: four_up_def)
    show "four_up no_roles s'"
      using assms(1) down [OF settled] unfolding four_up_def fields
      by (simp add: no_roles_def state_of_def stop_gateway_def stop_query_def)
    show "match_up False s'"
      using assms(3) unfolding match_up_def fields by (auto simp: state_of_def stop_matching_def)
    show "bus_held s'"
      unfolding bus_held_def fields using down(5) [OF settled] by simp
    show "servers_ok s'"
      using assms(5) unfolding servers_ok_def fields
      by (cases "rs_socket ?s"; cases "rs_exporter ?s") (simp_all del: split_paired_All add: stop_admin_down stop_server_down)
    show "servers_running False s'"
      using assms(5) unfolding servers_ok_def servers_running_def fields
      by (cases "rs_socket ?s"; cases "rs_exporter ?s") (simp_all del: split_paired_All add: stop_admin_down stop_server_down)
  qed
  ultimately show ?thesis by simp
qed

subsection \<open>A start, step by step\<close>

text \<open>An application in the middle of a start: the services of \<open>d\<close> run, everything else is as it was
  prepared.\<close>

definition starting_up :: "config \<Rightarrow> role_selection \<Rightarrow> 'e services \<Rightarrow> 'e runtime_app \<Rightarrow> bool" where
  "starting_up c d s0 a \<longleftrightarrow> ra_config a = c \<and> ra_roles a = select_runtime_roles c \<and> \<not> ra_running a \<and>
     ra_routes a = routes_from_config c \<and> ra_last_stop_reason a = ''not_stopped'' \<and>
     four_up d (ra_services a) \<and> bus_held (ra_services a) \<and>
     rs_socket (ra_services a) = rs_socket s0 \<and> rs_exporter (ra_services a) = rs_exporter s0 \<and>
     rs_startup_failed (ra_services a) = rs_startup_failed s0 \<and> rs_last_start_error (ra_services a) = rs_last_start_error s0 \<and>
     rs_dependencies (ra_services a) = rs_dependencies s0 \<and> rs_external (ra_services a) = rs_external s0"

lemma starting_upD:
  assumes "starting_up c d s0 a"
  shows "rs_socket (ra_services a) = rs_socket s0" "rs_exporter (ra_services a) = rs_exporter s0"
    "rs_startup_failed (ra_services a) = rs_startup_failed s0" "rs_last_start_error (ra_services a) = rs_last_start_error s0"
    "rs_dependencies (ra_services a) = rs_dependencies s0" "rs_external (ra_services a) = rs_external s0"
    "ra_config a = c" "ra_roles a = select_runtime_roles c" "\<not> ra_running a" "four_up d (ra_services a)" "bus_held (ra_services a)"
    "ra_routes a = routes_from_config c" "ra_last_stop_reason a = ''not_stopped''"
  using assms by (simp_all add: starting_up_def)

lemma bus_held_update [simp]:
  "bus_held (s\<lparr>rs_query := q\<rparr>) = bus_held s" "bus_held (s\<lparr>rs_gateway := gw\<rparr>) = bus_held s"
  "bus_held (s\<lparr>rs_matching := ms, rs_strategies := reg, rs_match_world := mw\<rparr>) = bus_held s"
  "bus_held (s\<lparr>rs_socket := so\<rparr>) = bus_held s" "bus_held (s\<lparr>rs_exporter := ex\<rparr>) = bus_held s"
  "bus_held (s\<lparr>rs_startup_failed := b, rs_last_start_error := e\<rparr>) = bus_held s"
  by (simp_all add: bus_held_def held_subscriptions_def)

lemma bus_heldD: "bus_held s \<Longrightarrow> e \<in> set (entries (w_bus (rs_world s)) k) \<Longrightarrow> Some (k, fst e) \<in> held_subscriptions s"
  unfolding bus_held_def by blast

lemma run_processor_step:
  assumes "starting_up c d s0 a" "\<not> rr_processor d" "new_h3_index (sp_h3_resolution (cf_spatial c)) = Inr res"
  shows "\<exists>a'. if_role rr_processor (run_processor v) a = (Inr (), a') \<and>
    starting_up c (d\<lparr>rr_processor := rr_processor (select_runtime_roles c)\<rparr>) s0 a' \<and>
    rs_matching (ra_services a') = rs_matching (ra_services a) \<and> rs_strategies (ra_services a') = rs_strategies (ra_services a)"
proof (cases "rr_processor (select_runtime_roles c)")
  case True
  have pre: "\<not> ps_running (rs_processor (ra_services a))" using assms(1,2) by (simp add: starting_up_def four_up_def)
  obtain p w where run: "start_processor (v\<lparr>en_config := c\<rparr>) (rs_processor (ra_services a)) (rs_world (ra_services a)) = (Inr (), p, w)"
      "ps_running p" "ps_lifecycle p = Ready"
    and held: "\<And>k e. e \<in> set (entries (w_bus w) k) \<Longrightarrow> e \<in> set (entries (w_bus (rs_world (ra_services a))) k) \<or>
       Some (k, fst e) \<in> set (ps_composition p) \<union> set (ps_handlers p) \<union> set (ps_metrics p)"
    using start_processor_up [OF pre, of "v\<lparr>en_config := c\<rparr>" res "rs_world (ra_services a)"] assms(3) by auto
  let ?s' = "ra_services a\<lparr>rs_processor := p, rs_world := w\<rparr>"
  have "bus_held ?s'"
    unfolding bus_held_def
  proof (intro allI ballI)
    fix k e assume "e \<in> set (entries (w_bus (rs_world ?s')) k)"
    then show "Some (k, fst e) \<in> held_subscriptions ?s'"
      using held [of e k] bus_heldD [OF starting_upD(11) [OF assms(1)], of e k] pre run(2) by (auto simp: held_subscriptions_def)
  qed
  then show ?thesis
    using assms(1) run pre True
    by (simp add: starting_up_def if_role_def run_processor_def on_services_def four_up_def state_of_def)
next
  case False
  then show ?thesis using assms by (auto simp: starting_up_def if_role_def four_up_def match_up_def state_of_def)
qed

lemma run_query_step:
  assumes "starting_up c d s0 a" "\<not> rr_query d" "new_h3_index (sp_h3_resolution (cf_spatial c)) = Inr res"
  shows "\<exists>a'. if_role rr_query run_query a = (Inr (), a') \<and>
    starting_up c (d\<lparr>rr_query := rr_query (select_runtime_roles c)\<rparr>) s0 a' \<and>
    rs_matching (ra_services a') = rs_matching (ra_services a) \<and> rs_strategies (ra_services a') = rs_strategies (ra_services a)"
proof (cases "rr_query (select_runtime_roles c)")
  case True
  have pre: "\<not> qs_running (rs_query (ra_services a))" using assms(1,2) by (simp add: starting_up_def four_up_def)
  obtain q where run: "start_query c (rs_query (ra_services a)) = (Inr (), q)" "qs_running q" "qs_lifecycle q = Ready"
    by (rule start_query_up [OF pre assms(3)])
  then show ?thesis
    using assms(1) pre True
    by (simp add: starting_up_def if_role_def run_query_def on_services_def four_up_def state_of_def)
next
  case False
  then show ?thesis using assms by (auto simp: starting_up_def if_role_def four_up_def match_up_def state_of_def)
qed

lemma run_geofence_step:
  assumes "starting_up c d s0 a" "\<not> rr_geofence d"
  shows "\<exists>a'. if_role rr_geofence run_geofence a = (Inr (), a') \<and>
    starting_up c (d\<lparr>rr_geofence := rr_geofence (select_runtime_roles c)\<rparr>) s0 a' \<and>
    rs_matching (ra_services a') = rs_matching (ra_services a) \<and> rs_strategies (ra_services a') = rs_strategies (ra_services a)"
proof (cases "rr_geofence (select_runtime_roles c)")
  case True
  have pre: "\<not> fe_running (rs_geofence (ra_services a))" using assms(1,2) by (simp add: starting_up_def four_up_def)
  obtain g w where run: "start_engine (rs_geofence (ra_services a)) (rs_world (ra_services a)) = (g, w)"
      "fe_running g" "fe_lifecycle g = Ready"
    and held: "\<And>k e. e \<in> set (entries (w_bus w) k) \<Longrightarrow> e \<in> set (entries (w_bus (rs_world (ra_services a))) k) \<or>
       Some (k, fst e) \<in> set (fe_subscriptions g)"
    using start_engine_up [OF pre, of "rs_world (ra_services a)"] by metis
  let ?s' = "ra_services a\<lparr>rs_geofence := g, rs_world := w\<rparr>"
  have "bus_held ?s'"
    unfolding bus_held_def
  proof (intro allI ballI)
    fix k e assume "e \<in> set (entries (w_bus (rs_world ?s')) k)"
    then show "Some (k, fst e) \<in> held_subscriptions ?s'"
      using held [of e k] bus_heldD [OF starting_upD(11) [OF assms(1)], of e k] pre run(2) by (auto simp: held_subscriptions_def)
  qed
  then show ?thesis
    using assms(1) run pre True
    by (simp add: starting_up_def if_role_def run_geofence_def on_services_def four_up_def state_of_def)
next
  case False
  then show ?thesis using assms by (auto simp: starting_up_def if_role_def four_up_def match_up_def state_of_def)
qed

lemma run_gateway_step:
  assumes "starting_up c d s0 a" "\<not> rr_gateway d"
  shows "\<exists>a'. if_role rr_gateway run_gateway a = (Inr (), a') \<and>
    starting_up c (d\<lparr>rr_gateway := rr_gateway (select_runtime_roles c)\<rparr>) s0 a' \<and>
    rs_matching (ra_services a') = rs_matching (ra_services a)"
proof (cases "rr_gateway (select_runtime_roles c)")
  case True
  have pre: "\<not> g_running (rs_gateway (ra_services a))" using assms(1,2) by (simp add: starting_up_def four_up_def)
  then show ?thesis
    using assms(1) pre True
    by (simp add: starting_up_def if_role_def run_gateway_def on_services_def four_up_def state_of_def
        start_with_bus_def)
next
  case False
  then show ?thesis using assms by (auto simp: starting_up_def if_role_def four_up_def match_up_def state_of_def)
qed

lemma run_matching_step:
  assumes "starting_up c d s0 a" "match_up False (ra_services a)" "new_h3_index (sp_h3_resolution (cf_spatial c)) = Inr res"
  shows "\<exists>r a'. if_role rr_matching run_matching a = (r, a') \<and> starting_up c d s0 a' \<and>
    (is_ok r \<longleftrightarrow> rr_matching (select_runtime_roles c) \<longrightarrow> strategy_known c (rs_strategies (ra_services a))) \<and>
    (if is_ok r then match_up (rr_matching (select_runtime_roles c)) (ra_services a')
     else rr_matching (select_runtime_roles c))"
proof (cases "rr_matching (select_runtime_roles c)")
  case True
  have pre: "\<not> ms_running (rs_matching (ra_services a))" using assms(2) by (simp add: match_up_def)
  obtain r ms reg w where run: "start_matching c False (rs_strategies (ra_services a)) (rs_matching (ra_services a))
      (rs_match_world (ra_services a)) = (r, ms, reg, w)" "is_ok r \<longleftrightarrow> strategy_known c (rs_strategies (ra_services a))"
      "is_ok r \<Longrightarrow> ms_running ms \<and> ms_lifecycle ms = Ready"
    using start_matching_up [OF pre assms(3)] by metis
  then show ?thesis
    using assms(1) pre True
    by (simp add: starting_up_def if_role_def run_matching_def on_services_def four_up_def match_up_def state_of_def)
next
  case False
  then show ?thesis using assms by (auto simp: starting_up_def if_role_def four_up_def match_up_def state_of_def)
qed

subsection \<open>A valid configuration\<close>

lemma valid_config_parts:
  assumes "validate_config c = Inr ()"
  shows "sv_role (cf_server c) \<in> set config_roles"
    "new_h3_index (sp_h3_resolution (cf_spatial c)) = Inr (sp_h3_resolution (cf_spatial c))"
    "ob_admin_request_timeout_ms (cf_observability c) > 0" "ob_admin_max_request_bytes (cf_observability c) > 0"
    "ob_metrics_path (cf_observability c) \<noteq> []" "hd (ob_metrics_path (cf_observability c)) = CHR ''/''"
  using assms unfolding validate_config_iff
  by (simp_all add: config_valid_def new_h3_index_def positive_ints_def required_paths_def)

text \<open>The members of the configuration are of type \<open>int\<close>, so the conversion of the limit to \<open>size_t\<close>
  keeps a positive value.\<close>

definition int_range_ok :: "config \<Rightarrow> bool" where
  "int_range_ok c \<longleftrightarrow> list_all int32 (config_ints c)"

lemma max_bytes_positive:
  assumes "validate_config c = Inr ()" "int_range_ok c"
  shows "unat (of_int (ob_admin_max_request_bytes (cf_observability c)) :: u64) \<noteq> 0"
proof -
  let ?n = "ob_admin_max_request_bytes (cf_observability c)"
  have "0 < ?n" "?n < 2 ^ 64" using valid_config_parts(4) [OF assms(1)] assms(2)
    by (simp_all add: int_range_ok_def config_ints_def observability_ints_def int32_def)
  then have "uint (of_int ?n :: u64) = ?n" by (simp add: uint_word_of_int)
  then have "int (unat (of_int ?n :: u64)) = ?n" by (simp only: uint_nat [symmetric])
  then show ?thesis using \<open>0 < ?n\<close> by linarith
qed

subsection \<open>The sockets of a start\<close>

lemma start_admin_socket_step:
  assumes "validate_config (ra_config a) = Inr ()" "int_range_ok (ra_config a)" "outcome_ok os"
    and "rs_socket (ra_services a) = (if en then Some (new_http_server socket_endpoint_default, new_request_loop) else None)"
  shows "\<exists>r so. start_admin_socket os a = (r, with_services (rs_socket_update (\<lambda>_. so)) a) \<and>
    (is_ok r \<longleftrightarrow> en \<longrightarrow> listening os) \<and> (so = None \<longleftrightarrow> \<not> en) \<and>
    (\<forall>x. so = Some x \<longrightarrow> admin_server_ok x \<and> sv_running (fst x) = is_ok r)"
proof (cases en)
  case True
  let ?x = "(new_http_server socket_endpoint_default, new_request_loop)" and ?ep = "socket_endpoint_of (ra_config a)"
  let ?s = "fst ?x\<lparr>sv_endpoint := ?ep, sv_lifecycle := Starting\<rparr>"
  have ok: "admin_server_ok ?x"
    by (simp add: admin_server_ok_def server_ok_def new_http_server_def new_request_loop_def)
  obtain r x where run: "start_admin_server ?ep os ?x = (r, x)" by (cases "start_admin_server ?ep os ?x")
  have x: "admin_server_ok x" "is_ok r = sv_running (fst x)"
    using start_admin_ok [OF assms(3) ok, of ?ep] by (simp_all add: run)
  have pos: "ep_read_timeout_ms ?ep > 0" "ep_max_request_bytes ?ep \<noteq> 0"
    using valid_config_parts(3) [OF assms(1)] max_bytes_positive [OF assms(1,2)]
    by (simp_all add: socket_endpoint_of_def Let_def)
  have "is_ok r \<longleftrightarrow> listening os"
    using open_listener_result [OF assms(3), of "''admin socket''" "endpoint_detail ?ep" ?s] run pos
    by (auto simp: start_admin_server_def new_http_server_def split: if_splits)
  then have "start_admin_socket os a = (r, with_services (rs_socket_update (\<lambda>_. Some x)) a) \<and>
    (is_ok r \<longleftrightarrow> en \<longrightarrow> listening os) \<and> (Some x = None \<longleftrightarrow> \<not> en) \<and>
    (\<forall>x'. Some x = Some x' \<longrightarrow> admin_server_ok x' \<and> sv_running (fst x') = is_ok r)"
    using assms(4) True run x
    by (simp add: start_admin_socket_def on_services_def with_services_def)
  then show ?thesis by blast
next
  case False
  have "ra_services a\<lparr>rs_socket := None\<rparr> = ra_services a" using assms(4) False by simp
  then have "start_admin_socket os a = (Inr (), with_services (rs_socket_update (\<lambda>_. None)) a)"
    using assms(4) False by (simp add: start_admin_socket_def on_services_def with_services_def)
  then show ?thesis using False by auto
qed

lemma start_exporter_step:
  assumes "validate_config (ra_config a) = Inr ()" "int_range_ok (ra_config a)" "outcome_ok os"
    and "rs_exporter (ra_services a) = (if en then Some (new_http_server metrics_endpoint_default) else None)"
  shows "\<exists>r ex. start_exporter os a = (r, with_services (rs_exporter_update (\<lambda>_. ex)) a) \<and>
    (is_ok r \<longleftrightarrow> en \<longrightarrow> listening os) \<and> (ex = None \<longleftrightarrow> \<not> en) \<and>
    (\<forall>x. ex = Some x \<longrightarrow> server_ok x \<and> sv_running x = is_ok r)"
proof (cases en)
  case True
  let ?x = "new_http_server metrics_endpoint_default" and ?ep = "metrics_endpoint_of (ra_config a)"
  let ?s = "?x\<lparr>sv_endpoint := ?ep, sv_lifecycle := Starting\<rparr>"
  have ok: "server_ok ?x" by (simp add: server_ok_def new_http_server_def)
  obtain r x where run: "start_metrics_exporter ?ep os ?x = (r, x)" by fastforce
  have x: "server_ok x" "is_ok r = sv_running x"
    using start_exporter_ok [OF assms(3) ok, of ?ep] by (simp_all add: run)
  have pos: "ep_read_timeout_ms ?ep > 0" "ep_max_request_bytes ?ep \<noteq> 0" "ep_path ?ep \<noteq> []" "hd (ep_path ?ep) = CHR ''/''"
    using valid_config_parts(3,5,6) [OF assms(1)] max_bytes_positive [OF assms(1,2)]
    by (simp_all add: metrics_endpoint_of_def Let_def)
  have "is_ok r \<longleftrightarrow> listening os"
    using open_listener_result [OF assms(3), of "''metrics exporter''" "metrics_endpoint_detail ?ep" ?s] run pos
    by (auto simp: start_metrics_exporter_def new_http_server_def split: if_splits)
  then have "start_exporter os a = (r, with_services (rs_exporter_update (\<lambda>_. Some x)) a) \<and>
    (is_ok r \<longleftrightarrow> en \<longrightarrow> listening os) \<and> (Some x = None \<longleftrightarrow> \<not> en) \<and>
    (\<forall>x'. Some x = Some x' \<longrightarrow> server_ok x' \<and> sv_running x' = is_ok r)"
    using assms(4) True run x
    by (simp add: start_exporter_def on_services_def with_services_def)
  then show ?thesis by blast
next
  case False
  have "ra_services a\<lparr>rs_exporter := None\<rparr> = ra_services a" using assms(4) False by simp
  then have "start_exporter os a = (Inr (), with_services (rs_exporter_update (\<lambda>_. None)) a)"
    using assms(4) False by (simp add: start_exporter_def on_services_def with_services_def)
  then show ?thesis using False by auto
qed

subsection \<open>The whole start\<close>

lemma prepared:
  assumes "all_stopped (ra_services a)" "\<not> ra_running a" "prepare_start e c a = p"
  shows "ra_config p = c" "ra_roles p = no_roles" "\<not> ra_running p" "ra_routes p = routes_from_config c"
    "ra_last_stop_reason p = ''not_stopped''"
    "four_up no_roles (ra_services p)" "match_up False (ra_services p)" "bus_held (ra_services p)"
    "rs_strategies (ra_services p) = rs_strategies (ra_services a)"
    "rs_dependencies (ra_services p) = rs_dependencies (ra_services a)" "rs_external (ra_services p) = rs_external (ra_services a)"
    "\<not> rs_startup_failed (ra_services p)"
    "rs_socket (ra_services p) = (if ob_admin_socket_enabled (cf_observability c)
       then Some (new_http_server socket_endpoint_default, new_request_loop) else None)"
    "rs_exporter (ra_services p) = (if ob_metrics_exporter_enabled (cf_observability c)
       then Some (new_http_server metrics_endpoint_default) else None)"
  using assms
  by (auto simp: prepare_start_def Let_def with_services_def configure_admin_http_def configure_admin_socket_def
      configure_metrics_exporter_def all_stopped_def four_up_def match_up_def no_roles_def bus_held_def held_subscriptions_def)

definition startup_possible :: "start_env \<Rightarrow> config \<Rightarrow> strategy_registry \<Rightarrow> bool" where
  "startup_possible e c reg \<longleftrightarrow> validate_config c = Inr () \<and>
     (rr_matching (select_runtime_roles c) \<longrightarrow> strategy_known c reg) \<and>
     (ob_admin_socket_enabled (cf_observability c) \<longrightarrow> listening (se_socket e)) \<and>
     (ob_metrics_exporter_enabled (cf_observability c) \<longrightarrow> listening (se_exporter e))"

text \<open>The services of the selection run; those that are to be stopped after a failure are among them.\<close>

lemma services_started:
  assumes "all_stopped (ra_services a)" "\<not> ra_running a" "prepare_start e c a = p" "validate_config c = Inr ()"
  shows "\<exists>r a1 d. for_each (\<lambda>m. m) (take 7 (startup_steps e)) p = (r, a1) \<and> starting_up c d (ra_services p) a1 \<and>
    roles_le d (select_runtime_roles c) \<and>
    (is_ok r \<longleftrightarrow> rr_matching (select_runtime_roles c) \<longrightarrow> strategy_known c (rs_strategies (ra_services a))) \<and>
    (if is_ok r then match_up (rr_matching (select_runtime_roles c)) (ra_services a1) \<and>
        (\<forall>b. four_up (select_runtime_roles c) (ra_services a1))
     else rr_matching (select_runtime_roles c))"
proof -
  let ?R = "select_runtime_roles c"
  note p = prepared [OF assms(1-3)] and h3 = valid_config_parts(2) [OF assms(4)]
  let ?p1 = "p\<lparr>ra_roles := ?R\<rparr>"
  have "starting_up c no_roles (ra_services p) ?p1" using p by (simp add: starting_up_def)
  moreover have "\<not> rr_processor no_roles" by (simp add: no_roles_def)
  ultimately obtain a2 where 2: "if_role rr_processor (run_processor (se_env e)) ?p1 = (Inr (), a2)"
      "starting_up c (no_roles\<lparr>rr_processor := rr_processor ?R\<rparr>) (ra_services p) a2"
      "rs_matching (ra_services a2) = rs_matching (ra_services p)" "rs_strategies (ra_services a2) = rs_strategies (ra_services p)"
    using run_processor_step [of c no_roles "ra_services p" ?p1 "sp_h3_resolution (cf_spatial c)" "se_env e"] h3 by auto
  let ?d2 = "no_roles\<lparr>rr_processor := rr_processor ?R\<rparr>"
  obtain a3 where 3: "if_role rr_query run_query a2 = (Inr (), a3)"
      "starting_up c (?d2\<lparr>rr_query := rr_query ?R\<rparr>) (ra_services p) a3"
      "rs_matching (ra_services a3) = rs_matching (ra_services p)" "rs_strategies (ra_services a3) = rs_strategies (ra_services p)"
    using run_query_step [OF 2(2) _ h3] 2(3,4) by (auto simp: no_roles_def)
  let ?d3 = "?d2\<lparr>rr_query := rr_query ?R\<rparr>"
  obtain a4 where 4: "if_role rr_geofence run_geofence a3 = (Inr (), a4)"
      "starting_up c (?d3\<lparr>rr_geofence := rr_geofence ?R\<rparr>) (ra_services p) a4"
      "rs_matching (ra_services a4) = rs_matching (ra_services p)" "rs_strategies (ra_services a4) = rs_strategies (ra_services p)"
    using run_geofence_step [OF 3(2)] 3(3,4) by (auto simp: no_roles_def)
  let ?d4 = "?d3\<lparr>rr_geofence := rr_geofence ?R\<rparr>"
  have m4: "match_up False (ra_services a4)" using p(7) 4(3) by (simp add: match_up_def)
  obtain r a5 where 5: "if_role rr_matching run_matching a4 = (r, a5)" "starting_up c ?d4 (ra_services p) a5"
      "is_ok r \<longleftrightarrow> rr_matching ?R \<longrightarrow> strategy_known c (rs_strategies (ra_services a))"
      "if is_ok r then match_up (rr_matching ?R) (ra_services a5) else rr_matching ?R"
    using run_matching_step [OF 4(2) m4 h3] unfolding 4(4) p(9) by blast
  have steps: "for_each (\<lambda>m. m) (take 7 (startup_steps e)) p =
      andthen (if_role rr_matching run_matching) (andthen (if_role rr_gateway run_gateway) skip) a4"
    using assms(4) p(1) 2(1) 3(1) 4(1) by (simp add: startup_steps_def)
  show ?thesis
  proof (cases r)
    case (Inl ex)
    have le: "roles_le ?d4 ?R" by (simp add: roles_le_def no_roles_def)
    have "for_each (\<lambda>m. m) (take 7 (startup_steps e)) p = (Inl ex, a5)"
      unfolding steps using 5(1) Inl by simp
    then show ?thesis using 5 Inl le by auto
  next
    case (Inr u)
    have "\<not> rr_gateway ?d4" by (simp add: no_roles_def)
    then obtain a6 where 6: "if_role rr_gateway run_gateway a5 = (Inr (), a6)"
        "starting_up c (?d4\<lparr>rr_gateway := rr_gateway ?R\<rparr>) (ra_services p) a6"
        "rs_matching (ra_services a6) = rs_matching (ra_services a5)"
      using run_gateway_step [OF 5(2)] by auto
    let ?d6 = "?d4\<lparr>rr_gateway := rr_gateway ?R\<rparr>"
    have le: "roles_le ?d6 ?R" by (simp add: roles_le_def no_roles_def)
    have four: "four_up ?R (ra_services a6)" using 6(2) by (simp add: starting_up_def four_up_def no_roles_def)
    have match: "match_up (rr_matching ?R) (ra_services a6)" using 5(4) Inr 6(3) by (simp add: match_up_def)
    have "for_each (\<lambda>m. m) (take 7 (startup_steps e)) p = (Inr (), a6)"
      unfolding steps using 5(1) 6(1) Inr by simp
    then show ?thesis using 5(3) 6(2) Inr le four match by auto
  qed
qed

text \<open>A running application, and what can be stopped.\<close>

definition probes_registered :: "'e runtime_app \<Rightarrow> bool" where
  "probes_registered a \<longleftrightarrow>
     (\<exists>a0. ra_admin a = ra_admin (register_admin_probes a0) \<and> ra_roles a0 = ra_roles a \<and> ra_config a0 = ra_config a)"

lemma probes_registered_same:
  "ra_admin a = ra_admin a' \<Longrightarrow> ra_roles a = ra_roles a' \<Longrightarrow> ra_config a = ra_config a' \<Longrightarrow> probes_registered a = probes_registered a'"
  by (simp add: probes_registered_def)

definition running_ok :: "'e runtime_app \<Rightarrow> bool" where
  "running_ok a \<longleftrightarrow>
     four_up (ra_roles a) (ra_services a) \<and> match_up (rr_matching (ra_roles a)) (ra_services a) \<and>
     bus_held (ra_services a) \<and> servers_ok (ra_services a) \<and> servers_running True (ra_services a) \<and>
     \<not> rs_startup_failed (ra_services a) \<and> ra_roles a = select_runtime_roles (ra_config a) \<and>
     validate_config (ra_config a) = Inr () \<and> ra_routes a = routes_from_config (ra_config a) \<and>
     (rs_socket (ra_services a) = None \<longleftrightarrow> \<not> admin_socket_enabled a) \<and>
     (rs_exporter (ra_services a) = None \<longleftrightarrow> \<not> metrics_exporter_enabled a) \<and>
     probes_registered a"

definition stoppable :: "'e runtime_app \<Rightarrow> bool" where
  "stoppable a \<longleftrightarrow> (\<exists>d. four_up d (ra_services a) \<and> roles_le d (ra_roles a)) \<and>
     (rr_matching (ra_roles a) \<or> match_up False (ra_services a)) \<and> bus_held (ra_services a) \<and> servers_ok (ra_services a)"

definition runtime_ok :: "'e runtime_app \<Rightarrow> bool" where
  "runtime_ok a \<longleftrightarrow> (if ra_running a then running_ok a else all_stopped (ra_services a))"

lemma stoppable_stopped: "stoppable a \<Longrightarrow> all_stopped (ra_services (stop_started_services v a))"
  using stop_all by (auto simp: stoppable_def)

lemma running_stoppable: "running_ok a \<Longrightarrow> stoppable a"
  unfolding running_ok_def stoppable_def roles_le_def by (cases "rr_matching (ra_roles a)") auto

lemma all_stopped_stoppable:
  "all_stopped (ra_services a) \<Longrightarrow> stoppable a"
  unfolding all_stopped_def stoppable_def by (auto simp: roles_le_def no_roles_def)

lemma register_admin_probes_same [simp]:
  "ra_services (register_admin_probes a) = ra_services a" "ra_config (register_admin_probes a) = ra_config a"
  "ra_roles (register_admin_probes a) = ra_roles a" "ra_running (register_admin_probes a) = ra_running a"
  "ra_routes (register_admin_probes a) = ra_routes a" "ra_last_stop_reason (register_admin_probes a) = ra_last_stop_reason a"
  by (simp_all add: register_admin_probes_def Let_def)

lemma with_services_same [simp]:
  "ra_services (with_services f a) = f (ra_services a)" "ra_config (with_services f a) = ra_config a"
  "ra_roles (with_services f a) = ra_roles a" "ra_running (with_services f a) = ra_running a"
  "ra_routes (with_services f a) = ra_routes a" "ra_admin (with_services f a) = ra_admin a"
  "ra_last_stop_reason (with_services f a) = ra_last_stop_reason a"
  by (simp_all add: with_services_def)

lemma four_up_servers [simp]:
  "four_up d (s\<lparr>rs_socket := so\<rparr>) = four_up d s" "four_up d (s\<lparr>rs_exporter := ex\<rparr>) = four_up d s"
  "match_up b (s\<lparr>rs_socket := so\<rparr>) = match_up b s" "match_up b (s\<lparr>rs_exporter := ex\<rparr>) = match_up b s"
  by (simp_all add: four_up_def match_up_def)

lemma startup_run:
  assumes "all_stopped (ra_services a)" "\<not> ra_running a" "outcome_ok (se_socket e)" "outcome_ok (se_exporter e)" "int_range_ok c"
    and run: "for_each (\<lambda>m. m) (startup_steps e) (prepare_start e c a) = (r, a')"
  shows "(is_ok r \<longleftrightarrow> startup_possible e c (rs_strategies (ra_services a))) \<and> ra_config a' = c \<and>
    ra_routes a' = routes_from_config c \<and> ra_last_stop_reason a' = ''not_stopped'' \<and>
    (if is_ok r then ra_running a' \<and> running_ok a' else stoppable a')"
proof (cases "validate_config c = Inr ()")
  case False
  define p where "p = prepare_start e c a"
  note p = prepared [OF assms(1,2) p_def [symmetric]]
  obtain ex where "validate_config (ra_config p) = Inl ex" using False p(1) by (cases "validate_config c") auto
  then have "r = Inl ex" "a' = p" using run unfolding p_def [symmetric] by (simp_all add: startup_steps_def)
  moreover have "servers_ok (ra_services p)"
    using p(13,14) by (simp add: servers_ok_def admin_server_ok_def server_ok_def new_http_server_def new_request_loop_def)
  moreover have "roles_le no_roles (ra_roles p)" by (simp add: roles_le_def no_roles_def)
  ultimately show ?thesis using p False by (auto simp: startup_possible_def stoppable_def)
next
  case True
  define p where "p = prepare_start e c a"
  note p = prepared [OF assms(1,2) p_def [symmetric]]
  let ?R = "select_runtime_roles c" and ?ob = "cf_observability c"
  obtain r1 a1 d where 1: "for_each (\<lambda>m. m) (take 7 (startup_steps e)) p = (r1, a1)" "starting_up c d (ra_services p) a1"
      "roles_le d ?R" "is_ok r1 \<longleftrightarrow> rr_matching ?R \<longrightarrow> strategy_known c (rs_strategies (ra_services a))"
      "if is_ok r1 then match_up (rr_matching ?R) (ra_services a1) \<and> (\<forall>b::bool. four_up ?R (ra_services a1)) else rr_matching ?R"
    using services_started [OF assms(1,2) p_def [symmetric] True] by blast
  note a1 = starting_upD [OF 1(2)]
  have servers1: "servers_ok (ra_services a1)"
    using a1(1,2) p(13,14) by (simp add: servers_ok_def admin_server_ok_def server_ok_def new_http_server_def new_request_loop_def)
  have steps: "(r, a') = andthen (for_each (\<lambda>m. m) (take 7 (startup_steps e))) (for_each (\<lambda>m. m) (drop 7 (startup_steps e))) p"
    using run unfolding p_def [symmetric] for_each_append [symmetric] append_take_drop_id by (rule sym)
  show ?thesis
  proof (cases "is_ok r1")
    case False
    then have "r = r1" "a' = a1" using steps 1(1) by (cases r1; simp)+
    then show ?thesis using False 1 a1 servers1 by (auto simp: startup_possible_def stoppable_def)
  next
    case r1: True
    let ?b = "register_admin_probes a1"
    have match1: "rr_matching ?R \<or> match_up False (ra_services a1)" using 1(5) r1 by (cases "rr_matching ?R") auto
    have cfg: "validate_config (ra_config ?b) = Inr ()" "int_range_ok (ra_config ?b)" using True assms(5) a1(7) by simp_all
    have sock: "rs_socket (ra_services ?b) = (if ob_admin_socket_enabled ?ob
        then Some (new_http_server socket_endpoint_default, new_request_loop) else None)" using a1(1) p(13) by simp
    obtain r2 so where 2: "start_admin_socket (se_socket e) ?b = (r2, with_services (rs_socket_update (\<lambda>_. so)) ?b)"
        "is_ok r2 \<longleftrightarrow> ob_admin_socket_enabled ?ob \<longrightarrow> listening (se_socket e)" "so = None \<longleftrightarrow> \<not> ob_admin_socket_enabled ?ob"
        "\<forall>x. so = Some x \<longrightarrow> admin_server_ok x \<and> sv_running (fst x) = is_ok r2"
      using start_admin_socket_step [OF cfg assms(3) sock] by blast
    let ?c = "with_services (rs_socket_update (\<lambda>_. so)) ?b"
    have servers2: "servers_ok (ra_services ?c)"
      using servers1 2(4) by (simp del: split_paired_All add: servers_ok_def)
    have tail: "drop 7 (startup_steps e) = [modify register_admin_probes, start_admin_socket (se_socket e), start_exporter (se_exporter e),
        modify (\<lambda>a. a\<lparr>ra_running := True\<rparr>)]" by (simp add: startup_steps_def)
    have "(r, a') = for_each (\<lambda>m. m) (drop 7 (startup_steps e)) a1" using steps 1(1) r1 by (cases r1) simp_all
    then have rest: "(r, a') = andthen (start_admin_socket (se_socket e)) (andthen (start_exporter (se_exporter e))
        (andthen (modify (\<lambda>a. a\<lparr>ra_running := True\<rparr>)) skip)) ?b"
      unfolding tail by simp
    have possible: "startup_possible e c (rs_strategies (ra_services a)) \<longleftrightarrow>
        is_ok r2 \<and> (ob_metrics_exporter_enabled ?ob \<longrightarrow> listening (se_exporter e))"
      using True 1(4) r1 2(2) by (auto simp: startup_possible_def)
    show ?thesis
    proof (cases "is_ok r2")
      case False
      then have "r = r2" "a' = ?c" using rest 2(1) by (cases r2; simp)+
      moreover have "stoppable ?c"
        unfolding stoppable_def using 1(3) a1 servers2 match1 by (intro conjI exI [of _ d]) simp_all
      ultimately show ?thesis using False possible a1 by simp
    next
      case r2: True
      have cfg: "validate_config (ra_config ?c) = Inr ()" "int_range_ok (ra_config ?c)" using True assms(5) a1(7) by simp_all
      have expo: "rs_exporter (ra_services ?c) = (if ob_metrics_exporter_enabled ?ob
          then Some (new_http_server metrics_endpoint_default) else None)" using a1(2) p(14) by simp
      obtain r3 ex where 3: "start_exporter (se_exporter e) ?c = (r3, with_services (rs_exporter_update (\<lambda>_. ex)) ?c)"
          "is_ok r3 \<longleftrightarrow> ob_metrics_exporter_enabled ?ob \<longrightarrow> listening (se_exporter e)" "ex = None \<longleftrightarrow> \<not> ob_metrics_exporter_enabled ?ob"
          "\<forall>x. ex = Some x \<longrightarrow> server_ok x \<and> sv_running x = is_ok r3"
        using start_exporter_step [OF cfg assms(4) expo] by blast
      let ?d = "with_services (rs_exporter_update (\<lambda>_. ex)) ?c"
      have servers3: "servers_ok (ra_services ?d)"
        using servers2 3(4) by (simp del: split_paired_All add: servers_ok_def)
      show ?thesis
      proof (cases "is_ok r3")
        case False
        then have "r = r3" "a' = ?d" using rest 2(1) r2 3(1) by (cases r2; cases r3; simp)+
        moreover have "stoppable ?d"
          unfolding stoppable_def using 1(3) a1 servers3 match1 by (intro conjI exI [of _ d]) simp_all
        ultimately show ?thesis using False possible 3(2) a1 by simp
      next
        case r3: True
        have r: "r = Inr ()" and a': "a' = ?d\<lparr>ra_running := True\<rparr>"
          using rest 2(1) r2 3(1) r3 by (cases r2; cases r3; simp)+
        have "servers_running True (ra_services ?d)"
          using 2(4) 3(4) r2 r3 by (simp del: split_paired_All add: servers_running_def)
        moreover have "probes_registered (?d\<lparr>ra_running := True\<rparr>)"
          unfolding probes_registered_def by (rule exI [of _ a1]) simp
        ultimately have "running_ok a'"
          unfolding running_ok_def a' using 1(5) r1 a1 p(12) True servers3 2(3) 3(3)
          by (simp add: admin_socket_enabled_def metrics_exporter_enabled_def)
        then show ?thesis using r possible r2 r3 3(2) a1 by (simp add: a')
      qed
    qed
  qed
qed

subsection \<open>What the probes report\<close>

text \<open>A dependency that readiness asks for and that does not answer that it is healthy.\<close>

definition dependency_down :: "string \<Rightarrow> 'e services \<Rightarrow> bool" where
  "dependency_down name s = (case check_dependency name (rs_external s) (rs_dependencies s) of
     P_value d \<Rightarrow> \<not> dh_healthy d | _ \<Rightarrow> True)"

definition required_dependency_down :: "config \<Rightarrow> 'e services \<Rightarrow> bool" where
  "required_dependency_down c s \<longleftrightarrow> (let ob = cf_observability c in
     ob_require_kafka_readiness ob \<and> dependency_down ''kafka'' s \<or>
     ob_require_redis_readiness ob \<and> dependency_down ''redis'' s \<or>
     ob_require_postgis_readiness ob \<and> dependency_down ''postgis'' s \<or>
     ob_require_h3_readiness ob \<and> dependency_down ''h3'' s)"

lemma add_component_blocks [simp]:
  "list_ex P (as_components (add_component x ad)) \<longleftrightarrow> list_ex P (as_components ad) \<or> P x"
  "as_components (clear_components ad) = []"
  by (auto simp: add_component_def clear_components_def)

lemma lifecycle_blocks [simp]:
  "blocks rd s \<lparr>rg_name = name, rg_health_probe = Some (lifecycle_health name hs_live (Some p) required),
     rg_readiness_probe = Some (lifecycle_health name hs_ready (Some p) required)\<rparr> \<longleftrightarrow>
   (case p s of P_value h \<Rightarrow> required \<and> \<not> (if rd then hs_ready h else hs_live h) | _ \<Rightarrow> True)"
  by (auto simp: blocks_def probe_of_def lifecycle_health_def split: probe_result.splits)

lemma dependency_blocks:
  "blocks rd s \<lparr>rg_name = name, rg_health_probe = None, rg_readiness_probe = Some (dependency_probe dep)\<rparr> \<longleftrightarrow>
     rd \<and> dependency_down dep s"
  by (auto simp: blocks_def probe_of_def dependency_probe_def readiness_component_def dependency_down_def split: probe_result.splits)

lemma runtime_blocks:
  "blocks rd s \<lparr>rg_name = name, rg_health_probe = Some runtime_probe, rg_readiness_probe = Some runtime_probe\<rparr> \<longleftrightarrow>
     rs_startup_failed s"
  by (auto simp: blocks_def probe_of_def runtime_probe_def)

lemma bus_blocks:
  "\<not> blocks rd s \<lparr>rg_name = name, rg_health_probe = Some (boolean_probe name good bad (Some (\<lambda>_. P_value True)) False),
     rg_readiness_probe = Some (boolean_probe name good bad (Some (\<lambda>_. P_value True)) False)\<rparr>"
  by (auto simp: blocks_def probe_of_def boolean_probe_def)

lemma select_blocks [simp]:
  "list_ex P (as_components (when_selected b f ad)) \<longleftrightarrow> (if b then list_ex P (as_components (f ad)) else list_ex P (as_components ad))"
  by (simp add: when_selected_def)

lemma dependency_probes_block:
  "list_ex (blocks rd s) (as_components (register_dependency_readiness_probes c ad)) \<longleftrightarrow>
     list_ex (blocks rd s) (as_components ad) \<or> rd \<and> required_dependency_down c s"
  unfolding register_dependency_readiness_probes_def Let_def register_readiness_component_def required_dependency_down_def
  by (auto simp: dependency_blocks)

lemma registered_blocks:
  "list_ex (blocks rd s) (as_components (ra_admin (register_admin_probes a))) \<longleftrightarrow>
     rs_startup_failed s \<or>
     rr_gateway (ra_roles a) \<and> \<not> (if rd then hs_ready (gateway_health (rs_gateway s)) else hs_live (gateway_health (rs_gateway s))) \<or>
     rr_processor (ra_roles a) \<and> \<not> (if rd then hs_ready (processor_health (rs_processor s)) else hs_live (processor_health (rs_processor s))) \<or>
     rr_query (ra_roles a) \<and> \<not> (if rd then hs_ready (query_health (rs_query s)) else hs_live (query_health (rs_query s))) \<or>
     rr_geofence (ra_roles a) \<and> \<not> (if rd then hs_ready (engine_health (rs_geofence s)) else hs_live (engine_health (rs_geofence s))) \<or>
     rr_matching (ra_roles a) \<and> \<not> (if rd then hs_ready (matching_health (rs_matching s)) else hs_live (matching_health (rs_matching s))) \<or>
     rd \<and> required_dependency_down (ra_config a) s"
  unfolding register_admin_probes_def Let_def runtime_app.select_convs runtime_app.update_convs
    register_dependency_probe_def register_component_def add_component_blocks dependency_probes_block
    register_lifecycle_probe_def register_runtime_probe_def
  by (cases rd) (simp_all add: runtime_blocks bus_blocks dependency_probes_block socket_probe_def exporter_probe_def disj_ac)

lemma failure_blocks:
  "list_ex (blocks rd s) (as_components (ra_admin (register_startup_failure_probe a))) \<longleftrightarrow> rs_startup_failed s"
  by (simp add: register_startup_failure_probe_def register_runtime_probe_def register_component_def runtime_blocks)

subsection \<open>What an application goes through\<close>

text \<open>What requests, events and the workers may do to the services between two calls of the
  application: anything but starting and stopping them. Dependencies may come and go.\<close>

definition same_status :: "'e services \<Rightarrow> 'e services \<Rightarrow> bool" where
  "same_status s s' \<longleftrightarrow>
     g_running (rs_gateway s') = g_running (rs_gateway s) \<and> g_lifecycle (rs_gateway s') = g_lifecycle (rs_gateway s) \<and>
     rs_processor s' = rs_processor s \<and> rs_geofence s' = rs_geofence s \<and>
     qs_running (rs_query s') = qs_running (rs_query s) \<and> qs_lifecycle (rs_query s') = qs_lifecycle (rs_query s) \<and>
     ms_running (rs_matching s') = ms_running (rs_matching s) \<and> ms_lifecycle (rs_matching s') = ms_lifecycle (rs_matching s) \<and>
     w_bus (rs_world s') = w_bus (rs_world s) \<and> rs_exporter s' = rs_exporter s \<and>
     map_option (\<lambda>(x, l). (x, rl_running l, rl_lifecycle l)) (rs_socket s') =
       map_option (\<lambda>(x, l). (x, rl_running l, rl_lifecycle l)) (rs_socket s) \<and>
     rs_startup_failed s' = rs_startup_failed s \<and> rs_last_start_error s' = rs_last_start_error s"

inductive runtime_reach :: "'e runtime_app \<Rightarrow> bool" where
  created: "runtime_reach (new_runtime flags b reg ext now_ns)"
| started: "runtime_reach a \<Longrightarrow> outcome_ok (se_socket e) \<Longrightarrow> outcome_ok (se_exporter e) \<Longrightarrow> int_range_ok c \<Longrightarrow>
     runtime_reach (snd (start_runtime e c a))"
| stopped: "runtime_reach a \<Longrightarrow> runtime_reach (stop_runtime v reason a)"
| worked: "runtime_reach a \<Longrightarrow> same_status (ra_services a) s' \<Longrightarrow> runtime_reach (a\<lparr>ra_services := s'\<rparr>)"

lemma same_status_socket:
  assumes "same_status s s'"
  shows "rs_socket s' = None \<longleftrightarrow> rs_socket s = None"
    "rs_socket s' = Some x \<Longrightarrow> \<exists>l. rs_socket s = Some (fst x, l) \<and> rl_running l = rl_running (snd x) \<and> rl_lifecycle l = rl_lifecycle (snd x)"
  using assms by (cases "rs_socket s'"; cases "rs_socket s"; auto simp: same_status_def)+

lemma same_status_keeps:
  assumes "same_status s s'"
  shows "four_up d s' = four_up d s" "match_up b s' = match_up b s" "bus_held s' = bus_held s"
    "servers_ok s \<Longrightarrow> servers_ok s'" "servers_running c s \<Longrightarrow> servers_running c s'" "rs_startup_failed s' = rs_startup_failed s"
proof -
  show "four_up d s' = four_up d s" "match_up b s' = match_up b s" "bus_held s' = bus_held s" "rs_startup_failed s' = rs_startup_failed s"
    using assms by (simp_all add: same_status_def four_up_def match_up_def bus_held_def held_subscriptions_def)
  show "servers_ok s'" if "servers_ok s"
    using that same_status_socket(2) [OF assms] assms
    by (fastforce simp: servers_ok_def admin_server_ok_def same_status_def)
  show "servers_running c s'" if "servers_running c s"
    using that same_status_socket(2) [OF assms] assms
    by (fastforce simp: servers_running_def same_status_def)
qed

lemma same_status_ok:
  assumes "runtime_ok a" "same_status (ra_services a) s'"
  shows "runtime_ok (a\<lparr>ra_services := s'\<rparr>)"
proof -
  note keeps = same_status_keeps [OF assms(2)] same_status_socket(1) [OF assms(2)]
  have ex: "rs_exporter s' = rs_exporter (ra_services a)" using assms(2) by (simp add: same_status_def)
  have probes: "probes_registered (a\<lparr>ra_services := s'\<rparr>) = probes_registered a" by (rule probes_registered_same) simp_all
  show ?thesis
  proof (cases "ra_running a")
    case True
    then have r: "running_ok a" using assms(1) by (simp add: runtime_ok_def)
    have "running_ok (a\<lparr>ra_services := s'\<rparr>)"
      using r keeps(4,5) unfolding running_ok_def probes
      by (elim conjE) (simp add: keeps(1-3,6,7) ex admin_socket_enabled_def metrics_exporter_enabled_def)
    then show ?thesis using True by (simp add: runtime_ok_def)
  next
    case False
    then show ?thesis using assms(1) keeps(1-5) by (simp add: runtime_ok_def all_stopped_def)
  qed
qed

lemma stop_keeps [simp]:
  "ra_config (stop_started_services v a) = ra_config a" "ra_roles (stop_started_services v a) = ra_roles a"
  "ra_routes (stop_started_services v a) = ra_routes a" "ra_admin (stop_started_services v a) = ra_admin a"
  "ra_running (stop_started_services v a) = ra_running a"
  "ra_last_stop_reason (stop_started_services v a) = ra_last_stop_reason a"
  by (simp_all add: stop_started_services_def Let_def)

lemma all_stopped_flags [simp]:
  "all_stopped (s\<lparr>rs_startup_failed := b, rs_last_start_error := e\<rparr>) = all_stopped s"
  by (simp add: all_stopped_def four_up_def match_up_def servers_ok_def servers_running_def)

lemma failure_probe_same [simp]:
  "ra_services (register_startup_failure_probe a) = ra_services a" "ra_config (register_startup_failure_probe a) = ra_config a"
  "ra_running (register_startup_failure_probe a) = ra_running a" "ra_routes (register_startup_failure_probe a) = ra_routes a"
  by (simp_all add: register_startup_failure_probe_def)

lemma startup_failure_stopped:
  assumes "stoppable a" "startup_failure v ex a = a'"
  shows "all_stopped (ra_services a')" "\<not> ra_running a'" "rs_startup_failed (ra_services a')" "rs_last_start_error (ra_services a') = ex"
    "list_ex (blocks rd (ra_services a')) (as_components (ra_admin a'))" "ra_config a' = ra_config a" "ra_routes a' = ra_routes a"
proof -
  define b where "b = stop_started_services v a"
  have b: "all_stopped (ra_services b)" "ra_config b = ra_config a" "ra_routes b = ra_routes a"
    using stoppable_stopped [OF assms(1)] by (simp_all add: b_def)
  define c where "c = (with_services (\<lambda>s. s\<lparr>rs_startup_failed := True, rs_last_start_error := ex\<rparr>) b)\<lparr>ra_running := False, ra_roles := no_roles\<rparr>"
  have a': "a' = register_startup_failure_probe c"
    using assms(2) unfolding startup_failure_def Let_def b_def [symmetric] c_def [symmetric] by simp
  show "all_stopped (ra_services a')" "\<not> ra_running a'" "rs_startup_failed (ra_services a')" "rs_last_start_error (ra_services a') = ex"
    "ra_config a' = ra_config a" "ra_routes a' = ra_routes a"
    using b by (simp_all add: a' c_def)
  show "list_ex (blocks rd (ra_services a')) (as_components (ra_admin a'))"
    unfolding a' failure_blocks by (simp add: c_def)
qed

lemma start_runtime_result:
  assumes "all_stopped (ra_services a)" "\<not> ra_running a" "outcome_ok (se_socket e)" "outcome_ok (se_exporter e)" "int_range_ok c"
    and "start_runtime e c a = (r, a')"
  shows "is_ok r \<longleftrightarrow> startup_possible e c (rs_strategies (ra_services a))" "ra_config a' = c" "ra_routes a' = routes_from_config c"
    "is_ok r \<Longrightarrow> ra_running a' \<and> running_ok a'"
    "\<not> is_ok r \<Longrightarrow> \<not> ra_running a' \<and> all_stopped (ra_services a') \<and> rs_startup_failed (ra_services a') \<and>
       r = Inl (''Runtime startup failed: '' @ rs_last_start_error (ra_services a')) \<and>
       list_ex (blocks rd (ra_services a')) (as_components (ra_admin a'))"
proof -
  obtain r0 a0 where run: "for_each (\<lambda>m. m) (startup_steps e) (prepare_start e c a) = (r0, a0)" by fastforce
  note res = startup_run [OF assms(1-5) run]
  have eq: "(r, a') = (case r0 of Inr _ \<Rightarrow> (Inr (), a0)
      | Inl ex \<Rightarrow> (Inl (''Runtime startup failed: '' @ ex), startup_failure (se_env e) ex a0))"
    using assms(2,6) unfolding start_runtime_def run by (simp split: sum.splits)
  have ok: "is_ok r = is_ok r0" using eq by (cases r0) simp_all
  have ok2: "is_ok r0 \<Longrightarrow> a' = a0" using eq by (cases r0) simp_all
  have ok3: "r0 = Inl ex \<Longrightarrow> r = Inl (''Runtime startup failed: '' @ ex) \<and> startup_failure (se_env e) ex a0 = a'" for ex
    using eq by simp
  show "is_ok r \<longleftrightarrow> startup_possible e c (rs_strategies (ra_services a))" using res ok by simp
  show "is_ok r \<Longrightarrow> ra_running a' \<and> running_ok a'" using res ok ok2 by simp
  have fail: "\<exists>ex. stoppable a0 \<and> startup_failure (se_env e) ex a0 = a' \<and> r = Inl (''Runtime startup failed: '' @ ex)"
    if "\<not> is_ok r" using that res ok ok3 by (cases r0) simp_all
  have "ra_config a' = c \<and> ra_routes a' = routes_from_config c"
  proof (cases "is_ok r")
    case True
    then show ?thesis using res ok ok2 by simp
  next
    case False
    then show ?thesis using res fail startup_failure_stopped(6,7) [of a0] by metis
  qed
  then show "ra_config a' = c" "ra_routes a' = routes_from_config c" by simp_all
  show "\<not> is_ok r \<Longrightarrow> \<not> ra_running a' \<and> all_stopped (ra_services a') \<and> rs_startup_failed (ra_services a') \<and>
       r = Inl (''Runtime startup failed: '' @ rs_last_start_error (ra_services a')) \<and>
       list_ex (blocks rd (ra_services a')) (as_components (ra_admin a'))"
    using fail startup_failure_stopped(1-5) by metis
qed

lemma runtime_reach_ok: "runtime_reach a \<Longrightarrow> runtime_ok a"
proof (induction rule: runtime_reach.induct)
  case (created flags b reg ext now_ns)
  then show ?case by (simp add: runtime_ok_def new_runtime_def)
next
  case (started a e c)
  show ?case
  proof (cases "ra_running a")
    case True
    then show ?thesis using started.IH by (simp add: start_runtime_def)
  next
    case False
    then have stopped: "all_stopped (ra_services a)" using started.IH by (simp add: runtime_ok_def)
    obtain r a' where run: "start_runtime e c a = (r, a')" by fastforce
    note res = start_runtime_result(4,5) [OF stopped False started.hyps(2,3,4) run]
    show ?thesis unfolding run snd_conv runtime_ok_def using res by (cases "is_ok r") auto
  qed
next
  case (stopped a v reason)
  show ?case
  proof (cases "ra_running a")
    case True
    then have "stoppable (a\<lparr>ra_last_stop_reason := r\<rparr>)" for r
      using stopped.IH running_stoppable [of a] by (simp add: runtime_ok_def stoppable_def)
    then have "all_stopped (ra_services (stop_started_services v (a\<lparr>ra_last_stop_reason := r\<rparr>)))" for r
      by (rule stoppable_stopped)
    then show ?thesis using True by (simp add: stop_runtime_def Let_def runtime_ok_def)
  next
    case False
    then show ?thesis using stopped.IH by (simp add: stop_runtime_def Let_def runtime_ok_def)
  qed
next
  case (worked a s')
  then show ?case using same_status_ok by blast
qed

subsection \<open>Starting, health and stopping\<close>

definition services_running :: "role_selection \<Rightarrow> 'e services \<Rightarrow> bool" where
  "services_running d s \<longleftrightarrow>
     gateway_is_healthy (rs_gateway s) = rr_gateway d \<and> gateway_is_ready (rs_gateway s) = rr_gateway d \<and>
     processor_is_healthy (rs_processor s) = rr_processor d \<and> processor_is_ready (rs_processor s) = rr_processor d \<and>
     query_is_healthy (rs_query s) = rr_query d \<and> query_is_ready (rs_query s) = rr_query d \<and>
     engine_is_healthy (rs_geofence s) = rr_geofence d \<and> engine_is_ready (rs_geofence s) = rr_geofence d \<and>
     matching_is_healthy (rs_matching s) = rr_matching d \<and> matching_is_ready (rs_matching s) = rr_matching d"

lemma four_up_running: "four_up d s \<Longrightarrow> match_up (rr_matching d) s \<Longrightarrow> services_running d s"
  by (simp add: four_up_def match_up_def services_running_def state_of_def gateway_is_healthy_def gateway_is_ready_def
      processor_is_healthy_def processor_is_ready_def query_is_healthy_def query_is_ready_def engine_is_healthy_def
      engine_is_ready_def matching_is_healthy_def matching_is_ready_def)

lemma running_up: "running_ok a \<Longrightarrow> services_running (ra_roles a) (ra_services a)"
  unfolding running_ok_def by (elim conjE) (rule four_up_running)

lemma all_stopped_bus: "all_stopped s \<Longrightarrow> callbacks_of (w_bus (rs_world s)) k = []"
  using bus_heldD [of s _ k]
  by (cases "entries (w_bus (rs_world s)) k")
     (force simp: all_stopped_def four_up_def no_roles_def held_subscriptions_def callbacks_of_def)+

lemma all_stopped_running: "all_stopped s \<Longrightarrow> services_running no_roles s"
  by (rule four_up_running) (simp_all add: all_stopped_def no_roles_def)

lemma servers_running_sockets:
  "servers_running b (ra_services a) \<Longrightarrow> admin_socket_running a = (b \<and> rs_socket (ra_services a) \<noteq> None) \<and>
     metrics_exporter_running a = (b \<and> rs_exporter (ra_services a) \<noteq> None)"
  by (auto simp: servers_running_def admin_socket_running_def metrics_exporter_running_def split: option.splits)

lemma running_sockets:
  "running_ok a \<Longrightarrow> admin_socket_running a = admin_socket_enabled a \<and> metrics_exporter_running a = metrics_exporter_enabled a"
  using servers_running_sockets [of True a] unfolding running_ok_def by blast

definition get_request :: "string \<Rightarrow> http_request" where
  "get_request path = http_request_default\<lparr>hq_method := ''GET'', hq_path := path\<rparr>"

lemma get_health_status:
  assumes "admin_http_enabled a" "is_health_path path (ra_routes a)"
  shows "hp_status_code (handle_admin_http now (get_request path) a) =
    (if list_ex (blocks False (ra_services a)) (as_components (ra_admin a)) then 503 else 200)"
  using assms
  by (simp add: handle_admin_http_def get_request_def handle_http_def method_can_route_def endpoint_to_http_def
      add_standard_headers_def plain_response_def endpoint_health_def admin_health_def health_endpoint_response_def healthy_iff_unblocked)

lemma get_ready_status:
  assumes "admin_http_enabled a" "is_readiness_path path (ra_routes a)" "\<not> is_health_path path (ra_routes a)"
  shows "hp_status_code (handle_admin_http now (get_request path) a) =
    (if list_ex (blocks True (ra_services a)) (as_components (ra_admin a)) then 503 else 200)"
  using assms
  by (simp add: handle_admin_http_def get_request_def handle_http_def method_can_route_def endpoint_to_http_def
      add_standard_headers_def plain_response_def endpoint_readiness_def admin_readiness_def health_endpoint_response_def healthy_iff_unblocked)

text \<open>C8: A start is all or nothing. From whatever the application went through before, it succeeds
  exactly when the configuration is valid, the configured strategy exists if the role matches,
  and the sockets that are enabled can be opened. Then precisely the services of the role and
  the enabled servers run. Otherwise it raises with the first error; then no service and no
  server runs, no subscription is left on the bus, and the health endpoint answers 503.\<close>

theorem runtime_start_atomic:
  assumes "runtime_reach a" "\<not> ra_running a" "outcome_ok (se_socket e)" "outcome_ok (se_exporter e)" "int_range_ok c"
  shows "let (r, a') = start_runtime e c a; s = ra_services a'; roles = select_runtime_roles c; ob = cf_observability c in
    (is_ok r \<longleftrightarrow> validate_config c = Inr () \<and>
       (rr_matching roles \<longrightarrow> strategy_known c (rs_strategies (ra_services a))) \<and>
       (ob_admin_socket_enabled ob \<longrightarrow> listening (se_socket e)) \<and>
       (ob_metrics_exporter_enabled ob \<longrightarrow> listening (se_exporter e))) \<and>
    ra_running a' = is_ok r \<and> services_running (if is_ok r then roles else no_roles) s \<and>
    admin_socket_running a' = (is_ok r \<and> ob_admin_socket_enabled ob) \<and>
    metrics_exporter_running a' = (is_ok r \<and> ob_metrics_exporter_enabled ob) \<and>
    (\<not> is_ok r \<longrightarrow> rs_startup_failed s \<and> r = Inl (''Runtime startup failed: '' @ rs_last_start_error s) \<and>
       (\<forall>k. callbacks_of (w_bus (rs_world s)) k = []) \<and>
       (admin_http_enabled a' \<longrightarrow> hp_status_code (handle_admin_http now (get_request (ob_health_path ob)) a') = 503))"
proof -
  obtain r a' where run: "start_runtime e c a = (r, a')" by fastforce
  have stopped: "all_stopped (ra_services a)" using runtime_reach_ok [OF assms(1)] assms(2) by (simp add: runtime_ok_def)
  note res = start_runtime_result [OF stopped assms(2-5) run]
  have health: "is_health_path (ob_health_path (cf_observability c)) (ra_routes a')"
    by (simp add: res(3) routes_from_config_def Let_def is_health_path_def)
  show ?thesis
  proof (cases "is_ok r")
    case True
    then have ok: "ra_running a'" "running_ok a'" using res(4) by simp_all
    have roles: "ra_roles a' = select_runtime_roles c" using ok(2) res(2) by (simp add: running_ok_def)
    have up: "services_running (select_runtime_roles c) (ra_services a')"
      using running_up [OF ok(2)] unfolding roles .
    have "admin_socket_running a' = ob_admin_socket_enabled (cf_observability c)"
      "metrics_exporter_running a' = ob_metrics_exporter_enabled (cf_observability c)"
      using running_sockets [OF ok(2)] res(2) by (simp_all add: admin_socket_enabled_def metrics_exporter_enabled_def)
    then show ?thesis using True run res(1) ok(1) up by (simp add: startup_possible_def Let_def)
  next
    case False
    note fail = res(5) [OF this, of False]
    then have "servers_running False (ra_services a')" by (simp add: all_stopped_def)
    then show ?thesis
      using False run res(1) fail all_stopped_running [of "ra_services a'"] all_stopped_bus [of "ra_services a'"]
        servers_running_sockets [of False a'] get_health_status [OF _ health, of now]
      by (simp add: startup_possible_def Let_def)
  qed
qed

text \<open>The defaults leave the database address empty, which is not valid.\<close>

definition local_config :: config where
  "local_config = config_default\<lparr>cf_postgis := postgis_config_default\<lparr>pc_dsn := ''host=localhost''\<rparr>\<rparr>"

lemma full_range: "int_range_ok local_config"
  using default_ints by (simp add: int_range_ok_def config_ints_def local_config_def config_default_def postgis_ints_def)

definition sample_start_env :: "listen_outcome \<Rightarrow> start_env" where
  "sample_start_env os = \<lparr>se_env = sample_env, se_now_ns = 0, se_socket = os, se_exporter = os\<rparr>"

definition port_taken :: listen_outcome where
  "port_taken = \<lparr>lo_socket = Inr 3, lo_reuse = None, lo_addr_ok = True, lo_bind = Some ''Address already in use'',
     lo_listen = None, lo_name = Inr 9101\<rparr>"

definition socket_config :: config where
  "socket_config = local_config\<lparr>cf_observability := observability_config_default\<lparr>ob_admin_socket_enabled := True\<rparr>\<rparr>"

definition sample_app :: "unit runtime_app" where
  "sample_app = new_runtime \<lparr>bf_kafka = False, bf_redis = False, bf_postgis = False, bf_h3 = False\<rparr> [] [] () 0"

lemma sample_app_stopped: "\<not> ra_running sample_app" "runtime_reach sample_app"
  by (simp_all add: sample_app_def new_runtime_def runtime_reach.created [unfolded new_runtime_def])

theorem runtime_start_atomic_witness:
  "let (r, a') = start_runtime (sample_start_env port_taken) socket_config sample_app in
    \<not> is_ok r \<and> \<not> ra_running a' \<and> services_running no_roles (ra_services a') \<and> \<not> admin_socket_running a'"
proof -
  have "outcome_ok (se_socket (sample_start_env port_taken))" "outcome_ok (se_exporter (sample_start_env port_taken))"
    "int_range_ok socket_config" "ob_admin_socket_enabled (cf_observability socket_config)"
    "\<not> listening (se_socket (sample_start_env port_taken))"
    using full_range
    by (simp_all add: outcome_ok_def sample_start_env_def port_taken_def int_range_ok_def config_ints_def socket_config_def
        observability_ints_def local_config_def config_default_def observability_config_default_def listening_def)
  then show ?thesis
    using runtime_start_atomic [OF sample_app_stopped(2,1), of "sample_start_env port_taken" socket_config 0]
    by (auto simp: Let_def split: prod.splits)
qed

lemma running_blocks:
  assumes "running_ok a"
  shows "list_ex (blocks rd (ra_services a)) (as_components (ra_admin a)) \<longleftrightarrow> rd \<and> required_dependency_down (ra_config a) (ra_services a)"
proof -
  obtain a0 where a0: "ra_admin a = ra_admin (register_admin_probes a0)" "ra_roles a0 = ra_roles a" "ra_config a0 = ra_config a"
    using assms unfolding running_ok_def probes_registered_def by blast
  have up: "four_up (ra_roles a) (ra_services a)" "match_up (rr_matching (ra_roles a)) (ra_services a)" "\<not> rs_startup_failed (ra_services a)"
    using assms unfolding running_ok_def by blast+
  show ?thesis
    unfolding a0(1) registered_blocks a0(2,3) using up
    by (auto simp: four_up_def match_up_def state_of_def gateway_health_def processor_health_def query_health_def
        engine_health_def matching_health_def ready_health_def)
qed

lemma runtime_reach_health:
  assumes "runtime_reach a" "ra_running a"
  shows "runtime_is_healthy now a" "runtime_is_ready now a = (\<not> required_dependency_down (ra_config a) (ra_services a))"
proof -
  have ok: "running_ok a" using runtime_reach_ok [OF assms(1)] assms(2) by (simp add: runtime_ok_def)
  have "\<not> rs_startup_failed (ra_services a)" using ok by (simp add: running_ok_def)
  then show "runtime_is_healthy now a" "runtime_is_ready now a = (\<not> required_dependency_down (ra_config a) (ra_services a))"
    using assms(2) running_up [OF ok] running_blocks [OF ok]
    by (auto simp: runtime_is_healthy_def runtime_is_ready_def Let_def services_running_def admin_health_def
        admin_readiness_def healthy_iff_unblocked)
qed

lemma stopped_runtime_down:
  assumes "runtime_reach a" "\<not> ra_running a"
  shows "services_running no_roles (ra_services a)" "\<not> admin_socket_running a" "\<not> metrics_exporter_running a"
    "callbacks_of (w_bus (rs_world (ra_services a))) k = []"
proof -
  have all: "all_stopped (ra_services a)" using runtime_reach_ok [OF assms(1)] assms(2) by (simp add: runtime_ok_def)
  show "services_running no_roles (ra_services a)" "callbacks_of (w_bus (rs_world (ra_services a))) k = []"
    using all_stopped_running [OF all] all_stopped_bus [OF all] by simp_all
  show "\<not> admin_socket_running a" "\<not> metrics_exporter_running a"
    using servers_running_sockets [of False a] all by (simp_all add: all_stopped_def)
qed

text \<open>C34: What the application says about itself is what holds. It is healthy exactly while it runs,
  and ready exactly when, besides, every dependency its configuration makes readiness wait for
  answers that it is healthy; a source that is not registered or raises does not. The health and
  readiness endpoints of a running application answer 200 or 503 accordingly.\<close>

theorem runtime_health_meaning:
  assumes "runtime_reach a"
  shows "runtime_is_healthy now a = ra_running a \<and>
    runtime_is_ready now a = (ra_running a \<and> \<not> required_dependency_down (ra_config a) (ra_services a)) \<and>
    (ra_running a \<and> admin_http_enabled a \<longrightarrow>
      (\<forall>path. is_health_path path (ra_routes a) \<longrightarrow>
         hp_status_code (handle_admin_http now (get_request path) a) = 200) \<and>
      (\<forall>path. is_readiness_path path (ra_routes a) \<and> \<not> is_health_path path (ra_routes a) \<longrightarrow>
         hp_status_code (handle_admin_http now (get_request path) a) = (if runtime_is_ready now a then 200 else 503)))"
proof (cases "ra_running a")
  case True
  then have ok: "running_ok a" using runtime_reach_ok [OF assms] by (simp add: runtime_ok_def)
  show ?thesis
    using True running_blocks [OF ok] runtime_reach_health [OF assms True] by (simp add: get_health_status get_ready_status)
qed (simp add: runtime_is_healthy_def runtime_is_ready_def Let_def)

text \<open>Stopping leaves nothing behind: no service and no server of the application runs, the event
  bus has no subscription of any type, and the reason is recorded. Stopping again changes
  nothing but the reason, and the health endpoint of an application that ran a service answers
  503 from then on.\<close>

lemma runtime_stop_clean:
  assumes "runtime_reach a" "stop_runtime v reason a = a'"
  shows "\<not> ra_running a' \<and> services_running no_roles (ra_services a') \<and>
    \<not> admin_socket_running a' \<and> \<not> metrics_exporter_running a' \<and>
    callbacks_of (w_bus (rs_world (ra_services a'))) k = [] \<and>
    ra_last_stop_reason a' = (if reason = [] then ''requested'' else reason) \<and>
    \<not> runtime_is_healthy now a' \<and> stop_runtime v' reason' a' = a'\<lparr>ra_last_stop_reason := (if reason' = [] then ''requested'' else reason')\<rparr> \<and>
    (ra_running a \<and> ra_roles a \<noteq> no_roles \<and> admin_http_enabled a \<and> is_health_path path (ra_routes a) \<longrightarrow>
       hp_status_code (handle_admin_http now (get_request path) a') = 503)"
proof -
  have reach: "runtime_reach a'" using runtime_reach.stopped [OF assms(1)] assms(2) by blast
  have stopped: "\<not> ra_running a'" "ra_last_stop_reason a' = (if reason = [] then ''requested'' else reason)"
    using assms(2) by (cases "ra_running a"; auto simp: stop_runtime_def Let_def)+
  have all: "all_stopped (ra_services a')" using runtime_reach_ok [OF reach] stopped(1) by (simp add: runtime_ok_def)
  have again: "stop_runtime v' reason' a' = a'\<lparr>ra_last_stop_reason := (if reason' = [] then ''requested'' else reason')\<rparr>"
    using stopped(1) by (simp add: stop_runtime_def Let_def)
  have "hp_status_code (handle_admin_http now (get_request path) a') = 503"
    if a: "ra_running a" "ra_roles a \<noteq> no_roles" "admin_http_enabled a" "is_health_path path (ra_routes a)"
  proof -
    have ok: "running_ok a" using runtime_reach_ok [OF assms(1)] a(1) by (simp add: runtime_ok_def)
    then obtain a0 where a0: "ra_admin a = ra_admin (register_admin_probes a0)" "ra_roles a0 = ra_roles a" "ra_config a0 = ra_config a"
      unfolding running_ok_def probes_registered_def by blast
    have same: "ra_admin a' = ra_admin a" "ra_routes a' = ra_routes a" "ra_config a' = ra_config a"
      using assms(2) a(1) by (auto simp: stop_runtime_def Let_def)
    have "list_ex (blocks False (ra_services a')) (as_components (ra_admin a'))"
      unfolding same(1) a0(1) registered_blocks a0(2,3) using all a(2)
      by (cases "ra_roles a") (auto simp: all_stopped_def four_up_def match_up_def no_roles_def state_of_def gateway_health_def
        processor_health_def query_health_def engine_health_def matching_health_def stopped_health_def)
    then show ?thesis
      using a(3,4) get_health_status [of a' path now] same by (simp add: admin_http_enabled_def)
  qed
  then show ?thesis
    using stopped stopped_runtime_down [OF reach stopped(1)] again
    by (simp add: runtime_is_healthy_def)
qed

subsection \<open>Examples\<close>

definition plain_start :: start_env where
  "plain_start = sample_start_env (port_taken\<lparr>lo_bind := None\<rparr>)"

lemma local_config_valid: "validate_config local_config = Inr ()"
  by code_simp

definition started_app :: "unit runtime_app" where
  "started_app = snd (start_runtime plain_start local_config sample_app)"

lemma started_app_runs: "runtime_reach started_app" "ra_running started_app" "ra_config started_app = local_config"
proof -
  have env: "outcome_ok (se_socket plain_start)" "outcome_ok (se_exporter plain_start)"
    by (simp_all add: plain_start_def sample_start_env_def port_taken_def outcome_ok_def)
  show "runtime_reach started_app"
    unfolding started_app_def by (rule runtime_reach.started [OF sample_app_stopped(2) env full_range])
  obtain r where run: "start_runtime plain_start local_config sample_app = (r, started_app)"
    by (cases "start_runtime plain_start local_config sample_app") (auto simp: started_app_def)
  have stopped: "all_stopped (ra_services sample_app)" by (simp add: sample_app_def new_runtime_def)
  note res = start_runtime_result [OF stopped sample_app_stopped(1) env full_range run]
  have "startup_possible plain_start local_config (rs_strategies (ra_services sample_app))"
    using local_config_valid
    by (simp add: startup_possible_def strategy_known_def local_config_def config_default_def matching_config_default_def
        observability_config_default_def)
  then show "ra_running started_app" "ra_config started_app = local_config" using res(1,2,4) by simp_all
qed

theorem runtime_health_meaning_witness:
  "runtime_is_healthy 0 started_app \<and> runtime_is_ready 0 started_app"
  using runtime_health_meaning [OF started_app_runs(1), of 0] started_app_runs(2,3)
  by (simp add: required_dependency_down_def local_config_def config_default_def observability_config_default_def)

end
