(* ===== verification/Process.thy ===== *)
theory Process
  imports Runtime
begin

text \<open>
  The process of \<open>main.cpp\<close>: its arguments, the configuration it loads, and the loop that watches
  the application until a signal arrives.

  The file system is a function from paths to contents. The loop reads the stop flag, asks the
  application for its health and sleeps; a list says, for each of its rounds, whether the flag is
  set, what the steady clock answers and what has happened to the services meanwhile. When the
  list ends before the loop does, the process is still running: \<open>None\<close>. The signal that set the
  flag is a parameter. \<open>Metrics::initialize\<close> has no effect and is left out.
\<close>

subsection \<open>Arguments\<close>

definition starts_with :: "string \<Rightarrow> string \<Rightarrow> bool" where
  "starts_with p s = (take (length p) s = p)"

text \<open>The path of the configuration and the role, when one is given.\<close>

fun parse_args :: "string list \<Rightarrow> string \<times> string \<Rightarrow> string \<times> string" where
  "parse_args [] acc = acc"
| "parse_args (arg # args) (path, role) =
     (if starts_with ''--role='' arg then parse_args args (path, drop 7 arg)
      else if starts_with ''--config='' arg then parse_args args (drop 9 arg, role)
      else parse_args args (arg, role))"

definition default_args :: "string \<times> string" where
  "default_args = (''config/signalroute.toml'', [])"

definition main_config :: "(string \<Rightarrow> string option) \<Rightarrow> string \<Rightarrow> string \<Rightarrow> config exc" where
  "main_config files path role =
     bind_exc (load_config path (files path)) (\<lambda>c.
       if role = [] then Inr c
       else let c' = c\<lparr>cf_server := (cf_server c)\<lparr>sv_role := role\<rparr>\<rparr>
            in bind_exc (validate_config c') (\<lambda>_. Inr c'))"

subsection \<open>The run of a process\<close>

text \<open>The events it logs; those of level error go to the standard error.\<close>

definition runtime_event :: "string \<Rightarrow> string \<Rightarrow> string \<Rightarrow> (string \<times> string) list \<Rightarrow> log_event" where
  "runtime_event level event message fs =
     make_log_event level ''signalroute'' event message (map (\<lambda>(k, v). \<lparr>lf_key = k, lf_value = v\<rparr>) fs)"

record 'e poll =
  pl_stop_flag :: bool
  pl_now_ns :: int
  pl_change :: "'e services \<Rightarrow> 'e services"

fun watch :: "'e poll list \<Rightarrow> 'e runtime_app \<Rightarrow> (string \<times> 'e runtime_app) option" where
  "watch [] a = None"
| "watch (p # ps) a0 =
     (let a = with_services (pl_change p) a0 in
      if pl_stop_flag p then Some (''signal'', a)
      else if \<not> runtime_is_healthy (pl_now_ns p) a then Some (''unhealthy'', a)
      else watch ps a)"

record 'e process_end =
  pe_exit_code :: int
  pe_app :: "'e runtime_app option"
  pe_log :: "log_event list"

definition stop_main :: "env \<Rightarrow> int \<Rightarrow> config \<Rightarrow> log_event list \<Rightarrow> string \<times> 'e runtime_app \<Rightarrow> 'e process_end" where
  "stop_main v signal c evs = (\<lambda>(reason, a).
     let role = sv_role (cf_server c); a' = stop_runtime v reason a in
     \<lparr>pe_exit_code = 0, pe_app = Some a', pe_log = evs @
       (if reason = ''unhealthy'' then [runtime_event ''error'' ''runtime.unhealthy''
          ''runtime unhealthy; initiating shutdown'' [(''role'', role)]] else []) @
       [runtime_event ''info'' ''runtime.stopping'' ''runtime stopping''
          [(''role'', role), (''reason'', reason), (''signal'', show_int signal)],
        runtime_event ''info'' ''runtime.stopped'' ''runtime stopped''
          [(''role'', role), (''reason'', ra_last_stop_reason a')]]\<rparr>)"

definition run_main :: "string list \<Rightarrow> (string \<Rightarrow> string option) \<Rightarrow> start_env \<Rightarrow> 'e poll list \<Rightarrow> int \<Rightarrow> 'e runtime_app \<Rightarrow>
    'e process_end option" where
  "run_main args files e polls signal a0 =
     (let (path, role) = parse_args args default_args;
          log0 = [runtime_event ''info'' ''runtime.starting'' ''starting SignalRoute process'' [(''config_path'', path)]] in
      case main_config files path role of
        Inl ex \<Rightarrow> Some \<lparr>pe_exit_code = 1, pe_app = None, pe_log = log0 @
          [runtime_event ''error'' ''runtime.config_failed'' ''failed to load config''
             [(''config_path'', path), (''error'', ex)]]\<rparr>
      | Inr c \<Rightarrow> (case start_runtime e c a0 of
          (Inl ex, a) \<Rightarrow> Some \<lparr>pe_exit_code = 1,
            pe_app = Some (if ra_running a then stop_runtime (se_env e) ''fatal'' a else a), pe_log = log0 @
            [runtime_event ''error'' ''runtime.fatal'' ''fatal runtime error''
               [(''role'', sv_role (cf_server c)), (''error'', ex)]]\<rparr>
        | (Inr _, a) \<Rightarrow> (let log1 = log0 @
              [runtime_event ''info'' ''runtime.started'' ''runtime started'' [(''role'', sv_role (cf_server c))]] @
              (if admin_socket_enabled a then [runtime_event ''info'' ''admin.socket_started'' ''admin socket started''
                 [(''addr'', ob_admin_socket_addr (cf_observability c)), (''port'', show_int (admin_socket_bound_port a))]] else [])
            in map_option (stop_main (se_env e) signal c log1) (watch polls a))))"

subsection \<open>How a process ends\<close>

lemma main_config_sound:
  assumes "main_config files path role = Inr c"
  shows "validate_config c = Inr ()" "int_range_ok c"
proof -
  obtain c0 where c0: "load_config path (files path) = Inr c0"
    "c = (if role = [] then c0 else c0\<lparr>cf_server := (cf_server c0)\<lparr>sv_role := role\<rparr>\<rparr>)" "role \<noteq> [] \<Longrightarrow> validate_config c = Inr ()"
    using assms by (auto simp: main_config_def Let_def result_simps split: if_splits)
  then have sound: "validate_config c0 = Inr ()" "list_all int32 (config_ints c0)"
    using load_valid load_int32 by auto
  show "validate_config c = Inr ()" using c0(2,3) sound(1) by (cases "role = []") auto
  show "int_range_ok c" using c0(2) sound(2) by (auto simp: int_range_ok_def config_ints_def server_ints_def)
qed

text \<open>What happens between two polls leaves the life cycles of the services alone.\<close>

definition polls_ok :: "'e poll list \<Rightarrow> bool" where
  "polls_ok ps \<longleftrightarrow> (\<forall>p \<in> set ps. \<forall>s. same_status s (pl_change p s))"

lemma watch_healthy:
  assumes "runtime_reach a" "ra_running a" "polls_ok ps"
  shows "(list_ex pl_stop_flag ps \<longrightarrow> watch ps a \<noteq> None) \<and>
    (\<forall>reason a'. watch ps a = Some (reason, a') \<longrightarrow> reason = ''signal'' \<and> runtime_reach a' \<and> ra_running a')"
  using assms
proof (induction ps arbitrary: a)
  case (Cons p ps)
  let ?b = "with_services (pl_change p) a"
  have b: "runtime_reach ?b" "ra_running ?b"
    using Cons.prems runtime_reach.worked [of a "pl_change p (ra_services a)"]
    by (auto simp: polls_ok_def with_services_def)
  have healthy: "runtime_is_healthy now ?b" for now
    using runtime_reach_health(1) [OF b] by simp
  have rest: "polls_ok ps" using Cons.prems(3) by (simp add: polls_ok_def)
  show ?case using Cons.IH [OF b rest] healthy b by (auto simp: Let_def)
qed simp

text \<open>C9: A process comes to an end once it is told to: as soon as one round of the loop finds the
  stop flag set, or earlier. Its exit code is 0 exactly when the configuration loads (after the
  role of the command line replaced the one in the file) and the application starts, and 1
  otherwise; with 0 it was stopped by a signal, never for being unhealthy. However it ends,
  no service and no server of its application is left running.\<close>

theorem process_end_correct:
  assumes "runtime_reach a0" "\<not> ra_running a0" "outcome_ok (se_socket e)" "outcome_ok (se_exporter e)" "polls_ok polls"
  shows "(list_ex pl_stop_flag polls \<longrightarrow> run_main args files e polls signal a0 \<noteq> None) \<and>
    (\<forall>pe. run_main args files e polls signal a0 = Some pe \<longrightarrow>
      (let (path, role) = parse_args args default_args in
        pe_exit_code pe = (if \<exists>c. main_config files path role = Inr c \<and> startup_possible e c (rs_strategies (ra_services a0))
          then 0 else 1)) \<and>
      (pe_exit_code pe = 0 \<longrightarrow> (\<exists>a. pe_app pe = Some a \<and> ra_last_stop_reason a = ''signal'')) \<and>
      (\<forall>a. pe_app pe = Some a \<longrightarrow> \<not> ra_running a \<and> services_running no_roles (ra_services a) \<and>
         \<not> admin_socket_running a \<and> \<not> metrics_exporter_running a))"
proof -
  obtain path role where args: "parse_args args default_args = (path, role)" by fastforce
  have down: "\<not> ra_running a \<and> services_running no_roles (ra_services a) \<and> \<not> admin_socket_running a \<and> \<not> metrics_exporter_running a"
    if "runtime_reach a" "\<not> ra_running a" for a :: "'a runtime_app"
    using stopped_runtime_down [OF that] that by blast
  show ?thesis
  proof (cases "main_config files path role")
    case (Inl ex)
    then show ?thesis by (simp add: run_main_def args)
  next
    case (Inr c)
    note cfg = main_config_sound [OF Inr]
    obtain r a where run: "start_runtime e c a0 = (r, a)" by fastforce
    have stopped: "all_stopped (ra_services a0)" using runtime_reach_ok [OF assms(1)] assms(2) by (simp add: runtime_ok_def)
    note res = start_runtime_result [OF stopped assms(2-4) cfg(2) run]
    have reach: "runtime_reach a" using runtime_reach.started [OF assms(1,3,4) cfg(2)] by (simp add: run)
    show ?thesis
    proof (cases r)
      case (Inl ex)
      then have "\<not> ra_running a" "\<not> startup_possible e c (rs_strategies (ra_services a0))" using res(1,5) by simp_all
      then show ?thesis using Inr Inl run down [OF reach] by (simp add: run_main_def args)
    next
      case r: (Inr u)
      then have up: "ra_running a" "startup_possible e c (rs_strategies (ra_services a0))" using res(1,4) by simp_all
      note watch = watch_healthy [OF reach up(1) assms(5)]
      have stop: "runtime_reach (stop_runtime v ''signal'' a') \<and> \<not> ra_running (stop_runtime v ''signal'' a') \<and>
          ra_last_stop_reason (stop_runtime v ''signal'' a') = ''signal''"
        if "runtime_reach a'" for v and a' :: "'a runtime_app"
        using runtime_reach.stopped [OF that, of v "''signal''"] by (auto simp: stop_runtime_def Let_def)
      show ?thesis
      proof (cases "watch polls a")
        case None
        then show ?thesis using watch Inr r run by (auto simp: run_main_def args Let_def)
      next
        case (Some x)
        then obtain a' where x: "x = (''signal'', a')" "runtime_reach a'" using watch by (cases x) auto
        then show ?thesis
          using Some Inr r run up(2) stop [OF x(2), of "se_env e"] down [of "stop_runtime (se_env e) ''signal'' a'"]
          by (simp add: run_main_def args Let_def stop_main_def)
      qed
    qed
  qed
qed

definition sample_files :: "string \<Rightarrow> string option" where
  "sample_files path = (if path = ''a.toml'' then Some sample_file else None)"

definition signalled :: "unit poll list" where
  "signalled = [\<lparr>pl_stop_flag = False, pl_now_ns = 0, pl_change = id\<rparr>, \<lparr>pl_stop_flag = True, pl_now_ns = 1, pl_change = id\<rparr>]"

lemma sample_main_config:
  "case main_config sample_files ''a.toml'' [] of Inl _ \<Rightarrow> False
    | Inr c \<Rightarrow> sv_role (cf_server c) = ''gateway'' \<and> \<not> ob_admin_socket_enabled (cf_observability c) \<and>
        \<not> ob_metrics_exporter_enabled (cf_observability c)"
  by code_simp

theorem process_end_correct_witness:
  "\<exists>pe a. run_main [''a.toml''] sample_files plain_start signalled 15 sample_app = Some pe \<and> pe_exit_code pe = 0 \<and>
     pe_app pe = Some a \<and> \<not> ra_running a \<and> ra_last_stop_reason a = ''signal''"
proof -
  obtain c where c: "main_config sample_files ''a.toml'' [] = Inr c" "sv_role (cf_server c) = ''gateway''"
      "\<not> ob_admin_socket_enabled (cf_observability c)" "\<not> ob_metrics_exporter_enabled (cf_observability c)"
    using sample_main_config by (auto split: sum.splits)
  have args: "parse_args [''a.toml''] default_args = (''a.toml'', [])"
    by (simp add: default_args_def starts_with_def)
  have "startup_possible plain_start c reg" for reg
    using main_config_sound(1) [OF c(1)] c(2-4) by (simp add: startup_possible_def select_runtime_roles_def Let_def)
  moreover have "polls_ok signalled" "list_ex pl_stop_flag signalled"
    by (simp_all add: polls_ok_def signalled_def same_status_def)
  moreover have "outcome_ok (se_socket plain_start)" "outcome_ok (se_exporter plain_start)"
    by (simp_all add: plain_start_def sample_start_env_def port_taken_def outcome_ok_def)
  ultimately show ?thesis
    using process_end_correct [OF sample_app_stopped(2,1), of plain_start signalled "[''a.toml'']" sample_files 15] c(1)
    by (auto simp: args Let_def)
qed

end
