(* ===== verification/H3_Library.thy ===== *)
theory H3_Library
  imports Spatial
begin

text \<open>
  The branches of \<open>common/spatial/h3_index.cpp\<close> for a build with the H3 library. The library is a
  parameter, a record of the functions the code calls; each answers with an error code, 0 for
  success, and with what it writes. An array the code allocates is a list of zeros of the size
  the library asked for. The locale \<open>h3_disks\<close> states what the disks of the library are relied on
  for; it is interpreted by a library over the grid of the other build.
\<close>

subsection \<open>The library\<close>

record lat_lng =
  ll_lat :: double
  ll_lng :: double

record h3_lib =
  h3_latLngToCell :: "lat_lng \<Rightarrow> int \<Rightarrow> int \<times> cell"
  h3_maxGridDiskSize :: "int \<Rightarrow> int \<times> int"
  h3_gridDisk :: "cell \<Rightarrow> int \<Rightarrow> cell list \<Rightarrow> int \<times> cell list"
  h3_maxPolygonToCellsSize :: "lat_lng list \<Rightarrow> int \<Rightarrow> int \<Rightarrow> int \<times> int"
  h3_polygonToCells :: "lat_lng list \<Rightarrow> int \<Rightarrow> int \<Rightarrow> cell list \<Rightarrow> int \<times> cell list"
  h3_getHexagonEdgeLengthAvgM :: "int \<Rightarrow> int \<times> double"

definition k_pi :: double where
  "k_pi = fl (3141592653589793238462643383279502884 / 1000000000000000000000000000000000000)"

definition degs_to_rads :: "double \<Rightarrow> double" where
  "degs_to_rads degrees = ddiv (dmul degrees k_pi) (Fin 180)"

definition to_h3_lat_lng :: "double \<Rightarrow> double \<Rightarrow> lat_lng" where
  "to_h3_lat_lng lat lon = \<lparr>ll_lat = degs_to_rads lat, ll_lng = degs_to_rads lon\<rparr>"

definition throw_on_h3_error :: "int \<Rightarrow> string \<Rightarrow> unit exc" where
  "throw_on_h3_error err operation =
     (if err \<noteq> 0 then Inl (operation @ '' failed with H3 error: '' @ show_int err) else Inr ())"

text \<open>A vector of the size the library asked for; a negative size is a huge one once it is cast.\<close>

definition new_cells :: "int \<Rightarrow> cell list exc" where
  "new_cells n = (if n < 0 then Inl ''cannot create std::vector larger than max_size()'' else Inr (replicate (nat n) 0))"

subsection \<open>The index\<close>

definition library_lat_lng_to_cell :: "h3_lib \<Rightarrow> int \<Rightarrow> double \<Rightarrow> double \<Rightarrow> cell exc" where
  "library_lat_lng_to_cell lib resolution lat lon =
     (if \<not> valid_lat_lon lat lon then Inl ''coordinate out of range''
      else case h3_latLngToCell lib (to_h3_lat_lng lat lon) resolution of (err, c) \<Rightarrow>
        bind_exc (throw_on_h3_error err ''latLngToCell'') (\<lambda>_. Inr c))"

definition library_grid_disk :: "h3_lib \<Rightarrow> cell \<Rightarrow> int \<Rightarrow> cell list exc" where
  "library_grid_disk lib center k =
     (if k < 0 then Inr []
      else case h3_maxGridDiskSize lib k of (err, max_size) \<Rightarrow>
        bind_exc (throw_on_h3_error err ''maxGridDiskSize'') (\<lambda>_.
        bind_exc (new_cells max_size) (\<lambda>zeros.
        case h3_gridDisk lib center k zeros of (err2, raw) \<Rightarrow>
          bind_exc (throw_on_h3_error err2 ''gridDisk'') (\<lambda>_. Inr (filter (\<lambda>c. c \<noteq> 0) raw)))))"

definition library_edge_length :: "h3_lib \<Rightarrow> int \<Rightarrow> double exc" where
  "library_edge_length lib resolution = (case h3_getHexagonEdgeLengthAvgM lib resolution of (err, edge_m) \<Rightarrow>
     bind_exc (throw_on_h3_error err ''getHexagonEdgeLengthAvgM'') (\<lambda>_. Inr edge_m))"

definition library_radius_to_k :: "h3_lib \<Rightarrow> int \<Rightarrow> double \<Rightarrow> int exc" where
  "library_radius_to_k lib resolution radius_m =
     (if \<not> dfinite radius_m \<or> dlt radius_m (Fin 0) then Inl ''radius must be finite and non-negative''
      else bind_exc (library_edge_length lib resolution) (\<lambda>edge.
        if dle edge (Fin 0) then Inr 1 else ceil_to_int (ddiv radius_m edge)))"

text \<open>The flags of both polygon calls are 0, which stands for containment of the centre.\<close>

definition library_polygon_to_cells :: "h3_lib \<Rightarrow> int \<Rightarrow> (double \<times> double) list \<Rightarrow> cell list exc" where
  "library_polygon_to_cells lib resolution polygon =
     (if polygon = [] then Inr []
      else if \<exists>(lat, lon) \<in> set polygon. \<not> valid_lat_lon lat lon then Inl ''coordinate out of range''
      else let verts = map (\<lambda>(lat, lon). to_h3_lat_lng lat lon) polygon in
        case h3_maxPolygonToCellsSize lib verts resolution 0 of (err, max_size) \<Rightarrow>
          bind_exc (throw_on_h3_error err ''maxPolygonToCellsSize'') (\<lambda>_.
          bind_exc (new_cells max_size) (\<lambda>zeros.
          case h3_polygonToCells lib verts resolution 0 zeros of (err2, raw) \<Rightarrow>
            bind_exc (throw_on_h3_error err2 ''polygonToCells'') (\<lambda>_.
              Inr (sorted_list_of_set (set (filter (\<lambda>c. c \<noteq> 0) raw)))))))"

subsection \<open>Errors\<close>

lemma throw_ok [simp]: "throw_on_h3_error err op = Inr u \<longleftrightarrow> err = 0"
  by (simp add: throw_on_h3_error_def)

lemma library_cell_refused:
  "\<not> valid_lat_lon lat lon \<Longrightarrow> library_lat_lng_to_cell lib r lat lon = Inl ''coordinate out of range''"
  by (simp add: library_lat_lng_to_cell_def)

lemma library_cells_nonzero:
  "library_grid_disk lib c k = Inr cs \<Longrightarrow> 0 \<notin> set cs"
  "library_polygon_to_cells lib r poly = Inr cs \<Longrightarrow> 0 \<notin> set cs \<and> sorted cs \<and> distinct cs"
  by (auto simp: library_grid_disk_def library_polygon_to_cells_def bind_exc_Inr_iff Let_def case_prod_beta split: if_splits)

text \<open>A fence none of whose cells has its centre inside gets no cell, however much of them it covers:
  no position is ever checked against it.\<close>

lemma small_fence_uncovered:
  assumes "poly \<noteq> []" "\<forall>(lat, lon) \<in> set poly. valid_lat_lon lat lon"
    and "h3_maxPolygonToCellsSize lib (map (\<lambda>(lat, lon). to_h3_lat_lng lat lon) poly) r 0 = (0, n)" "0 \<le> n"
    and "h3_polygonToCells lib (map (\<lambda>(lat, lon). to_h3_lat_lng lat lon) poly) r 0 (replicate (nat n) 0) = (0, replicate (nat n) 0)"
  shows "library_polygon_to_cells lib r poly = Inr []"
  using assms by (auto simp: library_polygon_to_cells_def new_cells_def throw_on_h3_error_def)

subsection \<open>Disks\<close>

text \<open>
  What a search relies on: encoding gives proper cells; the disk of a proper cell is written
  without an error into the array of the size asked for, and holds the cells at most \<open>k\<close> steps
  away and otherwise zeros; no step leads nowhere else, and more steps reach more.
\<close>

locale h3_disks =
  fixes lib :: h3_lib and resolution :: int and proper :: "cell \<Rightarrow> bool" and near :: "cell \<Rightarrow> int \<Rightarrow> cell \<Rightarrow> bool"
  assumes encodes: "h3_latLngToCell lib p resolution = (0, c) \<Longrightarrow> proper c"
    and proper_nonzero: "proper c \<Longrightarrow> c \<noteq> 0"
    and size: "0 \<le> k \<Longrightarrow> \<exists>n. h3_maxGridDiskSize lib k = (0, n) \<and> 0 \<le> n"
    and disk: "proper c \<Longrightarrow> 0 \<le> k \<Longrightarrow> h3_maxGridDiskSize lib k = (0, n) \<Longrightarrow>
      \<exists>raw. h3_gridDisk lib c k (replicate (nat n) 0) = (0, raw) \<and> set raw - {0} = {d. near c k d \<and> d \<noteq> 0}"
    and near_zero: "proper c \<Longrightarrow> near c 0 d \<longleftrightarrow> d = c"
    and near_mono: "near c j d \<Longrightarrow> j \<le> k \<Longrightarrow> near c k d"
begin

lemma library_disk:
  assumes "proper c" "0 \<le> k"
  shows "\<exists>cs. library_grid_disk lib c k = Inr cs \<and> set cs = {d. near c k d \<and> d \<noteq> 0}"
proof -
  obtain n where n: "h3_maxGridDiskSize lib k = (0, n)" "0 \<le> n" using size [OF assms(2)] by blast
  obtain raw where raw: "h3_gridDisk lib c k (replicate (nat n) 0) = (0, raw)" "set raw - {0} = {d. near c k d \<and> d \<noteq> 0}"
    using disk [OF assms n(1)] by blast
  show ?thesis using assms(2) n raw by (auto simp: library_grid_disk_def new_cells_def throw_on_h3_error_def)
qed

text \<open>The position searched from is in every disk around its cell, and a wider search sees no less.\<close>

lemma library_search:
  assumes "library_lat_lng_to_cell lib resolution lat lon = Inr c" "0 \<le> j" "j \<le> k"
  shows "\<exists>cs ds. library_grid_disk lib c j = Inr cs \<and> library_grid_disk lib c k = Inr ds \<and> c \<in> set cs \<and> set cs \<subseteq> set ds"
proof -
  have c: "proper c" using assms(1) encodes
    by (auto simp: library_lat_lng_to_cell_def bind_exc_Inr_iff split: if_splits prod.splits)
  obtain cs ds where cs: "library_grid_disk lib c j = Inr cs" "set cs = {d. near c j d \<and> d \<noteq> 0}"
    "library_grid_disk lib c k = Inr ds" "set ds = {d. near c k d \<and> d \<noteq> 0}"
    using library_disk [OF c assms(2)] library_disk [OF c, of k] assms(2,3) by auto
  have "near c j c" using near_zero [OF c, of c] near_mono [OF _ assms(2)] by blast
  then have "c \<in> set cs" using cs(2) proper_nonzero [OF c] by blast
  moreover have "set cs \<subseteq> set ds" using cs(2,4) near_mono [OF _ assms(3)] by blast
  ultimately show ?thesis using cs(1,3) by blast
qed

end

subsection \<open>A library over the grid\<close>

text \<open>The functions of the in-memory index behind the interface of the library; the code 2 is that for
  arguments outside a domain, and the one cell that would be numbered 0 is not encoded.\<close>

definition rads_to_degs :: "double \<Rightarrow> double" where
  "rads_to_degs r = ddiv (dmul r (Fin 180)) k_pi"

definition grid_library :: h3_lib where
  "grid_library = \<lparr>h3_latLngToCell = (\<lambda>p r. case lat_lng_to_cell r (rads_to_degs (ll_lat p)) (rads_to_degs (ll_lng p)) of
       Inl err \<Rightarrow> (2, 0) | Inr c \<Rightarrow> if c = 0 \<or> r < 0 \<or> 15 < r then (2, 0) else (0, c)),
     h3_maxGridDiskSize = (\<lambda>k. (0, 3 * k * (k + 1) + 1)),
     h3_gridDisk = (\<lambda>c k raw. (0, disk_cells c k @ drop (length (disk_cells c k)) raw)),
     h3_maxPolygonToCellsSize = (\<lambda>verts r flags. (0, int (length verts))),
     h3_polygonToCells = (\<lambda>verts r flags raw.
       case polygon_to_cells r (map (\<lambda>p. (rads_to_degs (ll_lat p), rads_to_degs (ll_lng p))) verts) of
         Inl err \<Rightarrow> (2, raw) | Inr cs \<Rightarrow> (0, cs @ drop (length cs) raw)),
     h3_getHexagonEdgeLengthAvgM = (\<lambda>r. (if 0 \<le> r \<and> r \<le> 15 then 0 else 4, avg_edge_length_m r))\<rparr>"

definition grid_proper :: "cell \<Rightarrow> bool" where
  "grid_proper c \<longleftrightarrow> c \<noteq> 0 \<and> (\<exists>r la lo. c = pack_cell r la lo \<and> unpack_cell c = (r, la, lo))"

lemma disk_cells_zero: "grid_proper c \<Longrightarrow> set (disk_cells c 0) = {c}"
  by (auto simp: grid_proper_def disk_cells_def disk_offsets_def)

interpretation grid_h3: h3_disks grid_library r grid_proper "\<lambda>c k d. d \<in> set (disk_cells c k)" for r
proof unfold_locales
  fix p c
  assume "h3_latLngToCell grid_library p r = (0, c)"
  then obtain lat lon where c: "lat_lng_to_cell r lat lon = Inr c" "c \<noteq> 0" "0 \<le> r" "r \<le> 15"
    by (auto simp: grid_library_def split: sum.splits if_splits)
  then obtain la lo where "c = pack_cell r la lo" "0 \<le> la" "la < 2 ^ 29" "0 \<le> lo" "lo < 2 ^ 29"
    using lat_lng_to_cell_indices [OF c(3,4)] lat_lng_to_cell_ok_iff [of r lat lon] by (metis sum.inject(2))
  then show "grid_proper c" using c by (auto simp: grid_proper_def unpack_pack)
next
  fix c d :: cell and k n :: int
  assume "grid_proper c" "0 \<le> k" "h3_maxGridDiskSize grid_library k = (0, n)"
  then show "\<exists>raw. h3_gridDisk grid_library c k (replicate (nat n) 0) = (0, raw) \<and>
      set raw - {0} = {d. d \<in> set (disk_cells c k) \<and> d \<noteq> 0}"
    by (auto simp: grid_library_def dest: in_set_dropD)
next
  fix c d :: cell and j k :: int
  assume "d \<in> set (disk_cells c j)" "j \<le> k"
  then show "d \<in> set (disk_cells c k)" using disk_cells_mono by blast
qed (auto simp: grid_library_def grid_proper_def disk_cells_zero)

text \<open>Over this library the code of the one build computes the disks, the edges and the rings of the other.\<close>

lemma library_disk_grid:
  "0 \<le> k \<Longrightarrow> library_grid_disk grid_library c k = Inr (filter (\<lambda>d. d \<noteq> 0) (disk_cells c k))"
  "k < 0 \<Longrightarrow> library_grid_disk grid_library c k = Inr (disk_cells c k)"
proof -
  assume k: "0 \<le> k"
  have size: "\<not> 3 * k * (k + 1) + 1 < 0" using mult_nonneg_nonneg [of "3 * k" "k + 1"] k by linarith
  have rest: "filter (\<lambda>d. d \<noteq> 0) (drop n (replicate m (0 :: cell))) = []" for n m by simp
  show "library_grid_disk grid_library c k = Inr (filter (\<lambda>d. d \<noteq> 0) (disk_cells c k))"
    using k size rest by (simp add: library_grid_disk_def grid_library_def new_cells_def throw_on_h3_error_def)
qed (simp add: library_grid_disk_def disk_cells_def)

lemma library_radius_grid:
  "0 \<le> r \<Longrightarrow> r \<le> 15 \<Longrightarrow> library_radius_to_k grid_library r radius_m = radius_to_k r radius_m"
  by (simp add: library_radius_to_k_def radius_to_k_def library_edge_length_def grid_library_def throw_on_h3_error_def Let_def)

end
