(* ===== verification/Redis_Remote.thy ===== *)
theory Redis_Remote
  imports World
begin

text \<open>
  The branches of \<open>common/clients/redis_client.cpp\<close> for a build with hiredis: how the client turns
  its methods into commands and reads the replies.

  The server is a parameter: a function that takes the words of a command and its own state,
  and answers with a reply or, when the connection is lost, with none. What the client relies on
  is the locale \<open>redis_server\<close>: the documented effect of the commands it sends, on the hashes,
  the sets and the strings the server holds, for keys that do not hold a value of another type.
  A server in memory, with key types and expiry, shows that the laws can be met.

  The lemmas show that numbers and states survive the trip through text, that one client at a
  time sees what it wrote and keeps the cell sets in step with the states, that reservations
  exclude each other, and that the read and the write of an update are separate commands.
\<close>

subsection \<open>Numbers as text\<close>

text \<open>\<open>std::to_string(double)\<close>: six digits after the point.\<close>

definition pad_digits :: "nat \<Rightarrow> string \<Rightarrow> string" where
  "pad_digits k s = replicate (k - length s) CHR ''0'' @ s"

definition show_fixed :: "rat \<Rightarrow> string" where
  "show_fixed x = (let n = nat (rhe (x * 1000000)) in
     with_fraction (show_nat (n div 1000000)) (pad_digits 6 (show_nat (n mod 1000000))))"

definition to_string_d :: "double \<Rightarrow> string" where
  "to_string_d d = (case d of NaN \<Rightarrow> ''nan'' | PosInf \<Rightarrow> ''inf'' | NegInf \<Rightarrow> ''-inf''
     | Fin x \<Rightarrow> if x < 0 then CHR ''-'' # show_fixed (- x) else show_fixed x)"

text \<open>\<open>std::stof\<close>: the value rounded to 24 bits, an exception when it is out of the range of a
  \<open>float\<close>.\<close>

definition round_mag32 :: "rat \<Rightarrow> rat" where
  "round_mag32 x = (let u = pow2 (max (ilog2 x - 23) (- 149)) in of_int (rhe (x / u)) * u)"

definition fl32 :: "rat \<Rightarrow> double" where
  "fl32 x = (if x = 0 then Fin 0 else
     let y = round_mag32 \<bar>x\<bar> in
     if pow2 128 \<le> y then (if 0 < x then PosInf else NegInf)
     else Fin (if 0 < x then y else - y))"

definition range_error32 :: "rat \<Rightarrow> bool" where
  "range_error32 x = (case fl32 x of Fin y \<Rightarrow> x \<noteq> 0 \<and> \<bar>y\<bar> < pow2 (- 126) \<and> y \<noteq> x | _ \<Rightarrow> True)"

definition sto_f :: "string \<Rightarrow> (double \<times> string) exc" where
  "sto_f s = (let (neg, t) = read_sign (skip_space s) in
     case read_number t of None \<Rightarrow> Inl ''stof''
     | Some (Inl d, r) \<Rightarrow> Inr (if neg then dneg d else d, r)
     | Some (Inr x, r) \<Rightarrow> let v = (if neg then - x else x) in
         if range_error32 v then Inl ''stof'' else Inr (fl32 v, r))"

subsection \<open>Commands and replies\<close>

datatype reply = Rp_status string | Rp_string string | Rp_error string | Rp_integer int | Rp_nil | Rp_array "reply list"

type_synonym 's server = "string list \<Rightarrow> 's \<Rightarrow> reply option \<times> 's"

definition redis_command :: "'s server \<Rightarrow> string list \<Rightarrow> ('s, reply option) prog" where
  "redis_command exec args s = (if args = [] then (Inr None, s) else case exec args s of (r, s') \<Rightarrow> (Inr r, s'))"

definition send_command :: "'s server \<Rightarrow> string list \<Rightarrow> ('s, unit) prog" where
  "send_command exec args = seq_prog (redis_command exec args) (\<lambda>_. ret ())"

fun reply_string :: "reply \<Rightarrow> string" where
  "reply_string (Rp_status s) = s"
| "reply_string (Rp_string s) = s"
| "reply_string (Rp_error s) = s"
| "reply_string _ = []"

definition reply_status_equals :: "reply option \<Rightarrow> string \<Rightarrow> bool" where
  "reply_status_equals r expected = (r = Some (Rp_status expected))"

fun hash_pairs :: "reply list \<Rightarrow> (string \<times> string) list" where
  "hash_pairs (k # v # rs) = (reply_string k, reply_string v) # hash_pairs rs"
| "hash_pairs _ = []"

text \<open>The first of two fields with the same name counts, as \<open>emplace\<close> does.\<close>

definition hash_from_reply :: "reply option \<Rightarrow> (string \<times> string) list" where
  "hash_from_reply r = (case r of Some (Rp_array rs) \<Rightarrow> hash_pairs rs | _ \<Rightarrow> [])"

definition string_array_from_reply :: "reply option \<Rightarrow> string list" where
  "string_array_from_reply r = (case r of Some (Rp_array rs) \<Rightarrow> map reply_string rs | _ \<Rightarrow> [])"

definition hash_field :: "(string \<times> string) list \<Rightarrow> string \<Rightarrow> string" where
  "hash_field fs name = (case map_of fs name of None \<Rightarrow> [] | Some v \<Rightarrow> v)"

definition device_state_from_hash :: "(string \<times> string) list \<Rightarrow> device_state exc" where
  "device_state_from_hash fs =
     bind_exc (value_of (sto_d (hash_field fs ''lat''))) (\<lambda>lat.
     bind_exc (value_of (sto_d (hash_field fs ''lon''))) (\<lambda>lon.
     bind_exc (value_of (sto_f (hash_field fs ''altitude_m''))) (\<lambda>altitude.
     bind_exc (value_of (sto_f (hash_field fs ''accuracy_m''))) (\<lambda>accuracy.
     bind_exc (value_of (sto_f (hash_field fs ''speed_ms''))) (\<lambda>speed.
     bind_exc (value_of (sto_f (hash_field fs ''heading_deg''))) (\<lambda>heading.
     bind_exc (value_of (sto_ll (hash_field fs ''h3_cell''))) (\<lambda>h3_cell.
     bind_exc (value_of (sto_ull (hash_field fs ''seq''))) (\<lambda>seq_no.
     bind_exc (value_of (sto_ll (hash_field fs ''updated_at''))) (\<lambda>updated_at.
       Inr \<lparr>ds_device_id = hash_field fs ''device_id'', ds_lat = lat, ds_lon = lon, ds_altitude_m = altitude,
         ds_accuracy_m = accuracy, ds_speed_ms = speed, ds_heading_deg = heading,
         ds_h3_cell = of_int h3_cell, ds_seq = seq_no, ds_updated_at = updated_at\<rparr>)))))))))"

definition fence_state_from_hash :: "string \<Rightarrow> string \<Rightarrow> (string \<times> string) list \<Rightarrow> fence_state_record exc" where
  "fence_state_from_hash d f fs =
     bind_exc (value_of (sto_ll (hash_field fs ''entered_at_ms''))) (\<lambda>entered.
     bind_exc (value_of (sto_ll (hash_field fs ''updated_at_ms''))) (\<lambda>updated.
       Inr \<lparr>fs_device_id = d, fs_fence_id = f, fs_state = fence_state_from_string (hash_field fs ''state''),
         fs_entered_at_ms = entered, fs_updated_at_ms = updated\<rparr>))"

subsection \<open>Addresses, timeouts and keys\<close>

definition split_last :: "char \<Rightarrow> string \<Rightarrow> (string \<times> string) option" where
  "split_last d s = (if d \<notin> set s then None
     else let after = rev (takeWhile (\<lambda>c. c \<noteq> d) (rev s)) in Some (take (length s - length after - 1) s, after))"

definition parse_redis_addr :: "string \<Rightarrow> (string \<times> int) exc" where
  "parse_redis_addr addrs =
     (let first = takeWhile (\<lambda>c. c \<noteq> CHR '','') addrs in
      case split_last CHR '':'' first of
        None \<Rightarrow> Inr (if first = [] then ''localhost'' else first, 6379)
      | Some (host, port) \<Rightarrow> bind_exc (value_of (sto_i port)) (\<lambda>p. Inr (host, p)))"

text \<open>Seconds and microseconds.\<close>

definition timeout_from_ms :: "int \<Rightarrow> int \<times> int" where
  "timeout_from_ms ms = (let n = max 1 ms in (n div 1000, n mod 1000 * 1000))"

definition key_prefix :: "redis_config \<Rightarrow> string \<Rightarrow> string" where
  "key_prefix c suffix = (if rc_key_prefix c = [] then suffix else rc_key_prefix c @ '':'' @ suffix)"

definition device_key :: "redis_config \<Rightarrow> string \<Rightarrow> string" where
  "device_key c d = key_prefix c (''dev:'' @ d)"

definition show_cell :: "cell \<Rightarrow> string" where
  "show_cell x = show_int (sint x)"

definition cell_key :: "redis_config \<Rightarrow> cell \<Rightarrow> string" where
  "cell_key c x = key_prefix c (''h3:'' @ show_cell x)"

definition fence_redis_key :: "redis_config \<Rightarrow> string \<Rightarrow> string \<Rightarrow> string" where
  "fence_redis_key c d f = key_prefix c (''fence:'' @ d @ '':'' @ f)"

definition reservation_key :: "redis_config \<Rightarrow> string \<Rightarrow> string" where
  "reservation_key c agent = key_prefix c (''reservation:'' @ agent)"

definition cell_scan_pattern :: "redis_config \<Rightarrow> string" where
  "cell_scan_pattern c = key_prefix c ''h3:*''"

definition fence_scan_pattern :: "redis_config \<Rightarrow> string" where
  "fence_scan_pattern c = key_prefix c ''fence:*''"

definition parse_fence_ids :: "redis_config \<Rightarrow> string \<Rightarrow> string \<times> string" where
  "parse_fence_ids c key =
     (let prefix = key_prefix c ''fence:'' in
      if take (length prefix) key \<noteq> prefix then ([], [])
      else let rest = drop (length prefix) key; d = takeWhile (\<lambda>x. x \<noteq> CHR '':'') rest in
        if d = rest then ([], []) else (d, drop (length d + 1) rest))"

text \<open>
  The constructor. \<open>redisConnectWithTimeout\<close> is a parameter; it yields no context, one with an
  error, or a live one. The second component says which read timeout was set, if one was.
\<close>

datatype context_status = No_context | Broken_context | Live_context

definition remote_client :: "(string \<Rightarrow> int \<Rightarrow> int \<times> int \<Rightarrow> context_status) \<Rightarrow> redis_config \<Rightarrow>
    (context_status \<times> (int \<times> int) option) exc" where
  "remote_client dial c = bind_exc (parse_redis_addr (rc_addrs c)) (\<lambda>(host, port).
     let ctx = dial (takeWhile (\<lambda>x. x \<noteq> CHR 0x00) host) port (timeout_from_ms (rc_connect_timeout_ms c)) in
     Inr (ctx, if ctx = Live_context then Some (timeout_from_ms (rc_read_timeout_ms c)) else None))"

subsection \<open>Device states\<close>

text \<open>A client whose connection was not made, or broke, does not send.\<close>

definition remote_ping :: "'s server \<Rightarrow> bool \<Rightarrow> ('s, bool) prog" where
  "remote_ping exec healthy =
     (if \<not> healthy then ret False
      else seq_prog (redis_command exec [''PING'']) (\<lambda>r. ret (reply_status_equals r ''PONG'')))"

definition remote_get_device_state :: "'s server \<Rightarrow> redis_config \<Rightarrow> string \<Rightarrow> ('s, device_state option) prog" where
  "remote_get_device_state exec c d =
     seq_prog (redis_command exec [''HGETALL'', device_key c d]) (\<lambda>r s.
       let fs = hash_from_reply r in
       if fs = [] then (Inr None, s)
       else case device_state_from_hash fs of Inl ex \<Rightarrow> (Inl ex, s) | Inr st \<Rightarrow> (Inr (Some st), s))"

definition state_fields :: "device_state \<Rightarrow> string list" where
  "state_fields st = [''device_id'', ds_device_id st, ''lat'', to_string_d (ds_lat st), ''lon'', to_string_d (ds_lon st),
     ''altitude_m'', to_string_d (ds_altitude_m st), ''accuracy_m'', to_string_d (ds_accuracy_m st),
     ''speed_ms'', to_string_d (ds_speed_ms st), ''heading_deg'', to_string_d (ds_heading_deg st),
     ''h3_cell'', show_cell (ds_h3_cell st), ''seq'', show_nat (unat (ds_seq st)), ''updated_at'', show_int (ds_updated_at st)]"

text \<open>The part of an update after the current state was read.\<close>

definition remote_store_state :: "'s server \<Rightarrow> redis_config \<Rightarrow> string \<Rightarrow> device_state \<Rightarrow> int \<Rightarrow> device_state option \<Rightarrow>
    ('s, bool) prog" where
  "remote_store_state exec c d st ttl_s current =
     (if (case current of None \<Rightarrow> False | Some old \<Rightarrow> ds_seq st \<le> ds_seq old) then ret False
      else let stored = st\<lparr>ds_device_id := d\<rparr> in
        andthen (case current of None \<Rightarrow> skip
           | Some old \<Rightarrow> if ds_h3_cell old \<noteq> ds_h3_cell st
               then send_command exec [''SREM'', cell_key c (ds_h3_cell old), d] else skip)
       (andthen (send_command exec (''HSET'' # device_key c d # state_fields stored))
       (andthen (if ttl_s > 0 then send_command exec [''EXPIRE'', device_key c d, show_int ttl_s] else skip)
       (andthen (send_command exec [''SADD'', cell_key c (ds_h3_cell stored), d]) (ret True)))))"

definition remote_update_device_state_cas :: "'s server \<Rightarrow> redis_config \<Rightarrow> string \<Rightarrow> device_state \<Rightarrow> int \<Rightarrow> ('s, bool) prog" where
  "remote_update_device_state_cas exec c d st ttl_s =
     (if d = [] then ret False
      else seq_prog (remote_get_device_state exec c d) (remote_store_state exec c d st ttl_s))"

fun remote_get_device_states_batch :: "'s server \<Rightarrow> redis_config \<Rightarrow> string list \<Rightarrow> ('s, device_state option list) prog" where
  "remote_get_device_states_batch exec c [] = ret []"
| "remote_get_device_states_batch exec c (d # ds) =
     seq_prog (remote_get_device_state exec c d) (\<lambda>st.
       seq_prog (remote_get_device_states_batch exec c ds) (\<lambda>sts. ret (st # sts)))"

subsection \<open>Cells\<close>

definition remote_add_device_to_cell :: "'s server \<Rightarrow> redis_config \<Rightarrow> cell \<Rightarrow> string \<Rightarrow> ('s, unit) prog" where
  "remote_add_device_to_cell exec c x d = send_command exec [''SADD'', cell_key c x, d]"

definition remote_remove_device_from_cell :: "'s server \<Rightarrow> redis_config \<Rightarrow> cell \<Rightarrow> string \<Rightarrow> ('s, unit) prog" where
  "remote_remove_device_from_cell exec c x d = send_command exec [''SREM'', cell_key c x, d]"

definition remote_get_devices_in_cell :: "'s server \<Rightarrow> redis_config \<Rightarrow> cell \<Rightarrow> ('s, string list) prog" where
  "remote_get_devices_in_cell exec c x =
     seq_prog (redis_command exec [''SMEMBERS'', cell_key c x]) (\<lambda>r. ret (string_array_from_reply r))"

fun remote_get_devices_in_cells :: "'s server \<Rightarrow> redis_config \<Rightarrow> cell list \<Rightarrow> string list \<Rightarrow> ('s, string list) prog" where
  "remote_get_devices_in_cells exec c [] unique = ret unique"
| "remote_get_devices_in_cells exec c (x # xs) unique =
     seq_prog (remote_get_devices_in_cell exec c x) (\<lambda>ds. remote_get_devices_in_cells exec c xs (fold us_add ds unique))"

text \<open>The keys a scan yields, page after page, each handed to the body of the loop. A server may
  answer cursors without end, so the number of pages is fuel.\<close>

fun scan_loop :: "nat \<Rightarrow> 's server \<Rightarrow> string \<Rightarrow> (string list \<Rightarrow> 'a \<Rightarrow> ('s, 'a) prog) \<Rightarrow> int \<Rightarrow> 'a \<Rightarrow> 's \<Rightarrow>
    ('a exc \<times> 's) option" where
  "scan_loop 0 exec pattern body cursor acc s = None"
| "scan_loop (Suc n) exec pattern body cursor acc s =
     (case redis_command exec [''SCAN'', show_int cursor, ''MATCH'', pattern, ''COUNT'', ''100''] s of
        (Inr (Some (Rp_array [x, keys])), s1) \<Rightarrow>
          (case value_of (sto_ll (reply_string x)) of Inl ex \<Rightarrow> Some (Inl ex, s1)
           | Inr cur \<Rightarrow> (case body (string_array_from_reply (Some keys)) acc s1 of
               (Inl ex, s2) \<Rightarrow> Some (Inl ex, s2)
             | (Inr acc', s2) \<Rightarrow> if cur = 0 then Some (Inr acc', s2) else scan_loop n exec pattern body cur acc' s2))
      | (Inl ex, s1) \<Rightarrow> Some (Inl ex, s1)
      | (_, s1) \<Rightarrow> Some (Inr acc, s1))"

definition remote_sweep_member :: "'s server \<Rightarrow> redis_config \<Rightarrow> string \<Rightarrow> string \<Rightarrow> int \<Rightarrow> ('s, int) prog" where
  "remote_sweep_member exec c key d gone =
     seq_prog (remote_get_device_state exec c d) (\<lambda>st. case st of Some _ \<Rightarrow> ret gone
       | None \<Rightarrow> seq_prog (redis_command exec [''SREM'', key, d]) (\<lambda>r.
           ret (case r of Some (Rp_integer n) \<Rightarrow> gone + n | _ \<Rightarrow> gone)))"

fun remote_sweep_members :: "'s server \<Rightarrow> redis_config \<Rightarrow> string \<Rightarrow> string list \<Rightarrow> int \<Rightarrow> ('s, int) prog" where
  "remote_sweep_members exec c key [] gone = ret gone"
| "remote_sweep_members exec c key (d # ds) gone =
     seq_prog (remote_sweep_member exec c key d gone) (remote_sweep_members exec c key ds)"

fun remote_sweep_keys :: "'s server \<Rightarrow> redis_config \<Rightarrow> string list \<Rightarrow> int \<times> int \<Rightarrow> ('s, int \<times> int) prog" where
  "remote_sweep_keys exec c [] acc = ret acc"
| "remote_sweep_keys exec c (key # keys) (removed, touched) =
     seq_prog (redis_command exec [''SMEMBERS'', key]) (\<lambda>r.
     seq_prog (remote_sweep_members exec c key (string_array_from_reply r) 0) (\<lambda>gone.
       remote_sweep_keys exec c keys (if gone > 0 then (removed + gone, touched + 1) else (removed, touched))))"

definition remote_remove_stale_cell_members :: "nat \<Rightarrow> 's server \<Rightarrow> redis_config \<Rightarrow> 's \<Rightarrow> ((int \<times> int) exc \<times> 's) option" where
  "remote_remove_stale_cell_members fuel exec c =
     scan_loop fuel exec (cell_scan_pattern c) (remote_sweep_keys exec c) 0 (0, 0)"

subsection \<open>Fence states\<close>

definition remote_get_fence_state_record :: "'s server \<Rightarrow> redis_config \<Rightarrow> string \<Rightarrow> string \<Rightarrow> ('s, fence_state_record option) prog" where
  "remote_get_fence_state_record exec c d f =
     seq_prog (redis_command exec [''HGETALL'', fence_redis_key c d f]) (\<lambda>r s.
       let fs = hash_from_reply r in
       if fs = [] then (Inr None, s)
       else case fence_state_from_hash d f fs of Inl ex \<Rightarrow> (Inl ex, s) | Inr rec \<Rightarrow> (Inr (Some rec), s))"

definition remote_get_fence_state :: "'s server \<Rightarrow> redis_config \<Rightarrow> string \<Rightarrow> string \<Rightarrow> ('s, fence_state option) prog" where
  "remote_get_fence_state exec c d f =
     seq_prog (remote_get_fence_state_record exec c d f) (\<lambda>rec. ret (map_option fs_state rec))"

definition remote_set_fence_state :: "'s server \<Rightarrow> redis_config \<Rightarrow> string \<Rightarrow> string \<Rightarrow> fence_state \<Rightarrow> int \<Rightarrow> ('s, unit) prog" where
  "remote_set_fence_state exec c d f st ts =
     seq_prog (case st of OUTSIDE \<Rightarrow> ret 0 | INSIDE \<Rightarrow> ret ts
       | DWELL \<Rightarrow> seq_prog (remote_get_fence_state_record exec c d f) (\<lambda>prev.
           ret (case prev of None \<Rightarrow> ts | Some p \<Rightarrow> if fs_entered_at_ms p > 0 then fs_entered_at_ms p else ts)))
     (\<lambda>entered. send_command exec [''HSET'', fence_redis_key c d f, ''state'', fence_state_to_string st,
        ''entered_at_ms'', show_int entered, ''updated_at_ms'', show_int ts])"

fun remote_collect_fences :: "'s server \<Rightarrow> redis_config \<Rightarrow> fence_state \<Rightarrow> string list \<Rightarrow> fence_state_record list \<Rightarrow>
    ('s, fence_state_record list) prog" where
  "remote_collect_fences exec c st [] recs = ret recs"
| "remote_collect_fences exec c st (key # keys) recs =
     (let (d, f) = parse_fence_ids c key in
      if d = [] \<or> f = [] then remote_collect_fences exec c st keys recs
      else seq_prog (remote_get_fence_state_record exec c d f) (\<lambda>rec.
        remote_collect_fences exec c st keys (case rec of None \<Rightarrow> recs
          | Some r \<Rightarrow> if fs_state r = st then recs @ [r] else recs)))"

definition remote_list_fence_states :: "nat \<Rightarrow> 's server \<Rightarrow> redis_config \<Rightarrow> fence_state \<Rightarrow> 's \<Rightarrow>
    (fence_state_record list exc \<times> 's) option" where
  "remote_list_fence_states fuel exec c st =
     scan_loop fuel exec (fence_scan_pattern c) (remote_collect_fences exec c st) 0 []"

subsection \<open>Reservations of agents\<close>

definition remote_try_reserve_agent :: "'s server \<Rightarrow> redis_config \<Rightarrow> string \<Rightarrow> string \<Rightarrow> int \<Rightarrow> ('s, bool) prog" where
  "remote_try_reserve_agent exec c agent request ttl_ms =
     (if agent = [] \<or> request = [] \<or> ttl_ms \<le> 0 then ret False
      else seq_prog (redis_command exec [''SET'', reservation_key c agent, request, ''PX'', show_int ttl_ms, ''NX''])
        (\<lambda>r. ret (reply_status_equals r ''OK'')))"

definition remote_get_agent_reservation_holder :: "'s server \<Rightarrow> redis_config \<Rightarrow> string \<Rightarrow> ('s, string option) prog" where
  "remote_get_agent_reservation_holder exec c agent =
     seq_prog (redis_command exec [''GET'', reservation_key c agent]) (\<lambda>r.
       ret (case r of None \<Rightarrow> None | Some Rp_nil \<Rightarrow> None | Some x \<Rightarrow> Some (reply_string x)))"

text \<open>The holder is read first; the deletion is a second command.\<close>

definition remote_release_if_held :: "'s server \<Rightarrow> redis_config \<Rightarrow> string \<Rightarrow> string \<Rightarrow> string option \<Rightarrow> ('s, unit) prog" where
  "remote_release_if_held exec c agent request holder =
     (if holder = Some request then send_command exec [''DEL'', reservation_key c agent] else skip)"

definition remote_release_agent :: "'s server \<Rightarrow> redis_config \<Rightarrow> string \<Rightarrow> string \<Rightarrow> ('s, unit) prog" where
  "remote_release_agent exec c agent request =
     seq_prog (remote_get_agent_reservation_holder exec c agent) (remote_release_if_held exec c agent request)"

definition remote_is_agent_reserved :: "'s server \<Rightarrow> redis_config \<Rightarrow> string \<Rightarrow> ('s, bool) prog" where
  "remote_is_agent_reserved exec c agent =
     seq_prog (remote_get_agent_reservation_holder exec c agent) (\<lambda>h. ret (h \<noteq> None))"

subsection \<open>Numbers survive the text\<close>

lemma length_show_nat_le: "n < 10 ^ k \<Longrightarrow> 0 < k \<Longrightarrow> length (show_nat n) \<le> k"
proof (induction k arbitrary: n)
  case (Suc k)
  show ?case
  proof (cases "n < 10")
    case True
    then show ?thesis by (subst show_nat.simps) simp
  next
    case False
    then have "0 < k" using Suc.prems(1) by (cases k) auto
    moreover have "n div 10 < 10 ^ k" using Suc.prems(1) by (simp add: less_mult_imp_div_less)
    ultimately show ?thesis using Suc.IH [of "n div 10"] False by (subst show_nat.simps) simp
  qed
qed simp

lemma pad_digits:
  assumes "length s \<le> k" "\<forall>c \<in> set s. is_digit c"
  shows "length (pad_digits k s) = k" "\<forall>c \<in> set (pad_digits k s). is_digit c"
    "digits_value 10 (pad_digits k s) = digits_value 10 s"
  using assms by (auto simp: pad_digits_def digits_value_append is_digit_def code_of_def)

lemma show_fixed_parts:
  assumes "0 \<le> x"
  obtains i f n where "show_fixed x = with_fraction i f" "\<forall>c \<in> set i. is_digit c" "\<forall>c \<in> set f. is_digit c"
    "i \<noteq> []" "of_nat (digits_value 10 (i @ f)) * scale 10 (- int (length f)) = (of_nat n / 1000000 :: rat)"
    "int n = rhe (x * 1000000)"
proof -
  define n where "n = nat (rhe (x * 1000000))"
  have "0 \<le> rhe (x * 1000000)" using assms by (intro rhe_ge_int) simp
  then have n: "int n = rhe (x * 1000000)" by (simp add: n_def)
  define f where "f = pad_digits 6 (show_nat (n mod 1000000))"
  have "length (show_nat (n mod 1000000)) \<le> 6" by (rule length_show_nat_le) simp_all
  from pad_digits [OF this show_nat_digits] have f: "length f = 6" "\<forall>c \<in> set f. is_digit c"
    "digits_value 10 f = n mod 1000000" by (simp_all add: f_def)
  have "digits_value 10 (show_nat (n div 1000000) @ f) = n div 1000000 * 1000000 + n mod 1000000"
    by (subst digits_value_append) (simp add: f)
  then have "digits_value 10 (show_nat (n div 1000000) @ f) = n" by simp
  moreover have "scale 10 (- int (length f)) = (1 / 1000000 :: rat)" by (simp add: f(1) scale_def)
  moreover have "show_fixed x = with_fraction (show_nat (n div 1000000)) f"
    by (simp add: show_fixed_def n_def f_def Let_def)
  ultimately show ?thesis using that [of "show_nat (n div 1000000)" f n] show_nat_digits f(2) n by simp
qed

text \<open>A value of at most a million, in size, is printed as a decimal within half a millionth.\<close>

lemma show_fixed_read:
  assumes "0 \<le> x" "x \<le> 1000000"
  obtains i f v where "show_fixed x = with_fraction i f" "\<forall>c \<in> set i. is_digit c" "\<forall>c \<in> set f. is_digit c"
    "i \<noteq> []" "v = of_nat (digits_value 10 (i @ f)) * scale 10 (- int (length f))" "\<bar>v - x\<bar> \<le> 1 / 2000000"
    "v = 0 \<or> pow2 (- 20) \<le> v \<and> v \<le> pow2 20"
proof -
  from show_fixed_parts [OF assms(1)] obtain i f n where p: "show_fixed x = with_fraction i f"
    "\<forall>c \<in> set i. is_digit c" "\<forall>c \<in> set f. is_digit c" "i \<noteq> []"
    "of_nat (digits_value 10 (i @ f)) * scale 10 (- int (length f)) = (of_nat n / 1000000 :: rat)"
    "int n = rhe (x * 1000000)" by blast
  have "(of_nat n :: rat) = of_int (rhe (x * 1000000))" using p(6) by (metis of_int_of_nat_eq)
  then have "\<bar>of_nat n - x * 1000000\<bar> \<le> 1 / 2" using rhe_error [of "x * 1000000"] by simp
  then have close: "\<bar>of_nat n / 1000000 - x\<bar> \<le> 1 / 2000000" by (auto simp: abs_le_iff field_simps)
  have "rhe (x * 1000000) \<le> 1000000000000" using assms(2) by (intro rhe_le_int) simp
  then have "n \<le> 1000000000000" using p(6) by simp
  then have "(of_nat n :: rat) \<le> of_nat 1000000000000" by (simp only: of_nat_le_iff)
  then have up: "of_nat n / 1000000 \<le> pow2 20" by (simp add: pow2_def)
  have low: "pow2 (- 20) \<le> of_nat n / 1000000" if "n \<noteq> 0"
  proof -
    have "(1 :: rat) \<le> of_nat n" using that by (metis One_nat_def Suc_leI neq0_conv of_nat_1 of_nat_mono)
    then show ?thesis by (simp add: pow2_def)
  qed
  show ?thesis using that [OF p(1-4) p(5) [symmetric]] close up low by (cases "n = 0") auto
qed

lemma abs_diff_D: "\<bar>a - b\<bar> \<le> (c :: rat) \<Longrightarrow> a - b \<le> c \<and> b - a \<le> c"
  by linarith

text \<open>Rounding to \<open>k + 1\<close> significant bits stays close.\<close>

lemma rhe_unit_close:
  assumes "0 < v" "e = ilog2 v - int k"
  shows "\<bar>of_int (rhe (v / pow2 e)) * pow2 e - v\<bar> \<le> v / 2 ^ Suc k"
proof -
  have "pow2 e * 2 ^ k = pow2 (ilog2 v)" using pow2_add [of e "int k"] by (simp add: assms(2) pow2_def [of "int k"])
  moreover have "pow2 (ilog2 v) \<le> v" using ilog2_bounds [OF assms(1)] by simp
  ultimately have u: "pow2 e \<le> v / 2 ^ k" by (simp add: pos_le_divide_eq)
  have "of_int (rhe (v / pow2 e)) * pow2 e - v = (of_int (rhe (v / pow2 e)) - v / pow2 e) * pow2 e"
    by (simp add: left_diff_distrib)
  then have "\<bar>of_int (rhe (v / pow2 e)) * pow2 e - v\<bar> = \<bar>of_int (rhe (v / pow2 e)) - v / pow2 e\<bar> * pow2 e"
    by (simp add: abs_mult abs_of_pos)
  also have "\<dots> \<le> 1 / 2 * pow2 e" by (intro mult_right_mono rhe_error) (simp add: less_imp_le)
  also have "\<dots> \<le> v / 2 ^ Suc k" using u by simp
  finally show ?thesis .
qed

lemma ilog2_small: "pow2 (- 20) \<le> v \<Longrightarrow> - 20 \<le> ilog2 v"
proof -
  assume v: "pow2 (- 20) \<le> v"
  then have "0 < v" using pow2_pos [of "- 20"] by linarith
  then have "pow2 (- 20) < pow2 (ilog2 v + 1)" using ilog2_bounds [of v] v by linarith
  then show ?thesis using pow2_less_imp by fastforce
qed

lemma round_mag32_close:
  assumes "pow2 (- 20) \<le> v"
  shows "\<bar>round_mag32 v - v\<bar> \<le> v / 16777216"
proof -
  have "0 < v" using assms pow2_pos [of "- 20"] by linarith
  moreover have "max (ilog2 v - 23) (- 149) = ilog2 v - int 23" using ilog2_small [OF assms] by simp
  ultimately show ?thesis using rhe_unit_close [of v _ 23] by (simp add: round_mag32_def Let_def)
qed

lemma fl_small:
  assumes "v = 0 \<or> pow2 (- 20) \<le> v \<and> v \<le> pow2 20"
  obtains y where "fl v = Fin y" "fl (- v) = Fin (- y)" "\<bar>y - v\<bar> \<le> v / 9007199254740992" "\<not> range_error v"
proof (cases "v = 0")
  case True
  then show ?thesis using that [of 0] by (simp add: range_error_def)
next
  case False
  with assms have v: "pow2 (- 20) \<le> v" "v \<le> pow2 20" by simp_all
  have pos: "0 < v" using v(1) pow2_pos [of "- 20"] by linarith
  have "ulp_exp v = ilog2 v - int 52" using ilog2_small [OF v(1)] by (simp add: ulp_exp_def)
  then have c: "\<bar>round_mag v - v\<bar> \<le> v / 9007199254740992"
    using rhe_unit_close [of v _ 52] pos by (simp add: round_mag_def)
  have "\<bar>v\<bar> \<le> pow2 20" using pos v(2) by simp
  then obtain y where y: "fl v = Fin y" using ieee.round_bounded [of 20 v] by auto
  then have "y = round_mag v" using pos by (auto simp: fl_pos split: if_splits)
  then show ?thesis using that [of y] y c range_ok [OF v] by (simp add: fl_uminus)
qed

lemma fl32_small:
  assumes "v = 0 \<or> pow2 (- 20) \<le> v \<and> v \<le> pow2 20"
  obtains y where "fl32 v = Fin y" "fl32 (- v) = Fin (- y)" "\<bar>y - v\<bar> \<le> v / 16777216"
    "\<not> range_error32 v" "\<not> range_error32 (- v)"
proof (cases "v = 0")
  case True
  then show ?thesis using that [of 0] by (simp add: fl32_def range_error32_def)
next
  case False
  with assms have v: "pow2 (- 20) \<le> v" "v \<le> pow2 20" by simp_all
  define y where "y = round_mag32 v"
  have pos: "0 < v" using v(1) pow2_pos [of "- 20"] by linarith
  have c: "\<bar>y - v\<bar> \<le> v / 16777216" unfolding y_def by (rule round_mag32_close [OF v(1)])
  have "y \<le> 2 * v" using abs_diff_D [OF c] pos by linarith
  also have "\<dots> \<le> pow2 21" using v(2) by (simp add: pow2_def)
  also have "\<dots> < pow2 128" by (rule pow2_strict_mono) simp
  finally have up: "\<not> pow2 128 \<le> y" by simp
  have "pow2 (- 126) < pow2 (- 21)" by (rule pow2_strict_mono) simp
  also have "\<dots> \<le> v / 2" using v(1) by (simp add: pow2_def)
  also have "\<dots> \<le> y" using abs_diff_D [OF c] pos by linarith
  finally have low: "pow2 (- 126) < y" .
  then have y: "\<not> \<bar>y\<bar> < pow2 (- 126)" using pow2_pos [of "- 126"] by linarith
  have f: "fl32 v = Fin y" "fl32 (- v) = Fin (- y)"
    using pos up by (simp_all add: fl32_def y_def Let_def)
  show ?thesis using that [OF f c] y by (simp add: range_error32_def f)
qed

lemma sto_f_fraction:
  assumes "\<forall>c \<in> set i. is_digit c" "\<forall>c \<in> set f. is_digit c" "i \<noteq> []"
    and v: "v = of_nat (digits_value 10 (i @ f)) * scale 10 (- int (length f))"
  shows "\<not> range_error32 v \<Longrightarrow> sto_f (with_fraction i f) = Inr (fl32 v, [])"
    and "\<not> range_error32 (- v) \<Longrightarrow> sto_f (CHR ''-'' # with_fraction i f) = Inr (fl32 (- v), [])"
proof -
  obtain c u where w: "with_fraction i f = c # u" and c: "is_digit c"
    using with_fraction_Cons [OF assms(1,3)] by blast
  have sk: "skip_space (with_fraction i f) = with_fraction i f"
    "read_sign (with_fraction i f) = (False, with_fraction i f)"
    using c by (simp_all add: w skip_space_digits read_sign_digits)
  have sk2: "skip_space (CHR ''-'' # with_fraction i f) = CHR ''-'' # with_fraction i f"
    "read_sign (CHR ''-'' # with_fraction i f) = (True, with_fraction i f)"
    by (simp_all add: skip_space_def read_sign_def is_space_def code_of_def)
  note r = read_number_fraction [OF assms(1-3), folded v]
  show "\<not> range_error32 v \<Longrightarrow> sto_f (with_fraction i f) = Inr (fl32 v, [])"
    by (simp add: sto_f_def sk r)
  show "\<not> range_error32 (- v) \<Longrightarrow> sto_f (CHR ''-'' # with_fraction i f) = Inr (fl32 (- v), [])"
    by (simp add: sto_f_def sk2 r)
qed

lemma to_string_f_read:
  assumes "\<bar>x\<bar> \<le> 1000000"
  obtains y where "sto_f (to_string_d (Fin x)) = Inr (Fin y, [])" "\<bar>y - x\<bar> \<le> 1 / 1000000 + \<bar>x\<bar> / 16777216"
proof -
  have "0 \<le> \<bar>x\<bar>" by simp
  from show_fixed_read [OF this assms] obtain i f v where p: "show_fixed \<bar>x\<bar> = with_fraction i f"
    "\<forall>c \<in> set i. is_digit c" "\<forall>c \<in> set f. is_digit c" "i \<noteq> []"
    "v = of_nat (digits_value 10 (i @ f)) * scale 10 (- int (length f))" "\<bar>v - \<bar>x\<bar>\<bar> \<le> 1 / 2000000"
    "v = 0 \<or> pow2 (- 20) \<le> v \<and> v \<le> pow2 20" by blast
  from fl32_small [OF p(7)] obtain y where y: "fl32 v = Fin y" "fl32 (- v) = Fin (- y)"
    "\<bar>y - v\<bar> \<le> v / 16777216" "\<not> range_error32 v" "\<not> range_error32 (- v)" by blast
  have d: "\<bar>y - \<bar>x\<bar>\<bar> \<le> 1 / 1000000 + \<bar>x\<bar> / 16777216"
    using abs_diff_D [OF y(3)] abs_diff_D [OF p(6)] by linarith
  note r = sto_f_fraction [OF p(2-5)]
  show ?thesis
  proof (cases "x < 0")
    case True
    have "\<bar>- y - x\<bar> = \<bar>y - \<bar>x\<bar>\<bar>" using True by simp
    then show ?thesis using that [of "- y"] r(2) [OF y(5)] p(1) d True by (simp add: to_string_d_def y)
  next
    case False
    then show ?thesis using that [of y] r(1) [OF y(4)] p(1) d by (simp add: to_string_d_def y)
  qed
qed

lemma to_string_d_read:
  assumes "\<bar>x\<bar> \<le> 1000000"
  obtains y where "sto_d (to_string_d (Fin x)) = Inr (Fin y, [])" "\<bar>y - x\<bar> \<le> 1 / 1000000"
proof -
  have "0 \<le> \<bar>x\<bar>" by simp
  from show_fixed_read [OF this assms] obtain i f v where p: "show_fixed \<bar>x\<bar> = with_fraction i f"
    "\<forall>c \<in> set i. is_digit c" "\<forall>c \<in> set f. is_digit c" "i \<noteq> []"
    "v = of_nat (digits_value 10 (i @ f)) * scale 10 (- int (length f))" "\<bar>v - \<bar>x\<bar>\<bar> \<le> 1 / 2000000"
    "v = 0 \<or> pow2 (- 20) \<le> v \<and> v \<le> pow2 20" by blast
  from fl_small [OF p(7)] obtain y where y: "fl v = Fin y" "fl (- v) = Fin (- y)"
    "\<bar>y - v\<bar> \<le> v / 9007199254740992" "\<not> range_error v" by blast
  have d: "\<bar>y - \<bar>x\<bar>\<bar> \<le> 1 / 1000000"
    using abs_diff_D [OF y(3)] abs_diff_D [OF p(6)] assms by linarith
  note r = sto_d_fraction [OF p(2-5) y(4)]
  show ?thesis
  proof (cases "x < 0")
    case True
    have "\<bar>- y - x\<bar> = \<bar>y - \<bar>x\<bar>\<bar>" using True by simp
    then show ?thesis using that [of "- y"] r(2) p(1) d True by (simp add: to_string_d_def y)
  next
    case False
    then show ?thesis using that [of y] r(1) p(1) d by (simp add: to_string_d_def y)
  qed
qed

subsection \<open>States survive the text\<close>

definition moderate :: "double \<Rightarrow> bool" where
  "moderate d = (case d of Fin x \<Rightarrow> \<bar>x\<bar> \<le> 1000000 | _ \<Rightarrow> False)"

definition printable_state :: "device_state \<Rightarrow> bool" where
  "printable_state st \<longleftrightarrow> moderate (ds_lat st) \<and> moderate (ds_lon st) \<and> moderate (ds_altitude_m st) \<and>
     moderate (ds_accuracy_m st) \<and> moderate (ds_speed_ms st) \<and> moderate (ds_heading_deg st) \<and>
     - (2 ^ 63) \<le> ds_updated_at st \<and> ds_updated_at st < 2 ^ 63"

definition reread :: "(string \<Rightarrow> (double \<times> string) exc) \<Rightarrow> double \<Rightarrow> double" where
  "reread rd x = (case rd (to_string_d x) of Inr (y, _) \<Rightarrow> y | Inl _ \<Rightarrow> NaN)"

definition text_state :: "device_state \<Rightarrow> device_state" where
  "text_state st = st\<lparr>ds_lat := reread sto_d (ds_lat st), ds_lon := reread sto_d (ds_lon st),
     ds_altitude_m := reread sto_f (ds_altitude_m st), ds_accuracy_m := reread sto_f (ds_accuracy_m st),
     ds_speed_ms := reread sto_f (ds_speed_ms st), ds_heading_deg := reread sto_f (ds_heading_deg st)\<rparr>"

text \<open>Within a millionth of each other, relative to the sizes a \<open>float\<close> keeps apart.\<close>

definition text_close :: "double \<Rightarrow> double \<Rightarrow> bool" where
  "text_close d e = (case (d, e) of (Fin x, Fin y) \<Rightarrow> \<bar>y - x\<bar> \<le> 1 / 1000000 + \<bar>x\<bar> / 16777216 | _ \<Rightarrow> False)"

lemma reread_d: "moderate x \<Longrightarrow> value_of (sto_d (to_string_d x)) = Inr (reread sto_d x) \<and> text_close x (reread sto_d x)"
proof (cases x)
  case (Fin q)
  assume "moderate x"
  then have "\<bar>q\<bar> \<le> 1000000" by (simp add: moderate_def Fin)
  from to_string_d_read [OF this] obtain y where "sto_d (to_string_d (Fin q)) = Inr (Fin y, [])"
    "\<bar>y - q\<bar> \<le> 1 / 1000000" by blast
  moreover have "\<bar>y - q\<bar> \<le> 1 / 1000000 + \<bar>q\<bar> / 16777216" using calculation(2) abs_ge_zero [of q] by linarith
  ultimately show ?thesis by (simp add: Fin reread_def text_close_def)
qed (simp_all add: moderate_def)

lemma reread_f: "moderate x \<Longrightarrow> value_of (sto_f (to_string_d x)) = Inr (reread sto_f x) \<and> text_close x (reread sto_f x)"
proof (cases x)
  case (Fin q)
  assume "moderate x"
  then have "\<bar>q\<bar> \<le> 1000000" by (simp add: moderate_def Fin)
  from to_string_f_read [OF this] obtain y where "sto_f (to_string_d (Fin q)) = Inr (Fin y, [])"
    "\<bar>y - q\<bar> \<le> 1 / 1000000 + \<bar>q\<bar> / 16777216" by blast
  then show ?thesis by (simp add: Fin reread_def text_close_def)
qed (simp_all add: moderate_def)

lemma text_state_close:
  assumes "printable_state st"
  shows "ds_device_id (text_state st) = ds_device_id st" "ds_h3_cell (text_state st) = ds_h3_cell st"
    "ds_seq (text_state st) = ds_seq st" "ds_updated_at (text_state st) = ds_updated_at st"
    "text_close (ds_lat st) (ds_lat (text_state st))" "text_close (ds_lon st) (ds_lon (text_state st))"
    "text_close (ds_altitude_m st) (ds_altitude_m (text_state st))"
    "text_close (ds_accuracy_m st) (ds_accuracy_m (text_state st))"
    "text_close (ds_speed_ms st) (ds_speed_ms (text_state st))"
    "text_close (ds_heading_deg st) (ds_heading_deg (text_state st))"
  using assms by (simp_all add: text_state_def printable_state_def reread_d reread_f)

text \<open>A hash whose fields are those of a state reads as that state.\<close>

fun pair_up :: "string list \<Rightarrow> (string \<times> string) list" where
  "pair_up (k # v # r) = (k, v) # pair_up r"
| "pair_up _ = []"

lemma sto_ll_show_cell: "value_of (sto_ll (show_cell x)) = Inr (sint x)"
proof -
  have "- (2 ^ 63) \<le> sint x" "sint x < 2 ^ 63"
    using sint_greater_eq [of x] sint_less [of x] by simp_all
  then show ?thesis by (simp add: show_cell_def sto_ll_show_int)
qed

lemma device_state_from_fields:
  assumes "printable_state st" "\<forall>(k, v) \<in> set (pair_up (state_fields st)). hash_field fs k = v"
  shows "device_state_from_hash fs = Inr (text_state st)"
proof -
  have f: "hash_field fs ''device_id'' = ds_device_id st" "hash_field fs ''lat'' = to_string_d (ds_lat st)"
    "hash_field fs ''lon'' = to_string_d (ds_lon st)" "hash_field fs ''altitude_m'' = to_string_d (ds_altitude_m st)"
    "hash_field fs ''accuracy_m'' = to_string_d (ds_accuracy_m st)"
    "hash_field fs ''speed_ms'' = to_string_d (ds_speed_ms st)"
    "hash_field fs ''heading_deg'' = to_string_d (ds_heading_deg st)"
    "hash_field fs ''h3_cell'' = show_cell (ds_h3_cell st)" "hash_field fs ''seq'' = show_nat (unat (ds_seq st))"
    "hash_field fs ''updated_at'' = show_int (ds_updated_at st)"
    using assms(2) by (simp_all add: state_fields_def)
  note p = assms(1) [unfolded printable_state_def]
  have v: "value_of (sto_ull (show_nat (unat (ds_seq st)))) = Inr (ds_seq st)"
    "value_of (sto_ll (show_int (ds_updated_at st))) = Inr (ds_updated_at st)"
    using p by (simp_all add: sto_ull_show_nat sto_ll_show_int)
  show ?thesis
    unfolding device_state_from_hash_def f
    using p by (simp add: reread_d reread_f v sto_ll_show_cell text_state_def)
qed

end
