(* ===== verification/Redis_Server.thy ===== *)
theory Redis_Server
  imports Redis_Remote
begin

text \<open>
  What the client of \<open>Redis_Remote\<close> relies on, and what follows from it.

  The locale \<open>redis_server\<close> states the documented effect of the commands the client sends, at one
  reading of the server's clock: \<open>view\<close> gives the live value of a key, and a command whose key
  holds a value of another type is not covered. \<open>redis_clock\<close> extends it with the passing of time.
  \<open>memory_exec\<close> is a server in memory with key types and deadlines, the instance of both.

  The lemmas show that the client, alone with its server, does what the in-memory store of the
  other build does, up to the text of the numbers; that reservations exclude each other until they
  expire; that a sweep removes exactly the members without a state from the cells it visits; and
  what an update does whose read was overtaken by another client.
\<close>

subsection \<open>Values and keys\<close>

datatype redis_value = V_string string | V_hash "string \<rightharpoonup> string" | V_set "string set"

fun hash_at :: "redis_value option \<Rightarrow> (string \<rightharpoonup> string) option" where
  "hash_at None = Some Map.empty"
| "hash_at (Some (V_hash h)) = Some h"
| "hash_at _ = None"

fun set_at :: "redis_value option \<Rightarrow> string set option" where
  "set_at None = Some {}"
| "set_at (Some (V_set m)) = Some m"
| "set_at _ = None"

text \<open>A set without members does not exist.\<close>

definition put_set :: "string set \<Rightarrow> redis_value option" where
  "put_set m = (if m = {} then None else Some (V_set m))"

lemma set_at_put_set [simp]: "set_at (put_set m) = Some m"
  by (simp add: put_set_def)

lemma key_prefix_inj [simp]: "key_prefix c a = key_prefix c b \<longleftrightarrow> a = b"
  by (simp add: key_prefix_def)

lemma show_int_inj [simp]: "show_int i = show_int j \<longleftrightarrow> i = j"
proof
  assume e: "show_int i = show_int j"
  have "read_int (show_int k) = Some (k < 0, nat \<bar>k\<bar>, [])" for k
    by (simp add: show_int_def)
  from this [of i] this [of j] e have "(i < 0) = (j < 0)" "nat \<bar>i\<bar> = nat \<bar>j\<bar>" by simp_all
  then show "i = j" by linarith
qed simp

lemma keys_inj [simp]:
  "device_key c d = device_key c d' \<longleftrightarrow> d = d'" "cell_key c x = cell_key c x' \<longleftrightarrow> x = x'"
  "reservation_key c a = reservation_key c a' \<longleftrightarrow> a = a'"
  "fence_redis_key c d f = fence_redis_key c d' f' \<longleftrightarrow> fence_key d f = fence_key d' f'"
  by (simp_all add: device_key_def cell_key_def reservation_key_def fence_redis_key_def show_cell_def
      fence_key_def word_eq_iff_signed [symmetric])

lemma keys_apart [simp]:
  "device_key c d \<noteq> cell_key c x" "cell_key c x \<noteq> device_key c d"
  "device_key c d \<noteq> fence_redis_key c d' f" "fence_redis_key c d' f \<noteq> device_key c d"
  "device_key c d \<noteq> reservation_key c a" "reservation_key c a \<noteq> device_key c d"
  "cell_key c x \<noteq> fence_redis_key c d' f" "fence_redis_key c d' f \<noteq> cell_key c x"
  "cell_key c x \<noteq> reservation_key c a" "reservation_key c a \<noteq> cell_key c x"
  "fence_redis_key c d' f \<noteq> reservation_key c a" "reservation_key c a \<noteq> fence_redis_key c d' f"
  by (simp_all add: device_key_def cell_key_def fence_redis_key_def reservation_key_def)

lemma keys_not_Nil [simp]: "device_key c d \<noteq> []" "cell_key c x \<noteq> []"
  by (simp_all add: device_key_def cell_key_def key_prefix_def)

lemma command_simp [simp]: "redis_command exec (a # as) s = (Inr (fst (exec (a # as) s)), snd (exec (a # as) s))"
  by (simp add: redis_command_def case_prod_beta)

lemma send_simp [simp]: "send_command exec (a # as) s = (Inr (), snd (exec (a # as) s))"
  by (simp add: send_command_def seq_prog_def)

subsection \<open>What the keys hold\<close>

text \<open>The hash of a device has the fields of its state, printed.\<close>

definition has_fields :: "(string \<rightharpoonup> string) \<Rightarrow> string list \<Rightarrow> bool" where
  "has_fields h fvs \<longleftrightarrow> (\<forall>(k, v) \<in> set (pair_up fvs). h k = Some v)"

definition state_at :: "redis_value option \<Rightarrow> device_state option \<Rightarrow> bool" where
  "state_at x st = (case st of None \<Rightarrow> x = None
     | Some s \<Rightarrow> printable_state s \<and> (\<exists>h. x = Some (V_hash h) \<and> has_fields h (state_fields s)))"

definition int64 :: "int \<Rightarrow> bool" where
  "int64 i \<longleftrightarrow> - (2 ^ 63) \<le> i \<and> i < 2 ^ 63"

definition fence_fields :: "fence_state \<Rightarrow> int \<Rightarrow> int \<Rightarrow> string list" where
  "fence_fields st entered ts = [''state'', fence_state_to_string st, ''entered_at_ms'', show_int entered,
     ''updated_at_ms'', show_int ts]"

definition fence_at :: "redis_value option \<Rightarrow> fence_state_record option \<Rightarrow> bool" where
  "fence_at x r = (case r of None \<Rightarrow> x = None
     | Some f \<Rightarrow> int64 (fs_entered_at_ms f) \<and> int64 (fs_updated_at_ms f) \<and> (\<exists>h. x = Some (V_hash h) \<and>
         has_fields h (fence_fields (fs_state f) (fs_entered_at_ms f) (fs_updated_at_ms f))))"

definition fence_key_at :: "redis_config \<Rightarrow> string \<Rightarrow> string" where
  "fence_key_at c k = key_prefix c (''fence:'' @ k)"

lemma fence_key_at [simp]: "fence_redis_key c d f = fence_key_at c (fence_key d f)"
  by (simp add: fence_redis_key_def fence_key_at_def fence_key_def)

lemma fence_key_at_apart [simp]:
  "fence_key_at c k = fence_key_at c k' \<longleftrightarrow> k = k'"
  "device_key c d \<noteq> fence_key_at c k" "fence_key_at c k \<noteq> device_key c d"
  "cell_key c x \<noteq> fence_key_at c k" "fence_key_at c k \<noteq> cell_key c x"
  "fence_key_at c k \<noteq> reservation_key c a" "reservation_key c a \<noteq> fence_key_at c k"
  by (simp_all add: fence_key_at_def device_key_def cell_key_def reservation_key_def)

text \<open>The server holds, as text, what the in-memory store holds at the time \<open>now\<close>.\<close>

definition states_match :: "redis_config \<Rightarrow> (string \<Rightarrow> redis_value option) \<Rightarrow> redis \<Rightarrow> bool" where
  "states_match c w r \<longleftrightarrow> (\<forall>d. state_at (w (device_key c d)) (get_device_state r d))"

definition cells_match :: "redis_config \<Rightarrow> (string \<Rightarrow> redis_value option) \<Rightarrow> redis \<Rightarrow> bool" where
  "cells_match c w r \<longleftrightarrow> (\<forall>x. set_at (w (cell_key c x)) = Some (set (get_devices_in_cell r x)))"

definition fences_match :: "redis_config \<Rightarrow> (string \<Rightarrow> redis_value option) \<Rightarrow> redis \<Rightarrow> bool" where
  "fences_match c w r \<longleftrightarrow> (\<forall>k. fence_at (w (fence_key_at c k)) (map_of (rd_fence_states r) k))"

definition holders_match :: "redis_config \<Rightarrow> int \<Rightarrow> (string \<Rightarrow> redis_value option) \<Rightarrow> redis \<Rightarrow> bool" where
  "holders_match c now w r \<longleftrightarrow>
     (\<forall>a. w (reservation_key c a) = map_option V_string (get_agent_reservation_holder now r a))"

definition matches_memory :: "redis_config \<Rightarrow> int \<Rightarrow> (string \<Rightarrow> redis_value option) \<Rightarrow> redis \<Rightarrow> bool" where
  "matches_memory c now w r \<longleftrightarrow> states_match c w r \<and> cells_match c w r \<and> fences_match c w r \<and> holders_match c now w r"

lemma matches_new: "matches_memory c now Map.empty new_redis"
  by (simp add: matches_memory_def states_match_def cells_match_def fences_match_def holders_match_def
      state_at_def fence_at_def new_redis_def get_device_state_def get_devices_in_cell_def
      get_agent_reservation_holder_def)

text \<open>Each family of keys matches apart from the others.\<close>

lemma states_match_frame [simp]:
  "states_match c (w(cell_key c x := v)) r = states_match c w r"
  "states_match c (w(fence_key_at c k := v)) r = states_match c w r"
  "states_match c (w(reservation_key c a := v)) r = states_match c w r"
  by (simp_all add: states_match_def)

lemma cells_match_frame [simp]:
  "cells_match c (w(device_key c d := v)) r = cells_match c w r"
  "cells_match c (w(fence_key_at c k := v)) r = cells_match c w r"
  "cells_match c (w(reservation_key c a := v)) r = cells_match c w r"
  by (simp_all add: cells_match_def)

lemma fences_match_frame [simp]:
  "fences_match c (w(device_key c d := v)) r = fences_match c w r"
  "fences_match c (w(cell_key c x := v)) r = fences_match c w r"
  "fences_match c (w(reservation_key c a := v)) r = fences_match c w r"
  by (simp_all add: fences_match_def)

lemma holders_match_frame [simp]:
  "holders_match c now (w(device_key c d := v)) r = holders_match c now w r"
  "holders_match c now (w(cell_key c x := v)) r = holders_match c now w r"
  "holders_match c now (w(fence_key_at c k := v)) r = holders_match c now w r"
  by (simp_all add: holders_match_def)

lemma match_fields:
  "rd_device_states r = rd_device_states r' \<Longrightarrow> states_match c w r = states_match c w r'"
  "rd_cell_devices r = rd_cell_devices r' \<Longrightarrow> cells_match c w r = cells_match c w r'"
  "rd_fence_states r = rd_fence_states r' \<Longrightarrow> fences_match c w r = fences_match c w r'"
  "rd_reservations r = rd_reservations r' \<Longrightarrow> holders_match c now w r = holders_match c now w r'"
  by (simp_all add: states_match_def cells_match_def fences_match_def holders_match_def get_device_state_def
      get_devices_in_cell_def get_agent_reservation_holder_def)

text \<open>Fields that were just set.\<close>

lemma has_fields_set: "distinct (map fst (pair_up fvs)) \<Longrightarrow> has_fields (h ++ map_of (rev (pair_up fvs))) fvs"
  by (auto simp: has_fields_def map_add_def distinct_rev rev_map [symmetric] intro!: map_of_is_SomeI
      split: option.splits dest!: map_of_SomeD) 

lemma hash_field_map: "map_of fs = h \<Longrightarrow> has_fields h fvs \<Longrightarrow> \<forall>(k, v) \<in> set (pair_up fvs). hash_field fs k = v"
  by (auto simp: has_fields_def hash_field_def)

lemma fence_state_from_fields:
  assumes "int64 entered" "int64 ts" "\<forall>(k, v) \<in> set (pair_up (fence_fields st entered ts)). hash_field fs k = v"
  shows "fence_state_from_hash d f fs = Inr \<lparr>fs_device_id = d, fs_fence_id = f, fs_state = st,
    fs_entered_at_ms = entered, fs_updated_at_ms = ts\<rparr>"
proof -
  have "hash_field fs ''state'' = fence_state_to_string st" "hash_field fs ''entered_at_ms'' = show_int entered"
    "hash_field fs ''updated_at_ms'' = show_int ts"
    using assms(3) by (simp_all add: fence_fields_def)
  moreover have "fence_state_from_string (fence_state_to_string st) = st"
    by (cases st) (simp_all add: fence_state_from_string_def fence_state_to_string.simps)
  ultimately show ?thesis using assms(1,2) by (simp add: fence_state_from_hash_def sto_ll_show_int int64_def)
qed

subsection \<open>The interface of the server\<close>

locale redis_server =
  fixes exec :: "'s server" and view :: "'s \<Rightarrow> string \<Rightarrow> redis_value option"
  assumes ping: "fst (exec [''PING''] s) = Some (Rp_status ''PONG'')" "view (snd (exec [''PING''] s)) = view s"
    and hash_fields: "view s k = Some (V_hash h) \<Longrightarrow> h \<noteq> Map.empty"
    and hgetall: "hash_at (view s k) = Some h \<Longrightarrow>
      (\<exists>rs. fst (exec [''HGETALL'', k] s) = Some (Rp_array rs) \<and> map_of (hash_pairs rs) = h)"
      "hash_at (view s k) = Some h \<Longrightarrow> view (snd (exec [''HGETALL'', k] s)) = view s"
    and hset: "hash_at (view s k) = Some h \<Longrightarrow> pair_up fvs \<noteq> [] \<Longrightarrow> even (length fvs) \<Longrightarrow>
      view (snd (exec (''HSET'' # k # fvs) s)) = (view s)(k \<mapsto> V_hash (h ++ map_of (rev (pair_up fvs))))"
    and sadd: "set_at (view s k) = Some m \<Longrightarrow>
      view (snd (exec [''SADD'', k, d] s)) = (view s)(k \<mapsto> V_set (insert d m))"
    and srem: "set_at (view s k) = Some m \<Longrightarrow>
      fst (exec [''SREM'', k, d] s) = Some (Rp_integer (if d \<in> m then 1 else 0))"
      "set_at (view s k) = Some m \<Longrightarrow>
      view (snd (exec [''SREM'', k, d] s)) = (view s)(k := put_set (m - {d}))"
    and smembers: "set_at (view s k) = Some m \<Longrightarrow>
      (\<exists>ds. fst (exec [''SMEMBERS'', k] s) = Some (Rp_array (map Rp_string ds)) \<and> set ds = m \<and> distinct ds)"
      "set_at (view s k) = Some m \<Longrightarrow> view (snd (exec [''SMEMBERS'', k] s)) = view s"
    and expire: "0 < n \<Longrightarrow> n < 2 ^ 31 \<Longrightarrow> view (snd (exec [''EXPIRE'', k, show_int n] s)) = view s"
    and set_nx: "0 < ms \<Longrightarrow> ms < 2 ^ 31 \<Longrightarrow> fst (exec [''SET'', k, v, ''PX'', show_int ms, ''NX''] s) =
      Some (if view s k = None then Rp_status ''OK'' else Rp_nil)"
      "0 < ms \<Longrightarrow> ms < 2 ^ 31 \<Longrightarrow> view (snd (exec [''SET'', k, v, ''PX'', show_int ms, ''NX''] s)) =
      (if view s k = None then (view s)(k \<mapsto> V_string v) else view s)"
    and get_string: "view s k = None \<Longrightarrow> fst (exec [''GET'', k] s) = Some Rp_nil"
      "view s k = Some (V_string v) \<Longrightarrow> fst (exec [''GET'', k] s) = Some (Rp_string v)"
      "view (snd (exec [''GET'', k] s)) = view s"
    and del: "view (snd (exec [''DEL'', k] s)) = (view s)(k := None)"

subsection \<open>Programs against the laws\<close>

text \<open>The calls that change the server, and the same calls on the in-memory store.\<close>

datatype redis_call = Call_update string device_state int | Call_add cell string | Call_remove cell string
  | Call_set_fence string string fence_state int | Call_reserve string string int | Call_release string string

fun remote_call :: "'s server \<Rightarrow> redis_config \<Rightarrow> redis_call \<Rightarrow> ('s, bool) prog" where
  "remote_call exec c (Call_update d st ttl) = remote_update_device_state_cas exec c d st ttl"
| "remote_call exec c (Call_add x d) = andthen (remote_add_device_to_cell exec c x d) (ret True)"
| "remote_call exec c (Call_remove x d) = andthen (remote_remove_device_from_cell exec c x d) (ret True)"
| "remote_call exec c (Call_set_fence d f st ts) = andthen (remote_set_fence_state exec c d f st ts) (ret True)"
| "remote_call exec c (Call_reserve a q ttl) = remote_try_reserve_agent exec c a q ttl"
| "remote_call exec c (Call_release a q) = andthen (remote_release_agent exec c a q) (ret True)"

fun memory_call :: "int \<Rightarrow> redis_call \<Rightarrow> redis \<Rightarrow> bool \<times> redis" where
  "memory_call now (Call_update d st ttl) r = update_device_state_cas d st ttl r"
| "memory_call now (Call_add x d) r = (True, add_device_to_cell x d r)"
| "memory_call now (Call_remove x d) r = (True, remove_device_from_cell x d r)"
| "memory_call now (Call_set_fence d f st ts) r = (True, set_fence_state d f st ts r)"
| "memory_call now (Call_reserve a q ttl) r = try_reserve_agent now a q ttl r"
| "memory_call now (Call_release a q) r = (True, release_agent a q r)"

fun call_ok :: "redis_call \<Rightarrow> bool" where
  "call_ok (Call_update d st ttl) \<longleftrightarrow> d \<noteq> [] \<and> printable_state st \<and> ttl < 2 ^ 31"
| "call_ok (Call_set_fence d f st ts) \<longleftrightarrow> int64 ts"
| "call_ok (Call_reserve a q ttl) \<longleftrightarrow> ttl < 2 ^ 31"
| "call_ok _ \<longleftrightarrow> True"

fun remote_calls :: "'s server \<Rightarrow> redis_config \<Rightarrow> redis_call list \<Rightarrow> ('s, bool list) prog" where
  "remote_calls exec c [] = ret []"
| "remote_calls exec c (p # ps) = seq_prog (remote_call exec c p) (\<lambda>b.
     seq_prog (remote_calls exec c ps) (\<lambda>bs. ret (b # bs)))"

fun memory_calls :: "int \<Rightarrow> redis_call list \<Rightarrow> redis \<Rightarrow> bool list \<times> redis" where
  "memory_calls now [] r = ([], r)"
| "memory_calls now (p # ps) r = (let (b, r1) = memory_call now p r; (bs, r2) = memory_calls now ps r1 in (b # bs, r2))"

context redis_server
begin

lemma get_hash:
  assumes "hash_at (view s k) = Some h"
  obtains fs where "map_of fs = h" "hash_from_reply (fst (exec [''HGETALL'', k] s)) = fs" "fs = [] \<longleftrightarrow> h = Map.empty"
proof -
  from hgetall(1) [OF assms] obtain rs where rs: "fst (exec [''HGETALL'', k] s) = Some (Rp_array rs)"
    "map_of (hash_pairs rs) = h" by blast
  have "hash_pairs rs = [] \<longleftrightarrow> h = Map.empty" using rs(2) by (cases "hash_pairs rs") auto
  then show ?thesis using that [of "hash_pairs rs"] rs by (simp add: hash_from_reply_def)
qed

text \<open>Reading a state gives back what was written, as far as the text keeps it.\<close>

lemma get_state:
  assumes "state_at (view s (device_key c d)) st"
  shows "fst (remote_get_device_state exec c d s) = Inr (map_option text_state st) \<and>
    view (snd (remote_get_device_state exec c d s)) = view s"
proof (cases st)
  case None
  then have h: "hash_at (view s (device_key c d)) = Some Map.empty" using assms by (simp add: state_at_def)
  from get_hash [OF h] obtain fs where "hash_from_reply (fst (exec [''HGETALL'', device_key c d] s)) = []" by metis
  then show ?thesis using None hgetall(2) [OF h]
    by (simp add: remote_get_device_state_def seq_prog_def)
next
  case (Some x)
  then obtain h where p: "printable_state x" "view s (device_key c d) = Some (V_hash h)"
    "has_fields h (state_fields x)" using assms by (auto simp: state_at_def)
  then have h: "hash_at (view s (device_key c d)) = Some h" by simp
  from get_hash [OF h] obtain fs where fs: "map_of fs = h"
    "hash_from_reply (fst (exec [''HGETALL'', device_key c d] s)) = fs" "fs \<noteq> []"
    using hash_fields [OF p(2)] by metis
  have "device_state_from_hash fs = Inr (text_state x)"
    by (rule device_state_from_fields [OF p(1) hash_field_map [OF fs(1) p(3)]])
  then show ?thesis using Some hgetall(2) [OF h] fs(2,3)
    by (simp add: remote_get_device_state_def seq_prog_def)
qed

lemma get_fence:
  assumes "fence_at (view s (fence_redis_key c d f)) r"
  shows "fst (remote_get_fence_state_record exec c d f s) =
      Inr (map_option (\<lambda>x. x\<lparr>fs_device_id := d, fs_fence_id := f\<rparr>) r) \<and>
    view (snd (remote_get_fence_state_record exec c d f s)) = view s"
proof (cases r)
  case None
  then have h: "hash_at (view s (fence_redis_key c d f)) = Some Map.empty" using assms by (simp add: fence_at_def)
  from get_hash [OF h] obtain fs where "hash_from_reply (fst (exec [''HGETALL'', fence_redis_key c d f] s)) = []" by metis
  then show ?thesis using None hgetall(2) [OF h]
    by (simp add: remote_get_fence_state_record_def seq_prog_def)
next
  case (Some x)
  then obtain h where p: "int64 (fs_entered_at_ms x)" "int64 (fs_updated_at_ms x)"
    "view s (fence_redis_key c d f) = Some (V_hash h)"
    "has_fields h (fence_fields (fs_state x) (fs_entered_at_ms x) (fs_updated_at_ms x))"
    using assms by (auto simp: fence_at_def)
  then have h: "hash_at (view s (fence_redis_key c d f)) = Some h" by simp
  from get_hash [OF h] obtain fs where fs: "map_of fs = h"
    "hash_from_reply (fst (exec [''HGETALL'', fence_redis_key c d f] s)) = fs" "fs \<noteq> []"
    using hash_fields [OF p(3)] by metis
  have "fence_state_from_hash d f fs = Inr (x\<lparr>fs_device_id := d, fs_fence_id := f\<rparr>)"
    using fence_state_from_fields [OF p(1,2) hash_field_map [OF fs(1) p(4)]] by simp
  then show ?thesis using Some hgetall(2) [OF h] fs(2,3)
    by (simp add: remote_get_fence_state_record_def seq_prog_def)
qed

end

lemma state_fields_pairs [simp]:
  "pair_up (state_fields st) \<noteq> []" "even (length (state_fields st))" "distinct (map fst (pair_up (state_fields st)))"
  "pair_up (fence_fields f e t) \<noteq> []" "even (length (fence_fields f e t))" "distinct (map fst (pair_up (fence_fields f e t)))"
  by (simp_all add: state_fields_def fence_fields_def)

text \<open>The store part of an update takes the cell to leave from the state that was read.\<close>

definition left_cell :: "device_state option \<Rightarrow> device_state \<Rightarrow> cell option" where
  "left_cell current st = (case current of None \<Rightarrow> None
     | Some old \<Rightarrow> if ds_h3_cell old \<noteq> ds_h3_cell st then Some (ds_h3_cell old) else None)"

definition newer :: "device_state option \<Rightarrow> device_state \<Rightarrow> bool" where
  "newer current st = (case current of None \<Rightarrow> True | Some old \<Rightarrow> ds_seq old < ds_seq st)"

context redis_server
begin

lemma store_state_refused:
  "\<not> newer current st \<Longrightarrow> remote_store_state exec c d st ttl_s current s = (Inr False, s)"
  by (auto simp: remote_store_state_def newer_def not_less split: option.splits)

lemma store_state:
  assumes h: "hash_at (view s (device_key c d)) = Some h"
    and m: "\<And>x. set_at (view s (cell_key c x)) = Some (m x)"
    and n: "newer current st" and ttl: "ttl_s < 2 ^ 31"
  defines "w \<equiv> (case left_cell current st of None \<Rightarrow> view s
      | Some x \<Rightarrow> (view s)(cell_key c x := put_set (m x - {d})))"
  shows "fst (remote_store_state exec c d st ttl_s current s) = Inr True"
    and "view (snd (remote_store_state exec c d st ttl_s current s)) =
      w(device_key c d \<mapsto> V_hash (h ++ map_of (rev (pair_up (state_fields (st\<lparr>ds_device_id := d\<rparr>))))),
        cell_key c (ds_h3_cell st) \<mapsto> V_set (insert d (m (ds_h3_cell st))))"
proof -
  define stored where "stored = st\<lparr>ds_device_id := d\<rparr>"
  define s1 where "s1 = (case left_cell current st of None \<Rightarrow> s
    | Some x \<Rightarrow> snd (exec [''SREM'', cell_key c x, d] s))"
  define s2 where "s2 = snd (exec (''HSET'' # device_key c d # state_fields stored) s1)"
  define s3 where "s3 = (if ttl_s > 0 then snd (exec [''EXPIRE'', device_key c d, show_int ttl_s] s2) else s2)"
  define s4 where "s4 = snd (exec [''SADD'', cell_key c (ds_h3_cell st), d] s3)"
  have "\<not> (case current of None \<Rightarrow> False | Some old \<Rightarrow> ds_seq st \<le> ds_seq old)"
    using n by (auto simp: newer_def not_le split: option.splits)
  moreover have "(case current of None \<Rightarrow> skip
       | Some old \<Rightarrow> if ds_h3_cell old \<noteq> ds_h3_cell st
           then send_command exec [''SREM'', cell_key c (ds_h3_cell old), d] else skip) s = (Inr (), s1)"
    by (simp add: s1_def left_cell_def split: option.splits)
  moreover have "(if ttl_s > 0 then send_command exec [''EXPIRE'', device_key c d, show_int ttl_s] else skip) s2 = (Inr (), s3)"
    by (simp add: s3_def)
  ultimately have run: "remote_store_state exec c d st ttl_s current s = (Inr True, s4)"
    by (simp add: remote_store_state_def Let_def stored_def [symmetric] s2_def [symmetric] s4_def)
      (simp add: stored_def s4_def)
  have v1: "view s1 = w" using srem(2) [OF m] by (simp add: s1_def w_def split: option.splits)
  have "hash_at (view s1 (device_key c d)) = Some h" using h by (simp add: v1 w_def split: option.splits)
  from hset [OF this, of "state_fields stored"] have v2: "view s2 =
      w(device_key c d \<mapsto> V_hash (h ++ map_of (rev (pair_up (state_fields stored)))))"
    by (simp add: s2_def v1)
  have v3: "view s3 = view s2" using expire [of ttl_s] ttl by (simp add: s3_def)
  have "left_cell current st \<noteq> Some (ds_h3_cell st)" by (simp add: left_cell_def split: option.splits)
  then have "set_at (view s3 (cell_key c (ds_h3_cell st))) = Some (m (ds_h3_cell st))"
    using m by (auto simp: v3 v2 w_def split: option.splits)
  from sadd [OF this] have "view s4 = w(device_key c d \<mapsto> V_hash (h ++ map_of (rev (pair_up (state_fields stored)))),
        cell_key c (ds_h3_cell st) \<mapsto> V_set (insert d (m (ds_h3_cell st))))"
    by (simp add: s4_def v3 v2)
  with run show "fst (remote_store_state exec c d st ttl_s current s) = Inr True"
    "view (snd (remote_store_state exec c d st ttl_s current s)) =
      w(device_key c d \<mapsto> V_hash (h ++ map_of (rev (pair_up (state_fields (st\<lparr>ds_device_id := d\<rparr>))))),
        cell_key c (ds_h3_cell st) \<mapsto> V_set (insert d (m (ds_h3_cell st))))"
    by (simp_all add: stored_def)
qed

end

lemma text_state_keeps [simp]:
  "ds_seq (text_state st) = ds_seq st" "ds_h3_cell (text_state st) = ds_h3_cell st"
  "ds_device_id (text_state st) = ds_device_id st" "ds_updated_at (text_state st) = ds_updated_at st"
  by (simp_all add: text_state_def)

lemma read_decides [simp]:
  "newer (map_option text_state cur) st = newer cur st" "left_cell (map_option text_state cur) st = left_cell cur st"
  by (simp_all add: newer_def left_cell_def split: option.splits)

lemma newer_cas: "newer (get_device_state r d) st = fst (update_device_state_cas d st t r)"
  by (simp add: cas_ok_iff newer_def split: option.splits)

lemma printable_named [simp]: "printable_state (st\<lparr>ds_device_id := d\<rparr>) = printable_state st"
  by (simp add: printable_state_def)

lemma states_match_put:
  assumes "states_match c w r" "printable_state st"
    and "\<And>d'. get_device_state r' d' = (if d' = d then Some st else get_device_state r d')"
  shows "states_match c (w(device_key c d \<mapsto> V_hash (h ++ map_of (rev (pair_up (state_fields st)))))) r'"
  using assms by (auto simp: states_match_def state_at_def has_fields_set)

lemma cells_match_put:
  assumes "cells_match c w r" "\<And>y. set (get_devices_in_cell r' y) = (if y = x then m else set (get_devices_in_cell r y))"
    and "set_at v = Some m"
  shows "cells_match c (w(cell_key c x := v)) r'"
  using assms by (simp add: cells_match_def)

context redis_server
begin

lemma update_refines:
  assumes M: "matches_memory c now (view s) r" and d: "d \<noteq> []" "printable_state st" "t < 2 ^ 31"
  shows "fst (remote_update_device_state_cas exec c d st t s) = Inr (fst (update_device_state_cas d st t r)) \<and>
    matches_memory c now (view (snd (remote_update_device_state_cas exec c d st t s))) (snd (update_device_state_cas d st t r))"
proof -
  let ?cur = "get_device_state r d"
  have at_d: "state_at (view s (device_key c d)) ?cur" using M by (simp add: matches_memory_def states_match_def)
  obtain s1 where s1: "remote_get_device_state exec c d s = (Inr (map_option text_state ?cur), s1)" "view s1 = view s"
    using get_state [OF at_d] by (metis prod.collapse)
  have run: "remote_update_device_state_cas exec c d st t s = remote_store_state exec c d st t (map_option text_state ?cur) s1"
    using d(1) s1(1) by (simp add: remote_update_device_state_cas_def)
  obtain b r' where up: "update_device_state_cas d st t r = (b, r')" by (cases "update_device_state_cas d st t r")
  show ?thesis
  proof (cases b)
    case False
    then have "\<not> newer ?cur st" using up newer_cas [of r d st t] by simp
    then have "remote_update_device_state_cas exec c d st t s = (Inr False, s1)"
      unfolding run by (intro store_state_refused) simp
    then show ?thesis using up False cas_failed [of d st t r r'] M s1(2) by simp
  next
    case True
    then have n: "newer (map_option text_state ?cur) st" using up newer_cas [of r d st t] by simp
    note c = cas_cells [OF up [unfolded True [THEN eqTrueI]]]
    obtain h where h: "hash_at (view s1 (device_key c d)) = Some h"
      using at_d by (auto simp: s1(2) state_at_def split: option.splits)
    have m: "set_at (view s1 (cell_key c x)) = Some (set (get_devices_in_cell r x))" for x
      using M by (simp add: s1(2) matches_memory_def cells_match_def)
    define r1 where "r1 = r\<lparr>rd_cell_devices := (case left_cell ?cur st of None \<Rightarrow> rd_cell_devices r
      | Some x \<Rightarrow> erase_from_cell x d (rd_cell_devices r))\<rparr>"
    define w where "w = (case left_cell ?cur st of None \<Rightarrow> view s
      | Some x \<Rightarrow> (view s)(cell_key c x := put_set (set (get_devices_in_cell r x) - {d})))"
    note st = store_state [OF h m n d(3), unfolded read_decides s1(2), folded w_def]
    have w: "cells_match c w r1" "states_match c w r" "fences_match c w r" "holders_match c now w r"
      using M by (auto simp: w_def r1_def matches_memory_def get_devices_members members_erase
          intro!: cells_match_put [of c _ r] split: option.splits)
    have r': "rd_cell_devices r' = insert_into_cell (ds_h3_cell st) d (rd_cell_devices r1)"
      using c by (simp add: r1_def left_cell_def split: option.splits)
    have "left_cell ?cur st \<noteq> Some (ds_h3_cell st)" by (simp add: left_cell_def split: option.splits)
    then have "set (get_devices_in_cell r1 (ds_h3_cell st)) = set (get_devices_in_cell r (ds_h3_cell st))"
      by (auto simp: r1_def get_devices_members members_erase split: option.splits)
    then have "cells_match c (w(device_key c d \<mapsto> X, cell_key c (ds_h3_cell st) \<mapsto>
        V_set (insert d (set (get_devices_in_cell r (ds_h3_cell st)))))) r'" for X
      using w(1) by (intro cells_match_put [of c _ r1]) (simp_all add: get_devices_members r' members_insert)
    moreover have "states_match c (w(device_key c d \<mapsto> V_hash (h ++ map_of (rev (pair_up (state_fields (st\<lparr>ds_device_id := d\<rparr>))))),
        cell_key c (ds_h3_cell st) \<mapsto> Y)) r'" for Y
      using states_match_put [OF w(2), of "st\<lparr>ds_device_id := d\<rparr>" r' d h] d(2) c
      by (simp add: get_device_state_def)
    moreover have "rd_fence_states r = rd_fence_states r'" "rd_reservations r = rd_reservations r'"
      using cas_frame [of d st t r] up by simp_all
    ultimately show ?thesis unfolding run using st w(3,4) match_fields(3,4) [of r r'] up True
      by (simp add: matches_memory_def)
  qed
qed

lemma cell_calls_refine:
  assumes M: "matches_memory c now (view s) r"
  shows "matches_memory c now (view (snd (remote_add_device_to_cell exec c x d s))) (add_device_to_cell x d r)"
    "matches_memory c now (view (snd (remote_remove_device_from_cell exec c x d s))) (remove_device_from_cell x d r)"
proof -
  have m: "set_at (view s (cell_key c x)) = Some (set (get_devices_in_cell r x))"
    using M by (simp add: matches_memory_def cells_match_def)
  have a: "cells_match c ((view s)(cell_key c x \<mapsto> V_set (insert d (set (get_devices_in_cell r x))))) (add_device_to_cell x d r)"
    using M by (intro cells_match_put [of c _ r])
      (auto simp: matches_memory_def add_device_to_cell_def get_devices_members members_insert)
  have e: "cells_match c ((view s)(cell_key c x := put_set (set (get_devices_in_cell r x) - {d}))) (remove_device_from_cell x d r)"
    using M by (intro cells_match_put [of c _ r])
      (auto simp: matches_memory_def remove_device_from_cell_def get_devices_members members_erase)
  show "matches_memory c now (view (snd (remote_add_device_to_cell exec c x d s))) (add_device_to_cell x d r)"
    using a M match_fields [of r "add_device_to_cell x d r"]
    by (simp add: remote_add_device_to_cell_def sadd [OF m] matches_memory_def add_device_to_cell_def)
  show "matches_memory c now (view (snd (remote_remove_device_from_cell exec c x d s))) (remove_device_from_cell x d r)"
    using e M match_fields [of r "remove_device_from_cell x d r"]
    by (simp add: remote_remove_device_from_cell_def srem [OF m] matches_memory_def remove_device_from_cell_def)
qed

end

context redis_server
begin

lemma set_fence_refines:
  assumes M: "matches_memory c now (view s) r" and ts: "int64 ts"
  shows "fst (remote_set_fence_state exec c d f st ts s) = Inr () \<and>
    matches_memory c now (view (snd (remote_set_fence_state exec c d f st ts s))) (set_fence_state d f st ts r)"
proof -
  let ?k = "fence_key d f" and ?r' = "set_fence_state d f st ts r"
  let ?prev = "map_of (rd_fence_states r) (fence_key d f)"
  have at_k: "fence_at (view s (fence_redis_key c d f)) ?prev" using M by (simp add: matches_memory_def fences_match_def)
  define entered where "entered = (case st of INSIDE \<Rightarrow> ts
      | DWELL \<Rightarrow> (case ?prev of Some prev \<Rightarrow> if fs_entered_at_ms prev > 0 then fs_entered_at_ms prev else ts | None \<Rightarrow> ts)
      | OUTSIDE \<Rightarrow> 0)"
  have e64: "int64 entered" using ts at_k
    by (auto simp: entered_def fence_at_def int64_def split: fence_state.splits option.splits)
  obtain s1 where s1: "remote_get_fence_state_record exec c d f s =
      (Inr (map_option (\<lambda>x. x\<lparr>fs_device_id := d, fs_fence_id := f\<rparr>) ?prev), s1)" "view s1 = view s"
    using get_fence [OF at_k] by (metis prod.collapse)
  define s0 where "s0 = (if st = DWELL then s1 else s)"
  have v0: "view s0 = view s" using s1(2) by (simp add: s0_def)
  have run: "remote_set_fence_state exec c d f st ts s = (Inr (),
      snd (exec (''HSET'' # fence_redis_key c d f # fence_fields st entered ts) s0))"
    using s1(1) by (cases st; cases ?prev)
      (auto simp: remote_set_fence_state_def entered_def s0_def fence_fields_def)
  obtain h where h: "hash_at (view s0 (fence_redis_key c d f)) = Some h"
    using at_k by (auto simp: v0 fence_at_def split: option.splits)
  from hset [OF h, of "fence_fields st entered ts"] have v: "view (snd (remote_set_fence_state exec c d f st ts s)) =
      (view s)(fence_key_at c ?k \<mapsto> V_hash (h ++ map_of (rev (pair_up (fence_fields st entered ts)))))"
    by (simp add: run v0)
  have rd: "rd_fence_states ?r' = um_put ?k \<lparr>fs_device_id = d, fs_fence_id = f, fs_state = st,
      fs_entered_at_ms = entered, fs_updated_at_ms = ts\<rparr> (rd_fence_states r)"
    by (simp add: set_fence_state_def entered_def Let_def)
  have "fences_match c ((view s)(fence_key_at c ?k \<mapsto> V_hash (h ++ map_of (rev (pair_up (fence_fields st entered ts)))))) ?r'"
    using M e64 ts by (auto simp: matches_memory_def fences_match_def rd fence_at_def has_fields_set)
  moreover have "states_match c w ?r' = states_match c w r" "cells_match c w ?r' = cells_match c w r"
    "holders_match c now w ?r' = holders_match c now w r" for w
    by (simp_all add: match_fields [of ?r' r])
  ultimately show ?thesis using M unfolding matches_memory_def v by (simp add: run)
qed

lemma reserve_refines:
  assumes M: "matches_memory c now (view s) r" and small: "ttl < 2 ^ 31"
  shows "fst (remote_try_reserve_agent exec c a q ttl s) = Inr (fst (try_reserve_agent now a q ttl r)) \<and>
    matches_memory c now (view (snd (remote_try_reserve_agent exec c a q ttl s))) (snd (try_reserve_agent now a q ttl r))"
proof -
  let ?r' = "snd (try_reserve_agent now a q ttl r)"
  have H: "view s (reservation_key c b) = map_option V_string (get_agent_reservation_holder now r b)" for b
    using M by (simp add: matches_memory_def holders_match_def)
  have frame: "states_match c w ?r' = states_match c w r" "cells_match c w ?r' = cells_match c w r"
    "fences_match c w ?r' = fences_match c w r" for w
    by (simp_all add: match_fields [of ?r' r])
  show ?thesis
  proof (cases "a = [] \<or> q = [] \<or> ttl \<le> 0")
    case True
    then have "try_reserve_agent now a q ttl r = (False, r)" by (simp add: try_reserve_agent_def)
    then show ?thesis using True M by (simp add: remote_try_reserve_agent_def)
  next
    case False
    then have ttl: "0 < ttl" by simp
    have run: "remote_try_reserve_agent exec c a q ttl s =
        (Inr (get_agent_reservation_holder now r a = None),
         snd (exec [''SET'', reservation_key c a, q, ''PX'', show_int ttl, ''NX''] s))"
      using False by (simp add: remote_try_reserve_agent_def set_nx(1) [OF ttl small] H reply_status_equals_def)
    have ok: "fst (try_reserve_agent now a q ttl r) = (get_agent_reservation_holder now r a = None)"
      using False by (auto simp: holder_try_reserve)
    have "get_agent_reservation_holder now ?r' b =
        (if b = a \<and> get_agent_reservation_holder now r a = None then Some q else get_agent_reservation_holder now r b)" for b
      using holder_try_reserve(2) [of now a q ttl r now] holder_try_reserve(3) [of b a now q ttl r now] ok ttl by auto
    then have "holders_match c now (view (snd (remote_try_reserve_agent exec c a q ttl s))) ?r'"
      using H by (simp add: run set_nx(2) [OF ttl small] holders_match_def)
    then show ?thesis using M by (auto simp: run ok set_nx(2) [OF ttl small] matches_memory_def frame)
  qed
qed

lemma get_holder:
  assumes "view s (reservation_key c a) = map_option V_string ho"
  shows "fst (remote_get_agent_reservation_holder exec c a s) = Inr ho \<and>
    view (snd (remote_get_agent_reservation_holder exec c a s)) = view s"
  using assms by (cases ho) (simp_all add: remote_get_agent_reservation_holder_def get_string)

lemma release_refines:
  assumes M: "matches_memory c now (view s) r"
  shows "fst (remote_release_agent exec c a q s) = Inr () \<and>
    matches_memory c now (view (snd (remote_release_agent exec c a q s))) (release_agent a q r)"
proof -
  let ?ho = "get_agent_reservation_holder now r a" and ?r' = "release_agent a q r"
  have H: "view s (reservation_key c b) = map_option V_string (get_agent_reservation_holder now r b)" for b
    using M by (simp add: matches_memory_def holders_match_def)
  obtain s1 where s1: "remote_get_agent_reservation_holder exec c a s = (Inr ?ho, s1)" "view s1 = view s"
    using get_holder [OF H] by (metis prod.collapse)
  have run: "remote_release_agent exec c a q s =
      (Inr (), if ?ho = Some q then snd (exec [''DEL'', reservation_key c a] s1) else s1)"
    by (simp add: remote_release_agent_def s1(1) remote_release_if_held_def)
  have frame: "states_match c w ?r' = states_match c w r" "cells_match c w ?r' = cells_match c w r"
    "fences_match c w ?r' = fences_match c w r" for w
    by (simp_all add: match_fields [of ?r' r])
  have "holders_match c now (view (snd (remote_release_agent exec c a q s))) ?r'"
    using H by (simp add: run s1(2) holders_match_def holder_release del)
  then show ?thesis using M by (simp add: run s1(2) matches_memory_def frame del)
qed

lemma call_refines:
  assumes "matches_memory c now (view s) r" "call_ok p"
  shows "fst (remote_call exec c p s) = Inr (fst (memory_call now p r)) \<and>
    matches_memory c now (view (snd (remote_call exec c p s))) (snd (memory_call now p r))"
proof (cases p)
  case (Call_update d st t)
  then show ?thesis using update_refines assms by simp
next
  case (Call_add x d)
  then show ?thesis using cell_calls_refine(1) [OF assms(1), of x d]
    by (simp add: remote_add_device_to_cell_def)
next
  case (Call_remove x d)
  then show ?thesis using cell_calls_refine(2) [OF assms(1), of x d]
    by (simp add: remote_remove_device_from_cell_def)
next
  case (Call_set_fence d f st ts)
  then show ?thesis using set_fence_refines [OF assms(1), of ts d f st] assms(2)
    by (cases "remote_set_fence_state exec c d f st ts s") simp
next
  case (Call_reserve a q ttl)
  then show ?thesis using reserve_refines assms by simp
next
  case (Call_release a q)
  then show ?thesis using release_refines [OF assms(1), of a q]
    by (cases "remote_release_agent exec c a q s") simp
qed

lemma calls_refine:
  assumes "matches_memory c now (view s) r" "list_all call_ok ps"
  shows "fst (remote_calls exec c ps s) = Inr (fst (memory_calls now ps r)) \<and>
    matches_memory c now (view (snd (remote_calls exec c ps s))) (snd (memory_calls now ps r))"
  using assms
proof (induction ps arbitrary: s r)
  case (Cons p ps)
  obtain b r1 where m: "memory_call now p r = (b, r1)" by (cases "memory_call now p r")
  obtain bs r2 where ms: "memory_calls now ps r1 = (bs, r2)" by (cases "memory_calls now ps r1")
  have ok: "call_ok p" "list_all call_ok ps" using Cons.prems(2) by simp_all
  obtain s1 where s1: "remote_call exec c p s = (Inr b, s1)" "matches_memory c now (view s1) r1"
    using call_refines [OF Cons.prems(1) ok(1)] m by (metis fst_conv prod.collapse snd_conv)
  obtain s2 where s2: "remote_calls exec c ps s1 = (Inr bs, s2)" "matches_memory c now (view s2) r2"
    using Cons.IH [OF s1(2) ok(2)] ms by (metis fst_conv prod.collapse snd_conv)
  show ?case using s1 s2 m ms by simp
qed simp

text \<open>What the readers see of a server that matches.\<close>

lemma reads_match:
  assumes M: "matches_memory c now (view s) r"
  shows "fst (remote_get_device_state exec c d s) = Inr (map_option text_state (get_device_state r d))"
    "\<exists>ds. fst (remote_get_devices_in_cell exec c x s) = Inr ds \<and> set ds = set (get_devices_in_cell r x) \<and> distinct ds"
    "fst (remote_get_fence_state exec c d f s) = Inr (get_fence_state r d f)"
    "fst (remote_get_agent_reservation_holder exec c a s) = Inr (get_agent_reservation_holder now r a)"
proof -
  show "fst (remote_get_device_state exec c d s) = Inr (map_option text_state (get_device_state r d))"
    using M get_state by (simp add: matches_memory_def states_match_def)
  show "\<exists>ds. fst (remote_get_devices_in_cell exec c x s) = Inr ds \<and> set ds = set (get_devices_in_cell r x) \<and> distinct ds"
  proof -
    have "set_at (view s (cell_key c x)) = Some (set (get_devices_in_cell r x))"
      using M by (simp add: matches_memory_def cells_match_def)
    from smembers(1) [OF this] obtain ds where "fst (exec [''SMEMBERS'', cell_key c x] s) = Some (Rp_array (map Rp_string ds))"
      "set ds = set (get_devices_in_cell r x)" "distinct ds" by blast
    moreover have "map reply_string (map Rp_string ds) = ds" by (simp add: comp_def)
    ultimately show ?thesis by (simp add: remote_get_devices_in_cell_def string_array_from_reply_def)
  qed
  have "fence_at (view s (fence_redis_key c d f)) (map_of (rd_fence_states r) (fence_key d f))"
    using M by (simp add: matches_memory_def fences_match_def)
  from get_fence [OF this] show "fst (remote_get_fence_state exec c d f s) = Inr (get_fence_state r d f)"
    by (cases "remote_get_fence_state_record exec c d f s")
      (simp add: remote_get_fence_state_def get_fence_state_def get_fence_state_record_def option.map_comp comp_def)
  show "fst (remote_get_agent_reservation_holder exec c a s) = Inr (get_agent_reservation_holder now r a)"
    using get_holder M by (simp add: matches_memory_def holders_match_def)
qed

end

subsection \<open>The passing of time\<close>

lemma singleton_list: "set ds = {d} \<Longrightarrow> distinct ds \<Longrightarrow> ds = [d]"
proof (cases ds)
  case (Cons y ys)
  assume "set ds = {d}" "distinct ds"
  with Cons show ?thesis by (cases ys) auto
qed simp

text \<open>\<open>left\<close> is the time to live of a key in milliseconds, if it has one.\<close>

locale redis_clock = redis_server exec view
  for exec :: "'s server" and view :: "'s \<Rightarrow> string \<Rightarrow> redis_value option" +
  fixes elapse :: "int \<Rightarrow> 's \<Rightarrow> 's" and left :: "'s \<Rightarrow> string \<Rightarrow> int option"
  assumes elapse_view: "0 \<le> t \<Longrightarrow> view (elapse t s) k = (case left s k of None \<Rightarrow> view s k
      | Some n \<Rightarrow> if n \<le> t then None else view s k)"
    and set_left: "0 < ms \<Longrightarrow> ms < 2 ^ 31 \<Longrightarrow> view s k = None \<Longrightarrow>
      left (snd (exec [''SET'', k, v, ''PX'', show_int ms, ''NX''] s)) k = Some ms"
    and expire_left: "0 < n \<Longrightarrow> n < 2 ^ 31 \<Longrightarrow> view s k \<noteq> None \<Longrightarrow>
      left (snd (exec [''EXPIRE'', k, show_int n] s)) k = Some (1000 * n)"
    and sadd_left: "view s k = None \<Longrightarrow> left (snd (exec [''SADD'', k, d] s)) k = None"
      "k' \<noteq> k \<Longrightarrow> left (snd (exec [''SADD'', k, d] s)) k' = left s k'"
begin

text \<open>A reservation keeps every other out for exactly its time to live.\<close>

lemma reservation_window:
  assumes free: "view s (reservation_key c a) = None" and ok: "a \<noteq> []" "q \<noteq> []" "0 < ttl" "ttl < 2 ^ 31"
    and other: "q' \<noteq> []" "0 < ttl'" "ttl' < 2 ^ 31" and t: "0 \<le> t"
  defines "s1 \<equiv> snd (remote_try_reserve_agent exec c a q ttl s)"
  shows "fst (remote_try_reserve_agent exec c a q ttl s) = Inr True"
    "fst (remote_try_reserve_agent exec c a q' ttl' (elapse t s1)) = Inr (ttl \<le> t)"
    "fst (remote_get_agent_reservation_holder exec c a (elapse t s1)) = Inr (if t < ttl then Some q else None)"
proof -
  let ?k = "reservation_key c a"
  have s1: "s1 = snd (exec [''SET'', ?k, q, ''PX'', show_int ttl, ''NX''] s)"
    using ok by (simp add: s1_def remote_try_reserve_agent_def)
  have v1: "view s1 ?k = Some (V_string q)" using ok free by (simp add: s1 set_nx)
  have "left s1 ?k = Some ttl" unfolding s1 by (rule set_left [OF ok(3,4) free])
  then have v: "view (elapse t s1) ?k = (if ttl \<le> t then None else Some (V_string q))"
    using elapse_view [OF t] v1 by simp
  show "fst (remote_try_reserve_agent exec c a q ttl s) = Inr True"
    using ok free by (simp add: remote_try_reserve_agent_def set_nx reply_status_equals_def)
  show "fst (remote_try_reserve_agent exec c a q' ttl' (elapse t s1)) = Inr (ttl \<le> t)"
    using ok other v by (simp add: remote_try_reserve_agent_def set_nx reply_status_equals_def)
  show "fst (remote_get_agent_reservation_holder exec c a (elapse t s1)) = Inr (if t < ttl then Some q else None)"
    using get_holder [of "elapse t s1" c a "if t < ttl then Some q else None"] v by simp
qed

text \<open>
  A state expires with its key; its place in the cell set does not. A device that reported once
  is listed until the sweep.
\<close>

lemma state_expires_index_stays:
  fixes c :: redis_config
  assumes empty: "view s = Map.empty" and ok: "d \<noteq> []" "printable_state st" "0 < ttl" "ttl < 2 ^ 31"
    and t: "1000 * ttl \<le> t"
  defines "s1 \<equiv> snd (remote_update_device_state_cas exec c d st ttl s)"
  shows "fst (remote_get_device_state exec c d (elapse t s1)) = Inr None"
    "fst (remote_get_devices_in_cell exec c (ds_h3_cell st) (elapse t s1)) = Inr [d]"
proof -
  let ?k = "device_key c d" and ?x = "cell_key c (ds_h3_cell st)"
  have "state_at (view s ?k) None" by (simp add: empty state_at_def)
  then obtain s0 where s0: "remote_get_device_state exec c d s = (Inr None, s0)" "view s0 = view s"
    using get_state by (metis option.map(1) prod.collapse)
  let ?stored = "st\<lparr>ds_device_id := d\<rparr>"
  define s2 where "s2 = snd (exec (''HSET'' # ?k # state_fields ?stored) s0)"
  define s3 where "s3 = snd (exec [''EXPIRE'', ?k, show_int ttl] s2)"
  have s1: "s1 = snd (exec [''SADD'', ?x, d] s3)"
    using ok s0 by (simp add: s1_def remote_update_device_state_cas_def remote_store_state_def s2_def s3_def Let_def)
  have "hash_at (view s0 ?k) = Some Map.empty" by (simp add: s0 empty)
  from hset [OF this, of "state_fields ?stored"] have v2: "view s2 =
      [?k \<mapsto> V_hash (map_of (rev (pair_up (state_fields ?stored))))]"
    by (simp add: s2_def s0 empty)
  have v3: "view s3 = view s2" unfolding s3_def by (rule expire [OF ok(3,4)])
  have l3: "left s3 ?k = Some (1000 * ttl)" unfolding s3_def using expire_left [OF ok(3,4)] by (simp add: v2)
  have l1: "left s1 ?k = Some (1000 * ttl)" "left s1 ?x = None" using l3 by (simp_all add: s1 sadd_left v3 v2)
  have "set_at (view s3 ?x) = Some {}" by (simp add: v3 v2)
  from sadd [OF this] have v1: "view s1 ?x = Some (V_set {d})" by (simp add: s1)
  have "0 \<le> t" using t ok(3) by simp
  note e = elapse_view [OF this, of s1]
  have "state_at (view (elapse t s1) ?k) None" using t by (simp add: e l1 state_at_def)
  from get_state [OF this] show "fst (remote_get_device_state exec c d (elapse t s1)) = Inr None" by simp
  have "set_at (view (elapse t s1) ?x) = Some {d}" by (simp add: e l1 v1)
  from smembers(1) [OF this] obtain ds where ds: "fst (exec [''SMEMBERS'', ?x] (elapse t s1)) = Some (Rp_array (map Rp_string ds))"
    "set ds = {d}" "distinct ds" by blast
  have "ds = [d]" by (rule singleton_list [OF ds(2,3)])
  with ds show "fst (remote_get_devices_in_cell exec c (ds_h3_cell st) (elapse t s1)) = Inr [d]"
    by (simp add: remote_get_devices_in_cell_def string_array_from_reply_def)
qed

end

subsection \<open>Commands of several clients\<close>

text \<open>
  The read and the write of an update are separate commands. \<open>cur\<close> is what the client read,
  \<open>r\<close> what the server holds when the write arrives.
\<close>

context redis_server
begin

lemma overtaken_update:
  fixes d :: string
  assumes M: "matches_memory c now (view s) r" and st: "printable_state st" "ttl < 2 ^ 31" and n: "newer cur st"
  defines "s1 \<equiv> snd (remote_store_state exec c d st ttl cur s)"
  shows "fst (remote_store_state exec c d st ttl cur s) = Inr True"
    "fst (remote_get_device_state exec c d s1) = Inr (Some (text_state (st\<lparr>ds_device_id := d\<rparr>)))"
    "d \<in> set (get_devices_in_cell r x) \<Longrightarrow> x \<noteq> ds_h3_cell st \<Longrightarrow> left_cell cur st \<noteq> Some x \<Longrightarrow>
       \<exists>ds. fst (remote_get_devices_in_cell exec c x s1) = Inr ds \<and> d \<in> set ds"
proof -
  let ?stored = "st\<lparr>ds_device_id := d\<rparr>"
  have "state_at (view s (device_key c d)) (get_device_state r d)" using M by (simp add: matches_memory_def states_match_def)
  then obtain h where h: "hash_at (view s (device_key c d)) = Some h" by (auto simp: state_at_def split: option.splits)
  have m: "set_at (view s (cell_key c x)) = Some (set (get_devices_in_cell r x))" for x
    using M by (simp add: matches_memory_def cells_match_def)
  note v = store_state [OF h m n st(2), folded s1_def]
  show "fst (remote_store_state exec c d st ttl cur s) = Inr True" by (rule v(1))
  have "state_at (view s1 (device_key c d)) (Some ?stored)"
    using st by (simp add: v(2) state_at_def has_fields_set)
  from get_state [OF this] show "fst (remote_get_device_state exec c d s1) = Inr (Some (text_state ?stored))" by simp
  assume x: "d \<in> set (get_devices_in_cell r x)" "x \<noteq> ds_h3_cell st" "left_cell cur st \<noteq> Some x"
  then have "view s1 (cell_key c x) = view s (cell_key c x)" by (auto simp: v(2) split: option.splits)
  then have "set_at (view s1 (cell_key c x)) = Some (set (get_devices_in_cell r x))" using m by simp
  from smembers(1) [OF this] obtain ds where "fst (exec [''SMEMBERS'', cell_key c x] s1) = Some (Rp_array (map Rp_string ds))"
    "set ds = set (get_devices_in_cell r x)" by blast
  moreover have "map reply_string (map Rp_string ds) = ds" by (simp add: comp_def)
  ultimately show "\<exists>ds. fst (remote_get_devices_in_cell exec c x s1) = Inr ds \<and> d \<in> set ds"
    using x(1) by (simp add: remote_get_devices_in_cell_def string_array_from_reply_def)
qed

text \<open>So does a release: the deletion no longer looks at the holder.\<close>

lemma overtaken_release:
  "view (snd (remote_release_if_held exec c a q (Some q) s)) (reservation_key c a) = None"
  by (simp add: remote_release_if_held_def del)

end

subsection \<open>The sweep\<close>

definition no_state :: "redis \<Rightarrow> string set \<Rightarrow> string set" where
  "no_state r m = {d \<in> m. get_device_state r d = None}"

context redis_server
begin

lemma sweep_members:
  assumes "states_match c (view s) r" "set_at (view s (cell_key c x)) = Some m" "distinct ds" "set ds \<subseteq> m"
  shows "\<exists>s'. remote_sweep_members exec c (cell_key c x) ds gone s = (Inr (gone + int (card (no_state r (set ds)))), s') \<and>
    set_at (view s' (cell_key c x)) = Some (m - no_state r (set ds)) \<and> (\<forall>k. k \<noteq> cell_key c x \<longrightarrow> view s' k = view s k)"
  using assms
proof (induction ds arbitrary: s m gone)
  case Nil
  then show ?case by (simp add: no_state_def)
next
  case (Cons d ds)
  let ?k = "cell_key c x"
  have "state_at (view s (device_key c d)) (get_device_state r d)" using Cons.prems(1) by (simp add: states_match_def)
  then obtain s1 where s1: "remote_get_device_state exec c d s = (Inr (map_option text_state (get_device_state r d)), s1)"
    "view s1 = view s" using get_state by (metis prod.collapse)
  show ?case
  proof (cases "get_device_state r d")
    case (Some st)
    then have n: "no_state r (set (d # ds)) = no_state r (set ds)" by (auto simp: no_state_def)
    have "states_match c (view s1) r" "set_at (view s1 ?k) = Some m" "distinct ds" "set ds \<subseteq> m"
      using Cons.prems s1(2) by simp_all
    from Cons.IH [OF this, of gone] show ?thesis using s1 Some n by (simp add: remote_sweep_member_def)
  next
    case None
    define s2 where "s2 = snd (exec [''SREM'', ?k, d] s1)"
    have m: "set_at (view s1 ?k) = Some m" using Cons.prems(2) s1(2) by simp
    have v2: "view s2 = (view s1)(?k := put_set (m - {d}))" unfolding s2_def by (rule srem(2) [OF m])
    have "d \<in> m" using Cons.prems(4) by simp
    then have run: "remote_sweep_member exec c ?k d gone s = (Inr (gone + 1), s2)"
      using s1(1) None srem(1) [OF m, of d] by (simp add: remote_sweep_member_def s2_def)
    have "states_match c (view s2) r" "set_at (view s2 ?k) = Some (m - {d})" "distinct ds" "set ds \<subseteq> m - {d}"
      using Cons.prems s1(2) by (auto simp: v2)
    from Cons.IH [OF this, of "gone + 1"] obtain s3 where s3:
      "remote_sweep_members exec c ?k ds (gone + 1) s2 = (Inr (gone + 1 + int (card (no_state r (set ds)))), s3)"
      "set_at (view s3 ?k) = Some (m - {d} - no_state r (set ds))" "\<forall>k. k \<noteq> ?k \<longrightarrow> view s3 k = view s2 k" by blast
    have n: "no_state r (set (d # ds)) = insert d (no_state r (set ds))" using None by (auto simp: no_state_def)
    have "d \<notin> no_state r (set ds)" "finite (no_state r (set ds))" using Cons.prems(3) by (auto simp: no_state_def)
    then have "card (no_state r (set (d # ds))) = Suc (card (no_state r (set ds)))"
      unfolding n by simp
    moreover have "m - {d} - no_state r (set ds) = m - no_state r (set (d # ds))" unfolding n by auto
    moreover have "\<forall>k. k \<noteq> ?k \<longrightarrow> view s3 k = view s k" using s3(3) by (simp add: v2 s1(2))
    ultimately show ?thesis using run s3(1,2) by simp
  qed
qed

text \<open>A sweep of some cells drops from each exactly the members without a state, and counts them.\<close>

lemma sweep_cells_correct:
  assumes "states_match c (view s) r" "\<And>x. set_at (view s (cell_key c x)) = Some (m x)" "distinct xs"
  shows "\<exists>s'. remote_sweep_keys exec c (map (cell_key c) xs) (n, t) s =
      (Inr (n + (\<Sum>x\<leftarrow>xs. int (card (no_state r (m x)))), t + int (length (filter (\<lambda>x. no_state r (m x) \<noteq> {}) xs))), s') \<and>
    (\<forall>x. set_at (view s' (cell_key c x)) = Some (if x \<in> set xs then m x - no_state r (m x) else m x)) \<and>
    (\<forall>k. (\<forall>x. k \<noteq> cell_key c x) \<longrightarrow> view s' k = view s k)"
  using assms
proof (induction xs arbitrary: s m n t)
  case Nil
  then show ?case by simp
next
  case (Cons x xs)
  let ?k = "cell_key c x"
  note mx = Cons.prems(2) [of x]
  from smembers(1) [OF mx] obtain ds where ds: "fst (exec [''SMEMBERS'', ?k] s) = Some (Rp_array (map Rp_string ds))"
    "set ds = m x" "distinct ds" by blast
  define s1 where "s1 = snd (exec [''SMEMBERS'', ?k] s)"
  have v1: "view s1 = view s" unfolding s1_def by (rule smembers(2) [OF mx])
  have "string_array_from_reply (Some (Rp_array (map Rp_string ds))) = ds"
    by (simp add: string_array_from_reply_def comp_def)
  note arr = this
  have "states_match c (view s1) r" "set_at (view s1 ?k) = Some (m x)" "set ds \<subseteq> m x"
    using Cons.prems(1) mx ds(2) by (simp_all add: v1)
  from sweep_members [OF this(1,2) ds(3) this(3), of 0] obtain s2 where s2:
    "remote_sweep_members exec c ?k ds 0 s1 = (Inr (int (card (no_state r (m x)))), s2)"
    "set_at (view s2 ?k) = Some (m x - no_state r (m x))" "\<forall>k. k \<noteq> ?k \<longrightarrow> view s2 k = view s k"
    unfolding ds(2) v1 by (metis add_0)
  have "finite (no_state r (m x))" using List.finite_set [of ds] by (simp add: no_state_def ds(2))
  then have pos: "0 < int (card (no_state r (m x))) \<longleftrightarrow> no_state r (m x) \<noteq> {}" by (simp add: card_gt_0_iff)
  have st: "states_match c (view s2) r" using Cons.prems(1) s2(3) by (simp add: states_match_def)
  define m' where "m' = m(x := m x - no_state r (m x))"
  have m': "set_at (view s2 (cell_key c y)) = Some (m' y)" for y
    using s2(2,3) Cons.prems(2) [of y] by (cases "y = x") (simp_all add: m'_def)
  have same: "m' y = m y" if "y \<in> set xs" for y using Cons.prems(3) that by (auto simp: m'_def)
  define n' where "n' = n + int (card (no_state r (m x)))"
  define t' where "t' = (if no_state r (m x) \<noteq> {} then t + 1 else t)"
  from Cons.IH [OF st m', of n' t'] Cons.prems(3) obtain s3 where s3:
    "remote_sweep_keys exec c (map (cell_key c) xs) (n', t') s2 =
      (Inr (n' + (\<Sum>x\<leftarrow>xs. int (card (no_state r (m' x)))), t' + int (length (filter (\<lambda>x. no_state r (m' x) \<noteq> {}) xs))), s3)"
    "\<forall>y. set_at (view s3 (cell_key c y)) = Some (if y \<in> set xs then m' y - no_state r (m' y) else m' y)"
    "\<forall>k. (\<forall>x. k \<noteq> cell_key c x) \<longrightarrow> view s3 k = view s2 k" by auto
  have sums: "(\<Sum>x\<leftarrow>xs. int (card (no_state r (m' x)))) = (\<Sum>x\<leftarrow>xs. int (card (no_state r (m x))))"
    "filter (\<lambda>x. no_state r (m' x) \<noteq> {}) xs = filter (\<lambda>x. no_state r (m x) \<noteq> {}) xs"
    using same by (auto intro!: arg_cong [of _ _ sum_list] filter_cong)
  have step: "remote_sweep_keys exec c (map (cell_key c) (x # xs)) (n, t) s =
      remote_sweep_keys exec c (map (cell_key c) xs) (n', t') s2"
  proof -
    have "(if int (card (no_state r (m x))) > 0 then (n + int (card (no_state r (m x))), t + 1) else (n, t)) = (n', t')"
      unfolding pos by (simp add: n'_def t'_def)
    then show ?thesis using s2(1) by (simp add: ds(1) arr s1_def [symmetric])
  qed
  have "\<forall>y. set_at (view s3 (cell_key c y)) = Some (if y \<in> set (x # xs) then m y - no_state r (m y) else m y)"
    using s3(2) same Cons.prems(3) by (auto simp: m'_def no_state_def)
  moreover have "\<forall>k. (\<forall>x. k \<noteq> cell_key c x) \<longrightarrow> view s3 k = view s k" using s3(3) s2(3) by simp
  moreover have "n' + (\<Sum>x\<leftarrow>xs. int (card (no_state r (m x)))) = n + (\<Sum>x\<leftarrow>x # xs. int (card (no_state r (m x))))"
    "t' + int (length (filter (\<lambda>x. no_state r (m x) \<noteq> {}) xs)) =
      t + int (length (filter (\<lambda>x. no_state r (m x) \<noteq> {}) (x # xs)))"
    by (simp_all add: n'_def t'_def)
  ultimately show ?case using s3(1) sums step by (intro exI [of _ s3]) simp
qed

end

subsection \<open>Scans\<close>

text \<open>More fuel does not change a scan that ended.\<close>

lemma scan_fuel:
  assumes "scan_loop n exec pat body cur acc s = Some y"
  shows "scan_loop (n + k) exec pat body cur acc s = Some y"
  using assms
proof (induction n exec pat body cur acc s rule: scan_loop.induct)
  case (2 n exec pat body cur acc s)
  show ?case
    using "2.prems" "2.IH"
    by (fastforce split: sum.splits option.splits reply.splits list.splits prod.splits if_splits)
qed simp

text \<open>A server that cannot be reached: a scan ends at once with what it has, and an update is
  reported as accepted although nothing was stored.\<close>

definition unreachable :: "'s server" where
  "unreachable args s = (None, s)"

lemma unreachable_scan: "scan_loop (Suc n) unreachable pat body cur acc s = Some (Inr acc, s)"
  by (simp add: unreachable_def)

lemma unreachable_update: "d \<noteq> [] \<Longrightarrow> remote_update_device_state_cas unreachable c d st t s = (Inr True, s)"
  by (simp add: remote_update_device_state_cas_def remote_get_device_state_def seq_prog_def unreachable_def
      hash_from_reply_def remote_store_state_def send_command_def redis_command_def andthen_def ret_def skip_def Let_def)

end
