(* ===== verification/Redis_Memory.thy ===== *)
theory Redis_Memory
  imports Redis_Server
begin

text \<open>
  A server in memory that keeps the laws of \<open>Redis_Server\<close>: keys with a type and a deadline, a clock
  in milliseconds. It is the instance of the locales, and the theorems about the client of a build
  with hiredis are closed on it: agreement with the in-memory store of the other build, the window
  of a reservation, and the outcome of an update that was overtaken between its read and its write.
\<close>

subsection \<open>A server in memory\<close>

datatype stored = S_string string | S_hash "(string \<times> string) list" | S_set "string list"

record memory_server =
  ms_now :: int
  ms_keys :: "(string, stored \<times> int option) umap"

text \<open>A key is there until its deadline; an empty hash or set is no value.\<close>

definition live :: "memory_server \<Rightarrow> string \<Rightarrow> (stored \<times> int option) option" where
  "live m k = (case map_of (ms_keys m) k of None \<Rightarrow> None
     | Some (v, dl) \<Rightarrow> if v = S_hash [] \<or> v = S_set [] then None
         else (case dl of None \<Rightarrow> Some (v, dl) | Some t \<Rightarrow> if t \<le> ms_now m then None else Some (v, dl)))"

fun stored_value :: "stored \<Rightarrow> redis_value" where
  "stored_value (S_string v) = V_string v"
| "stored_value (S_hash fs) = V_hash (map_of fs)"
| "stored_value (S_set ds) = V_set (set ds)"

definition memory_view :: "memory_server \<Rightarrow> string \<Rightarrow> redis_value option" where
  "memory_view m k = map_option (\<lambda>(v, dl). stored_value v) (live m k)"

definition memory_left :: "memory_server \<Rightarrow> string \<Rightarrow> int option" where
  "memory_left m k = (case live m k of Some (v, Some t) \<Rightarrow> Some (t - ms_now m) | _ \<Rightarrow> None)"

definition memory_elapse :: "int \<Rightarrow> memory_server \<Rightarrow> memory_server" where
  "memory_elapse t m = m\<lparr>ms_now := ms_now m + t\<rparr>"

definition put_key :: "string \<Rightarrow> stored \<Rightarrow> int option \<Rightarrow> memory_server \<Rightarrow> memory_server" where
  "put_key k v dl m = m\<lparr>ms_keys := um_put k (v, dl) (ms_keys m)\<rparr>"

definition read_nat :: "string \<Rightarrow> int option" where
  "read_nat s = (case read_int s of Some (neg, n, rest) \<Rightarrow> if rest = [] \<and> \<not> neg then Some (int n) else None | None \<Rightarrow> None)"

definition wrong_type :: reply where
  "wrong_type = Rp_error ''WRONGTYPE''"

definition mem_hgetall :: "string \<Rightarrow> memory_server \<Rightarrow> reply" where
  "mem_hgetall k m = (case live m k of None \<Rightarrow> Rp_array []
     | Some (S_hash fs, _) \<Rightarrow> Rp_array (concat (map (\<lambda>(f, v). [Rp_string f, Rp_string v]) fs)) | _ \<Rightarrow> wrong_type)"

definition set_fields :: "string list \<Rightarrow> (string \<times> string) list \<Rightarrow> (string \<times> string) list" where
  "set_fields fvs fs = fold (\<lambda>(f, v) m. um_put f v m) (pair_up fvs) fs"

definition mem_hset :: "string \<Rightarrow> string list \<Rightarrow> memory_server \<Rightarrow> reply \<times> memory_server" where
  "mem_hset k fvs m =
     (if fvs = [] \<or> odd (length fvs) then (Rp_error ''ERR'', m)
      else case live m k of None \<Rightarrow> (Rp_integer (int (length fvs div 2)), put_key k (S_hash (set_fields fvs [])) None m)
       | Some (S_hash fs, dl) \<Rightarrow>
           (Rp_integer (int (length (set_fields fvs fs)) - int (length fs)), put_key k (S_hash (set_fields fvs fs)) dl m)
       | _ \<Rightarrow> (wrong_type, m))"

definition mem_sadd :: "string \<Rightarrow> string \<Rightarrow> memory_server \<Rightarrow> reply \<times> memory_server" where
  "mem_sadd k d m = (case live m k of None \<Rightarrow> (Rp_integer 1, put_key k (S_set [d]) None m)
     | Some (S_set ds, dl) \<Rightarrow> (Rp_integer (if d \<in> set ds then 0 else 1), put_key k (S_set (us_add d ds)) dl m)
     | _ \<Rightarrow> (wrong_type, m))"

definition mem_srem :: "string \<Rightarrow> string \<Rightarrow> memory_server \<Rightarrow> reply \<times> memory_server" where
  "mem_srem k d m = (case live m k of None \<Rightarrow> (Rp_integer 0, m)
     | Some (S_set ds, dl) \<Rightarrow> (Rp_integer (if d \<in> set ds then 1 else 0), put_key k (S_set (us_del d ds)) dl m)
     | _ \<Rightarrow> (wrong_type, m))"

definition mem_smembers :: "string \<Rightarrow> memory_server \<Rightarrow> reply" where
  "mem_smembers k m = (case live m k of None \<Rightarrow> Rp_array []
     | Some (S_set ds, _) \<Rightarrow> Rp_array (map Rp_string (remdups ds)) | _ \<Rightarrow> wrong_type)"

definition mem_expire :: "string \<Rightarrow> string \<Rightarrow> memory_server \<Rightarrow> reply \<times> memory_server" where
  "mem_expire k n m = (case (live m k, read_nat n) of
       (Some (v, _), Some i) \<Rightarrow> (Rp_integer 1, put_key k v (Some (ms_now m + 1000 * i)) m)
     | (None, Some _) \<Rightarrow> (Rp_integer 0, m) | _ \<Rightarrow> (Rp_error ''ERR'', m))"

definition mem_set :: "string \<Rightarrow> string list \<Rightarrow> memory_server \<Rightarrow> reply \<times> memory_server" where
  "mem_set k args m = (case args of
       [v, px, ms, nx] \<Rightarrow> (case read_nat ms of
           Some i \<Rightarrow> if px = ''PX'' \<and> nx = ''NX'' \<and> 0 < i then
               (if live m k = None then (Rp_status ''OK'', put_key k (S_string v) (Some (ms_now m + i)) m) else (Rp_nil, m))
             else (Rp_error ''ERR'', m)
         | None \<Rightarrow> (Rp_error ''ERR'', m))
     | _ \<Rightarrow> (Rp_error ''ERR'', m))"

definition mem_get :: "string \<Rightarrow> memory_server \<Rightarrow> reply" where
  "mem_get k m = (case live m k of None \<Rightarrow> Rp_nil | Some (S_string v, _) \<Rightarrow> Rp_string v | _ \<Rightarrow> wrong_type)"

definition mem_del :: "string \<Rightarrow> memory_server \<Rightarrow> reply \<times> memory_server" where
  "mem_del k m = (Rp_integer (if live m k = None then 0 else 1), m\<lparr>ms_keys := um_del k (ms_keys m)\<rparr>)"

text \<open>A scan answers every live key with the wanted prefix in one page.\<close>

definition mem_scan :: "string \<Rightarrow> memory_server \<Rightarrow> reply" where
  "mem_scan pat m = Rp_array [Rp_string ''0'', Rp_array (map Rp_string
     (filter (\<lambda>k. take (length (butlast pat)) k = butlast pat \<and> live m k \<noteq> None) (map fst (ms_keys m))))]"

definition memory_command :: "string \<Rightarrow> string list \<Rightarrow> memory_server \<Rightarrow> reply \<times> memory_server" where
  "memory_command cmd args m =
     (if cmd = ''PING'' then (Rp_status ''PONG'', m)
      else if cmd = ''SCAN'' then (mem_scan (args ! 2) m, m)
      else case args of [] \<Rightarrow> (Rp_error ''ERR'', m)
       | [k] \<Rightarrow> if cmd = ''HGETALL'' then (mem_hgetall k m, m) else if cmd = ''SMEMBERS'' then (mem_smembers k m, m)
           else if cmd = ''GET'' then (mem_get k m, m) else if cmd = ''DEL'' then mem_del k m else (Rp_error ''ERR'', m)
       | k # x # rest \<Rightarrow> if cmd = ''HSET'' then mem_hset k (x # rest) m else if cmd = ''SADD'' then mem_sadd k x m
           else if cmd = ''SREM'' then mem_srem k x m else if cmd = ''EXPIRE'' then mem_expire k x m
           else if cmd = ''SET'' then mem_set k (x # rest) m else (Rp_error ''ERR'', m))"

fun memory_exec :: "memory_server server" where
  "memory_exec [] m = (Some (Rp_error ''ERR''), m)"
| "memory_exec (cmd # args) m = (case memory_command cmd args m of (r, m') \<Rightarrow> (Some r, m'))"

lemma memory_exec_simps [simp]:
  "memory_exec [''PING''] m = (Some (Rp_status ''PONG''), m)"
  "memory_exec [''HGETALL'', k] m = (Some (mem_hgetall k m), m)"
  "memory_exec [''SMEMBERS'', k] m = (Some (mem_smembers k m), m)"
  "memory_exec [''GET'', k] m = (Some (mem_get k m), m)"
  "memory_exec [''DEL'', k] m = map_prod Some (\<lambda>x. x) (mem_del k m)"
  "memory_exec (''HSET'' # k # x # fvs) m = map_prod Some (\<lambda>x. x) (mem_hset k (x # fvs) m)"
  "memory_exec [''SADD'', k, d] m = map_prod Some (\<lambda>x. x) (mem_sadd k d m)"
  "memory_exec [''SREM'', k, d] m = map_prod Some (\<lambda>x. x) (mem_srem k d m)"
  "memory_exec [''EXPIRE'', k, d] m = map_prod Some (\<lambda>x. x) (mem_expire k d m)"
  "memory_exec (''SET'' # k # x # fvs) m = map_prod Some (\<lambda>x. x) (mem_set k (x # fvs) m)"
  by (simp_all add: memory_command_def map_prod_def case_prod_beta)

declare memory_exec.simps(2) [simp del]

lemma read_nat_show [simp]: "0 < i \<Longrightarrow> read_nat (show_int i) = Some i"
  by (simp add: read_nat_def show_int_def)

lemma live_put [simp]: "live (put_key k v dl m) k' =
    (if k' = k then (if v = S_hash [] \<or> v = S_set [] then None
       else (case dl of None \<Rightarrow> Some (v, dl) | Some t \<Rightarrow> if t \<le> ms_now m then None else Some (v, dl)))
     else live m k')"
  by (auto simp: live_def put_key_def split: option.splits)

lemma live_deadline: "live m k = Some (v, dl) \<Longrightarrow> v \<noteq> S_hash [] \<and> v \<noteq> S_set [] \<and> (\<forall>t. dl = Some t \<longrightarrow> ms_now m < t)"
  by (auto simp: live_def split: option.splits if_splits)

lemma live_elapse: "0 \<le> t \<Longrightarrow> live (memory_elapse t m) k = (case live m k of None \<Rightarrow> None
    | Some (v, dl) \<Rightarrow> (case dl of None \<Rightarrow> Some (v, dl) | Some u \<Rightarrow> if u \<le> ms_now m + t then None else Some (v, dl)))"
  by (auto simp: live_def memory_elapse_def split: option.splits)

lemma hash_pairs_fields: "hash_pairs (concat (map (\<lambda>(f, v). [Rp_string f, Rp_string v]) fs)) = fs"
  by (induction fs) auto

lemma set_fields_map: "map_of (set_fields fvs fs) = map_of fs ++ map_of (rev (pair_up fvs))"
proof -
  have "map_of (fold (\<lambda>(f, v) m. um_put f v m) ps fs) = map_of fs ++ map_of (rev ps)" for ps
    by (induction ps arbitrary: fs) (auto simp: map_add_def fun_eq_iff split: option.splits)
  then show ?thesis by (simp add: set_fields_def)
qed

lemma set_fields_not_Nil [simp]: "pair_up fvs \<noteq> [] \<Longrightarrow> set_fields fvs fs \<noteq> []"
proof
  assume p: "pair_up fvs \<noteq> []" and "set_fields fvs fs = []"
  then have "map_of (rev (pair_up fvs)) = Map.empty" using set_fields_map [of fvs fs] by (simp add: map_add_def fun_eq_iff split: option.splits)
  then show False using p by (cases "rev (pair_up fvs)") auto
qed

lemma view_put: "v \<noteq> S_hash [] \<Longrightarrow> v \<noteq> S_set [] \<Longrightarrow> (\<forall>t. dl = Some t \<longrightarrow> ms_now m < t) \<Longrightarrow>
  memory_view (put_key k v dl m) = (memory_view m)(k \<mapsto> stored_value v)"
  by (auto simp: memory_view_def fun_eq_iff split: option.splits)

subsection \<open>The laws hold\<close>

lemma memory_hash: "hash_at (memory_view m k) = Some h \<Longrightarrow>
  (live m k = None \<and> h = Map.empty) \<or> (\<exists>fs dl. live m k = Some (S_hash fs, dl) \<and> map_of fs = h)"
proof (cases "live m k")
  case (Some p)
  assume h: "hash_at (memory_view m k) = Some h"
  obtain v dl where "p = (v, dl)" by (cases p)
  with Some h show ?thesis by (cases v) (simp_all add: memory_view_def)
qed (simp add: memory_view_def)

lemma memory_set: "set_at (memory_view m k) = Some X \<Longrightarrow>
  (live m k = None \<and> X = {}) \<or> (\<exists>ds dl. live m k = Some (S_set ds, dl) \<and> set ds = X)"
proof (cases "live m k")
  case (Some p)
  assume h: "set_at (memory_view m k) = Some X"
  obtain v dl where "p = (v, dl)" by (cases p)
  with Some h show ?thesis by (cases v) (simp_all add: memory_view_def)
qed (simp add: memory_view_def)

lemma memory_hset_view:
  assumes "hash_at (memory_view m k) = Some h" "pair_up fvs \<noteq> []" "even (length fvs)"
  shows "memory_view (snd (memory_exec (''HSET'' # k # fvs) m)) =
    (memory_view m)(k \<mapsto> V_hash (h ++ map_of (rev (pair_up fvs))))"
proof -
  obtain x rest where f: "fvs = x # rest" using assms(2) by (cases fvs) auto
  show ?thesis
    using memory_hash [OF assms(1)]
  proof (elim disjE conjE exE)
    assume "live m k = None" "h = Map.empty"
    then have "snd (mem_hset k fvs m) = put_key k (S_hash (set_fields fvs [])) None m"
      using assms(3) f by (simp add: mem_hset_def)
    then show ?thesis using assms(2) \<open>h = Map.empty\<close> by (simp add: f view_put set_fields_map)
  next
    fix fs dl assume l: "live m k = Some (S_hash fs, dl)" "map_of fs = h"
    then have "snd (mem_hset k fvs m) = put_key k (S_hash (set_fields fvs fs)) dl m"
      using assms(3) f by (simp add: mem_hset_def)
    then show ?thesis using assms(2) l live_deadline [OF l(1)] by (simp add: f view_put set_fields_map)
  qed
qed

lemma view_put_set: "\<forall>t. dl = Some t \<longrightarrow> ms_now m < t \<Longrightarrow>
  memory_view (put_key k (S_set ds) dl m) = (memory_view m)(k := put_set (set ds))"
  by (auto simp: memory_view_def put_set_def fun_eq_iff split: option.splits)

lemma memory_sets:
  assumes "set_at (memory_view m k) = Some X"
  shows "memory_view (snd (memory_exec [''SADD'', k, d] m)) = (memory_view m)(k \<mapsto> V_set (insert d X))"
    "fst (memory_exec [''SREM'', k, d] m) = Some (Rp_integer (if d \<in> X then 1 else 0))"
    "memory_view (snd (memory_exec [''SREM'', k, d] m)) = (memory_view m)(k := put_set (X - {d}))"
    "\<exists>ds. fst (memory_exec [''SMEMBERS'', k] m) = Some (Rp_array (map Rp_string ds)) \<and> set ds = X \<and> distinct ds"
proof -
  have "memory_view (snd (memory_exec [''SADD'', k, d] m)) = (memory_view m)(k \<mapsto> V_set (insert d X)) \<and>
    fst (memory_exec [''SREM'', k, d] m) = Some (Rp_integer (if d \<in> X then 1 else 0)) \<and>
    memory_view (snd (memory_exec [''SREM'', k, d] m)) = (memory_view m)(k := put_set (X - {d})) \<and>
    (\<exists>ds. fst (memory_exec [''SMEMBERS'', k] m) = Some (Rp_array (map Rp_string ds)) \<and> set ds = X \<and> distinct ds)"
    using memory_set [OF assms]
  proof (elim disjE conjE exE)
    assume l: "live m k = None" "X = {}"
    then have "memory_view m k = None" by (simp add: memory_view_def)
    moreover have "\<exists>ds. mem_smembers k m = Rp_array (map Rp_string ds) \<and> set ds = X \<and> distinct ds"
      by (rule exI [of _ "[]"]) (simp add: mem_smembers_def l)
    ultimately show ?thesis by (simp add: mem_sadd_def mem_srem_def view_put put_set_def l fun_upd_idem)
  next
    fix ds dl
    assume l: "live m k = Some (S_set ds, dl)" "set ds = X"
    have dead: "\<forall>t. dl = Some t \<longrightarrow> ms_now m < t" using live_deadline [OF l(1)] by blast
    have "mem_smembers k m = Rp_array (map Rp_string (remdups ds))" by (simp add: mem_smembers_def l)
    moreover have "put_set (insert d X) = Some (V_set (insert d X))" by (simp add: put_set_def)
    ultimately show ?thesis using l dead
      by (simp add: mem_sadd_def mem_srem_def view_put_set) (metis distinct_remdups set_remdups)
  qed
  then show "memory_view (snd (memory_exec [''SADD'', k, d] m)) = (memory_view m)(k \<mapsto> V_set (insert d X))"
    "fst (memory_exec [''SREM'', k, d] m) = Some (Rp_integer (if d \<in> X then 1 else 0))"
    "memory_view (snd (memory_exec [''SREM'', k, d] m)) = (memory_view m)(k := put_set (X - {d}))"
    "\<exists>ds. fst (memory_exec [''SMEMBERS'', k] m) = Some (Rp_array (map Rp_string ds)) \<and> set ds = X \<and> distinct ds"
    by blast+
qed

lemma memory_view_del: "memory_view (snd (memory_exec [''DEL'', k] m)) = (memory_view m)(k := None)"
proof -
  have "live (m\<lparr>ms_keys := um_del k (ms_keys m)\<rparr>) k' = (if k' = k then None else live m k')" for k'
    by (auto simp: live_def split: option.splits)
  then show ?thesis by (simp add: mem_del_def memory_view_def fun_eq_iff)
qed

lemma memory_set_nx:
  assumes "0 < ms"
  shows "fst (memory_exec [''SET'', k, v, ''PX'', show_int ms, ''NX''] m) =
      Some (if memory_view m k = None then Rp_status ''OK'' else Rp_nil)"
    "memory_view (snd (memory_exec [''SET'', k, v, ''PX'', show_int ms, ''NX''] m)) =
      (if memory_view m k = None then (memory_view m)(k \<mapsto> V_string v) else memory_view m)"
    "memory_view m k = None \<Longrightarrow> memory_left (snd (memory_exec [''SET'', k, v, ''PX'', show_int ms, ''NX''] m)) k = Some ms"
proof -
  have l: "(live m k = None) = (memory_view m k = None)" by (simp add: memory_view_def)
  show "fst (memory_exec [''SET'', k, v, ''PX'', show_int ms, ''NX''] m) =
      Some (if memory_view m k = None then Rp_status ''OK'' else Rp_nil)"
    "memory_view (snd (memory_exec [''SET'', k, v, ''PX'', show_int ms, ''NX''] m)) =
      (if memory_view m k = None then (memory_view m)(k \<mapsto> V_string v) else memory_view m)"
    using assms by (simp_all add: mem_set_def l view_put)
  show "memory_view m k = None \<Longrightarrow> memory_left (snd (memory_exec [''SET'', k, v, ''PX'', show_int ms, ''NX''] m)) k = Some ms"
    using assms by (simp add: mem_set_def l memory_left_def) (simp add: put_key_def)
qed

lemma memory_expire:
  assumes "0 < n"
  shows "memory_view (snd (memory_exec [''EXPIRE'', k, show_int n] m)) = memory_view m"
    "memory_view m k \<noteq> None \<Longrightarrow> memory_left (snd (memory_exec [''EXPIRE'', k, show_int n] m)) k = Some (1000 * n)"
proof -
  show "memory_view (snd (memory_exec [''EXPIRE'', k, show_int n] m)) = memory_view m"
  proof (cases "live m k")
    case (Some p)
    obtain v dl where p: "p = (v, dl)" by (cases p)
    have v: "v \<noteq> S_hash [] \<and> v \<noteq> S_set []" using live_deadline Some p by blast
    have "memory_view m k = Some (stored_value v)" using Some p by (simp add: memory_view_def)
    then show ?thesis using Some p assms v by (simp add: mem_expire_def view_put) (simp add: fun_upd_idem)
  qed (simp add: mem_expire_def assms)
  assume "memory_view m k \<noteq> None"
  then obtain v dl where l: "live m k = Some (v, dl)" by (auto simp: memory_view_def)
  then have "v \<noteq> S_hash [] \<and> v \<noteq> S_set []" using live_deadline by blast
  then show "memory_left (snd (memory_exec [''EXPIRE'', k, show_int n] m)) k = Some (1000 * n)"
    using l assms by (simp add: mem_expire_def memory_left_def) (simp add: put_key_def)
qed

lemma memory_sadd_left:
  "memory_view m k = None \<Longrightarrow> memory_left (snd (memory_exec [''SADD'', k, d] m)) k = None"
  "k' \<noteq> k \<Longrightarrow> memory_left (snd (memory_exec [''SADD'', k, d] m)) k' = memory_left m k'"
proof -
  show "memory_view m k = None \<Longrightarrow> memory_left (snd (memory_exec [''SADD'', k, d] m)) k = None"
    by (simp add: memory_view_def mem_sadd_def memory_left_def)
  have now: "ms_now (snd (mem_sadd k d m)) = ms_now m"
    by (simp add: mem_sadd_def put_key_def split: option.splits stored.splits prod.splits)
  show "k' \<noteq> k \<Longrightarrow> memory_left (snd (memory_exec [''SADD'', k, d] m)) k' = memory_left m k'"
    using now by (simp add: memory_left_def mem_sadd_def split: option.splits stored.splits prod.splits)
qed

lemma memory_elapse_view: "0 \<le> t \<Longrightarrow> memory_view (memory_elapse t m) k = (case memory_left m k of None \<Rightarrow> memory_view m k
      | Some n \<Rightarrow> if n \<le> t then None else memory_view m k)"
  by (auto simp: memory_view_def memory_left_def live_elapse split: option.splits)

lemma memory_hgetall: "hash_at (memory_view m k) = Some h \<Longrightarrow>
  \<exists>rs. fst (memory_exec [''HGETALL'', k] m) = Some (Rp_array rs) \<and> map_of (hash_pairs rs) = h"
  using memory_hash [of m k h]
  by (auto simp: mem_hgetall_def hash_pairs_fields intro: exI [of _ "[]"])

lemma memory_get:
  "memory_view m k = None \<Longrightarrow> fst (memory_exec [''GET'', k] m) = Some Rp_nil"
  "memory_view m k = Some (V_string v) \<Longrightarrow> fst (memory_exec [''GET'', k] m) = Some (Rp_string v)"
proof -
  show "memory_view m k = None \<Longrightarrow> fst (memory_exec [''GET'', k] m) = Some Rp_nil"
    by (simp add: memory_view_def mem_get_def)
  assume "memory_view m k = Some (V_string v)"
  then obtain x dl where "live m k = Some (x, dl)" "stored_value x = V_string v" by (auto simp: memory_view_def)
  then show "fst (memory_exec [''GET'', k] m) = Some (Rp_string v)" by (cases x) (simp_all add: mem_get_def)
qed

lemma memory_hash_fields: "memory_view m k = Some (V_hash h) \<Longrightarrow> h \<noteq> Map.empty"
proof -
  assume "memory_view m k = Some (V_hash h)"
  then obtain x dl where l: "live m k = Some (x, dl)" "stored_value x = V_hash h" by (auto simp: memory_view_def)
  then show ?thesis using live_deadline [OF l(1)] by (cases x) auto
qed

interpretation memory: redis_clock memory_exec memory_view memory_elapse memory_left
proof
  show "memory_view s k = Some (V_hash h) \<Longrightarrow> h \<noteq> Map.empty" for s k h by (rule memory_hash_fields)
  show "hash_at (memory_view s k) = Some h \<Longrightarrow>
      \<exists>rs. fst (memory_exec [''HGETALL'', k] s) = Some (Rp_array rs) \<and> map_of (hash_pairs rs) = h" for s k h
    by (rule memory_hgetall)
  show "set_at (memory_view s k) = Some X \<Longrightarrow>
      \<exists>ds. fst (memory_exec [''SMEMBERS'', k] s) = Some (Rp_array (map Rp_string ds)) \<and> set ds = X \<and> distinct ds" for s k X
    by (rule memory_sets(4))
  show "memory_view s k = None \<Longrightarrow> fst (memory_exec [''GET'', k] s) = Some Rp_nil"
    "memory_view s k = Some (V_string v) \<Longrightarrow> fst (memory_exec [''GET'', k] s) = Some (Rp_string v)" for s k v
    by (rule memory_get, assumption)+
qed (simp_all del: memory_exec_simps(5-10) add: memory_hset_view memory_sets(1-3) memory_view_del memory_set_nx memory_expire
    memory_sadd_left memory_elapse_view)

subsection \<open>Properties of the client\<close>

definition new_memory_server :: memory_server where
  "new_memory_server = \<lparr>ms_now = 0, ms_keys = []\<rparr>"

lemma new_memory_view [simp]: "memory_view new_memory_server = Map.empty"
  by (simp add: memory_view_def live_def new_memory_server_def fun_eq_iff)

lemma sample_printable [simp]: "printable_state (sample_state n x)"
  by (simp add: printable_state_def sample_state_def device_state_default_def moderate_def)



text \<open>C0: On a Redis server a reservation excludes every other request until its time to live is over,
  and not longer: an attempt that comes \<open>t\<close> milliseconds later succeeds exactly when \<open>t\<close> is at
  least the time to live, and until then the holder is the one who reserved.\<close>

theorem remote_reservation_window:
  assumes server: "redis_clock exec view elapse left"
    and free: "view s (reservation_key c a) = None" and ok: "a \<noteq> []" "q \<noteq> []" "0 < ttl" "ttl < 2 ^ 31"
    and other: "q' \<noteq> []" "0 < ttl'" "ttl' < 2 ^ 31" and t: "0 \<le> t"
  shows "case remote_try_reserve_agent exec c a q ttl s of (answer, s1) \<Rightarrow> answer = Inr True \<and>
    fst (remote_try_reserve_agent exec c a q' ttl' (elapse t s1)) = Inr (ttl \<le> t) \<and>
    fst (remote_get_agent_reservation_holder exec c a (elapse t s1)) = Inr (if t < ttl then Some q else None)"
  using redis_clock.reservation_window [OF server free ok other t] by (simp add: case_prod_beta)

theorem remote_reservation_window_witness:
  "case remote_try_reserve_agent memory_exec redis_config_default ''a'' ''q'' 500 new_memory_server of (answer, s1) \<Rightarrow>
    answer = Inr True \<and>
    fst (remote_try_reserve_agent memory_exec redis_config_default ''a'' ''q2'' 500 (memory_elapse 499 s1)) = Inr (500 \<le> (499 :: int)) \<and>
    fst (remote_get_agent_reservation_holder memory_exec redis_config_default ''a'' (memory_elapse 499 s1)) =
      Inr (if (499 :: int) < 500 then Some ''q'' else None)"
  by (rule remote_reservation_window [OF memory.redis_clock_axioms]) simp_all

text \<open>An update decides by the state its first command read, and nothing ties the later commands to
  it: if another client stored a newer state in between, the older one is stored over it and
  reported as accepted, and a cell the other client moved the device to still lists it.\<close>

lemma stale_read_overwrites:
  assumes server: "redis_server exec view" and M: "matches_memory c now (view s) r"
    and st: "printable_state st" "ttl < 2 ^ 31" and n: "newer cur st"
    and other: "get_device_state r d = Some st'" "ds_seq st < ds_seq st'"
    and cell: "d \<in> set (get_devices_in_cell r (ds_h3_cell st'))" "ds_h3_cell st' \<noteq> ds_h3_cell st"
      "left_cell cur st \<noteq> Some (ds_h3_cell st')"
  shows "case remote_store_state exec c d st ttl cur s of (answer, s1) \<Rightarrow>
    fst (remote_get_device_state exec c d s) = Inr (Some (text_state st')) \<and> answer = Inr True \<and>
    fst (remote_get_device_state exec c d s1) = Inr (Some (text_state (st\<lparr>ds_device_id := d\<rparr>))) \<and>
    (\<exists>ds. fst (remote_get_devices_in_cell exec c (ds_h3_cell st') s1) = Inr ds \<and> d \<in> set ds)"
  using redis_server.overtaken_update [OF server M st n, of d] cell other(1) redis_server.reads_match(1) [OF server M, of d]
  by (simp add: case_prod_beta)

end
