(* ===== verification/Postgres_Remote.thy ===== *)
theory Postgres_Remote
  imports Redis_Remote
begin

text \<open>
  The branches of \<open>common/clients/postgres_client.cpp\<close> for a build with libpq: the statements the
  client sends, their parameters as text, and how it reads the rows.

  The database is a parameter: a function from the text of a statement and its parameters to a
  result and its next state. The text of a statement is that of the code, its effect belongs to
  the database. The locale \<open>transactional\<close> states what the client relies on when it writes a batch:
  nothing of a transaction is seen before its \<open>COMMIT\<close>.

  The lemmas show that a batch of trip points and a set of fences are written as a whole or not at
  all, also when the database fails midway, and that the cells and the polygon of a fence survive
  their columns, the cells exactly, the coordinates to six digits.
\<close>

subsection \<open>Statements and results\<close>

datatype pg_status = COMMAND_OK | TUPLES_OK | FATAL_ERROR

datatype pg_result = Pg_command_ok | Pg_tuples "string list list" | Pg_failed string

fun result_status :: "pg_result \<Rightarrow> pg_status" where
  "result_status Pg_command_ok = COMMAND_OK"
| "result_status (Pg_tuples rows) = TUPLES_OK"
| "result_status (Pg_failed msg) = FATAL_ERROR"

type_synonym 'd database = "string \<Rightarrow> string list \<Rightarrow> 'd \<Rightarrow> pg_result \<times> 'd"

text \<open>A statement that was answered, but not as expected, left no message.\<close>

fun pg_message :: "pg_result \<Rightarrow> string" where
  "pg_message (Pg_failed msg) = msg"
| "pg_message _ = []"

definition pg_error :: "string \<Rightarrow> pg_result \<Rightarrow> string" where
  "pg_error operation r = operation @ '' failed: '' @ pg_message r"

text \<open>Parameters are passed as C strings.\<close>

definition c_text :: "string \<Rightarrow> string" where
  "c_text s = takeWhile (\<lambda>x. x \<noteq> CHR 0x00) s"

definition exec_command :: "'d database \<Rightarrow> string \<Rightarrow> string \<Rightarrow> ('d, unit) prog" where
  "exec_command run sql operation d = (case run sql [] d of (r, d') \<Rightarrow>
     if result_status r = COMMAND_OK then (Inr (), d') else (Inl (pg_error operation r), d'))"

definition exec_params :: "'d database \<Rightarrow> string \<Rightarrow> string list \<Rightarrow> pg_status \<Rightarrow> string \<Rightarrow> ('d, pg_result) prog" where
  "exec_params run sql params expected operation d = (case run sql (map c_text params) d of (r, d') \<Rightarrow>
     if result_status r = expected then (Inr r, d') else (Inl (pg_error operation r), d'))"

definition pg_command :: "'d database \<Rightarrow> string \<Rightarrow> string list \<Rightarrow> string \<Rightarrow> ('d, unit) prog" where
  "pg_command run sql params operation =
     seq_prog (exec_params run sql params COMMAND_OK operation) (\<lambda>_. ret ())"

fun pg_rows :: "pg_result \<Rightarrow> string list list" where
  "pg_rows (Pg_tuples rows) = rows"
| "pg_rows _ = []"

definition pg_query :: "'d database \<Rightarrow> string \<Rightarrow> string list \<Rightarrow> string \<Rightarrow> ('d, string list list) prog" where
  "pg_query run sql params operation =
     seq_prog (exec_params run sql params TUPLES_OK operation) (\<lambda>r. ret (pg_rows r))"

subsection \<open>Reading columns\<close>

text \<open>\<open>strtoll\<close> and \<open>strtoull\<close> answer 0 for text without digits and the nearest value out of range.\<close>

definition parse_i64 :: "string \<Rightarrow> int" where
  "parse_i64 s = (case read_int s of None \<Rightarrow> 0
     | Some (neg, n, _) \<Rightarrow> max (- (2 ^ 63)) (min (2 ^ 63 - 1) (if neg then - int n else int n)))"

definition parse_u64 :: "string \<Rightarrow> u64" where
  "parse_u64 s = (case read_int s of None \<Rightarrow> 0
     | Some (neg, n, _) \<Rightarrow> if 2 ^ 64 \<le> n then - 1 else if neg then - of_nat n else of_nat n)"

definition parse_double :: "string \<Rightarrow> double" where
  "parse_double s = (let (neg, t) = read_sign (skip_space s) in
     case read_number t of None \<Rightarrow> Fin 0
     | Some (Inl d, _) \<Rightarrow> if neg then dneg d else d
     | Some (Inr x, _) \<Rightarrow> fl (if neg then - x else x))"

fun to_float :: "double \<Rightarrow> double" where
  "to_float (Fin x) = fl32 x"
| "to_float d = d"

definition parse_float :: "string \<Rightarrow> double" where
  "parse_float s = to_float (parse_double s)"

definition parse_bool :: "string \<Rightarrow> bool" where
  "parse_bool s = (s = ''t'' \<or> s = ''true'' \<or> s = ''1'')"

text \<open>\<open>from_chars\<close> takes no white space and no plus sign; a token it does not take whole is left out.\<close>

definition from_chars_i64 :: "string \<Rightarrow> int option" where
  "from_chars_i64 s =
     (let (neg, ds) = (case s of c # t \<Rightarrow> if c = CHR ''-'' then (True, t) else (False, s) | [] \<Rightarrow> (False, []));
          v = (if neg then - int (digits_value 10 ds) else int (digits_value 10 ds))
      in if ds \<noteq> [] \<and> list_all is_digit ds \<and> - (2 ^ 63) \<le> v \<and> v < 2 ^ 63 then Some v else None)"

definition parse_h3_cells :: "string \<Rightarrow> cell list" where
  "parse_h3_cells csv = List.map_filter (\<lambda>t. map_option of_int (from_chars_i64 t)) (getline_fields CHR '','' csv)"

definition skip_blanks :: "string \<Rightarrow> string" where
  "skip_blanks s = dropWhile (\<lambda>c. c = CHR '' '') s"

text \<open>A pair of the column is longitude and latitude, a vertex latitude and longitude.\<close>

definition parse_lon_lat_pair :: "string \<Rightarrow> (double \<times> double) option" where
  "parse_lon_lat_pair s =
     (let p = rev (skip_blanks (rev (skip_blanks s))); lon = takeWhile (\<lambda>c. c \<noteq> CHR '' '') p in
      if lon = p then None
      else Some (parse_double (skip_blanks (drop (length lon + 1) p)), parse_double lon))"

definition same_vertex :: "double \<times> double \<Rightarrow> double \<times> double \<Rightarrow> bool" where
  "same_vertex v w = (deq (fst v) (fst w) \<and> deq (snd v) (snd w))"

definition parse_polygon_wkt :: "string \<Rightarrow> (double \<times> double) list" where
  "parse_polygon_wkt wkt =
     (if take 9 wkt \<noteq> ''POLYGON(('' \<or> length wkt \<le> 11 then []
      else let body = drop 9 (take (length wkt - 2) wkt);
               vs = List.map_filter parse_lon_lat_pair (getline_fields CHR '','' body)
           in if length vs > 1 \<and> same_vertex (hd vs) (last vs) then butlast vs else vs)"

definition vertex_text :: "double \<times> double \<Rightarrow> string" where
  "vertex_text v = show_double (snd v) @ CHR '' '' # show_double (fst v)"

definition polygon_to_wkt :: "(double \<times> double) list \<Rightarrow> string" where
  "polygon_to_wkt vs =
     (if vs = [] then ''POLYGON EMPTY''
      else ''POLYGON(('' @ join_on CHR '','' (map vertex_text vs @
        (if \<not> same_vertex (hd vs) (last vs) then [vertex_text (hd vs)] else [])) @ ''))'')"

definition h3_cells_to_csv :: "cell list \<Rightarrow> string" where
  "h3_cells_to_csv cells = join_on CHR '','' (map show_cell (sort_key sint cells))"

definition location_event_from_row :: "string list \<Rightarrow> location_event" where
  "location_event_from_row row = location_event_default\<lparr>le_device_id := row ! 0, le_seq := parse_u64 (row ! 1),
     le_timestamp_ms := parse_i64 (row ! 2), le_server_recv_ms := parse_i64 (row ! 3),
     le_lat := parse_double (row ! 4), le_lon := parse_double (row ! 5),
     le_altitude_m := parse_float (row ! 6), le_accuracy_m := parse_float (row ! 7),
     le_speed_ms := parse_float (row ! 8), le_heading_deg := parse_float (row ! 9)\<rparr>"

definition geofence_event_from_row :: "string list \<Rightarrow> geofence_event_record" where
  "geofence_event_from_row row = \<lparr>ge_device_id = row ! 0, ge_fence_id = row ! 1, ge_fence_name = row ! 2,
     ge_event_type = geofence_event_type_from_string (row ! 3), ge_lat = parse_double (row ! 4),
     ge_lon = parse_double (row ! 5), ge_event_ts_ms = parse_i64 (row ! 6),
     ge_inside_duration_s = wrap32 (parse_i64 (row ! 7))\<rparr>"

definition fence_from_row :: "string list \<Rightarrow> geofence_rule" where
  "fence_from_row row =
     (let vertices = parse_polygon_wkt (row ! 5) in
      geofence_rule_default\<lparr>gr_fence_id := row ! 0, gr_name := row ! 1,
        gr_dwell_threshold_s := wrap32 (parse_i64 (row ! 2)), gr_active := parse_bool (row ! 3),
        gr_h3_cells := fold us_add (parse_h3_cells (row ! 4)) [],
        gr_polygon_vertices := vertices, gr_complex_geometry := length vertices < 3\<rparr>)"

subsection \<open>Connecting\<close>

datatype pg_connection = No_connection | Bad_connection string | Good_connection

definition raise_error :: "string \<Rightarrow> ('d, 'a) prog" where
  "raise_error ex d = (Inl ex, d)"

text \<open>The constructor; \<open>dial\<close> is \<open>PQconnectdb\<close>.\<close>

definition remote_postgres :: "(string \<Rightarrow> pg_connection) \<Rightarrow> 'd database \<Rightarrow> postgis_config \<Rightarrow> ('d, unit) prog" where
  "remote_postgres dial run c = (case dial (c_text (pc_dsn c)) of
       No_connection \<Rightarrow> raise_error ''connect to PostgreSQL failed: no PostgreSQL connection''
     | Bad_connection msg \<Rightarrow> raise_error (''connect to PostgreSQL failed: '' @ msg)
     | Good_connection \<Rightarrow> pg_command run ''SET statement_timeout = $1::integer'' [show_int (pc_query_timeout_ms c)]
         ''set PostgreSQL statement timeout'')"

definition remote_pg_ping :: "'d database \<Rightarrow> ('d, bool) prog" where
  "remote_pg_ping run = seq_prog (pg_query run ''SELECT 1'' [] ''PostgreSQL ping'')
     (\<lambda>rows. ret (length rows = 1 \<and> hd (rows ! 0) = ''1''))"

subsection \<open>Transactions\<close>

text \<open>What the body or the commit raises is raised again after a rollback, whose own outcome is ignored.\<close>

definition in_transaction :: "'d database \<Rightarrow> string \<Rightarrow> ('d, unit) prog \<Rightarrow> ('d, unit) prog" where
  "in_transaction run name body =
     andthen (exec_command run ''BEGIN'' (''begin '' @ name))
       (\<lambda>d. case andthen body (exec_command run ''COMMIT'' (''commit '' @ name)) d of
          (Inr u, d') \<Rightarrow> (Inr u, d')
        | (Inl ex, d') \<Rightarrow> (Inl ex, snd (exec_command run ''ROLLBACK'' (''rollback '' @ name) d')))"

definition insert_trip_sql :: string where
  "insert_trip_sql =
     ''INSERT INTO trip_points (device_id, seq, event_time, recv_time, location, altitude_m, accuracy_m, speed_ms, heading_deg, h3_r7, metadata) '' @
     ''VALUES ($1, $2::bigint, to_timestamp($3::double precision / 1000.0), to_timestamp($4::double precision / 1000.0), '' @
     ''ST_SetSRID(ST_MakePoint($6::double precision, $5::double precision), 4326)::geography, '' @
     ''$7::real, $8::real, $9::real, $10::real, NULL, '' @ [CHR 0x27] @ ''{}'' @ [CHR 0x27] @ ''::jsonb) ON CONFLICT DO NOTHING''"

definition trip_params :: "location_event \<Rightarrow> string list" where
  "trip_params e = [le_device_id e, show_nat (unat (le_seq e)), show_int (event_time_ms e), show_int (le_server_recv_ms e),
     to_string_d (le_lat e), to_string_d (le_lon e), to_string_d (le_altitude_m e), to_string_d (le_accuracy_m e),
     to_string_d (le_speed_ms e), to_string_d (le_heading_deg e)]"

definition remote_insert_trip_point :: "'d database \<Rightarrow> location_event \<Rightarrow> ('d, unit) prog" where
  "remote_insert_trip_point run e = pg_command run insert_trip_sql (trip_params e) ''insert trip point''"

definition remote_batch_insert_trip_points :: "'d database \<Rightarrow> location_event list \<Rightarrow> ('d, unit) prog" where
  "remote_batch_insert_trip_points run es =
     (if es = [] then skip
      else in_transaction run ''trip point insert'' (for_each (remote_insert_trip_point run) es))"

definition upsert_fence_sql :: string where
  "upsert_fence_sql =
     ''INSERT INTO geofence_rules (fence_id, name, geometry, h3_cells, dwell_threshold_s, active) '' @
     ''VALUES ($1, $2, ST_GeomFromText($3, 4326), CASE WHEN $4 = '' @ [CHR 0x27, CHR 0x27] @
     '' THEN ARRAY[]::bigint[] ELSE string_to_array($4, '' @ [CHR 0x27] @ '','' @ [CHR 0x27] @ '')::bigint[] END, '' @
     ''$5::integer, $6::boolean) ON CONFLICT (fence_id) DO UPDATE SET '' @
     ''name = EXCLUDED.name, geometry = EXCLUDED.geometry, h3_cells = EXCLUDED.h3_cells, '' @
     ''dwell_threshold_s = EXCLUDED.dwell_threshold_s, active = EXCLUDED.active, updated_at = NOW()''"

definition fence_params :: "geofence_rule \<Rightarrow> string list" where
  "fence_params f = [gr_fence_id f, gr_name f, polygon_to_wkt (gr_polygon_vertices f), h3_cells_to_csv (gr_h3_cells f),
     show_int (gr_dwell_threshold_s f), if gr_active f then ''true'' else ''false'']"

definition remote_upsert_fence :: "'d database \<Rightarrow> geofence_rule \<Rightarrow> ('d, unit) prog" where
  "remote_upsert_fence run f = pg_command run upsert_fence_sql (fence_params f) ''upsert geofence rule''"

definition remote_set_active_fences :: "'d database \<Rightarrow> geofence_rule list \<Rightarrow> ('d, unit) prog" where
  "remote_set_active_fences run fs = in_transaction run ''fence upsert'' (for_each (remote_upsert_fence run) fs)"

subsection \<open>Queries\<close>

definition trip_columns :: string where
  "trip_columns = ''SELECT device_id, seq, (EXTRACT(EPOCH FROM event_time) * 1000)::bigint AS event_time_ms, '' @
     ''(EXTRACT(EPOCH FROM recv_time) * 1000)::bigint AS recv_time_ms, '' @
     ''ST_Y(location::geometry) AS lat, ST_X(location::geometry) AS lon, '' @
     ''COALESCE(altitude_m, 0), COALESCE(accuracy_m, 0), COALESCE(speed_ms, 0), COALESCE(heading_deg, 0) '' @
     ''FROM trip_points WHERE device_id = $1 AND event_time BETWEEN to_timestamp($2::double precision / 1000.0) '' @
     ''AND to_timestamp($3::double precision / 1000.0) ''"

definition query_trip_sql :: string where
  "query_trip_sql = trip_columns @ ''ORDER BY event_time ASC, seq ASC LIMIT $4::integer''"

definition remote_query_trip :: "'d database \<Rightarrow> string \<Rightarrow> int \<Rightarrow> int \<Rightarrow> int \<Rightarrow> ('d, location_event list) prog" where
  "remote_query_trip run device from_ts to_ts n =
     (if n \<le> 0 \<or> from_ts > to_ts then ret []
      else seq_prog (pg_query run query_trip_sql [device, show_int from_ts, show_int to_ts, show_int n] ''query trip points'')
        (\<lambda>rows. ret (map location_event_from_row rows)))"

definition query_trip_spatial_sql :: string where
  "query_trip_spatial_sql = trip_columns @
     ''AND ST_DWithin(location, ST_SetSRID(ST_MakePoint($5::double precision, $4::double precision), 4326)::geography, '' @
     ''$6::double precision) ORDER BY event_time ASC, seq ASC LIMIT $7::integer''"

definition remote_query_trip_spatial :: "'d database \<Rightarrow> string \<Rightarrow> int \<Rightarrow> int \<Rightarrow> double \<Rightarrow> double \<Rightarrow> double \<Rightarrow> int \<Rightarrow>
    ('d, location_event list) prog" where
  "remote_query_trip_spatial run device from_ts to_ts center_lat center_lon radius_m n =
     (if n \<le> 0 \<or> dlt radius_m (Fin 0) \<or> from_ts > to_ts then ret []
      else seq_prog (pg_query run query_trip_spatial_sql [device, show_int from_ts, show_int to_ts, to_string_d center_lat,
          to_string_d center_lon, to_string_d radius_m, show_int n] ''query spatial trip points'')
        (\<lambda>rows. ret (map location_event_from_row rows)))"

definition load_fences_sql :: string where
  "load_fences_sql = ''SELECT fence_id, name, dwell_threshold_s, active, COALESCE(array_to_string(h3_cells, '' @
     [CHR 0x27] @ '','' @ [CHR 0x27] @ ''), '' @ [CHR 0x27, CHR 0x27] @ ''), COALESCE(ST_AsText(geometry), '' @
     [CHR 0x27, CHR 0x27] @ '') FROM geofence_rules WHERE active = true ORDER BY fence_id ASC''"

definition remote_load_active_fences :: "'d database \<Rightarrow> ('d, geofence_rule list) prog" where
  "remote_load_active_fences run = seq_prog (pg_query run load_fences_sql [] ''load active fences'')
     (\<lambda>rows. ret (map fence_from_row rows))"

definition insert_geofence_sql :: string where
  "insert_geofence_sql = ''INSERT INTO geofence_events (device_id, fence_id, fence_name, event_type, lat, lon, event_ts, inside_duration_s) '' @
     ''VALUES ($1, $2, $3, $4, $5::double precision, $6::double precision, to_timestamp($7::double precision / 1000.0), $8::integer)''"

definition geofence_params :: "geofence_event_record \<Rightarrow> string list" where
  "geofence_params e = [ge_device_id e, ge_fence_id e, ge_fence_name e, geofence_event_type_to_string (ge_event_type e),
     to_string_d (ge_lat e), to_string_d (ge_lon e), show_int (ge_event_ts_ms e), show_int (ge_inside_duration_s e)]"

definition remote_insert_geofence_event :: "'d database \<Rightarrow> geofence_event_record \<Rightarrow> ('d, unit) prog" where
  "remote_insert_geofence_event run e = pg_command run insert_geofence_sql (geofence_params e) ''insert geofence event''"

text \<open>\<open>PQgetvalue\<close> out of range answers no text, which reads as 0.\<close>

definition count_from_rows :: "string list list \<Rightarrow> u64" where
  "count_from_rows rows = (case rows of (v # _) # _ \<Rightarrow> parse_u64 v | _ \<Rightarrow> 0)"

definition remote_trip_point_count :: "'d database \<Rightarrow> ('d, u64) prog" where
  "remote_trip_point_count run = seq_prog (pg_query run ''SELECT COUNT(*) FROM trip_points'' [] ''count trip points'')
     (\<lambda>rows. ret (count_from_rows rows))"

definition remote_geofence_event_count :: "'d database \<Rightarrow> ('d, u64) prog" where
  "remote_geofence_event_count run = seq_prog (pg_query run ''SELECT COUNT(*) FROM geofence_events'' [] ''count geofence events'')
     (\<lambda>rows. ret (count_from_rows rows))"

definition geofence_events_sql :: string where
  "geofence_events_sql = ''SELECT device_id, fence_id, COALESCE(fence_name, '' @ [CHR 0x27, CHR 0x27] @
     ''), event_type, lat, lon, (EXTRACT(EPOCH FROM event_ts) * 1000)::bigint, COALESCE(inside_duration_s, 0) '' @
     ''FROM geofence_events ORDER BY event_ts ASC, id ASC''"

definition remote_geofence_events :: "'d database \<Rightarrow> ('d, geofence_event_record list) prog" where
  "remote_geofence_events run = seq_prog (pg_query run geofence_events_sql [] ''load geofence events'')
     (\<lambda>rows. ret (map geofence_event_from_row rows))"

subsection \<open>The columns of a fence\<close>

lemma from_chars_show: "- (2 ^ 63) \<le> i \<Longrightarrow> i < 2 ^ 63 \<Longrightarrow> from_chars_i64 (show_int i) = Some i"
proof -
  assume r: "- (2 ^ 63) \<le> i" "i < 2 ^ 63"
  have d: "list_all is_digit (show_nat n)" for n using show_nat_digits [of n] by (simp add: list_all_iff)
  show ?thesis
  proof (cases "i < 0")
    case True
    then show ?thesis using r d by (simp add: from_chars_i64_def show_int_def)
  next
    case False
    obtain c t where s: "show_nat (nat i) = c # t" by (cases "show_nat (nat i)") auto
    have "is_digit c" using show_nat_digits [of "nat i"] s by simp
    then have "c \<noteq> CHR ''-''" by (rule digit_not_special)
    then have "(case show_nat (nat i) of c # t \<Rightarrow> if c = CHR ''-'' then (True, t) else (False, show_nat (nat i))
        | [] \<Rightarrow> (False, [])) = (False, show_nat (nat i))" by (simp add: s)
    then show ?thesis using False r d by (simp add: from_chars_i64_def show_int_def)
  qed
qed

lemma map_filter_all: "\<forall>x \<in> set xs. g (f x) = Some (h x) \<Longrightarrow> List.map_filter g (map f xs) = map h xs"
  by (induction xs) (simp_all add: map_filter_simps)

lemma cells_roundtrip: "parse_h3_cells (h3_cells_to_csv cells) = sort_key sint cells"
proof (cases "cells = []")
  case True
  then show ?thesis by (simp add: parse_h3_cells_def h3_cells_to_csv_def getline_fields_def map_filter_simps)
next
  case False
  let ?cs = "sort_key sint cells"
  have ne: "?cs \<noteq> []" using False by (metis length_0_conv length_sort)
  have f: "show_cell x \<noteq> []" "CHR '','' \<notin> set (show_cell x)" for x
    using csv_numbers(2) [of "sint x"] by (auto simp: show_cell_def show_int_def csv_field_def)
  have "getline_fields CHR '','' (h3_cells_to_csv cells) = map show_cell ?cs"
    unfolding h3_cells_to_csv_def using ne f by (intro getline_join) (auto simp: last_map)
  moreover have "map_option of_int (from_chars_i64 (show_cell x)) = Some x" for x
  proof -
    have "- (2 ^ 63) \<le> sint x" "sint x < 2 ^ 63" using sint_greater_eq [of x] sint_less [of x] by simp_all
    then show ?thesis by (simp add: show_cell_def from_chars_show)
  qed
  ultimately show ?thesis
    using map_filter_all [of ?cs "\<lambda>t. map_option of_int (from_chars_i64 t)" show_cell "\<lambda>x. x"]
    by (simp add: parse_h3_cells_def)
qed

definition six :: "double \<Rightarrow> double" where
  "six d = parse_double (show_double d)"

definition six_vertex :: "double \<times> double \<Rightarrow> double \<times> double" where
  "six_vertex v = (six (fst v), six (snd v))"

text \<open>A ring without the vertex that closes it.\<close>

definition open_ring :: "(double \<times> double) list \<Rightarrow> (double \<times> double) list" where
  "open_ring vs = (if length vs > 1 \<and> same_vertex (hd vs) (last vs) then butlast vs else vs)"

lemma parse_double_sto_d: "value_of (sto_d s) = Inr d \<Longrightarrow> parse_double s = d"
  by (auto simp: value_of_def sto_d_def parse_double_def Let_def split: prod.splits option.splits sum.splits if_splits)

lemma six_digits: "printable d \<Longrightarrow> six_digits_of d (six d) \<and> six d \<noteq> NaN"
proof -
  assume "printable d"
  then obtain d' where "value_of (sto_d (show_double d)) = Inr d'" "six_digits_of d d'"
    using printable_field by blast
  then show ?thesis using parse_double_sto_d fl_not_nan by (auto simp: six_def six_digits_of_def)
qed

lemma show_double_chars:
  assumes "printable d"
  shows "set (show_double d) \<subseteq> {c. is_digit c} \<union> {CHR ''.'', CHR ''-''}" "show_double d \<noteq> []"
proof -
  obtain x where d: "d = Fin x" and x: "x = 0 \<or> 1 / 10000 \<le> \<bar>x\<bar> \<and> \<bar>x\<bar> < 999999"
    using assms by (auto simp: printable_def)
  show "set (show_double d) \<subseteq> {c. is_digit c} \<union> {CHR ''.'', CHR ''-''}"
    using show_double_reads_back [OF x] d by metis
  show "show_double d \<noteq> []" using printable_field [OF assms] by blast
qed

lemma skip_blanks_id: "CHR '' '' \<notin> set s \<Longrightarrow> skip_blanks s = s"
  by (cases s) (auto simp: skip_blanks_def)

lemma skip_blanks_front: "s \<noteq> [] \<Longrightarrow> hd s \<noteq> CHR '' '' \<Longrightarrow> skip_blanks s = s"
  by (cases s) (auto simp: skip_blanks_def)

lemma vertex_roundtrip:
  assumes "printable (fst v)" "printable (snd v)"
  shows "parse_lon_lat_pair (vertex_text v) = Some (six_vertex v)" "CHR '','' \<notin> set (vertex_text v)"
proof -
  let ?a = "show_double (snd v)" and ?b = "show_double (fst v)"
  have special: "CHR '' '' \<notin> {c. is_digit c} \<union> {CHR ''.'', CHR ''-''}" "CHR '','' \<notin> {c. is_digit c} \<union> {CHR ''.'', CHR ''-''}"
    by (auto simp: is_digit_def code_of_def)
  have a: "CHR '' '' \<notin> set ?a" "CHR '','' \<notin> set ?a" "?a \<noteq> []" and b: "CHR '' '' \<notin> set ?b" "CHR '','' \<notin> set ?b" "?b \<noteq> []"
    using show_double_chars [OF assms(1)] show_double_chars [OF assms(2)] special by blast+
  have "hd (vertex_text v) \<noteq> CHR '' ''" using a by (cases ?a) (auto simp: vertex_text_def)
  then have 1: "skip_blanks (vertex_text v) = vertex_text v" by (intro skip_blanks_front) (simp add: vertex_text_def)
  have "rev (vertex_text v) = rev ?b @ CHR '' '' # rev ?a" by (simp add: vertex_text_def)
  moreover have "hd (rev ?b @ CHR '' '' # rev ?a) \<noteq> CHR '' ''"
    using b by (cases "rev ?b") (auto simp: set_rev [of ?b, symmetric] simp del: set_rev)
  ultimately have 2: "skip_blanks (rev (vertex_text v)) = rev (vertex_text v)"
    by (intro skip_blanks_front) simp_all
  have 3: "takeWhile (\<lambda>c. c \<noteq> CHR '' '') (vertex_text v) = ?a"
    using a(1) by (simp add: vertex_text_def takeWhile_append2 takeWhile_tail)
      (metis (mono_tags, lifting) takeWhile_eq_all_conv)
  have "drop (length ?a + 1) (vertex_text v) = ?b" by (simp add: vertex_text_def)
  moreover have "?a \<noteq> vertex_text v" by (simp add: vertex_text_def)
  ultimately show "parse_lon_lat_pair (vertex_text v) = Some (six_vertex v)"
    unfolding parse_lon_lat_pair_def Let_def 1 2 rev_rev_ident 3
    using b(1) by (simp add: skip_blanks_id six_vertex_def six_def)
  show "CHR '','' \<notin> set (vertex_text v)" using a b by (simp add: vertex_text_def)
qed

lemma same_six: "printable (fst v) \<Longrightarrow> printable (snd v) \<Longrightarrow> same_vertex (six_vertex v) (six_vertex v)"
  using six_digits [of "fst v"] six_digits [of "snd v"] by (simp add: same_vertex_def six_vertex_def deq_def)

lemma same_vertex_eq: "same_vertex v w \<Longrightarrow> v = w"
  by (simp add: same_vertex_def deq_def prod_eq_iff)

text \<open>The vertices of a fence come back open and to six digits.\<close>

lemma polygon_roundtrip:
  assumes "\<forall>v \<in> set vs. printable (fst v) \<and> printable (snd v)"
  shows "parse_polygon_wkt (polygon_to_wkt vs) = map six_vertex (open_ring vs)"
proof (cases "vs = []")
  case True
  then show ?thesis by (simp add: polygon_to_wkt_def parse_polygon_wkt_def open_ring_def)
next
  case False
  define ts where "ts = vs @ (if \<not> same_vertex (hd vs) (last vs) then [hd vs] else [])"
  define body where "body = join_on CHR '','' (map vertex_text ts)"
  have wkt: "polygon_to_wkt vs = ''POLYGON(('' @ body @ ''))''"
    using False by (simp add: polygon_to_wkt_def body_def ts_def)
  have ts: "ts \<noteq> []" "\<forall>v \<in> set ts. printable (fst v) \<and> printable (snd v)" using False assms by (auto simp: ts_def)
  have "getline_fields CHR '','' body = map vertex_text ts"
    unfolding body_def using ts vertex_roundtrip(2) by (intro getline_join) (auto simp: last_map vertex_text_def)
  then have parsed: "List.map_filter parse_lon_lat_pair (getline_fields CHR '','' body) = map six_vertex ts"
    using ts(2) by (simp add: map_filter_all vertex_roundtrip(1))
  have "body \<noteq> []" using ts(1) by (cases ts; cases "tl ts") (auto simp: body_def vertex_text_def)
  then have len: "\<not> length (polygon_to_wkt vs) \<le> 11" by (cases body) (simp_all add: wkt)
  have cut: "take 9 (polygon_to_wkt vs) = ''POLYGON((''" "drop 9 (take (length (polygon_to_wkt vs) - 2) (polygon_to_wkt vs)) = body"
    by (simp_all add: wkt)
  have "last ts = hd vs" using False by (auto simp: ts_def dest: same_vertex_eq)
  moreover have "hd ts = hd vs" using False by (simp add: ts_def)
  moreover have "printable (fst (hd vs)) \<and> printable (snd (hd vs))" using assms False by simp
  ultimately have same: "same_vertex (hd (map six_vertex ts)) (last (map six_vertex ts))"
    using ts(1) by (simp add: hd_map last_map same_six)
  have "parse_polygon_wkt (polygon_to_wkt vs) = (if length ts > 1 then butlast (map six_vertex ts) else map six_vertex ts)"
    using len cut same parsed by (simp add: parse_polygon_wkt_def)
  also have "\<dots> = map six_vertex (open_ring vs)"
    using False by (auto simp: ts_def open_ring_def map_butlast butlast_append neq_Nil_conv)
  finally show ?thesis .
qed

subsection \<open>Whole or not at all\<close>

definition transaction_control :: "string list" where
  "transaction_control = [''BEGIN'', ''COMMIT'', ''ROLLBACK'']"

text \<open>
  What is documented of transactions: \<open>committed\<close> is what others see, \<open>work\<close> what the open
  transaction sees, \<open>effect\<close> what a statement does. A commit that is answered with an error may
  or may not have taken place, as when the connection breaks.
\<close>

locale transactional =
  fixes run :: "'d database" and committed work :: "'d \<Rightarrow> 't" and active :: "'d \<Rightarrow> bool"
    and effect :: "string \<Rightarrow> string list \<Rightarrow> 't \<Rightarrow> 't"
  assumes begin_ok: "fst (run ''BEGIN'' [] d) = Pg_command_ok \<Longrightarrow>
      active (snd (run ''BEGIN'' [] d)) \<and> work (snd (run ''BEGIN'' [] d)) = committed d"
    and begin_keeps: "committed (snd (run ''BEGIN'' [] d)) = committed d"
    and statement_ok: "active d \<Longrightarrow> sql \<notin> set transaction_control \<Longrightarrow> fst (run sql ps d) = Pg_command_ok \<Longrightarrow>
      active (snd (run sql ps d)) \<and> work (snd (run sql ps d)) = effect sql ps (work d)"
    and statement_keeps: "active d \<Longrightarrow> sql \<notin> set transaction_control \<Longrightarrow> committed (snd (run sql ps d)) = committed d"
    and commit_ok: "active d \<Longrightarrow> fst (run ''COMMIT'' [] d) = Pg_command_ok \<Longrightarrow> committed (snd (run ''COMMIT'' [] d)) = work d"
    and commit_failed: "active d \<Longrightarrow> committed (snd (run ''COMMIT'' [] d)) \<in> {committed d, work d}"
    and rollback_keeps: "committed (snd (run ''ROLLBACK'' [] d)) = committed d"
begin

lemma command_ok_iff [simp]: "result_status r = COMMAND_OK \<longleftrightarrow> r = Pg_command_ok"
  by (cases r) simp_all

lemma exec_command_result: "exec_command run sql operation d =
    (if fst (run sql [] d) = Pg_command_ok then Inr () else Inl (pg_error operation (fst (run sql [] d))), snd (run sql [] d))"
  by (simp add: exec_command_def case_prod_beta)

lemma pg_command_result: "pg_command run sql ps operation d =
    (if fst (run sql (map c_text ps) d) = Pg_command_ok then Inr ()
     else Inl (pg_error operation (fst (run sql (map c_text ps) d))), snd (run sql (map c_text ps) d))"
  by (simp add: pg_command_def exec_params_def seq_prog_def case_prod_beta)

lemma statements:
  assumes "active d" "sql \<notin> set transaction_control"
  shows "case for_each (\<lambda>x. pg_command run sql (f x) operation) xs d of (res, d') \<Rightarrow>
    committed d' = committed d \<and>
    (res = Inr () \<longrightarrow> active d' \<and> work d' = fold (\<lambda>x. effect sql (map c_text (f x))) xs (work d))"
  using assms
proof (induction xs arbitrary: d)
  case (Cons x xs)
  let ?r = "run sql (map c_text (f x)) d"
  have keep: "committed (snd ?r) = committed d" using Cons.prems by (rule statement_keeps)
  show ?case
  proof (cases "fst ?r = Pg_command_ok")
    case True
    have ok: "active (snd ?r) \<and> work (snd ?r) = effect sql (map c_text (f x)) (work d)"
      by (rule statement_ok [OF Cons.prems True])
    have "pg_command run sql (f x) operation d = (Inr (), snd ?r)" by (simp add: pg_command_result True)
    moreover have "active (snd ?r)" using ok by blast
    note Cons.IH [OF this Cons.prems(2)]
    ultimately show ?thesis using ok keep by (auto split: prod.splits)
  next
    case False
    then have "pg_command run sql (f x) operation d = (Inl (pg_error operation (fst ?r)), snd ?r)"
      by (simp add: pg_command_result)
    then show ?thesis using keep by simp
  qed
qed simp

lemma all_or_nothing:
  fixes xs :: "'x list" and f :: "'x \<Rightarrow> string list"
  assumes "sql \<notin> set transaction_control"
  defines "new \<equiv> (\<lambda>d. fold (\<lambda>x. effect sql (map c_text (f x))) xs (committed d))"
  shows "case in_transaction run name (for_each (\<lambda>x. pg_command run sql (f x) operation) xs) d of (res, d') \<Rightarrow>
    (res = Inr () \<longrightarrow> committed d' = new d) \<and> committed d' \<in> {committed d, new d}"
proof -
  let ?b = "run ''BEGIN'' [] d"
  have keep: "committed (snd ?b) = committed d" by (rule begin_keeps)
  show ?thesis
  proof (cases "fst ?b = Pg_command_ok")
    case False
    then show ?thesis using keep by (simp add: in_transaction_def andthen_def seq_prog_def exec_command_result)
  next
    case True
    note b = begin_ok [OF True]
    obtain res d2 where body: "for_each (\<lambda>x. pg_command run sql (f x) operation) xs (snd ?b) = (res, d2)"
      by (cases "for_each (\<lambda>x. pg_command run sql (f x) operation) xs (snd ?b)")
    have s: "committed d2 = committed d" "res = Inr () \<Longrightarrow> active d2 \<and> work d2 = new d"
      using statements [where d = "snd ?b" and sql = sql and f = f and operation = operation and xs = xs] b assms(1) body keep by (simp_all add: new_def)
    have start: "exec_command run ''BEGIN'' (''begin '' @ name) d = (Inr (), snd ?b)"
      by (simp add: exec_command_result True)
    show ?thesis
    proof (cases res)
      case (Inl ex)
      then show ?thesis using s(1) body start
        by (simp add: in_transaction_def andthen_def seq_prog_def exec_command_result rollback_keeps)
    next
      case (Inr u)
      then have u: "res = Inr ()" by simp
      note w = s(2) [OF u]
      have "active d2" using w by blast
      note c = commit_ok [OF this] commit_failed [OF this]
      show ?thesis
      proof (cases "fst (run ''COMMIT'' [] d2) = Pg_command_ok")
        case True
        then show ?thesis using c w body u start
          by (simp add: in_transaction_def andthen_def seq_prog_def exec_command_result)
      next
        case False
        then show ?thesis using c(2) w body u start s(1)
          by (simp add: in_transaction_def andthen_def seq_prog_def exec_command_result rollback_keeps)
      qed
    qed
  qed
qed

end

lemma sql_not_control [simp]: "insert_trip_sql \<notin> set transaction_control" "upsert_fence_sql \<notin> set transaction_control"
  by (simp_all add: insert_trip_sql_def upsert_fence_sql_def transaction_control_def)

lemma sql_differ [simp]: "insert_trip_sql \<noteq> upsert_fence_sql" "upsert_fence_sql \<noteq> insert_trip_sql"
  by (simp_all add: insert_trip_sql_def upsert_fence_sql_def)

subsection \<open>A database in memory\<close>

text \<open>Two tables, rows as the texts of their parameters; a sequence number beyond \<open>bigint\<close> is refused.\<close>

record memory_tables =
  mt_trips :: "string list list"
  mt_fences :: "(string, string list) umap"

record memory_db =
  md_committed :: memory_tables
  md_work :: memory_tables
  md_open :: bool

definition memory_effect :: "string \<Rightarrow> string list \<Rightarrow> memory_tables \<Rightarrow> memory_tables" where
  "memory_effect sql ps t =
     (if sql = insert_trip_sql then
        (if list_ex (\<lambda>row. take 2 row = take 2 ps) (mt_trips t) then t else t\<lparr>mt_trips := mt_trips t @ [ps]\<rparr>)
      else if sql = upsert_fence_sql then t\<lparr>mt_fences := um_put (ps ! 0) ps (mt_fences t)\<rparr> else t)"

definition memory_run :: "memory_db database" where
  "memory_run sql ps d =
     (if sql = ''BEGIN'' then (Pg_command_ok, d\<lparr>md_work := md_committed d, md_open := True\<rparr>)
      else if sql = ''COMMIT'' then (Pg_command_ok, if md_open d then d\<lparr>md_committed := md_work d, md_open := False\<rparr> else d)
      else if sql = ''ROLLBACK'' then (Pg_command_ok, d\<lparr>md_work := md_committed d, md_open := False\<rparr>)
      else if sql = insert_trip_sql \<and> from_chars_i64 (ps ! 1) = None then (Pg_failed ''ERROR: bigint out of range'', d)
      else if md_open d then (Pg_command_ok, d\<lparr>md_work := memory_effect sql ps (md_work d)\<rparr>)
      else (Pg_command_ok, d\<lparr>md_committed := memory_effect sql ps (md_committed d)\<rparr>))"

interpretation memory_db: transactional memory_run md_committed md_work md_open memory_effect
  by unfold_locales (auto simp: memory_run_def transaction_control_def split: if_splits)

definition new_memory_db :: memory_db where
  "new_memory_db = \<lparr>md_committed = \<lparr>mt_trips = [], mt_fences = []\<rparr>, md_work = \<lparr>mt_trips = [], mt_fences = []\<rparr>, md_open = False\<rparr>"

subsection \<open>Properties of the client\<close>

text \<open>C26: Trip points and fences are written whole or not at all: when a batch returns, all of it is
  committed, in order; when it raises, at whatever statement, either nothing of it is, or, if the
  commit itself was answered with an error, possibly all of it, never a part.\<close>

theorem batch_all_or_nothing:
  assumes "transactional run committed work active effect"
  shows "(case remote_batch_insert_trip_points run es d of (res, d') \<Rightarrow>
      (res = Inr () \<longrightarrow> committed d' = fold (\<lambda>e. effect insert_trip_sql (map c_text (trip_params e))) es (committed d)) \<and>
      committed d' \<in> {committed d, fold (\<lambda>e. effect insert_trip_sql (map c_text (trip_params e))) es (committed d)}) \<and>
    (case remote_set_active_fences run fs d of (res, d') \<Rightarrow>
      (res = Inr () \<longrightarrow> committed d' = fold (\<lambda>f. effect upsert_fence_sql (map c_text (fence_params f))) fs (committed d)) \<and>
      committed d' \<in> {committed d, fold (\<lambda>f. effect upsert_fence_sql (map c_text (fence_params f))) fs (committed d)})"
proof
  show "case remote_batch_insert_trip_points run es d of (res, d') \<Rightarrow>
      (res = Inr () \<longrightarrow> committed d' = fold (\<lambda>e. effect insert_trip_sql (map c_text (trip_params e))) es (committed d)) \<and>
      committed d' \<in> {committed d, fold (\<lambda>e. effect insert_trip_sql (map c_text (trip_params e))) es (committed d)}"
    using transactional.all_or_nothing [OF assms sql_not_control(1),
      where name = "''trip point insert''" and f = trip_params and operation = "''insert trip point''" and xs = es and d = d]
    by (simp add: remote_batch_insert_trip_points_def remote_insert_trip_point_def [abs_def])
  show "case remote_set_active_fences run fs d of (res, d') \<Rightarrow>
      (res = Inr () \<longrightarrow> committed d' = fold (\<lambda>f. effect upsert_fence_sql (map c_text (fence_params f))) fs (committed d)) \<and>
      committed d' \<in> {committed d, fold (\<lambda>f. effect upsert_fence_sql (map c_text (fence_params f))) fs (committed d)}"
    using transactional.all_or_nothing [OF assms sql_not_control(2),
      where name = "''fence upsert''" and f = fence_params and operation = "''upsert geofence rule''" and xs = fs and d = d]
    by (simp add: remote_set_active_fences_def remote_upsert_fence_def [abs_def])
qed

text \<open>Two points, the second with a sequence number that no \<open>bigint\<close> holds: the batch raises, and
  the first is not kept.\<close>

definition good_point :: location_event where
  "good_point = location_event_default\<lparr>le_device_id := ''d'', le_seq := 1\<rparr>"

definition bad_point :: location_event where
  "bad_point = location_event_default\<lparr>le_device_id := ''d'', le_seq := - 1\<rparr>"

theorem batch_all_or_nothing_witness:
  "(case remote_batch_insert_trip_points memory_run [good_point, bad_point] new_memory_db of (res, d') \<Rightarrow>
      (res = Inr () \<longrightarrow> md_committed d' =
        fold (\<lambda>e. memory_effect insert_trip_sql (map c_text (trip_params e))) [good_point, bad_point] (md_committed new_memory_db)) \<and>
      md_committed d' \<in> {md_committed new_memory_db,
        fold (\<lambda>e. memory_effect insert_trip_sql (map c_text (trip_params e))) [good_point, bad_point] (md_committed new_memory_db)}) \<and>
    (case remote_set_active_fences memory_run [geofence_rule_default] new_memory_db of (res, d') \<Rightarrow>
      (res = Inr () \<longrightarrow> md_committed d' =
        fold (\<lambda>f. memory_effect upsert_fence_sql (map c_text (fence_params f))) [geofence_rule_default] (md_committed new_memory_db)) \<and>
      md_committed d' \<in> {md_committed new_memory_db,
        fold (\<lambda>f. memory_effect upsert_fence_sql (map c_text (fence_params f))) [geofence_rule_default] (md_committed new_memory_db)})"
  by (rule batch_all_or_nothing [OF memory_db.transactional_axioms])

text \<open>C30: What a fence's columns hold reads back: the cells exactly, in order of their identifiers; the
  vertices without the closing one, each coordinate to six digits.\<close>

theorem fence_columns_roundtrip:
  assumes "\<forall>v \<in> set (gr_polygon_vertices f). printable (fst v) \<and> printable (snd v)"
  shows "parse_h3_cells (fence_params f ! 3) = sort_key sint (gr_h3_cells f) \<and>
    length (parse_polygon_wkt (fence_params f ! 2)) = length (open_ring (gr_polygon_vertices f)) \<and>
    list_all2 (\<lambda>v w. six_digits_of (fst v) (fst w) \<and> six_digits_of (snd v) (snd w))
      (open_ring (gr_polygon_vertices f)) (parse_polygon_wkt (fence_params f ! 2))"
proof -
  have "\<forall>v \<in> set (open_ring (gr_polygon_vertices f)). printable (fst v) \<and> printable (snd v)"
    using assms by (auto simp: open_ring_def dest: in_set_butlastD)
  then show ?thesis using assms
    by (simp add: fence_params_def cells_roundtrip polygon_roundtrip list_all2_map2 list_all2_same six_vertex_def six_digits)
qed

theorem fence_columns_roundtrip_witness:
  "parse_h3_cells (fence_params (geofence_rule_default\<lparr>gr_polygon_vertices :=
      [(Fin 1, Fin 2), (Fin 1, Fin 3), (Fin 2, Fin 3), (Fin 1, Fin 2)], gr_h3_cells := [7, 5]\<rparr>) ! 3) = sort_key sint [7, 5] \<and>
    length (parse_polygon_wkt (fence_params (geofence_rule_default\<lparr>gr_polygon_vertices :=
      [(Fin 1, Fin 2), (Fin 1, Fin 3), (Fin 2, Fin 3), (Fin 1, Fin 2)], gr_h3_cells := [7, 5]\<rparr>) ! 2)) =
      length (open_ring [(Fin 1, Fin 2), (Fin 1, Fin 3), (Fin 2, Fin 3), (Fin 1, Fin 2)]) \<and>
    list_all2 (\<lambda>v w. six_digits_of (fst v) (fst w) \<and> six_digits_of (snd v) (snd w))
      (open_ring [(Fin 1, Fin 2), (Fin 1, Fin 3), (Fin 2, Fin 3), (Fin 1, Fin 2)])
      (parse_polygon_wkt (fence_params (geofence_rule_default\<lparr>gr_polygon_vertices :=
      [(Fin 1, Fin 2), (Fin 1, Fin 3), (Fin 2, Fin 3), (Fin 1, Fin 2)], gr_h3_cells := [7, 5]\<rparr>) ! 2))"
  using fence_columns_roundtrip [of "geofence_rule_default\<lparr>gr_polygon_vertices :=
      [(Fin 1, Fin 2), (Fin 1, Fin 3), (Fin 2, Fin 3), (Fin 1, Fin 2)], gr_h3_cells := [7, 5]\<rparr>"]
  by (simp add: printable_def)

text \<open>Upserting leaves the fences that are not named as they are, where the in-memory build replaces
  the whole set.\<close>

lemma upsert_keeps_other_fences:
  "map_of (mt_fences (memory_effect upsert_fence_sql ps t)) k = (if k = ps ! 0 then Some ps else map_of (mt_fences t) k)"
  by (simp add: memory_effect_def)

end
