(* ===== verification/Kafka_Remote.thy ===== *)
theory Kafka_Remote
  imports World "HOL-Library.Multiset"
begin

text \<open>
  The branches of \<open>common/kafka/\<close> for a build with librdkafka: configuration, production with
  delivery callbacks, polling, commits and lag. The library is a parameter, a record of the
  functions the code calls; each takes the state of the client and the cluster and answers with
  an error code and the next state.

  A callback given to \<open>produce\<close> is a number; the callbacks the library holds and those that were
  called are kept in lists. The locale \<open>delivering\<close> states what the producer relies on: a message
  that was accepted is reported at most once. From it follows that no callback is called twice
  and none is lost. The lemmas on the consumer say what is committed and what the lag is.
\<close>

subsection \<open>The library\<close>

datatype rk_error = Rk_ok | Rk_timed_out | Rk_error string

fun error_text :: "rk_error \<Rightarrow> string" where
  "error_text Rk_ok = ''Success''"
| "error_text Rk_timed_out = ''Local: Timed out''"
| "error_text (Rk_error msg) = msg"

record rk_message =
  rkm_err :: rk_error
  rkm_topic :: string
  rkm_partition :: int
  rkm_offset :: int
  rkm_key :: "string option"
  rkm_payload :: "string option"
  rkm_timestamp :: int

type_synonym settings = "(string \<times> string) list"

record 'k rk_lib =
  rk_conf_create :: bool
  rk_conf_set :: "string \<Rightarrow> string \<Rightarrow> string option"
  rk_producer_create :: "settings \<Rightarrow> string option"
  rk_consumer_create :: "settings \<Rightarrow> string option"
  rk_subscribe :: "string list \<Rightarrow> 'k \<Rightarrow> rk_error \<times> 'k"
  rk_produce :: "string \<Rightarrow> string \<Rightarrow> string \<Rightarrow> nat option \<Rightarrow> 'k \<Rightarrow> rk_error \<times> 'k"
  rk_poll :: "int \<Rightarrow> 'k \<Rightarrow> int \<times> (nat option \<times> rk_error) list \<times> 'k"
  rk_flush :: "int \<Rightarrow> 'k \<Rightarrow> (nat option \<times> rk_error) list \<times> 'k"
  rk_consume :: "int \<Rightarrow> 'k \<Rightarrow> rk_message option \<times> 'k"
  rk_commit_sync :: "(string \<times> int \<times> int) list \<Rightarrow> 'k \<Rightarrow> rk_error \<times> 'k"
  rk_assignment :: "'k \<Rightarrow> rk_error \<times> (string \<times> int) list"
  rk_committed :: "(string \<times> int) list \<Rightarrow> 'k \<Rightarrow> rk_error \<times> (string \<times> int \<times> int) list"
  rk_watermarks :: "string \<Rightarrow> int \<Rightarrow> 'k \<Rightarrow> rk_error \<times> int \<times> int"

subsection \<open>Configuration\<close>

definition set_required :: "('k, 'z) rk_lib_scheme \<Rightarrow> string \<Rightarrow> string \<Rightarrow> string \<Rightarrow> settings \<Rightarrow> settings exc" where
  "set_required lib who key val conf = (case rk_conf_set lib key val of
     None \<Rightarrow> Inr (conf @ [(key, val)])
   | Some err \<Rightarrow> Inl (''Kafka '' @ who @ '' config failed for '' @ key @ '': '' @ err))"

definition set_if_supported :: "('k, 'z) rk_lib_scheme \<Rightarrow> string \<Rightarrow> string \<Rightarrow> settings \<Rightarrow> settings" where
  "set_if_supported lib key val conf = (case rk_conf_set lib key val of None \<Rightarrow> conf @ [(key, val)] | Some err \<Rightarrow> conf)"

definition flush_timeout_ms :: "int \<Rightarrow> int" where
  "flush_timeout_ms timeout_ms = (if timeout_ms = 0 then - 1 else max 0 timeout_ms)"

subsection \<open>The producer\<close>

record 'k remote_producer =
  kp_connected :: bool
  kp_pending :: "nat list"
  kp_calls :: "(nat \<times> bool \<times> string) list"
  kp_cluster :: 'k

text \<open>The value of \<open>dr_cb\<close> is the callback object, named by its class here.\<close>

definition producer_settings :: "('k, 'z) rk_lib_scheme \<Rightarrow> kafka_config \<Rightarrow> settings exc" where
  "producer_settings lib c =
     bind_exc (set_required lib ''producer'' ''metadata.broker.list'' (kc_brokers c) []) (\<lambda>s1.
     bind_exc (set_required lib ''producer'' ''dr_cb'' ''ProducerDeliveryCallback'' s1) (\<lambda>s2.
       Inr (set_if_supported lib ''batch.size'' (show_int (kc_batch_size_bytes c))
         (set_if_supported lib ''queue.buffering.max.ms'' (show_int (kc_linger_ms c))
         (set_if_supported lib ''compression.type'' ''lz4'' (set_if_supported lib ''acks'' ''all'' s2))))))"

definition remote_producer :: "('k, 'z) rk_lib_scheme \<Rightarrow> kafka_config \<Rightarrow> 'k \<Rightarrow> 'k remote_producer exc" where
  "remote_producer lib c k =
     (if \<not> rk_conf_create lib then Inl ''failed to create Kafka producer config''
      else bind_exc (producer_settings lib c) (\<lambda>conf. case rk_producer_create lib conf of
          Some err \<Rightarrow> Inl (''failed to create Kafka producer: '' @ err)
        | None \<Rightarrow> Inr \<lparr>kp_connected = True, kp_pending = [], kp_calls = [], kp_cluster = k\<rparr>))"

definition call_back :: "nat option \<Rightarrow> bool \<Rightarrow> string \<Rightarrow> 'k remote_producer \<Rightarrow> 'k remote_producer" where
  "call_back cb ok msg p = (case cb of None \<Rightarrow> p | Some i \<Rightarrow> p\<lparr>kp_calls := kp_calls p @ [(i, ok, msg)]\<rparr>)"

text \<open>\<open>dr_cb\<close>: the pending delivery is taken from the message, called and freed.\<close>

definition dr_cb :: "nat option \<times> rk_error \<Rightarrow> 'k remote_producer \<Rightarrow> 'k remote_producer" where
  "dr_cb report p = (case report of (None, err) \<Rightarrow> p
     | (Some i, err) \<Rightarrow> call_back (Some i) (err = Rk_ok) (if err = Rk_ok then [] else error_text err)
         (p\<lparr>kp_pending := remove1 i (kp_pending p)\<rparr>))"

definition remote_produce :: "('k, 'z) rk_lib_scheme \<Rightarrow> string \<Rightarrow> string \<Rightarrow> string \<Rightarrow> nat option \<Rightarrow> ('k remote_producer, unit) prog" where
  "remote_produce lib topic key payload cb p =
     (if topic = [] then (Inl ''Kafka topic must not be empty'', call_back cb False ''topic must not be empty'' p)
      else case rk_produce lib topic payload key cb (kp_cluster p) of (err, k) \<Rightarrow>
        if err \<noteq> Rk_ok then (Inl (''Kafka produce failed: '' @ error_text err),
            call_back cb False (error_text err) (p\<lparr>kp_cluster := k\<rparr>))
        else (Inr (), p\<lparr>kp_pending := kp_pending p @ (case cb of None \<Rightarrow> [] | Some i \<Rightarrow> [i]), kp_cluster := k\<rparr>))"

definition remote_flush :: "('k, 'z) rk_lib_scheme \<Rightarrow> int \<Rightarrow> 'k remote_producer \<Rightarrow> 'k remote_producer" where
  "remote_flush lib timeout_ms p =
     (if \<not> kp_connected p then p
      else case rk_flush lib (flush_timeout_ms timeout_ms) (kp_cluster p) of (reports, k) \<Rightarrow>
        fold dr_cb reports (p\<lparr>kp_cluster := k\<rparr>))"

definition remote_producer_poll :: "('k, 'z) rk_lib_scheme \<Rightarrow> int \<Rightarrow> 'k remote_producer \<Rightarrow> int \<times> 'k remote_producer" where
  "remote_producer_poll lib timeout_ms p =
     (if \<not> kp_connected p then (0, p)
      else case rk_poll lib (if timeout_ms < 0 then 0 else timeout_ms) (kp_cluster p) of (n, reports, k) \<Rightarrow>
        (n, fold dr_cb reports (p\<lparr>kp_cluster := k\<rparr>)))"

definition destroy_producer :: "('k, 'z) rk_lib_scheme \<Rightarrow> 'k remote_producer \<Rightarrow> 'k remote_producer" where
  "destroy_producer lib p = remote_flush lib 5000 p"

subsection \<open>The consumer\<close>

record 'k remote_consumer =
  kr_connected :: bool
  kr_topics :: "string list"
  kr_last_polled :: "kafka_message option"
  kr_cluster :: 'k

definition consumer_settings :: "('k, 'z) rk_lib_scheme \<Rightarrow> kafka_config \<Rightarrow> settings exc" where
  "consumer_settings lib c =
     bind_exc (set_required lib ''consumer'' ''metadata.broker.list'' (kc_brokers c) []) (\<lambda>s1.
     bind_exc (set_required lib ''consumer'' ''group.id'' (kc_consumer_group c) s1) (\<lambda>s2.
     bind_exc (set_required lib ''consumer'' ''enable.auto.commit'' ''false'' s2) (\<lambda>s3.
       Inr (set_if_supported lib ''enable.partition.eof'' ''false''
         (set_if_supported lib ''auto.offset.reset'' ''earliest'' s3)))))"

definition remote_consumer :: "('k, 'z) rk_lib_scheme \<Rightarrow> kafka_config \<Rightarrow> string list \<Rightarrow> 'k \<Rightarrow> 'k remote_consumer exc" where
  "remote_consumer lib c topics k =
     (if \<not> rk_conf_create lib then Inl ''failed to create Kafka consumer config''
      else bind_exc (consumer_settings lib c) (\<lambda>conf. case rk_consumer_create lib conf of
          Some err \<Rightarrow> Inl (''failed to create Kafka consumer: '' @ err)
        | None \<Rightarrow> (case rk_subscribe lib topics k of (err, k') \<Rightarrow>
            if err \<noteq> Rk_ok then Inl (''Kafka subscribe failed: '' @ error_text err)
            else Inr \<lparr>kr_connected = True, kr_topics = topics, kr_last_polled = None, kr_cluster = k'\<rparr>)))"

definition message_of :: "rk_message \<Rightarrow> kafka_message" where
  "message_of m = \<lparr>km_topic = rkm_topic m, km_partition = rkm_partition m, km_offset = rkm_offset m,
     km_key = (case rkm_key m of None \<Rightarrow> [] | Some key \<Rightarrow> key),
     km_payload = (case rkm_payload m of None \<Rightarrow> [] | Some payload \<Rightarrow> payload),
     km_timestamp_ms = rkm_timestamp m\<rparr>"

definition remote_poll :: "('k, 'z) rk_lib_scheme \<Rightarrow> int \<Rightarrow> ('k remote_consumer, kafka_message option) prog" where
  "remote_poll lib timeout_ms c =
     (if \<not> kr_connected c then (Inr None, c)
      else case rk_consume lib (if timeout_ms < 0 then 0 else timeout_ms) (kr_cluster c) of
          (None, k) \<Rightarrow> (Inr None, c\<lparr>kr_cluster := k\<rparr>)
        | (Some m, k) \<Rightarrow>
            if rkm_err m = Rk_timed_out then (Inr None, c\<lparr>kr_cluster := k\<rparr>)
            else if rkm_err m \<noteq> Rk_ok then (Inl (''Kafka consume failed: '' @ error_text (rkm_err m)), c\<lparr>kr_cluster := k\<rparr>)
            else (Inr (Some (message_of m)), c\<lparr>kr_last_polled := Some (message_of m), kr_cluster := k\<rparr>))"

definition remote_commit_message :: "('k, 'z) rk_lib_scheme \<Rightarrow> kafka_message \<Rightarrow> ('k remote_consumer, unit) prog" where
  "remote_commit_message lib m c =
     (if \<not> kr_connected c then (Inr (), c)
      else case rk_commit_sync lib [(km_topic m, km_partition m, km_offset m + 1)] (kr_cluster c) of (err, k) \<Rightarrow>
        if err \<noteq> Rk_ok then (Inl (''Kafka commit failed: '' @ error_text err), c\<lparr>kr_cluster := k\<rparr>)
        else (Inr (), c\<lparr>kr_cluster := k\<rparr>))"

definition remote_commit :: "('k, 'z) rk_lib_scheme \<Rightarrow> ('k remote_consumer, unit) prog" where
  "remote_commit lib c = (case kr_last_polled c of None \<Rightarrow> (Inr (), c) | Some m \<Rightarrow> remote_commit_message lib m c)"

text \<open>\<open>poll_loop\<close> for the rounds until the flag is set; the handler has a state of its own.\<close>

fun remote_poll_loop :: "nat \<Rightarrow> ('k, 'z) rk_lib_scheme \<Rightarrow> (kafka_message \<Rightarrow> 'h \<Rightarrow> bool \<times> 'h) \<Rightarrow> 'h \<Rightarrow>
    ('k remote_consumer, 'h) prog" where
  "remote_poll_loop 0 lib handler h = ret h"
| "remote_poll_loop (Suc n) lib handler h = seq_prog (remote_poll lib 10) (\<lambda>polled. case polled of
     None \<Rightarrow> remote_poll_loop n lib handler h
   | Some m \<Rightarrow> (case handler m h of (ok, h') \<Rightarrow>
       andthen (if ok then remote_commit_message lib m else skip) (remote_poll_loop n lib handler h')))"

definition partition_lag :: "('k, 'z) rk_lib_scheme \<Rightarrow> 'k \<Rightarrow> string \<times> int \<times> int \<Rightarrow> int \<times> int" where
  "partition_lag lib k part = (case part of (topic, p, offset) \<Rightarrow>
     (case rk_watermarks lib topic p k of (err, low, high) \<Rightarrow>
       if err \<noteq> Rk_ok then (p, 0) else (p, max 0 (high - (if offset < 0 then low else offset)))))"

definition remote_get_lag :: "('k, 'z) rk_lib_scheme \<Rightarrow> 'k remote_consumer \<Rightarrow> (int \<times> int) list" where
  "remote_get_lag lib c =
     (if \<not> kr_connected c then []
      else case rk_assignment lib (kr_cluster c) of (err, partitions) \<Rightarrow>
        if err \<noteq> Rk_ok \<or> partitions = [] then map (\<lambda>_. (0, 0)) (kr_topics c)
        else case rk_committed lib partitions (kr_cluster c) of (err2, offsets) \<Rightarrow>
          if err2 \<noteq> Rk_ok then [] else map (partition_lag lib (kr_cluster c)) offsets)"

definition destroy_consumer :: "('k remote_consumer \<Rightarrow> 'k) \<Rightarrow> 'k remote_consumer \<Rightarrow> 'k remote_consumer" where
  "destroy_consumer close_consumer c = (if kr_connected c then c\<lparr>kr_connected := False, kr_cluster := close_consumer c\<rparr> else c)"

subsection \<open>Deliveries\<close>

text \<open>The callbacks still to be called and those called, whose sum only a call of \<open>produce\<close> changes.\<close>

definition accounted :: "'k remote_producer \<Rightarrow> nat multiset" where
  "accounted p = mset (kp_pending p) + mset (map fst (kp_calls p))"

lemma accounted_cluster [simp]: "accounted (p\<lparr>kp_cluster := k\<rparr>) = accounted p"
  by (simp add: accounted_def)

definition in_step :: "('k \<Rightarrow> nat list) \<Rightarrow> 'k remote_producer \<Rightarrow> bool" where
  "in_step outstanding p \<longleftrightarrow> mset (kp_pending p) = mset (outstanding (kp_cluster p))"

text \<open>
  \<open>outstanding\<close> are the callbacks of the messages the library accepted and has not reported. A
  message is reported at most once, by a poll or by a flush.
\<close>

locale delivering =
  fixes lib :: "'k rk_lib" and outstanding :: "'k \<Rightarrow> nat list"
  assumes produce_ok: "rk_produce lib t v key cb k = (Rk_ok, k') \<Longrightarrow>
      mset (outstanding k') = mset (outstanding k) + (case cb of None \<Rightarrow> {#} | Some i \<Rightarrow> {#i#})"
    and produce_failed: "rk_produce lib t v key cb k = (err, k') \<Longrightarrow> err \<noteq> Rk_ok \<Longrightarrow>
      mset (outstanding k') = mset (outstanding k)"
    and poll_reports: "rk_poll lib ms k = (n, reports, k') \<Longrightarrow>
      mset (outstanding k) = mset (outstanding k') + mset (List.map_filter fst reports)"
    and flush_reports: "rk_flush lib ms k = (reports, k') \<Longrightarrow>
      mset (outstanding k) = mset (outstanding k') + mset (List.map_filter fst reports)"
begin

lemma reports_fold:
  assumes "mset (List.map_filter fst reports) \<subseteq># mset (kp_pending p)"
  shows "mset (kp_pending (fold dr_cb reports p)) = mset (kp_pending p) - mset (List.map_filter fst reports)
    \<and> accounted (fold dr_cb reports p) = accounted p \<and> kp_cluster (fold dr_cb reports p) = kp_cluster p"
  using assms
proof (induction reports arbitrary: p)
  case Nil
  then show ?case by (simp add: map_filter_simps)
next
  case (Cons r rs)
  obtain cb err where r: "r = (cb, err)" by (cases r)
  show ?case
  proof (cases cb)
    case None
    then show ?thesis using Cons by (simp add: r dr_cb_def map_filter_simps)
  next
    case (Some i)
    let ?p = "dr_cb r p"
    have sub: "add_mset i (mset (List.map_filter fst rs)) \<subseteq># mset (kp_pending p)"
      using Cons.prems by (simp add: r Some map_filter_simps)
    then have mem: "i \<in># mset (kp_pending p)" by (meson in_diff_count insert_subset_eq_iff mset_subset_eqD union_single_eq_member)
    have p: "mset (kp_pending ?p) = mset (kp_pending p) - {#i#}" "kp_cluster ?p = kp_cluster p"
      "mset (map fst (kp_calls ?p)) = mset (map fst (kp_calls p)) + {#i#}"
      by (simp_all add: r Some dr_cb_def call_back_def)
    have acc: "accounted ?p = accounted p" unfolding accounted_def p using mem by simp
    have "mset (List.map_filter fst rs) \<subseteq># mset (kp_pending ?p)" using sub by (simp add: p insert_subset_eq_iff)
    from Cons.IH [OF this] acc p show ?thesis by (simp add: r Some map_filter_simps)
  qed
qed

text \<open>Polls and flushes call callbacks that were pending, each once; a call of \<open>produce\<close> adds its
  own, pending or already called.\<close>

lemma poll_accounts:
  assumes "in_step outstanding p"
  shows "in_step outstanding (snd (remote_producer_poll lib ms p)) \<and> accounted (snd (remote_producer_poll lib ms p)) = accounted p"
proof (cases "kp_connected p")
  case True
  obtain n reports k where r: "rk_poll lib (if ms < 0 then 0 else ms) (kp_cluster p) = (n, reports, k)"
    by (cases "rk_poll lib (if ms < 0 then 0 else ms) (kp_cluster p)")
  note s = poll_reports [OF r]
  have "mset (List.map_filter fst reports) \<subseteq># mset (kp_pending (p\<lparr>kp_cluster := k\<rparr>))"
    using assms s by (simp add: in_step_def)
  from reports_fold [OF this] show ?thesis using assms s True
    by (simp add: remote_producer_poll_def r in_step_def)
qed (simp add: remote_producer_poll_def assms)

lemma flush_accounts:
  assumes "in_step outstanding p"
  shows "in_step outstanding (remote_flush lib ms p) \<and> accounted (remote_flush lib ms p) = accounted p"
proof (cases "kp_connected p")
  case True
  obtain reports k where r: "rk_flush lib (flush_timeout_ms ms) (kp_cluster p) = (reports, k)"
    by (cases "rk_flush lib (flush_timeout_ms ms) (kp_cluster p)")
  note s = flush_reports [OF r]
  have "mset (List.map_filter fst reports) \<subseteq># mset (kp_pending (p\<lparr>kp_cluster := k\<rparr>))"
    using assms s by (simp add: in_step_def)
  from reports_fold [OF this] show ?thesis using assms s True
    by (simp add: remote_flush_def r in_step_def)
qed (simp add: remote_flush_def assms)

lemma produce_accounts:
  assumes "in_step outstanding p"
  shows "in_step outstanding (snd (remote_produce lib t key v cb p)) \<and>
    accounted (snd (remote_produce lib t key v cb p)) = accounted p + (case cb of None \<Rightarrow> {#} | Some i \<Rightarrow> {#i#})"
proof (cases "t = []")
  case True
  then show ?thesis using assms
    by (simp add: remote_produce_def call_back_def in_step_def accounted_def split: option.splits)
next
  case False
  obtain err k where r: "rk_produce lib t v key cb (kp_cluster p) = (err, k)"
    by (cases "rk_produce lib t v key cb (kp_cluster p)")
  show ?thesis
  proof (cases "err = Rk_ok")
    case True
    then show ?thesis using assms produce_ok [of t v key cb "kp_cluster p" k] r False
      by (simp add: remote_produce_def in_step_def accounted_def split: option.splits)
  next
    case fails: False
    then show ?thesis using assms produce_failed [OF r] r False
      by (simp add: remote_produce_def call_back_def in_step_def accounted_def split: option.splits)
  qed
qed

end

text \<open>A producer's life: calls of \<open>produce\<close>, polls and flushes, in any order.\<close>

datatype producer_call = Do_produce string string string "nat option" | Do_poll int | Do_flush int

fun run_call :: "('k, 'z) rk_lib_scheme \<Rightarrow> producer_call \<Rightarrow> 'k remote_producer \<Rightarrow> 'k remote_producer" where
  "run_call lib (Do_produce t key v cb) p = snd (remote_produce lib t key v cb p)"
| "run_call lib (Do_poll ms) p = snd (remote_producer_poll lib ms p)"
| "run_call lib (Do_flush ms) p = remote_flush lib ms p"

fun given :: "producer_call \<Rightarrow> nat list" where
  "given (Do_produce t key v (Some i)) = [i]"
| "given _ = []"

context delivering
begin

text \<open>Every callback that was given is pending or was called, as often as it was given and no oftener.\<close>

lemma callbacks_accounted:
  assumes "in_step outstanding p"
  shows "in_step outstanding (fold (run_call lib) cs p) \<and>
    accounted (fold (run_call lib) cs p) = accounted p + mset (concat (map given cs))"
  using assms
proof (induction cs arbitrary: p)
  case (Cons c cs)
  have "in_step outstanding (run_call lib c p) \<and>
    accounted (run_call lib c p) = accounted p + mset (given c)"
  proof (cases c)
    case (Do_produce t key v cb)
    then show ?thesis using produce_accounts [OF Cons.prems, of t key v cb] by (cases cb) simp_all
  qed (use poll_accounts [OF Cons.prems] flush_accounts [OF Cons.prems] in simp_all)
  with Cons.IH [of "run_call lib c p"] show ?case by simp
qed simp

end

subsection \<open>A cluster in memory\<close>

record memory_cluster =
  mc_broker :: broker
  mc_outstanding :: "nat list"
  mc_consumer :: consumer

definition memory_kafka :: "memory_cluster rk_lib" where
  "memory_kafka = \<lparr>rk_conf_create = True, rk_conf_set = (\<lambda>key val. None), rk_producer_create = (\<lambda>conf. None),
     rk_consumer_create = (\<lambda>conf. None),
     rk_subscribe = (\<lambda>topics k. (Rk_ok, k\<lparr>mc_consumer := new_consumer topics\<rparr>)),
     rk_produce = (\<lambda>t v key cb k. (Rk_ok, k\<lparr>mc_broker := snd (append_message t key v (mc_broker k)),
       mc_outstanding := mc_outstanding k @ (case cb of None \<Rightarrow> [] | Some i \<Rightarrow> [i])\<rparr>)),
     rk_poll = (\<lambda>ms k. (int (length (mc_outstanding k)), map (\<lambda>i. (Some i, Rk_ok)) (mc_outstanding k), k\<lparr>mc_outstanding := []\<rparr>)),
     rk_flush = (\<lambda>ms k. (map (\<lambda>i. (Some i, Rk_ok)) (mc_outstanding k), k\<lparr>mc_outstanding := []\<rparr>)),
     rk_consume = (\<lambda>ms k. (case poll (mc_broker k) (mc_consumer k) of (m, c) \<Rightarrow>
       (map_option (\<lambda>m. \<lparr>rkm_err = Rk_ok, rkm_topic = km_topic m, rkm_partition = km_partition m, rkm_offset = km_offset m,
          rkm_key = Some (km_key m), rkm_payload = Some (km_payload m), rkm_timestamp = km_timestamp_ms m\<rparr>) m,
        k\<lparr>mc_consumer := c\<rparr>))),
     rk_commit_sync = (\<lambda>ps k. (Rk_ok, k\<lparr>mc_consumer := (mc_consumer k)\<lparr>co_committed_offsets :=
       fold (\<lambda>(t, p, n). um_put (partition_key t p) n) ps (co_committed_offsets (mc_consumer k))\<rparr>\<rparr>)),
     rk_assignment = (\<lambda>k. (Rk_ok, map (\<lambda>t. (t, 0)) (co_topics (mc_consumer k)))),
     rk_committed = (\<lambda>ps k. (Rk_ok, map (\<lambda>(t, p). (t, p, offset_of (co_committed_offsets (mc_consumer k)) (partition_key t p))) ps)),
     rk_watermarks = (\<lambda>t p k. (Rk_ok, 0, topic_size t (mc_broker k)))\<rparr>"

lemma map_filter_reports [simp]: "List.map_filter fst (map (\<lambda>i. (Some i, err)) is) = is"
  by (induction "is") (simp_all add: map_filter_simps)

interpretation memory_kafka: delivering memory_kafka mc_outstanding
  by unfold_locales (auto simp: memory_kafka_def split: option.splits)

text \<open>C19: Over a library that reports every message it accepted at most once: whatever a connected
  producer is asked for, produce calls that succeed, fail or name no topic, polls and flushes, in any
  order, the callbacks that were called and those of the messages the library has not reported yet
  are together exactly the callbacks that were given, each as often as it was given. So none is
  lost, none is called twice, and the deliveries the producer keeps are those still to be reported.\<close>

theorem producer_callbacks:
  assumes "delivering lib outstanding" "remote_producer lib cfg k = Inr p" "outstanding k = []"
    and "p' = fold (run_call lib) cs p"
  shows "mset (map fst (kp_calls p')) + mset (outstanding (kp_cluster p')) = mset (concat (map given cs)) \<and>
    mset (kp_pending p') = mset (outstanding (kp_cluster p'))"
proof -
  have p: "kp_pending p = []" "kp_calls p = []" "kp_cluster p = k"
    using assms(2) by (auto simp: remote_producer_def bind_exc_Inr_iff split: if_splits option.splits)
  then have "in_step outstanding p" "accounted p = {#}" using assms(3) by (simp_all add: in_step_def accounted_def)
  then show ?thesis
    using delivering.callbacks_accounted [OF assms(1), of p cs] unfolding assms(4) [symmetric]
    by (metis in_step_def accounted_def add.commute add.left_neutral)
qed

theorem producer_callbacks_witness:
  "\<exists>p'. mset (map fst (kp_calls p')) + mset (mc_outstanding (kp_cluster p')) = {#1, 2, 3#} \<and>
     p' = fold (run_call memory_kafka) [Do_produce ''t'' ''k'' ''v'' (Some 1), Do_flush 0,
       Do_produce [] ''k'' ''v'' (Some 2), Do_produce ''t'' ''k'' ''v'' (Some 3)]
       \<lparr>kp_connected = True, kp_pending = [], kp_calls = [],
        kp_cluster = \<lparr>mc_broker = [], mc_outstanding = [], mc_consumer = new_consumer []\<rparr>\<rparr>"
proof -
  let ?k = "\<lparr>mc_broker = [], mc_outstanding = [], mc_consumer = new_consumer []\<rparr>"
  let ?cs = "[Do_produce ''t'' ''k'' ''v'' (Some 1), Do_flush 0, Do_produce [] ''k'' ''v'' (Some 2),
    Do_produce ''t'' ''k'' ''v'' (Some 3)]"
  have "remote_producer memory_kafka kafka_config_default ?k =
      Inr \<lparr>kp_connected = True, kp_pending = [], kp_calls = [], kp_cluster = ?k\<rparr>"
    by (simp add: remote_producer_def producer_settings_def set_required_def memory_kafka_def)
  moreover have "mc_outstanding ?k = []" by simp
  ultimately have "mset (map fst (kp_calls p')) + mset (mc_outstanding (kp_cluster p')) = mset (concat (map given ?cs))"
    if "p' = fold (run_call memory_kafka) ?cs \<lparr>kp_connected = True, kp_pending = [], kp_calls = [], kp_cluster = ?k\<rparr>" for p'
    using producer_callbacks [OF memory_kafka.delivering_axioms] that by blast
  then show ?thesis by auto
qed

text \<open>Against this cluster the client of one build is the client of the other.\<close>

lemma remote_poll_memory:
  assumes "kr_connected c" "poll (mc_broker (kr_cluster c)) (mc_consumer (kr_cluster c)) = (m, c')"
  shows "fst (remote_poll memory_kafka ms c) = Inr m"
    "mc_consumer (kr_cluster (snd (remote_poll memory_kafka ms c))) = c'"
    "m \<noteq> None \<Longrightarrow> kr_last_polled (snd (remote_poll memory_kafka ms c)) = m"
  using assms by (auto simp: remote_poll_def memory_kafka_def message_of_def split: option.splits)

lemma remote_lag_memory:
  assumes "kr_connected c" "co_topics (mc_consumer (kr_cluster c)) = kr_topics c"
    and "\<forall>t \<in> set (kr_topics c). 0 \<le> offset_of (co_committed_offsets (mc_consumer (kr_cluster c))) (partition_key t 0)"
  shows "remote_get_lag memory_kafka c = get_lag (mc_broker (kr_cluster c)) (mc_consumer (kr_cluster c))"
  using assms by (auto simp: remote_get_lag_def get_lag_def partition_lag_def memory_kafka_def)

lemma lag_nonneg: "(p, n) \<in> set (remote_get_lag lib c) \<Longrightarrow> 0 \<le> n"
  by (auto simp: remote_get_lag_def partition_lag_def split: prod.splits if_splits)

end
