(* ===== verification/Generated.thy ===== *)
theory Generated
  imports Wire
begin

text \<open>
  The messages of \<open>proto/signalroute/\<close> as the classes generated from them are used, and the
  conversions of \<open>common/proto/generated_conversions.cpp\<close> between them and the domain types. A
  message is the record of its fields. A field of an enumeration of proto3 holds any 32-bit
  integer, also one without a name, so it is an \<open>int\<close> with the named values as constants. A map
  field is a map, its iteration order that of the list. The lemmas give the round trips and what
  a value without a name becomes.
\<close>

subsection \<open>Messages\<close>

record pb_location_event =
  pl_device_id :: string
  pl_lat :: double
  pl_lon :: double
  pl_altitude_m :: double
  pl_accuracy_m :: double
  pl_speed_ms :: double
  pl_heading_deg :: double
  pl_timestamp_ms :: int
  pl_server_recv_ms :: int
  pl_seq :: u64
  pl_metadata :: "(string, string) umap"

definition pb_location_event_default :: pb_location_event where
  "pb_location_event_default = \<lparr>pl_device_id = [], pl_lat = Fin 0, pl_lon = Fin 0, pl_altitude_m = Fin 0,
     pl_accuracy_m = Fin 0, pl_speed_ms = Fin 0, pl_heading_deg = Fin 0, pl_timestamp_ms = 0,
     pl_server_recv_ms = 0, pl_seq = 0, pl_metadata = []\<rparr>"

record pb_device_state =
  ps_device_id :: string
  ps_lat :: double
  ps_lon :: double
  ps_altitude_m :: double
  ps_accuracy_m :: double
  ps_speed_ms :: double
  ps_heading_deg :: double
  ps_h3_cell :: cell
  ps_seq :: u64
  ps_updated_at :: int

definition pb_device_state_default :: pb_device_state where
  "pb_device_state_default = \<lparr>ps_device_id = [], ps_lat = Fin 0, ps_lon = Fin 0, ps_altitude_m = Fin 0,
     ps_accuracy_m = Fin 0, ps_speed_ms = Fin 0, ps_heading_deg = Fin 0, ps_h3_cell = 0, ps_seq = 0, ps_updated_at = 0\<rparr>"

definition pb_GEOFENCE_ENTER :: int where "pb_GEOFENCE_ENTER = 0"
definition pb_GEOFENCE_EXIT :: int where "pb_GEOFENCE_EXIT = 1"
definition pb_GEOFENCE_DWELL :: int where "pb_GEOFENCE_DWELL = 2"

record pb_geofence_event =
  pg_device_id :: string
  pg_fence_id :: string
  pg_fence_name :: string
  pg_event_type :: int
  pg_lat :: double
  pg_lon :: double
  pg_event_ts_ms :: int
  pg_inside_duration_s :: int

record pb_match_request =
  pq_request_id :: string
  pq_requester_id :: string
  pq_lat :: double
  pq_lon :: double
  pq_radius_m :: double
  pq_max_agents :: int
  pq_deadline_ms :: int
  pq_strategy :: string
  pq_metadata :: "(string, string) umap"

definition pb_MATCH_SUCCESS :: int where "pb_MATCH_SUCCESS = 0"
definition pb_MATCH_NO_CANDIDATES :: int where "pb_MATCH_NO_CANDIDATES = 1"
definition pb_MATCH_FAILED :: int where "pb_MATCH_FAILED = 2"
definition pb_MATCH_EXPIRED :: int where "pb_MATCH_EXPIRED = 3"

record pb_match_result =
  pr_request_id :: string
  pr_requester_id :: string
  pr_status :: int
  pr_assigned_agent_ids :: "string list"
  pr_latency_ms :: int
  pr_strategy :: string
  pr_failure_reason :: string

lemmas pb_enums = pb_GEOFENCE_ENTER_def pb_GEOFENCE_EXIT_def pb_GEOFENCE_DWELL_def
  pb_MATCH_SUCCESS_def pb_MATCH_NO_CANDIDATES_def pb_MATCH_FAILED_def pb_MATCH_EXPIRED_def

subsection \<open>Conversions\<close>

fun to_generated_type :: "geofence_event_type_message \<Rightarrow> int" where
  "to_generated_type GEOFENCE_ENTER = pb_GEOFENCE_ENTER"
| "to_generated_type GEOFENCE_EXIT = pb_GEOFENCE_EXIT"
| "to_generated_type GEOFENCE_DWELL = pb_GEOFENCE_DWELL"

definition from_generated_type :: "int \<Rightarrow> geofence_event_type_message" where
  "from_generated_type t =
     (if t = pb_GEOFENCE_ENTER then GEOFENCE_ENTER
      else if t = pb_GEOFENCE_EXIT then GEOFENCE_EXIT
      else if t = pb_GEOFENCE_DWELL then GEOFENCE_DWELL
      else GEOFENCE_ENTER)"

fun to_generated_status :: "match_status_message \<Rightarrow> int" where
  "to_generated_status MATCH_SUCCESS = pb_MATCH_SUCCESS"
| "to_generated_status MATCH_NO_CANDIDATES = pb_MATCH_NO_CANDIDATES"
| "to_generated_status MATCH_FAILED = pb_MATCH_FAILED"
| "to_generated_status MATCH_EXPIRED = pb_MATCH_EXPIRED"

definition from_generated_status :: "int \<Rightarrow> match_status_message" where
  "from_generated_status t =
     (if t = pb_MATCH_SUCCESS then MATCH_SUCCESS
      else if t = pb_MATCH_NO_CANDIDATES then MATCH_NO_CANDIDATES
      else if t = pb_MATCH_FAILED then MATCH_FAILED
      else if t = pb_MATCH_EXPIRED then MATCH_EXPIRED
      else MATCH_FAILED)"

text \<open>The loop that copies a map field entry by entry into an empty one.\<close>

definition copy_metadata :: "(string, string) umap \<Rightarrow> (string, string) umap" where
  "copy_metadata m = fold (\<lambda>(k, v). um_put k v) m []"

definition to_generated_location_event :: "location_event \<Rightarrow> pb_location_event" where
  "to_generated_location_event e = (let w = to_wire_location e in
     \<lparr>pl_device_id = lm_device_id w, pl_lat = lm_lat w, pl_lon = lm_lon w, pl_altitude_m = lm_altitude_m w,
      pl_accuracy_m = lm_accuracy_m w, pl_speed_ms = lm_speed_ms w, pl_heading_deg = lm_heading_deg w,
      pl_timestamp_ms = lm_timestamp_ms w, pl_server_recv_ms = lm_server_recv_ms w, pl_seq = lm_seq w,
      pl_metadata = copy_metadata (lm_metadata w)\<rparr>)"

definition location_event_from_generated :: "pb_location_event \<Rightarrow> (location_event, string) result" where
  "location_event_from_generated m = location_event_from_wire
     \<lparr>lm_device_id = pl_device_id m, lm_lat = pl_lat m, lm_lon = pl_lon m, lm_altitude_m = pl_altitude_m m,
      lm_accuracy_m = pl_accuracy_m m, lm_speed_ms = pl_speed_ms m, lm_heading_deg = pl_heading_deg m,
      lm_timestamp_ms = pl_timestamp_ms m, lm_server_recv_ms = pl_server_recv_ms m, lm_seq = pl_seq m,
      lm_metadata = copy_metadata (pl_metadata m)\<rparr>"

definition to_generated_device_state_response :: "device_state \<Rightarrow> pb_device_state" where
  "to_generated_device_state_response s = (let w = to_wire_state s in
     \<lparr>ps_device_id = dm_device_id w, ps_lat = dm_lat w, ps_lon = dm_lon w, ps_altitude_m = dm_altitude_m w,
      ps_accuracy_m = dm_accuracy_m w, ps_speed_ms = dm_speed_ms w, ps_heading_deg = dm_heading_deg w,
      ps_h3_cell = dm_h3_cell w, ps_seq = dm_seq w, ps_updated_at = dm_updated_at w\<rparr>)"

definition to_generated_geofence_event :: "geofence_event_record \<Rightarrow> pb_geofence_event" where
  "to_generated_geofence_event e = (let w = to_wire_geofence e in
     \<lparr>pg_device_id = gm_device_id w, pg_fence_id = gm_fence_id w, pg_fence_name = gm_fence_name w,
      pg_event_type = to_generated_type (gm_event_type w), pg_lat = gm_lat w, pg_lon = gm_lon w,
      pg_event_ts_ms = gm_event_ts_ms w, pg_inside_duration_s = gm_inside_duration_s w\<rparr>)"

definition geofence_event_from_generated :: "pb_geofence_event \<Rightarrow> (geofence_event_record, string) result" where
  "geofence_event_from_generated m = geofence_event_from_wire
     \<lparr>gm_device_id = pg_device_id m, gm_fence_id = pg_fence_id m, gm_fence_name = pg_fence_name m,
      gm_event_type = from_generated_type (pg_event_type m), gm_lat = pg_lat m, gm_lon = pg_lon m,
      gm_event_ts_ms = pg_event_ts_ms m, gm_inside_duration_s = pg_inside_duration_s m\<rparr>"

definition to_generated_match_request :: "match_request \<Rightarrow> pb_match_request" where
  "to_generated_match_request r = (let w = to_wire_match_request r in
     \<lparr>pq_request_id = qm_request_id w, pq_requester_id = qm_requester_id w, pq_lat = qm_lat w, pq_lon = qm_lon w,
      pq_radius_m = qm_radius_m w, pq_max_agents = qm_max_agents w, pq_deadline_ms = qm_deadline_ms w,
      pq_strategy = qm_strategy w, pq_metadata = copy_metadata (qm_metadata w)\<rparr>)"

definition match_request_from_generated :: "pb_match_request \<Rightarrow> (match_request, string) result" where
  "match_request_from_generated m = match_request_from_wire
     \<lparr>qm_request_id = pq_request_id m, qm_requester_id = pq_requester_id m, qm_lat = pq_lat m, qm_lon = pq_lon m,
      qm_radius_m = pq_radius_m m, qm_max_agents = pq_max_agents m, qm_deadline_ms = pq_deadline_ms m,
      qm_strategy = pq_strategy m, qm_metadata = copy_metadata (pq_metadata m)\<rparr>"

definition to_generated_match_result :: "match_result \<Rightarrow> string \<Rightarrow> string \<Rightarrow> pb_match_result" where
  "to_generated_match_result r requester_id strategy = (let w = to_wire_match_result r requester_id strategy in
     \<lparr>pr_request_id = rm_request_id w, pr_requester_id = rm_requester_id w, pr_status = to_generated_status (rm_status w),
      pr_assigned_agent_ids = rm_assigned_agent_ids w, pr_latency_ms = rm_latency_ms w, pr_strategy = rm_strategy w,
      pr_failure_reason = rm_failure_reason w\<rparr>)"

definition match_result_from_generated :: "pb_match_result \<Rightarrow> (match_result, string) result" where
  "match_result_from_generated m = match_result_from_wire
     \<lparr>rm_request_id = pr_request_id m, rm_requester_id = pr_requester_id m, rm_status = from_generated_status (pr_status m),
      rm_assigned_agent_ids = pr_assigned_agent_ids m, rm_latency_ms = pr_latency_ms m, rm_strategy = pr_strategy m,
      rm_failure_reason = pr_failure_reason m\<rparr>"

subsection \<open>Round trips\<close>

lemma from_generated_type_inverse [simp]: "from_generated_type (to_generated_type t) = t"
  by (cases t) (simp_all add: from_generated_type_def pb_enums)

lemma from_generated_status_inverse [simp]: "from_generated_status (to_generated_status s) = s"
  by (cases s) (simp_all add: from_generated_status_def pb_enums)

lemma um_put_new: "k \<notin> fst ` set m \<Longrightarrow> um_put k v m = m @ [(k, v)]"
  unfolding um_put_def by (induction m) auto

text \<open>The copy of a map is that map, in the order of the iteration.\<close>

lemma copy_metadata_append:
  assumes "um_ok (acc @ m)"
  shows "fold (\<lambda>(k, v). um_put k v) m acc = acc @ m"
  using assms
proof (induction m arbitrary: acc)
  case (Cons p m)
  obtain k v where p: "p = (k, v)" by (cases p)
  have "k \<notin> fst ` set acc" using Cons.prems by (auto simp: um_ok_def p)
  with Cons.IH [of "acc @ [p]"] Cons.prems show ?case by (simp add: p um_put_new)
qed simp

lemma copy_metadata_same [simp]: "um_ok m \<Longrightarrow> copy_metadata m = m"
  using copy_metadata_append [of "[]" m] by (simp add: copy_metadata_def)

lemma location_generated_wire:
  "um_ok (le_metadata e) \<Longrightarrow>
     location_event_from_generated (to_generated_location_event e) = location_event_from_wire (to_wire_location e)"
  by (simp add: location_event_from_generated_def to_generated_location_event_def to_wire_location_def Let_def)

lemma geofence_generated_wire:
  "geofence_event_from_generated (to_generated_geofence_event e) = geofence_event_from_wire (to_wire_geofence e)"
  by (simp add: geofence_event_from_generated_def to_generated_geofence_event_def to_wire_geofence_def Let_def)

lemma match_request_generated_wire:
  "match_request_from_generated (to_generated_match_request r) = match_request_from_wire (to_wire_match_request r)"
  by (simp add: match_request_from_generated_def to_generated_match_request_def to_wire_match_request_def Let_def)

lemma match_result_generated_wire:
  "match_result_from_generated (to_generated_match_result r q s) = match_result_from_wire (to_wire_match_result r q s)"
  by (simp add: match_result_from_generated_def to_generated_match_result_def to_wire_match_result_def Let_def)

text \<open>An event that reads is the event its message was made of; a message has no field besides.\<close>

lemma location_generated_surjective:
  assumes "location_event_from_generated m = Inr e" "um_ok (pl_metadata m)"
  shows "to_generated_location_event e = m \<and> um_ok (le_metadata e) \<and>
    le_device_id e \<noteq> [] \<and> valid_lat_lon (le_lat e) (le_lon e)"
  using assms
  by (auto simp: location_event_from_generated_def to_generated_location_event_def to_wire_location_def
      location_event_from_wire_def Let_def split: if_splits)

end
