(* ===== verification/Protobuf_Codec.thy ===== *)
theory Protobuf_Codec
  imports Generated Codec
begin

text \<open>
  The payload codecs of \<open>common/proto/\<close> in a build with protobuf: a payload is a prefix and the bytes
  of the generated message; when a message cannot be serialised, which is the case of a string
  that is not valid text, the payload is the one of the other build. Serialising and parsing are
  parameters, \<open>SerializeToString\<close> and \<open>ParseFromString\<close> of the generated class. What the lemmas rely
  on is that a message parses back from its bytes, up to the order of a map. They give the round
  trips and say which payloads of one build the other reads.
\<close>

subsection \<open>Codecs\<close>

definition has_prefix :: "string \<Rightarrow> string \<Rightarrow> bool" where
  "has_prefix payload prefix = (length prefix \<le> length payload \<and> take (length prefix) payload = prefix)"

definition location_prefix :: string where
  "location_prefix = ''SRPB1:''"

definition geofence_prefix :: string where
  "geofence_prefix = ''SRGF1:''"

definition match_request_prefix :: string where
  "match_request_prefix = ''SRMRQ1:''"

definition match_result_prefix :: string where
  "match_result_prefix = ''SRMRS1:''"

definition pb_encode_location :: "(pb_location_event \<Rightarrow> string option) \<Rightarrow> location_event \<Rightarrow> string" where
  "pb_encode_location serialize e = (case serialize (to_generated_location_event e) of
     Some bytes \<Rightarrow> location_prefix @ bytes | None \<Rightarrow> encode_location_payload e)"

definition pb_decode_location :: "(string \<Rightarrow> pb_location_event option) \<Rightarrow> string \<Rightarrow> location_event decoded" where
  "pb_decode_location parse payload =
     (if has_prefix payload location_prefix
      then (case parse (drop (length location_prefix) payload) of
          None \<Rightarrow> Inl ''invalid protobuf location payload'' | Some m \<Rightarrow> location_event_from_generated m)
      else decode_location_payload payload)"

definition pb_encode_geofence :: "(pb_geofence_event \<Rightarrow> string option) \<Rightarrow> geofence_event_record \<Rightarrow> string" where
  "pb_encode_geofence serialize e = (case serialize (to_generated_geofence_event e) of
     Some bytes \<Rightarrow> geofence_prefix @ bytes | None \<Rightarrow> encode_geofence_event_payload e)"

definition pb_decode_geofence :: "(string \<Rightarrow> pb_geofence_event option) \<Rightarrow> string \<Rightarrow> geofence_event_record decoded" where
  "pb_decode_geofence parse payload =
     (if has_prefix payload geofence_prefix
      then (case parse (drop (length geofence_prefix) payload) of
          None \<Rightarrow> Inl ''invalid protobuf geofence event payload'' | Some m \<Rightarrow> geofence_event_from_generated m)
      else decode_geofence_event_payload payload)"

definition pb_encode_match_request :: "(pb_match_request \<Rightarrow> string option) \<Rightarrow> match_request \<Rightarrow> string" where
  "pb_encode_match_request serialize r = (case serialize (to_generated_match_request r) of
     Some bytes \<Rightarrow> match_request_prefix @ bytes | None \<Rightarrow> encode_match_request_payload r)"

definition pb_decode_match_request :: "(string \<Rightarrow> pb_match_request option) \<Rightarrow> string \<Rightarrow> match_request decoded" where
  "pb_decode_match_request parse payload =
     (if has_prefix payload match_request_prefix
      then (case parse (drop (length match_request_prefix) payload) of
          None \<Rightarrow> Inl ''invalid protobuf match request payload'' | Some m \<Rightarrow> match_request_from_generated m)
      else decode_match_request_payload payload)"

definition pb_encode_match_result :: "(pb_match_result \<Rightarrow> string option) \<Rightarrow> match_result \<Rightarrow> string \<Rightarrow> string \<Rightarrow> string" where
  "pb_encode_match_result serialize r requester_id strategy =
     (case serialize (to_generated_match_result r requester_id strategy) of
        Some bytes \<Rightarrow> match_result_prefix @ bytes | None \<Rightarrow> encode_match_result_payload r)"

definition pb_decode_match_result :: "(string \<Rightarrow> pb_match_result option) \<Rightarrow> string \<Rightarrow> match_result decoded" where
  "pb_decode_match_result parse payload =
     (if has_prefix payload match_result_prefix
      then (case parse (drop (length match_result_prefix) payload) of
          None \<Rightarrow> Inl ''invalid protobuf match result payload'' | Some m \<Rightarrow> match_result_from_generated m)
      else decode_match_result_payload payload)"

subsection \<open>Round trips\<close>

lemma has_prefix_append [simp]: "has_prefix (p @ s) p"
  by (simp add: has_prefix_def)

text \<open>Two messages that differ in the order of their maps only.\<close>

definition same_location_message :: "pb_location_event \<Rightarrow> pb_location_event \<Rightarrow> bool" where
  "same_location_message m m' \<longleftrightarrow> m'\<lparr>pl_metadata := pl_metadata m\<rparr> = m \<and> um_ok (pl_metadata m') \<and>
     map_of (pl_metadata m') = map_of (pl_metadata m)"

lemma same_location_decodes:
  assumes "same_location_message (to_generated_location_event e) m" "um_ok (le_metadata e)"
    and "le_device_id e \<noteq> []" "valid_lat_lon (le_lat e) (le_lon e)"
  shows "location_event_from_generated m = Inr (e\<lparr>le_metadata := pl_metadata m\<rparr>) \<and> map_of (pl_metadata m) = map_of (le_metadata e)"
  using assms
  by (cases m) (auto simp: same_location_message_def location_event_from_generated_def to_generated_location_event_def
      to_wire_location_def location_event_from_wire_def Let_def)

text \<open>
  An event that serialises comes back whole: with its coordinates exactly, its metadata and all
  the fields the text payload leaves out.
\<close>

lemma pb_location_roundtrip:
  assumes "serialize (to_generated_location_event e) = Some bytes" "parse bytes = Some m"
    and "same_location_message (to_generated_location_event e) m" "um_ok (le_metadata e)"
    and "le_device_id e \<noteq> []" "valid_lat_lon (le_lat e) (le_lon e)"
  shows "\<exists>metadata. pb_decode_location parse (pb_encode_location serialize e) = Inr (e\<lparr>le_metadata := metadata\<rparr>) \<and>
    map_of metadata = map_of (le_metadata e)"
  using same_location_decodes [OF assms(3-6)] assms(1,2)
  by (auto simp: pb_encode_location_def pb_decode_location_def)

lemma pb_geofence_roundtrip:
  assumes "serialize (to_generated_geofence_event e) = Some bytes" "parse bytes = Some (to_generated_geofence_event e)"
    and "ge_device_id e \<noteq> []" "ge_fence_id e \<noteq> []" "valid_lat_lon (ge_lat e) (ge_lon e)"
  shows "pb_decode_geofence parse (pb_encode_geofence serialize e) = Inr e"
  using assms by (simp add: pb_encode_geofence_def pb_decode_geofence_def geofence_generated_wire
      geofence_event_from_wire_def to_wire_geofence_def)

lemma pb_match_request_roundtrip:
  assumes "serialize (to_generated_match_request r) = Some bytes" "parse bytes = Some (to_generated_match_request r)"
    and "mr_request_id r \<noteq> []" "valid_lat_lon (mr_lat r) (mr_lon r)" "dfinite (mr_radius_m r)" "dlt (Fin 0) (mr_radius_m r)"
    and "1 \<le> mr_max_agents r"
  shows "pb_decode_match_request parse (pb_encode_match_request serialize r) = Inr r"
proof -
  have "\<not> dle (mr_radius_m r) (Fin 0)" using assms(5,6) by (auto simp: dlt_def dle_def dfinite_iff)
  then show ?thesis using assms
    by (simp add: pb_encode_match_request_def pb_decode_match_request_def match_request_generated_wire
        match_request_from_wire_def to_wire_match_request_def)
qed

lemma pb_match_result_roundtrip:
  assumes "serialize (to_generated_match_result r q s) = Some bytes" "parse bytes = Some (to_generated_match_result r q s)"
    and "mres_request_id r \<noteq> []"
  shows "pb_decode_match_result parse (pb_encode_match_result serialize r q s) = Inr r"
  using assms match_result_wire_roundtrip [OF assms(3), of q s]
  by (simp add: pb_encode_match_result_def pb_decode_match_result_def match_result_generated_wire)

subsection \<open>One build reading the other\<close>

text \<open>A text payload reads as in the other build, unless its device starts like a prefix: the payload of
  such a device is taken for bytes, and when the device could not be serialised it is lost.\<close>

lemma text_payload_reads:
  "\<not> has_prefix payload location_prefix \<Longrightarrow> pb_decode_location parse payload = decode_location_payload payload"
  by (simp add: pb_decode_location_def)

lemma text_payload_has_prefix:
  assumes "has_prefix (le_device_id e) location_prefix"
  shows "has_prefix (encode_location_payload e) location_prefix"
  using assms by (auto simp: has_prefix_def encode_location_payload_def)

lemma prefixed_device_lost:
  assumes "serialize (to_generated_location_event e) = None" "has_prefix (le_device_id e) location_prefix"
    and "parse (drop (length location_prefix) (encode_location_payload e)) = None"
  shows "pb_decode_location parse (pb_encode_location serialize e) = Inl ''invalid protobuf location payload''"
  using assms text_payload_has_prefix [OF assms(2)] by (simp add: pb_encode_location_def pb_decode_location_def)

text \<open>What the bytes give is checked, what the text gives is not: only the former are always coordinates.\<close>

lemma pb_location_checked:
  assumes "pb_decode_location parse payload = Inr e" "has_prefix payload location_prefix"
  shows "le_device_id e \<noteq> [] \<and> valid_lat_lon (le_lat e) (le_lon e)"
  using assms by (auto simp: pb_decode_location_def location_event_from_generated_def location_event_from_wire_def
      split: option.splits if_splits)

lemma text_location_unchecked:
  "\<exists>payload e. decode_location_payload payload = Inr e \<and> \<not> valid_lat_lon (le_lat e) (le_lon e)"
proof -
  let ?e = "location_event_default\<lparr>le_device_id := ''d'', le_lat := Fin 92\<rparr>"
  obtain lat lon where d: "six_digits_of (le_lat ?e) lat"
    "decode_location_payload (encode_location_payload ?e) = Inr (?e\<lparr>le_lat := lat, le_lon := lon, le_metadata := []\<rparr>)"
    by (rule decode_encode_location [of ?e])
       (simp_all add: location_event_default_def csv_field_def printable_def)
  obtain v where v: "lat = fl v" "\<bar>v - 92\<bar> \<le> 92 / 200000" using d(1) by (auto simp: six_digits_of_def)
  have "91 \<le> v" using v(2) by linarith
  then have "Fin 91 \<le> lat" using fl_mono [of 91 v] fl_of_int [of 91] v(1) by simp
  then have "\<not> valid_lat_lon lat lon" by (cases lat) (auto simp: valid_lat_lon_def dle_def)
  then show ?thesis using d(2) by fastforce
qed

end
