(* ===== verification/Grpc.thy ===== *)
theory Grpc
  imports Generated Runtime
begin

text \<open>
  The service adapters of \<open>transport/grpc/\<close>. An RPC takes its request message and fills a
  response message that is empty at first; it ends with a status, or with the exception a
  handler of the service raised. A submessage that was not set reads as its default. The
  theorems say what the caller of an RPC learns about the service behind it.
\<close>

subsection \<open>Statuses and messages\<close>

datatype grpc_code = Rpc_OK | Rpc_INVALID_ARGUMENT | Rpc_NOT_FOUND | Rpc_UNIMPLEMENTED

record grpc_status =
  rpc_code :: grpc_code
  rpc_message :: string

definition rpc_ok :: grpc_status where
  "rpc_ok = \<lparr>rpc_code = Rpc_OK, rpc_message = []\<rparr>"

record pb_location_batch =
  pb_batch_device_id :: string
  pb_batch_events :: "pb_location_event list"

record pb_ingest_batch_response =
  pb_accepted :: int
  pb_rejected :: int
  pb_batch_reason :: string

definition pb_ingest_batch_response_default :: pb_ingest_batch_response where
  "pb_ingest_batch_response_default = \<lparr>pb_accepted = 0, pb_rejected = 0, pb_batch_reason = []\<rparr>"

record pb_ingest_single_response =
  pb_ok :: bool
  pb_reason :: string

definition pb_ingest_single_response_default :: pb_ingest_single_response where
  "pb_ingest_single_response_default = \<lparr>pb_ok = False, pb_reason = []\<rparr>"

record pb_nearby_request =
  pn_lat :: double
  pn_lon :: double
  pn_radius_m :: double
  pn_limit :: int
  pn_last_seen_s :: int
  pn_include_stale :: bool
  pn_filter_metadata_keys :: "string list"

record pb_nearby_device =
  pd_device_id :: string
  pd_lat :: double
  pd_lon :: double
  pd_distance_m :: double
  pd_updated_at :: int
  pd_speed_ms :: double
  pd_heading_deg :: double

record pb_nearby_response =
  pb_devices :: "pb_nearby_device list"
  pb_total_candidates :: int
  pb_total_in_radius :: int

definition pb_nearby_response_default :: pb_nearby_response where
  "pb_nearby_response_default = \<lparr>pb_devices = [], pb_total_candidates = 0, pb_total_in_radius = 0\<rparr>"

record pb_circle_filter =
  pc_lat :: double
  pc_lon :: double
  pc_radius_m :: double

record pb_bbox_filter =
  px_min_lat :: double
  px_min_lon :: double
  px_max_lat :: double
  px_max_lon :: double

datatype pb_spatial_filter = Filter_none | Filter_circle pb_circle_filter | Filter_bbox pb_bbox_filter

record pb_trip_request =
  pt_device_id :: string
  pt_from_ts :: int
  pt_to_ts :: int
  pt_sample_interval_s :: int
  pt_limit :: int
  pt_spatial_filter :: pb_spatial_filter

record pb_trip_point =
  pp_device_id :: string
  pp_lat :: double
  pp_lon :: double
  pp_altitude_m :: double
  pp_accuracy_m :: double
  pp_speed_ms :: double
  pp_heading_deg :: double
  pp_event_time :: int
  pp_recv_time :: int
  pp_seq :: u64
  pp_h3_cell :: cell

definition pb_trip_point_default :: pb_trip_point where
  "pb_trip_point_default = \<lparr>pp_device_id = [], pp_lat = Fin 0, pp_lon = Fin 0, pp_altitude_m = Fin 0,
     pp_accuracy_m = Fin 0, pp_speed_ms = Fin 0, pp_heading_deg = Fin 0, pp_event_time = 0, pp_recv_time = 0,
     pp_seq = 0, pp_h3_cell = 0\<rparr>"

record pb_trip_response =
  pb_points :: "pb_trip_point list"
  pb_total_points :: int

definition pb_trip_response_default :: pb_trip_response where
  "pb_trip_response_default = \<lparr>pb_points = [], pb_total_points = 0\<rparr>"

record pb_health_response =
  ph_healthy :: bool
  ph_role :: string
  ph_version :: string
  ph_uptime_s :: int
  ph_kafka_connected :: bool
  ph_redis_connected :: bool
  ph_postgis_connected :: bool

subsection \<open>The gateway\<close>

fun join_errors :: "string list \<Rightarrow> string" where
  "join_errors [] = []"
| "join_errors [err] = err"
| "join_errors (err # errs) = err @ ''; '' @ join_errors errs"

text \<open>\<open>request->event()\<close>: a submessage that was not set reads as the default one.\<close>

definition pb_event :: "pb_location_event option \<Rightarrow> pb_location_event" where
  "pb_event request = (case request of None \<Rightarrow> pb_location_event_default | Some m \<Rightarrow> m)"

definition rpc_ingest_single :: "(nat \<Rightarrow> int) \<Rightarrow> pb_location_event option \<Rightarrow> gateway \<Rightarrow>
    (grpc_status \<times> pb_ingest_single_response) exc \<times> gateway" where
  "rpc_ingest_single clk request g =
     (let resp = pb_ingest_single_response_default in
      case location_event_from_generated (pb_event request) of
        Inl err \<Rightarrow> (Inr (\<lparr>rpc_code = Rpc_INVALID_ARGUMENT, rpc_message = err\<rparr>,
            resp\<lparr>pb_ok := False, pb_reason := err\<rparr>), g)
      | Inr e \<Rightarrow> (case handle_ingest_one clk e [] g of
            (Inl ex, g') \<Rightarrow> (Inl ex, g')
          | (Inr r, g') \<Rightarrow>
              if \<not> ingest_response_ok r
              then (let reason = join_errors (rsp_errors r) in
                (Inr (\<lparr>rpc_code = Rpc_INVALID_ARGUMENT, rpc_message = reason\<rparr>,
                   resp\<lparr>pb_ok := False, pb_reason := reason\<rparr>), g'))
              else (Inr (rpc_ok, resp\<lparr>pb_ok := True\<rparr>), g')))"

text \<open>The events of a batch are read up to the first that is refused.\<close>

fun batch_from_generated :: "pb_location_event list \<Rightarrow> (location_event list, string) result" where
  "batch_from_generated [] = Inr []"
| "batch_from_generated (m # ms) =
     (case location_event_from_generated m of
        Inl err \<Rightarrow> Inl err
      | Inr e \<Rightarrow> (case batch_from_generated ms of Inl err \<Rightarrow> Inl err | Inr es \<Rightarrow> Inr (e # es)))"

definition rpc_ingest_batch :: "(nat \<Rightarrow> int) \<Rightarrow> (nat \<Rightarrow> nat \<Rightarrow> int) \<Rightarrow> pb_location_batch option \<Rightarrow> gateway \<Rightarrow>
    (grpc_status \<times> pb_ingest_batch_response) exc \<times> gateway" where
  "rpc_ingest_batch bclk clks request g =
     (let resp = pb_ingest_batch_response_default;
          batch = (case request of None \<Rightarrow> \<lparr>pb_batch_device_id = [], pb_batch_events = []\<rparr> | Some b \<Rightarrow> b) in
      case batch_from_generated (pb_batch_events batch) of
        Inl err \<Rightarrow> (Inr (\<lparr>rpc_code = Rpc_INVALID_ARGUMENT, rpc_message = err\<rparr>,
            resp\<lparr>pb_accepted := 0, pb_rejected := int (length (pb_batch_events batch)), pb_batch_reason := err\<rparr>), g)
      | Inr es \<Rightarrow> (case handle_ingest_batch bclk clks es [] g of
            (Inl ex, g') \<Rightarrow> (Inl ex, g')
          | (Inr r, g') \<Rightarrow> (Inr (rpc_ok, resp\<lparr>pb_accepted := rsp_accepted_count r, pb_rejected := rsp_rejected_count r,
              pb_batch_reason := (if ingest_response_ok r then [] else join_errors (rsp_errors r))\<rparr>), g')))"

subsection \<open>The query service\<close>

definition invalid_request :: "string \<Rightarrow> grpc_status" where
  "invalid_request err = \<lparr>rpc_code = Rpc_INVALID_ARGUMENT, rpc_message = err\<rparr>"

definition copy_trip_point :: "location_event \<Rightarrow> pb_trip_point \<Rightarrow> pb_trip_point" where
  "copy_trip_point e p = p\<lparr>pp_device_id := le_device_id e, pp_lat := le_lat e, pp_lon := le_lon e,
     pp_altitude_m := le_altitude_m e, pp_accuracy_m := le_accuracy_m e, pp_speed_ms := le_speed_ms e,
     pp_heading_deg := le_heading_deg e, pp_event_time := le_timestamp_ms e, pp_recv_time := le_server_recv_ms e,
     pp_seq := le_seq e\<rparr>"

definition rpc_get_latest_location :: "query_service \<Rightarrow> string \<Rightarrow> grpc_status \<times> pb_device_state" where
  "rpc_get_latest_location s device_id =
     (let result = handle_latest s device_id in
      if \<not> lr_ok result then (invalid_request (lr_error result), pb_device_state_default)
      else if \<not> lr_found result
      then (\<lparr>rpc_code = Rpc_NOT_FOUND, rpc_message = ''device state not found''\<rparr>, pb_device_state_default)
      else (rpc_ok, to_generated_device_state_response (lr_state result)))"

definition nearby_device_of :: "device_state \<times> double \<Rightarrow> pb_nearby_device" where
  "nearby_device_of hit = (case hit of (st, distance_m) \<Rightarrow>
     \<lparr>pd_device_id = ds_device_id st, pd_lat = ds_lat st, pd_lon = ds_lon st, pd_distance_m = distance_m,
      pd_updated_at = ds_updated_at st, pd_speed_ms = ds_speed_ms st, pd_heading_deg = ds_heading_deg st\<rparr>)"

definition rpc_nearby_devices :: "libm \<Rightarrow> int \<Rightarrow> query_service \<Rightarrow> pb_nearby_request \<Rightarrow>
    (metrics, grpc_status \<times> pb_nearby_response) prog" where
  "rpc_nearby_devices m now_ms s q =
     seq_prog (handle_nearby m now_ms s \<lparr>nq_lat = pn_lat q, nq_lon = pn_lon q, nq_radius_m = pn_radius_m q,
         nq_limit = pn_limit q, nq_last_seen_s = pn_last_seen_s q\<rparr>) (\<lambda>result. ret
       (if \<not> nr_ok result then (invalid_request (nr_error result), pb_nearby_response_default)
        else (rpc_ok, \<lparr>pb_devices = map nearby_device_of (nb_devices (nr_result result)),
          pb_total_candidates = nb_total_candidates (nr_result result),
          pb_total_in_radius = nb_total_in_radius (nr_result result)\<rparr>)))"

definition trip_status :: "trip_response \<Rightarrow> grpc_status \<times> pb_trip_response" where
  "trip_status result =
     (if \<not> tr_ok result then (invalid_request (tr_error result), pb_trip_response_default)
      else (rpc_ok, \<lparr>pb_points = map (\<lambda>e. copy_trip_point e pb_trip_point_default) (tr_events result),
        pb_total_points = int (length (tr_events result))\<rparr>))"

definition rpc_get_trip :: "libm \<Rightarrow> query_service \<Rightarrow> pb_trip_request \<Rightarrow> grpc_status \<times> pb_trip_response" where
  "rpc_get_trip m s q = (case pt_spatial_filter q of
       Filter_circle c \<Rightarrow> trip_status (handle_trip_spatial m s \<lparr>tq_device_id = pt_device_id q, tq_from_ts = pt_from_ts q,
         tq_to_ts = pt_to_ts q, tq_sample_interval_s = pt_sample_interval_s q, tq_limit = pt_limit q,
         tq_center_lat = pc_lat c, tq_center_lon = pc_lon c, tq_radius_m = pc_radius_m c\<rparr>)
     | Filter_bbox b \<Rightarrow> (\<lparr>rpc_code = Rpc_UNIMPLEMENTED,
         rpc_message = ''bbox trip filter is not implemented in the fallback query handler''\<rparr>, pb_trip_response_default)
     | Filter_none \<Rightarrow> trip_status (handle_trip s \<lparr>tq_device_id = pt_device_id q, tq_from_ts = pt_from_ts q,
         tq_to_ts = pt_to_ts q, tq_sample_interval_s = pt_sample_interval_s q, tq_limit = pt_limit q\<rparr>))"

subsection \<open>The admin service\<close>

fun component_answers :: "string \<Rightarrow> component_health list \<Rightarrow> bool" where
  "component_answers name [] = False"
| "component_answers name (c # cs) = (if ch_name c = name then ch_healthy c else component_answers name cs)"

definition rpc_health :: "int \<Rightarrow> 's \<Rightarrow> 's admin_service \<Rightarrow> grpc_status \<times> pb_health_response" where
  "rpc_health now_ns s admin =
     (let h = admin_health now_ns s admin; up = (\<lambda>name. component_answers name (hr_components h)) in
      (rpc_ok, \<lparr>ph_healthy = hr_healthy h, ph_role = hr_role h, ph_version = hr_version h, ph_uptime_s = hr_uptime_s h,
        ph_kafka_connected = up ''kafka'' \<or> up ''event_bus'', ph_redis_connected = up ''redis'',
        ph_postgis_connected = up ''postgis''\<rparr>))"

definition rpc_metrics :: "metrics \<Rightarrow> grpc_status \<times> string" where
  "rpc_metrics mx = (rpc_ok, export_text mx)"

subsection \<open>Ingestion\<close>

text \<open>Whether the gateway lets a call without a key in: the adapter has none to give.\<close>

definition admits_keyless :: "gateway \<Rightarrow> bool" where
  "admits_keyless g = (case g_admission g of None \<Rightarrow> False
     | Some (cfg, n) \<Rightarrow> \<not> gw_auth_required cfg \<and> (gw_max_in_flight_requests cfg \<le> 0 \<or> n < gw_max_in_flight_requests cfg))"

lemma authorize_keyless: "authorize cfg [] = (if gw_auth_required cfg then Inl ''unauthorized'' else Inr ())"
  by (auto simp: authorize_def)

lemma admit_keyless:
  "\<not> admits_keyless g \<Longrightarrow> \<exists>reason g'. admit [] n device work g =
     (Inr (ingest_response_default\<lparr>rsp_rejected_count := n, rsp_errors := [reason]\<rparr>), g') \<and> g_broker g' = g_broker g"
  "admits_keyless g \<Longrightarrow> \<exists>cfg k lease k'. g_admission g = Some (cfg, k) \<and>
     admit [] n device work g = (let (r, g') = work (g\<lparr>g_admission := Some (cfg, k')\<rparr>) in (r, release_admission lease g'))"
  by (auto simp: admits_keyless_def admit_def authorize_keyless try_acquire_def reject_transport_request_def
      split: option.splits)

lemma release_admission_broker [simp]: "g_broker (release_admission lease g) = g_broker g"
  by (simp add: release_admission_def split: option.splits)

lemma gateway_ok_admission:
  "gateway_ok g \<Longrightarrow> gateway_ok (g\<lparr>g_admission := Some p\<rparr>)"
  by (simp add: gateway_ok_def)

text \<open>When an event passes everything on its way to the topic.\<close>

definition passes_ingest :: "(nat \<Rightarrow> int) \<Rightarrow> location_event \<Rightarrow> gateway \<Rightarrow> bool" where
  "passes_ingest clk e g \<longleftrightarrow> g_running g \<and> admits_keyless g \<and>
     event_valid (the (g_validator g)) (clk 1) (stamp_event (clk 0) e) \<and>
     fst (allow (clk 2) (le_device_id e) (the (g_limiter g)))"

lemma keyless_ingest_one:
  assumes ok: "gateway_ok g"
  obtains (passes) g' where "passes_ingest clk e g"
      "handle_ingest_one clk e [] g = (Inr (ingest_response_default\<lparr>rsp_accepted := True, rsp_accepted_count := 1,
          rsp_accepted_events := [stamp_event (clk 0) e]\<rparr>), g')"
      "\<forall>t. logs g' t = logs g t @ (if t = ingest_topic g then [ingest_message g (stamp_event (clk 0) e)] else [])"
  | (refused) err g' where "\<not> passes_ingest clk e g"
      "handle_ingest_one clk e [] g = (Inr (ingest_response_default\<lparr>rsp_rejected_count := 1, rsp_errors := [err]\<rparr>), g')"
      "g_broker g' = g_broker g"
proof (cases "admits_keyless g")
  case False
  then obtain reason g' where "handle_ingest_one clk e [] g =
      (Inr (ingest_response_default\<lparr>rsp_rejected_count := 1, rsp_errors := [reason]\<rparr>), g')" "g_broker g' = g_broker g"
    using admit_keyless(1) [OF False, of 1 "le_device_id e"] unfolding handle_ingest_one_def by blast
  then show ?thesis using False by (intro refused [of reason g']) (auto simp: passes_ingest_def)
next
  case True
  let ?work = "\<lambda>g. case ingest_one clk e g of
        (Inl ex, g') \<Rightarrow> (Inl ex, g')
      | (Inr (Inr ev), g') \<Rightarrow> (Inr (ingest_response_default\<lparr>rsp_accepted := True,
            rsp_accepted_count := 1, rsp_accepted_events := [ev]\<rparr>), g')
      | (Inr (Inl err), g') \<Rightarrow> (Inr (ingest_response_default\<lparr>rsp_rejected_count := 1, rsp_errors := [err]\<rparr>), g')"
  obtain cfg k lease k' where adm: "handle_ingest_one clk e [] g =
      (let (r, g') = ?work (g\<lparr>g_admission := Some (cfg, k')\<rparr>) in (r, release_admission lease g'))"
    using admit_keyless(2) [OF True, of 1 "le_device_id e" ?work] unfolding handle_ingest_one_def by blast
  let ?h = "g\<lparr>g_admission := Some (cfg, k')\<rparr>"
  obtain r g1 where one: "ingest_one clk e ?h = (r, g1)" by (cases "ingest_one clk e ?h")
  from gateway_ok_admission [OF ok] one show ?thesis
  proof (cases rule: ingest_one_cases)
    case (accepted e')
    have "g_running g" using one accepted(2) ingest_one_not_running [of ?h clk e] by auto
    then show ?thesis using accepted True adm one
      by (intro passes [of "release_admission lease g1"])
         (auto simp: passes_ingest_def logs_def ingest_topic_def ingest_message_def)
  next
    case (rejected err)
    then show ?thesis using adm one
      by (intro refused [of err "release_admission lease g1"]) (auto simp: passes_ingest_def)
  qed
qed

text \<open>The adapter has no key to give: a gateway that requires one publishes nothing, whatever key it is
  configured with.\<close>

lemma rpc_single_keyed:
  assumes "g_admission g = Some (cfg, n)" "gw_auth_required cfg"
  shows "\<exists>st resp g'. rpc_ingest_single clk request g = (Inr (st, resp), g') \<and> \<not> pb_ok resp \<and> g_broker g' = g_broker g"
proof (cases "location_event_from_generated (pb_event request)")
  case (Inr e)
  have "\<not> admits_keyless g" using assms by (simp add: admits_keyless_def)
  then obtain reason g' where "handle_ingest_one clk e [] g =
      (Inr (ingest_response_default\<lparr>rsp_rejected_count := 1, rsp_errors := [reason]\<rparr>), g')" "g_broker g' = g_broker g"
    using admit_keyless(1) [of g 1 "le_device_id e"] unfolding handle_ingest_one_def by blast
  then show ?thesis using Inr
    by (simp add: rpc_ingest_single_def ingest_response_ok_def ingest_response_default_def pb_ingest_single_response_default_def)
qed (simp add: rpc_ingest_single_def)

text \<open>Whatever the reason, a refused call carries the code INVALID_ARGUMENT.\<close>

lemma rpc_single_code:
  "rpc_ingest_single clk request g = (Inr (st, resp), g') \<Longrightarrow> rpc_code st = Rpc_OK \<or> rpc_code st = Rpc_INVALID_ARGUMENT"
  by (auto simp: rpc_ingest_single_def rpc_ok_def Let_def split: sum.splits prod.splits if_splits)


definition sample_message :: pb_location_event where
  "sample_message = to_generated_location_event sample_event"


text \<open>A batch with an event that does not read is refused whole. A batch the gateway lets nothing of in is
  counted as rejected under the status OK, an empty one as one event.\<close>

lemma batch_reads_iff:
  "(\<exists>es. batch_from_generated ms = Inr es) \<longleftrightarrow> (\<forall>m \<in> set ms. \<exists>e. location_event_from_generated m = Inr e)"
  by (induction ms) (auto split: sum.splits)

lemma batch_reads_length: "batch_from_generated ms = Inr es \<Longrightarrow> length es = length ms"
  by (induction ms arbitrary: es) (auto split: sum.splits)

lemma rpc_batch_unreadable:
  "batch_from_generated (pb_batch_events b) = Inl err \<Longrightarrow> rpc_ingest_batch bclk clks (Some b) g =
     (Inr (\<lparr>rpc_code = Rpc_INVALID_ARGUMENT, rpc_message = err\<rparr>,
       \<lparr>pb_accepted = 0, pb_rejected = int (length (pb_batch_events b)), pb_batch_reason = err\<rparr>), g)"
  by (simp add: rpc_ingest_batch_def pb_ingest_batch_response_default_def)

lemma rpc_batch_shut_out:
  assumes "batch_from_generated (pb_batch_events b) = Inr es" "\<not> admits_keyless g"
  shows "\<exists>reason g'. rpc_ingest_batch bclk clks (Some b) g = (Inr (rpc_ok,
      \<lparr>pb_accepted = 0, pb_rejected = max 1 (int (length (pb_batch_events b))), pb_batch_reason = reason\<rparr>), g') \<and>
    g_broker g' = g_broker g"
proof -
  obtain reason g' where "handle_ingest_batch bclk clks es [] g = (Inr (ingest_response_default\<lparr>rsp_rejected_count :=
      if es = [] then 1 else int (length es), rsp_errors := [reason]\<rparr>), g')" "g_broker g' = g_broker g"
    using admit_keyless(1) [OF assms(2)] unfolding handle_ingest_batch_def by blast
  moreover have "max 1 (int (length (pb_batch_events b))) = (if es = [] then 1 else int (length es))"
    using batch_reads_length [OF assms(1)] by (cases es) auto
  ultimately show ?thesis using assms(1)
    by (auto simp: rpc_ingest_batch_def ingest_response_ok_def ingest_response_default_def pb_ingest_batch_response_default_def)
qed

text \<open>The device a batch names is not looked at: its events may be of other devices.\<close>

lemma rpc_batch_device_ignored:
  "rpc_ingest_batch bclk clks (Some (b\<lparr>pb_batch_device_id := d\<rparr>)) g = rpc_ingest_batch bclk clks (Some b) g"
  by (simp add: rpc_ingest_batch_def split: sum.split)

subsection \<open>Queries\<close>

definition nearby_request_valid :: "query_service \<Rightarrow> pb_nearby_request \<Rightarrow> bool" where
  "nearby_request_valid s q \<longleftrightarrow> qs_running s \<and> valid_lat_lon (pn_lat q) (pn_lon q) \<and>
     dfinite (pn_radius_m q) \<and> dlt (Fin 0) (pn_radius_m q) \<and> 0 \<le> pn_last_seen_s q"

definition trip_request_valid :: "query_service \<Rightarrow> pb_trip_request \<Rightarrow> bool" where
  "trip_request_valid s q \<longleftrightarrow> qs_running s \<and> pt_device_id q \<noteq> [] \<and> pt_from_ts q \<le> pt_to_ts q \<and> 0 < pt_limit q \<and>
     (case pt_spatial_filter q of
        Filter_circle c \<Rightarrow> valid_lat_lon (pc_lat c) (pc_lon c) \<and> dfinite (pc_radius_m c) \<and> \<not> dlt (pc_radius_m c) (Fin 0)
      | _ \<Rightarrow> True)"

lemma rpc_latest_status:
  "fst (rpc_get_latest_location s d) =
     (if \<not> qs_running s then invalid_request ''query service is not running''
      else if d = [] then invalid_request ''device_id is required''
      else if query_latest s d = None then \<lparr>rpc_code = Rpc_NOT_FOUND, rpc_message = ''device state not found''\<rparr>
      else rpc_ok)"
  "qs_running s \<Longrightarrow> d \<noteq> [] \<Longrightarrow> query_latest s d = Some st \<Longrightarrow>
     snd (rpc_get_latest_location s d) = to_generated_device_state_response st"
  by (auto simp: rpc_get_latest_location_def handle_latest_def latest_response_default_def Let_def split: option.splits)

lemma trip_point_of:
  "le_device_id e = pp_device_id (copy_trip_point e p)" "le_timestamp_ms e = pp_event_time (copy_trip_point e p)"
  "le_seq e = pp_seq (copy_trip_point e p)" "pp_h3_cell (copy_trip_point e p) = pp_h3_cell p"
  by (simp_all add: copy_trip_point_def)

text \<open>The points of a trip in the service's store, for the filter of the request.\<close>

definition trip_points_for :: "libm \<Rightarrow> query_service \<Rightarrow> pb_trip_request \<Rightarrow> location_event list" where
  "trip_points_for m s q = (case pt_spatial_filter q of
       Filter_circle c \<Rightarrow> query_trip_area m s (pt_device_id q) (pt_from_ts q) (pt_to_ts q) (pc_lat c) (pc_lon c) (pc_radius_m c)
         (pt_sample_interval_s q) (pt_limit q)
     | _ \<Rightarrow> query_trip_points s (pt_device_id q) (pt_from_ts q) (pt_to_ts q) (pt_sample_interval_s q) (pt_limit q))"

lemma rpc_trip_status:
  "rpc_code (fst (rpc_get_trip m s q)) = (case pt_spatial_filter q of Filter_bbox b \<Rightarrow> Rpc_UNIMPLEMENTED
     | _ \<Rightarrow> if trip_request_valid s q then Rpc_OK else Rpc_INVALID_ARGUMENT)"
  "rpc_code (fst (rpc_get_trip m s q)) = Rpc_OK \<Longrightarrow>
     snd (rpc_get_trip m s q) = \<lparr>pb_points = map (\<lambda>e. copy_trip_point e pb_trip_point_default) (trip_points_for m s q),
       pb_total_points = int (length (trip_points_for m s q))\<rparr>"
  by (auto simp: rpc_get_trip_def trip_status_def handle_trip_def handle_trip_spatial_def trip_response_error_def
      trip_request_valid_def valid_trip_range_def trip_points_for_def rpc_ok_def invalid_request_def
      split: pb_spatial_filter.splits if_splits)

text \<open>Of the request, \<open>include_stale\<close> and the metadata keys to filter by have no influence.\<close>

lemma rpc_nearby_ignores:
  "rpc_nearby_devices m now_ms s (q\<lparr>pn_include_stale := stale, pn_filter_metadata_keys := ks\<rparr>) mx =
   rpc_nearby_devices m now_ms s q mx"
  by (simp add: rpc_nearby_devices_def)

text \<open>A radius beyond the configured one is cut to it, where the documents have the request refused.\<close>

lemma nearby_radius_cut:
  assumes "dlt (sp_nearby_max_radius_m cfg) radius_m" "dfinite radius_m" "dlt (Fin 0) (sp_nearby_max_radius_m cfg)"
    "dfinite (sp_nearby_max_radius_m cfg)"
  shows "nearby_handle m res cfg now_ms r lat lon radius_m n last_seen_s mx =
    nearby_handle m res cfg now_ms r lat lon (sp_nearby_max_radius_m cfg) n last_seen_s mx"
  using assms by (auto simp: nearby_handle_def Let_def dlt_def dle_def dfinite_iff)


definition sample_nearby :: pb_nearby_request where
  "sample_nearby = \<lparr>pn_lat = Fin 10, pn_lon = Fin 20, pn_radius_m = Fin 100, pn_limit = 5, pn_last_seen_s = 60,
     pn_include_stale = False, pn_filter_metadata_keys = []\<rparr>"


subsection \<open>Health\<close>

lemma component_answers_absent: "\<not> list_ex (\<lambda>h. ch_name h = name) hs \<Longrightarrow> \<not> component_answers name hs"
  by (induction hs) auto

lemma component_answers_up:
  "list_ex (\<lambda>h. ch_name h = name) hs \<Longrightarrow> \<not> list_ex (\<lambda>h. ch_name h = name \<and> \<not> ch_healthy h) hs \<Longrightarrow> component_answers name hs"
  by (induction hs) auto

text \<open>A component contributes an answer with a property to the evaluation.\<close>

definition contributes :: "(component_health \<Rightarrow> bool) \<Rightarrow> 's \<Rightarrow> 's registered_component \<Rightarrow> bool" where
  "contributes P s c = (case component_answer False s c of None \<Rightarrow> False | Some h \<Rightarrow> P h)"

lemma list_ex_answers: "list_ex P (List.map_filter (component_answer False s) cs) \<longleftrightarrow> list_ex (contributes P s) cs"
  by (induction cs) (auto simp: map_filter_simps contributes_def split: option.splits)

lemma lifecycle_named: "lifecycle_health name verdict p required s = P_value h \<Longrightarrow> ch_name h = name"
  unfolding lifecycle_health_def by (erule map_probe.elims) auto

lemma boolean_named: "boolean_probe name good bad bp required s = P_value h \<Longrightarrow> ch_name h = name"
  unfolding boolean_probe_def by (erule map_probe.elims) auto

lemma answer_named:
  "name \<noteq> [] \<Longrightarrow> component_answer False s \<lparr>rg_name = name, rg_health_probe = Some (lifecycle_health name verdict p required),
     rg_readiness_probe = rp\<rparr> = Some h \<Longrightarrow> ch_name h = name"
  "component_answer False s' \<lparr>rg_name = ''runtime_startup'', rg_health_probe = Some runtime_probe, rg_readiness_probe = rp'\<rparr> = Some h' \<Longrightarrow>
     ch_name h' = ''runtime_startup''"
  by (auto simp: component_answer_def probe_of_def run_probe_def runtime_probe_def
      dest: lifecycle_named split: probe_result.splits if_splits)

lemma contributes_name:
  "name \<noteq> [] \<Longrightarrow> contributes P s \<lparr>rg_name = name, rg_health_probe = Some (lifecycle_health name verdict p required),
     rg_readiness_probe = rp\<rparr> \<Longrightarrow> \<exists>h. ch_name h = name \<and> P h"
  "contributes P s' \<lparr>rg_name = ''runtime_startup'', rg_health_probe = Some runtime_probe, rg_readiness_probe = rp'\<rparr> \<Longrightarrow>
     \<exists>h. ch_name h = ''runtime_startup'' \<and> P h"
  unfolding contributes_def by (auto split: option.splits intro!: exI dest: answer_named)

lemma contributes_readiness [simp]:
  "\<not> contributes P s \<lparr>rg_name = name, rg_health_probe = None, rg_readiness_probe = rp\<rparr>"
  by (simp add: contributes_def component_answer_def probe_of_def)

lemma contributes_bus:
  "contributes P s \<lparr>rg_name = ''event_bus'', rg_health_probe = Some (boolean_probe ''event_bus'' good bad (Some (\<lambda>_. P_value True)) False),
     rg_readiness_probe = rp\<rparr> = P \<lparr>ch_name = ''event_bus'', ch_healthy = True, ch_required = False, ch_detail = good\<rparr>"
  by (simp add: contributes_def component_answer_def probe_of_def run_probe_def boolean_probe_def)

lemma dependencies_contribute_nothing:
  "list_ex (contributes P s) (as_components (register_dependency_readiness_probes c ad)) = list_ex (contributes P s) (as_components ad)"
  unfolding register_dependency_readiness_probes_def Let_def register_readiness_component_def
  by simp

lemma selected_contribute:
  "list_ex P (as_components (when_selected b (add_component x) ad)) \<longleftrightarrow> list_ex P (as_components ad) \<or> b \<and> P x"
  by (simp add: when_selected_def)

lemma registered_contribute:
  assumes "\<And>h. ch_name h \<in> {''runtime_startup'', ''gateway'', ''processor'', ''query'', ''geofence'', ''matcher'',
      ''admin_socket'', ''metrics_exporter''} \<Longrightarrow> \<not> P h"
  shows "list_ex (contributes P s) (as_components (ra_admin (register_admin_probes a))) \<longleftrightarrow>
    P \<lparr>ch_name = ''event_bus'', ch_healthy = True, ch_required = False, ch_detail = ''dependency reachable''\<rparr>"
  unfolding register_admin_probes_def Let_def register_dependency_probe_def register_component_def
    register_lifecycle_probe_def register_runtime_probe_def
  by (simp del: select_blocks add: selected_contribute contributes_bus dependencies_contribute_nothing)
     (use assms in \<open>blast dest: contributes_name(2) contributes_name(1) [rotated]\<close>)

text \<open>C29: The Health RPC of a running application always reports Redis and PostGIS as not connected and Kafka
  as connected, whatever the stores, the broker and the configuration are: readiness probes are the
  only ones registered for the three, and the health evaluation leaves readiness probes out.\<close>

theorem rpc_health_blind:
  assumes "runtime_reach a" "ra_running a"
  shows "\<exists>r. rpc_health now (ra_services a) (ra_admin a) = (rpc_ok, r) \<and> ph_healthy r \<and>
    ph_kafka_connected r \<and> \<not> ph_redis_connected r \<and> \<not> ph_postgis_connected r"
proof -
  have ok: "running_ok a" using runtime_reach_ok [OF assms(1)] assms(2) by (simp add: runtime_ok_def)
  then obtain a0 where a0: "ra_admin a = ra_admin (register_admin_probes a0)"
    unfolding running_ok_def probes_registered_def by blast
  let ?hs = "hr_components (admin_health now (ra_services a) (ra_admin a))"
  have hs: "list_ex P ?hs = list_ex (contributes P (ra_services a)) (as_components (ra_admin (register_admin_probes a0)))" for P
    by (simp add: admin_health_def evaluate_admin_run list_ex_answers a0)
  have "\<not> list_ex (\<lambda>h. ch_name h = n) ?hs" if "n \<in> {''redis'', ''postgis''}" for n
    using that unfolding hs by (subst registered_contribute) auto
  then have down: "\<not> component_answers ''redis'' ?hs" "\<not> component_answers ''postgis'' ?hs"
    using component_answers_absent by blast+
  have up: "component_answers ''event_bus'' ?hs"
    by (rule component_answers_up; unfold hs; subst registered_contribute) auto
  have "hr_healthy (admin_health now (ra_services a) (ra_admin a))"
    using running_blocks [OF ok, of False] by (simp add: admin_health_def healthy_iff_unblocked)
  then show ?thesis using down up by (simp add: rpc_health_def Let_def)
qed

theorem rpc_health_blind_witness:
  "\<not> ph_redis_connected (snd (rpc_health 0 (ra_services started_app) (ra_admin started_app))) \<and>
   ph_kafka_connected (snd (rpc_health 0 (ra_services started_app) (ra_admin started_app)))"
  using rpc_health_blind [OF started_app_runs(1,2), of 0] by auto

end
