(* ===== verification/Spec2Isabelle.thy ===== *)
theory Spec2Isabelle
  imports Wire Workers Process H3_Library Redis_Memory Postgres_Remote Kafka_Remote Protobuf_Codec Grpc
begin

text \<open>
  SignalRoute: a verification of the C++ sources under \<open>src/src/\<close>.

  The program. Devices send location events to the gateway, which validates and rate-limits
  them and appends them to a topic of the broker. The processor reads the topic, drops
  duplicates and stale events, writes the latest state of the device to the device store with
  its spatial cell, evaluates the geofences of the cells left and entered, and keeps the event
  for the trip history, which it writes in batches. The query service answers the latest state,
  devices nearby and trips. The matching service assigns agents to requests: it looks for
  candidates nearby, reserves them for a limited time and lets a strategy choose. A runtime
  application starts the services of a role, reports their health over HTTP and stops them.
  Workers replay dead letters, clean the cell index and report metrics.

  The theories, in the order of their imports, with the files they model:
  \<^item> Prelude, Float64, Text: machine integers, results and exceptions, programs over a state,
    hash maps; the rationals and special values of a \<open>double\<close>; numbers and decimal text.
  \<^item> Domain, Config, Config\_Valid: \<open>common/types\<close>, \<open>common/config\<close>; what a loaded configuration
    guarantees.
  \<^item> Event\_Bus, Metrics, Kafka, Codec, Wire: \<open>common/events\<close>, \<open>common/metrics\<close>, \<open>common/composition\<close>,
    \<open>common/kafka\<close>, \<open>common/proto\<close>. Kafka\_Remote: \<open>common/kafka\<close> in a build with librdkafka.
  \<^item> Spatial, Redis, Postgres: \<open>common/spatial\<close>, \<open>geofence/point_in_polygon\<close>, \<open>common/clients\<close> in
    the build without the external libraries.
  \<^item> H3\_Library: \<open>common/spatial/h3_index\<close> over the H3 library. Redis\_Remote, Redis\_Server,
    Redis\_Memory: \<open>common/clients/redis_client\<close> over hiredis, what a server is relied on for, and a
    server in memory. Postgres\_Remote: \<open>common/clients/postgres_client\<close> over libpq.
  \<^item> Gateway\_Guards, Gateway\_Service: \<open>gateway/\<close>.
  \<^item> Dedup, Processor, Pipeline: \<open>processor/\<close>, and publication over the wired bus.
  \<^item> Fence\_Registry, Geofence: \<open>geofence/\<close>. World: the state the handlers of one process share.
  \<^item> Query: \<open>query/\<close>. Strategy, Matching: \<open>matching/\<close>. Workers: \<open>workers/\<close>.
  \<^item> Logging, Admin, Http\_Server: \<open>common/logging\<close>, \<open>common/admin\<close>, \<open>runtime/admin_*\<close> and
    \<open>runtime/metrics_exporter\<close>. Runtime, Process: \<open>runtime/runtime_application\<close>, \<open>main.cpp\<close>.
  \<^item> Generated, Grpc: \<open>common/proto/generated_conversions\<close> with the messages of \<open>proto/signalroute\<close>,
    and the RPCs of \<open>transport/grpc\<close> on the models of the services. Protobuf\_Codec: the payloads
    of a build with protobuf.

  How the code is read. A class is a record of its members, a method a function that returns
  the changed record; a pointer that may be empty is an \<open>option\<close>. An exception is the left part
  of a sum, with its text. Handlers that share state are programs \<open>'s \<Rightarrow> exc + 'a \<times> 's\<close>. Integers
  whose width matters are words or are wrapped explicitly. Hash maps are association lists, and
  what depends on their order is stated without it. Clocks, the file system, the socket calls,
  the functions of \<open>libm\<close>, the plug-in strategies, the external libraries and the servers behind
  them are parameters; where a property relies on one of them, its hypothesis says what is
  relied on.

  Two builds. The clients of Kafka, Redis, PostGIS and H3 are compiled with an external library or
  with a substitute in memory. The services are modelled over the substitutes. The clients of
  the external builds are modelled beside them, as programs that send commands or call library
  functions, and are related to the substitutes: a Redis client that is alone with its server at
  one time refines the store in memory, a fence survives its columns, a batch of statements is
  all or nothing, the callbacks of a producer are accounted for, the lag and the disks agree.

  What is shown, by group of lemmas:
  \<^item> the stores: the cell index agrees with the states after any updates, updates converge,
    reservations exclude each other, trips come back ordered, bounded and complete, batches are
    idempotent; the duplicate window stays within its bounds and remembers what it promises;
  \<^item> the gateway: an event is published exactly when the guards accept it, batches account for
    every event, the number of requests in flight is given back on every path;
  \<^item> the pipeline: publications end, an accepted event runs through state, fences and history
    in this order, a flush leaves its batch in the store or, as far as the producer takes it, in
    the dead-letter topic; the audit log of devices without a colon in their identifiers
    is a run of an abstract machine, evaluations and dwell checks change exactly what they must;
  \<^item> queries and matching: results are complete, fresh, within the radius and ordered; a match
    settles its reservations whatever the strategy does, and no agent is assigned twice;
  \<^item> the codecs, the log lines and the health document can be read back;
  \<^item> the runtime: a start is all or nothing, health means what it says, a stop leaves nothing
    behind, a process ends with the exit code that follows;
  \<^item> the RPCs: a caller is told of an event that it was published exactly when it was; a nearby
    search ends with a status; what the health RPC cannot see;
  \<^item> what another client of the same Redis server can break: an update that was overtaken, a
    release of a lock that has passed to somebody else.

  The interfaces are locales: \<open>rounding\<close> (Float64), \<open>message_log\<close> (Kafka), \<open>device_store\<close> and
  \<open>reservation_store\<close> (Redis), \<open>trip_store\<close> (Postgres), \<open>fence_index\<close> (Fence\_Registry),
  \<open>reservation_context\<close> and \<open>steady_context\<close> (Strategy), \<open>redis_server\<close> and \<open>redis_clock\<close>
  (Redis\_Server), \<open>transactional\<close> (Postgres\_Remote), \<open>delivering\<close> (Kafka\_Remote), \<open>h3_disks\<close>
  (H3\_Library). Each is interpreted on the definitions of the model, the last five on a server,
  a database, a cluster and a library made of the substitutes in memory, and the properties of
  the clients rest on the facts of that interpretation.

  Bounds. The size of a disk is computed in \<open>int\<close> and overflows from 26755 rings on; what the code
  does then is undefined, and the model raises (\<open>grid_disk\<close> of Spatial). The largest radius of 50 km
  gets there at the resolutions 14 and 15. The properties of nearby queries and of matching
  therefore assume \<open>disk_fits\<close> or \<open>searches_fit\<close>: the disk of the (largest) radius has a size that is
  an \<open>int\<close>. The default configuration satisfies this, with a margin. \<open>ceil_to_int\<close> is the cast of the quotient
  in \<open>radius_to_k\<close>, outside \<open>int\<close> it is undefined likewise and the model raises. The casts of container sizes to \<open>int\<close> (trip points answered, size of
  a batch) are not written out: containers are taken to be shorter than 2147483648. The values
  of a \<open>double\<close> do not tell the two zeros apart.

  Fuel. Nested publications get the fuel 4, above the rank of every event; reading a request and
  sending an answer get as fuel the bytes they may move. For each it is proved that it is
  enough. Loops that run until a flag is set are given the list of their rounds.

  Not modelled, and why. The insides of hiredis, libpq, librdkafka, the H3 library, protobuf and
  the gRPC server are not in the repository; what a command or a statement does at its server is
  a parameter. The geofence administration messages of \<open>proto/signalroute/geofence.proto\<close> are
  used by no code. Threads are modelled by the sequences of steps they take: the lock of a class
  covers the whole body of each of its methods, except for the admission counter, which is a step
  relation of its own, and the Redis client of the hiredis build, whose commands interleave with
  those of other clients. Sleeping is left out, or is recorded where its length is computed. A socket call, a callback and
  the joining of a thread return: a send that blocks for ever, as there is no send timeout, and a
  join that waits for such a thread are outside the model. A send to a connection that was reset
  ends the process by \<open>SIGPIPE\<close>, which no handler ignores; whether a connection is in this state is
  \<open>op_pipe\<close> of the socket calls (Http\_Server). The processor owns one producer for dead letters; its
  behaviour is a parameter of \<open>flush_with\<close> (Processor), and \<open>flush_history\<close> is its instance with the
  producer in memory.
\<close>

end
